(* ===== verification/XD_Prelude.thy ===== *)
theory XD_Prelude
  imports Main "HOL-Library.Word"
begin

text \<open>
  Shared vocabulary of the development: the machine integer and handle types of the C sources,
  the first-match search that every fixed-size table of the code performs
  (\<^verbatim>\<open>for (i = 0; i < MAX; i++) if (...) { ...; break; }\<close>), and the lemmas on lists and
  options that the components reuse. The collections \<open>table_simps\<close>, \<open>frame_simps\<close> and
  \<open>const_defs\<close> hold the rewrite rules that the component proofs share.
\<close>

named_theorems table_simps \<open>first-match search over the fixed tables\<close>
named_theorems frame_simps \<open>fields that an operation leaves alone\<close>
named_theorems const_defs \<open>numeric constants of the sources\<close>

type_synonym u8 = "8 word"
type_synonym u32 = "32 word"
type_synonym u64 = "64 word"

text \<open>
  Vulkan handles, file descriptors and C object pointers that the code only stores and compares
  are opaque numbers; \<open>0\<close> is \<^verbatim>\<open>VK_NULL_HANDLE\<close> and \<^verbatim>\<open>NULL\<close>.
\<close>

type_synonym handle = nat

abbreviation (input) null :: handle where
  "null \<equiv> 0"

section \<open>First-match search\<close>

fun first_index :: "('a \<Rightarrow> bool) \<Rightarrow> 'a list \<Rightarrow> nat option" where
  "first_index P [] = None"
| "first_index P (x # xs) = (if P x then Some 0 else map_option Suc (first_index P xs))"

lemma first_index_None [table_simps]: "first_index P xs = None \<longleftrightarrow> (\<forall>x \<in> set xs. \<not> P x)"
  by (induction xs) auto

lemma first_index_SomeD:
  "first_index P xs = Some i \<Longrightarrow> i < length xs \<and> P (xs ! i) \<and> (\<forall>j < i. \<not> P (xs ! j))"
proof (induction xs arbitrary: i)
  case Nil
  then show ?case by simp
next
  case (Cons x xs)
  show ?case
  proof (cases "P x")
    case True
    with Cons.prems show ?thesis by simp
  next
    case False
    with Cons.prems obtain k where k: "first_index P xs = Some k" "i = Suc k"
      by auto
    with Cons.IH [of k] False show ?thesis
      by (auto simp: nth_Cons split: nat.splits)
  qed
qed

lemma first_index_bound: "first_index P xs = Some i \<Longrightarrow> i < length xs"
  by (simp add: first_index_SomeD)

lemma first_index_sat: "first_index P xs = Some i \<Longrightarrow> P (xs ! i)"
  by (simp add: first_index_SomeD)

lemma first_index_least: "first_index P xs = Some i \<Longrightarrow> j < i \<Longrightarrow> \<not> P (xs ! j)"
  by (simp add: first_index_SomeD)

lemma first_index_eqI:
  assumes "i < length xs" and "P (xs ! i)" and "\<And>j. j < i \<Longrightarrow> \<not> P (xs ! j)"
  shows "first_index P xs = Some i"
proof (cases "first_index P xs")
  case None
  with assms(1,2) show ?thesis
    by (auto simp: first_index_None)
next
  case (Some k)
  with assms(2,3) have "\<not> k < i" and "\<not> i < k"
    using first_index_sat first_index_least by metis+
  with Some show ?thesis by simp
qed

lemma first_index_unique:
  assumes "i < length xs" and "P (xs ! i)"
    and "\<And>j. j < length xs \<Longrightarrow> P (xs ! j) \<Longrightarrow> j = i"
  shows "first_index P xs = Some i"
proof (rule first_index_eqI)
  show "i < length xs" and "P (xs ! i)"
    using assms(1,2) by simp_all
  fix j assume "j < i"
  with assms(1) have "j < length xs" and "j \<noteq> i" by auto
  with assms(3) show "\<not> P (xs ! j)" by blast
qed

lemma first_indexE:
  assumes "x \<in> set xs" and "P x"
  obtains k where "first_index P xs = Some k" and "k < length xs" and "P (xs ! k)"
proof (cases "first_index P xs")
  case None
  with assms show ?thesis by (auto simp: first_index_None)
next
  case (Some k)
  with that first_index_SomeD [OF Some] show ?thesis by blast
qed

lemma first_index_ex: "i < length xs \<Longrightarrow> P (xs ! i) \<Longrightarrow> \<exists>k \<le> i. first_index P xs = Some k"
proof -
  assume a: "i < length xs" "P (xs ! i)"
  then obtain k where k: "first_index P xs = Some k"
    by (metis first_index_None nth_mem option.exhaust)
  with a have "\<not> i < k" using first_index_least by metis
  with k show ?thesis by auto
qed

text \<open>
  Table entries are located by a key. Where a key occurs at most once among the entries in use,
  an update at one position answers every lookup as a map update does.
\<close>

definition keyed :: "('a \<Rightarrow> 'k option) \<Rightarrow> 'a list \<Rightarrow> bool" where
  "keyed key xs \<longleftrightarrow>
     (\<forall>i j. i < length xs \<longrightarrow> j < length xs \<longrightarrow> key (xs ! i) \<noteq> None \<longrightarrow>
        key (xs ! i) = key (xs ! j) \<longrightarrow> i = j)"

lemma keyedD:
  "keyed key xs \<Longrightarrow> i < length xs \<Longrightarrow> j < length xs \<Longrightarrow> key (xs ! i) = Some k \<Longrightarrow>
     key (xs ! j) = Some k \<Longrightarrow> i = j"
  by (auto simp: keyed_def)

lemma keyed_find:
  assumes "keyed key xs" and "i < length xs" and "key (xs ! i) = Some k"
  shows "first_index (\<lambda>x. key x = Some k) xs = Some i"
  using assms by (intro first_index_unique) (simp_all add: keyedD)

lemma keyed_update_free:
  assumes "keyed key xs" and "key y = None"
  shows "keyed key (xs[i := y])"
  unfolding keyed_def
proof (intro allI impI)
  fix a b
  assume ab: "a < length (xs[i := y])" "b < length (xs[i := y])"
    "key (xs[i := y] ! a) \<noteq> None" "key (xs[i := y] ! a) = key (xs[i := y] ! b)"
  with assms(2) have "a \<noteq> i" and "b \<noteq> i"
    by (auto simp: nth_list_update split: if_splits)
  with ab assms(1) show "a = b"
    by (auto simp: keyed_def)
qed

lemma keyed_update_fresh:
  assumes "keyed key xs" and "key y = Some k" and "\<And>x. x \<in> set xs \<Longrightarrow> key x \<noteq> Some k"
  shows "keyed key (xs[i := y])"
proof (cases "i < length xs")
  case True
  show ?thesis
    unfolding keyed_def
  proof (intro allI impI)
    fix a b
    assume ab: "a < length (xs[i := y])" "b < length (xs[i := y])"
      "key (xs[i := y] ! a) \<noteq> None" "key (xs[i := y] ! a) = key (xs[i := y] ! b)"
    show "a = b"
    proof (cases "a = i \<or> b = i")
      case True
      with ab assms(2,3) show ?thesis
        by (metis length_list_update nth_list_update nth_mem)
    next
      case False
      with ab assms(1) show ?thesis
        unfolding keyed_def by (metis length_list_update nth_list_update_neq)
    qed
  qed
next
  case False
  with assms(1) show ?thesis by (simp add: list_update_beyond)
qed

lemma keyed_update_same:
  assumes "keyed key xs" and "i < length xs" and "key y = key (xs ! i)"
  shows "keyed key (xs[i := y])"
  using assms unfolding keyed_def by (metis length_list_update nth_list_update)

lemma keyed_replicate: "key z = None \<Longrightarrow> keyed key (replicate n z)"
  by (simp add: keyed_def)

text \<open>The entry that a table holds for a key.\<close>

definition entry_of :: "('a \<Rightarrow> 'k option) \<Rightarrow> 'a list \<Rightarrow> 'k \<Rightarrow> 'a option" where
  "entry_of key xs k =
     (case first_index (\<lambda>x. key x = Some k) xs of None \<Rightarrow> None | Some i \<Rightarrow> Some (xs ! i))"

lemma entry_of_None: "entry_of key xs k = None \<longleftrightarrow> (\<forall>x \<in> set xs. key x \<noteq> Some k)"
  using first_index_None [of "\<lambda>x. key x = Some k" xs]
  by (auto simp: entry_of_def split: option.splits)

lemma entry_of_SomeI:
  "keyed key xs \<Longrightarrow> i < length xs \<Longrightarrow> key (xs ! i) = Some k \<Longrightarrow> entry_of key xs k = Some (xs ! i)"
  by (simp add: entry_of_def keyed_find)

lemma entry_of_SomeE:
  assumes "entry_of key xs k = Some y"
  obtains i where "i < length xs" and "key (xs ! i) = Some k" and "xs ! i = y"
    and "first_index (\<lambda>x. key x = Some k) xs = Some i"
  using assms by (auto simp: entry_of_def split: option.splits dest: first_index_SomeD)

lemma first_index_update_cong:
  "P y = P (xs ! i) \<Longrightarrow> i < length xs \<Longrightarrow> first_index P (xs[i := y]) = first_index P xs"
  by (induction xs arbitrary: i) (auto split: nat.splits)

lemma first_index_cong_nth:
  "length ys = length xs \<Longrightarrow> (\<And>i. i < length xs \<Longrightarrow> P (ys ! i) = Q (xs ! i)) \<Longrightarrow>
     first_index P ys = first_index Q xs"
proof (induction xs ys rule: list_induct2')
  case (4 x xs y ys)
  then have "P y = Q x" and "first_index P ys = first_index Q xs"
    using 4(3) [of 0] 4(3) [of "Suc i" for i] by (auto intro!: 4(1) elim!: meta_allE)
  then show ?case by simp
qed auto

lemma entry_of_update_other:
  assumes "i < length xs" and "key y \<noteq> Some k" and "key (xs ! i) \<noteq> Some k"
  shows "entry_of key (xs[i := y]) k = entry_of key xs k"
proof -
  have eq: "first_index (\<lambda>x. key x = Some k) (xs[i := y]) = first_index (\<lambda>x. key x = Some k) xs"
    using assms by (intro first_index_update_cong) auto
  show ?thesis
    unfolding entry_of_def eq
    using assms(3)
    by (auto split: option.splits dest!: first_index_sat) (metis nth_list_update_neq)
qed

lemma entry_of_update_fresh:
  assumes "keyed key xs" and "i < length xs" and "key (xs ! i) = None"
    and "key y = Some k" and "entry_of key xs k = None"
  shows "entry_of key (xs[i := y]) k' = (if k' = k then Some y else entry_of key xs k')"
proof -
  have "keyed key (xs[i := y])"
    using assms(1,4,5) by (intro keyed_update_fresh) (auto simp: entry_of_None)
  then show ?thesis
    using entry_of_SomeI [of key "xs[i := y]" i k] assms by (auto simp: entry_of_update_other)
qed

lemma entry_of_update_same:
  assumes "keyed key xs" and "i < length xs" and "key (xs ! i) = Some k" and "key y = Some k"
  shows "entry_of key (xs[i := y]) k' = (if k' = k then Some y else entry_of key xs k')"
proof -
  have "keyed key (xs[i := y])"
    using assms by (intro keyed_update_same) auto
  then show ?thesis
    using entry_of_SomeI [of key "xs[i := y]" i k] assms by (auto simp: entry_of_update_other)
qed

lemma entry_of_update_free:
  assumes "keyed key xs" and "i < length xs" and "key (xs ! i) = Some k" and "key y = None"
  shows "entry_of key (xs[i := y]) k' = (if k' = k then None else entry_of key xs k')"
proof (cases "k' = k")
  case True
  have "key (xs[i := y] ! j) \<noteq> Some k" if "j < length xs" for j
    using that assms by (cases "j = i") (auto dest: keyedD)
  with True show ?thesis
    by (auto simp: entry_of_None in_set_conv_nth)
next
  case False
  with assms show ?thesis by (simp add: entry_of_update_other)
qed

text \<open>A C loop that updates the elements of a table one by one.\<close>

lemma fold_index_upto:
  assumes upd: "\<And>i s. tab (g i s) = (tab s)[i := h (tab s ! i)]" and n: "n \<le> length (tab s)"
  shows "tab (fold (\<lambda>i s. if P (tab s ! i) then g i s else s) [0..<n] s) =
    map (\<lambda>e. if P e then h e else e) (take n (tab s)) @ drop n (tab s)"
  using n
proof (induction n)
  case (Suc n)
  let ?f = "\<lambda>i s. if P (tab s ! i) then g i s else s" and ?h = "\<lambda>e. if P e then h e else e"
  from Suc have IH: "tab (fold ?f [0..<n] s) = map ?h (take n (tab s)) @ drop n (tab s)" by simp
  have "tab (?f n (fold ?f [0..<n] s)) = (tab (fold ?f [0..<n] s))[n := ?h (tab (fold ?f [0..<n] s) ! n)]"
    by (simp add: upd)
  also have "\<dots> = (map ?h (take n (tab s)) @ drop n (tab s))[n := ?h (tab s ! n)]"
    using Suc.prems by (simp add: IH nth_append)
  also have "\<dots> = map ?h (take (Suc n) (tab s)) @ drop (Suc n) (tab s)"
    using Suc.prems by (simp add: list_update_append take_Suc_conv_app_nth Cons_nth_drop_Suc [symmetric])
  finally show ?case by simp
qed simp

lemma fold_index_update:
  assumes "\<And>i s. tab (g i s) = (tab s)[i := h (tab s ! i)]"
  shows "tab (fold (\<lambda>i s. if P (tab s ! i) then g i s else s) [0..<length (tab s)] s) =
    map (\<lambda>e. if P e then h e else e) (tab s)"
  using fold_index_upto [where tab = tab and g = g and h = h and n = "length (tab s)" and s = s and P = P, OF assms]
  by simp

text \<open>What such a loop appends to a log, when each update logs what the element calls for.\<close>

lemma fold_index_log:
  assumes upd: "\<And>i s. tab (g i s) = (tab s)[i := h (tab s ! i)]"
    and log: "\<And>i s. lg (g i s) = lg s @ k (tab s ! i)"
  shows "lg (fold (\<lambda>i s. if P (tab s ! i) then g i s else s) [0..<length (tab s)] s) =
    lg s @ concat (map (\<lambda>e. if P e then k e else []) (tab s))"
proof -
  let ?f = "\<lambda>i s. if P (tab s ! i) then g i s else s"
  have "lg (fold ?f [0..<n] s) = lg s @ concat (map (\<lambda>e. if P e then k e else []) (take n (tab s)))"
    if "n \<le> length (tab s)" for n
    using that
  proof (induction n)
    case (Suc n)
    let ?t = "fold ?f [0..<n] s"
    have "tab ?t ! n = tab s ! n"
      using fold_index_upto [where tab = tab and g = g and h = h and n = n and s = s and P = P, OF upd] Suc.prems
      by (simp add: nth_append)
    then have "lg (?f n ?t) = lg ?t @ (if P (tab s ! n) then k (tab s ! n) else [])" by (simp add: log)
    with Suc show ?case by (simp add: take_Suc_conv_app_nth)
  qed simp
  from this [of "length (tab s)"] show ?thesis by simp
qed

lemma fold_no_match: "\<forall>x \<in> set xs. \<not> P x \<Longrightarrow> fold (\<lambda>e d. if P e then g e else d) xs d = d"
  by (induction xs) auto

end
