(* ===== verification/C_String.thy ===== *)
theory C_String
  imports XD_Prelude
begin

text \<open>
  The parts of the C string library that the sources call, on \<open>string\<close> (a list of bytes).
  A C string is the bytes before the first NUL (\<open>cstr\<close>). \<open>atoi\<close> and \<open>strtoul10\<close>
  skip white space, take an optional sign and convert the longest run of decimal digits,
  as \<^verbatim>\<open>strtol\<close>/\<^verbatim>\<open>strtoul\<close> do in base 10, saturating at the limits of \<^verbatim>\<open>long\<close>
  (its width is a parameter, since the tree builds 32- and 64-bit objects).
\<close>

definition NUL :: char where
  "NUL = CHR 0x00"

definition cstr :: "string \<Rightarrow> string" where
  "cstr s = takeWhile (\<lambda>c. c \<noteq> NUL) s"

definition is_digit :: "char \<Rightarrow> bool" where
  "is_digit c \<longleftrightarrow> 48 \<le> (of_char c :: nat) \<and> (of_char c :: nat) \<le> 57"

definition is_space :: "char \<Rightarrow> bool" where
  "is_space c \<longleftrightarrow> c = CHR '' '' \<or> (9 \<le> (of_char c :: nat) \<and> (of_char c :: nat) \<le> 13)"

definition digit_val :: "char \<Rightarrow> nat" where
  "digit_val c = (of_char c :: nat) - 48"

fun digits_val :: "nat \<Rightarrow> string \<Rightarrow> nat" where
  "digits_val acc [] = acc"
| "digits_val acc (c # cs) =
     (if is_digit c then digits_val (acc * 10 + digit_val c) cs else acc)"

text \<open>Sign and magnitude of the number at the start of the text.\<close>

definition scan_number :: "string \<Rightarrow> bool \<times> nat" where
  "scan_number s =
     (case dropWhile is_space (cstr s) of
        [] \<Rightarrow> (False, 0)
      | c # cs \<Rightarrow>
          if c = CHR ''-'' then (True, digits_val 0 cs)
          else if c = CHR ''+'' then (False, digits_val 0 cs)
          else (False, digits_val 0 (c # cs)))"

definition strtol10 :: "nat \<Rightarrow> string \<Rightarrow> int" where
  "strtol10 w s =
     (case scan_number s of (neg, m) \<Rightarrow>
        if neg then max (- int m) (- (2 ^ (w - 1))) else min (int m) (2 ^ (w - 1) - 1))"

definition strtoul10 :: "nat \<Rightarrow> string \<Rightarrow> nat" where
  "strtoul10 w s =
     (case scan_number s of (neg, m) \<Rightarrow>
        if 2 ^ w \<le> m then 2 ^ w - 1
        else if neg then nat ((- int m) mod 2 ^ w) else m)"

text \<open>\<^verbatim>\<open>atoi\<close> is \<^verbatim>\<open>(int)strtol(s, NULL, 10)\<close> in this C library.\<close>

definition atoi :: "nat \<Rightarrow> string \<Rightarrow> int" where
  "atoi w s = sint (word_of_int (strtol10 w s) :: 32 word)"

text \<open>Decimal output of \<^verbatim>\<open>%u\<close> and \<^verbatim>\<open>%d\<close>.\<close>

fun dec :: "nat \<Rightarrow> string" where
  "dec n = (if n < 10 then [char_of (48 + n)] else dec (n div 10) @ [char_of (48 + n mod 10)])"

declare dec.simps [simp del]

definition dec_int :: "int \<Rightarrow> string" where
  "dec_int i = (if i < 0 then CHR ''-'' # dec (nat (- i)) else dec (nat i))"

text \<open>\<^verbatim>\<open>snprintf(buf, n, ...)\<close> keeps at most \<open>n - 1\<close> bytes of the formatted text.\<close>

definition snprintf_buf :: "nat \<Rightarrow> string \<Rightarrow> string" where
  "snprintf_buf n s = take (n - 1) s"

text \<open>\<^verbatim>\<open>strstr\<close>: the rest of the text from the first occurrence of the pattern.\<close>

fun is_prefix_of :: "string \<Rightarrow> string \<Rightarrow> bool" where
  "is_prefix_of [] ys = True"
| "is_prefix_of (x # xs) [] = False"
| "is_prefix_of (x # xs) (y # ys) = (x = y \<and> is_prefix_of xs ys)"

fun strstr :: "string \<Rightarrow> string \<Rightarrow> string option" where
  "strstr [] pat = (if pat = [] then Some [] else None)"
| "strstr (c # cs) pat = (if is_prefix_of pat (c # cs) then Some (c # cs) else strstr cs pat)"

text \<open>\<^verbatim>\<open>strchr\<close>: the rest of the text from the first occurrence of the character.\<close>

definition strchr :: "string \<Rightarrow> char \<Rightarrow> string option" where
  "strchr s c = (case dropWhile (\<lambda>x. x \<noteq> c) s of [] \<Rightarrow> None | r \<Rightarrow> Some r)"

section \<open>Lemmas\<close>

lemma is_prefix_of_iff: "is_prefix_of xs ys \<longleftrightarrow> (\<exists>zs. ys = xs @ zs)"
  by (induction xs ys rule: is_prefix_of.induct) auto

lemma strstr_None: "strstr s pat = None \<longleftrightarrow> (\<forall>a b. s \<noteq> a @ pat @ b)"
proof (induction s)
  case Nil
  then show ?case by simp
next
  case (Cons c cs)
  show ?case
  proof (cases "is_prefix_of pat (c # cs)")
    case True
    then obtain b where "c # cs = [] @ pat @ b"
      by (auto simp: is_prefix_of_iff)
    with True show ?thesis by (metis option.distinct(1) strstr.simps(2))
  next
    case False
    have "(\<exists>a b. c # cs = a @ pat @ b) \<longleftrightarrow> (\<exists>a b. cs = a @ pat @ b)"
    proof
      assume "\<exists>a b. c # cs = a @ pat @ b"
      then obtain a b where ab: "c # cs = a @ pat @ b" by blast
      with False have "a \<noteq> []" by (auto simp: is_prefix_of_iff)
      with ab show "\<exists>a b. cs = a @ pat @ b" by (cases a) auto
    next
      assume "\<exists>a b. cs = a @ pat @ b"
      then show "\<exists>a b. c # cs = a @ pat @ b" by (metis append_Cons)
    qed
    with False Cons.IH show ?thesis by auto
  qed
qed

lemma strstr_Some: "strstr s pat = Some r \<Longrightarrow> \<exists>a b. s = a @ pat @ b \<and> r = pat @ b"
proof (induction s)
  case Nil
  then show ?case by (auto split: if_splits)
next
  case (Cons c cs)
  show ?case
  proof (cases "is_prefix_of pat (c # cs)")
    case True
    with Cons.prems show ?thesis
      by (metis append_Nil is_prefix_of_iff option.inject strstr.simps(2))
  next
    case False
    with Cons show ?thesis by (metis append_Cons strstr.simps(2))
  qed
qed

lemma strchr_Some: "strchr s c = Some r \<Longrightarrow> \<exists>a t. s = a @ r \<and> r = c # t \<and> c \<notin> set a"
proof -
  assume a: "strchr s c = Some r"
  then have d: "dropWhile (\<lambda>x. x \<noteq> c) s = r" and r: "r \<noteq> []"
    by (auto simp: strchr_def split: list.splits)
  have "hd r = c" using d r hd_dropWhile [of "\<lambda>x. x \<noteq> c" s] by auto
  moreover have "s = takeWhile (\<lambda>x. x \<noteq> c) s @ r" using d by (metis takeWhile_dropWhile_id)
  moreover have "c \<notin> set (takeWhile (\<lambda>x. x \<noteq> c) s)" by (auto dest: set_takeWhileD)
  ultimately show ?thesis using r by (metis list.collapse)
qed

lemma length_snprintf_buf [simp]: "length (snprintf_buf n s) = min (length s) (n - 1)"
  by (simp add: snprintf_buf_def min.commute)

lemma snprintf_buf_fits: "length s < n \<Longrightarrow> snprintf_buf n s = s"
  by (simp add: snprintf_buf_def)

lemma length_dec: "n < 10 ^ k \<Longrightarrow> 0 < k \<Longrightarrow> length (dec n) \<le> k"
proof (induction n arbitrary: k rule: dec.induct)
  case (1 n)
  show ?case
  proof (cases "n < 10")
    case True
    with "1.prems" show ?thesis by (subst dec.simps) simp
  next
    case False
    obtain j where k: "k = Suc j"
      using "1.prems"(2) by (cases k) auto
    have j: "0 < j"
      using "1.prems"(1) k False by (cases j) auto
    have "n div 10 < 10 ^ j"
      using "1.prems"(1) k by (simp add: less_mult_imp_div_less)
    with "1.IH" [OF False] j have "length (dec (n div 10)) \<le> j" by blast
    with False k show ?thesis by (subst dec.simps) simp
  qed
qed

lemma digit_char: "n < 10 \<Longrightarrow> is_digit (char_of (48 + n :: nat)) \<and> digit_val (char_of (48 + n :: nat)) = n"
  by (simp add: is_digit_def digit_val_def)

lemma digits_val_append_digit:
  "list_all is_digit s \<Longrightarrow> is_digit c \<Longrightarrow>
     digits_val acc (s @ [c]) = digits_val acc s * 10 + digit_val c"
  by (induction acc s rule: digits_val.induct) auto

lemma dec_digits: "list_all is_digit (dec n)"
proof (induction n rule: dec.induct)
  case (1 n)
  then show ?case
    by (subst dec.simps) (auto simp: digit_char list_all_iff)
qed

lemma digits_val_dec: "digits_val 0 (dec n) = n"
proof (induction n rule: dec.induct)
  case (1 n)
  show ?case
  proof (cases "n < 10")
    case True
    then show ?thesis by (subst dec.simps) (simp add: digit_char)
  next
    case False
    with "1" have "digits_val 0 (dec (n div 10)) = n div 10" by simp
    with False show ?thesis
      by (subst dec.simps) (simp add: digits_val_append_digit dec_digits digit_char)
  qed
qed

lemma dec_nonempty [simp]: "dec n \<noteq> []"
  by (subst dec.simps) simp

lemma digit_not_special:
  "is_digit c \<Longrightarrow> c \<noteq> NUL \<and> \<not> is_space c \<and> c \<noteq> CHR ''-'' \<and> c \<noteq> CHR ''+''"
  by (auto simp: is_digit_def NUL_def is_space_def)

lemma scan_dec: "scan_number (dec n) = (False, n)"
proof -
  have d: "list_all is_digit (dec n)" by (rule dec_digits)
  then have c: "cstr (dec n) = dec n"
    by (auto simp: cstr_def takeWhile_eq_all_conv list_all_iff dest: digit_not_special)
  obtain x xs where x: "dec n = x # xs" by (cases "dec n") auto
  with d have "is_digit x" by simp
  with digit_not_special x c have "dropWhile is_space (cstr (dec n)) = x # xs" by simp
  with digit_not_special [OF \<open>is_digit x\<close>] digits_val_dec [of n] x show ?thesis
    by (simp add: scan_number_def)
qed

text \<open>Printing a number with \<^verbatim>\<open>%u\<close> and reading it back with \<^verbatim>\<open>strtoul\<close> gives the number.\<close>

lemma strtoul_dec: "n < 2 ^ w \<Longrightarrow> strtoul10 w (dec n) = n"
  by (simp add: strtoul10_def scan_dec)

lemma cstr_no_NUL: "NUL \<notin> set s \<Longrightarrow> cstr s = s"
  by (auto simp: cstr_def takeWhile_eq_all_conv)

lemma NUL_notin_cstr [simp]: "NUL \<notin> set (cstr s)"
  by (auto simp: cstr_def dest: set_takeWhileD)

lemma length_cstr_le: "length (cstr s) \<le> length s"
  by (simp add: cstr_def length_takeWhile_le)

end
