(* ===== verification/Vk_Base.thy ===== *)
theory Vk_Base
  imports XD_Prelude C_String
begin

text \<open>
  The world of \<^verbatim>\<open>src/vulkan/vkshim.c\<close>: the vendor blob and the operating system, which are
  not part of the repository, and the file-wide state the whole shim shares.

  The blob and the system are an argument \<open>env\<close> of every definition that calls them: a record
  of answers, each a function of the history of calls made so far (\<open>hist\<close>) and of the call's own
  arguments. Any deterministic peer fits, since its hidden state is a function of its history,
  and theorems quantify over \<open>env\<close>. Every call is appended to \<open>calls\<close>, so ordering and "never
  calls" claims are statements about that list. Arguments that the shim only passes through
  (\<^verbatim>\<open>VkAllocationCallbacks\<close>, create-info tails) are not recorded.

  The function pointers \<^verbatim>\<open>real_*\<close> are the set \<open>resolved\<close> of entry-point names whose pointer
  is not NULL; the property caches (\<^verbatim>\<open>static int x = -1\<close>) are the map \<open>prop_cache\<close>, keyed by
  the property name that each cache variable belongs to.
\<close>

section \<open>Vulkan data\<close>

datatype VkResult =
  VK_SUCCESS | VK_INCOMPLETE | VK_ERROR_INITIALIZATION_FAILED | VK_RESULT_OTHER int

type_synonym VkInstance = handle
type_synonym VkPhysicalDevice = handle
type_synonym VkDevice = handle
type_synonym VkPipelineCache = handle
type_synonym VkImage = handle
type_synonym VkDeviceMemory = handle
type_synonym VkBuffer = handle
type_synonym VkCommandBuffer = handle
type_synonym VkCommandPool = handle
type_synonym VkFramebuffer = handle
type_synonym VkFormat = nat
type_synonym VkFilter = nat

record VkExtent3D =
  width :: u32
  height :: u32
  depth :: u32

datatype VkImageType = VK_IMAGE_TYPE_1D | VK_IMAGE_TYPE_2D | VK_IMAGE_TYPE_3D

record VkImageCreateInfo =
  imageType :: VkImageType
  ci_format :: VkFormat
  ci_extent :: VkExtent3D
  mipLevels :: u32
  arrayLayers :: u32
  ci_usage :: u32

datatype VkImageLayout =
  LAYOUT_UNDEFINED | LAYOUT_TRANSFER_SRC_OPTIMAL | LAYOUT_TRANSFER_DST_OPTIMAL
| LAYOUT_OTHER nat

datatype access = ACCESS_NONE | ACCESS_TRANSFER_READ | ACCESS_TRANSFER_WRITE

record VkImageSubresourceLayers =
  aspectMask :: u32
  mipLevel :: u32
  baseArrayLayer :: u32
  layerCount :: u32

text \<open>Offsets are \<^verbatim>\<open>int32_t\<close>; a difference cast to \<^verbatim>\<open>uint32_t\<close> is the word difference.\<close>

record VkOffset3D =
  off_x :: u32
  off_y :: u32
  off_z :: u32

record VkImageBlit =
  srcSubresource :: VkImageSubresourceLayers
  srcOffset0 :: VkOffset3D
  srcOffset1 :: VkOffset3D
  dstSubresource :: VkImageSubresourceLayers
  dstOffset0 :: VkOffset3D
  dstOffset1 :: VkOffset3D

record VkImageCopy =
  cp_srcSubresource :: VkImageSubresourceLayers
  cp_srcOffset :: VkOffset3D
  cp_dstSubresource :: VkImageSubresourceLayers
  cp_dstOffset :: VkOffset3D
  cp_extent :: VkExtent3D

record VkMemoryRequirements =
  req_size :: u64
  memoryTypeBits :: u32

text \<open>\<^verbatim>\<open>VkPhysicalDeviceMemoryProperties\<close>: the property flags of each memory type (the list's
  length is \<^verbatim>\<open>memoryTypeCount\<close>) and the size of each heap.\<close>

record VkPhysicalDeviceMemoryProperties =
  memoryTypes :: "u32 list"
  memoryHeaps :: "u64 list"

section \<open>Calls that leave the shim\<close>

datatype pipeline_kind = Graphics | Compute

datatype stack_kind = WorkerStack | OwnThreadStack | CallerStack

datatype os_op =
  OpenRd string | Fstat string | ReadFile string nat | Unlink string
| OpenWr string | WriteFile string nat | CloseWr string | Rename string string

datatype draw_cmd =
  Draw "u32 list" | DrawIndexed "u32 list" | DrawIndirect VkBuffer "u32 list"
| DrawIndexedIndirect VkBuffer "u32 list" | ClearAttachments nat

datatype vk_call =
  C_now
| C_malloc nat
| C_os os_op
| C_prop_get string
| C_prop_set string string
| C_thread_create
| C_gdpa VkDevice string
| C_gipa VkInstance string
| C_CreatePipelineCache VkDevice string
| C_MergePipelineCaches VkDevice VkPipelineCache "VkPipelineCache list"
| C_GetPipelineCacheSize VkDevice VkPipelineCache
| C_GetPipelineCacheData VkDevice VkPipelineCache nat
| C_DestroyPipelineCache VkDevice VkPipelineCache
| C_CreatePipelines pipeline_kind VkDevice VkPipelineCache u32 stack_kind
| C_CreateDevice VkPhysicalDevice "string list"
| C_DestroyDevice VkDevice
| C_CreateInstance
| C_CreateImage VkDevice "VkImageCreateInfo option"
| C_DestroyImage VkDevice VkImage
| C_GetImageMemoryRequirements VkDevice VkImage
| C_AllocateMemory VkDevice u64 u32
| C_FreeMemory VkDevice VkDeviceMemory
| C_BindImageMemory VkDevice VkImage VkDeviceMemory u64
| C_BindBufferMemory VkDevice VkBuffer VkDeviceMemory u64
| C_GetMemoryProperties VkPhysicalDevice
| C_CmdPipelineBarrier VkCommandBuffer VkImage VkImageLayout VkImageLayout access access
| C_CmdCopyImage VkCommandBuffer VkImage VkImageLayout VkImage VkImageLayout VkImageCopy
| C_CmdBlitImage VkCommandBuffer VkImage VkImageLayout VkImage VkImageLayout "VkImageBlit list" VkFilter
| C_CmdBeginRenderPass VkCommandBuffer VkFramebuffer nat
| C_CmdEndRenderPass VkCommandBuffer
| C_CmdNextSubpass VkCommandBuffer nat
| C_CmdDraw VkCommandBuffer draw_cmd
| C_BeginCommandBuffer VkCommandBuffer
| C_ResetCommandBuffer VkCommandBuffer nat
| C_FreeCommandBuffers VkDevice VkCommandPool "VkCommandBuffer list"
| C_AllocateCommandBuffers VkDevice VkCommandPool u32
| C_ResetCommandPool VkDevice VkCommandPool nat
| C_DestroyCommandPool VkDevice VkCommandPool
| C_query string handle
| C_dev_query string VkDevice handle
| C_dlopen string
| C_dlsym string
| C_hal_open string

type_synonym hist = "vk_call list"

section \<open>The vendor blob and the operating system\<close>

record env =
  e_lp64 :: bool
  e_now :: "hist \<Rightarrow> u64"
  e_malloc :: "hist \<Rightarrow> nat \<Rightarrow> bool"
  e_prop :: "hist \<Rightarrow> string \<Rightarrow> string"
  e_uid :: u32
  e_cmdline :: "string option"
  e_io :: "hist \<Rightarrow> os_op \<Rightarrow> bool"
  e_thread :: "hist \<Rightarrow> bool"
  e_gdpa :: "VkDevice \<Rightarrow> string \<Rightarrow> bool"
  e_gipa :: "VkInstance \<Rightarrow> string \<Rightarrow> bool"
  e_CreatePipelineCache :: "hist \<Rightarrow> VkDevice \<Rightarrow> string \<Rightarrow> VkResult \<times> VkPipelineCache"
  e_MergePipelineCaches :: "hist \<Rightarrow> VkDevice \<Rightarrow> VkPipelineCache \<Rightarrow> VkPipelineCache list \<Rightarrow> VkResult"
  e_GetPipelineCacheSize :: "hist \<Rightarrow> VkDevice \<Rightarrow> VkPipelineCache \<Rightarrow> VkResult \<times> nat"
  e_GetPipelineCacheData :: "hist \<Rightarrow> VkDevice \<Rightarrow> VkPipelineCache \<Rightarrow> nat \<Rightarrow> VkResult \<times> string"
  e_CreatePipelines :: "hist \<Rightarrow> pipeline_kind \<Rightarrow> VkDevice \<Rightarrow> VkPipelineCache \<Rightarrow> u32 \<Rightarrow> VkResult"
  e_CreateDevice :: "hist \<Rightarrow> VkPhysicalDevice \<Rightarrow> string list \<Rightarrow> VkResult \<times> VkDevice"
  e_CreateInstance :: "hist \<Rightarrow> VkResult \<times> VkInstance"
  e_CreateImage :: "hist \<Rightarrow> VkDevice \<Rightarrow> VkImageCreateInfo option \<Rightarrow> VkResult \<times> VkImage"
  e_GetImageMemoryRequirements :: "hist \<Rightarrow> VkDevice \<Rightarrow> VkImage \<Rightarrow> VkMemoryRequirements"
  e_AllocateMemory :: "hist \<Rightarrow> VkDevice \<Rightarrow> u64 \<Rightarrow> u32 \<Rightarrow> VkResult \<times> VkDeviceMemory"
  e_BindMemory :: "hist \<Rightarrow> VkDevice \<Rightarrow> handle \<Rightarrow> VkDeviceMemory \<Rightarrow> u64 \<Rightarrow> VkResult"
  e_GetMemoryProperties :: "hist \<Rightarrow> VkPhysicalDevice \<Rightarrow> VkPhysicalDeviceMemoryProperties"
  e_BeginCommandBuffer :: "hist \<Rightarrow> VkCommandBuffer \<Rightarrow> VkResult"
  e_ResetCommandBuffer :: "hist \<Rightarrow> VkCommandBuffer \<Rightarrow> VkResult"
  e_AllocateCommandBuffers :: "hist \<Rightarrow> VkDevice \<Rightarrow> VkCommandPool \<Rightarrow> u32 \<Rightarrow> VkResult \<times> VkCommandBuffer list"
  e_ResetCommandPool :: "hist \<Rightarrow> VkDevice \<Rightarrow> VkCommandPool \<Rightarrow> VkResult"

section \<open>State shared by the whole shim\<close>

record vk_base =
  calls :: hist
  resolved :: "string set"
  prop_cache :: "string \<rightharpoonup> bool"
  files :: "string \<rightharpoonup> string"

definition log_call :: "vk_call \<Rightarrow> 'a vk_base_scheme \<Rightarrow> 'a vk_base_scheme" where
  "log_call c s = s\<lparr>calls := calls s @ [c]\<rparr>"

text \<open>\<^verbatim>\<open>now_ns\<close>: the monotonic clock.\<close>

definition now_ns :: "env \<Rightarrow> 'a vk_base_scheme \<Rightarrow> u64 \<times> 'a vk_base_scheme" where
  "now_ns env s = (e_now env (calls s), log_call C_now s)"

definition sys_malloc :: "env \<Rightarrow> nat \<Rightarrow> 'a vk_base_scheme \<Rightarrow> bool \<times> 'a vk_base_scheme" where
  "sys_malloc env n s = (e_malloc env (calls s) n, log_call (C_malloc n) s)"

text \<open>\<^verbatim>\<open>__system_property_get\<close> fills a \<^verbatim>\<open>char[PROP_VALUE_MAX]\<close> (92) and leaves it empty when the
  property is not set.\<close>

definition sys_prop_get :: "env \<Rightarrow> string \<Rightarrow> 'a vk_base_scheme \<Rightarrow> string \<times> 'a vk_base_scheme" where
  "sys_prop_get env name s = (take 91 (cstr (e_prop env (calls s) name)), log_call (C_prop_get name) s)"

text \<open>File operations on the explicit file store. \<open>e_io\<close> decides whether the system lets the
  call succeed; what a successful call does to the store is fixed here.\<close>

definition os_open_rd :: "env \<Rightarrow> string \<Rightarrow> 'a vk_base_scheme \<Rightarrow> bool \<times> 'a vk_base_scheme" where
  "os_open_rd env p s =
     (p \<in> dom (files s) \<and> e_io env (calls s) (OpenRd p), log_call (C_os (OpenRd p)) s)"

definition os_fstat :: "env \<Rightarrow> string \<Rightarrow> 'a vk_base_scheme \<Rightarrow> nat option \<times> 'a vk_base_scheme" where
  "os_fstat env p s =
     (if e_io env (calls s) (Fstat p) then map_option length (files s p) else None,
      log_call (C_os (Fstat p)) s)"

definition os_read :: "env \<Rightarrow> string \<Rightarrow> nat \<Rightarrow> 'a vk_base_scheme \<Rightarrow> string option \<times> 'a vk_base_scheme" where
  "os_read env p n s =
     (if e_io env (calls s) (ReadFile p n) then map_option (take n) (files s p) else None,
      log_call (C_os (ReadFile p n)) s)"

definition os_unlink :: "env \<Rightarrow> string \<Rightarrow> 'a vk_base_scheme \<Rightarrow> bool \<times> 'a vk_base_scheme" where
  "os_unlink env p s =
     (let ok = p \<in> dom (files s) \<and> e_io env (calls s) (Unlink p) in
      (ok, log_call (C_os (Unlink p)) (if ok then s\<lparr>files := (files s)(p := None)\<rparr> else s)))"

text \<open>\<^verbatim>\<open>open(O_WRONLY | O_CREAT | O_TRUNC)\<close> leaves an empty file; a successful write of the whole
  buffer to the fresh descriptor makes the buffer its contents.\<close>

definition os_open_wr :: "env \<Rightarrow> string \<Rightarrow> 'a vk_base_scheme \<Rightarrow> bool \<times> 'a vk_base_scheme" where
  "os_open_wr env p s =
     (let ok = e_io env (calls s) (OpenWr p) in
      (ok, log_call (C_os (OpenWr p)) (if ok then s\<lparr>files := (files s)(p \<mapsto> [])\<rparr> else s)))"

definition os_write :: "env \<Rightarrow> string \<Rightarrow> string \<Rightarrow> 'a vk_base_scheme \<Rightarrow> bool \<times> 'a vk_base_scheme" where
  "os_write env p d s =
     (let ok = e_io env (calls s) (WriteFile p (length d)) in
      (ok, log_call (C_os (WriteFile p (length d)))
             (if ok then s\<lparr>files := (files s)(p \<mapsto> d)\<rparr> else s)))"

definition os_close :: "env \<Rightarrow> string \<Rightarrow> 'a vk_base_scheme \<Rightarrow> bool \<times> 'a vk_base_scheme" where
  "os_close env p s = (e_io env (calls s) (CloseWr p), log_call (C_os (CloseWr p)) s)"

definition os_rename :: "env \<Rightarrow> string \<Rightarrow> string \<Rightarrow> 'a vk_base_scheme \<Rightarrow> bool \<times> 'a vk_base_scheme" where
  "os_rename env a b s =
     (let ok = a \<in> dom (files s) \<and> e_io env (calls s) (Rename a b) in
      (ok, log_call (C_os (Rename a b))
             (if ok then s\<lparr>files := (files s)(b := files s a, a := None)\<rparr> else s)))"

definition long_bits :: "env \<Rightarrow> nat" where
  "long_bits env = (if e_lp64 env then 64 else 32)"

section \<open>Property gates and entry-point resolution\<close>

text \<open>\<^verbatim>\<open>prop_on\<close>: on unless the property starts with '0'; \<^verbatim>\<open>prop_explicit_on\<close>: off unless it
  starts with '1'. Both read the property once and remember the answer.\<close>

definition prop_on :: "env \<Rightarrow> string \<Rightarrow> 'a vk_base_scheme \<Rightarrow> bool \<times> 'a vk_base_scheme" where
  "prop_on env name s =
     (case prop_cache s name of
        Some b \<Rightarrow> (b, s)
      | None \<Rightarrow>
          (let (v, s) = sys_prop_get env name s;
               b = (case v of [] \<Rightarrow> True | c # _ \<Rightarrow> c \<noteq> CHR ''0'')
           in (b, s\<lparr>prop_cache := (prop_cache s)(name \<mapsto> b)\<rparr>)))"

definition prop_explicit_on :: "env \<Rightarrow> string \<Rightarrow> 'a vk_base_scheme \<Rightarrow> bool \<times> 'a vk_base_scheme" where
  "prop_explicit_on env name s =
     (case prop_cache s name of
        Some b \<Rightarrow> (b, s)
      | None \<Rightarrow>
          (let (v, s) = sys_prop_get env name s;
               b = (case v of [] \<Rightarrow> False | c # _ \<Rightarrow> c = CHR ''1'')
           in (b, s\<lparr>prop_cache := (prop_cache s)(name \<mapsto> b)\<rparr>)))"

text \<open>\<^verbatim>\<open>if (!real_x) real_x = real_gdpa(dev, name);\<close> and the same through the instance.\<close>

definition resolve_dev :: "env \<Rightarrow> VkDevice \<Rightarrow> string \<Rightarrow> 'a vk_base_scheme \<Rightarrow> 'a vk_base_scheme" where
  "resolve_dev env dev name s =
     (if name \<in> resolved s then s
      else let s = log_call (C_gdpa dev name) s in
        if e_gdpa env dev name then s\<lparr>resolved := insert name (resolved s)\<rparr> else s)"

definition resolve_inst :: "env \<Rightarrow> VkInstance \<Rightarrow> string \<Rightarrow> 'a vk_base_scheme \<Rightarrow> 'a vk_base_scheme" where
  "resolve_inst env inst name s =
     (if name \<in> resolved s then s
      else let s = log_call (C_gipa inst name) s in
        if e_gipa env inst name then s\<lparr>resolved := insert name (resolved s)\<rparr> else s)"

abbreviation has :: "'a vk_base_scheme \<Rightarrow> string \<Rightarrow> bool" where
  "has s name \<equiv> name \<in> resolved s"

section \<open>A concrete driver\<close>

text \<open>A driver and a system that grant every request and hand out a new handle each time, for an
  app process: the instance at which the theorems are exercised.\<close>

definition env_demo :: env where
  "env_demo = \<lparr>e_lp64 = True, e_now = (\<lambda>h. of_nat (length h)), e_malloc = (\<lambda>_ _. True),
     e_prop = (\<lambda>_ _. []), e_uid = 10042, e_cmdline = Some ''org.demo'', e_io = (\<lambda>_ _. True),
     e_thread = (\<lambda>_. True), e_gdpa = (\<lambda>_ _. True), e_gipa = (\<lambda>_ _. True),
     e_CreatePipelineCache = (\<lambda>h _ _. (VK_SUCCESS, length h + 100)),
     e_MergePipelineCaches = (\<lambda>_ _ _ _. VK_SUCCESS),
     e_GetPipelineCacheSize = (\<lambda>_ _ _. (VK_SUCCESS, 3)),
     e_GetPipelineCacheData = (\<lambda>_ _ _ n. (VK_SUCCESS, take n ''abc'')),
     e_CreatePipelines = (\<lambda>_ _ _ _ _. VK_SUCCESS),
     e_CreateDevice = (\<lambda>h _ _. (VK_SUCCESS, length h + 100)),
     e_CreateInstance = (\<lambda>h. (VK_SUCCESS, length h + 100)),
     e_CreateImage = (\<lambda>h _ _. (VK_SUCCESS, length h + 100)),
     e_GetImageMemoryRequirements = (\<lambda>_ _ _. \<lparr>req_size = 4096, memoryTypeBits = 2\<rparr>),
     e_AllocateMemory = (\<lambda>h _ _ _. (VK_SUCCESS, length h + 100)),
     e_BindMemory = (\<lambda>_ _ _ _ _. VK_SUCCESS),
     e_GetMemoryProperties = (\<lambda>_ _. \<lparr>memoryTypes = [2, 1], memoryHeaps = [1024, 2048]\<rparr>),
     e_BeginCommandBuffer = (\<lambda>_ _. VK_SUCCESS), e_ResetCommandBuffer = (\<lambda>_ _. VK_SUCCESS),
     e_AllocateCommandBuffers = (\<lambda>h _ _ n. (VK_SUCCESS, map (\<lambda>i. length h + 100 + i) [0..<unat n])),
     e_ResetCommandPool = (\<lambda>_ _ _. VK_SUCCESS)\<rparr>"

section \<open>Lemmas\<close>

declare log_call_def [simp]

text \<open>The definitions of the system calls, for proofs that need their effects.\<close>

lemmas os_defs = now_ns_def sys_malloc_def sys_prop_get_def os_open_rd_def os_fstat_def os_read_def
  os_unlink_def os_open_wr_def os_write_def os_close_def os_rename_def

text \<open>A property gate answers the same for the life of the process, whatever the property
  becomes.\<close>

lemma prop_on_cached:
  "prop_on env name s = (b, s') \<Longrightarrow> prop_cache s' name = Some b"
  by (auto simp: prop_on_def sys_prop_get_def Let_def split: option.splits)

lemma prop_explicit_on_cached:
  "prop_explicit_on env name s = (b, s') \<Longrightarrow> prop_cache s' name = Some b"
  by (auto simp: prop_explicit_on_def sys_prop_get_def Let_def split: option.splits)

lemma prop_on_hit [simp]: "prop_cache s name = Some b \<Longrightarrow> prop_on env name s = (b, s)"
  by (simp add: prop_on_def)

lemma prop_explicit_on_hit [simp]:
  "prop_cache s name = Some b \<Longrightarrow> prop_explicit_on env name s = (b, s)"
  by (simp add: prop_explicit_on_def)

end
