(* ===== verification/Handle_Table.thy ===== *)
theory Handle_Table
  imports XD_Prelude
begin

text \<open>
  The contract of the shim's fixed-size tables. A table is bounded, an entry is inserted for a
  handle that has none, and removed when the object goes away; a full table drops the newcomer
  and never evicts anyone. Clients rely only on the laws below: the results on whole sequences
  of insertions and removals are proved once here and reach the concrete tables by
  interpretation.
\<close>

datatype ('k, 'v) table_op = Ins 'k 'v | Del 'k

text \<open>A client's use of a table, and of the map the table stands for. \<open>ops_ok\<close>: insertions are of
  new handles and find a free slot.\<close>

fun table_step :: "('k \<Rightarrow> 'v \<Rightarrow> 't \<Rightarrow> 't) \<Rightarrow> ('k \<Rightarrow> 't \<Rightarrow> 't) \<Rightarrow> ('k, 'v) table_op \<Rightarrow> 't \<Rightarrow> 't" where
  "table_step ins del (Ins k v) t = ins k v t"
| "table_step ins del (Del k) t = del k t"

fun map_step :: "('k, 'v) table_op \<Rightarrow> ('k \<rightharpoonup> 'v) \<Rightarrow> ('k \<rightharpoonup> 'v)" where
  "map_step (Ins k v) m = m(k \<mapsto> v)"
| "map_step (Del k) m = m(k := None)"

fun step_ok :: "('k \<Rightarrow> bool) \<Rightarrow> ('t \<Rightarrow> bool) \<Rightarrow> ('t \<Rightarrow> 'k \<Rightarrow> 'v option) \<Rightarrow> ('k, 'v) table_op \<Rightarrow> 't \<Rightarrow> bool" where
  "step_ok valid full look (Ins k v) t = (valid k \<and> look t k = None \<and> \<not> full t)"
| "step_ok valid full look (Del k) t = valid k"

fun ops_ok :: "('k \<Rightarrow> bool) \<Rightarrow> ('t \<Rightarrow> bool) \<Rightarrow> ('t \<Rightarrow> 'k \<Rightarrow> 'v option) \<Rightarrow> ('k \<Rightarrow> 'v \<Rightarrow> 't \<Rightarrow> 't) \<Rightarrow>
    ('k \<Rightarrow> 't \<Rightarrow> 't) \<Rightarrow> ('k, 'v) table_op list \<Rightarrow> 't \<Rightarrow> bool" where
  "ops_ok valid full look ins del [] t = True"
| "ops_ok valid full look ins del (x # xs) t =
     (step_ok valid full look x t \<and> ops_ok valid full look ins del xs (table_step ins del x t))"

locale handle_table =
  fixes wf :: "'t \<Rightarrow> bool"
    and valid :: "'k \<Rightarrow> bool"
    and full :: "'t \<Rightarrow> bool"
    and look :: "'t \<Rightarrow> 'k \<Rightarrow> 'v option"
    and ins :: "'k \<Rightarrow> 'v \<Rightarrow> 't \<Rightarrow> 't"
    and del :: "'k \<Rightarrow> 't \<Rightarrow> 't"
  assumes wf_ins: "wf t \<Longrightarrow> valid k \<Longrightarrow> look t k = None \<Longrightarrow> wf (ins k v t)"
    and wf_del: "wf t \<Longrightarrow> valid k \<Longrightarrow> wf (del k t)"
    and look_ins: "wf t \<Longrightarrow> valid k \<Longrightarrow> valid k' \<Longrightarrow> look t k = None \<Longrightarrow> \<not> full t \<Longrightarrow>
      look (ins k v t) k' = (if k' = k then Some v else look t k')"
    and ins_full: "wf t \<Longrightarrow> valid k \<Longrightarrow> look t k = None \<Longrightarrow> full t \<Longrightarrow> ins k v t = t"
    and look_del: "wf t \<Longrightarrow> valid k \<Longrightarrow> valid k' \<Longrightarrow>
      look (del k t) k' = (if k' = k then None else look t k')"
begin

definition agrees :: "'t \<Rightarrow> ('k \<rightharpoonup> 'v) \<Rightarrow> bool" where
  "agrees t m \<longleftrightarrow> (\<forall>k. valid k \<longrightarrow> look t k = m k)"

lemma step_wf: "wf t \<Longrightarrow> step_ok valid full look x t \<Longrightarrow> wf (table_step ins del x t)"
  by (cases x) (auto intro: wf_ins wf_del)

lemma step_refines:
  "wf t \<Longrightarrow> step_ok valid full look x t \<Longrightarrow> agrees t m \<Longrightarrow>
     agrees (table_step ins del x t) (map_step x m)"
  by (cases x) (auto simp: agrees_def look_ins look_del)

lemma run_wf: "wf t \<Longrightarrow> ops_ok valid full look ins del xs t \<Longrightarrow> wf (fold (table_step ins del) xs t)"
  by (induction xs arbitrary: t) (auto simp: step_wf)

theorem run_refines:
  "wf t \<Longrightarrow> agrees t m \<Longrightarrow> ops_ok valid full look ins del xs t \<Longrightarrow>
     agrees (fold (table_step ins del) xs t) (fold map_step xs m)"
  by (induction xs arbitrary: t m) (auto simp: step_wf step_refines)

lemma ins_del_roundtrip:
  "wf t \<Longrightarrow> valid k \<Longrightarrow> valid k' \<Longrightarrow> look t k = None \<Longrightarrow> \<not> full t \<Longrightarrow>
     look (del k (ins k v t)) k' = look t k'"
  by (simp add: look_del look_ins wf_ins)

lemma ins_keeps_others:
  "wf t \<Longrightarrow> valid k \<Longrightarrow> valid k' \<Longrightarrow> look t k = None \<Longrightarrow> k' \<noteq> k \<Longrightarrow>
     look (ins k v t) k' = look t k'"
  by (cases "full t") (simp_all add: look_ins ins_full)

end

end
