(* ===== verification/Vk_Image.thy ===== *)
theory Vk_Image
  imports Vk_Base Handle_Table
begin

text \<open>
  The live image metadata table of \<^verbatim>\<open>vkshim.c\<close> (\<^verbatim>\<open>img_table\<close>, \<^verbatim>\<open>find_img\<close>, \<^verbatim>\<open>remember_img\<close>,
  \<^verbatim>\<open>forget_img\<close>) and the two hooks that maintain it. \<^verbatim>\<open>vkCmdBlitImage\<close> does not carry formats or
  extents; the blit emulation sizes its scratch images from this table, so what matters is that
  a live image is found with the data it was created with.
\<close>

definition IMG_TABLE_MAX :: nat where
  [const_defs]: "IMG_TABLE_MAX = 1024"

definition VK_IMAGE_ASPECT_COLOR_BIT :: u32 where
  [const_defs]: "VK_IMAGE_ASPECT_COLOR_BIT = 1"

record img_info =
  img :: VkImage
  format :: VkFormat
  extent :: VkExtent3D
  array_layers :: u32
  aspect :: u32
  used :: bool

record vk_img = vk_base +
  img_table :: "img_info list"

definition find_img :: "VkImage \<Rightarrow> img_info list \<Rightarrow> img_info option" where
  "find_img i tab =
     (case first_index (\<lambda>e. used e \<and> img e = i) tab of
        None \<Rightarrow> None
      | Some k \<Rightarrow> Some (tab ! k))"

definition remember_img ::
    "VkImage \<Rightarrow> VkFormat \<Rightarrow> VkExtent3D \<Rightarrow> u32 \<Rightarrow> img_info list \<Rightarrow> img_info list" where
  "remember_img i fmt ext layers tab =
     (case first_index (\<lambda>e. \<not> used e) tab of
        None \<Rightarrow> tab
      | Some slot \<Rightarrow>
          tab[slot := \<lparr>img = i, format = fmt, extent = ext, array_layers = layers,
                       aspect = VK_IMAGE_ASPECT_COLOR_BIT, used = True\<rparr>])"

definition forget_img :: "VkImage \<Rightarrow> img_info list \<Rightarrow> img_info list" where
  "forget_img i tab =
     (case first_index (\<lambda>e. used e \<and> img e = i) tab of
        None \<Rightarrow> tab
      | Some k \<Rightarrow> tab[k := (tab ! k)\<lparr>used := False\<rparr>])"

definition shim_CreateImage ::
    "env \<Rightarrow> VkDevice \<Rightarrow> VkImageCreateInfo option \<Rightarrow> 'a vk_img_scheme \<Rightarrow>
     (VkResult \<times> VkImage) \<times> 'a vk_img_scheme" where
  "shim_CreateImage env dev ci s =
     (let (r, out) = e_CreateImage env (calls s) dev ci;
          s = log_call (C_CreateImage dev ci) s
      in ((r, out),
          case ci of
            None \<Rightarrow> s
          | Some c \<Rightarrow>
              if r = VK_SUCCESS
              then s\<lparr>img_table := remember_img out (ci_format c) (ci_extent c) (arrayLayers c) (img_table s)\<rparr>
              else s))"

definition shim_DestroyImage :: "VkDevice \<Rightarrow> VkImage \<Rightarrow> 'a vk_img_scheme \<Rightarrow> 'a vk_img_scheme" where
  "shim_DestroyImage dev i s =
     log_call (C_DestroyImage dev i) (s\<lparr>img_table := forget_img i (img_table s)\<rparr>)"

section \<open>The table as a map from images to metadata\<close>

definition img_key :: "img_info \<Rightarrow> VkImage option" where
  "img_key e = (if used e then Some (img e) else None)"

definition img_wf :: "img_info list \<Rightarrow> bool" where
  "img_wf tab \<longleftrightarrow> length tab = IMG_TABLE_MAX \<and> keyed img_key tab"

definition img_full :: "img_info list \<Rightarrow> bool" where
  "img_full tab \<longleftrightarrow> list_all used tab"

definition img_look :: "img_info list \<Rightarrow> VkImage \<Rightarrow> (VkFormat \<times> VkExtent3D \<times> u32) option" where
  "img_look tab i = map_option (\<lambda>e. (format e, extent e, array_layers e)) (find_img i tab)"

definition img_ins :: "VkImage \<Rightarrow> VkFormat \<times> VkExtent3D \<times> u32 \<Rightarrow> img_info list \<Rightarrow> img_info list" where
  "img_ins i m tab = (case m of (fmt, ext, layers) \<Rightarrow> remember_img i fmt ext layers tab)"

definition img_empty :: "img_info list" where
  "img_empty = replicate IMG_TABLE_MAX
     \<lparr>img = null, format = 0, extent = \<lparr>width = 0, height = 0, depth = 0\<rparr>, array_layers = 0,
      aspect = 0, used = False\<rparr>"

lemma img_key_Some [simp]: "img_key e = Some i \<longleftrightarrow> used e \<and> img e = i"
  by (auto simp: img_key_def)

lemma img_key_None [simp]: "img_key e = None \<longleftrightarrow> \<not> used e"
  by (simp add: img_key_def)

lemma find_img_entry: "find_img i tab = entry_of img_key tab i"
  by (simp add: find_img_def entry_of_def)

lemma img_wf_empty: "img_wf img_empty"
  by (simp add: img_wf_def img_empty_def keyed_replicate)

lemma find_img_empty: "find_img i img_empty = None"
  by (simp add: find_img_entry entry_of_None img_empty_def)

lemma remember_img_full: "img_full tab \<Longrightarrow> remember_img i fmt ext layers tab = tab"
  using first_index_None [of "\<lambda>e. \<not> used e" tab]
  by (auto simp: remember_img_def img_full_def list_all_iff split: option.splits)

lemma remember_img_slot:
  assumes "\<not> img_full tab"
  obtains k where "first_index (\<lambda>e. \<not> used e) tab = Some k" and "k < length tab" and "\<not> used (tab ! k)"
  using assms first_indexE [of _ tab "\<lambda>e. \<not> used e"]
  by (auto simp: img_full_def list_all_iff)

lemma remember_img_wf:
  assumes "img_wf tab" and "find_img i tab = None"
  shows "img_wf (remember_img i fmt ext layers tab)"
proof (cases "img_full tab")
  case True
  with assms show ?thesis by (simp add: remember_img_full)
next
  case False
  then obtain k where "first_index (\<lambda>e. \<not> used e) tab = Some k" and "k < length tab"
    by (rule remember_img_slot)
  with assms show ?thesis
    unfolding img_wf_def remember_img_def
    by (auto simp: find_img_entry entry_of_None intro!: keyed_update_fresh)
qed

lemma find_remember_img:
  assumes "img_wf tab" and "find_img i tab = None" and "\<not> img_full tab"
  shows "find_img j (remember_img i fmt ext layers tab) =
     (if j = i then Some \<lparr>img = i, format = fmt, extent = ext, array_layers = layers,
         aspect = VK_IMAGE_ASPECT_COLOR_BIT, used = True\<rparr>
      else find_img j tab)"
proof -
  from assms(3) obtain k where k: "first_index (\<lambda>e. \<not> used e) tab = Some k"
    "k < length tab" "\<not> used (tab ! k)"
    by (rule remember_img_slot)
  with assms show ?thesis
    unfolding find_img_entry remember_img_def img_wf_def
    by (simp add: entry_of_update_fresh [where k = i])
qed

lemma forget_img_cases:
  assumes "img_wf tab"
  shows "forget_img i tab = tab \<and> find_img i tab = None
    \<or> (\<exists>k < length tab. used (tab ! k) \<and> img (tab ! k) = i \<and>
          forget_img i tab = tab[k := (tab ! k)\<lparr>used := False\<rparr>])"
proof (cases "first_index (\<lambda>e. used e \<and> img e = i) tab")
  case None
  then show ?thesis by (simp add: forget_img_def find_img_def)
next
  case (Some k)
  with first_index_SomeD [OF Some] show ?thesis by (auto simp: forget_img_def)
qed

lemma forget_img_wf: "img_wf tab \<Longrightarrow> img_wf (forget_img i tab)"
  using forget_img_cases [of tab i] by (auto simp: img_wf_def keyed_update_free)

lemma find_forget_img:
  "img_wf tab \<Longrightarrow> find_img j (forget_img i tab) = (if j = i then None else find_img j tab)"
  using forget_img_cases [of tab i]
  by (auto simp: img_wf_def find_img_entry entry_of_update_free [where k = i])

interpretation img: handle_table img_wf "\<lambda>_. True" img_full img_look img_ins forget_img
  by unfold_locales
    (auto simp: img_look_def img_ins_def remember_img_wf find_remember_img remember_img_full
      forget_img_wf find_forget_img split: prod.splits)

section \<open>Properties\<close>

text \<open>C12. Image metadata refines a map. From an empty table, any sequence of image creations and
  destructions in which a creation uses a handle that is not live and the table is not full
  leaves exactly the live images findable, each with the format, extent and layer count it was
  created with.\<close>

theorem img_table_refines_map:
  assumes "ops_ok (\<lambda>_. True) img_full img_look img_ins forget_img ops img_empty"
  shows "img_look (fold (table_step img_ins forget_img) ops img_empty) i = fold map_step ops Map.empty i"
proof -
  have "img.agrees img_empty Map.empty"
    by (simp add: img.agrees_def img_look_def find_img_empty)
  with img.run_refines [OF img_wf_empty _ assms] show ?thesis
    by (simp add: img.agrees_def)
qed

lemma img_not_full_empty: "\<not> img_full img_empty"
  by (simp add: img_full_def img_empty_def IMG_TABLE_MAX_def list_all_iff)

theorem img_table_refines_map_witness:
  "img_look (fold (table_step img_ins forget_img) [Ins 5 (37, \<lparr>width = 8, height = 8, depth = 1\<rparr>, 1)] img_empty) 5 =
     Some (37, \<lparr>width = 8, height = 8, depth = 1\<rparr>, 1)"
  by (subst img_table_refines_map) (simp_all add: img_look_def find_img_empty img_not_full_empty)

end
