(* ===== verification/Vk_Cache.thy ===== *)
theory Vk_Cache
  imports Vk_Image
begin

text \<open>
  The persistent pipeline cache of \<^verbatim>\<open>vkshim.c\<close>: the per-device cache slots, the table of
  app-supplied caches with batches in flight, priming from and saving to the file in the app's
  sandbox, the choice of the stack a compile runs on, and \<^verbatim>\<open>compile_batch\<close>, which wraps every
  \<^verbatim>\<open>vkCreate*Pipelines\<close> call. A pointer into \<^verbatim>\<open>dev_caches\<close> is the slot's index, NULL is
  \<open>None\<close>. \<open>pending\<close> is the first \<^verbatim>\<open>pending_count\<close> elements of the C array.
\<close>

section \<open>State\<close>

definition PENDING_MAX :: nat where [const_defs]: "PENDING_MAX = 8"
definition DEV_CACHE_MAX :: nat where [const_defs]: "DEV_CACHE_MAX = 4"
definition APP_CACHE_MAX :: nat where [const_defs]: "APP_CACHE_MAX = 16"
definition SLOW_NS :: u64 where [const_defs]: "SLOW_NS = 2 * 1000000000"
definition SAVE_MIN_INTERVAL_NS :: u64 where [const_defs]: "SAVE_MIN_INTERVAL_NS = 30 * 1000000000"
definition CACHE_MAX_MB :: nat where [const_defs]: "CACHE_MAX_MB = 64"
definition AID_APP_START :: nat where [const_defs]: "AID_APP_START = 10000"
definition AID_USER_OFFSET :: nat where [const_defs]: "AID_USER_OFFSET = 100000"
definition AID_ISOLATED_START :: nat where [const_defs]: "AID_ISOLATED_START = 99000"
definition CACHE_FILE :: string where "CACHE_FILE = ''vkshim.pcache''"
definition CACHE_GEN_FILE :: string where "CACHE_GEN_FILE = ''vkshim.gen''"
definition CACHE_GEN_PROP :: string where "CACHE_GEN_PROP = ''persist.sys.xdplus.vkcachegen''"
definition PROGRESS_PROP :: string where "PROGRESS_PROP = ''sys.xdplus.vkcompile''"

abbreviation (input) real_cpc :: string where "real_cpc \<equiv> ''vkCreatePipelineCache''"
abbreviation (input) real_mpc :: string where "real_mpc \<equiv> ''vkMergePipelineCaches''"
abbreviation (input) real_gpcd :: string where "real_gpcd \<equiv> ''vkGetPipelineCacheData''"
abbreviation (input) real_dpc :: string where "real_dpc \<equiv> ''vkDestroyPipelineCache''"

record dev_cache =
  dc_dev :: VkDevice
  dc_pc :: VkPipelineCache
  path :: string
  last_saved_size :: nat
  last_save_ns :: u64
  frozen :: bool
  master_in_use :: bool
  pending :: "VkPipelineCache list"
  warned_pending_full :: bool

definition dev_cache_zero :: dev_cache where
  "dev_cache_zero = \<lparr>dc_dev = null, dc_pc = null, path = [], last_saved_size = 0, last_save_ns = 0,
     frozen = False, master_in_use = False, pending = [], warned_pending_full = False\<rparr>"

text \<open>The big-stack worker of a calling thread: none yet, allocated but its thread could not be
  created, or running.\<close>

datatype worker = NoWorker | WorkerNotStarted | WorkerStarted

record vk_cache = vk_img +
  pkg :: string
  dev_caches :: "dev_cache list"
  warned_dev_cache_full :: bool
  app_inflight :: "(VkPipelineCache \<times> nat) list"
  warned_app_cache_full :: bool
  compiled_count :: u32
  slow_session :: bool
  workers :: "nat \<Rightarrow> worker"

text \<open>The state of a process that has just loaded the shim.\<close>

definition vk_cache_boot :: vk_cache where
  "vk_cache_boot = \<lparr>calls = [], resolved = {}, prop_cache = Map.empty, files = Map.empty, img_table = img_empty,
     pkg = [], dev_caches = replicate DEV_CACHE_MAX dev_cache_zero, warned_dev_cache_full = False,
     app_inflight = replicate APP_CACHE_MAX (null, 0), warned_app_cache_full = False,
     compiled_count = 0, slow_session = False, workers = (\<lambda>_. NoWorker)\<rparr>"

definition upd_cache :: "nat \<Rightarrow> (dev_cache \<Rightarrow> dev_cache) \<Rightarrow> 'a vk_cache_scheme \<Rightarrow> 'a vk_cache_scheme" where
  "upd_cache i f s = s\<lparr>dev_caches := (dev_caches s)[i := f (dev_caches s ! i)]\<rparr>"

section \<open>Device slots and in-flight app caches\<close>

definition cache_lookup :: "VkDevice \<Rightarrow> dev_cache list \<Rightarrow> nat option" where
  "cache_lookup dev tab = (if dev = null then None else first_index (\<lambda>c. dc_dev c = dev) tab)"

definition cache_claim :: "VkDevice \<Rightarrow> 'a vk_cache_scheme \<Rightarrow> nat option \<times> 'a vk_cache_scheme" where
  "cache_claim dev s =
     (case cache_lookup dev (dev_caches s) of
        Some i \<Rightarrow> (Some i, s)
      | None \<Rightarrow>
          (case first_index (\<lambda>c. dc_dev c = null) (dev_caches s) of
             Some i \<Rightarrow> (Some i, upd_cache i (\<lambda>_. dev_cache_zero\<lparr>dc_dev := dev\<rparr>) s)
           | None \<Rightarrow> (None, s\<lparr>warned_dev_cache_full := True\<rparr>)))"

text \<open>\<^verbatim>\<open>app_cache_ref\<close> answers whether the handle is tracked (the C function's 0 against -1).\<close>

definition app_cache_ref :: "VkPipelineCache \<Rightarrow> 'a vk_cache_scheme \<Rightarrow> bool \<times> 'a vk_cache_scheme" where
  "app_cache_ref pc s =
     (let tab = app_inflight s in
      case first_index (\<lambda>e. fst e = pc) tab of
        Some i \<Rightarrow> (True, s\<lparr>app_inflight := tab[i := (pc, snd (tab ! i) + 1)]\<rparr>)
      | None \<Rightarrow>
          (case first_index (\<lambda>e. fst e = null) tab of
             Some i \<Rightarrow> (True, s\<lparr>app_inflight := tab[i := (pc, 1)]\<rparr>)
           | None \<Rightarrow> (False, s\<lparr>warned_app_cache_full := True\<rparr>)))"

definition app_cache_unref :: "VkPipelineCache \<Rightarrow> 'a vk_cache_scheme \<Rightarrow> bool \<times> 'a vk_cache_scheme" where
  "app_cache_unref pc s =
     (let tab = app_inflight s in
      case first_index (\<lambda>e. fst e = pc) tab of
        Some i \<Rightarrow>
          (let n = snd (tab ! i) - 1 in
           if n = 0 then (True, s\<lparr>app_inflight := tab[i := (null, 0)]\<rparr>)
           else (False, s\<lparr>app_inflight := tab[i := (pc, n)]\<rparr>))
      | None \<Rightarrow> (False, s))"

section \<open>The cache file\<close>

definition pkg_name :: "env \<Rightarrow> 'a vk_cache_scheme \<Rightarrow> string \<times> 'a vk_cache_scheme" where
  "pkg_name env s =
     (if pkg s \<noteq> [] then (pkg s, s)
      else
        let raw = (case e_cmdline env of None \<Rightarrow> [] | Some c \<Rightarrow> take 95 c);
            p = (if raw = [] then ''unknown'' else cstr raw);
            p = takeWhile (\<lambda>c. c \<noteq> CHR '':'') p
        in (p, s\<lparr>pkg := p\<rparr>))"

definition cache_path_for_self :: "env \<Rightarrow> 'a vk_cache_scheme \<Rightarrow> string option \<times> 'a vk_cache_scheme" where
  "cache_path_for_self env s =
     (let uid = unat (e_uid env); appid = uid mod AID_USER_OFFSET in
      if appid < AID_APP_START \<or> AID_ISOLATED_START \<le> appid then (None, s)
      else
        let (p, s) = pkg_name env s in
        (Some (snprintf_buf 192
           (''/data/user/'' @ dec (uid div AID_USER_OFFSET) @ ''/'' @ p @ ''/cache/'' @ CACHE_FILE)), s))"

definition gen_path_of :: "string \<Rightarrow> string" where
  "gen_path_of p = snprintf_buf 256 (take (length p - length CACHE_FILE) p @ CACHE_GEN_FILE)"

definition read_stamp :: "env \<Rightarrow> string \<Rightarrow> 'a vk_cache_scheme \<Rightarrow> string \<times> 'a vk_cache_scheme" where
  "read_stamp env gp s =
     (let (ok, s) = os_open_rd env gp s in
      if ok then
        let (d, s) = os_read env gp 91 s in
        (case d of None \<Rightarrow> ([], s) | Some b \<Rightarrow> (cstr b, s))
      else ([], s))"

definition drop_cache_if_stale :: "env \<Rightarrow> string \<Rightarrow> 'a vk_cache_scheme \<Rightarrow> 'a vk_cache_scheme" where
  "drop_cache_if_stale env p s =
     (let (gen, s) = sys_prop_get env CACHE_GEN_PROP s in
      if gen = [] then s
      else
        let gp = gen_path_of p;
            (stamp, s) = read_stamp env gp s
        in
          if stamp = gen then s
          else
            let (_, s) = os_unlink env p s;
                (ok, s) = os_open_wr env gp s
            in if ok then let (_, s) = os_write env gp gen s; (_, s) = os_close env gp s in s
               else s)"

definition cap_bytes :: "env \<Rightarrow> string \<Rightarrow> nat \<Rightarrow> 'a vk_cache_scheme \<Rightarrow> nat \<times> 'a vk_cache_scheme" where
  "cap_bytes env name def_mb s =
     (let (v, s) = sys_prop_get env (snprintf_buf 96 (''debug.xdplus.'' @ name)) s;
          (v, s) = (if v = [] then sys_prop_get env (snprintf_buf 96 (''persist.sys.xdplus.'' @ name)) s
                    else (v, s));
          mb = (if v \<noteq> [] then strtoul10 (long_bits env) v mod 2 ^ 32 else def_mb);
          mb = (if mb = 0 then def_mb else mb)
      in ((mb * 1024 * 1024) mod 2 ^ long_bits env, s))"

definition resolve_cache_fns :: "env \<Rightarrow> VkDevice \<Rightarrow> 'a vk_cache_scheme \<Rightarrow> 'a vk_cache_scheme" where
  "resolve_cache_fns env dev s =
     resolve_dev env dev real_dpc (resolve_dev env dev real_gpcd
       (resolve_dev env dev real_mpc (resolve_dev env dev real_cpc s)))"

definition drv_cpc :: "env \<Rightarrow> VkDevice \<Rightarrow> string \<Rightarrow> 'a vk_cache_scheme \<Rightarrow>
    (VkResult \<times> VkPipelineCache) \<times> 'a vk_cache_scheme" where
  "drv_cpc env dev d s =
     (e_CreatePipelineCache env (calls s) dev d, log_call (C_CreatePipelineCache dev d) s)"

definition drv_mpc :: "VkDevice \<Rightarrow> VkPipelineCache \<Rightarrow> VkPipelineCache list \<Rightarrow>
    'a vk_cache_scheme \<Rightarrow> 'a vk_cache_scheme" where
  "drv_mpc dev dst srcs s = log_call (C_MergePipelineCaches dev dst srcs) s"

definition drv_dpc :: "VkDevice \<Rightarrow> VkPipelineCache \<Rightarrow> 'a vk_cache_scheme \<Rightarrow> 'a vk_cache_scheme" where
  "drv_dpc dev pc s = log_call (C_DestroyPipelineCache dev pc) s"

text \<open>The bytes of the cache file, or none: a missing, empty, unreadable or short file primes
  nothing.\<close>

definition load_initial :: "env \<Rightarrow> string \<Rightarrow> 'a vk_cache_scheme \<Rightarrow> string \<times> 'a vk_cache_scheme" where
  "load_initial env p s =
     (if p = [] then ([], s)
      else
        let (ok, s) = os_open_rd env p s in
        if \<not> ok then ([], s)
        else
          let (st, s) = os_fstat env p s in
          (case st of
             None \<Rightarrow> ([], s)
           | Some n \<Rightarrow>
               if n = 0 then ([], s)
               else
                 let (m, s) = sys_malloc env n s in
                 if \<not> m then ([], s)
                 else
                   let (d, s) = os_read env p n s in
                   (case d of None \<Rightarrow> ([], s) | Some b \<Rightarrow> if length b = n then (b, s) else ([], s))))"

text \<open>\<^verbatim>\<open>ensure_disk_cache\<close> claims a slot for the device and, when it has no cache yet, creates one
  (\<open>prime_slot\<close>, the rest of the C function).\<close>

definition prime_slot :: "env \<Rightarrow> VkDevice \<Rightarrow> nat \<Rightarrow> 'a vk_cache_scheme \<Rightarrow>
    VkPipelineCache \<times> 'a vk_cache_scheme" where
  "prime_slot env dev i s =
     (let s = resolve_cache_fns env dev s in
      if \<not> has s real_cpc \<or> \<not> has s real_gpcd then (null, s)
      else
        let (p, s) = cache_path_for_self env s;
            s = (case p of None \<Rightarrow> s
                 | Some q \<Rightarrow> drop_cache_if_stale env q (upd_cache i (\<lambda>c. c\<lparr>path := q\<rparr>) s));
            s = upd_cache i (\<lambda>c. c\<lparr>frozen := False\<rparr>) s;
            (initial, s) = load_initial env (path (dev_caches s ! i)) s;
            ((r, pc), s) = drv_cpc env dev initial s;
            ((r, pc), s) = (if r \<noteq> VK_SUCCESS \<and> initial \<noteq> [] then drv_cpc env dev [] s
                            else ((r, pc), s))
        in
          if r \<noteq> VK_SUCCESS then (null, s)
          else
            let (now, s) = now_ns env s in
            (pc, upd_cache i (\<lambda>c. c\<lparr>dc_pc := pc, last_saved_size := length initial,
                   last_save_ns := now\<rparr>) s))"

definition ensure_disk_cache :: "env \<Rightarrow> VkDevice \<Rightarrow> 'a vk_cache_scheme \<Rightarrow>
    VkPipelineCache \<times> 'a vk_cache_scheme" where
  "ensure_disk_cache env dev s =
     (case cache_claim dev s of
        (None, s) \<Rightarrow> (null, s)
      | (Some i, s) \<Rightarrow>
          if dc_pc (dev_caches s ! i) \<noteq> null then (dc_pc (dev_caches s ! i), s)
          else prime_slot env dev i s)"

text \<open>The write of the serialised cache: to a temporary file, renamed over the real one only
  after a complete write and a clean close.\<close>

definition write_cache_file :: "env \<Rightarrow> nat \<Rightarrow> string \<Rightarrow> 'a vk_cache_scheme \<Rightarrow> 'a vk_cache_scheme" where
  "write_cache_file env i d s =
     (let p = path (dev_caches s ! i);
          tmp = snprintf_buf 196 (p @ ''.tmp'');
          (ok, s) = os_open_wr env tmp s
      in
        if \<not> ok then s
        else
          let (wr, s) = os_write env tmp d s;
              (cl, s) = (if wr then os_close env tmp s else (False, s))
          in
            if wr \<and> cl then
              let (rn, s) = os_rename env tmp p s in
              if rn then upd_cache i (\<lambda>c. c\<lparr>last_saved_size := length d\<rparr>) s else s
            else
              let (_, s) = os_close env tmp s; (_, s) = os_unlink env tmp s in s)"

text \<open>The end of \<^verbatim>\<open>save_disk_cache\<close>, past its checks: note the time, serialise, write.\<close>

definition commit_cache :: "env \<Rightarrow> nat \<Rightarrow> nat \<Rightarrow> u64 \<Rightarrow> 'a vk_cache_scheme \<Rightarrow> 'a vk_cache_scheme" where
  "commit_cache env i n now s =
     (let s = upd_cache i (\<lambda>c. c\<lparr>last_save_ns := now\<rparr>) s;
          e = dev_caches s ! i;
          (m, s) = sys_malloc env n s
      in
        if \<not> m then s
        else
          let (r, d) = e_GetPipelineCacheData env (calls s) (dc_dev e) (dc_pc e) n;
              s = log_call (C_GetPipelineCacheData (dc_dev e) (dc_pc e) n) s
          in if r = VK_SUCCESS then write_cache_file env i d s else s)"

definition save_disk_cache :: "env \<Rightarrow> nat option \<Rightarrow> bool \<Rightarrow> 'a vk_cache_scheme \<Rightarrow> 'a vk_cache_scheme" where
  "save_disk_cache env c force s =
     (case c of
        None \<Rightarrow> s
      | Some i \<Rightarrow>
          let e = dev_caches s ! i in
          if dc_pc e = null \<or> \<not> has s real_gpcd \<or> path e = [] then s
          else
            let (now, s) = now_ns env s in
            if \<not> force \<and> last_save_ns e \<noteq> 0 \<and> now - last_save_ns e < SAVE_MIN_INTERVAL_NS then s
            else
              let (r, n) = e_GetPipelineCacheSize env (calls s) (dc_dev e) (dc_pc e);
                  s = log_call (C_GetPipelineCacheSize (dc_dev e) (dc_pc e)) s
              in
                if r \<noteq> VK_SUCCESS \<or> n = 0 then s
                else if n = last_saved_size e then s
                else
                  let (cap, s) = cap_bytes env ''vkcachemax'' CACHE_MAX_MB s in
                  if cap < n then upd_cache i (\<lambda>c. c\<lparr>frozen := True\<rparr>) s
                  else commit_cache env i n now s)"

definition publish_progress :: "env \<Rightarrow> 'a vk_cache_scheme \<Rightarrow> 'a vk_cache_scheme" where
  "publish_progress env s =
     (let (p, s) = pkg_name env s in
      log_call (C_prop_set PROGRESS_PROP
        (snprintf_buf 92 (p @ '':'' @ dec (unat (compiled_count s))))) s)"

section \<open>The stack a compile runs on\<close>

definition fn_compile :: "env \<Rightarrow> pipeline_kind \<Rightarrow> VkDevice \<Rightarrow> VkPipelineCache \<Rightarrow> u32 \<Rightarrow> stack_kind \<Rightarrow>
    'a vk_cache_scheme \<Rightarrow> VkResult \<times> 'a vk_cache_scheme" where
  "fn_compile env kind dev cache n st s =
     (e_CreatePipelines env (calls s) kind dev cache n,
      log_call (C_CreatePipelines kind dev cache n st) s)"

definition sys_thread_create :: "env \<Rightarrow> 'a vk_cache_scheme \<Rightarrow> bool \<times> 'a vk_cache_scheme" where
  "sys_thread_create env s = (e_thread env (calls s), log_call C_thread_create s)"

definition big_worker_get :: "env \<Rightarrow> nat \<Rightarrow> 'a vk_cache_scheme \<Rightarrow> bool \<times> 'a vk_cache_scheme" where
  "big_worker_get env tid s =
     (case workers s tid of
        WorkerStarted \<Rightarrow> (True, s)
      | WorkerNotStarted \<Rightarrow> (False, s)
      | NoWorker \<Rightarrow>
          let (m, s) = sys_malloc env 1 s in
          if \<not> m then (False, s)
          else
            let s = s\<lparr>workers := (workers s)(tid := WorkerNotStarted)\<rparr>;
                (ok, s) = sys_thread_create env s
            in if ok then (True, s\<lparr>workers := (workers s)(tid := WorkerStarted)\<rparr>) else (False, s))"

definition run_own_thread :: "env \<Rightarrow> pipeline_kind \<Rightarrow> VkDevice \<Rightarrow> VkPipelineCache \<Rightarrow> u32 \<Rightarrow>
    'a vk_cache_scheme \<Rightarrow> VkResult \<times> 'a vk_cache_scheme" where
  "run_own_thread env kind dev cache n s =
     (let (ok, s) = sys_thread_create env s in
      fn_compile env kind dev cache n (if ok then OwnThreadStack else CallerStack) s)"

definition run_big_stack :: "env \<Rightarrow> nat \<Rightarrow> pipeline_kind \<Rightarrow> VkDevice \<Rightarrow> VkPipelineCache \<Rightarrow> u32 \<Rightarrow>
    'a vk_cache_scheme \<Rightarrow> VkResult \<times> 'a vk_cache_scheme" where
  "run_big_stack env tid kind dev cache n s =
     (let (on, s) = prop_on env ''debug.xdplus.vkbigworker'' s in
      if \<not> on then run_own_thread env kind dev cache n s
      else
        let (w, s) = big_worker_get env tid s in
        if \<not> w then run_own_thread env kind dev cache n s
        else fn_compile env kind dev cache n WorkerStack s)"

section \<open>One pipeline-creation batch\<close>

definition drain_pending :: "nat option \<Rightarrow> 'a vk_cache_scheme \<Rightarrow> 'a vk_cache_scheme" where
  "drain_pending c s =
     (case c of
        None \<Rightarrow> s
      | Some i \<Rightarrow>
          let e = dev_caches s ! i in
          if pending e = [] then s
          else
            let s = (if has s real_mpc \<and> dc_pc e \<noteq> null
                     then drv_mpc (dc_dev e) (dc_pc e) (pending e) s else s);
                s = (if has s real_dpc then fold (drv_dpc (dc_dev e)) (pending e) s else s)
            in upd_cache i (\<lambda>c. c\<lparr>pending := []\<rparr>) s)"

text \<open>What one call carries from its first critical section to its second: the local variables
  of \<^verbatim>\<open>compile_batch\<close>. \<open>b_slot\<close> is \<^verbatim>\<open>*cache_slot\<close>, the cache the compile really uses.\<close>

record batch =
  b_dev :: VkDevice
  b_app_cache :: VkPipelineCache
  b_n :: u32
  b_own_master :: bool
  b_app_tracked :: bool
  b_scratch :: VkPipelineCache
  b_slot :: VkPipelineCache

text \<open>First critical section (\<^verbatim>\<open>cache_mu\<close> held).\<close>

definition batch_enter :: "env \<Rightarrow> VkDevice \<Rightarrow> VkPipelineCache \<Rightarrow> u32 \<Rightarrow> 'a vk_cache_scheme \<Rightarrow>
    batch \<times> 'a vk_cache_scheme" where
  "batch_enter env dev app n s =
     (let (shim, s) = ensure_disk_cache env dev s;
          c = cache_lookup dev (dev_caches s);
          (tracked, s) = (if app \<noteq> null then app_cache_ref app s else (False, s));
          b = \<lparr>b_dev = dev, b_app_cache = app, b_n = n, b_own_master = False,
               b_app_tracked = tracked, b_scratch = null, b_slot = app\<rparr>
      in
        case c of
          Some i \<Rightarrow>
            if app = null \<and> shim \<noteq> null \<and> \<not> master_in_use (dev_caches s ! i)
            then (b\<lparr>b_own_master := True, b_slot := shim\<rparr>,
                  upd_cache i (\<lambda>c. c\<lparr>master_in_use := True\<rparr>) s)
            else (b, s)
        | None \<Rightarrow> (b, s))"

text \<open>Between the critical sections: a private scratch cache when the shared one is taken.\<close>

definition batch_scratch :: "env \<Rightarrow> batch \<Rightarrow> 'a vk_cache_scheme \<Rightarrow> batch \<times> 'a vk_cache_scheme" where
  "batch_scratch env b s =
     (if \<not> b_own_master b \<and> b_app_cache b = null \<and> has s real_cpc then
        let ((r, pc), s) = drv_cpc env (b_dev b) [] s in
        if r = VK_SUCCESS then (b\<lparr>b_scratch := pc, b_slot := pc\<rparr>, s) else (b, s)
      else (b, s))"

text \<open>Second critical section, its prologue and its three exclusive branches: the batch compiled
  into the shared cache, into the app's cache, or into a scratch cache; the caller destroys the
  scratch cache that is left over.\<close>

definition finish_count :: "env \<Rightarrow> u32 \<Rightarrow> u64 \<Rightarrow> 'a vk_cache_scheme \<Rightarrow> 'a vk_cache_scheme" where
  "finish_count env n dt s =
     (let s = s\<lparr>compiled_count := compiled_count s + n\<rparr>;
          s = (if SLOW_NS < dt then s\<lparr>slow_session := True\<rparr> else s)
      in if slow_session s then publish_progress env s else s)"

definition finish_own :: "env \<Rightarrow> nat option \<Rightarrow> 'a vk_cache_scheme \<Rightarrow> 'a vk_cache_scheme" where
  "finish_own env c s =
     (let s = (case c of None \<Rightarrow> s | Some i \<Rightarrow> upd_cache i (\<lambda>c. c\<lparr>master_in_use := False\<rparr>) s)
      in save_disk_cache env c False (drain_pending c s))"

definition finish_app :: "env \<Rightarrow> batch \<Rightarrow> nat option \<Rightarrow> 'a vk_cache_scheme \<Rightarrow> 'a vk_cache_scheme" where
  "finish_app env b c s =
     (let (last_user, s) = (if b_app_tracked b then app_cache_unref (b_app_cache b) s else (False, s))
      in
        if \<not> last_user then s
        else
          let (harvest, s) = prop_explicit_on env ''debug.xdplus.vkcacheharvest'' s in
          (case c of
             Some i \<Rightarrow>
               if harvest \<and> has s real_mpc \<and> \<not> master_in_use (dev_caches s ! i)
                    \<and> dc_pc (dev_caches s ! i) \<noteq> null
               then save_disk_cache env c False (drain_pending c
                      (drv_mpc (b_dev b) (dc_pc (dev_caches s ! i)) [b_app_cache b] s))
               else s
           | None \<Rightarrow> s))"

definition finish_scratch :: "env \<Rightarrow> batch \<Rightarrow> nat option \<Rightarrow> 'a vk_cache_scheme \<Rightarrow>
    VkPipelineCache \<times> 'a vk_cache_scheme" where
  "finish_scratch env b c s =
     (case c of
        None \<Rightarrow> (b_scratch b, s)
      | Some i \<Rightarrow>
          if \<not> master_in_use (dev_caches s ! i) \<and> has s real_mpc \<and> dc_pc (dev_caches s ! i) \<noteq> null
          then (b_scratch b,
                save_disk_cache env c False (drain_pending c
                  (drv_mpc (b_dev b) (dc_pc (dev_caches s ! i)) [b_scratch b] s)))
          else if length (pending (dev_caches s ! i)) < PENDING_MAX
          then (null, upd_cache i (\<lambda>c. c\<lparr>pending := pending c @ [b_scratch b]\<rparr>) s)
          else (b_scratch b, upd_cache i (\<lambda>c. c\<lparr>warned_pending_full := True\<rparr>) s))"

definition batch_finish :: "env \<Rightarrow> batch \<Rightarrow> u64 \<Rightarrow> 'a vk_cache_scheme \<Rightarrow> 'a vk_cache_scheme" where
  "batch_finish env b dt s =
     (let s = finish_count env (b_n b) dt s;
          c = cache_lookup (b_dev b) (dev_caches s)
      in
        if b_own_master b then finish_own env c s
        else if b_app_cache b \<noteq> null then finish_app env b c s
        else if b_scratch b \<noteq> null then
          let (scratch, s) = finish_scratch env b c s
          in if scratch \<noteq> null \<and> has s real_dpc then drv_dpc (b_dev b) scratch s else s
        else s)"

text \<open>The whole function, for one thread with nothing else running.\<close>

definition compile_batch :: "env \<Rightarrow> nat \<Rightarrow> pipeline_kind \<Rightarrow> VkDevice \<Rightarrow> VkPipelineCache \<Rightarrow> u32 \<Rightarrow>
    'a vk_cache_scheme \<Rightarrow> VkResult \<times> 'a vk_cache_scheme" where
  "compile_batch env tid kind dev app n s =
     (let (b, s) = batch_enter env dev app n s;
          (b, s) = batch_scratch env b s;
          (t0, s) = now_ns env s;
          (r, s) = run_big_stack env tid kind dev (b_slot b) n s;
          (t1, s) = now_ns env s
      in (r, batch_finish env b (t1 - t0) s))"

definition shim_CreateGraphicsPipelines :: "env \<Rightarrow> nat \<Rightarrow> VkDevice \<Rightarrow> VkPipelineCache \<Rightarrow> u32 \<Rightarrow>
    'a vk_cache_scheme \<Rightarrow> VkResult \<times> 'a vk_cache_scheme" where
  "shim_CreateGraphicsPipelines env tid dev cache n s = compile_batch env tid Graphics dev cache n s"

definition shim_CreateComputePipelines :: "env \<Rightarrow> nat \<Rightarrow> VkDevice \<Rightarrow> VkPipelineCache \<Rightarrow> u32 \<Rightarrow>
    'a vk_cache_scheme \<Rightarrow> VkResult \<times> 'a vk_cache_scheme" where
  "shim_CreateComputePipelines env tid dev cache n s = compile_batch env tid Compute dev cache n s"

section \<open>The app's own operations on pipeline caches, and the end of a device\<close>

definition shim_CreatePipelineCache :: "env \<Rightarrow> VkDevice \<Rightarrow> string \<Rightarrow> 'a vk_cache_scheme \<Rightarrow>
    (VkResult \<times> VkPipelineCache) \<times> 'a vk_cache_scheme" where
  "shim_CreatePipelineCache env dev d s =
     (let ((r, out), s) = drv_cpc env dev d s in
      if r \<noteq> VK_SUCCESS then ((r, out), s)
      else
        let (on, s) = prop_on env ''debug.xdplus.vkcacheprime'' s in
        if \<not> on then ((r, out), s)
        else
          let (mine, s) = ensure_disk_cache env dev s in
          (case cache_lookup dev (dev_caches s) of
             Some i \<Rightarrow>
               if mine \<noteq> null \<and> mine \<noteq> out \<and> has s real_mpc \<and> \<not> master_in_use (dev_caches s ! i) then
                 let (_, s) = now_ns env s;
                     s = drv_mpc dev out [mine] s;
                     (_, s) = now_ns env s
                 in ((r, out), s)
               else ((r, out), s)
           | None \<Rightarrow> ((r, out), s)))"

definition shim_MergePipelineCaches :: "env \<Rightarrow> VkDevice \<Rightarrow> VkPipelineCache \<Rightarrow> VkPipelineCache list \<Rightarrow>
    'a vk_cache_scheme \<Rightarrow> VkResult \<times> 'a vk_cache_scheme" where
  "shim_MergePipelineCaches env dev dst srcs s =
     (e_MergePipelineCaches env (calls s) dev dst srcs, drv_mpc dev dst srcs s)"

text \<open>The size query (no output buffer) and the data query of \<^verbatim>\<open>vkGetPipelineCacheData\<close>.\<close>

definition shim_GetPipelineCacheSize :: "env \<Rightarrow> VkDevice \<Rightarrow> VkPipelineCache \<Rightarrow>
    'a vk_cache_scheme \<Rightarrow> (VkResult \<times> nat) \<times> 'a vk_cache_scheme" where
  "shim_GetPipelineCacheSize env dev pc s =
     (e_GetPipelineCacheSize env (calls s) dev pc, log_call (C_GetPipelineCacheSize dev pc) s)"

definition shim_GetPipelineCacheData :: "env \<Rightarrow> VkDevice \<Rightarrow> VkPipelineCache \<Rightarrow> nat \<Rightarrow>
    'a vk_cache_scheme \<Rightarrow> (VkResult \<times> string) \<times> 'a vk_cache_scheme" where
  "shim_GetPipelineCacheData env dev pc sz s =
     (e_GetPipelineCacheData env (calls s) dev pc sz, log_call (C_GetPipelineCacheData dev pc sz) s)"

definition shim_DestroyPipelineCache :: "VkDevice \<Rightarrow> VkPipelineCache \<Rightarrow>
    'a vk_cache_scheme \<Rightarrow> 'a vk_cache_scheme" where
  "shim_DestroyPipelineCache dev pc s =
     (let s = (case first_index (\<lambda>e. fst e = pc) (app_inflight s) of
                 None \<Rightarrow> s
               | Some i \<Rightarrow> s\<lparr>app_inflight := (app_inflight s)[i := (null, 0)]\<rparr>)
      in drv_dpc dev pc s)"

definition drop_disk_cache :: "env \<Rightarrow> nat option \<Rightarrow> bool \<Rightarrow> 'a vk_cache_scheme \<Rightarrow> 'a vk_cache_scheme" where
  "drop_disk_cache env c dev_alive s =
     (case c of
        None \<Rightarrow> s
      | Some i \<Rightarrow>
          let s = (if dev_alive then
                     let s = drain_pending c s in
                     if dc_pc (dev_caches s ! i) \<noteq> null then
                       let s = save_disk_cache env c True s in
                       if has s real_dpc
                       then drv_dpc (dc_dev (dev_caches s ! i)) (dc_pc (dev_caches s ! i)) s else s
                     else s
                   else s)
          in upd_cache i (\<lambda>_. dev_cache_zero) s)"

section \<open>Views of the state\<close>

text \<open>The shim cache handle of a device and whether a batch holds it.\<close>

definition master_of :: "VkDevice \<Rightarrow> 'a vk_cache_scheme \<Rightarrow> VkPipelineCache" where
  "master_of dev s =
     (case cache_lookup dev (dev_caches s) of None \<Rightarrow> null | Some i \<Rightarrow> dc_pc (dev_caches s ! i))"

definition in_use :: "VkDevice \<Rightarrow> 'a vk_cache_scheme \<Rightarrow> bool" where
  "in_use dev s =
     (case cache_lookup dev (dev_caches s) of None \<Rightarrow> False | Some i \<Rightarrow> master_in_use (dev_caches s ! i))"

text \<open>Operations that only touch a slot's bookkeeping: every device keeps its cache handle and
  its in-use flag, and the slots keep their devices.\<close>

definition same_masters :: "'a vk_cache_scheme \<Rightarrow> 'a vk_cache_scheme \<Rightarrow> bool" where
  "same_masters s s' \<longleftrightarrow>
     length (dev_caches s') = length (dev_caches s) \<and> app_inflight s' = app_inflight s \<and>
     (\<forall>i < length (dev_caches s).
        dc_dev (dev_caches s' ! i) = dc_dev (dev_caches s ! i) \<and>
        dc_pc (dev_caches s' ! i) = dc_pc (dev_caches s ! i) \<and>
        master_in_use (dev_caches s' ! i) = master_in_use (dev_caches s ! i))"

section \<open>What the operations leave alone\<close>

lemma upd_cache_simps [simp]:
  "calls (upd_cache i f s) = calls s" "resolved (upd_cache i f s) = resolved s"
  "prop_cache (upd_cache i f s) = prop_cache s" "files (upd_cache i f s) = files s"
  "img_table (upd_cache i f s) = img_table s" "pkg (upd_cache i f s) = pkg s"
  "app_inflight (upd_cache i f s) = app_inflight s"
  "workers (upd_cache i f s) = workers s"
  "compiled_count (upd_cache i f s) = compiled_count s"
  "slow_session (upd_cache i f s) = slow_session s"
  "length (dev_caches (upd_cache i f s)) = length (dev_caches s)"
  by (simp_all add: upd_cache_def)

lemma dev_caches_upd_cache:
  "dev_caches (upd_cache i f s) = (dev_caches s)[i := f (dev_caches s ! i)]"
  by (simp add: upd_cache_def)

lemma os_frame [simp]:
  "dev_caches (snd (now_ns env s)) = dev_caches s"
  "dev_caches (snd (sys_malloc env n s)) = dev_caches s"
  "dev_caches (snd (sys_prop_get env p s)) = dev_caches s"
  "dev_caches (snd (os_open_rd env p s)) = dev_caches s"
  "dev_caches (snd (os_fstat env p s)) = dev_caches s"
  "dev_caches (snd (os_read env p n s)) = dev_caches s"
  "dev_caches (snd (os_unlink env p s)) = dev_caches s"
  "dev_caches (snd (os_open_wr env p s)) = dev_caches s"
  "dev_caches (snd (os_write env p d s)) = dev_caches s"
  "dev_caches (snd (os_close env p s)) = dev_caches s"
  "dev_caches (snd (os_rename env p q s)) = dev_caches s"
  "dev_caches (snd (prop_on env p s)) = dev_caches s"
  "dev_caches (snd (prop_explicit_on env p s)) = dev_caches s"
  "dev_caches (resolve_dev env dev p s) = dev_caches s"
  "app_inflight (snd (now_ns env s)) = app_inflight s"
  "app_inflight (snd (sys_malloc env n s)) = app_inflight s"
  "app_inflight (snd (sys_prop_get env p s)) = app_inflight s"
  "app_inflight (snd (os_open_rd env p s)) = app_inflight s"
  "app_inflight (snd (os_fstat env p s)) = app_inflight s"
  "app_inflight (snd (os_read env p n s)) = app_inflight s"
  "app_inflight (snd (os_unlink env p s)) = app_inflight s"
  "app_inflight (snd (os_open_wr env p s)) = app_inflight s"
  "app_inflight (snd (os_write env p d s)) = app_inflight s"
  "app_inflight (snd (os_close env p s)) = app_inflight s"
  "app_inflight (snd (os_rename env p q s)) = app_inflight s"
  "app_inflight (snd (prop_on env p s)) = app_inflight s"
  "app_inflight (snd (prop_explicit_on env p s)) = app_inflight s"
  "app_inflight (resolve_dev env dev p s) = app_inflight s"
  by (simp_all add: os_defs prop_on_def prop_explicit_on_def resolve_dev_def Let_def split: option.splits)

lemma cache_frame [simp]:
  "dev_caches (snd (pkg_name env s)) = dev_caches s"
  "dev_caches (snd (cache_path_for_self env s)) = dev_caches s"
  "dev_caches (snd (read_stamp env p s)) = dev_caches s"
  "dev_caches (snd (cap_bytes env p n s)) = dev_caches s"
  "dev_caches (resolve_cache_fns env dev s) = dev_caches s"
  "dev_caches (snd (load_initial env p s)) = dev_caches s"
  "dev_caches (snd (drv_cpc env dev d s)) = dev_caches s"
  "dev_caches (drv_mpc dev pc pcs s) = dev_caches s"
  "dev_caches (drv_dpc dev pc s) = dev_caches s"
  "dev_caches (publish_progress env s) = dev_caches s"
  "app_inflight (snd (pkg_name env s)) = app_inflight s"
  "app_inflight (snd (cache_path_for_self env s)) = app_inflight s"
  "app_inflight (snd (read_stamp env p s)) = app_inflight s"
  "app_inflight (snd (cap_bytes env p n s)) = app_inflight s"
  "app_inflight (resolve_cache_fns env dev s) = app_inflight s"
  "app_inflight (snd (load_initial env p s)) = app_inflight s"
  "app_inflight (snd (drv_cpc env dev d s)) = app_inflight s"
  "app_inflight (drv_mpc dev pc pcs s) = app_inflight s"
  "app_inflight (drv_dpc dev pc s) = app_inflight s"
  "app_inflight (publish_progress env s) = app_inflight s"
  by (simp_all add: pkg_name_def cache_path_for_self_def read_stamp_def cap_bytes_def resolve_cache_fns_def
      load_initial_def drv_cpc_def drv_mpc_def drv_dpc_def publish_progress_def Let_def case_prod_beta split: option.splits)


lemma nth_upd_field: "(\<And>c. g (f c) = g c) \<Longrightarrow> g (tab[i := f (tab ! i)] ! j) = g (tab ! j)"
  by (cases "i < length tab"; cases "i = j") (simp_all add: list_update_beyond)

lemma nth_upd_cache [simp]:
  "(\<And>c. dc_dev (f c) = dc_dev c) \<Longrightarrow> dc_dev (dev_caches (upd_cache i f s) ! j) = dc_dev (dev_caches s ! j)"
  "(\<And>c. dc_pc (f c) = dc_pc c) \<Longrightarrow> dc_pc (dev_caches (upd_cache i f s) ! j) = dc_pc (dev_caches s ! j)"
  "(\<And>c. master_in_use (f c) = master_in_use c) \<Longrightarrow>
     master_in_use (dev_caches (upd_cache i f s) ! j) = master_in_use (dev_caches s ! j)"
  "(\<And>c. pending (f c) = pending c) \<Longrightarrow>
     pending (dev_caches (upd_cache i f s) ! j) = pending (dev_caches s ! j)"
  "(\<And>c. path (f c) = path c) \<Longrightarrow> path (dev_caches (upd_cache i f s) ! j) = path (dev_caches s ! j)"
  by (simp_all add: dev_caches_upd_cache nth_upd_field)

lemma drop_cache_if_stale_frame [simp]:
  "dev_caches (drop_cache_if_stale env p s) = dev_caches s"
  "app_inflight (drop_cache_if_stale env p s) = app_inflight s"
  by (simp_all add: drop_cache_if_stale_def Let_def case_prod_beta)

lemma fold_drv_dpc_frame [simp]:
  "dev_caches (fold (drv_dpc dev) ps s) = dev_caches s"
  "app_inflight (fold (drv_dpc dev) ps s) = app_inflight s"
  by (induction ps arbitrary: s) simp_all

text \<open>An update that keeps the slot's device changes no lookup.\<close>

lemma cache_lookup_bound: "cache_lookup dev tab = Some i \<Longrightarrow> i < length tab"
  by (auto simp: cache_lookup_def split: if_splits dest: first_index_bound)

lemma cache_lookup_dev: "cache_lookup dev tab = Some i \<Longrightarrow> dc_dev (tab ! i) = dev"
  by (auto simp: cache_lookup_def split: if_splits dest: first_index_sat)

lemma cache_lookup_upd [simp]:
  "dc_dev y = dc_dev (tab ! i) \<Longrightarrow> i < length tab \<Longrightarrow> cache_lookup dev (tab[i := y]) = cache_lookup dev tab"
  by (simp add: cache_lookup_def first_index_update_cong)

lemma master_of_upd:
  assumes "dc_dev (f (dev_caches s ! i)) = dc_dev (dev_caches s ! i)" and "i < length (dev_caches s)"
  shows "master_of dev (upd_cache i f s) =
     (if cache_lookup dev (dev_caches s) = Some i then dc_pc (f (dev_caches s ! i)) else master_of dev s)"
  using assms by (auto simp: master_of_def dev_caches_upd_cache split: option.splits)

lemma in_use_upd:
  assumes "dc_dev (f (dev_caches s ! i)) = dc_dev (dev_caches s ! i)" and "i < length (dev_caches s)"
  shows "in_use dev (upd_cache i f s) =
     (if cache_lookup dev (dev_caches s) = Some i then master_in_use (f (dev_caches s ! i)) else in_use dev s)"
  using assms by (auto simp: in_use_def dev_caches_upd_cache split: option.splits)

lemma master_of_cong: "dev_caches s' = dev_caches s \<Longrightarrow> master_of dev s' = master_of dev s"
  by (simp add: master_of_def split: option.splits)

lemma in_use_cong: "dev_caches s' = dev_caches s \<Longrightarrow> in_use dev s' = in_use dev s"
  by (simp add: in_use_def split: option.splits)

lemma same_masters_refl [simp]: "same_masters s s"
  by (simp add: same_masters_def)

lemma same_masters_trans [trans]:
  "same_masters a b \<Longrightarrow> same_masters b c \<Longrightarrow> same_masters a c"
  by (simp add: same_masters_def)

lemma same_masters_eqI:
  "dev_caches s' = dev_caches s \<Longrightarrow> app_inflight s' = app_inflight s \<Longrightarrow> same_masters s s'"
  by (simp add: same_masters_def)

lemma same_masters_upd:
  "(\<And>c. dc_dev (f c) = dc_dev c \<and> dc_pc (f c) = dc_pc c \<and> master_in_use (f c) = master_in_use c) \<Longrightarrow>
     same_masters s (upd_cache i f s)"
  by (simp add: same_masters_def)

lemma same_masters_lookup:
  "same_masters s s' \<Longrightarrow> cache_lookup dev (dev_caches s') = cache_lookup dev (dev_caches s)"
  unfolding cache_lookup_def same_masters_def
  by (auto intro!: first_index_cong_nth)

lemma same_masters_views:
  assumes "same_masters s s'"
  shows "master_of dev s' = master_of dev s" and "in_use dev s' = in_use dev s"
  using same_masters_lookup [OF assms, of dev] assms
  by (auto simp: master_of_def in_use_def same_masters_def split: option.splits dest: cache_lookup_bound)

lemma write_cache_file_frame [simp]:
  "length (dev_caches (write_cache_file env i d s)) = length (dev_caches s)"
  "app_inflight (write_cache_file env i d s) = app_inflight s"
  "dc_dev (dev_caches (write_cache_file env i d s) ! j) = dc_dev (dev_caches s ! j)"
  "dc_pc (dev_caches (write_cache_file env i d s) ! j) = dc_pc (dev_caches s ! j)"
  "master_in_use (dev_caches (write_cache_file env i d s) ! j) = master_in_use (dev_caches s ! j)"
  "pending (dev_caches (write_cache_file env i d s) ! j) = pending (dev_caches s ! j)"
  by (simp_all add: write_cache_file_def Let_def case_prod_beta)

lemma commit_cache_frame [simp]:
  "length (dev_caches (commit_cache env i n now s)) = length (dev_caches s)"
  "app_inflight (commit_cache env i n now s) = app_inflight s"
  "dc_dev (dev_caches (commit_cache env i n now s) ! j) = dc_dev (dev_caches s ! j)"
  "dc_pc (dev_caches (commit_cache env i n now s) ! j) = dc_pc (dev_caches s ! j)"
  "master_in_use (dev_caches (commit_cache env i n now s) ! j) = master_in_use (dev_caches s ! j)"
  "pending (dev_caches (commit_cache env i n now s) ! j) = pending (dev_caches s ! j)"
  by (simp_all add: commit_cache_def Let_def case_prod_beta)

lemma save_disk_cache_frame [simp]:
  "length (dev_caches (save_disk_cache env c force s)) = length (dev_caches s)"
  "app_inflight (save_disk_cache env c force s) = app_inflight s"
  "dc_dev (dev_caches (save_disk_cache env c force s) ! j) = dc_dev (dev_caches s ! j)"
  "dc_pc (dev_caches (save_disk_cache env c force s) ! j) = dc_pc (dev_caches s ! j)"
  "master_in_use (dev_caches (save_disk_cache env c force s) ! j) = master_in_use (dev_caches s ! j)"
  "pending (dev_caches (save_disk_cache env c force s) ! j) = pending (dev_caches s ! j)"
  by (simp_all add: save_disk_cache_def Let_def case_prod_beta
      split: option.splits)

lemma drain_pending_frame [simp]:
  "length (dev_caches (drain_pending c s)) = length (dev_caches s)"
  "app_inflight (drain_pending c s) = app_inflight s"
  "dc_dev (dev_caches (drain_pending c s) ! j) = dc_dev (dev_caches s ! j)"
  "dc_pc (dev_caches (drain_pending c s) ! j) = dc_pc (dev_caches s ! j)"
  "master_in_use (dev_caches (drain_pending c s) ! j) = master_in_use (dev_caches s ! j)"
  by (simp_all add: drain_pending_def Let_def split: option.splits)

lemma save_disk_cache_masters: "same_masters s (save_disk_cache env c force s)"
  and drain_pending_masters: "same_masters s (drain_pending c s)"
  by (simp_all add: same_masters_def)


section \<open>What each operation does to the caches\<close>

lemma cache_claim_cases:
  assumes "dev \<noteq> null"
  obtains (known) i where "cache_claim dev s = (Some i, s)" and "cache_lookup dev (dev_caches s) = Some i"
  | (fresh) i where "cache_claim dev s = (Some i, upd_cache i (\<lambda>_. dev_cache_zero\<lparr>dc_dev := dev\<rparr>) s)"
      and "cache_lookup dev (dev_caches s) = None" and "i < length (dev_caches s)"
      and "dc_dev (dev_caches s ! i) = null"
  | (no_slot) "cache_claim dev s = (None, s\<lparr>warned_dev_cache_full := True\<rparr>)"
      and "cache_lookup dev (dev_caches s) = None"
proof (cases "cache_lookup dev (dev_caches s)")
  case (Some i)
  then show ?thesis by (intro known) (simp_all add: cache_claim_def)
next
  case None
  show ?thesis
  proof (cases "first_index (\<lambda>c. dc_dev c = null) (dev_caches s)")
    case (Some i)
    with None first_index_SomeD [OF Some] show ?thesis
      by (intro fresh [of i]) (auto simp: cache_claim_def)
  next
    case N: None
    with None show ?thesis by (intro no_slot) (simp_all add: cache_claim_def)
  qed
qed

lemma cache_lookup_fresh:
  assumes "dev \<noteq> null" and "cache_lookup dev tab = None" and "i < length tab"
    and "dc_dev (tab ! i) = null" and "dc_dev y = dev"
  shows "cache_lookup d (tab[i := y]) = (if d = dev then Some i else cache_lookup d tab)"
proof (cases "d = dev")
  case True
  have "\<forall>c \<in> set tab. dc_dev c \<noteq> dev"
    using assms(1,2) by (simp add: cache_lookup_def first_index_None)
  with True assms show ?thesis
    by (auto simp: cache_lookup_def nth_list_update intro!: first_index_eqI)
next
  case False
  with assms show ?thesis
    by (auto simp: cache_lookup_def intro!: first_index_update_cong)
qed


lemma prime_slot_frame [simp]:
  "length (dev_caches (snd (prime_slot env dev i s))) = length (dev_caches s)"
  "app_inflight (snd (prime_slot env dev i s)) = app_inflight s"
  "dc_dev (dev_caches (snd (prime_slot env dev i s)) ! j) = dc_dev (dev_caches s ! j)"
  "master_in_use (dev_caches (snd (prime_slot env dev i s)) ! j) = master_in_use (dev_caches s ! j)"
  "pending (dev_caches (snd (prime_slot env dev i s)) ! j) = pending (dev_caches s ! j)"
  by (simp_all add: prime_slot_def Let_def case_prod_beta split: option.splits)

lemma prime_slot_pc_other:
  "j \<noteq> i \<Longrightarrow> dc_pc (dev_caches (snd (prime_slot env dev i s)) ! j) = dc_pc (dev_caches s ! j)"
  by (simp add: prime_slot_def Let_def case_prod_beta dev_caches_upd_cache split: option.splits)

lemma prime_slot_pc:
  "i < length (dev_caches s) \<Longrightarrow> dc_pc (dev_caches s ! i) = null \<Longrightarrow>
     dc_pc (dev_caches (snd (prime_slot env dev i s)) ! i) = fst (prime_slot env dev i s)"
  by (simp add: prime_slot_def Let_def case_prod_beta dev_caches_upd_cache split: option.splits)

lemma prime_slot_lookup [simp]:
  "cache_lookup d (dev_caches (snd (prime_slot env dev i s))) = cache_lookup d (dev_caches s)"
  unfolding cache_lookup_def by (auto intro!: first_index_cong_nth)

lemma ensure_disk_cache_cases:
  assumes "dev \<noteq> null"
  obtains (hit) i where "ensure_disk_cache env dev s = (dc_pc (dev_caches s ! i), s)"
      and "cache_lookup dev (dev_caches s) = Some i" and "dc_pc (dev_caches s ! i) \<noteq> null"
  | (prime) i where "ensure_disk_cache env dev s = prime_slot env dev i s"
      and "cache_lookup dev (dev_caches s) = Some i" and "dc_pc (dev_caches s ! i) = null"
      and "i < length (dev_caches s)"
  | (fresh) i where "ensure_disk_cache env dev s =
        prime_slot env dev i (upd_cache i (\<lambda>_. dev_cache_zero\<lparr>dc_dev := dev\<rparr>) s)"
      and "cache_lookup dev (dev_caches s) = None" and "i < length (dev_caches s)"
      and "dc_dev (dev_caches s ! i) = null"
  | (no_slot) "ensure_disk_cache env dev s = (null, s\<lparr>warned_dev_cache_full := True\<rparr>)"
      and "cache_lookup dev (dev_caches s) = None"
  using assms
proof (cases rule: cache_claim_cases [of dev s])
  case (known i)
  with cache_lookup_bound [OF known(2)] show ?thesis
    by (cases "dc_pc (dev_caches s ! i) = null") (auto simp: ensure_disk_cache_def intro: hit prime)
next
  case (fresh i)
  then show ?thesis
    by (intro that(3)) (simp_all add: ensure_disk_cache_def dev_caches_upd_cache dev_cache_zero_def)
next
  case no_slot
  then show ?thesis by (intro that(4)) (simp_all add: ensure_disk_cache_def)
qed


lemma claim_views:
  assumes "dev \<noteq> null" and "cache_lookup dev (dev_caches s) = None" and "i < length (dev_caches s)"
    and "dc_dev (dev_caches s ! i) = null"
  shows "in_use d (upd_cache i (\<lambda>_. dev_cache_zero\<lparr>dc_dev := dev\<rparr>) s) = in_use d s"
    and "master_of d (upd_cache i (\<lambda>_. dev_cache_zero\<lparr>dc_dev := dev\<rparr>) s) = master_of d s"
    and "cache_lookup d (dev_caches (upd_cache i (\<lambda>_. dev_cache_zero\<lparr>dc_dev := dev\<rparr>) s)) =
      (if d = dev then Some i else cache_lookup d (dev_caches s))"
    and "dc_pc (dev_caches (upd_cache i (\<lambda>_. dev_cache_zero\<lparr>dc_dev := dev\<rparr>) s) ! i) = null"
proof -
  let ?s = "upd_cache i (\<lambda>_. dev_cache_zero\<lparr>dc_dev := dev\<rparr>) s"
  show l: "cache_lookup d (dev_caches ?s) = (if d = dev then Some i else cache_lookup d (dev_caches s))"
    using assms by (simp add: dev_caches_upd_cache cache_lookup_fresh)
  have "j \<noteq> i" if "cache_lookup d (dev_caches s) = Some j" "d \<noteq> dev" for j
  proof -
    from that(1) have "dc_dev (dev_caches s ! j) = d" and "d \<noteq> null"
      using cache_lookup_dev [OF that(1)] by (auto simp: cache_lookup_def split: if_splits)
    with assms(4) show ?thesis by auto
  qed
  with l assms show "in_use d ?s = in_use d s" and "master_of d ?s = master_of d s"
    by (auto simp: in_use_def master_of_def dev_caches_upd_cache dev_cache_zero_def split: option.splits)
  show "dc_pc (dev_caches ?s ! i) = null"
    using assms(3) by (simp add: dev_caches_upd_cache dev_cache_zero_def)
qed

lemma prime_slot_views:
  assumes "cache_lookup dev (dev_caches s) = Some i" and "dc_pc (dev_caches s ! i) = null"
  shows "in_use d (snd (prime_slot env dev i s)) = in_use d s"
    and "master_of d (snd (prime_slot env dev i s)) =
      (if d = dev then fst (prime_slot env dev i s) else master_of d s)"
proof -
  show "in_use d (snd (prime_slot env dev i s)) = in_use d s"
    by (simp add: in_use_def split: option.splits)
  have "j \<noteq> i" if "cache_lookup d (dev_caches s) = Some j" "d \<noteq> dev" for j
    using that assms(1) by (auto dest: cache_lookup_dev)
  with assms cache_lookup_bound [OF assms(1)]
  show "master_of d (snd (prime_slot env dev i s)) =
      (if d = dev then fst (prime_slot env dev i s) else master_of d s)"
    by (auto simp: master_of_def prime_slot_pc prime_slot_pc_other split: option.splits)
qed

lemma views_simps [simp]:
  "in_use d (s\<lparr>warned_dev_cache_full := x\<rparr>) = in_use d s"
  "master_of d (s\<lparr>warned_dev_cache_full := x\<rparr>) = master_of d s"
  "in_use d (s\<lparr>app_inflight := y\<rparr>) = in_use d s"
  "master_of d (s\<lparr>app_inflight := y\<rparr>) = master_of d s"
  by (simp_all add: in_use_def master_of_def split: option.splits)

text \<open>Finding or creating the shim cache of a device changes no in-use flag; a device's handle
  changes only from none to the one returned.\<close>

lemma ensure_disk_cache_in_use: "dev \<noteq> null \<Longrightarrow> in_use d (snd (ensure_disk_cache env dev s)) = in_use d s"
  by (cases rule: ensure_disk_cache_cases [of dev env s]) (simp_all add: prime_slot_views claim_views)

lemma ensure_disk_cache_master:
  "dev \<noteq> null \<Longrightarrow> master_of d (snd (ensure_disk_cache env dev s)) =
     (if d = dev then fst (ensure_disk_cache env dev s) else master_of d s)"
  by (cases rule: ensure_disk_cache_cases [of dev env s])
    (simp_all add: prime_slot_views claim_views, simp_all add: master_of_def)

lemma ensure_disk_cache_app [simp]:
  "dev \<noteq> null \<Longrightarrow> app_inflight (snd (ensure_disk_cache env dev s)) = app_inflight s"
  by (cases rule: ensure_disk_cache_cases [of dev env s]) simp_all

lemma ensure_disk_cache_length [simp]:
  "dev \<noteq> null \<Longrightarrow> length (dev_caches (snd (ensure_disk_cache env dev s))) = length (dev_caches s)"
  by (cases rule: ensure_disk_cache_cases [of dev env s]) simp_all

lemma ensure_disk_cache_keeps:
  "dev \<noteq> null \<Longrightarrow> master_of dev s \<noteq> null \<Longrightarrow> ensure_disk_cache env dev s = (master_of dev s, s)"
  by (cases rule: ensure_disk_cache_cases [of dev env s]) (simp_all add: master_of_def)

end
