(* ===== verification/Vk_Cache_File.thy ===== *)
theory Vk_Cache_File
  imports Vk_Cache
begin

text \<open>
  The cache file in the app's sandbox: which files an operation changes and to what, the size
  limit and the rate limit of \<^verbatim>\<open>save_disk_cache\<close>, the path and its generation stamp, and the
  effect of a bumped generation property (\<^verbatim>\<open>drop_cache_if_stale\<close>).
\<close>

definition tmp_of :: "string \<Rightarrow> string" where
  "tmp_of p = snprintf_buf 196 (p @ ''.tmp'')"

text \<open>The size limit that one call of \<^verbatim>\<open>save_disk_cache\<close> compares against, and the size it finds.\<close>

definition save_size :: "env \<Rightarrow> nat \<Rightarrow> 'a vk_cache_scheme \<Rightarrow> nat" where
  "save_size env i s =
     snd (e_GetPipelineCacheSize env (calls s @ [C_now]) (dc_dev (dev_caches s ! i)) (dc_pc (dev_caches s ! i)))"

definition save_cap :: "env \<Rightarrow> nat \<Rightarrow> 'a vk_cache_scheme \<Rightarrow> nat" where
  "save_cap env i s =
     fst (cap_bytes env ''vkcachemax'' CACHE_MAX_MB
       (log_call (C_GetPipelineCacheSize (dc_dev (dev_caches s ! i)) (dc_pc (dev_caches s ! i)))
         (log_call C_now s)))"

definition stale_stamp :: "string \<Rightarrow> string \<Rightarrow> (string \<rightharpoonup> string) \<Rightarrow> bool" where
  "stale_stamp g p fs = (case fs (gen_path_of p) of None \<Rightarrow> True | Some c \<Rightarrow> cstr (take 91 c) \<noteq> g)"

lemma files_frame [simp]:
  "files (snd (now_ns env s)) = files s"
  "files (snd (sys_malloc env n s)) = files s"
  "files (snd (sys_prop_get env p s)) = files s"
  "files (snd (os_open_rd env p s)) = files s"
  "files (snd (os_fstat env p s)) = files s"
  "files (snd (os_read env p n s)) = files s"
  "files (snd (os_close env p s)) = files s"
  "files (snd (prop_on env p s)) = files s"
  "files (snd (prop_explicit_on env p s)) = files s"
  "files (resolve_dev env dev p s) = files s"
  by (simp_all add: os_defs prop_on_def prop_explicit_on_def resolve_dev_def Let_def split: option.splits)

lemma cache_files_frame [simp]:
  "files (snd (pkg_name env s)) = files s"
  "files (snd (cache_path_for_self env s)) = files s"
  "files (snd (read_stamp env p s)) = files s"
  "files (snd (cap_bytes env p n s)) = files s"
  "files (resolve_cache_fns env dev s) = files s"
  "files (snd (load_initial env p s)) = files s"
  "files (snd (drv_cpc env dev d s)) = files s"
  "files (drv_mpc dev pc pcs s) = files s"
  "files (drv_dpc dev pc s) = files s"
  "files (publish_progress env s) = files s"
  by (simp_all add: pkg_name_def cache_path_for_self_def read_stamp_def cap_bytes_def resolve_cache_fns_def
      load_initial_def drv_cpc_def drv_mpc_def drv_dpc_def publish_progress_def Let_def case_prod_beta split: option.splits)

text \<open>Only the temporary file and the cache file itself change, and the cache file changes only
  to the complete data.\<close>

lemma write_cache_file_files:
  assumes "path (dev_caches s ! i) = p" and "tmp_of p \<noteq> p"
  shows "files (write_cache_file env i d s) q = files s q
    \<or> q = tmp_of p \<or> q = p \<and> files (write_cache_file env i d s) q = Some d"
  using assms
  by (auto simp: write_cache_file_def tmp_of_def os_open_wr_def os_write_def os_close_def os_rename_def
      os_unlink_def Let_def)

lemma tmp_of_other: "p \<noteq> [] \<Longrightarrow> length p < 192 \<Longrightarrow> tmp_of p \<noteq> p"
  by (simp add: tmp_of_def snprintf_buf_fits)

lemma commit_cache_files:
  assumes "length (path (dev_caches s ! i)) < 192" and "path (dev_caches s ! i) \<noteq> []"
    and "files (commit_cache env i n now s) q \<noteq> files s q" and "q \<noteq> tmp_of (path (dev_caches s ! i))"
  shows "q = path (dev_caches s ! i) \<and>
      (\<exists>h d. e_GetPipelineCacheData env h (dc_dev (dev_caches s ! i)) (dc_pc (dev_caches s ! i)) n = (VK_SUCCESS, d) \<and>
         files (commit_cache env i n now s) q = Some d)"
proof -
  let ?s1 = "upd_cache i (\<lambda>c. c\<lparr>last_save_ns := now\<rparr>) s"
  let ?s2 = "snd (sys_malloc env n ?s1)"
  let ?s3 = "log_call (C_GetPipelineCacheData (dc_dev (dev_caches s ! i)) (dc_pc (dev_caches s ! i)) n) ?s2"
  let ?d = "snd (e_GetPipelineCacheData env (calls ?s2) (dc_dev (dev_caches s ! i)) (dc_pc (dev_caches s ! i)) n)"
  have *: "fst (e_GetPipelineCacheData env (calls ?s2) (dc_dev (dev_caches s ! i)) (dc_pc (dev_caches s ! i)) n) = VK_SUCCESS
      \<and> commit_cache env i n now s = write_cache_file env i ?d ?s3"
    using assms(3) by (simp add: commit_cache_def Let_def case_prod_beta split: if_splits)
  have "path (dev_caches ?s3 ! i) = path (dev_caches s ! i)" and "files ?s3 = files s" by simp_all
  with write_cache_file_files [of ?s3 i _ env ?d q] tmp_of_other [OF assms(2,1)] assms(3,4) *
  have "q = path (dev_caches s ! i)" and "files (commit_cache env i n now s) q = Some ?d"
    by auto
  with * show ?thesis by (metis prod.collapse)
qed

lemma save_disk_cache_commits:
  assumes "files (save_disk_cache env (Some i) force s) \<noteq> files s"
  shows "path (dev_caches s ! i) \<noteq> [] \<and> save_size env i s \<le> save_cap env i s \<and>
    save_disk_cache env (Some i) force s =
      commit_cache env i (save_size env i s) (e_now env (calls s))
        (snd (cap_bytes env ''vkcachemax'' CACHE_MAX_MB
          (log_call (C_GetPipelineCacheSize (dc_dev (dev_caches s ! i)) (dc_pc (dev_caches s ! i)))
            (log_call C_now s))))"
  using assms
  by (auto simp: save_disk_cache_def Let_def case_prod_beta save_size_def save_cap_def now_ns_def split: if_splits)

text \<open>C5. A save is atomic and bounded. \<^verbatim>\<open>save_disk_cache\<close> changes no file other than its temporary
  and the cache file, and the cache file changes only to one complete serialisation that the
  driver produced in this call, no longer than the limit in force.\<close>

theorem save_disk_cache_atomic:
  assumes "length (path (dev_caches s ! i)) < 192"
    and "\<And>h dev pc n. length (snd (e_GetPipelineCacheData env h dev pc n)) \<le> n"
    and "files (save_disk_cache env (Some i) force s) q \<noteq> files s q"
    and "q \<noteq> tmp_of (path (dev_caches s ! i))"
  shows "q = path (dev_caches s ! i) \<and>
      (\<exists>h d. e_GetPipelineCacheData env h (dc_dev (dev_caches s ! i)) (dc_pc (dev_caches s ! i)) (save_size env i s)
           = (VK_SUCCESS, d) \<and>
         files (save_disk_cache env (Some i) force s) q = Some d \<and> length d \<le> save_cap env i s)"
proof -
  from assms(3) have "files (save_disk_cache env (Some i) force s) \<noteq> files s" by auto
  note c = save_disk_cache_commits [OF this]
  let ?s = "snd (cap_bytes env ''vkcachemax'' CACHE_MAX_MB
          (log_call (C_GetPipelineCacheSize (dc_dev (dev_caches s ! i)) (dc_pc (dev_caches s ! i)))
            (log_call C_now s)))"
  have f: "dev_caches ?s = dev_caches s" "files ?s = files s" by simp_all
  obtain h d where q: "q = path (dev_caches s ! i)" and
    d: "e_GetPipelineCacheData env h (dc_dev (dev_caches s ! i)) (dc_pc (dev_caches s ! i)) (save_size env i s) = (VK_SUCCESS, d)"
    "files (save_disk_cache env (Some i) force s) q = Some d"
    using commit_cache_files [of ?s i env "save_size env i s" "e_now env (calls s)" q] c assms(1,3,4) f by auto
  from assms(2) [of h "dc_dev (dev_caches s ! i)" "dc_pc (dev_caches s ! i)" "save_size env i s"] d(1) c
  have "length d \<le> save_cap env i s" by simp
  with q d show ?thesis by blast
qed

text \<open>The rate limit. An unforced save less than 30 s after the last one reads the clock and does
  nothing else: no query to the driver, no file touched.\<close>

theorem save_disk_cache_rate_limited:
  assumes "last_save_ns (dev_caches s ! i) \<noteq> 0"
    and "e_now env (calls s) - last_save_ns (dev_caches s ! i) < SAVE_MIN_INTERVAL_NS"
  shows "save_disk_cache env (Some i) False s \<in> {s, log_call C_now s}"
  using assms by (simp add: save_disk_cache_def now_ns_def Let_def)

section \<open>Paths\<close>

lemma pkg_name_length:
  assumes "length (pkg s) \<le> 95"
  shows "length (fst (pkg_name env s)) \<le> 95"
proof -
  have "length (takeWhile P (cstr (take 95 x))) \<le> 95" for P x
    using length_takeWhile_le [of P "cstr (take 95 x)"] length_cstr_le [of "take 95 x"] by simp
  with assms show ?thesis
    by (auto simp: pkg_name_def Let_def split: option.splits)
qed

lemma gen_path_of_dir: "length dir < 200 \<Longrightarrow> gen_path_of (dir @ CACHE_FILE) = dir @ CACHE_GEN_FILE"
  by (simp add: gen_path_of_def snprintf_buf_fits CACHE_GEN_FILE_def)

text \<open>The cache path is never truncated, and the generation stamp is the sibling file
  \<^verbatim>\<open>vkshim.gen\<close> in the same directory.\<close>

theorem cache_path_exact:
  assumes "length (pkg s) \<le> 95" and "fst (cache_path_for_self env s) = Some p"
  shows "\<exists>dir. p = dir @ CACHE_FILE \<and> gen_path_of p = dir @ CACHE_GEN_FILE \<and>
     dir = ''/data/user/'' @ dec (unat (e_uid env) div 100000) @ ''/'' @ fst (pkg_name env s) @ ''/cache/''
     \<and> length p < 192"
proof -
  let ?dir = "''/data/user/'' @ dec (unat (e_uid env) div 100000) @ ''/'' @ fst (pkg_name env s) @ ''/cache/''"
  have "unat (e_uid env) < 2 ^ 32" using unsigned_less [of "e_uid env"] by simp
  then have "length (dec (unat (e_uid env) div 100000)) \<le> 5"
    by (intro length_dec) simp_all
  with pkg_name_length [OF assms(1), of env] have l: "length ?dir < 140" by simp
  from assms(2) have p: "p = snprintf_buf 192 (?dir @ CACHE_FILE)"
    by (auto simp: cache_path_for_self_def AID_USER_OFFSET_def Let_def case_prod_beta split: if_splits)
  have lf: "length CACHE_FILE = 13" by (simp add: CACHE_FILE_def)
  with l have "length (?dir @ CACHE_FILE) < 192" by simp
  with p have e: "p = ?dir @ CACHE_FILE" and "length p < 192"
    by (simp_all only: snprintf_buf_fits)
  moreover have "gen_path_of p = ?dir @ CACHE_GEN_FILE"
    unfolding e using l by (intro gen_path_of_dir) simp
  ultimately show ?thesis by (intro exI [of _ ?dir] conjI refl)
qed

section \<open>Clearing a stale cache\<close>

text \<open>With a working file system and an unchanged generation property, one start removes a cache
  stamped with another generation and stamps the new one; the next start leaves every file as it
  is. A cache with the right stamp is kept.\<close>

theorem stale_cache_dropped_once:
  fixes s :: "'a vk_cache_scheme"
  assumes io: "\<And>h x. e_io env h x" and gen: "\<And>h. e_prop env h CACHE_GEN_PROP = g"
    and g: "g \<noteq> []" "length g \<le> 91" "NUL \<notin> set g"
    and gp: "gen_path_of p \<noteq> p"
  shows "files (drop_cache_if_stale env p s) =
      (if stale_stamp g p (files s) then (files s)(p := None, gen_path_of p \<mapsto> g) else files s) \<and>
    files (drop_cache_if_stale env p (drop_cache_if_stale env p s)) = files (drop_cache_if_stale env p s)"
proof -
  have pr: "fst (sys_prop_get env CACHE_GEN_PROP t) = g" for t :: "'a vk_cache_scheme"
    using g by (simp add: sys_prop_get_def gen cstr_no_NUL)
  have stamp: "fst (read_stamp env q t) = (case files t q of None \<Rightarrow> [] | Some c \<Rightarrow> cstr (take 91 c))"
    for q and t :: "'a vk_cache_scheme"
    using io by (auto simp: read_stamp_def os_open_rd_def os_read_def Let_def split: option.splits)
  have one: "files (drop_cache_if_stale env p t) =
      (if stale_stamp g p (files t) then (files t)(p := None, gen_path_of p \<mapsto> g) else files t)"
    for t :: "'a vk_cache_scheme"
    using g gp io
    by (auto simp: drop_cache_if_stale_def Let_def case_prod_beta pr stamp os_unlink_def os_open_wr_def
        os_write_def fun_eq_iff stale_stamp_def split: option.splits)
  have "\<not> stale_stamp g p (files (drop_cache_if_stale env p s))"
    using g by (auto simp: one stale_stamp_def cstr_no_NUL split: option.splits)
  then show ?thesis by (simp add: one)
qed

section \<open>The size limit\<close>

lemma cap_bytes_value:
  "\<exists>mb. fst (cap_bytes env name def_mb s) = (mb * 1024 * 1024) mod 2 ^ long_bits env \<and>
      (mb = def_mb \<or> mb < 2 ^ 32) \<and> (0 < def_mb \<longrightarrow> 0 < mb)"
proof -
  have pick: "(if (if c then x mod 2 ^ 32 else def_mb) = 0 then def_mb
       else if c then x mod 2 ^ 32 else def_mb) = mb \<Longrightarrow>
     (mb = def_mb \<or> mb < 2 ^ 32) \<and> (0 < def_mb \<longrightarrow> 0 < mb)" for c and x mb :: nat
    by (auto split: if_splits)
  show ?thesis
    unfolding cap_bytes_def Let_def case_prod_beta fst_conv
    by (rule exI, rule conjI, rule refl, rule pick, rule refl)
qed

text \<open>In a 64-bit process the limit is a whole number of megabytes and never zero, whatever the
  property holds: an unset, unparseable or zero value means the default.\<close>

theorem cap_bytes_lp64:
  assumes "e_lp64 env" and "0 < def_mb" and "def_mb < 2 ^ 32"
  shows "\<exists>mb. 0 < mb \<and> mb < 2 ^ 32 \<and> fst (cap_bytes env name def_mb s) = mb * 1024 * 1024"
proof -
  obtain mb where m: "fst (cap_bytes env name def_mb s) = (mb * 1024 * 1024) mod 2 ^ 64"
    and b: "mb < 2 ^ 32" "0 < mb"
    using cap_bytes_value [of env name def_mb s] assms by (auto simp: long_bits_def)
  have "mb * 1024 * 1024 < 2 ^ 64" using b(1) by simp
  with m b show ?thesis by auto
qed

lemma cap_bytes_debug:
  assumes "fst (sys_prop_get env (snprintf_buf 96 (''debug.xdplus.'' @ name)) s) = v" and "v \<noteq> []"
    and "strtoul10 (long_bits env) v = m" and "m mod 2 ^ 32 \<noteq> 0"
  shows "fst (cap_bytes env name d s) = (m mod 2 ^ 32 * 1024 * 1024) mod 2 ^ long_bits env"
  using assms unfolding cap_bytes_def Let_def case_prod_beta fst_conv by (simp only: if_True if_False simp_thms fst_conv)

text \<open>In a 32-bit process a limit that is a multiple of 4096 MB wraps to zero, so that every save
  is refused as too large.\<close>

theorem cap_bytes_ilp32_wraps:
  assumes "\<not> e_lp64 env" and "\<And>h. e_prop env h ''debug.xdplus.vkcachemax'' = ''4096''"
  shows "fst (cap_bytes env ''vkcachemax'' CACHE_MAX_MB s) = 0"
proof -
  have 1: "take 91 (cstr ''4096'') = ''4096''"
    by (simp add: cstr_def NUL_def)
  have 2: "strtoul10 32 ''4096'' = 4096"
    by (simp add: strtoul10_def scan_number_def cstr_def NUL_def is_space_def is_digit_def digit_val_def)
  have 3: "snprintf_buf 96 (''debug.xdplus.'' @ ''vkcachemax'') = ''debug.xdplus.vkcachemax''"
    by (simp add: snprintf_buf_def)
  have 4: "fst (sys_prop_get env (snprintf_buf 96 (''debug.xdplus.'' @ ''vkcachemax'')) s) = ''4096''"
    unfolding 3 sys_prop_get_def fst_conv assms(2) by (rule 1)
  have 5: "long_bits env = 32" using assms(1) by (simp add: long_bits_def)
  have "fst (cap_bytes env ''vkcachemax'' CACHE_MAX_MB s) = (4096 mod 2 ^ 32 * 1024 * 1024) mod 2 ^ 32"
    using cap_bytes_debug [OF 4, of 4096 CACHE_MAX_MB] unfolding 5 2 by simp
  also have "\<dots> = 0" by simp
  finally show ?thesis .
qed

section \<open>The theorems at a concrete driver\<close>

lemma cap_demo: "fst (cap_bytes env_demo name CACHE_MAX_MB s) = 67108864"
  by (simp add: cap_bytes_def sys_prop_get_def env_demo_def Let_def case_prod_beta CACHE_MAX_MB_def long_bits_def cstr_def)

definition demo_cache :: vk_cache where
  "demo_cache = vk_cache_boot\<lparr>dev_caches := [dev_cache_zero\<lparr>dc_dev := 5, dc_pc := 9, path := ''/c''\<rparr>],
     resolved := {real_gpcd}\<rparr>"

lemma demo_saved:
  "files (save_disk_cache env_demo (Some 0) False demo_cache) ''/c'' = Some ''abc''"
proof -
  have t: "snprintf_buf 196 ''/c.tmp'' = ''/c.tmp''" by (simp add: snprintf_buf_def)
  let ?s = "snd (cap_bytes env_demo ''vkcachemax'' CACHE_MAX_MB
     (log_call (C_GetPipelineCacheSize 5 9) (log_call C_now demo_cache)))"
  have c: "dev_caches ?s = dev_caches demo_cache" "files ?s = files demo_cache" by simp_all
  have m: "e_malloc env_demo h n" "e_io env_demo h x" "e_now env_demo [] = 0"
    "e_GetPipelineCacheSize env_demo h d p = (VK_SUCCESS, 3)"
    "e_GetPipelineCacheData env_demo h d p n = (VK_SUCCESS, take n ''abc'')" for h n x d p
    by (simp_all add: env_demo_def)
  have 1: "save_disk_cache env_demo (Some 0) False demo_cache = commit_cache env_demo 0 3 0 ?s"
    by (simp add: save_disk_cache_def demo_cache_def now_ns_def m Let_def case_prod_beta cap_demo dev_cache_zero_def vk_cache_boot_def)
  have "files (commit_cache env_demo 0 3 0 ?s) ''/c'' = Some ''abc''"
    using c by (simp add: commit_cache_def write_cache_file_def os_defs m Let_def case_prod_beta dev_caches_upd_cache t demo_cache_def
         dev_cache_zero_def)
  then show ?thesis unfolding 1 .
qed

theorem save_disk_cache_atomic_witness:
  "\<exists>d. files (save_disk_cache env_demo (Some 0) False demo_cache) ''/c'' = Some d \<and> length d \<le> 67108864"
proof -
  have p: "path (dev_caches demo_cache ! 0) = ''/c''" by (simp add: demo_cache_def)
  have f: "files demo_cache ''/c'' = None" by (simp add: demo_cache_def vk_cache_boot_def)
  have "save_cap env_demo 0 demo_cache = 67108864" by (simp add: save_cap_def cap_demo)
  with save_disk_cache_atomic [of demo_cache 0 env_demo False "''/c''"] p f demo_saved show ?thesis
    by (auto simp: tmp_of_def snprintf_buf_def env_demo_def)
qed

theorem save_disk_cache_rate_limited_witness:
  "save_disk_cache (env_demo\<lparr>e_now := \<lambda>_. 10\<rparr>) (Some 0) False
     (vk_cache_boot\<lparr>dev_caches := [dev_cache_zero\<lparr>dc_dev := 5, dc_pc := 9, path := ''/c'', last_save_ns := 4\<rparr>]\<rparr>) \<in>
   {vk_cache_boot\<lparr>dev_caches := [dev_cache_zero\<lparr>dc_dev := 5, dc_pc := 9, path := ''/c'', last_save_ns := 4\<rparr>]\<rparr>,
    log_call C_now (vk_cache_boot\<lparr>dev_caches := [dev_cache_zero\<lparr>dc_dev := 5, dc_pc := 9, path := ''/c'', last_save_ns := 4\<rparr>]\<rparr>)}"
  by (rule save_disk_cache_rate_limited) (simp_all add: SAVE_MIN_INTERVAL_NS_def)

theorem cache_path_exact_witness:
  "\<exists>dir p. fst (cache_path_for_self env_demo vk_cache_boot) = Some p \<and> p = dir @ CACHE_FILE \<and>
     gen_path_of p = dir @ CACHE_GEN_FILE \<and> length p < 192"
proof -
  obtain p where p: "fst (cache_path_for_self env_demo vk_cache_boot) = Some p"
    by (simp add: cache_path_for_self_def env_demo_def AID_USER_OFFSET_def AID_APP_START_def AID_ISOLATED_START_def case_prod_beta)
  have l: "length (pkg vk_cache_boot) \<le> 95" by (simp add: vk_cache_boot_def)
  from cache_path_exact [OF l p] p show ?thesis by blast
qed

theorem stale_cache_dropped_once_witness:
  "files (drop_cache_if_stale (env_demo\<lparr>e_prop := \<lambda>_ _. ''7''\<rparr>) ''/c/vkshim.pcache''
     (vk_cache_boot\<lparr>files := [''/c/vkshim.pcache'' \<mapsto> ''old'']\<rparr>)) = [''/c/vkshim.gen'' \<mapsto> ''7'']"
proof -
  have g: "gen_path_of ''/c/vkshim.pcache'' = ''/c/vkshim.gen''"
    by (simp add: gen_path_of_def snprintf_buf_def CACHE_FILE_def CACHE_GEN_FILE_def)
  show ?thesis
    using stale_cache_dropped_once [of "env_demo\<lparr>e_prop := \<lambda>_ _. ''7''\<rparr>" "''7''" "''/c/vkshim.pcache''"
        "vk_cache_boot\<lparr>files := [''/c/vkshim.pcache'' \<mapsto> ''old'']\<rparr>"]
    by (auto simp: g stale_stamp_def env_demo_def NUL_def fun_eq_iff)
qed

theorem cap_bytes_lp64_witness:
  "\<exists>mb. 0 < mb \<and> mb < 2 ^ 32 \<and> fst (cap_bytes env_demo ''vkcachemax'' CACHE_MAX_MB vk_cache_boot) = mb * 1024 * 1024"
  by (rule cap_bytes_lp64) (simp_all add: env_demo_def CACHE_MAX_MB_def)

theorem cap_bytes_ilp32_wraps_witness:
  "fst (cap_bytes (env_demo\<lparr>e_lp64 := False, e_prop := \<lambda>_ _. ''4096''\<rparr>) ''vkcachemax'' CACHE_MAX_MB vk_cache_boot) = 0"
  by (rule cap_bytes_ilp32_wraps) (simp_all add: env_demo_def)

end
