(* ===== verification/Vk_Calls.thy ===== *)
theory Vk_Calls
  imports Vk_Cache
begin

text \<open>
  Which calls an operation adds to the history. \<open>emits Q s s'\<close> says that \<open>s'\<close> has the history of
  \<open>s\<close> followed by calls that all satisfy \<open>Q\<close>; there is one introduction rule per operation of the
  pipeline cache, so that a claim of the form "this operation never makes such a call" is proved
  by applying them.
\<close>

section \<open>Calls an operation makes\<close>

definition emits :: "(vk_call \<Rightarrow> bool) \<Rightarrow> 'a vk_base_scheme \<Rightarrow> 'a vk_base_scheme \<Rightarrow> bool" where
  "emits Q s s' \<longleftrightarrow> (\<exists>cs. calls s' = calls s @ cs \<and> list_all Q cs)"

fun is_sys :: "vk_call \<Rightarrow> bool" where
  "is_sys C_now = True"
| "is_sys (C_malloc n) = True"
| "is_sys (C_os x) = True"
| "is_sys (C_prop_get p) = True"
| "is_sys (C_prop_set p v) = True"
| "is_sys C_thread_create = True"
| "is_sys (C_gdpa d n) = True"
| "is_sys (C_gipa i n) = True"
| "is_sys _ = False"

lemma emits_refl [simp, intro]: "emits Q s s"
  by (simp add: emits_def)

lemma emits_trans: "emits Q s t \<Longrightarrow> emits Q t u \<Longrightarrow> emits Q s u"
  by (auto simp: emits_def)

lemma emits_mono: "emits Q s t \<Longrightarrow> (\<And>c. Q c \<Longrightarrow> R c) \<Longrightarrow> emits R s t"
  unfolding emits_def list_all_iff by blast

lemma emits_log: "emits Q s t \<Longrightarrow> Q c \<Longrightarrow> emits Q s (log_call c t)"
  by (auto simp: emits_def)

lemma emits_filter: "emits (\<lambda>c. \<not> P c) s t \<Longrightarrow> filter P (calls t) = filter P (calls s)"
  by (auto simp: emits_def list_all_iff filter_empty_conv)

lemma emits_calls_eq: "calls t = calls u \<Longrightarrow> emits Q s t = emits Q s u"
  by (simp add: emits_def)

text \<open>Every class of calls that contains the system calls is closed under them.\<close>

definition sys_ok :: "(vk_call \<Rightarrow> bool) \<Rightarrow> bool" where
  "sys_ok Q \<longleftrightarrow> (\<forall>c. is_sys c \<longrightarrow> Q c)"

lemma sys_okD: "sys_ok Q \<Longrightarrow> is_sys c \<Longrightarrow> Q c"
  by (simp add: sys_ok_def)

lemma emits_os [intro!]:
  assumes "sys_ok Q" and "emits Q s t"
  shows "emits Q s (snd (now_ns env t))"
    and "emits Q s (snd (sys_malloc env n t))"
    and "emits Q s (snd (sys_prop_get env p t))"
    and "emits Q s (snd (os_open_rd env p t))"
    and "emits Q s (snd (os_fstat env p t))"
    and "emits Q s (snd (os_read env p n t))"
    and "emits Q s (snd (os_unlink env p t))"
    and "emits Q s (snd (os_open_wr env p t))"
    and "emits Q s (snd (os_write env p d t))"
    and "emits Q s (snd (os_close env p t))"
    and "emits Q s (snd (os_rename env p q t))"
    and "emits Q s (snd (prop_on env p t))"
    and "emits Q s (snd (prop_explicit_on env p t))"
    and "emits Q s (resolve_dev env dev p t)"
    and "emits Q s (resolve_inst env dev p t)"
  using assms
  by (auto simp: emits_def os_defs prop_on_def prop_explicit_on_def resolve_dev_def resolve_inst_def Let_def
      sys_ok_def split: option.splits)

lemma emits_upd_cache [intro!]: "emits Q s t \<Longrightarrow> emits Q s (upd_cache i f t)"
  by (simp add: emits_def)

lemma emits_pkg_name [intro!]: "emits Q s t \<Longrightarrow> emits Q s (snd (pkg_name env t))"
  by (simp add: pkg_name_def Let_def emits_def split: option.splits)

lemma emits_cache_path [intro!]: "emits Q s t \<Longrightarrow> emits Q s (snd (cache_path_for_self env t))"
  by (auto simp: cache_path_for_self_def Let_def case_prod_beta)

lemma emits_read_stamp [intro!]: "sys_ok Q \<Longrightarrow> emits Q s t \<Longrightarrow> emits Q s (snd (read_stamp env p t))"
  by (auto simp: read_stamp_def Let_def case_prod_beta split: option.splits)

lemma emits_drop_stale [intro!]: "sys_ok Q \<Longrightarrow> emits Q s t \<Longrightarrow> emits Q s (drop_cache_if_stale env p t)"
  by (auto simp: drop_cache_if_stale_def Let_def case_prod_beta)

lemma emits_cap_bytes [intro!]: "sys_ok Q \<Longrightarrow> emits Q s t \<Longrightarrow> emits Q s (snd (cap_bytes env p n t))"
  by (auto simp: cap_bytes_def Let_def case_prod_beta)

lemma emits_resolve_cache [intro!]: "sys_ok Q \<Longrightarrow> emits Q s t \<Longrightarrow> emits Q s (resolve_cache_fns env dev t)"
  unfolding resolve_cache_fns_def by (intro emits_os)

lemma emits_load_initial [intro!]: "sys_ok Q \<Longrightarrow> emits Q s t \<Longrightarrow> emits Q s (snd (load_initial env p t))"
  by (auto simp: load_initial_def Let_def case_prod_beta split: option.splits)

lemma emits_write_cache_file [intro!]: "sys_ok Q \<Longrightarrow> emits Q s t \<Longrightarrow> emits Q s (write_cache_file env i d t)"
  by (auto simp: write_cache_file_def Let_def case_prod_beta)

lemma emits_publish [intro!]: "sys_ok Q \<Longrightarrow> emits Q s t \<Longrightarrow> emits Q s (publish_progress env t)"
  by (simp add: publish_progress_def Let_def case_prod_beta del: log_call_def)
    (intro emits_log emits_pkg_name, auto simp: sys_ok_def)

lemma emits_thread_create [intro!]: "sys_ok Q \<Longrightarrow> emits Q s t \<Longrightarrow> emits Q s (snd (sys_thread_create env t))"
  by (auto simp: sys_thread_create_def emits_def sys_ok_def)

lemma emits_worker_get [intro!]: "sys_ok Q \<Longrightarrow> emits Q s t \<Longrightarrow> emits Q s (snd (big_worker_get env tid t))"
  by (auto simp: big_worker_get_def sys_thread_create_def sys_malloc_def emits_def sys_ok_def Let_def
      split: worker.splits)

text \<open>Driver calls.\<close>

lemma emits_drv [intro!]:
  "emits Q s t \<Longrightarrow> Q (C_CreatePipelineCache dev d) \<Longrightarrow> emits Q s (snd (drv_cpc env dev d t))"
  "emits Q s t \<Longrightarrow> Q (C_MergePipelineCaches dev dst srcs) \<Longrightarrow> emits Q s (drv_mpc dev dst srcs t)"
  "emits Q s t \<Longrightarrow> Q (C_DestroyPipelineCache dev pc) \<Longrightarrow> emits Q s (drv_dpc dev pc t)"
  by (auto simp: drv_cpc_def drv_mpc_def drv_dpc_def emits_def)

lemma emits_fold_dpc [intro!]:
  "emits Q s t \<Longrightarrow> (\<And>pc. Q (C_DestroyPipelineCache dev pc)) \<Longrightarrow> emits Q s (fold (drv_dpc dev) pcs t)"
  by (induction pcs arbitrary: t) (simp_all add: emits_drv)

lemma emits_prime_slot [intro!]:
  "sys_ok Q \<Longrightarrow> (\<And>d. Q (C_CreatePipelineCache dev d)) \<Longrightarrow> emits Q s t \<Longrightarrow>
     emits Q s (snd (prime_slot env dev i t))"
  by (auto simp: prime_slot_def Let_def case_prod_beta split: option.splits)

lemma emits_claim [intro!]: "emits Q s t \<Longrightarrow> emits Q s (snd (cache_claim dev t))"
  by (simp add: cache_claim_def emits_def split: option.splits)

lemma emits_ensure [intro!]:
  "sys_ok Q \<Longrightarrow> (\<And>d. Q (C_CreatePipelineCache dev d)) \<Longrightarrow> emits Q s t \<Longrightarrow>
     emits Q s (snd (ensure_disk_cache env dev t))"
  using emits_claim [of Q s t dev]
  by (auto simp: ensure_disk_cache_def split: prod.splits option.splits)

lemma emits_app_ref [intro!]:
  "emits Q s t \<Longrightarrow> emits Q s (snd (app_cache_ref pc t))"
  "emits Q s t \<Longrightarrow> emits Q s (snd (app_cache_unref pc t))"
  by (simp_all add: app_cache_ref_def app_cache_unref_def emits_def Let_def split: option.splits)

text \<open>Saving reads the cache it saves; draining merges into it and destroys the merged ones.\<close>

lemma emits_commit [intro!]:
  assumes "sys_ok Q" and "emits Q s t"
    and "\<And>n. Q (C_GetPipelineCacheData (dc_dev (dev_caches t ! i)) (dc_pc (dev_caches t ! i)) n)"
  shows "emits Q s (commit_cache env i n now t)"
  using assms
  by (simp add: commit_cache_def Let_def case_prod_beta del: log_call_def)
    (intro conjI impI emits_write_cache_file emits_log emits_os emits_upd_cache; simp)

lemma emits_save [intro!]:
  assumes "sys_ok Q" and "emits Q s t"
    and "\<And>i. c = Some i \<Longrightarrow> Q (C_GetPipelineCacheSize (dc_dev (dev_caches t ! i)) (dc_pc (dev_caches t ! i)))"
    and "\<And>i n. c = Some i \<Longrightarrow> Q (C_GetPipelineCacheData (dc_dev (dev_caches t ! i)) (dc_pc (dev_caches t ! i)) n)"
  shows "emits Q s (save_disk_cache env c force t)"
proof (cases c)
  case (Some i)
  then have dc [simp]: "dev_caches (log_call x u) = dev_caches u" for x and u :: "'a vk_cache_scheme"
    by simp
  show ?thesis
    using assms Some
    by (auto simp: save_disk_cache_def Let_def case_prod_beta simp del: log_call_def intro!: emits_log emits_commit)
qed (simp add: save_disk_cache_def assms)

lemma emits_drain [intro!]:
  assumes "emits Q s t"
    and "\<And>i pcs. c = Some i \<Longrightarrow> Q (C_MergePipelineCaches (dc_dev (dev_caches t ! i)) (dc_pc (dev_caches t ! i)) pcs)"
    and "\<And>i pc. c = Some i \<Longrightarrow> Q (C_DestroyPipelineCache (dc_dev (dev_caches t ! i)) pc)"
  shows "emits Q s (drain_pending c t)"
  using assms by (auto simp: drain_pending_def Let_def split: option.splits)

end
