(* ===== verification/Vk_Cache_Conc.thy ===== *)
theory Vk_Cache_Conc
  imports Vk_Calls "HOL-Library.Multiset"
begin

text \<open>
  Concurrent pipeline creation. \<^verbatim>\<open>compile_batch\<close> holds \<^verbatim>\<open>cache_mu\<close> only in its two critical
  sections; between them other threads run theirs. \<open>conc_step\<close> is the step relation of the whole
  process: each critical section and each driver call between them is one step, taken by any
  batch in flight, and the app's own pipeline-cache calls and the end of a device are steps too.
  The state is the shim's state with the multiset of batches in flight and how far each got.

  The guards of the app's steps are Vulkan's rules for the app: it only names handles it was
  given (the shim never hands out its own cache), and does not destroy a cache or a device that
  one of its own calls is using.
\<close>

section \<open>The step relation\<close>

datatype phase = Entered | Ready | Compiling

type_synonym 'a conc = "'a vk_cache_scheme \<times> (phase \<times> batch) multiset"

inductive conc_step :: "env \<Rightarrow> 'a conc \<Rightarrow> 'a conc \<Rightarrow> bool" for env where
  cs_enter: "dev \<noteq> null \<Longrightarrow> batch_enter env dev app n s = (b, s') \<Longrightarrow>
     conc_step env (s, F) (s', add_mset (Entered, b) F)"
| cs_scratch: "batch_scratch env b s = (b', s') \<Longrightarrow>
     conc_step env (s, add_mset (Entered, b) F) (s', add_mset (Ready, b') F)"
| cs_compile: "run_big_stack env tid kind (b_dev b) (b_slot b) (b_n b) (snd (now_ns env s)) = (r, s') \<Longrightarrow>
     conc_step env (s, add_mset (Ready, b) F) (s', add_mset (Compiling, b) F)"
| cs_finish: "s' = batch_finish env b dt (snd (now_ns env s)) \<Longrightarrow>
     conc_step env (s, add_mset (Compiling, b) F) (s', F)"
| cs_create: "dev \<noteq> null \<Longrightarrow> s' = snd (shim_CreatePipelineCache env dev d s) \<Longrightarrow> conc_step env (s, F) (s', F)"
| cs_merge: "dst \<noteq> master_of dev s \<Longrightarrow> master_of dev s \<notin> set srcs \<Longrightarrow>
     s' = snd (shim_MergePipelineCaches env dev dst srcs s) \<Longrightarrow> conc_step env (s, F) (s', F)"
| cs_size: "pc \<noteq> master_of dev s \<Longrightarrow> s' = snd (shim_GetPipelineCacheSize env dev pc s) \<Longrightarrow>
     conc_step env (s, F) (s', F)"
| cs_data: "pc \<noteq> master_of dev s \<Longrightarrow> s' = snd (shim_GetPipelineCacheData env dev pc sz s) \<Longrightarrow>
     conc_step env (s, F) (s', F)"
| cs_destroy: "pc \<noteq> null \<Longrightarrow> \<forall>x \<in># F. b_app_cache (snd x) \<noteq> pc \<Longrightarrow>
     s' = shim_DestroyPipelineCache dev pc s \<Longrightarrow> conc_step env (s, F) (s', F)"
| cs_device: "\<forall>x \<in># F. b_dev (snd x) \<noteq> dev \<Longrightarrow>
     s' = drop_disk_cache env (cache_lookup dev (dev_caches s)) alive s \<Longrightarrow> conc_step env (s, F) (s', F)"

definition owners :: "VkDevice \<Rightarrow> (phase \<times> batch) multiset \<Rightarrow> nat" where
  "owners d F = size {#x \<in># F. b_own_master (snd x) \<and> b_dev (snd x) = d#}"

definition trackers :: "VkPipelineCache \<Rightarrow> (phase \<times> batch) multiset \<Rightarrow> nat" where
  "trackers pc F = size {#x \<in># F. b_app_tracked (snd x) \<and> b_app_cache (snd x) = pc#}"

definition app_key :: "VkPipelineCache \<times> nat \<Rightarrow> VkPipelineCache option" where
  "app_key e = (if fst e = null then None else Some (fst e))"

definition app_count :: "VkPipelineCache \<Rightarrow> (VkPipelineCache \<times> nat) list \<Rightarrow> nat" where
  "app_count pc tab = (case entry_of app_key tab pc of None \<Rightarrow> 0 | Some e \<Rightarrow> snd e)"

definition batch_ok :: "'a vk_cache_scheme \<Rightarrow> batch \<Rightarrow> bool" where
  "batch_ok s b \<longleftrightarrow> b_dev b \<noteq> null \<and>
     (b_own_master b \<longrightarrow> b_app_cache b = null \<and> \<not> b_app_tracked b \<and> b_slot b = master_of (b_dev b) s \<and> b_slot b \<noteq> null) \<and>
     (b_app_tracked b \<longrightarrow> b_app_cache b \<noteq> null) \<and>
     (\<not> b_own_master b \<longrightarrow> b_slot b = b_app_cache b \<or> b_slot b = b_scratch b)"

lemma owners_simps [simp]:
  "owners d {#} = 0"
  "owners d (add_mset x F) = owners d F + (if b_own_master (snd x) \<and> b_dev (snd x) = d then 1 else 0)"
  by (simp_all add: owners_def)

lemma trackers_simps [simp]:
  "trackers d {#} = 0"
  "trackers d (add_mset x F) = trackers d F + (if b_app_tracked (snd x) \<and> b_app_cache (snd x) = d then 1 else 0)"
  by (simp_all add: trackers_def)

lemma owners_zero: "(\<forall>x \<in># F. b_dev (snd x) \<noteq> d) \<Longrightarrow> owners d F = 0"
  by (auto simp: owners_def filter_mset_eq_mempty_iff)

lemma trackers_zero: "(\<forall>x \<in># F. b_app_cache (snd x) \<noteq> d) \<Longrightarrow> trackers d F = 0"
  by (auto simp: trackers_def filter_mset_eq_mempty_iff)


section \<open>Counting the batches on an app cache\<close>

lemma app_key_find:
  "pc \<noteq> null \<Longrightarrow> first_index (\<lambda>e. fst e = pc) tab = first_index (\<lambda>e. app_key e = Some pc) tab"
  by (rule first_index_cong_nth) (auto simp: app_key_def)

lemma app_key_simps [simp]:
  "app_key (pc, n) = (if pc = null then None else Some pc)"
  "app_key e = None \<longleftrightarrow> fst e = null"
  "app_key e = Some pc \<longleftrightarrow> pc \<noteq> null \<and> fst e = pc"
  by (auto simp: app_key_def)

lemma app_cache_ref_counts:
  assumes "keyed app_key (app_inflight s)" and "pc \<noteq> null" and "app_cache_ref pc s = (t, s')"
  shows "keyed app_key (app_inflight s')"
    and "app_count q (app_inflight s') = app_count q (app_inflight s) + (if t \<and> q = pc then 1 else 0)"
proof -
  let ?tab = "app_inflight s"
  have *: "keyed app_key (app_inflight s') \<and> (\<forall>q. app_count q (app_inflight s') = app_count q ?tab + (if t \<and> q = pc then 1 else 0))"
  proof (cases "first_index (\<lambda>e. fst e = pc) ?tab")
    case (Some i)
    from first_index_SomeD [OF Some] assms(2)
    have i: "i < length ?tab" "app_key (?tab ! i) = Some pc" by auto
    then have k: "keyed app_key (?tab[i := (pc, n)])" for n
      using assms(1,2) by (intro keyed_update_same) (auto simp: app_key_def)
    from Some assms(3) have "t" and "app_inflight s' = ?tab[i := (pc, snd (?tab ! i) + 1)]"
      by (auto simp: app_cache_ref_def Let_def)
    with i k assms(1,2) show ?thesis
      by (simp add: app_count_def entry_of_update_same [OF assms(1) i] entry_of_SomeI [OF assms(1) i])
  next
    case None
    then have e: "entry_of app_key ?tab pc = None"
      by (auto simp: entry_of_None first_index_None)
    show ?thesis
    proof (cases "first_index (\<lambda>e. fst e = null) ?tab")
      case (Some i)
      from first_index_SomeD [OF Some] have "i < length ?tab" "app_key (?tab ! i) = None" by auto
      then have i: "i < length ?tab" "app_key (?tab ! i) = None" .
      have k: "app_key (pc, 1) = Some pc" using assms(2) by simp
      with e assms(1) have "keyed app_key (?tab[i := (pc, 1)])"
        by (intro keyed_update_fresh) (auto simp: entry_of_None)
      moreover from None Some assms(3) have "t" and "app_inflight s' = ?tab[i := (pc, 1)]"
        by (auto simp: app_cache_ref_def Let_def)
      ultimately show ?thesis
        using e by (auto simp: app_count_def entry_of_update_fresh [OF assms(1) i k e] simp del: One_nat_def)
    next
      case N: None
      with None assms show ?thesis by (auto simp: app_cache_ref_def Let_def)
    qed
  qed
  then show "keyed app_key (app_inflight s')"
    and "app_count q (app_inflight s') = app_count q ?tab + (if t \<and> q = pc then 1 else 0)" by simp_all
qed

lemma app_cache_unref_counts:
  assumes "keyed app_key (app_inflight s)" and "pc \<noteq> null" and "app_cache_unref pc s = (l, s')"
    and "1 \<le> app_count pc (app_inflight s)"
  shows "keyed app_key (app_inflight s')"
    and "app_count q (app_inflight s') = app_count q (app_inflight s) - (if q = pc then 1 else 0)"
    and "l \<longleftrightarrow> app_count pc (app_inflight s) = 1"
proof -
  let ?tab = "app_inflight s"
  from assms(4) obtain e where "entry_of app_key ?tab pc = Some e"
    by (auto simp: app_count_def split: option.splits)
  then obtain i where i: "i < length ?tab" "app_key (?tab ! i) = Some pc" "?tab ! i = e"
    "first_index (\<lambda>e. app_key e = Some pc) ?tab = Some i" by (rule entry_of_SomeE)
  have c: "app_count pc ?tab = snd (?tab ! i)"
    using entry_of_SomeI [OF assms(1) i(1,2)] by (simp add: app_count_def)
  have f: "first_index (\<lambda>e. fst e = pc) ?tab = Some i"
    by (rule app_key_find [OF assms(2), THEN trans, OF i(4)])
  have "keyed app_key (app_inflight s') \<and>
    app_count q (app_inflight s') = app_count q ?tab - (if q = pc then 1 else 0) \<and>
    (l \<longleftrightarrow> app_count pc ?tab = 1)"
  proof (cases "snd (?tab ! i) - 1 = 0")
    case True
    with f assms(3) have s': "l" "app_inflight s' = ?tab[i := (null, 0)]"
      by (auto simp: app_cache_unref_def Let_def)
    have "keyed app_key (?tab[i := (null, 0)])"
      using assms(1) by (intro keyed_update_free) auto
    with True s' c assms(4) show ?thesis
      by (auto simp: app_count_def entry_of_update_free [OF assms(1) i(1,2)])
  next
    case False
    with f assms(3) have s': "\<not> l" "app_inflight s' = ?tab[i := (pc, snd (?tab ! i) - 1)]"
      by (auto simp: app_cache_unref_def Let_def)
    have k: "app_key (pc, snd (?tab ! i) - 1) = Some pc" using assms(2) by simp
    then have "keyed app_key (?tab[i := (pc, snd (?tab ! i) - 1)])"
      using assms(1) i by (intro keyed_update_same) (auto simp: app_key_def)
    with False s' c assms(2) show ?thesis
      unfolding s'(2) app_count_def entry_of_update_same [OF assms(1) i(1,2) k]
      by (auto simp: app_count_def)
  qed
  then show "keyed app_key (app_inflight s')"
    and "app_count q (app_inflight s') = app_count q ?tab - (if q = pc then 1 else 0)"
    and "l \<longleftrightarrow> app_count pc ?tab = 1" by blast+
qed

lemma destroy_counts:
  assumes "keyed app_key (app_inflight s)" and "pc \<noteq> null"
  shows "keyed app_key (app_inflight (shim_DestroyPipelineCache dev pc s))"
    and "app_count q (app_inflight (shim_DestroyPipelineCache dev pc s)) =
      (if q = pc then 0 else app_count q (app_inflight s))"
proof -
  let ?tab = "app_inflight s"
  have "keyed app_key (app_inflight (shim_DestroyPipelineCache dev pc s)) \<and>
    app_count q (app_inflight (shim_DestroyPipelineCache dev pc s)) = (if q = pc then 0 else app_count q ?tab)"
  proof (cases "first_index (\<lambda>e. fst e = pc) ?tab")
    case (Some i)
    from first_index_SomeD [OF Some] assms(2)
    have i: "i < length ?tab" "app_key (?tab ! i) = Some pc" by auto
    with Some assms show ?thesis
      by (auto simp: shim_DestroyPipelineCache_def app_count_def entry_of_update_free intro: keyed_update_free)
  next
    case None
    then have e: "entry_of app_key ?tab pc = None"
      by (auto simp: entry_of_None first_index_None)
    with None assms(1) show ?thesis by (simp add: shim_DestroyPipelineCache_def app_count_def)
  qed
  then show "keyed app_key (app_inflight (shim_DestroyPipelineCache dev pc s))"
    and "app_count q (app_inflight (shim_DestroyPipelineCache dev pc s)) =
      (if q = pc then 0 else app_count q (app_inflight s))" by blast+
qed


section \<open>What each step does to the shared caches\<close>

definition masters_kept :: "'a vk_cache_scheme \<Rightarrow> 'a vk_cache_scheme \<Rightarrow> bool" where
  "masters_kept s s' \<longleftrightarrow> (\<forall>d. master_of d s \<noteq> null \<longrightarrow> master_of d s' = master_of d s)"

lemma batch_ok_kept: "masters_kept s s' \<Longrightarrow> batch_ok s b \<Longrightarrow> batch_ok s' b"
  by (auto simp: masters_kept_def batch_ok_def)

lemma app_ref_frame [simp]:
  "dev_caches (snd (app_cache_ref pc s)) = dev_caches s"
  "dev_caches (snd (app_cache_unref pc s)) = dev_caches s"
  by (simp_all add: app_cache_ref_def app_cache_unref_def Let_def split: option.splits)

lemma ensure_masters_kept: "dev \<noteq> null \<Longrightarrow> masters_kept s (snd (ensure_disk_cache env dev s))"
  using ensure_disk_cache_keeps [of dev s env]
  by (auto simp: masters_kept_def ensure_disk_cache_master)

text \<open>The three shapes of a batch after its first critical section.\<close>

definition new_batch :: "VkDevice \<Rightarrow> VkPipelineCache \<Rightarrow> u32 \<Rightarrow> bool \<Rightarrow> batch" where
  "new_batch dev app n tracked = \<lparr>b_dev = dev, b_app_cache = app, b_n = n, b_own_master = False,
     b_app_tracked = tracked, b_scratch = null, b_slot = app\<rparr>"

lemma batch_enter_cases:
  assumes "dev \<noteq> null" and "batch_enter env dev app n s = (b, s')"
  obtains (app) tr where "app \<noteq> null" and "b = new_batch dev app n tr"
      and "app_cache_ref app (snd (ensure_disk_cache env dev s)) = (tr, s')"
  | (own) i where "app = null" and "cache_lookup dev (dev_caches (snd (ensure_disk_cache env dev s))) = Some i"
      and "\<not> in_use dev s" and "fst (ensure_disk_cache env dev s) \<noteq> null"
      and "b = (new_batch dev app n False)\<lparr>b_own_master := True, b_slot := fst (ensure_disk_cache env dev s)\<rparr>"
      and "s' = upd_cache i (\<lambda>c. c\<lparr>master_in_use := True\<rparr>) (snd (ensure_disk_cache env dev s))"
  | (none) "app = null" and "b = new_batch dev app n False" and "s' = snd (ensure_disk_cache env dev s)"
proof (cases "app = null")
  case False
  then show ?thesis
    using assms(2)
    by (intro app [of "fst (app_cache_ref app (snd (ensure_disk_cache env dev s)))"])
      (auto simp: batch_enter_def Let_def case_prod_beta new_batch_def split: option.splits)
next
  case True
  show ?thesis
  proof (cases "\<exists>i. cache_lookup dev (dev_caches (snd (ensure_disk_cache env dev s))) = Some i \<and>
      fst (ensure_disk_cache env dev s) \<noteq> null \<and>
      \<not> master_in_use (dev_caches (snd (ensure_disk_cache env dev s)) ! i)")
    case T: True
    then obtain i where i: "cache_lookup dev (dev_caches (snd (ensure_disk_cache env dev s))) = Some i"
      "fst (ensure_disk_cache env dev s) \<noteq> null"
      "\<not> master_in_use (dev_caches (snd (ensure_disk_cache env dev s)) ! i)" by blast
    then have "\<not> in_use dev (snd (ensure_disk_cache env dev s))" by (simp add: in_use_def)
    then have "\<not> in_use dev s" using assms(1) by (simp add: ensure_disk_cache_in_use)
    with True i assms show ?thesis
      by (intro own [of i]) (auto simp: batch_enter_def Let_def case_prod_beta new_batch_def)
  next
    case False
    with True assms show ?thesis
      by (intro none) (auto simp: batch_enter_def Let_def case_prod_beta new_batch_def split: option.splits)
  qed
qed

lemma batch_enter_views:
  assumes "dev \<noteq> null" and "batch_enter env dev app n s = (b, s')"
  shows "in_use d s' = (in_use d s \<or> b_own_master b \<and> d = dev) \<and> masters_kept s s' \<and>
    (b_own_master b \<longrightarrow> \<not> in_use dev s) \<and> b_dev b = dev \<and> batch_ok s' b"
  using assms
proof (cases rule: batch_enter_cases [of dev env app n s b s'])
  case (app tr)
  have dc: "dev_caches s' = dev_caches (snd (ensure_disk_cache env dev s))"
    using app(3) app_ref_frame(1) [of app "snd (ensure_disk_cache env dev s)"] by simp
  have "masters_kept s s'"
    using ensure_masters_kept [of dev s env] assms(1) master_of_cong [OF dc] by (simp add: masters_kept_def)
  moreover have "in_use d s' = in_use d s"
    using in_use_cong [OF dc] ensure_disk_cache_in_use [of dev d env s] assms(1) by simp
  ultimately show ?thesis
    using app assms(1) by (simp add: new_batch_def batch_ok_def)
next
  case (own i)
  let ?s = "snd (ensure_disk_cache env dev s)"
  have i: "i < length (dev_caches ?s)" by (rule cache_lookup_bound [OF own(2)])
  have m: "master_of q s' = master_of q ?s" for q
    unfolding own(6) by (subst master_of_upd) (auto simp: i master_of_def)
  have u: "in_use d s' = (in_use d ?s \<or> d = dev)"
    unfolding own(6)
    using own(2) cache_lookup_dev [of d "dev_caches ?s" i] cache_lookup_dev [OF own(2)]
    by (subst in_use_upd) (auto simp: i in_use_def)
  have "masters_kept s s'"
    using ensure_masters_kept [of dev s env] assms(1) m by (simp add: masters_kept_def)
  then show ?thesis
    using own assms(1) u m
    by (simp add: new_batch_def batch_ok_def ensure_disk_cache_in_use ensure_disk_cache_master)
next
  case none
  then show ?thesis
    using assms(1) ensure_masters_kept [of dev s env]
    by (simp add: new_batch_def batch_ok_def ensure_disk_cache_in_use)
qed

lemma batch_enter_counts:
  assumes "dev \<noteq> null" and "batch_enter env dev app n s = (b, s')" and "keyed app_key (app_inflight s)"
  shows "keyed app_key (app_inflight s') \<and> app_count q (app_inflight s') =
    app_count q (app_inflight s) + (if b_app_tracked b \<and> b_app_cache b = q then 1 else 0)"
  using assms(1,2)
proof (cases rule: batch_enter_cases [of dev env app n s b s'])
  case (app tr)
  then show ?thesis
    using app_cache_ref_counts [OF _ app(1,3)] assms by (auto simp: new_batch_def)
qed (use assms in \<open>auto simp: new_batch_def\<close>)

definition dev_key :: "dev_cache \<Rightarrow> VkDevice option" where
  "dev_key c = (if dc_dev c = null then None else Some (dc_dev c))"

lemma keyed_dev_cong:
  "keyed dev_key t \<Longrightarrow> length t' = length t \<Longrightarrow> (\<And>j. dc_dev (t' ! j) = dc_dev (t ! j)) \<Longrightarrow> keyed dev_key t'"
  by (simp add: keyed_def dev_key_def)

lemma ensure_keyed:
  assumes "dev \<noteq> null" and "keyed dev_key (dev_caches s)"
  shows "keyed dev_key (dev_caches (snd (ensure_disk_cache env dev s)))"
  using assms(1)
proof (cases rule: ensure_disk_cache_cases [of dev env s])
  case (fresh i)
  have "keyed dev_key (dev_caches (upd_cache i (\<lambda>_. dev_cache_zero\<lparr>dc_dev := dev\<rparr>) s))"
    unfolding dev_caches_upd_cache using assms fresh(2)
    by (intro keyed_update_fresh [where k = dev])
      (auto simp: dev_key_def cache_lookup_def first_index_None split: if_splits)
  with fresh(1) show ?thesis by (auto intro: keyed_dev_cong)
qed (use assms(2) in \<open>auto intro: keyed_dev_cong\<close>)

lemma batch_scratch_frame [simp]:
  "dev_caches (snd (batch_scratch env b s)) = dev_caches s"
  "app_inflight (snd (batch_scratch env b s)) = app_inflight s"
  by (simp_all add: batch_scratch_def Let_def case_prod_beta)

lemma batch_scratch_batch [simp]:
  "b_own_master (fst (batch_scratch env b s)) = b_own_master b"
  "b_dev (fst (batch_scratch env b s)) = b_dev b"
  "b_app_cache (fst (batch_scratch env b s)) = b_app_cache b"
  "b_app_tracked (fst (batch_scratch env b s)) = b_app_tracked b"
  "b_n (fst (batch_scratch env b s)) = b_n b"
  by (simp_all add: batch_scratch_def Let_def case_prod_beta)

lemma batch_scratch_ok: "batch_ok s b \<Longrightarrow> dev_caches s' = dev_caches s \<Longrightarrow> batch_ok s' (fst (batch_scratch env b s))"
  using master_of_cong [of s' s]
  by (auto simp: batch_ok_def batch_scratch_def Let_def case_prod_beta)

lemma run_big_stack_frame [simp]:
  "dev_caches (snd (run_big_stack env tid kind dev pc n s)) = dev_caches s"
  "app_inflight (snd (run_big_stack env tid kind dev pc n s)) = app_inflight s"
  by (simp_all add: run_big_stack_def run_own_thread_def fn_compile_def sys_thread_create_def
      big_worker_get_def Let_def case_prod_beta split: worker.splits)

lemma finish_count_frame [simp]:
  "dev_caches (finish_count env n dt s) = dev_caches s"
  "app_inflight (finish_count env n dt s) = app_inflight s"
  by (simp_all add: finish_count_def Let_def)

lemma finish_own_frame [simp]:
  "length (dev_caches (finish_own env c s)) = length (dev_caches s)"
  "dc_dev (dev_caches (finish_own env c s) ! j) = dc_dev (dev_caches s ! j)"
  "dc_pc (dev_caches (finish_own env c s) ! j) = dc_pc (dev_caches s ! j)"
  "app_inflight (finish_own env c s) = app_inflight s"
  by (simp_all add: finish_own_def Let_def split: option.splits)

lemma finish_own_flag:
  "j < length (dev_caches s) \<Longrightarrow>
    master_in_use (dev_caches (finish_own env c s) ! j) = (master_in_use (dev_caches s ! j) \<and> c \<noteq> Some j)"
  by (cases "c = Some j") (auto simp: finish_own_def Let_def dev_caches_upd_cache split: option.splits)

lemma finish_app_frame [simp]:
  "length (dev_caches (finish_app env b c s)) = length (dev_caches s)"
  "dc_dev (dev_caches (finish_app env b c s) ! j) = dc_dev (dev_caches s ! j)"
  "dc_pc (dev_caches (finish_app env b c s) ! j) = dc_pc (dev_caches s ! j)"
  "master_in_use (dev_caches (finish_app env b c s) ! j) = master_in_use (dev_caches s ! j)"
  "app_inflight (finish_app env b c s) =
     (if b_app_tracked b then app_inflight (snd (app_cache_unref (b_app_cache b) s)) else app_inflight s)"
  by (simp_all add: finish_app_def Let_def case_prod_beta split: option.splits)

lemma finish_scratch_frame [simp]:
  "length (dev_caches (snd (finish_scratch env b c s))) = length (dev_caches s)"
  "dc_dev (dev_caches (snd (finish_scratch env b c s)) ! j) = dc_dev (dev_caches s ! j)"
  "dc_pc (dev_caches (snd (finish_scratch env b c s)) ! j) = dc_pc (dev_caches s ! j)"
  "master_in_use (dev_caches (snd (finish_scratch env b c s)) ! j) = master_in_use (dev_caches s ! j)"
  "app_inflight (snd (finish_scratch env b c s)) = app_inflight s"
  by (simp_all add: finish_scratch_def split: option.splits)

lemma batch_finish_frame [simp]:
  "length (dev_caches (batch_finish env b dt s)) = length (dev_caches s)"
  "dc_dev (dev_caches (batch_finish env b dt s) ! j) = dc_dev (dev_caches s ! j)"
  "dc_pc (dev_caches (batch_finish env b dt s) ! j) = dc_pc (dev_caches s ! j)"
  by (simp_all add: batch_finish_def Let_def case_prod_beta)

lemma batch_finish_flag:
  "j < length (dev_caches s) \<Longrightarrow>
    master_in_use (dev_caches (batch_finish env b dt s) ! j) =
     (master_in_use (dev_caches s ! j) \<and> \<not> (b_own_master b \<and> cache_lookup (b_dev b) (dev_caches s) = Some j))"
  by (simp add: batch_finish_def Let_def case_prod_beta finish_own_flag)

lemma app_cache_unref_app_cong:
  "app_inflight s' = app_inflight s \<Longrightarrow>
     app_inflight (snd (app_cache_unref pc s')) = app_inflight (snd (app_cache_unref pc s)) \<and>
     fst (app_cache_unref pc s') = fst (app_cache_unref pc s)"
  by (simp add: app_cache_unref_def Let_def split: option.splits)

lemma batch_finish_app:
  "app_inflight (batch_finish env b dt s) =
     (if \<not> b_own_master b \<and> b_app_cache b \<noteq> null \<and> b_app_tracked b
      then app_inflight (snd (app_cache_unref (b_app_cache b) s)) else app_inflight s)"
  using app_cache_unref_app_cong [of "finish_count env (b_n b) dt s" s "b_app_cache b"]
  by (simp add: batch_finish_def Let_def case_prod_beta)

lemma cache_lookup_cong:
  "length t' = length t \<Longrightarrow> (\<And>j. dc_dev (t' ! j) = dc_dev (t ! j)) \<Longrightarrow> cache_lookup d t' = cache_lookup d t"
  unfolding cache_lookup_def by (auto intro!: first_index_cong_nth)

lemma batch_finish_lookup [simp]:
  "cache_lookup d (dev_caches (batch_finish env b dt s)) = cache_lookup d (dev_caches s)"
  by (rule cache_lookup_cong) simp_all

lemma batch_finish_views:
  "master_of d (batch_finish env b dt s) = master_of d s"
  "in_use d (batch_finish env b dt s) \<longleftrightarrow> in_use d s \<and> \<not> (b_own_master b \<and> b_dev b = d)"
proof -
  show "master_of d (batch_finish env b dt s) = master_of d s"
    by (simp add: master_of_def split: option.splits)
  show "in_use d (batch_finish env b dt s) \<longleftrightarrow> in_use d s \<and> \<not> (b_own_master b \<and> b_dev b = d)"
    by (auto simp: in_use_def batch_finish_flag cache_lookup_bound split: option.splits)
      (metis cache_lookup_dev)
qed

lemma shim_CreatePipelineCache_views:
  fixes s :: "'a vk_cache_scheme"
  assumes "dev \<noteq> null"
  shows "in_use d (snd (shim_CreatePipelineCache env dev x s)) = in_use d s"
    and "masters_kept s (snd (shim_CreatePipelineCache env dev x s))"
    and "app_inflight (snd (shim_CreatePipelineCache env dev x s)) = app_inflight s"
    and "keyed dev_key (dev_caches s) \<Longrightarrow> keyed dev_key (dev_caches (snd (shim_CreatePipelineCache env dev x s)))"
proof -
  let ?s' = "snd (shim_CreatePipelineCache env dev x s)"
  let ?c = "drv_cpc env dev x s"
  let ?s0 = "snd (prop_on env ''debug.xdplus.vkcacheprime'' (snd ?c))"
  have 0: "dev_caches ?s0 = dev_caches s" "app_inflight ?s0 = app_inflight s" by simp_all
  have "in_use d ?s' = in_use d s \<and> masters_kept s ?s' \<and> app_inflight ?s' = app_inflight s \<and>
    (keyed dev_key (dev_caches s) \<longrightarrow> keyed dev_key (dev_caches ?s'))"
  proof (cases "fst (fst ?c) = VK_SUCCESS \<and> fst (prop_on env ''debug.xdplus.vkcacheprime'' (snd ?c))")
    case True
    then have e: "dev_caches ?s' = dev_caches (snd (ensure_disk_cache env dev ?s0)) \<and>
      app_inflight ?s' = app_inflight (snd (ensure_disk_cache env dev ?s0))"
      unfolding shim_CreatePipelineCache_def case_prod_beta Let_def by (simp split: option.splits)
    then have v: "in_use q ?s' = in_use q s" "master_of q ?s' = master_of q (snd (ensure_disk_cache env dev ?s0))" for q
      using in_use_cong [of ?s' "snd (ensure_disk_cache env dev ?s0)" q] in_use_cong [of ?s0 s q] assms
        master_of_cong [of ?s' "snd (ensure_disk_cache env dev ?s0)" q] 0 ensure_disk_cache_in_use [of dev q env ?s0]
      by metis+
    moreover have "masters_kept s ?s'"
      using ensure_masters_kept [OF assms, of ?s0 env] v(2) master_of_cong [OF 0(1)]
      unfolding masters_kept_def by metis
    ultimately show ?thesis
      using e 0 assms ensure_keyed [OF assms, of ?s0 env] by simp
  next
    case False
    then have "dev_caches ?s' = dev_caches s \<and> app_inflight ?s' = app_inflight s"
      unfolding shim_CreatePipelineCache_def case_prod_beta Let_def by (simp split: option.splits)
    then show ?thesis
      using in_use_cong [of ?s' s] master_of_cong [of ?s' s] by (simp add: masters_kept_def)
  qed
  then show "in_use d ?s' = in_use d s" and "masters_kept s ?s'" and "app_inflight ?s' = app_inflight s"
    and "keyed dev_key (dev_caches s) \<Longrightarrow> keyed dev_key (dev_caches ?s')" by blast+
qed

lemma drop_disk_cache_frame [simp]:
  "length (dev_caches (drop_disk_cache env c alive s)) = length (dev_caches s)"
  "app_inflight (drop_disk_cache env c alive s) = app_inflight s"
  by (simp_all add: drop_disk_cache_def Let_def split: option.splits)

lemma drop_disk_cache_nth:
  "i < length (dev_caches s) \<Longrightarrow> dev_caches (drop_disk_cache env (Some i) alive s) ! i = dev_cache_zero"
  "j \<noteq> i \<Longrightarrow> dc_dev (dev_caches (drop_disk_cache env (Some i) alive s) ! j) = dc_dev (dev_caches s ! j)"
  "j \<noteq> i \<Longrightarrow> dc_pc (dev_caches (drop_disk_cache env (Some i) alive s) ! j) = dc_pc (dev_caches s ! j)"
  "j \<noteq> i \<Longrightarrow> master_in_use (dev_caches (drop_disk_cache env (Some i) alive s) ! j) = master_in_use (dev_caches s ! j)"
  by (simp_all add: drop_disk_cache_def Let_def dev_caches_upd_cache)

lemma drop_disk_cache_lookup:
  assumes "keyed dev_key (dev_caches s)" and "cache_lookup dev (dev_caches s) = Some i"
  shows "cache_lookup d (dev_caches (drop_disk_cache env (Some i) alive s)) =
    (if d = dev then None else cache_lookup d (dev_caches s))"
proof -
  let ?t = "dev_caches s" and ?t' = "dev_caches (drop_disk_cache env (Some i) alive s)"
  have i: "i < length ?t" "dc_dev (?t ! i) = dev" "dev \<noteq> null"
    using assms(2) cache_lookup_bound [OF assms(2)] cache_lookup_dev [OF assms(2)]
    by (auto simp: cache_lookup_def split: if_splits)
  have d: "dc_dev (?t' ! j) = (if j = i then null else dc_dev (?t ! j))" for j
    using i(1) drop_disk_cache_nth [where i = i and s = s and env = env and alive = alive] by (simp add: dev_cache_zero_def)
  show ?thesis
  proof (cases "d = dev")
    case True
    have "j = i" if "j < length ?t" "dc_dev (?t ! j) = dev" for j
      using that assms(1) i by (auto simp: keyed_def dev_key_def)
    then have "dc_dev (?t' ! j) \<noteq> dev" if "j < length ?t'" for j
      using that d i(3) by auto
    then have "\<forall>c \<in> set ?t'. dc_dev c \<noteq> dev" by (metis in_set_conv_nth)
    with True show ?thesis by (simp add: cache_lookup_def first_index_None)
  next
    case False
    with d i show ?thesis
      by (auto simp: cache_lookup_def intro!: first_index_cong_nth)
  qed
qed

lemma drop_disk_cache_views:
  assumes "keyed dev_key (dev_caches s)"
  shows "in_use d (drop_disk_cache env (cache_lookup dev (dev_caches s)) alive s) = (in_use d s \<and> d \<noteq> dev)"
    and "d \<noteq> dev \<Longrightarrow> master_of d (drop_disk_cache env (cache_lookup dev (dev_caches s)) alive s) = master_of d s"
    and "keyed dev_key (dev_caches (drop_disk_cache env (cache_lookup dev (dev_caches s)) alive s))"
proof -
  let ?c = "cache_lookup dev (dev_caches s)"
  let ?s' = "drop_disk_cache env ?c alive s"
  have "in_use d ?s' = (in_use d s \<and> d \<noteq> dev) \<and> (d \<noteq> dev \<longrightarrow> master_of d ?s' = master_of d s) \<and>
    keyed dev_key (dev_caches ?s')"
  proof (cases ?c)
    case None
    then show ?thesis using assms by (auto simp: drop_disk_cache_def in_use_def)
  next
    case (Some i)
    have ne: "j \<noteq> i" if "cache_lookup d (dev_caches s) = Some j" "d \<noteq> dev" for j
      using that Some by (auto dest: cache_lookup_dev)
    have "keyed dev_key ((dev_caches s)[i := dev_cache_zero])"
      using assms by (intro keyed_update_free) (simp_all add: dev_key_def dev_cache_zero_def)
    then have "keyed dev_key (dev_caches ?s')"
      by (rule keyed_dev_cong)
        (use Some cache_lookup_bound [OF Some] drop_disk_cache_nth [where i = i and s = s and env = env and alive = alive] in
          \<open>auto simp: nth_list_update\<close>)
    with Some ne show ?thesis
      by (auto simp: in_use_def master_of_def drop_disk_cache_lookup [OF assms Some] drop_disk_cache_nth
          split: option.splits)
  qed
  then show "in_use d ?s' = (in_use d s \<and> d \<noteq> dev)" and "d \<noteq> dev \<Longrightarrow> master_of d ?s' = master_of d s"
    and "keyed dev_key (dev_caches ?s')" by blast+
qed

section \<open>The invariant\<close>

definition conc_inv :: "'a conc \<Rightarrow> bool" where
  "conc_inv = (\<lambda>(s, F).
     keyed dev_key (dev_caches s) \<and> keyed app_key (app_inflight s) \<and>
     (\<forall>d. owners d F = (if in_use d s then 1 else 0)) \<and>
     (\<forall>x \<in># F. batch_ok s (snd x)) \<and>
     (\<forall>pc. app_count pc (app_inflight s) = trackers pc F))"

lemma conc_inv_same:
  assumes "conc_inv (s, F)" and "dev_caches s' = dev_caches s" and "app_inflight s' = app_inflight s"
  shows "conc_inv (s', F)"
  using assms in_use_cong [OF assms(2)] master_of_cong [OF assms(2)]
  by (auto simp: conc_inv_def batch_ok_def)

lemma conc_inv_enter:
  assumes "conc_inv (s, F)" and "dev \<noteq> null" and "batch_enter env dev app n s = (b, s')"
  shows "conc_inv (s', add_mset (ph, b) F)"
proof -
  have "keyed dev_key (dev_caches s')"
    using assms(2,3)
  proof (cases rule: batch_enter_cases [of dev env app n s b s'])
    case (app tr)
    then have "dev_caches s' = dev_caches (snd (ensure_disk_cache env dev s))"
      using app_ref_frame(1) [of app "snd (ensure_disk_cache env dev s)"] by simp
    with assms show ?thesis by (simp add: conc_inv_def ensure_keyed)
  next
    case (own i)
    have "keyed dev_key (dev_caches (snd (ensure_disk_cache env dev s)))"
      using assms by (simp add: conc_inv_def ensure_keyed)
    then show ?thesis unfolding own(6) by (rule keyed_dev_cong) simp_all
  next
    case none
    with assms show ?thesis by (simp add: conc_inv_def ensure_keyed)
  qed
  with assms(1) batch_enter_views [OF assms(2,3)] batch_enter_counts [OF assms(2,3)]
  show ?thesis
    by (simp add: conc_inv_def) (metis batch_ok_kept snd_conv)
qed

lemma conc_inv_scratch:
  assumes "conc_inv (s, add_mset (ph, b) F)" and "batch_scratch env b s = (b', s')"
  shows "conc_inv (s', add_mset (ph', b') F)"
proof -
  have b': "b' = fst (batch_scratch env b s)" and "s' = snd (batch_scratch env b s)" using assms(2) by simp_all
  then have "dev_caches s' = dev_caches s" "app_inflight s' = app_inflight s" by simp_all
  from conc_inv_same [OF assms(1) this] batch_scratch_ok [of s b s' env] assms(1) b' this
  show ?thesis by (auto simp: conc_inv_def)
qed

lemma conc_inv_finish:
  assumes "conc_inv (s, add_mset (ph, b) F)"
  shows "conc_inv (batch_finish env b dt s, F)"
proof -
  let ?s' = "batch_finish env b dt s"
  from assms have ok: "batch_ok s b"
    and k: "keyed dev_key (dev_caches s)" "keyed app_key (app_inflight s)"
    by (simp_all add: conc_inv_def)
  have "keyed dev_key (dev_caches ?s')" using k(1) by (rule keyed_dev_cong) simp_all
  moreover have "keyed app_key (app_inflight ?s') \<and> app_count pc (app_inflight ?s') = trackers pc F" for pc
  proof (cases "b_app_tracked b")
    case True
    with ok have b: "\<not> b_own_master b" "b_app_cache b \<noteq> null" by (auto simp: batch_ok_def)
    have "1 \<le> app_count (b_app_cache b) (app_inflight s)"
      using assms True by (auto simp: conc_inv_def)
    from app_cache_unref_counts [OF k(2) b(2) surjective_pairing this] True b assms
    show ?thesis by (auto simp: batch_finish_app conc_inv_def)
  next
    case False
    with assms k show ?thesis by (simp add: batch_finish_app conc_inv_def)
  qed
  moreover have "batch_ok ?s' (snd x)" if "x \<in># F" for x
    using that assms by (auto simp: conc_inv_def batch_ok_def batch_finish_views)
  moreover have "owners d F = (if in_use d ?s' then 1 else 0)" for d
    using assms by (auto simp: conc_inv_def batch_finish_views split: if_splits)
  ultimately show ?thesis by (simp add: conc_inv_def)
qed

lemma conc_inv_device:
  assumes "conc_inv (s, F)" and "\<forall>x \<in># F. b_dev (snd x) \<noteq> dev"
  shows "conc_inv (drop_disk_cache env (cache_lookup dev (dev_caches s)) alive s, F)"
  using assms owners_zero [OF assms(2)] drop_disk_cache_views [where s = s and env = env and dev = dev and alive = alive]
  by (auto simp: conc_inv_def batch_ok_def)

theorem conc_step_inv: "conc_step env c c' \<Longrightarrow> conc_inv c \<Longrightarrow> conc_inv c'"
proof (induction rule: conc_step.induct)
  case (cs_compile tid kind b s r s' F)
  have s': "s' = snd (run_big_stack env tid kind (b_dev b) (b_slot b) (b_n b) (snd (now_ns env s)))"
    by (simp add: cs_compile(1))
  have "conc_inv (s', add_mset (Ready, b) F)"
    by (rule conc_inv_same [OF cs_compile(2)]) (simp_all add: s')
  then show ?case by (simp add: conc_inv_def)
next
  case (cs_create dev s' d s F)
  then show ?case 
    using shim_CreatePipelineCache_views [where dev = dev and env = env and x = d and s = s] 
    by (auto simp: conc_inv_def intro: batch_ok_kept)
next
  case (cs_destroy pc F s' dev s)
  have dc: "dev_caches s' = dev_caches s" by (simp add: cs_destroy shim_DestroyPipelineCache_def Let_def split: option.splits)
  show ?case
    using cs_destroy(4) destroy_counts [where s = s and pc = pc and dev = dev] trackers_zero [OF cs_destroy(2)] cs_destroy(1,3) dc
      in_use_cong [OF dc] master_of_cong [OF dc]
    by (auto simp: conc_inv_def batch_ok_def)
next
  case (cs_finish s' b dt s F)
  have "conc_inv (snd (now_ns env s), add_mset (Compiling, b) F)"
    by (rule conc_inv_same [OF cs_finish(2)]) simp_all
  then show ?case unfolding cs_finish(1) by (rule conc_inv_finish)
qed (auto intro: conc_inv_enter conc_inv_scratch conc_inv_finish conc_inv_device conc_inv_same
   simp: shim_MergePipelineCaches_def shim_GetPipelineCacheSize_def shim_GetPipelineCacheData_def)


section \<open>Calls\<close>

fun touches :: "VkDevice \<Rightarrow> VkPipelineCache \<Rightarrow> vk_call \<Rightarrow> bool" where
  "touches d m (C_MergePipelineCaches d' dst srcs) \<longleftrightarrow> d' = d \<and> (dst = m \<or> m \<in> set srcs)"
| "touches d m (C_GetPipelineCacheSize d' pc) \<longleftrightarrow> d' = d \<and> pc = m"
| "touches d m (C_GetPipelineCacheData d' pc n) \<longleftrightarrow> d' = d \<and> pc = m"
| "touches d m _ \<longleftrightarrow> False"

lemma not_touches_sys: "sys_ok (\<lambda>c. \<not> touches d m c)"
  by (auto simp: sys_ok_def elim!: is_sys.elims)

lemma emits_finish_count [intro!]: "sys_ok Q \<Longrightarrow> emits Q s t \<Longrightarrow> emits Q s (finish_count env n dt t)"
  using emits_publish [of Q s _ env] by (auto simp: finish_count_def Let_def emits_def)

lemma emits_other_device:
  assumes "cache_lookup e (dev_caches t) = c" and "e \<noteq> d" and "emits (\<lambda>c. \<not> touches d m c) s t"
  shows "emits (\<lambda>c. \<not> touches d m c) s (save_disk_cache env c force (drain_pending c t))"
  using assms not_touches_sys by (auto dest!: cache_lookup_dev)

lemma emits_finish_own:
  assumes "b_dev b \<noteq> d" 
  shows "emits (\<lambda>c. \<not> touches d m c) s (finish_own env (cache_lookup (b_dev b) (dev_caches s)) s)"
  using assms not_touches_sys
  by (auto simp: finish_own_def Let_def split: option.splits dest!: cache_lookup_dev)

lemma emits_finish_app:
  assumes "b_dev b = d \<longrightarrow> in_use d s"
  shows "emits (\<lambda>c. \<not> touches d m c) s (finish_app env b (cache_lookup (b_dev b) (dev_caches s)) s)"
proof (cases "b_dev b = d")
  case True
  with assms show ?thesis
    using not_touches_sys by (auto simp: finish_app_def in_use_def Let_def case_prod_beta split: option.splits)
next
  case False
  then show ?thesis
    using not_touches_sys
    by (auto simp: finish_app_def Let_def case_prod_beta split: option.splits dest!: cache_lookup_dev)
qed

lemma emits_finish_scratch:
  assumes "b_dev b = d \<longrightarrow> in_use d s"
  shows "emits (\<lambda>c. \<not> touches d m c) s (snd (finish_scratch env b (cache_lookup (b_dev b) (dev_caches s)) s))"
proof (cases "b_dev b = d")
  case True
  with assms show ?thesis
    using not_touches_sys by (auto simp: finish_scratch_def in_use_def split: option.splits)
next
  case False
  then show ?thesis
    using not_touches_sys by (auto simp: finish_scratch_def split: option.splits dest!: cache_lookup_dev)
qed


lemma emits_enter:
  assumes "dev \<noteq> null" and "batch_enter env dev app n s = (b, s')"
  shows "emits (\<lambda>c. \<not> touches d m c) s s'"
proof -
  let ?s = "snd (ensure_disk_cache env dev s)"
  have e: "emits (\<lambda>c. \<not> touches d m c) s ?s"
    using not_touches_sys by auto
  from assms show ?thesis
  proof (cases rule: batch_enter_cases [of dev env app n s b s'])
    case (app tr)
    then have "s' = snd (app_cache_ref app ?s)" by simp
    with e show ?thesis by auto
  qed (use e in auto)
qed

lemma emits_run_big_stack:
  assumes "sys_ok Q" and "emits Q s t" and "\<And>st. Q (C_CreatePipelines kind dev pc n st)"
  shows "emits Q s (snd (run_big_stack env tid kind dev pc n t))"
  using assms
  by (auto simp: run_big_stack_def run_own_thread_def fn_compile_def Let_def case_prod_beta simp del: log_call_def
      intro!: emits_log)

lemma emits_batch_finish:
  assumes "in_use d s" and "\<not> (b_own_master b \<and> b_dev b = d)"
  shows "emits (\<lambda>c. \<not> touches d m c) s (batch_finish env b dt s)"
proof -
  let ?s = "finish_count env (b_n b) dt s"
  have e: "emits (\<lambda>c. \<not> touches d m c) s ?s" using not_touches_sys by auto
  have u: "in_use d ?s" using assms(1) in_use_cong [of ?s s d] by simp
  show ?thesis
    using assms(2) emits_trans [OF e emits_finish_own] emits_trans [OF e emits_finish_app] 
      emits_trans [OF e emits_finish_scratch] u e
    unfolding batch_finish_def Let_def case_prod_beta
    by (auto simp del: finish_count_frame)
qed

lemma emits_create:
  assumes "in_use d s" and "dev \<noteq> null"
  shows "emits (\<lambda>c. \<not> touches d m c) s (snd (shim_CreatePipelineCache env dev x s))"
proof -
  let ?s0 = "snd (prop_on env ''debug.xdplus.vkcacheprime'' (snd (drv_cpc env dev x s)))"
  have "in_use d (snd (ensure_disk_cache env dev ?s0))"
    using assms in_use_cong [of ?s0 s d] ensure_disk_cache_in_use [of dev d env ?s0] by simp
  then have "\<not> (cache_lookup d (dev_caches (snd (ensure_disk_cache env dev ?s0))) = Some i \<and>
    \<not> master_in_use (dev_caches (snd (ensure_disk_cache env dev ?s0)) ! i))" for i
    by (auto simp: in_use_def)
  then show ?thesis
    using not_touches_sys
    by (auto simp: shim_CreatePipelineCache_def Let_def case_prod_beta split: option.splits)
qed

lemma conc_step_untouched:
  assumes "conc_inv (s, F)" and "conc_step env (s, F) (s', F')" and "in_use d s" and "in_use d s'"
  shows "\<exists>cs. calls s' = calls s @ cs \<and> (\<forall>c \<in> set cs. \<not> touches d (master_of d s) c)"
proof -
  have "emits (\<lambda>c. \<not> touches d (master_of d s) c) s s'"
    using assms(2)
  proof cases
    case (cs_finish b dt)
    let ?s = "snd (now_ns env s)"
    have u: "in_use d ?s" using assms(3) in_use_cong [of ?s s d] by simp
    moreover have "\<not> (b_own_master b \<and> b_dev b = d)"
      using assms(4) cs_finish by (auto simp: batch_finish_views)
    moreover have "emits (\<lambda>c. \<not> touches d (master_of d s) c) s ?s" using not_touches_sys by auto
    ultimately show ?thesis
      using emits_batch_finish cs_finish(2) emits_trans by blast
  next
    case (cs_device dev alive)
    with assms have "dev \<noteq> d" by (auto simp: conc_inv_def drop_disk_cache_views)
    then show ?thesis
      using cs_device not_touches_sys
      by (auto simp: drop_disk_cache_def Let_def split: option.splits dest!: cache_lookup_dev)
  next
    case (cs_scratch b b' F)
    then have "s' = snd (batch_scratch env b s)" by simp
    then show ?thesis by (auto simp: batch_scratch_def Let_def case_prod_beta)
  next
    case (cs_compile tid kind b r F)
    then have "s' = snd (run_big_stack env tid kind (b_dev b) (b_slot b) (b_n b) (snd (now_ns env s)))" by simp
    then show ?thesis using not_touches_sys by (auto intro!: emits_run_big_stack)
  next
    case (cs_enter dev app n b)
    then show ?thesis by (auto intro: emits_enter)
  next
    case (cs_create dev da)
    with assms(3) show ?thesis by (auto intro: emits_create)
  qed (use assms(3) in \<open>auto
     simp: emits_def shim_MergePipelineCaches_def shim_GetPipelineCacheSize_def drv_mpc_def drv_dpc_def
       shim_GetPipelineCacheData_def shim_DestroyPipelineCache_def split: option.splits\<close>)
  then show ?thesis by (auto simp: emits_def list_all_iff)
qed


section \<open>Every interleaving\<close>

definition cache_init :: "'a vk_cache_scheme \<Rightarrow> bool" where
  "cache_init s \<longleftrightarrow> dev_caches s = replicate DEV_CACHE_MAX dev_cache_zero \<and>
     app_inflight s = replicate APP_CACHE_MAX (null, 0)"

lemma cache_init_inv: "cache_init s \<Longrightarrow> conc_inv (s, {#})"
proof -
  assume i: "cache_init s"
  have "cache_lookup d (dev_caches s) = None" for d
    using i by (simp add: cache_init_def cache_lookup_def dev_cache_zero_def first_index_None)
  then have "\<not> in_use d s" for d by (simp add: in_use_def)
  moreover have "entry_of app_key (app_inflight s) pc = None" for pc
    using i by (simp add: cache_init_def entry_of_None)
  ultimately show ?thesis
    using i by (simp add: conc_inv_def cache_init_def keyed_replicate dev_key_def dev_cache_zero_def app_count_def)
qed

lemma reachable_inv: "(conc_step env)\<^sup>*\<^sup>* c c' \<Longrightarrow> conc_inv c \<Longrightarrow> conc_inv c'"
  by (induction rule: rtranclp_induct) (auto intro: conc_step_inv)

text \<open>C1. However the threads' batches and the app's calls interleave, at most one batch in flight
  on a device compiles into the shim's shared cache, it compiles into that very cache, and every
  other batch was given the app's cache or its own scratch cache.\<close>

theorem shared_cache_exclusive:
  assumes "cache_init s0" and "(conc_step env)\<^sup>*\<^sup>* (s0, {#}) (s, F)"
  shows "owners d F = (if in_use d s then 1 else 0) \<and>
    (\<forall>x \<in># F. if b_own_master (snd x)
       then b_slot (snd x) = master_of (b_dev (snd x)) s \<and> b_slot (snd x) \<noteq> null
       else b_slot (snd x) = b_app_cache (snd x) \<or> b_slot (snd x) = b_scratch (snd x))"
  using reachable_inv [OF assms(2) cache_init_inv [OF assms(1)]]
  by (auto simp: conc_inv_def batch_ok_def)

text \<open>While a batch holds the shared cache of a device, no step of any other thread merges
  into it or out of it, or serialises it.\<close>

theorem shared_cache_not_touched:
  assumes "cache_init s0" and "(conc_step env)\<^sup>*\<^sup>* (s0, {#}) (s, F)"
    and "conc_step env (s, F) (s', F')" and "in_use d s" and "in_use d s'"
  shows "\<exists>cs. calls s' = calls s @ cs \<and> (\<forall>c \<in> set cs. \<not> touches d (master_of d s) c)"
  using conc_step_untouched [OF reachable_inv [OF assms(2) cache_init_inv [OF assms(1)]] assms(3-5)] .

text \<open>A tracked batch that is told it was the last user of the app's cache, and may therefore
  harvest it, really is the last of the tracked ones.\<close>

theorem last_user_is_last:
  assumes "cache_init s0" and "(conc_step env)\<^sup>*\<^sup>* (s0, {#}) (s, add_mset (ph, b) F)"
    and "b_app_tracked b"
  shows "fst (app_cache_unref (b_app_cache b) s) \<longleftrightarrow>
    (\<forall>x \<in># F. b_app_tracked (snd x) \<longrightarrow> b_app_cache (snd x) \<noteq> b_app_cache b)"
proof -
  have inv: "conc_inv (s, add_mset (ph, b) F)"
    by (rule reachable_inv [OF assms(2) cache_init_inv [OF assms(1)]])
  then have n: "b_app_cache b \<noteq> null" and k: "keyed app_key (app_inflight s)"
    and c: "app_count (b_app_cache b) (app_inflight s) = trackers (b_app_cache b) F + 1"
    using assms(3) by (auto simp: conc_inv_def batch_ok_def)
  from app_cache_unref_counts(3) [OF k n surjective_pairing] c
  have "fst (app_cache_unref (b_app_cache b) s) \<longleftrightarrow> trackers (b_app_cache b) F = 0" by simp
  also have "\<dots> \<longleftrightarrow> (\<forall>x \<in># F. b_app_tracked (snd x) \<longrightarrow> b_app_cache (snd x) \<noteq> b_app_cache b)"
    by (auto simp: trackers_def filter_mset_eq_mempty_iff)
  finally show ?thesis .
qed

section \<open>The overflow of the reference counts\<close>

lemma app_cache_ref_full:
  "\<forall>e \<in> set (app_inflight s). fst e \<noteq> null \<and> fst e \<noteq> pc \<Longrightarrow>
     app_cache_ref pc s = (False, s\<lparr>warned_app_cache_full := True\<rparr>)"
  by (simp add: app_cache_ref_def first_index_None [THEN iffD2])

lemma app_cache_unref_frees:
  "app_cache_unref q s = (True, s') \<Longrightarrow> \<exists>e \<in> set (app_inflight s'). fst e = null"
  by (auto simp: app_cache_unref_def Let_def set_update_memI split: option.splits if_splits
      dest!: first_index_bound intro!: bexI [of _ "(null, 0)"])

lemma app_cache_ref_free:
  "\<exists>e \<in> set (app_inflight s). fst e = null \<Longrightarrow> fst (app_cache_ref pc s)"
  by (auto simp: app_cache_ref_def Let_def first_index_None split: option.splits)

text \<open>The reference counts hold 16 handles. When they are all taken, a batch with another app
  cache is not counted, and once a slot is free again a second batch with that cache is told it is
  the last user although the first is still in flight.\<close>

theorem uncounted_user_overlooked:
  assumes "keyed app_key (app_inflight s)" and "pc \<noteq> null" and "q \<noteq> null"
    and "\<forall>e \<in> set (app_inflight s). fst e \<noteq> null \<and> fst e \<noteq> pc"
    and "app_count q (app_inflight s) = 1"
    and "app_cache_ref pc s = (t1, s1)"
    and "app_cache_unref q s1 = (l1, s2)"
    and "app_cache_ref pc s2 = (t2, s3)"
  shows "\<not> t1 \<and> l1 \<and> t2 \<and> fst (app_cache_unref pc s3)"
proof -
  have s1: "t1 = False" "app_inflight s1 = app_inflight s"
    using assms(6) app_cache_ref_full [OF assms(4)] by auto
  note k1 = assms(1) [folded s1(2)]
  note u = app_cache_unref_counts [OF k1 assms(3,7)]
  have e0: "entry_of app_key (app_inflight s) pc = None" using assms(4) by (auto simp: entry_of_None)
  with assms(5) have q: "pc \<noteq> q" by (auto simp: app_count_def)
  have l1: "l1" and k2: "keyed app_key (app_inflight s2)" using u s1 assms(5) by simp_all
  have c2: "app_count pc (app_inflight s2) = 0" using u s1 assms(5) q e0 by (simp add: app_count_def)
  have t2: "t2"
    using app_cache_ref_free [OF app_cache_unref_frees [OF assms(7) [unfolded eqTrueI [OF l1]]], of pc] assms(8) by simp
  from app_cache_ref_counts(1,2) [OF k2 assms(2,8)] t2 c2
  have "keyed app_key (app_inflight s3)" and "app_count pc (app_inflight s3) = 1" by simp_all
  with app_cache_unref_counts(3) [OF _ assms(2) surjective_pairing, of s3] show ?thesis
    using s1 l1 t2 by simp
qed

section \<open>The theorems at a concrete driver\<close>

definition generous :: "env \<Rightarrow> bool" where
  "generous env \<longleftrightarrow> (\<forall>d n. e_gdpa env d n) \<and>
     (\<forall>h d x. fst (e_CreatePipelineCache env h d x) = VK_SUCCESS \<and> snd (e_CreatePipelineCache env h d x) \<noteq> null)"

lemma prime_slot_generous: "generous env \<Longrightarrow> fst (prime_slot env dev i s) \<noteq> null"
  by (simp add: generous_def prime_slot_def resolve_cache_fns_def resolve_dev_def drv_cpc_def Let_def case_prod_beta)

lemma batch_enter_generous:
  assumes "generous env" and "dev \<noteq> null" and "cache_init s"
  shows "b_own_master (fst (batch_enter env dev null n s))"
proof -
  have n: "cache_lookup dev (dev_caches s) = None"
    using assms(3) by (simp add: cache_init_def cache_lookup_def dev_cache_zero_def first_index_None)
  have f: "first_index (\<lambda>c. dc_dev c = null) (dev_caches s) = Some 0"
    using assms(3) by (simp add: cache_init_def DEV_CACHE_MAX_def dev_cache_zero_def numeral_eq_Suc)
  have "ensure_disk_cache env dev s = prime_slot env dev 0 (upd_cache 0 (\<lambda>_. dev_cache_zero\<lparr>dc_dev := dev\<rparr>) s)"
    using n f assms(3)
    by (simp add: ensure_disk_cache_def cache_claim_def dev_caches_upd_cache dev_cache_zero_def cache_init_def DEV_CACHE_MAX_def)
  then have "fst (ensure_disk_cache env dev s) \<noteq> null" using prime_slot_generous assms(1) by simp
  moreover have "\<not> in_use dev (snd (ensure_disk_cache env dev s))"
    using n assms(2) by (simp add: ensure_disk_cache_in_use) (simp add: in_use_def)
  moreover have "master_of dev (snd (ensure_disk_cache env dev s)) \<noteq> null"
    using calculation(1) assms(2) by (simp add: ensure_disk_cache_master)
  ultimately show ?thesis
    by (auto simp: batch_enter_def in_use_def master_of_def case_prod_beta split: option.splits)
qed

lemma generous_demo: "generous env_demo"
  by (simp add: generous_def env_demo_def)

lemma boot_init: "cache_init vk_cache_boot"
  by (simp add: cache_init_def vk_cache_boot_def)

theorem shared_cache_exclusive_witness:
  "\<exists>s b. (conc_step env_demo)\<^sup>*\<^sup>* (vk_cache_boot, {#}) (s, {#(Entered, b)#}) \<and> b_own_master b \<and>
     in_use 5 s \<and> b_slot b = master_of 5 s \<and> master_of 5 s \<noteq> null"
proof -
  obtain b s where e: "batch_enter env_demo 5 null 1 vk_cache_boot = (b, s)" by fastforce
  have "b_own_master b" using batch_enter_generous [OF generous_demo _ boot_init, of 5 1] e by simp
  moreover have "b_dev b = 5" using batch_enter_views [OF _ e] by simp
  moreover have r: "(conc_step env_demo)\<^sup>*\<^sup>* (vk_cache_boot, {#}) (s, {#(Entered, b)#})"
    using e by (intro r_into_rtranclp cs_enter) auto
  ultimately show ?thesis using shared_cache_exclusive [OF boot_init r, of 5]
    by (intro exI [of _ s] exI [of _ b]) (auto split: if_splits)
qed

theorem shared_cache_not_touched_witness:
  "\<exists>(s :: vk_cache) s' b b' cs. conc_step env_demo (s, {#(Entered, b)#}) (s', {#(Entered, b'), (Entered, b)#}) \<and> in_use 5 s \<and>
     calls s' = calls s @ cs \<and> (\<forall>c \<in> set cs. \<not> touches 5 (master_of 5 s) c)"
proof -
  obtain b s where e: "batch_enter env_demo 5 null 1 vk_cache_boot = (b, s)" by fastforce
  obtain b' s' where e': "batch_enter env_demo 5 null 1 s = (b', s')" by fastforce
  have "b_own_master b" using batch_enter_generous [OF generous_demo _ boot_init, of 5 1] e by simp
  then have u: "in_use 5 s" "in_use 5 s'"
    using batch_enter_views [OF _ e, of 5] batch_enter_views [OF _ e', of 5] by simp_all
  have r: "(conc_step env_demo)\<^sup>*\<^sup>* (vk_cache_boot, {#}) (s, {#(Entered, b)#})"
    using e by (intro r_into_rtranclp cs_enter) auto
  have c: "conc_step env_demo (s, {#(Entered, b)#}) (s', {#(Entered, b'), (Entered, b)#})"
    using e' by (intro cs_enter) auto
  from shared_cache_not_touched [OF boot_init r c u] u c show ?thesis by blast
qed

theorem last_user_is_last_witness:
  "\<exists>s b. (conc_step env_demo)\<^sup>*\<^sup>* (vk_cache_boot, {#}) (s, {#(Entered, b)#}) \<and> b_app_cache b = 9 \<and>
     b_app_tracked b \<and> fst (app_cache_unref 9 s)"
proof -
  obtain b s where e: "batch_enter env_demo 5 9 1 vk_cache_boot = (b, s)" by fastforce
  have r: "(conc_step env_demo)\<^sup>*\<^sup>* (vk_cache_boot, {#}) (s, {#(Entered, b)#})"
    using e by (intro r_into_rtranclp cs_enter) auto
  let ?s = "snd (ensure_disk_cache env_demo 5 vk_cache_boot)"
  have "(null, 0) \<in> set (app_inflight ?s)"
    by (simp add: vk_cache_boot_def APP_CACHE_MAX_def)
  then have "fst (app_cache_ref 9 ?s)" by (intro app_cache_ref_free) force
  with e have "b_app_cache b = 9" "b_app_tracked b"
    by (auto simp: batch_enter_def Let_def case_prod_beta split: option.splits)
  with r last_user_is_last [OF boot_init r] show ?thesis by auto
qed

theorem uncounted_user_overlooked_witness:
  "let s = vk_cache_boot\<lparr>app_inflight := map (\<lambda>i. (i, 1)) [1..<17]\<rparr>;
       (t1, s1) = app_cache_ref 40 s; (l1, s2) = app_cache_unref 3 s1; (t2, s3) = app_cache_ref 40 s2
   in \<not> t1 \<and> l1 \<and> t2 \<and> fst (app_cache_unref 40 s3)"
proof -
  let ?s = "vk_cache_boot\<lparr>app_inflight := map (\<lambda>i. (i, 1)) [1..<17]\<rparr>"
  have k: "keyed app_key (app_inflight ?s)" by (auto simp: keyed_def)
  have "entry_of app_key (app_inflight ?s) 3 = Some (3, 1)"
    using entry_of_SomeI [OF k, of 2 3] by simp
  then have c: "app_count 3 (app_inflight ?s) = 1" by (simp add: app_count_def)
  show ?thesis
    using uncounted_user_overlooked [OF k _ _ _ c surjective_pairing surjective_pairing surjective_pairing, of 40]
    by (auto simp add: Let_def case_prod_beta)
qed

section \<open>One driver compile per call\<close>

fun is_compile :: "vk_call \<Rightarrow> bool" where
  "is_compile (C_CreatePipelines _ _ _ _ _) = True"
| "is_compile _ = False"

abbreviation (input) no_compile :: "vk_call \<Rightarrow> bool" where
  "no_compile c \<equiv> \<not> is_compile c"

lemma no_compile_sys: "sys_ok no_compile"
  by (auto simp: sys_ok_def elim!: is_sys.elims)

lemma no_compile_enter: "emits no_compile s (snd (batch_enter env dev app n s))"
  using no_compile_sys by (auto simp: batch_enter_def Let_def case_prod_beta split: option.splits)

lemma no_compile_scratch: "emits no_compile s (snd (batch_scratch env b s))"
  by (auto simp: batch_scratch_def Let_def case_prod_beta)

lemma no_compile_finish: "emits no_compile s (batch_finish env b dt s)"
proof -
  note c = no_compile_sys
  have own: "emits no_compile t (finish_own env x t)" for t :: "'a vk_cache_scheme" and x
    using c by (auto simp: finish_own_def Let_def split: option.splits)
  have app: "emits no_compile t (finish_app env b x t)" for t :: "'a vk_cache_scheme" and x
    using c by (auto simp: finish_app_def Let_def case_prod_beta split: option.splits)
  have scr: "emits no_compile t (snd (finish_scratch env b x t))" for t :: "'a vk_cache_scheme" and x
    using c by (auto simp: finish_scratch_def split: option.splits)
  have e: "emits no_compile s (finish_count env (b_n b) dt s)" using c by auto
  show ?thesis
    using emits_trans [OF e own] emits_trans [OF e app] emits_trans [OF e scr] e
    unfolding batch_finish_def Let_def case_prod_beta by auto
qed

text \<open>From \<open>s\<close> on, the history of the result's state has exactly one compile, with the cache \<open>pc\<close>; the
  result is the driver's answer to it; and it ran on the caller's own stack only where creating a
  thread had just failed.\<close>

definition compiles_once :: "env \<Rightarrow> pipeline_kind \<Rightarrow> VkDevice \<Rightarrow> VkPipelineCache \<Rightarrow> u32 \<Rightarrow>
    'a vk_cache_scheme \<Rightarrow> VkResult \<times> 'a vk_cache_scheme \<Rightarrow> bool" where
  "compiles_once env kind dev pc n s res \<longleftrightarrow>
     (\<exists>h st t. calls (snd res) = calls s @ h @ [C_CreatePipelines kind dev pc n st] @ t \<and>
        list_all no_compile (h @ t) \<and>
        fst res = e_CreatePipelines env (calls s @ h) kind dev pc n \<and>
        (st = CallerStack \<longrightarrow> (\<exists>h'. h = h' @ [C_thread_create] \<and> \<not> e_thread env (calls s @ h'))))"

lemma compiles_onceI:
  "calls (snd res) = calls s @ h @ [C_CreatePipelines kind dev pc n st] @ t \<Longrightarrow> list_all no_compile (h @ t) \<Longrightarrow>
     fst res = e_CreatePipelines env (calls s @ h) kind dev pc n \<Longrightarrow>
     (st = CallerStack \<Longrightarrow> \<exists>h'. h = h' @ [C_thread_create] \<and> \<not> e_thread env (calls s @ h')) \<Longrightarrow>
     compiles_once env kind dev pc n s res"
  unfolding compiles_once_def by blast

lemma compiles_onceE:
  assumes "compiles_once env kind dev pc n s res"
  obtains h st t where "calls (snd res) = calls s @ h @ [C_CreatePipelines kind dev pc n st] @ t"
    and "list_all no_compile (h @ t)" and "fst res = e_CreatePipelines env (calls s @ h) kind dev pc n"
    and "st = CallerStack \<longrightarrow> (\<exists>h'. h = h' @ [C_thread_create] \<and> \<not> e_thread env (calls s @ h'))"
  using assms unfolding compiles_once_def by blast

lemma compiles_once_before:
  assumes "emits no_compile s t" and "compiles_once env kind dev pc n t res"
  shows "compiles_once env kind dev pc n s res"
proof -
  obtain cs where cs: "calls t = calls s @ cs" "list_all no_compile cs"
    using assms(1) by (auto simp: emits_def)
  obtain h st u where h: "calls (snd res) = calls t @ h @ [C_CreatePipelines kind dev pc n st] @ u"
    "list_all no_compile (h @ u)" "fst res = e_CreatePipelines env (calls t @ h) kind dev pc n"
    "st = CallerStack \<longrightarrow> (\<exists>h'. h = h' @ [C_thread_create] \<and> \<not> e_thread env (calls t @ h'))"
    using assms(2) by (rule compiles_onceE)
  show ?thesis
    by (rule compiles_onceI [of res s "cs @ h" _ _ _ _ st u]) (use cs h in auto)
qed

lemma compiles_once_after:
  assumes "compiles_once env kind dev pc n s res" and "emits no_compile (snd res) t"
  shows "compiles_once env kind dev pc n s (fst res, t)"
proof -
  obtain cs where cs: "calls t = calls (snd res) @ cs" "list_all no_compile cs"
    using assms(2) by (auto simp: emits_def)
  obtain h st u where h: "calls (snd res) = calls s @ h @ [C_CreatePipelines kind dev pc n st] @ u"
    "list_all no_compile (h @ u)" "fst res = e_CreatePipelines env (calls s @ h) kind dev pc n"
    "st = CallerStack \<longrightarrow> (\<exists>h'. h = h' @ [C_thread_create] \<and> \<not> e_thread env (calls s @ h'))"
    using assms(1) by (rule compiles_onceE)
  show ?thesis
    by (rule compiles_onceI [of "(fst res, t)" s h _ _ _ _ st "u @ cs"]) (use cs h in auto)
qed

lemma fn_compile_once: "st \<noteq> CallerStack \<Longrightarrow> compiles_once env kind dev pc n s (fn_compile env kind dev pc n st s)"
  by (rule compiles_onceI [of _ _ "[]" _ _ _ _ st "[]"]) (auto simp: fn_compile_def)

lemma run_own_thread_once: "compiles_once env kind dev pc n s (run_own_thread env kind dev pc n s)"
  by (rule compiles_onceI [of _ _ "[C_thread_create]" _ _ _ _
        "if e_thread env (calls s) then OwnThreadStack else CallerStack" "[]"])
    (auto simp: run_own_thread_def sys_thread_create_def fn_compile_def split: if_splits)

lemma run_big_stack_once: "compiles_once env kind dev pc n s (run_big_stack env tid kind dev pc n s)"
proof -
  let ?p = "prop_on env ''debug.xdplus.vkbigworker'' s"
  let ?w = "big_worker_get env tid (snd ?p)"
  have p: "emits no_compile s (snd ?p)" and w: "emits no_compile s (snd ?w)"
    using no_compile_sys by auto
  show ?thesis
    unfolding run_big_stack_def Let_def case_prod_beta
    by (simp add: compiles_once_before [OF p run_own_thread_once] compiles_once_before [OF w run_own_thread_once]
        compiles_once_before [OF w fn_compile_once])
qed

text \<open>C38. Whatever happens to the caches around it, one \<^verbatim>\<open>vkCreate*Pipelines\<close> call makes exactly one
  driver compile, of the pipelines asked for, and returns the driver's result; an app's own cache
  is the cache it compiles into.\<close>

theorem compile_batch_once:
  "\<exists>pc. compiles_once env kind dev pc n s (compile_batch env tid kind dev app n s) \<and> (app = null \<or> pc = app)"
proof -
  let ?e = "batch_enter env dev app n s"
  let ?b = "batch_scratch env (fst ?e) (snd ?e)"
  let ?t = "now_ns env (snd ?b)"
  let ?r = "run_big_stack env tid kind dev (b_slot (fst ?b)) n (snd ?t)"
  have e: "emits no_compile s (snd ?t)"
    using no_compile_sys emits_trans [OF no_compile_enter no_compile_scratch] by auto
  have f: "emits no_compile (snd ?r) (batch_finish env (fst ?b) dt (snd (now_ns env (snd ?r))))" for dt
    by (rule emits_trans [OF _ no_compile_finish]) (use no_compile_sys in auto)
  have "app = null \<or> b_slot (fst ?b) = app"
    by (auto simp: batch_scratch_def batch_enter_def Let_def case_prod_beta split: option.splits)
  with compiles_once_after [OF compiles_once_before [OF e run_big_stack_once] f]
  show ?thesis
    by (auto simp: compile_batch_def Let_def case_prod_beta)
qed

end
