(* ===== verification/Vk_Scratch.thy ===== *)
theory Vk_Scratch
  imports Vk_Cache
begin

text \<open>
  The command-buffer table of \<^verbatim>\<open>vkshim.c\<close> (\<^verbatim>\<open>cb_table\<close>): which device and pool a command buffer
  belongs to, and the scratch images that mip-level blits recorded in it own; the allocation of
  those images, the hooks of the command-buffer and pool lifetime that free them, and the lazily
  loaded memory properties. A slot is free when its \<^verbatim>\<open>cb\<close> is VK_NULL_HANDLE. \<open>pairs\<close> is the first
  \<^verbatim>\<open>count\<close> elements of the C array; \<open>cap\<close> its capacity.
\<close>

unbundle bit_operations_syntax

section \<open>State\<close>

definition CB_TABLE_MAX :: nat where [const_defs]: "CB_TABLE_MAX = 256"
definition VK_MEMORY_PROPERTY_DEVICE_LOCAL_BIT :: u32 where
  [const_defs]: "VK_MEMORY_PROPERTY_DEVICE_LOCAL_BIT = 1"
definition TRANSFER_SRC_DST :: u32 where [const_defs]: "TRANSFER_SRC_DST = 3"
definition SIZEOF_PAIR :: nat where [const_defs]: "SIZEOF_PAIR = 32"

abbreviation (input) real_ci :: string where "real_ci \<equiv> ''vkCreateImage''"
abbreviation (input) real_cci :: string where "real_cci \<equiv> ''vkCmdCopyImage''"
abbreviation (input) real_cbi :: string where "real_cbi \<equiv> ''vkCmdBlitImage''"
abbreviation (input) real_gpdmp :: string where "real_gpdmp \<equiv> ''vkGetPhysicalDeviceMemoryProperties''"

record scratch_pair =
  src_img :: VkImage
  src_mem :: VkDeviceMemory
  dst_img :: VkImage
  dst_mem :: VkDeviceMemory

record cb_scratch =
  sl_dev :: VkDevice
  sl_cb :: VkCommandBuffer
  sl_pool :: VkCommandPool
  pairs :: "scratch_pair list"
  cap :: u32

definition cb_scratch_zero :: cb_scratch where
  "cb_scratch_zero = \<lparr>sl_dev = null, sl_cb = null, sl_pool = null, pairs = [], cap = 0\<rparr>"

record vk_scratch = vk_cache +
  cb_table :: "cb_scratch list"
  physical_dev :: VkPhysicalDevice
  shim_dev :: VkDevice
  shim_instance :: VkInstance
  mem_props :: VkPhysicalDeviceMemoryProperties
  mem_props_loaded :: bool

definition upd_slot :: "nat \<Rightarrow> (cb_scratch \<Rightarrow> cb_scratch) \<Rightarrow> 'a vk_scratch_scheme \<Rightarrow> 'a vk_scratch_scheme" where
  "upd_slot i f s = s\<lparr>cb_table := (cb_table s)[i := f (cb_table s ! i)]\<rparr>"

section \<open>Scratch images\<close>

text \<open>\<^verbatim>\<open>find_memory_type\<close> answers an \<^verbatim>\<open>int\<close>, -1 when no memory type fits.\<close>

definition find_memory_type :: "u32 \<Rightarrow> u32 \<Rightarrow> VkPhysicalDeviceMemoryProperties \<Rightarrow> int" where
  "find_memory_type bits flags props =
     (case first_index (\<lambda>i. bit bits i \<and> (memoryTypes props ! i) AND flags = flags)
             [0..<length (memoryTypes props)] of
        Some i \<Rightarrow> int i
      | None \<Rightarrow> -1)"

definition scratch_ci :: "VkFormat \<Rightarrow> u32 \<Rightarrow> u32 \<Rightarrow> u32 \<Rightarrow> u32 \<Rightarrow> VkImageCreateInfo" where
  "scratch_ci fmt w h d usage =
     \<lparr>imageType = (if 1 < d then VK_IMAGE_TYPE_3D else if 1 < h then VK_IMAGE_TYPE_2D else VK_IMAGE_TYPE_1D),
      ci_format = fmt, ci_extent = \<lparr>width = w, height = h, depth = d\<rparr>, mipLevels = 1,
      arrayLayers = 1, ci_usage = usage\<rparr>"

text \<open>The result is the C function's status (0 as \<open>True\<close>) with what it leaves in \<^verbatim>\<open>*img\<close> and
  \<^verbatim>\<open>*mem\<close>, which the caller reads on failure too. \<^verbatim>\<open>uint32_t type = find_memory_type(...)\<close> turns
  -1 into the largest index, so \<^verbatim>\<open>type < 0\<close> compares an unsigned number with 0.\<close>

definition alloc_scratch_image :: "env \<Rightarrow> VkDevice \<Rightarrow> VkFormat \<Rightarrow> u32 \<Rightarrow> u32 \<Rightarrow> u32 \<Rightarrow> u32 \<Rightarrow>
    VkPhysicalDeviceMemoryProperties \<Rightarrow> 'a vk_scratch_scheme \<Rightarrow>
    (bool \<times> VkImage \<times> VkDeviceMemory) \<times> 'a vk_scratch_scheme" where
  "alloc_scratch_image env dev fmt w h d usage props s =
     (let ci = Some (scratch_ci fmt w h d usage);
          (r, i) = e_CreateImage env (calls s) dev ci;
          s = log_call (C_CreateImage dev ci) s
      in
        if r \<noteq> VK_SUCCESS then ((False, i, null), s)
        else
          let req = e_GetImageMemoryRequirements env (calls s) dev i;
              s = log_call (C_GetImageMemoryRequirements dev i) s;
              type = (word_of_int (find_memory_type (memoryTypeBits req)
                        VK_MEMORY_PROPERTY_DEVICE_LOCAL_BIT props) :: u32)
          in
            if type < 0 then ((False, i, null), log_call (C_DestroyImage dev i) s)
            else
              let (r, m) = e_AllocateMemory env (calls s) dev (req_size req) type;
                  s = log_call (C_AllocateMemory dev (req_size req) type) s
              in
                if r \<noteq> VK_SUCCESS then ((False, i, m), log_call (C_DestroyImage dev i) s)
                else ((True, i, m), log_call (C_BindImageMemory dev i m 0) s))"

definition free_scratch_pair :: "VkDevice \<Rightarrow> scratch_pair \<Rightarrow> 'a vk_scratch_scheme \<Rightarrow> 'a vk_scratch_scheme" where
  "free_scratch_pair dev p s =
     (let s = (if src_img p \<noteq> null then log_call (C_DestroyImage dev (src_img p)) s else s);
          s = (if src_mem p \<noteq> null then log_call (C_FreeMemory dev (src_mem p)) s else s);
          s = (if dst_img p \<noteq> null then log_call (C_DestroyImage dev (dst_img p)) s else s)
      in if dst_mem p \<noteq> null then log_call (C_FreeMemory dev (dst_mem p)) s else s)"

definition record_image_barrier :: "VkCommandBuffer \<Rightarrow> VkImage \<Rightarrow> VkImageLayout \<Rightarrow> VkImageLayout \<Rightarrow>
    access \<Rightarrow> access \<Rightarrow> 'a vk_scratch_scheme \<Rightarrow> 'a vk_scratch_scheme" where
  "record_image_barrier cb i old new src dst s = log_call (C_CmdPipelineBarrier cb i old new src dst) s"

definition mip_ext :: "u32 \<Rightarrow> u32 \<Rightarrow> u32" where
  "mip_ext base level = (let v = drop_bit (unat level) base in if v \<noteq> 0 then v else 1)"

text \<open>The slot of a command buffer, else the first free one.\<close>

definition slot_for :: "VkCommandBuffer \<Rightarrow> cb_scratch list \<Rightarrow> nat option" where
  "slot_for cb tab =
     (case first_index (\<lambda>e. sl_cb e = cb) tab of
        Some i \<Rightarrow> Some i
      | None \<Rightarrow> first_index (\<lambda>e. sl_cb e = null) tab)"

text \<open>\<^verbatim>\<open>realloc\<close> to twice the capacity when the array is full. The answer is whether there is room.\<close>

definition grow_slot :: "env \<Rightarrow> nat \<Rightarrow> 'a vk_scratch_scheme \<Rightarrow> bool \<times> 'a vk_scratch_scheme" where
  "grow_slot env i s =
     (let e = cb_table s ! i in
      if of_nat (length (pairs e)) = cap e then
        let new_cap = (if cap e \<noteq> 0 then cap e * 2 else 4);
            (ok, s) = sys_malloc env (unat new_cap * SIZEOF_PAIR) s
        in if ok then (True, upd_slot i (\<lambda>e. e\<lparr>cap := new_cap\<rparr>) s) else (False, s)
      else (True, s))"

definition get_scratch_pair :: "env \<Rightarrow> VkDevice \<Rightarrow> VkCommandBuffer \<Rightarrow> VkFormat \<Rightarrow>
    VkExtent3D \<Rightarrow> VkExtent3D \<Rightarrow> VkPhysicalDeviceMemoryProperties \<Rightarrow> 'a vk_scratch_scheme \<Rightarrow>
    scratch_pair option \<times> 'a vk_scratch_scheme" where
  "get_scratch_pair env dev cb fmt se de props s =
     (case slot_for cb (cb_table s) of
        None \<Rightarrow> (None, s)
      | Some i \<Rightarrow>
          let s = (if sl_cb (cb_table s ! i) = null
                   then upd_slot i (\<lambda>e. e\<lparr>sl_cb := cb, pairs := [], cap := 0\<rparr>) s else s);
              (room, s) = grow_slot env i s
          in
            if \<not> room then (None, s)
            else
              let ((ok1, si, sm), s) = alloc_scratch_image env dev fmt (width se) (height se) (depth se)
                                         TRANSFER_SRC_DST props s
              in
                if \<not> ok1 then
                  (None, free_scratch_pair dev \<lparr>src_img = si, src_mem = sm, dst_img = null, dst_mem = null\<rparr> s)
                else
                  let ((ok2, di, dm), s) = alloc_scratch_image env dev fmt (width de) (height de) (depth de)
                                             TRANSFER_SRC_DST props s;
                      p = \<lparr>src_img = si, src_mem = sm, dst_img = di, dst_mem = dm\<rparr>
                  in
                    if \<not> ok2 then (None, free_scratch_pair dev p s)
                    else (Some p, upd_slot i (\<lambda>e. e\<lparr>pairs := pairs e @ [p]\<rparr>) s))"

section \<open>Releasing and forgetting\<close>

definition free_cb_scratch_images :: "VkDevice \<Rightarrow> nat \<Rightarrow> 'a vk_scratch_scheme \<Rightarrow> 'a vk_scratch_scheme" where
  "free_cb_scratch_images dev i s =
     (let e = cb_table s ! i;
          d = (if dev \<noteq> null then dev else sl_dev e);
          s = (if d \<noteq> null then fold (free_scratch_pair d) (pairs e) s else s)
      in upd_slot i (\<lambda>e. e\<lparr>pairs := [], cap := 0\<rparr>) s)"

definition drop_slot :: "nat \<Rightarrow> 'a vk_scratch_scheme \<Rightarrow> 'a vk_scratch_scheme" where
  "drop_slot i s = upd_slot i (\<lambda>e. e\<lparr>sl_dev := null, sl_cb := null, sl_pool := null\<rparr>) s"

definition recycle_cb :: "VkDevice \<Rightarrow> VkCommandBuffer \<Rightarrow> 'a vk_scratch_scheme \<Rightarrow> 'a vk_scratch_scheme" where
  "recycle_cb dev cb s =
     (case first_index (\<lambda>e. sl_cb e = cb) (cb_table s) of
        None \<Rightarrow> s
      | Some i \<Rightarrow> free_cb_scratch_images dev i s)"

definition clear_cb :: "VkDevice \<Rightarrow> VkCommandBuffer \<Rightarrow> 'a vk_scratch_scheme \<Rightarrow> 'a vk_scratch_scheme" where
  "clear_cb dev cb s =
     (case first_index (\<lambda>e. sl_cb e = cb) (cb_table s) of
        None \<Rightarrow> s
      | Some i \<Rightarrow> drop_slot i (free_cb_scratch_images dev i s))"

definition recycle_pool :: "VkDevice \<Rightarrow> VkCommandPool \<Rightarrow> 'a vk_scratch_scheme \<Rightarrow> 'a vk_scratch_scheme" where
  "recycle_pool dev pool s =
     fold (\<lambda>i s. if sl_pool (cb_table s ! i) = pool then free_cb_scratch_images dev i s else s)
       [0..<length (cb_table s)] s"

definition clear_pool :: "VkDevice \<Rightarrow> VkCommandPool \<Rightarrow> 'a vk_scratch_scheme \<Rightarrow> 'a vk_scratch_scheme" where
  "clear_pool dev pool s =
     fold (\<lambda>i s. if sl_pool (cb_table s ! i) = pool then drop_slot i (free_cb_scratch_images dev i s) else s)
       [0..<length (cb_table s)] s"

definition slot_claim_device :: "VkCommandBuffer \<Rightarrow> VkDevice \<Rightarrow> 'a vk_scratch_scheme \<Rightarrow> 'a vk_scratch_scheme" where
  "slot_claim_device cb dev s =
     (case first_index (\<lambda>e. sl_cb e = cb) (cb_table s) of
        None \<Rightarrow> s
      | Some i \<Rightarrow> if sl_dev (cb_table s ! i) = null then upd_slot i (\<lambda>e. e\<lparr>sl_dev := dev\<rparr>) s else s)"

definition remember_pool :: "VkDevice \<Rightarrow> VkCommandBuffer \<Rightarrow> VkCommandPool \<Rightarrow> cb_scratch list \<Rightarrow> cb_scratch list" where
  "remember_pool dev cb pool tab =
     (case slot_for cb tab of
        None \<Rightarrow> tab
      | Some i \<Rightarrow>
          let e = tab ! i;
              e = (if sl_cb e \<noteq> cb then e\<lparr>pairs := [], cap := 0\<rparr> else e)
          in tab[i := e\<lparr>sl_cb := cb, sl_dev := dev, sl_pool := pool\<rparr>])"

text \<open>The loop of \<^verbatim>\<open>cb_to_device\<close> does not stop at the first match.\<close>

definition cb_to_device :: "VkCommandBuffer \<Rightarrow> cb_scratch list \<Rightarrow> VkDevice" where
  "cb_to_device cb tab = fold (\<lambda>e d. if sl_cb e = cb then sl_dev e else d) tab null"

section \<open>Memory properties and entry points\<close>

definition load_mem_props :: "env \<Rightarrow> VkPhysicalDevice \<Rightarrow> 'a vk_scratch_scheme \<Rightarrow> 'a vk_scratch_scheme" where
  "load_mem_props env pd s =
     (let mp = e_GetMemoryProperties env (calls s) pd in
      (log_call (C_GetMemoryProperties pd) s)\<lparr>mem_props := mp\<rparr>)"

definition ensure_mem_props :: "env \<Rightarrow> 'a vk_scratch_scheme \<Rightarrow> 'a vk_scratch_scheme" where
  "ensure_mem_props env s =
     (if mem_props_loaded s then s
      else
        let s = (if shim_instance s \<noteq> null then resolve_inst env (shim_instance s) real_gpdmp s else s);
            s = (if shim_dev s \<noteq> null then resolve_dev env (shim_dev s) real_gpdmp s else s)
        in
          if has s real_gpdmp \<and> physical_dev s \<noteq> null
          then (load_mem_props env (physical_dev s) s)\<lparr>mem_props_loaded := True\<rparr>
          else s)"

definition scratch_fns :: "string list" where
  "scratch_fns =
     [''vkCreateImage'', ''vkDestroyImage'', ''vkAllocateMemory'', ''vkFreeMemory'',
      ''vkGetImageMemoryRequirements'', ''vkBindImageMemory'', ''vkCmdCopyImage'',
      ''vkCmdPipelineBarrier'', ''vkBeginCommandBuffer'', ''vkResetCommandBuffer'',
      ''vkFreeCommandBuffers'', ''vkCreateCommandPool'', ''vkResetCommandPool'',
      ''vkDestroyCommandPool'', ''vkAllocateCommandBuffers'']"

definition resolve_scratch_fns :: "env \<Rightarrow> VkDevice \<Rightarrow> 'a vk_scratch_scheme \<Rightarrow> 'a vk_scratch_scheme" where
  "resolve_scratch_fns env dev s = fold (resolve_dev env dev) scratch_fns s"

section \<open>The hooks\<close>

definition shim_BeginCommandBuffer :: "env \<Rightarrow> VkCommandBuffer \<Rightarrow> 'a vk_scratch_scheme \<Rightarrow>
    VkResult \<times> 'a vk_scratch_scheme" where
  "shim_BeginCommandBuffer env cb s =
     (let s = recycle_cb null cb s in
      (e_BeginCommandBuffer env (calls s) cb, log_call (C_BeginCommandBuffer cb) s))"

definition shim_ResetCommandBuffer :: "env \<Rightarrow> VkCommandBuffer \<Rightarrow> nat \<Rightarrow> 'a vk_scratch_scheme \<Rightarrow>
    VkResult \<times> 'a vk_scratch_scheme" where
  "shim_ResetCommandBuffer env cb flags s =
     (let s = recycle_cb null cb s in
      (e_ResetCommandBuffer env (calls s) cb, log_call (C_ResetCommandBuffer cb flags) s))"

definition shim_FreeCommandBuffers :: "VkDevice \<Rightarrow> VkCommandPool \<Rightarrow> VkCommandBuffer list \<Rightarrow>
    'a vk_scratch_scheme \<Rightarrow> 'a vk_scratch_scheme" where
  "shim_FreeCommandBuffers dev pool cbs s =
     log_call (C_FreeCommandBuffers dev pool cbs) (fold (clear_cb dev) cbs s)"

definition shim_AllocateCommandBuffers :: "env \<Rightarrow> VkDevice \<Rightarrow> VkCommandPool \<Rightarrow> u32 \<Rightarrow> 'a vk_scratch_scheme \<Rightarrow>
    (VkResult \<times> VkCommandBuffer list) \<times> 'a vk_scratch_scheme" where
  "shim_AllocateCommandBuffers env dev pool n s =
     (let (r, cbs) = e_AllocateCommandBuffers env (calls s) dev pool n;
          s = log_call (C_AllocateCommandBuffers dev pool n) s
      in ((r, cbs),
          if r = VK_SUCCESS
          then s\<lparr>cb_table := fold (\<lambda>cb. remember_pool dev cb pool) (take (unat n) cbs) (cb_table s)\<rparr>
          else s))"

definition shim_ResetCommandPool :: "env \<Rightarrow> VkDevice \<Rightarrow> VkCommandPool \<Rightarrow> nat \<Rightarrow> 'a vk_scratch_scheme \<Rightarrow>
    VkResult \<times> 'a vk_scratch_scheme" where
  "shim_ResetCommandPool env dev pool flags s =
     (let s = recycle_pool dev pool s in
      (e_ResetCommandPool env (calls s) dev pool, log_call (C_ResetCommandPool dev pool flags) s))"

definition shim_DestroyCommandPool :: "VkDevice \<Rightarrow> VkCommandPool \<Rightarrow> 'a vk_scratch_scheme \<Rightarrow> 'a vk_scratch_scheme" where
  "shim_DestroyCommandPool dev pool s = log_call (C_DestroyCommandPool dev pool) (clear_pool dev pool s)"

section \<open>The table as a map from command buffers to their device and pool\<close>

definition cb_key :: "cb_scratch \<Rightarrow> VkCommandBuffer option" where
  "cb_key e = (if sl_cb e = null then None else Some (sl_cb e))"

definition cb_valid :: "VkCommandBuffer \<Rightarrow> bool" where
  "cb_valid cb \<longleftrightarrow> cb \<noteq> null"

definition cb_wf :: "cb_scratch list \<Rightarrow> bool" where
  "cb_wf tab \<longleftrightarrow> length tab = CB_TABLE_MAX \<and> keyed cb_key tab"

definition cb_full :: "cb_scratch list \<Rightarrow> bool" where
  "cb_full tab \<longleftrightarrow> (\<forall>e \<in> set tab. sl_cb e \<noteq> null)"

definition cb_look :: "cb_scratch list \<Rightarrow> VkCommandBuffer \<Rightarrow> (VkDevice \<times> VkCommandPool) option" where
  "cb_look tab cb = map_option (\<lambda>e. (sl_dev e, sl_pool e)) (entry_of cb_key tab cb)"

definition cb_ins :: "VkCommandBuffer \<Rightarrow> VkDevice \<times> VkCommandPool \<Rightarrow> cb_scratch list \<Rightarrow> cb_scratch list" where
  "cb_ins cb m tab = remember_pool (fst m) cb (snd m) tab"

text \<open>What \<^verbatim>\<open>clear_cb\<close> does to the table.\<close>

definition forget_cb :: "VkCommandBuffer \<Rightarrow> cb_scratch list \<Rightarrow> cb_scratch list" where
  "forget_cb cb tab =
     (case first_index (\<lambda>e. sl_cb e = cb) tab of None \<Rightarrow> tab | Some i \<Rightarrow> tab[i := cb_scratch_zero])"

definition cb_empty :: "cb_scratch list" where
  "cb_empty = replicate CB_TABLE_MAX cb_scratch_zero"

lemma cb_key_find:
  "cb \<noteq> null \<Longrightarrow> first_index (\<lambda>e. sl_cb e = cb) tab = first_index (\<lambda>e. cb_key e = Some cb) tab"
  by (rule first_index_cong_nth) (auto simp: cb_key_def)

lemma cb_key_zero [simp]: "cb_key cb_scratch_zero = None"
  by (simp add: cb_key_def cb_scratch_zero_def)

lemma cb_look_None: "cb \<noteq> null \<Longrightarrow> cb_look tab cb = None \<longleftrightarrow> first_index (\<lambda>e. sl_cb e = cb) tab = None"
  by (auto simp: cb_look_def entry_of_None first_index_None cb_key_def)

lemma remember_pool_fresh:
  assumes "cb_wf tab" and "cb \<noteq> null" and "cb_look tab cb = None"
  shows "cb_full tab \<and> remember_pool dev cb pool tab = tab \<or>
    (\<not> cb_full tab \<and> (\<exists>i < length tab. sl_cb (tab ! i) = null \<and>
       remember_pool dev cb pool tab =
         tab[i := \<lparr>sl_dev = dev, sl_cb = cb, sl_pool = pool, pairs = [], cap = 0\<rparr>]))"
proof -
  have n: "first_index (\<lambda>e. sl_cb e = cb) tab = None" using assms by (simp add: cb_look_None)
  show ?thesis
  proof (cases "first_index (\<lambda>e. sl_cb e = null) tab")
    case None
    then have "cb_full tab" by (auto simp: cb_full_def first_index_None)
    with n None show ?thesis by (simp add: remember_pool_def slot_for_def)
  next
    case (Some i)
    from first_index_SomeD [OF Some] have "i < length tab" "sl_cb (tab ! i) = null" by simp_all
    then have i: "i < length tab" "sl_cb (tab ! i) = null" .
    then have "\<not> cb_full tab" by (metis cb_full_def nth_mem)
    moreover have "remember_pool dev cb pool tab =
        tab[i := \<lparr>sl_dev = dev, sl_cb = cb, sl_pool = pool, pairs = [], cap = 0\<rparr>]"
      using n Some assms(2) i(2) by (cases "tab ! i") (simp add: remember_pool_def slot_for_def)
    ultimately show ?thesis using i by blast
  qed
qed

lemma remember_pool_wf:
  assumes "cb_wf tab" and "cb \<noteq> null" and "cb_look tab cb = None"
  shows "cb_wf (remember_pool dev cb pool tab)"
proof -
  have k: "keyed cb_key (tab[i := \<lparr>sl_dev = dev, sl_cb = cb, sl_pool = pool, pairs = [], cap = 0\<rparr>])" for i
    using assms by (intro keyed_update_fresh [where k = cb])
      (auto simp: cb_wf_def cb_look_def entry_of_None, simp add: cb_key_def)
  from remember_pool_fresh [OF assms, of dev pool] show ?thesis
    using assms(1) k by (auto simp: cb_wf_def)
qed

lemma look_remember_pool:
  assumes "cb_wf tab" and "cb \<noteq> null" and "cb_look tab cb = None" and "\<not> cb_full tab"
  shows "cb_look (remember_pool dev cb pool tab) cb' = (if cb' = cb then Some (dev, pool) else cb_look tab cb')"
proof -
  from remember_pool_fresh [OF assms(1-3), of dev pool] assms(4)
  obtain i where i: "i < length tab" "sl_cb (tab ! i) = null" "remember_pool dev cb pool tab =
         tab[i := \<lparr>sl_dev = dev, sl_cb = cb, sl_pool = pool, pairs = [], cap = 0\<rparr>]" by auto
  have "entry_of cb_key tab cb = None" using assms(3) by (simp add: cb_look_def)
  with i assms show ?thesis
    unfolding i(3) cb_look_def
    by (subst entry_of_update_fresh [where k = cb]) (auto simp: cb_wf_def cb_key_def)
qed

lemma forget_cb_cases:
  assumes "cb_wf tab" and "cb \<noteq> null"
  shows "forget_cb cb tab = tab \<and> entry_of cb_key tab cb = None \<or>
    (\<exists>i < length tab. cb_key (tab ! i) = Some cb \<and> forget_cb cb tab = tab[i := cb_scratch_zero])"
proof (cases "first_index (\<lambda>e. sl_cb e = cb) tab")
  case None
  then have "entry_of cb_key tab cb = None" by (auto simp: entry_of_None first_index_None cb_key_def)
  with None show ?thesis by (simp add: forget_cb_def)
next
  case (Some i)
  with first_index_SomeD [OF Some] assms(2) show ?thesis by (auto simp: forget_cb_def cb_key_def)
qed

lemma forget_cb_wf: "cb_wf tab \<Longrightarrow> cb \<noteq> null \<Longrightarrow> cb_wf (forget_cb cb tab)"
  using forget_cb_cases [of tab cb] by (auto simp: cb_wf_def keyed_update_free)

lemma look_forget_cb:
  "cb_wf tab \<Longrightarrow> cb \<noteq> null \<Longrightarrow> cb_look (forget_cb cb tab) cb' = (if cb' = cb then None else cb_look tab cb')"
  using forget_cb_cases [of tab cb]
  by (auto simp: cb_wf_def cb_look_def entry_of_update_free [where k = cb])

interpretation cbt: handle_table cb_wf cb_valid cb_full cb_look cb_ins forget_cb
  by unfold_locales
    (use remember_pool_fresh in \<open>auto simp: cb_valid_def cb_ins_def remember_pool_wf look_remember_pool forget_cb_wf look_forget_cb\<close>)

lemma cb_to_device_look:
  assumes "cb_wf tab" and "cb \<noteq> null"
  shows "cb_to_device cb tab = (case cb_look tab cb of None \<Rightarrow> null | Some m \<Rightarrow> fst m)"
proof (cases "cb_look tab cb")
  case None
  then have "\<forall>e \<in> set tab. sl_cb e \<noteq> cb" using assms(2) by (simp add: cb_look_None first_index_None)
  with None show ?thesis by (simp add: cb_to_device_def fold_no_match)
next
  case (Some m)
  then obtain e where e: "entry_of cb_key tab cb = Some e" "m = (sl_dev e, sl_pool e)"
    by (auto simp: cb_look_def)
  from e(1) obtain i where i: "i < length tab" "cb_key (tab ! i) = Some cb" "tab ! i = e"
    by (rule entry_of_SomeE)
  have "sl_cb (tab ! j) \<noteq> cb" if "j < length tab" "j \<noteq> i" for j
    using that i assms by (auto simp: cb_wf_def keyed_def cb_key_def split: if_splits)
  then have "\<forall>x \<in> set (drop (Suc i) tab). sl_cb x \<noteq> cb"
    by (auto simp: in_set_conv_nth nth_append) (metis add_Suc_right less_diff_conv add.commute n_not_Suc_n not_add_less1 lessI less_add_Suc1)
  moreover have "sl_cb e = cb" using i by (auto simp: cb_key_def split: if_splits)
  ultimately have "cb_to_device cb (take i tab @ e # drop (Suc i) tab) = sl_dev e"
    by (simp add: cb_to_device_def fold_no_match)
  then show ?thesis using Some e(2) id_take_nth_drop [OF i(1)] i(3) by simp
qed


section \<open>What releasing does\<close>

text \<open>The driver calls that release a pair, in order.\<close>

definition release_calls :: "VkDevice \<Rightarrow> scratch_pair \<Rightarrow> vk_call list" where
  "release_calls d p =
     (if src_img p \<noteq> null then [C_DestroyImage d (src_img p)] else []) @
     (if src_mem p \<noteq> null then [C_FreeMemory d (src_mem p)] else []) @
     (if dst_img p \<noteq> null then [C_DestroyImage d (dst_img p)] else []) @
     (if dst_mem p \<noteq> null then [C_FreeMemory d (dst_mem p)] else [])"

lemma free_scratch_pair_eq: "free_scratch_pair d p s = s\<lparr>calls := calls s @ release_calls d p\<rparr>"
  by (simp add: free_scratch_pair_def release_calls_def Let_def)

lemma fold_free_scratch_pair:
  "fold (free_scratch_pair d) ps s = s\<lparr>calls := calls s @ concat (map (release_calls d) ps)\<rparr>"
  by (induction ps arbitrary: s) (simp_all add: free_scratch_pair_eq)

lemma upd_slot_simps [simp]:
  "cb_table (upd_slot i f s) = (cb_table s)[i := f (cb_table s ! i)]"
  "calls (upd_slot i f s) = calls s"
  by (simp_all add: upd_slot_def)

lemma free_cb_table:
  "cb_table (free_cb_scratch_images dev i s) = (cb_table s)[i := (cb_table s ! i)\<lparr>pairs := [], cap := 0\<rparr>]"
  by (simp add: free_cb_scratch_images_def Let_def fold_free_scratch_pair)

lemma free_cb_calls:
  "calls (free_cb_scratch_images dev i s) = calls s @
     (let d = (if dev \<noteq> null then dev else sl_dev (cb_table s ! i)) in
      if d \<noteq> null then concat (map (release_calls d) (pairs (cb_table s ! i))) else [])"
  by (simp add: free_cb_scratch_images_def Let_def fold_free_scratch_pair)

lemma drop_free_table:
  "cb_table (drop_slot i (free_cb_scratch_images dev i s)) = (cb_table s)[i := cb_scratch_zero]"
proof (cases "i < length (cb_table s)")
  case True
  then show ?thesis
    by (simp add: drop_slot_def free_cb_table) (cases "cb_table s ! i", simp add: cb_scratch_zero_def)
qed (simp add: drop_slot_def free_cb_table list_update_beyond)

lemma clear_cb_table: "cb_table (clear_cb dev cb s) = forget_cb cb (cb_table s)"
  by (simp add: clear_cb_def forget_cb_def drop_free_table split: option.splits)

lemma recycle_pool_table:
  "cb_table (recycle_pool dev pool s) =
     map (\<lambda>e. if sl_pool e = pool then e\<lparr>pairs := [], cap := 0\<rparr> else e) (cb_table s)"
  unfolding recycle_pool_def by (rule fold_index_update) (rule free_cb_table)

lemma clear_pool_table:
  "cb_table (clear_pool dev pool s) =
     map (\<lambda>e. if sl_pool e = pool then cb_scratch_zero else e) (cb_table s)"
  unfolding clear_pool_def by (rule fold_index_update) (rule drop_free_table)

section \<open>Sequences of hooks\<close>

datatype hook =
  H_Alloc VkDevice VkCommandPool u32 | H_Begin VkCommandBuffer | H_Reset VkCommandBuffer nat
| H_Free VkDevice VkCommandPool "VkCommandBuffer list" | H_ResetPool VkDevice VkCommandPool nat
| H_DestroyPool VkDevice VkCommandPool

fun hook_step :: "env \<Rightarrow> hook \<Rightarrow> 'a vk_scratch_scheme \<Rightarrow> 'a vk_scratch_scheme" where
  "hook_step env (H_Alloc dev pool n) s = snd (shim_AllocateCommandBuffers env dev pool n s)"
| "hook_step env (H_Begin cb) s = snd (shim_BeginCommandBuffer env cb s)"
| "hook_step env (H_Reset cb flags) s = snd (shim_ResetCommandBuffer env cb flags s)"
| "hook_step env (H_Free dev pool cbs) s = shim_FreeCommandBuffers dev pool cbs s"
| "hook_step env (H_ResetPool dev pool flags) s = snd (shim_ResetCommandPool env dev pool flags s)"
| "hook_step env (H_DestroyPool dev pool) s = shim_DestroyCommandPool dev pool s"

text \<open>The command buffers that exist according to the API, with the device and pool they were
  allocated from: what the table has to know. \<open>s\<close> says what the driver answered.\<close>

type_synonym owners_map = "VkCommandBuffer \<rightharpoonup> VkDevice \<times> VkCommandPool"

definition allocated :: "env \<Rightarrow> VkDevice \<Rightarrow> VkCommandPool \<Rightarrow> u32 \<Rightarrow> hist \<Rightarrow> VkCommandBuffer list" where
  "allocated env dev pool n h =
     (case e_AllocateCommandBuffers env h dev pool n of (r, cbs) \<Rightarrow>
        if r = VK_SUCCESS then take (unat n) cbs else [])"

fun owner_step :: "env \<Rightarrow> hook \<Rightarrow> hist \<Rightarrow> owners_map \<Rightarrow> owners_map" where
  "owner_step env (H_Alloc dev pool n) h m =
     (\<lambda>cb. if cb \<in> set (allocated env dev pool n h) then Some (dev, pool) else m cb)"
| "owner_step env (H_Free dev pool cbs) h m = (\<lambda>cb. if cb \<in> set cbs then None else m cb)"
| "owner_step env (H_DestroyPool dev pool) h m =
     (\<lambda>cb. case m cb of None \<Rightarrow> None | Some (d, p) \<Rightarrow> if p = pool then None else Some (d, p))"
| "owner_step env _ h m = m"

text \<open>Only an allocation needs anything: new, non-null handles and room in the table.\<close>

fun hook_ok :: "env \<Rightarrow> hook \<Rightarrow> 'a vk_scratch_scheme \<Rightarrow> bool" where
  "hook_ok env (H_Alloc dev pool n) s \<longleftrightarrow>
     ops_ok cb_valid cb_full cb_look cb_ins forget_cb
       (map (\<lambda>cb. Ins cb (dev, pool)) (allocated env dev pool n (calls s))) (cb_table s)"
| "hook_ok env _ s \<longleftrightarrow> True"

fun hooks_run :: "env \<Rightarrow> hook list \<Rightarrow> 'a vk_scratch_scheme \<Rightarrow> 'a vk_scratch_scheme" where
  "hooks_run env [] s = s"
| "hooks_run env (h # hs) s = hooks_run env hs (hook_step env h s)"

fun owners_run :: "env \<Rightarrow> hook list \<Rightarrow> 'a vk_scratch_scheme \<Rightarrow> owners_map \<Rightarrow> owners_map" where
  "owners_run env [] s m = m"
| "owners_run env (h # hs) s m = owners_run env hs (hook_step env h s) (owner_step env h (calls s) m)"

fun hooks_ok :: "env \<Rightarrow> hook list \<Rightarrow> 'a vk_scratch_scheme \<Rightarrow> bool" where
  "hooks_ok env [] s = True"
| "hooks_ok env (h # hs) s = (hook_ok env h s \<and> hooks_ok env hs (hook_step env h s))"

lemma cb_look_map:
  assumes "keyed cb_key tab" and "\<And>e. cb_key (f e) = None \<or> cb_key (f e) = cb_key e" and "cb \<noteq> null"
  shows "cb_look (map f tab) cb =
      (case entry_of cb_key tab cb of None \<Rightarrow> None
       | Some e \<Rightarrow> if cb_key (f e) = None then None else Some (sl_dev (f e), sl_pool (f e)))"
    and "keyed cb_key (map f tab)"
proof -
  have k: "keyed cb_key (map f tab)"
    unfolding keyed_def
  proof (intro allI impI)
    fix i j assume a: "i < length (map f tab)" "j < length (map f tab)" "cb_key (map f tab ! i) \<noteq> None"
      "cb_key (map f tab ! i) = cb_key (map f tab ! j)"
    then have "cb_key (f (tab ! i)) = cb_key (tab ! i)" "cb_key (f (tab ! j)) = cb_key (tab ! j)"
      using assms(2) [of "tab ! i"] assms(2) [of "tab ! j"] by auto
    with a assms(1) show "i = j" by (auto simp: keyed_def)
  qed
  then show "keyed cb_key (map f tab)" .
  show "cb_look (map f tab) cb =
      (case entry_of cb_key tab cb of None \<Rightarrow> None
       | Some e \<Rightarrow> if cb_key (f e) = None then None else Some (sl_dev (f e), sl_pool (f e)))"
  proof (cases "entry_of cb_key tab cb")
    case None
    have "cb_key (f e) \<noteq> Some cb" if "e \<in> set tab" for e
      using that None assms(2) [of e] by (auto simp: entry_of_None)
    then have "entry_of cb_key (map f tab) cb = None" by (auto simp: entry_of_None)
    with None show ?thesis by (simp add: cb_look_def)
  next
    case (Some e)
    then obtain i where i: "i < length tab" "cb_key (tab ! i) = Some cb" "tab ! i = e"
      by (rule entry_of_SomeE)
    show ?thesis
    proof (cases "cb_key (f e) = None")
      case True
      have "cb_key (f (tab ! j)) \<noteq> Some cb" if "j < length tab" for j
        using that True i assms(1) assms(2) [of "tab ! j"] by (cases "j = i") (auto dest: keyedD)
      then have "entry_of cb_key (map f tab) cb = None" by (auto simp: entry_of_None in_set_conv_nth)
      with Some True show ?thesis by (simp add: cb_look_def)
    next
      case False
      then have "cb_key (f e) = Some cb" using assms(2) [of e] i by auto
      with entry_of_SomeI [OF k, of i cb] i Some show ?thesis by (simp add: cb_look_def)
    qed
  qed
qed

lemma forget_null:
  assumes "cb_wf tab"
  shows "cb_wf (forget_cb null tab) \<and> (cb' \<noteq> null \<longrightarrow> cb_look (forget_cb null tab) cb' = cb_look tab cb')"
proof (cases "first_index (\<lambda>e. sl_cb e = null) tab")
  case (Some i)
  from first_index_SomeD [OF Some] have i: "i < length tab" "cb_key (tab ! i) = None" by (auto simp: cb_key_def)
  with Some assms show ?thesis
    by (auto simp: forget_cb_def cb_wf_def cb_look_def keyed_update_free entry_of_update_other)
qed (use assms in \<open>simp add: forget_cb_def\<close>)

lemma forget_list:
  "cb_wf tab \<Longrightarrow> cb_wf (fold forget_cb cbs tab) \<and>
     (cb' \<noteq> null \<longrightarrow> cb_look (fold forget_cb cbs tab) cb' = (if cb' \<in> set cbs then None else cb_look tab cb'))"
proof (induction cbs arbitrary: tab)
  case (Cons c cs)
  show ?case
  proof (cases "c = null")
    case True
    with Cons.IH [of "forget_cb null tab"] forget_null [OF Cons.prems] show ?thesis by auto
  next
    case False
    with Cons.IH [OF forget_cb_wf [OF Cons.prems False]] show ?thesis
      by (auto simp: look_forget_cb [OF Cons.prems False])
  qed
qed simp

lemma fold_clear_cb_table: "cb_table (fold (clear_cb dev) cbs s) = fold forget_cb cbs (cb_table s)"
  by (induction cbs arbitrary: s) (simp_all add: clear_cb_table)

lemma recycle_cb_look:
  assumes "cb_wf (cb_table s)"
  shows "cb_wf (cb_table (recycle_cb dev cb s)) \<and> cb_look (cb_table (recycle_cb dev cb s)) cb' = cb_look (cb_table s) cb'"
proof (cases "first_index (\<lambda>e. sl_cb e = cb) (cb_table s)")
  case None
  then show ?thesis using assms by (simp add: recycle_cb_def)
next
  case (Some i)
  let ?t = "cb_table s" let ?e = "(?t ! i)\<lparr>pairs := [], cap := 0\<rparr>"
  have i: "i < length ?t" by (rule first_index_bound [OF Some])
  have t: "cb_table (recycle_cb dev cb s) = ?t[i := ?e]" using Some by (simp add: recycle_cb_def free_cb_table)
  have k: "cb_key ?e = cb_key (?t ! i)" by (simp add: cb_key_def)
  have "keyed cb_key (?t[i := ?e])" using assms i k by (intro keyed_update_same) (simp_all add: cb_wf_def)
  moreover have "cb_look (?t[i := ?e]) cb' = cb_look ?t cb'"
  proof (cases "cb_key (?t ! i) = Some cb'")
    case True
    then show ?thesis
      using entry_of_update_same [of cb_key ?t i cb' ?e cb'] entry_of_SomeI [of cb_key ?t i cb'] assms i k
      by (simp add: cb_look_def cb_wf_def)
  next
    case False
    then show ?thesis using entry_of_update_other [of i ?t cb_key ?e cb'] i k by (simp add: cb_look_def)
  qed
  ultimately show ?thesis using assms t by (simp add: cb_wf_def)
qed

lemma alloc_fold:
  "fold (\<lambda>cb. remember_pool dev cb pool) cbs tab =
     fold (table_step cb_ins forget_cb) (map (\<lambda>cb. Ins cb (dev, pool)) cbs) tab"
  by (induction cbs arbitrary: tab) (simp_all add: cb_ins_def)

lemma alloc_map_fold:
  "fold map_step (map (\<lambda>cb. Ins cb v) cbs) m = (\<lambda>cb. if cb \<in> set cbs then Some v else m cb)"
  by (induction cbs arbitrary: m) auto

lemma alloc_table:
  "cb_table (snd (shim_AllocateCommandBuffers env dev pool n s)) =
     fold (\<lambda>cb. remember_pool dev cb pool) (allocated env dev pool n (calls s)) (cb_table s)"
  by (simp add: shim_AllocateCommandBuffers_def allocated_def Let_def case_prod_beta)

lemma hook_step_refines:
  assumes "cb_wf (cb_table s)" and "cbt.agrees (cb_table s) m" and "hook_ok env h s"
  shows "cb_wf (cb_table (hook_step env h s)) \<and> cbt.agrees (cb_table (hook_step env h s)) (owner_step env h (calls s) m)"
proof (cases h)
  case (H_Alloc dev pool n)
  let ?ops = "map (\<lambda>cb. Ins cb (dev, pool)) (allocated env dev pool n (calls s))"
  have ok: "ops_ok cb_valid cb_full cb_look cb_ins forget_cb ?ops (cb_table s)"
    using assms(3) H_Alloc by simp
  from cbt.run_wf [OF assms(1) ok] cbt.run_refines [OF assms(1,2) ok] H_Alloc show ?thesis
    by (simp add: alloc_table alloc_fold alloc_map_fold)
next
  case (H_Free dev pool cbs)
  with assms forget_list [OF assms(1), of cbs] show ?thesis
    by (auto simp: shim_FreeCommandBuffers_def fold_clear_cb_table cbt.agrees_def cb_valid_def)
next
  case (H_ResetPool dev pool flags)
  let ?f = "\<lambda>e. if sl_pool e = pool then e\<lparr>pairs := [], cap := 0\<rparr> else e"
  have f: "cb_key (?f e) = None \<or> cb_key (?f e) = cb_key e" for e by (simp add: cb_key_def)
  have k: "keyed cb_key (cb_table s)" using assms(1) by (simp add: cb_wf_def)
  have "cb_look (map ?f (cb_table s)) cb = cb_look (cb_table s) cb" if "cb \<noteq> null" for cb
    using cb_look_map(1) [OF k f that] 
    by (auto simp: cb_look_def cb_key_def split: option.splits elim!: entry_of_SomeE)
  with H_ResetPool assms cb_look_map(2) [OF k f, of 1] show ?thesis
    by (auto simp: shim_ResetCommandPool_def recycle_pool_table Let_def cb_wf_def cbt.agrees_def cb_valid_def)
next
  case (H_DestroyPool dev pool)
  let ?f = "\<lambda>e. if sl_pool e = pool then cb_scratch_zero else e"
  have f: "cb_key (?f e) = None \<or> cb_key (?f e) = cb_key e" for e by simp
  have k: "keyed cb_key (cb_table s)" using assms(1) by (simp add: cb_wf_def)
  have "cb_look (map ?f (cb_table s)) cb =
      (case cb_look (cb_table s) cb of None \<Rightarrow> None | Some (d, p) \<Rightarrow> if p = pool then None else Some (d, p))"
    if "cb \<noteq> null" for cb
    using cb_look_map(1) [OF k f that]
    by (auto simp: cb_look_def split: option.splits if_splits elim!: entry_of_SomeE)
  with H_DestroyPool assms cb_look_map(2) [OF k f, of 1] show ?thesis
    by (auto simp: shim_DestroyCommandPool_def clear_pool_table cb_wf_def cbt.agrees_def cb_valid_def)
qed (use assms recycle_cb_look [OF assms(1)] in
  \<open>auto simp: shim_BeginCommandBuffer_def shim_ResetCommandBuffer_def Let_def cbt.agrees_def cb_valid_def\<close>)

lemma hooks_run_refines:
  assumes "cb_wf (cb_table s)" and "cbt.agrees (cb_table s) m" and "hooks_ok env hs s"
  shows "cb_wf (cb_table (hooks_run env hs s)) \<and> cbt.agrees (cb_table (hooks_run env hs s)) (owners_run env hs s m)"
  using assms
proof (induction hs arbitrary: s m)
  case (Cons h hs)
  from Cons.prems(3) have "hook_ok env h s" and ok: "hooks_ok env hs (hook_step env h s)" by simp_all
  from hook_step_refines [OF Cons.prems(1,2) this(1)] Cons.IH [OF _ _ ok] show ?case by auto
qed simp

lemma cb_wf_empty: "cb_wf cb_empty"
  by (simp add: cb_wf_def cb_empty_def keyed_replicate)

lemma cb_look_empty: "cb_look cb_empty cb = None"
  by (simp add: cb_look_def cb_empty_def entry_of_None)

text \<open>C11. Through any sequence of command-buffer allocations, begins, resets, frees, pool resets and
  pool destructions in which an allocation hands out handles that are not live and finds room for each in the table of 256 slots,
  the shim attributes a command buffer to the device it was allocated from for
  as long as it exists, and to no device otherwise: re-recording and pool resets keep the
  attribution, freeing and destroying the pool end it.\<close>

theorem cb_device_correct:
  assumes "cb_table s = cb_empty" and "hooks_ok env hs s" and "cb \<noteq> null"
  shows "cb_to_device cb (cb_table (hooks_run env hs s)) =
    (case owners_run env hs s Map.empty cb of None \<Rightarrow> null | Some (d, p) \<Rightarrow> d)"
proof -
  have "cb_wf (cb_table s)" and "cbt.agrees (cb_table s) Map.empty"
    using assms(1) cb_wf_empty by (simp_all add: cbt.agrees_def cb_valid_def cb_look_empty)
  from hooks_run_refines [OF this assms(2)] assms(3) show ?thesis
    by (simp add: cb_to_device_look cbt.agrees_def cb_valid_def case_prod_beta split: option.splits)
qed


section \<open>Scratch images\<close>

lemma recycle_cb_entry:
  assumes "cb_wf (cb_table s)" and "cb \<noteq> null" and "entry_of cb_key (cb_table s) cb = Some e" and "sl_dev e \<noteq> null"
  shows "calls (recycle_cb null cb s) = calls s @ concat (map (release_calls (sl_dev e)) (pairs e))"
    and "entry_of cb_key (cb_table (recycle_cb null cb s)) cb' =
      (if cb' = cb then Some (e\<lparr>pairs := [], cap := 0\<rparr>) else entry_of cb_key (cb_table s) cb')"
proof -
  from assms(3) obtain i where i: "i < length (cb_table s)" "cb_key (cb_table s ! i) = Some cb"
    "cb_table s ! i = e" "first_index (\<lambda>x. cb_key x = Some cb) (cb_table s) = Some i" by (rule entry_of_SomeE)
  then have f: "first_index (\<lambda>x. sl_cb x = cb) (cb_table s) = Some i" by (simp add: cb_key_find [OF assms(2)])
  show "calls (recycle_cb null cb s) = calls s @ concat (map (release_calls (sl_dev e)) (pairs e))"
    using f i(3) assms(4) by (simp add: recycle_cb_def free_cb_calls)
  show "entry_of cb_key (cb_table (recycle_cb null cb s)) cb' =
      (if cb' = cb then Some (e\<lparr>pairs := [], cap := 0\<rparr>) else entry_of cb_key (cb_table s) cb')"
    using f i assms(1)
      entry_of_update_same [of cb_key "cb_table s" i cb "e\<lparr>pairs := [], cap := 0\<rparr>" cb']
    by (simp add: recycle_cb_def free_cb_table cb_wf_def cb_key_def split: if_splits)
qed

text \<open>C25. Beginning to record a command buffer releases every scratch image and memory it owned, each
  once, in order, on the device the buffer belongs to, before the driver's begin; it leaves every
  other command buffer's scratch images and this one's identity alone.\<close>

theorem begin_releases_scratch:
  assumes "cb_wf (cb_table s)" and "cb \<noteq> null" and "entry_of cb_key (cb_table s) cb = Some e" and "sl_dev e \<noteq> null"
  shows "calls (snd (shim_BeginCommandBuffer env cb s)) =
      calls s @ concat (map (release_calls (sl_dev e)) (pairs e)) @ [C_BeginCommandBuffer cb] \<and>
    entry_of cb_key (cb_table (snd (shim_BeginCommandBuffer env cb s))) cb' =
      (if cb' = cb then Some (e\<lparr>pairs := [], cap := 0\<rparr>) else entry_of cb_key (cb_table s) cb')"
  using recycle_cb_entry [OF assms] by (simp add: shim_BeginCommandBuffer_def Let_def)

text \<open>The unsigned test never rejects a memory type.\<close>

text \<open>When the device has no suitable memory type the allocation is not abandoned, as the code
  means to: the driver is asked for memory of type index 0xFFFFFFFF.\<close>

theorem no_memory_type_still_allocates:
  assumes "e_CreateImage env (calls s) dev (Some (scratch_ci fmt w h d usage)) = (VK_SUCCESS, i)"
    and "e_GetImageMemoryRequirements env (calls s @ [C_CreateImage dev (Some (scratch_ci fmt w h d usage))]) dev i = req"
    and "find_memory_type (memoryTypeBits req) VK_MEMORY_PROPERTY_DEVICE_LOCAL_BIT props = -1"
  shows "C_AllocateMemory dev (req_size req) 0xFFFFFFFF \<in>
    set (calls (snd (alloc_scratch_image env dev fmt w h d usage props s)))"
  using assms by (simp add: alloc_scratch_image_def Let_def case_prod_beta)

text \<open>When memory for the source scratch image cannot be allocated, the image is destroyed by the
  allocation routine and again by the clean-up of its caller: the driver sees two destructions of
  one image.\<close>

theorem failed_scratch_destroyed_twice:
  assumes "slot_for cb (cb_table s) = Some k" and "sl_cb (cb_table s ! k) = cb"
    and "cb \<noteq> null" and "of_nat (length (pairs (cb_table s ! k))) \<noteq> cap (cb_table s ! k)"
    and "e_CreateImage env (calls s) dev (Some (scratch_ci fmt (width se) (height se) (depth se) TRANSFER_SRC_DST)) = (VK_SUCCESS, i)"
    and "i \<noteq> null"
    and "\<And>h sz t. fst (e_AllocateMemory env h dev sz t) \<noteq> VK_SUCCESS"
  shows "\<exists>cs. calls (snd (get_scratch_pair env dev cb fmt se de props s)) = calls s @ cs \<and>
    count_list cs (C_DestroyImage dev i) = 2"
proof -
  let ?ci = "Some (scratch_ci fmt (width se) (height se) (depth se) TRANSFER_SRC_DST)"
  have "sl_cb (cb_table s ! k) \<noteq> null" using assms(2,3) by simp
  with assms show ?thesis
    by (simp add: get_scratch_pair_def grow_slot_def alloc_scratch_image_def free_scratch_pair_eq release_calls_def
        Let_def case_prod_beta)
qed

text \<open>Room for a pair is made before it is written: the array never overflows.\<close>

definition in_bounds :: "cb_scratch \<Rightarrow> bool" where
  "in_bounds e \<longleftrightarrow> length (pairs e) \<le> unat (cap e) \<and> unat (cap e) < 2 ^ 31"


lemma double_cap:
  fixes c :: u32
  assumes "unat c < 2 ^ 31"
  shows "unat (c * 2) = 2 * unat c"
  using assms by (simp add: unat_mult_lem [THEN iffD1])

lemma grow_slot_room:
  assumes "k < length (cb_table s)" and "in_bounds (cb_table s ! k)" and "grow_slot env k s = (True, s')"
  shows "length (pairs (cb_table s' ! k)) < unat (cap (cb_table s' ! k))"
    and "pairs (cb_table s' ! k) = pairs (cb_table s ! k)"
    and "length (cb_table s') = length (cb_table s)"
proof -
  let ?e = "cb_table s ! k"
  have p: "pairs (cb_table s' ! k) = pairs ?e \<and> length (cb_table s') = length (cb_table s)"
    using assms(1,3) by (auto simp: grow_slot_def sys_malloc_def Let_def split: if_splits)
  then show "pairs (cb_table s' ! k) = pairs ?e" and "length (cb_table s') = length (cb_table s)" by simp_all
  have len: "length (pairs ?e) < 2 ^ 32" using assms(2) by (simp add: in_bounds_def)
  show "length (pairs (cb_table s' ! k)) < unat (cap (cb_table s' ! k))"
  proof (cases "of_nat (length (pairs ?e)) = cap ?e")
    case True
    then have c: "unat (cap ?e) = length (pairs ?e)"
      using len by (simp add: unat_of_nat take_bit_nat_eq_self flip: True)
    have new: "length (pairs ?e) < unat (if cap ?e \<noteq> 0 then cap ?e * 2 else 4)"
    proof (cases "cap ?e = 0")
      case False
      then have "0 < unat (cap ?e)" by (simp add: unat_gt_0)
      with False c assms(2) double_cap [of "cap ?e"] show ?thesis by (simp add: in_bounds_def)
    qed (use c in simp)
    have "cap (cb_table s' ! k) = (if cap ?e \<noteq> 0 then cap ?e * 2 else 4)"
      using True assms(1,3) by (auto simp: grow_slot_def sys_malloc_def Let_def split: if_splits)
    with new p show ?thesis by simp
  next
    case False
    then have "length (pairs ?e) \<noteq> unat (cap ?e)" by auto
    with False assms show ?thesis by (auto simp: grow_slot_def in_bounds_def)
  qed
qed

lemma alloc_scratch_frame [simp]:
  "cb_table (snd (alloc_scratch_image env dev fmt w h d usage props s)) = cb_table s"
  by (simp add: alloc_scratch_image_def Let_def case_prod_beta)

text \<open>A scratch pair is written inside the slot's array: when a pair is handed out it is the last
  element of its command buffer's list, and the list fits the capacity that was reserved.\<close>

theorem scratch_pair_in_bounds:
  assumes "cb \<noteq> null" and "slot_for cb (cb_table s) = Some k"
    and "in_bounds (cb_table s ! k)"
    and "get_scratch_pair env dev cb fmt se de props s = (Some p, s')"
  shows "last (pairs (cb_table s' ! k)) = p \<and> pairs (cb_table s' ! k) \<noteq> [] \<and>
    length (pairs (cb_table s' ! k)) \<le> unat (cap (cb_table s' ! k))"
proof -
  let ?s1 = "if sl_cb (cb_table s ! k) = null
     then upd_slot k (\<lambda>e. e\<lparr>sl_cb := cb, pairs := [], cap := 0\<rparr>) s else s"
  have k: "k < length (cb_table s)"
    using assms(2) by (auto simp: slot_for_def split: option.splits dest: first_index_bound)
  then have b: "in_bounds (cb_table ?s1 ! k)" "k < length (cb_table ?s1)"
    using assms(3) by (auto simp: in_bounds_def)
  obtain room s2 where g: "grow_slot env k ?s1 = (room, s2)" by fastforce
  have room: "room" using assms(2,4) g by (auto simp: get_scratch_pair_def Let_def case_prod_beta split: if_splits)
  from grow_slot_room [OF b(2,1)] g room
  have r: "length (pairs (cb_table s2 ! k)) < unat (cap (cb_table s2 ! k))" and l: "k < length (cb_table s2)"
    using b(2) by auto
  have "cb_table s' = (cb_table s2)[k := (cb_table s2 ! k)\<lparr>pairs := pairs (cb_table s2 ! k) @ [p]\<rparr>]"
    using assms(2,4) g
    by (auto simp: get_scratch_pair_def Let_def case_prod_beta split: if_splits)
  with r l show ?thesis by simp
qed


section \<open>The theorems at a concrete driver\<close>

definition vk_scratch_boot :: vk_scratch where
  "vk_scratch_boot = vk_cache.extend vk_cache_boot
     (vk_scratch.fields cb_empty null null null \<lparr>memoryTypes = [], memoryHeaps = []\<rparr> False)"

lemma boot_scratch_simps [simp]:
  "cb_table vk_scratch_boot = cb_empty" "calls vk_scratch_boot = []"
  by (simp_all add: vk_scratch_boot_def vk_cache_boot_def vk_cache.defs vk_scratch.defs)

lemma not_full_empty: "\<not> cb_full cb_empty"
  by (simp add: cb_full_def cb_empty_def cb_scratch_zero_def CB_TABLE_MAX_def)

theorem cb_device_correct_witness:
  "cb_to_device 100 (cb_table (hooks_run env_demo [H_Alloc 5 7 1, H_Begin 100] vk_scratch_boot)) = 5"
proof -
  have a: "allocated env_demo 5 7 1 [] = [100]" by (simp add: allocated_def env_demo_def)
  have "hooks_ok env_demo [H_Alloc 5 7 1, H_Begin 100] vk_scratch_boot"
    by (simp add: a cb_valid_def cb_look_empty not_full_empty)
  from cb_device_correct [OF boot_scratch_simps(1) this, of 100] show ?thesis by (simp add: a)
qed

text \<open>A table in which command buffer 9 of device 5 owns one scratch pair.\<close>

definition demo_slot :: cb_scratch where
  "demo_slot = \<lparr>sl_dev = 5, sl_cb = 9, sl_pool = 7,
     pairs = [\<lparr>src_img = 11, src_mem = 12, dst_img = 13, dst_mem = 14\<rparr>], cap = 4\<rparr>"

definition demo_scratch :: vk_scratch where
  "demo_scratch = vk_scratch_boot\<lparr>cb_table := cb_empty[0 := demo_slot]\<rparr>"

lemma demo_scratch_wf: "cb_wf (cb_table demo_scratch)"
  unfolding demo_scratch_def using keyed_update_fresh [of cb_key cb_empty demo_slot 9 0] cb_wf_empty
  by (auto simp: cb_wf_def demo_slot_def cb_key_def cb_empty_def cb_scratch_zero_def)

lemma demo_scratch_simps [simp]:
  "length (cb_table demo_scratch) = 256" "cb_table demo_scratch ! 0 = demo_slot" "calls demo_scratch = []"
  by (simp_all add: demo_scratch_def cb_empty_def CB_TABLE_MAX_def)

lemma demo_scratch_entry: "entry_of cb_key (cb_table demo_scratch) 9 = Some demo_slot"
  using entry_of_SomeI [of cb_key "cb_table demo_scratch" 0 9] demo_scratch_wf
  by (simp add: cb_wf_def cb_key_def) (simp add: demo_slot_def)

theorem begin_releases_scratch_witness:
  "calls (snd (shim_BeginCommandBuffer env_demo 9 demo_scratch)) =
     [C_DestroyImage 5 11, C_FreeMemory 5 12, C_DestroyImage 5 13, C_FreeMemory 5 14, C_BeginCommandBuffer 9]"
  using begin_releases_scratch [OF demo_scratch_wf _ demo_scratch_entry, of env_demo 9]
  by (simp add: demo_slot_def release_calls_def)

theorem no_memory_type_still_allocates_witness:
  "C_AllocateMemory 5 4096 0xFFFFFFFF \<in> set (calls (snd (alloc_scratch_image env_demo 5 37 4 4 1 3
     \<lparr>memoryTypes = [1], memoryHeaps = []\<rparr> demo_scratch)))"
  using no_memory_type_still_allocates [of env_demo demo_scratch 5 37 4 4 1 3 100
      "\<lparr>req_size = 4096, memoryTypeBits = 2\<rparr>" "\<lparr>memoryTypes = [1], memoryHeaps = []\<rparr>"]
  by (simp add: env_demo_def find_memory_type_def bit_numeral_rec const_defs)

lemma demo_slot_for: "slot_for 9 (cb_table demo_scratch) = Some 0"
proof -
  have "first_index (\<lambda>e. sl_cb e = 9) (cb_table demo_scratch) = Some 0"
    by (rule first_index_eqI) (simp_all add: demo_slot_def)
  then show ?thesis by (simp add: slot_for_def)
qed

theorem failed_scratch_destroyed_twice_witness:
  "\<exists>cs. calls (snd (get_scratch_pair (env_demo\<lparr>e_AllocateMemory := \<lambda>_ _ _ _. (VK_RESULT_OTHER (-2), 0)\<rparr>) 5 9 37
      \<lparr>width = 4, height = 4, depth = 1\<rparr> \<lparr>width = 2, height = 2, depth = 1\<rparr>
      \<lparr>memoryTypes = [1, 1], memoryHeaps = []\<rparr> demo_scratch)) = cs \<and> count_list cs (C_DestroyImage 5 100) = 2"
  using failed_scratch_destroyed_twice [OF demo_slot_for, where i = 100 and dev = 5 and fmt = 37
      and env = "env_demo\<lparr>e_AllocateMemory := \<lambda>_ _ _ _. (VK_RESULT_OTHER (-2), 0)\<rparr>"
      and se = "\<lparr>width = 4, height = 4, depth = 1\<rparr>" and de = "\<lparr>width = 2, height = 2, depth = 1\<rparr>"
      and props = "\<lparr>memoryTypes = [1, 1], memoryHeaps = []\<rparr>"]
  by (simp add: demo_slot_def) (simp add: env_demo_def)

theorem scratch_pair_in_bounds_witness:
  "\<exists>p s'. get_scratch_pair env_demo 5 9 37 \<lparr>width = 4, height = 4, depth = 1\<rparr> \<lparr>width = 2, height = 2, depth = 1\<rparr>
      \<lparr>memoryTypes = [1, 1], memoryHeaps = []\<rparr> demo_scratch = (Some p, s') \<and>
    last (pairs (cb_table s' ! 0)) = p"
proof -
  let ?r = "get_scratch_pair env_demo 5 9 37 \<lparr>width = 4, height = 4, depth = 1\<rparr> \<lparr>width = 2, height = 2, depth = 1\<rparr>
      \<lparr>memoryTypes = [1, 1], memoryHeaps = []\<rparr> demo_scratch"
  have "fst ?r \<noteq> None"
    by (simp add: get_scratch_pair_def demo_slot_for grow_slot_def alloc_scratch_image_def Let_def case_prod_beta
        demo_slot_def) (simp add: env_demo_def)
  then obtain p s' where r: "?r = (Some p, s')" by (metis option.exhaust prod.collapse)
  have "in_bounds (cb_table demo_scratch ! 0)" by (simp add: demo_slot_def in_bounds_def)
  from scratch_pair_in_bounds [OF _ demo_slot_for this r] r show ?thesis by simp
qed

end
