(* ===== verification/Vk_Blit.thy ===== *)
theory Vk_Blit
  imports Vk_Scratch Vk_Calls
begin

text \<open>
  \<^verbatim>\<open>vkCmdBlitImage\<close> with mip levels. The blob blits correctly only between level-0 subresources,
  while \<^verbatim>\<open>vkCmdCopyImage\<close> honours levels; the shim therefore copies a non-zero source level into a
  level-0 scratch image, blits level 0 to level 0, and copies a staged result out to a non-zero
  destination level. The theorems: no blit with a non-zero level ever reaches the driver, the
  commands recorded for one region are exactly the copies and the blit of that plan, and the
  ends of the chain are the subresources the app named. \<^verbatim>\<open>vkCreateSampler\<close>'s clamp is here too.
\<close>

definition format_is_depth_stencil :: "VkFormat \<Rightarrow> bool" where
  "format_is_depth_stencil f \<longleftrightarrow> f \<in> {124, 126, 127, 128, 129, 130}"

definition nz :: "u32 \<Rightarrow> u32" where
  "nz v = (if v = 0 then 1 else v)"

text \<open>The extent between two corners; a zero edge counts as one.\<close>

definition edge_extent :: "VkOffset3D \<Rightarrow> VkOffset3D \<Rightarrow> VkExtent3D" where
  "edge_extent a b =
     \<lparr>width = nz (off_x b - off_x a), height = nz (off_y b - off_y a), depth = nz (off_z b - off_z a)\<rparr>"

definition mip_extent :: "VkExtent3D \<Rightarrow> u32 \<Rightarrow> VkExtent3D" where
  "mip_extent e l = \<lparr>width = mip_ext (width e) l, height = mip_ext (height e) l, depth = mip_ext (depth e) l\<rparr>"

definition copy_src_of :: "VkImageBlit \<Rightarrow> u32 \<Rightarrow> VkImageCopy" where
  "copy_src_of r layers =
     \<lparr>cp_srcSubresource = \<lparr>aspectMask = aspectMask (srcSubresource r), mipLevel = mipLevel (srcSubresource r),
         baseArrayLayer = baseArrayLayer (srcSubresource r), layerCount = layers\<rparr>,
      cp_srcOffset = srcOffset0 r,
      cp_dstSubresource = \<lparr>aspectMask = aspectMask (srcSubresource r), mipLevel = 0, baseArrayLayer = 0,
         layerCount = layers\<rparr>,
      cp_dstOffset = srcOffset0 r, cp_extent = edge_extent (srcOffset0 r) (srcOffset1 r)\<rparr>"

definition copy_dst_of :: "VkImageBlit \<Rightarrow> u32 \<Rightarrow> VkImageCopy" where
  "copy_dst_of r layers =
     \<lparr>cp_srcSubresource = \<lparr>aspectMask = aspectMask (dstSubresource r), mipLevel = 0, baseArrayLayer = 0,
         layerCount = layers\<rparr>,
      cp_srcOffset = dstOffset0 r,
      cp_dstSubresource = \<lparr>aspectMask = aspectMask (dstSubresource r), mipLevel = mipLevel (dstSubresource r),
         baseArrayLayer = baseArrayLayer (dstSubresource r), layerCount = layers\<rparr>,
      cp_dstOffset = dstOffset0 r, cp_extent = edge_extent (dstOffset0 r) (dstOffset1 r)\<rparr>"

text \<open>The blit between the level-0 images: a staged end addresses layer 0, the other keeps its
  layer.\<close>

definition mid_of :: "VkImageBlit \<Rightarrow> VkImageBlit" where
  "mid_of r =
     r\<lparr>srcSubresource := (srcSubresource r)\<lparr>mipLevel := 0,
          baseArrayLayer := (if mipLevel (srcSubresource r) \<noteq> 0 then 0 else baseArrayLayer (srcSubresource r))\<rparr>,
       dstSubresource := (dstSubresource r)\<lparr>mipLevel := 0,
          baseArrayLayer := (if mipLevel (dstSubresource r) \<noteq> 0 then 0 else baseArrayLayer (dstSubresource r))\<rparr>\<rparr>"

definition stage_src :: "VkCommandBuffer \<Rightarrow> VkImage \<Rightarrow> VkImageLayout \<Rightarrow> scratch_pair \<Rightarrow> VkImageBlit \<Rightarrow> u32 \<Rightarrow>
    'a vk_scratch_scheme \<Rightarrow> 'a vk_scratch_scheme" where
  "stage_src cb src src_layout p r layers s =
     (let s = record_image_barrier cb (src_img p) LAYOUT_UNDEFINED LAYOUT_TRANSFER_DST_OPTIMAL
                ACCESS_NONE ACCESS_TRANSFER_WRITE s;
          s = log_call (C_CmdCopyImage cb src src_layout (src_img p) LAYOUT_TRANSFER_DST_OPTIMAL
                (copy_src_of r layers)) s
      in record_image_barrier cb (src_img p) LAYOUT_TRANSFER_DST_OPTIMAL LAYOUT_TRANSFER_SRC_OPTIMAL
           ACCESS_TRANSFER_WRITE ACCESS_TRANSFER_READ s)"

definition stage_dst :: "VkCommandBuffer \<Rightarrow> VkImage \<Rightarrow> VkImageLayout \<Rightarrow> scratch_pair \<Rightarrow> VkImageBlit \<Rightarrow> u32 \<Rightarrow>
    'a vk_scratch_scheme \<Rightarrow> 'a vk_scratch_scheme" where
  "stage_dst cb dst dst_layout p r layers s =
     log_call (C_CmdCopyImage cb (dst_img p) LAYOUT_TRANSFER_SRC_OPTIMAL dst dst_layout (copy_dst_of r layers))
       (record_image_barrier cb (dst_img p) LAYOUT_TRANSFER_DST_OPTIMAL LAYOUT_TRANSFER_SRC_OPTIMAL
          ACCESS_TRANSFER_WRITE ACCESS_TRANSFER_READ s)"

text \<open>\<^verbatim>\<open>shim_CmdBlitImage\<close> is the only caller and passes both infos, so the fallbacks for a missing
  info (R8G8B8A8, 1x1x1) are the branch \<open>None\<close>.\<close>

definition emit_emulated_blit :: "env \<Rightarrow> VkCommandBuffer \<Rightarrow> VkDevice \<Rightarrow> VkImage \<Rightarrow> VkImageLayout \<Rightarrow>
    VkImage \<Rightarrow> VkImageLayout \<Rightarrow> VkFilter \<Rightarrow> img_info option \<Rightarrow> img_info option \<Rightarrow> VkImageBlit \<Rightarrow>
    'a vk_scratch_scheme \<Rightarrow> 'a vk_scratch_scheme" where
  "emit_emulated_blit env cb dev src src_layout dst dst_layout filt src_info dst_info r s =
     (let src_mip = mipLevel (srcSubresource r);
          dst_mip = mipLevel (dstSubresource r);
          fmt = (case src_info of Some i \<Rightarrow> format i
                 | None \<Rightarrow> (case dst_info of Some i \<Rightarrow> format i | None \<Rightarrow> 37));
          one = \<lparr>width = 1, height = 1, depth = 1\<rparr>;
          src_ext = (case src_info of Some i \<Rightarrow> extent i | None \<Rightarrow> one);
          dst_ext = (case dst_info of Some i \<Rightarrow> extent i | None \<Rightarrow> one);
          layers = nz (layerCount (srcSubresource r));
          (pair, s) = get_scratch_pair env dev cb fmt (mip_extent src_ext src_mip)
                        (mip_extent dst_ext dst_mip) (mem_props s) s
      in
        case pair of
          None \<Rightarrow> s
        | Some p \<Rightarrow>
            let s = (if src_mip \<noteq> 0 then stage_src cb src src_layout p r layers s else s);
                mid_dst = (if dst_mip = 0 then dst else dst_img p);
                mid_dst_layout = (if dst_mip = 0 then dst_layout else LAYOUT_TRANSFER_DST_OPTIMAL);
                s = (if dst_mip \<noteq> 0
                     then record_image_barrier cb (dst_img p) LAYOUT_UNDEFINED LAYOUT_TRANSFER_DST_OPTIMAL
                            ACCESS_NONE ACCESS_TRANSFER_WRITE s
                     else s);
                mid_src = (if src_mip = 0 then src else src_img p);
                mid_src_layout = (if src_mip = 0 then src_layout else LAYOUT_TRANSFER_SRC_OPTIMAL);
                s = log_call (C_CmdBlitImage cb mid_src mid_src_layout mid_dst mid_dst_layout [mid_of r] filt) s
            in if dst_mip \<noteq> 0 then stage_dst cb dst dst_layout p r layers s else s)"

definition has_mips :: "VkImageBlit \<Rightarrow> bool" where
  "has_mips r \<longleftrightarrow> mipLevel (srcSubresource r) \<noteq> 0 \<or> mipLevel (dstSubresource r) \<noteq> 0"

definition shim_CmdBlitImage :: "env \<Rightarrow> VkCommandBuffer \<Rightarrow> VkImage \<Rightarrow> VkImageLayout \<Rightarrow> VkImage \<Rightarrow> VkImageLayout \<Rightarrow>
    VkImageBlit list \<Rightarrow> VkFilter \<Rightarrow> 'a vk_scratch_scheme \<Rightarrow> 'a vk_scratch_scheme" where
  "shim_CmdBlitImage env cb src src_layout dst dst_layout regions filt s =
     (if \<not> list_ex has_mips regions
      then log_call (C_CmdBlitImage cb src src_layout dst dst_layout regions filt) s
      else
        let (on, s) = prop_on env ''debug.xdplus.vkblitmip'' s in
        if \<not> on then s
        else
          let dev = cb_to_device cb (cb_table s) in
          if dev = null then s
          else
            let s = ensure_mem_props env (resolve_scratch_fns env dev (slot_claim_device cb dev s)) in
            if \<not> has s real_ci \<or> \<not> has s real_cci \<or> \<not> has s real_cbi \<or> \<not> mem_props_loaded s then s
            else
              case (find_img src (img_table s), find_img dst (img_table s)) of
                (Some si, Some di) \<Rightarrow>
                  if format_is_depth_stencil (format si) then s
                  else fold (emit_emulated_blit env cb dev src src_layout dst dst_layout filt (Some si) (Some di))
                         regions s
              | _ \<Rightarrow> s)"

section \<open>Samplers\<close>

text \<open>A C \<^verbatim>\<open>float\<close> is its IEEE 754 bit pattern: 0.0f is 0, and the patterns of the numbers above
  zero, infinity included, are those from 1 to 0x7F800000.\<close>

type_synonym float32 = u32

definition above_zero :: "float32 \<Rightarrow> bool" where
  "above_zero f \<longleftrightarrow> 0 < f \<and> f \<le> 0x7F800000"

datatype mipmap_mode = MIPMAP_NEAREST | MIPMAP_LINEAR

record VkSamplerCreateInfo =
  mipmapMode :: mipmap_mode
  minLod :: float32
  maxLod :: float32

text \<open>The create info that reaches the driver.\<close>

definition shim_CreateSampler :: "env \<Rightarrow> VkSamplerCreateInfo option \<Rightarrow> 'a vk_scratch_scheme \<Rightarrow>
    VkSamplerCreateInfo option \<times> 'a vk_scratch_scheme" where
  "shim_CreateSampler env ci s =
     (case ci of
        None \<Rightarrow> (None, s)
      | Some c \<Rightarrow>
          if above_zero (maxLod c) then
            let (on, s) = prop_on env ''debug.xdplus.vkmiplod'' s in
            if on then (Some \<lparr>mipmapMode = MIPMAP_NEAREST, minLod = 0, maxLod = 0\<rparr>, s) else (Some c, s)
          else (Some c, s))"

section \<open>What reaches the driver\<close>

fun blit_ok :: "vk_call \<Rightarrow> bool" where
  "blit_ok (C_CmdBlitImage cb src sl dst dl rs f) \<longleftrightarrow> \<not> list_ex has_mips rs"
| "blit_ok _ \<longleftrightarrow> True"

lemma blit_ok_sys: "sys_ok blit_ok"
  by (auto simp: sys_ok_def elim!: is_sys.elims)

lemma mid_no_mips: "\<not> has_mips (mid_of r)"
  by (simp add: has_mips_def mid_of_def)

lemma emits_release: "(\<And>i. Q (C_DestroyImage d i)) \<Longrightarrow> (\<And>m. Q (C_FreeMemory d m)) \<Longrightarrow> emits Q s t \<Longrightarrow>
    emits Q s (free_scratch_pair d p t)"
  by (auto simp: free_scratch_pair_eq emits_def release_calls_def)

lemma emits_alloc:
  "emits blit_ok s t \<Longrightarrow> emits blit_ok s (snd (alloc_scratch_image env dev fmt w h d usage props t))"
  by (auto simp: alloc_scratch_image_def Let_def case_prod_beta emits_def)

lemma emits_upd_slot: "emits Q s t \<Longrightarrow> emits Q s (upd_slot i f t)"
  by (simp add: emits_def)

lemma emits_grow: "sys_ok Q \<Longrightarrow> emits Q s t \<Longrightarrow> emits Q s (snd (grow_slot env i t))"
  by (auto simp: grow_slot_def Let_def case_prod_beta intro!: emits_upd_slot)

lemma emits_get_pair:
  "emits blit_ok s t \<Longrightarrow> emits blit_ok s (snd (get_scratch_pair env dev cb fmt se de props t))"
  using blit_ok_sys
  by (auto simp: get_scratch_pair_def Let_def case_prod_beta split: option.splits
      intro!: emits_release emits_alloc emits_upd_slot emits_grow)

text \<open>The commands recorded for one region, given the scratch pair.\<close>

definition blit_plan :: "VkCommandBuffer \<Rightarrow> VkImage \<Rightarrow> VkImageLayout \<Rightarrow> VkImage \<Rightarrow> VkImageLayout \<Rightarrow> VkFilter \<Rightarrow>
    scratch_pair \<Rightarrow> VkImageBlit \<Rightarrow> vk_call list" where
  "blit_plan cb src sl dst dl f p r =
     (let sm = mipLevel (srcSubresource r) \<noteq> 0; dm = mipLevel (dstSubresource r) \<noteq> 0;
          layers = nz (layerCount (srcSubresource r)) in
      (if sm then
         [C_CmdPipelineBarrier cb (src_img p) LAYOUT_UNDEFINED LAYOUT_TRANSFER_DST_OPTIMAL ACCESS_NONE ACCESS_TRANSFER_WRITE,
          C_CmdCopyImage cb src sl (src_img p) LAYOUT_TRANSFER_DST_OPTIMAL (copy_src_of r layers),
          C_CmdPipelineBarrier cb (src_img p) LAYOUT_TRANSFER_DST_OPTIMAL LAYOUT_TRANSFER_SRC_OPTIMAL
            ACCESS_TRANSFER_WRITE ACCESS_TRANSFER_READ] else []) @
      (if dm then
         [C_CmdPipelineBarrier cb (dst_img p) LAYOUT_UNDEFINED LAYOUT_TRANSFER_DST_OPTIMAL ACCESS_NONE ACCESS_TRANSFER_WRITE]
       else []) @
      [C_CmdBlitImage cb (if sm then src_img p else src) (if sm then LAYOUT_TRANSFER_SRC_OPTIMAL else sl)
         (if dm then dst_img p else dst) (if dm then LAYOUT_TRANSFER_DST_OPTIMAL else dl) [mid_of r] f] @
      (if dm then
         [C_CmdPipelineBarrier cb (dst_img p) LAYOUT_TRANSFER_DST_OPTIMAL LAYOUT_TRANSFER_SRC_OPTIMAL
            ACCESS_TRANSFER_WRITE ACCESS_TRANSFER_READ,
          C_CmdCopyImage cb (dst_img p) LAYOUT_TRANSFER_SRC_OPTIMAL dst dl (copy_dst_of r layers)] else []))"

definition scratch_for :: "env \<Rightarrow> VkCommandBuffer \<Rightarrow> VkDevice \<Rightarrow> img_info \<Rightarrow> img_info \<Rightarrow> VkImageBlit \<Rightarrow>
    'a vk_scratch_scheme \<Rightarrow> scratch_pair option \<times> 'a vk_scratch_scheme" where
  "scratch_for env cb dev si di r s =
     get_scratch_pair env dev cb (format si) (mip_extent (extent si) (mipLevel (srcSubresource r)))
       (mip_extent (extent di) (mipLevel (dstSubresource r))) (mem_props s) s"

lemma emit_emulated_blit_eq:
  "emit_emulated_blit env cb dev src sl dst dl f (Some si) (Some di) r s =
     (case scratch_for env cb dev si di r s of
        (None, t) \<Rightarrow> t
      | (Some p, t) \<Rightarrow> t\<lparr>calls := calls t @ blit_plan cb src sl dst dl f p r\<rparr>)"
  by (simp add: emit_emulated_blit_def scratch_for_def blit_plan_def stage_src_def stage_dst_def
      record_image_barrier_def Let_def case_prod_beta split: option.splits)

lemma blit_plan_ok: "list_all blit_ok (blit_plan cb src sl dst dl f p r)"
  by (simp add: blit_plan_def Let_def mid_no_mips)

lemma emits_emit:
  assumes "emits blit_ok s t"
  shows "emits blit_ok s (emit_emulated_blit env cb dev src sl dst dl f (Some si) (Some di) r t)"
proof -
  have "emits blit_ok s (snd (scratch_for env cb dev si di r t))"
    unfolding scratch_for_def by (rule emits_get_pair [OF assms])
  then show ?thesis
    using blit_plan_ok [of cb src sl dst dl f _ r]
    by (auto simp: emit_emulated_blit_eq emits_def case_prod_beta split: option.splits)
qed

lemma emits_emit_fold:
  "emits blit_ok s t \<Longrightarrow>
    emits blit_ok s (fold (emit_emulated_blit env cb dev src sl dst dl f (Some si) (Some di)) rs t)"
  by (induction rs arbitrary: t) (simp_all add: emits_emit)

lemma emits_load_props: "emits blit_ok s t \<Longrightarrow> emits blit_ok s (load_mem_props env pd t\<lparr>mem_props_loaded := b\<rparr>)"
  by (auto simp: load_mem_props_def Let_def emits_def)

lemma emits_mem_props: "emits blit_ok s t \<Longrightarrow> emits blit_ok s (ensure_mem_props env t)"
  unfolding ensure_mem_props_def Let_def
  by (auto intro!: emits_load_props emits_os(14,15) [OF blit_ok_sys])

lemma emits_setup:
  assumes "emits blit_ok s t"
  shows "emits blit_ok s (ensure_mem_props env (resolve_scratch_fns env dev (slot_claim_device cb dev t)))"
proof -
  have 1: "emits blit_ok s (slot_claim_device cb dev t)"
    using assms by (auto simp: slot_claim_device_def emits_upd_slot split: option.splits)
  have "emits blit_ok s (fold (resolve_dev env dev) ns u)" if "emits blit_ok s u" for ns and u :: "'a vk_scratch_scheme"
    using that by (induction ns arbitrary: u) (simp_all add: emits_os(14) [OF blit_ok_sys])
  from this [OF 1] have "emits blit_ok s (resolve_scratch_fns env dev (slot_claim_device cb dev t))"
    unfolding resolve_scratch_fns_def .
  then show ?thesis by (rule emits_mem_props)
qed

text \<open>C23. No blit that names a mip level other than 0, which this driver would get wrong, is ever
  recorded in the driver, whatever the app asked for and whatever fails on the way.\<close>

theorem no_mip_blit_reaches_driver:
  "\<exists>cs. calls (shim_CmdBlitImage env cb src sl dst dl rs f s) = calls s @ cs \<and> list_all blit_ok cs"
proof -
  let ?p = "prop_on env ''debug.xdplus.vkblitmip'' s"
  have "emits blit_ok s (snd ?p)" by (intro emits_os blit_ok_sys emits_refl)
  note e = emits_setup [OF this]
  have "emits blit_ok s (shim_CmdBlitImage env cb src sl dst dl rs f s)"
  proof (cases "list_ex has_mips rs")
    case True
    then show ?thesis
      unfolding shim_CmdBlitImage_def Let_def case_prod_beta
      using \<open>emits blit_ok s (snd ?p)\<close> e by (auto simp: emits_emit_fold split: option.splits prod.splits)
  next
    case False
    then show ?thesis by (simp add: shim_CmdBlitImage_def emits_def)
  qed
  then show ?thesis by (simp add: emits_def)
qed

section \<open>What the recorded commands do\<close>

text \<open>A reference semantics of the two transfer commands, as Vulkan defines them: memory maps a
  subresource (image, level, layer) to its texels, as they are stored; a copy moves a box of stored texels, whatever the
  formats; a blit fills the destination box from the source box through the filter function \<open>B\<close>, which converts from the
  format of the source image to that of the destination; \<open>F\<close> gives the format an image was created with. Barriers and allocations
  move no texels. The emulation relies on the driver following it for copies, and for blits
  between level-0 subresources.\<close>

type_synonym texel = "nat \<times> nat \<times> nat"
type_synonym 'c gpu = "VkImage \<times> u32 \<times> u32 \<Rightarrow> texel \<Rightarrow> 'c"
type_synonym 'c filter_fn = "VkFormat \<Rightarrow> VkFormat \<Rightarrow> VkFilter \<Rightarrow> (texel \<Rightarrow> 'c) \<Rightarrow> VkOffset3D \<times> VkOffset3D \<Rightarrow> VkOffset3D \<times> VkOffset3D \<Rightarrow> texel \<Rightarrow> 'c"

definition in_region :: "VkOffset3D \<Rightarrow> VkExtent3D \<Rightarrow> texel \<Rightarrow> bool" where
  "in_region o1 e = (\<lambda>(x, y, z).
     unat (off_x o1) \<le> x \<and> x < unat (off_x o1) + unat (width e) \<and>
     unat (off_y o1) \<le> y \<and> y < unat (off_y o1) + unat (height e) \<and>
     unat (off_z o1) \<le> z \<and> z < unat (off_z o1) + unat (depth e))"

definition between :: "u32 \<Rightarrow> u32 \<Rightarrow> nat \<Rightarrow> bool" where
  "between a b x \<longleftrightarrow> min (unat a) (unat b) \<le> x \<and> x < max (unat a) (unat b)"

definition in_box :: "VkOffset3D \<Rightarrow> VkOffset3D \<Rightarrow> texel \<Rightarrow> bool" where
  "in_box a b = (\<lambda>(x, y, z). between (off_x a) (off_x b) x \<and> between (off_y a) (off_y b) y \<and> between (off_z a) (off_z b) z)"

definition shifted :: "VkOffset3D \<Rightarrow> VkOffset3D \<Rightarrow> texel \<Rightarrow> texel" where
  "shifted s d = (\<lambda>(x, y, z). (x - unat (off_x d) + unat (off_x s), y - unat (off_y d) + unat (off_y s),
     z - unat (off_z d) + unat (off_z s)))"

definition exec_copy :: "VkImage \<Rightarrow> VkImage \<Rightarrow> VkImageCopy \<Rightarrow> 'c gpu \<Rightarrow> 'c gpu" where
  "exec_copy si di c m = (\<lambda>(i, l, a) t.
     if i = di \<and> l = mipLevel (cp_dstSubresource c) \<and>
        a - baseArrayLayer (cp_dstSubresource c) < layerCount (cp_dstSubresource c) \<and>
        in_region (cp_dstOffset c) (cp_extent c) t
     then m (si, mipLevel (cp_srcSubresource c),
             baseArrayLayer (cp_srcSubresource c) + (a - baseArrayLayer (cp_dstSubresource c)))
            (shifted (cp_srcOffset c) (cp_dstOffset c) t)
     else m (i, l, a) t)"

definition exec_blit :: "(VkImage \<Rightarrow> VkFormat) \<Rightarrow> 'c filter_fn \<Rightarrow> VkFilter \<Rightarrow> VkImage \<Rightarrow> VkImage \<Rightarrow> VkImageBlit \<Rightarrow> 'c gpu \<Rightarrow> 'c gpu" where
  "exec_blit F B f si di r m = (\<lambda>(i, l, a) t.
     if i = di \<and> l = mipLevel (dstSubresource r) \<and>
        a - baseArrayLayer (dstSubresource r) < layerCount (dstSubresource r) \<and>
        in_box (dstOffset0 r) (dstOffset1 r) t
     then B (F si) (F di) f (m (si, mipLevel (srcSubresource r),
                  baseArrayLayer (srcSubresource r) + (a - baseArrayLayer (dstSubresource r))))
            (srcOffset0 r, srcOffset1 r) (dstOffset0 r, dstOffset1 r) t
     else m (i, l, a) t)"

fun exec1 :: "(VkImage \<Rightarrow> VkFormat) \<Rightarrow> 'c filter_fn \<Rightarrow> vk_call \<Rightarrow> 'c gpu \<Rightarrow> 'c gpu" where
  "exec1 F B (C_CmdCopyImage cb si sl di dl c) m = exec_copy si di c m"
| "exec1 F B (C_CmdBlitImage cb si sl di dl rs f) m = fold (exec_blit F B f si di) rs m"
| "exec1 F B _ m = m"

definition exec :: "(VkImage \<Rightarrow> VkFormat) \<Rightarrow> 'c filter_fn \<Rightarrow> vk_call list \<Rightarrow> 'c gpu \<Rightarrow> 'c gpu" where
  "exec F B cs m = fold (exec1 F B) cs m"

text \<open>The filter reads no texel outside the source box.\<close>

definition local_filter :: "'c filter_fn \<Rightarrow> bool" where
  "local_filter B \<longleftrightarrow> (\<forall>x y f c c' a b d t. (\<forall>u. in_box a b u \<longrightarrow> c u = c' u) \<longrightarrow> B x y f c (a, b) d t = B x y f c' (a, b) d t)"

definition upright :: "VkOffset3D \<Rightarrow> VkOffset3D \<Rightarrow> bool" where
  "upright a b \<longleftrightarrow> off_x a < off_x b \<and> off_y a < off_y b \<and> off_z a < off_z b"

lemma edge_region: "a < b \<Longrightarrow> (unat a \<le> x \<and> x < unat a + unat (nz (b - a))) = between a b x"
  by (auto simp: between_def nz_def unat_sub word_less_nat_alt word_le_nat_alt)

lemma upright_region: "upright a b \<Longrightarrow> in_region a (edge_extent a b) t = in_box a b t"
  using edge_region [of "off_x a" "off_x b"] edge_region [of "off_y a" "off_y b"] edge_region [of "off_z a" "off_z b"]
  by (auto simp: in_region_def in_box_def edge_extent_def upright_def)

lemma shifted_same [simp]: "in_box a b t \<Longrightarrow> upright a b \<Longrightarrow> shifted a a t = t"
  by (auto simp: shifted_def in_box_def between_def upright_def word_less_nat_alt min_def split: prod.splits if_splits)

lemma word_below_one: "x - y < (1 :: u32) \<longleftrightarrow> x = y"
  by (simp add: word_less_1)

text \<open>Staging a box of one layer into level 0, layer 0 of another image, and back.\<close>

lemma stage_in:
  assumes "upright (srcOffset0 r) (srcOffset1 r)" and "in_box (srcOffset0 r) (srcOffset1 r) u"
  shows "exec_copy src tmp (copy_src_of r 1) m (tmp, 0, 0) u =
    m (src, mipLevel (srcSubresource r), baseArrayLayer (srcSubresource r)) u"
  using assms by (simp add: exec_copy_def copy_src_of_def upright_region)

lemma stage_in_other: "i \<noteq> tmp \<Longrightarrow> exec_copy src tmp c m (i, l, a) = m (i, l, a)"
  by (simp add: exec_copy_def fun_eq_iff)

lemma stage_out:
  assumes "upright (dstOffset0 r) (dstOffset1 r)"
  shows "exec_copy tmp dst (copy_dst_of r 1) m (i, l, a) t =
    (if i = dst \<and> l = mipLevel (dstSubresource r) \<and> a = baseArrayLayer (dstSubresource r) \<and>
        in_box (dstOffset0 r) (dstOffset1 r) t
     then m (tmp, 0, 0) t else m (i, l, a) t)"
  using assms by (auto simp: exec_copy_def copy_dst_of_def upright_region word_below_one)

lemma blit_other: "i \<noteq> di \<Longrightarrow> exec_blit F B f si di r m (i, l, a) = m (i, l, a)"
  by (simp add: exec_blit_def fun_eq_iff)

lemma blit_one_layer:
  assumes "layerCount (dstSubresource r) = 1"
  shows "exec_blit F B f si di r m (i, l, a) t =
    (if i = di \<and> l = mipLevel (dstSubresource r) \<and> a = baseArrayLayer (dstSubresource r) \<and>
        in_box (dstOffset0 r) (dstOffset1 r) t
     then B (F si) (F di) f (m (si, mipLevel (srcSubresource r), baseArrayLayer (srcSubresource r)))
            (srcOffset0 r, srcOffset1 r) (dstOffset0 r, dstOffset1 r) t
     else m (i, l, a) t)"
  using assms by (auto simp: exec_blit_def word_below_one)

lemma blit_local:
  assumes "local_filter B" and "\<And>u. in_box a b u \<Longrightarrow> c u = c' u"
  shows "B x y f c (a, b) d t = B x y f c' (a, b) d t"
  using assms unfolding local_filter_def by blast

lemma mid_of_simps [simp]:
  "mipLevel (srcSubresource (mid_of r)) = 0" "mipLevel (dstSubresource (mid_of r)) = 0"
  "baseArrayLayer (srcSubresource (mid_of r)) =
     (if mipLevel (srcSubresource r) \<noteq> 0 then 0 else baseArrayLayer (srcSubresource r))"
  "baseArrayLayer (dstSubresource (mid_of r)) =
     (if mipLevel (dstSubresource r) \<noteq> 0 then 0 else baseArrayLayer (dstSubresource r))"
  "layerCount (dstSubresource (mid_of r)) = layerCount (dstSubresource r)"
  "srcOffset0 (mid_of r) = srcOffset0 r" "srcOffset1 (mid_of r) = srcOffset1 r"
  "dstOffset0 (mid_of r) = dstOffset0 r" "dstOffset1 (mid_of r) = dstOffset1 r"
  by (simp_all add: mid_of_def)

lemma blit_plan_correct:
  fixes m :: "'c gpu"
  assumes "local_filter B"
    and "layerCount (srcSubresource r) = 1" and "layerCount (dstSubresource r) = 1"
    and "upright (srcOffset0 r) (srcOffset1 r)" and "upright (dstOffset0 r) (dstOffset1 r)"
    and "src_img p \<noteq> dst_img p" and "src_img p \<notin> {src, dst}" and "dst_img p \<notin> {src, dst}"
    and "i \<notin> {src_img p, dst_img p}" and "F (src_img p) = F src" and "F (dst_img p) = F src"
    and "mipLevel (dstSubresource r) \<noteq> 0 \<longrightarrow> F dst = F src"
  shows "exec F B (blit_plan cb src sl dst dl f p r) m (i, l, a) = exec1 F B (C_CmdBlitImage cb src sl dst dl [r] f) m (i, l, a)"
proof (rule ext)
  fix t
  let ?sm = "mipLevel (srcSubresource r) \<noteq> 0" and ?dm = "mipLevel (dstSubresource r) \<noteq> 0"
  let ?m1 = "if ?sm then exec_copy src (src_img p) (copy_src_of r 1) m else m"
  let ?ms = "if ?sm then src_img p else src" and ?md = "if ?dm then dst_img p else dst"
  let ?m2 = "exec_blit F B f ?ms ?md (mid_of r) ?m1"
  let ?m3 = "if ?dm then exec_copy (dst_img p) dst (copy_dst_of r 1) ?m2 else ?m2"
  let ?want = "B (F src) (F dst) f (m (src, mipLevel (srcSubresource r), baseArrayLayer (srcSubresource r)))
    (srcOffset0 r, srcOffset1 r) (dstOffset0 r, dstOffset1 r) t"
  have "nz (layerCount (srcSubresource r)) = 1" using assms(2) by (simp add: nz_def)
  then have e: "exec F B (blit_plan cb src sl dst dl f p r) m = ?m3"
    by (simp add: exec_def blit_plan_def Let_def)
  have m1: "?m1 (j, x, y) = m (j, x, y)" if "j \<noteq> src_img p" for j x y
    using that by (simp add: stage_in_other)
  have mid: "?m1 (?ms, 0, if ?sm then 0 else baseArrayLayer (srcSubresource r)) u =
      m (src, mipLevel (srcSubresource r), baseArrayLayer (srcSubresource r)) u"
    if "in_box (srcOffset0 r) (srcOffset1 r) u" for u
    using that assms(4) by (simp add: stage_in)
  have f: "F ?ms = F src" "F ?md = F dst" using assms(10-12) by auto
  have b: "B (F ?ms) (F ?md) f (?m1 (?ms, 0, if ?sm then 0 else baseArrayLayer (srcSubresource r)))
      (srcOffset0 r, srcOffset1 r) (dstOffset0 r, dstOffset1 r) t = ?want"
    unfolding f by (rule blit_local [OF assms(1) mid])
  have m2: "?m2 (j, x, y) t = (if j = ?md \<and> x = 0 \<and> y = (if ?dm then 0 else baseArrayLayer (dstSubresource r)) \<and>
      in_box (dstOffset0 r) (dstOffset1 r) t then ?want else ?m1 (j, x, y) t)" for j x y
    using b assms(3) by (simp only: blit_one_layer mid_of_simps)
  have "?m3 (i, l, a) t = exec_blit F B f src dst r m (i, l, a) t"
  proof (cases ?dm)
    case True
    then have "?m3 (i, l, a) t = (if i = dst \<and> l = mipLevel (dstSubresource r) \<and> a = baseArrayLayer (dstSubresource r) \<and>
        in_box (dstOffset0 r) (dstOffset1 r) t then ?m2 (dst_img p, 0, 0) t else ?m2 (i, l, a) t)"
      by (simp only: stage_out [OF assms(5)] if_True not_False_eq_True simp_thms)
    also have "\<dots> = exec_blit F B f src dst r m (i, l, a) t"
      using True assms(9) m1 [of i] unfolding m2 blit_one_layer [OF assms(3)] by auto
    finally show ?thesis .
  next
    case False
    then have "?m3 (i, l, a) t = ?m2 (i, l, a) t" by simp
    also have "\<dots> = exec_blit F B f src dst r m (i, l, a) t"
      using False assms(9) m1 [of i] unfolding m2 blit_one_layer [OF assms(3)] by auto
    finally show ?thesis .
  qed
  then show "exec F B (blit_plan cb src sl dst dl f p r) m (i, l, a) t =
      exec1 F B (C_CmdBlitImage cb src sl dst dl [r] f) m (i, l, a) t"
    by (simp add: e)
qed


text \<open>C3. The emulation of one region does what the app asked for, if its two scratch images could be allocated (otherwise the blit is
  dropped) and, when the destination level has to be staged, the destination has the format of the source, which is the format both
  scratch images are created with. With a filter that stays inside its source box, single layers and boxes that are not mirrored, executing the
  recorded commands leaves in every image of the app exactly what the requested blit, levels included, would: the
  destination level gets the scaled and converted source level and nothing else changes.\<close>

theorem emulated_blit_correct:
  fixes m :: "'c gpu"
  assumes "scratch_for env cb dev si di r s = (Some p, s1)" and "local_filter B"
    and "layerCount (srcSubresource r) = 1" and "layerCount (dstSubresource r) = 1"
    and "upright (srcOffset0 r) (srcOffset1 r)" and "upright (dstOffset0 r) (dstOffset1 r)"
    and "src_img p \<noteq> dst_img p" and "src_img p \<notin> {src, dst}" and "dst_img p \<notin> {src, dst}"
    and "i \<notin> {src_img p, dst_img p}"
    and "F src = format si" and "F (src_img p) = format si" and "F (dst_img p) = format si"
    and "mipLevel (dstSubresource r) \<noteq> 0 \<longrightarrow> F dst = format si"
  shows "\<exists>cs. calls (emit_emulated_blit env cb dev src sl dst dl f (Some si) (Some di) r s) = calls s1 @ cs \<and>
    exec F B cs m (i, l, a) = exec1 F B (C_CmdBlitImage cb src sl dst dl [r] f) m (i, l, a)"
  using blit_plan_correct [OF assms(2-10), of F cb sl dl f m l a] assms(1,11-14)
  by (auto simp: emit_emulated_blit_eq)

section \<open>Samplers stay on level 0\<close>

text \<open>With the clamp on, which it is unless the property starts with 0, no sampler the driver is
  asked for can read a level other than 0, and a sampler that already reads only level 0 is passed
  on as it is.\<close>

theorem sampler_clamped:
  assumes "prop_cache s ''debug.xdplus.vkmiplod'' = Some True"
  shows "(case shim_CreateSampler env (Some c) s of
       (Some c', s') \<Rightarrow> \<not> above_zero (maxLod c') \<and> s' = s \<and> (\<not> above_zero (maxLod c) \<longrightarrow> c' = c)
     | (None, _) \<Rightarrow> False)"
  using assms by (simp add: shim_CreateSampler_def above_zero_def)

section \<open>The theorems at a concrete driver\<close>

definition demo_region :: VkImageBlit where
  "demo_region =
     \<lparr>srcSubresource = \<lparr>aspectMask = 1, mipLevel = 1, baseArrayLayer = 0, layerCount = 1\<rparr>,
      srcOffset0 = \<lparr>off_x = 0, off_y = 0, off_z = 0\<rparr>, srcOffset1 = \<lparr>off_x = 4, off_y = 4, off_z = 1\<rparr>,
      dstSubresource = \<lparr>aspectMask = 1, mipLevel = 2, baseArrayLayer = 0, layerCount = 1\<rparr>,
      dstOffset0 = \<lparr>off_x = 0, off_y = 0, off_z = 0\<rparr>, dstOffset1 = \<lparr>off_x = 2, off_y = 2, off_z = 1\<rparr>\<rparr>"

definition demo_img :: img_info where
  "demo_img = \<lparr>img = 3, format = 37, extent = \<lparr>width = 8, height = 8, depth = 1\<rparr>, array_layers = 1,
     aspect = 1, used = True\<rparr>"

text \<open>A filter that fills the destination with one value of the source box.\<close>

definition demo_filter :: "nat filter_fn" where
  "demo_filter x y f c sb db t = (if in_box (fst sb) (snd sb) (0, 0, 0) then c (0, 0, 0) else 0)"

lemma demo_filter_local: "local_filter demo_filter"
  by (simp add: local_filter_def demo_filter_def)

theorem emulated_blit_correct_witness:
  "\<exists>cs (s1 :: vk_scratch). calls (emit_emulated_blit env_demo 9 5 3 LAYOUT_UNDEFINED 3 LAYOUT_UNDEFINED 1 (Some demo_img) (Some demo_img)
       demo_region demo_scratch) = calls s1 @ cs \<and>
     exec (\<lambda>i. 37) demo_filter cs (\<lambda>(i, l, a) t. unat l * 10) (3, 2, 0) (1, 1, 0) = 10"
proof -
  let ?r = "scratch_for env_demo 9 5 demo_img demo_img demo_region demo_scratch"
  have "\<exists>p. fst ?r = Some p \<and> src_img p = 100 \<and> dst_img p = 104"
    by (simp add: scratch_for_def get_scratch_pair_def demo_slot_for grow_slot_def alloc_scratch_image_def Let_def
        case_prod_beta demo_slot_def) (simp add: env_demo_def)
  then obtain p s1 where r: "?r = (Some p, s1)" "src_img p = 100" "dst_img p = 104" by (metis prod.collapse)
  have s: "upright (srcOffset0 demo_region) (srcOffset1 demo_region)" "upright (dstOffset0 demo_region) (dstOffset1 demo_region)"
    "layerCount (srcSubresource demo_region) = 1" "layerCount (dstSubresource demo_region) = 1"
    by (simp_all add: demo_region_def upright_def)
  have n: "src_img p \<noteq> dst_img p" "src_img p \<notin> {3, 3}" "dst_img p \<notin> {3, 3}" "3 \<notin> {src_img p, dst_img p}" using r(2,3) by simp_all
  have k: "37 = format demo_img" "mipLevel (dstSubresource demo_region) \<noteq> 0 \<longrightarrow> 37 = format demo_img" by (simp_all add: demo_img_def)
  obtain cs where "calls (emit_emulated_blit env_demo 9 5 3 LAYOUT_UNDEFINED 3 LAYOUT_UNDEFINED 1 (Some demo_img) (Some demo_img)
       demo_region demo_scratch) = calls s1 @ cs"
    "exec (\<lambda>i. 37) demo_filter cs (\<lambda>(i, l, a) t. unat l * 10) (3, 2, 0) =
     exec1 (\<lambda>i. 37) demo_filter (C_CmdBlitImage 9 3 LAYOUT_UNDEFINED 3 LAYOUT_UNDEFINED [demo_region] 1) (\<lambda>(i, l, a) t. unat l * 10) (3, 2, 0)"
    using emulated_blit_correct [OF r(1) demo_filter_local s(3,4,1,2) n k(1,1,1,2)] by blast
  then show ?thesis
    by (intro exI [of _ cs] exI [of _ s1])
      (simp add: exec_blit_def demo_region_def in_box_def between_def demo_filter_def)
qed

theorem sampler_clamped_witness:
  "case shim_CreateSampler env_demo (Some \<lparr>mipmapMode = MIPMAP_LINEAR, minLod = 0, maxLod = 0x3F800000\<rparr>)
       (vk_scratch_boot\<lparr>prop_cache := [''debug.xdplus.vkmiplod'' \<mapsto> True]\<rparr>) of
     (Some c', s') \<Rightarrow> \<not> above_zero (maxLod c') | (None, _) \<Rightarrow> False"
  using sampler_clamped [of "vk_scratch_boot\<lparr>prop_cache := [''debug.xdplus.vkmiplod'' \<mapsto> True]\<rparr>"
      "\<lparr>mipmapMode = MIPMAP_LINEAR, minLod = 0, maxLod = 0x3F800000\<rparr>" env_demo]
  by (auto split: prod.splits option.splits)

end
