(* ===== verification/Vk_Suppress.thy ===== *)
theory Vk_Suppress
  imports Vk_Blit
begin

text \<open>
  The null-framebuffer guard of \<^verbatim>\<open>vkshim.c\<close>. The blob dereferences the framebuffer of
  \<^verbatim>\<open>vkCmdBeginRenderPass\<close> without testing it, so the shim drops a begin with VK_NULL_HANDLE and,
  until the matching end, every command that is only legal inside a pass. The command buffers with
  a dropped pass are in the table \<open>supp_cb\<close> of 16 slots with the hint \<open>supp_last\<close> and the count
  \<open>supp_n\<close>; the C code updates them by atomic operations, one per definition here.
\<close>

definition SUPP_MAX :: nat where [const_defs]: "SUPP_MAX = 16"

record vk_supp = vk_scratch +
  supp_cb :: "VkCommandBuffer list"
  supp_last :: VkCommandBuffer
  supp_n :: int
  null_fb_hits :: u32

definition supp_set :: "VkCommandBuffer \<Rightarrow> 'a vk_supp_scheme \<Rightarrow> 'a vk_supp_scheme" where
  "supp_set cb s =
     (case first_index (\<lambda>x. x = null) (supp_cb s) of
        None \<Rightarrow> s
      | Some i \<Rightarrow> s\<lparr>supp_cb := (supp_cb s)[i := cb], supp_last := cb, supp_n := supp_n s + 1\<rparr>)"

definition supp_active :: "VkCommandBuffer \<Rightarrow> 'a vk_supp_scheme \<Rightarrow> bool" where
  "supp_active cb s \<longleftrightarrow>
     supp_n s \<noteq> 0 \<and> cb \<noteq> null \<and> (supp_last s = cb \<or> first_index (\<lambda>x. x = cb) (supp_cb s) \<noteq> None)"

definition supp_clear :: "VkCommandBuffer \<Rightarrow> 'a vk_supp_scheme \<Rightarrow> 'a vk_supp_scheme" where
  "supp_clear cb s =
     (case first_index (\<lambda>x. x = cb) (supp_cb s) of
        None \<Rightarrow> s
      | Some i \<Rightarrow> s\<lparr>supp_cb := (supp_cb s)[i := null],
                    supp_last := (if supp_last s = cb then null else supp_last s),
                    supp_n := supp_n s - 1\<rparr>)"

text \<open>\<open>fb\<close> is the framebuffer of the begin info, \<open>None\<close> when the info pointer itself is NULL.\<close>

definition shim_CmdBeginRenderPass :: "env \<Rightarrow> VkCommandBuffer \<Rightarrow> VkFramebuffer option \<Rightarrow> nat \<Rightarrow>
    'a vk_supp_scheme \<Rightarrow> 'a vk_supp_scheme" where
  "shim_CmdBeginRenderPass env cb fb contents s =
     (if fb = Some null then
        let (on, s) = prop_on env ''debug.xdplus.vkrpguard'' s in
        if on then supp_set cb (s\<lparr>null_fb_hits := null_fb_hits s + 1\<rparr>)
        else log_call (C_CmdBeginRenderPass cb null contents) s
      else log_call (C_CmdBeginRenderPass cb (case fb of None \<Rightarrow> null | Some f \<Rightarrow> f) contents) s)"

definition shim_CmdEndRenderPass :: "VkCommandBuffer \<Rightarrow> 'a vk_supp_scheme \<Rightarrow> 'a vk_supp_scheme" where
  "shim_CmdEndRenderPass cb s =
     (if supp_active cb s then supp_clear cb s else log_call (C_CmdEndRenderPass cb) s)"

definition shim_CmdNextSubpass :: "VkCommandBuffer \<Rightarrow> nat \<Rightarrow> 'a vk_supp_scheme \<Rightarrow> 'a vk_supp_scheme" where
  "shim_CmdNextSubpass cb contents s =
     (if supp_active cb s then s else log_call (C_CmdNextSubpass cb contents) s)"

definition shim_CmdDraw :: "VkCommandBuffer \<Rightarrow> u32 \<Rightarrow> u32 \<Rightarrow> u32 \<Rightarrow> u32 \<Rightarrow> 'a vk_supp_scheme \<Rightarrow> 'a vk_supp_scheme" where
  "shim_CmdDraw cb vc ic fv fi s =
     (if supp_active cb s then s else log_call (C_CmdDraw cb (Draw [vc, ic, fv, fi])) s)"

definition shim_CmdDrawIndexed :: "VkCommandBuffer \<Rightarrow> u32 \<Rightarrow> u32 \<Rightarrow> u32 \<Rightarrow> u32 \<Rightarrow> u32 \<Rightarrow>
    'a vk_supp_scheme \<Rightarrow> 'a vk_supp_scheme" where
  "shim_CmdDrawIndexed cb ic inst fi vo firstInst s =
     (if supp_active cb s then s else log_call (C_CmdDraw cb (DrawIndexed [ic, inst, fi, vo, firstInst])) s)"

definition shim_CmdDrawIndirect :: "VkCommandBuffer \<Rightarrow> VkBuffer \<Rightarrow> u32 list \<Rightarrow> 'a vk_supp_scheme \<Rightarrow> 'a vk_supp_scheme" where
  "shim_CmdDrawIndirect cb buf args s =
     (if supp_active cb s then s else log_call (C_CmdDraw cb (DrawIndirect buf args)) s)"

definition shim_CmdDrawIndexedIndirect :: "VkCommandBuffer \<Rightarrow> VkBuffer \<Rightarrow> u32 list \<Rightarrow> 'a vk_supp_scheme \<Rightarrow> 'a vk_supp_scheme" where
  "shim_CmdDrawIndexedIndirect cb buf args s =
     (if supp_active cb s then s else log_call (C_CmdDraw cb (DrawIndexedIndirect buf args)) s)"

definition shim_CmdClearAttachments :: "VkCommandBuffer \<Rightarrow> nat \<Rightarrow> 'a vk_supp_scheme \<Rightarrow> 'a vk_supp_scheme" where
  "shim_CmdClearAttachments cb n s =
     (if supp_active cb s then s else log_call (C_CmdDraw cb (ClearAttachments n)) s)"

section \<open>The commands of a recording\<close>

datatype pass_cmd = PBegin VkCommandBuffer "VkFramebuffer option" nat | PEnd VkCommandBuffer
  | PNext VkCommandBuffer nat | PDraw VkCommandBuffer draw_cmd

fun pass_step :: "env \<Rightarrow> pass_cmd \<Rightarrow> 'a vk_supp_scheme \<Rightarrow> 'a vk_supp_scheme" where
  "pass_step env (PBegin cb fb c) s = shim_CmdBeginRenderPass env cb fb c s"
| "pass_step env (PEnd cb) s = shim_CmdEndRenderPass cb s"
| "pass_step env (PNext cb c) s = shim_CmdNextSubpass cb c s"
| "pass_step env (PDraw cb (Draw [a, b, c, d])) s = shim_CmdDraw cb a b c d s"
| "pass_step env (PDraw cb (DrawIndexed [a, b, c, d, e])) s = shim_CmdDrawIndexed cb a b c d e s"
| "pass_step env (PDraw cb (DrawIndirect buf as)) s = shim_CmdDrawIndirect cb buf as s"
| "pass_step env (PDraw cb (DrawIndexedIndirect buf as)) s = shim_CmdDrawIndexedIndirect cb buf as s"
| "pass_step env (PDraw cb (ClearAttachments n)) s = shim_CmdClearAttachments cb n s"
| "pass_step env _ s = s"

fun cmd_cb :: "pass_cmd \<Rightarrow> VkCommandBuffer" where
  "cmd_cb (PBegin cb fb c) = cb" | "cmd_cb (PEnd cb) = cb" | "cmd_cb (PNext cb c) = cb" | "cmd_cb (PDraw cb d) = cb"

section \<open>The table as a set\<close>

definition supp_key :: "VkCommandBuffer \<Rightarrow> VkCommandBuffer option" where
  "supp_key c = (if c = null then None else Some c)"

definition supp_set_of :: "VkCommandBuffer list \<Rightarrow> VkCommandBuffer set" where
  "supp_set_of tab = set tab - {null}"

definition supp_wf :: "'a vk_supp_scheme \<Rightarrow> bool" where
  "supp_wf s \<longleftrightarrow> length (supp_cb s) = SUPP_MAX \<and> keyed supp_key (supp_cb s) \<and>
     supp_n s = int (card (supp_set_of (supp_cb s))) \<and> (supp_last s = null \<or> supp_last s \<in> set (supp_cb s))"

lemma finite_supp [simp]: "finite (supp_set_of tab)"
  by (simp add: supp_set_of_def)

lemma supp_set_of_fill:
  assumes "i < length tab" and "tab ! i = null" and "cb \<noteq> null" and "keyed supp_key tab"
  shows "supp_set_of (tab[i := cb]) = insert cb (supp_set_of tab)"
proof -
  have "set (tab[i := cb]) - {null} \<subseteq> insert cb (set tab - {null})"
    using set_update_subset_insert [of tab i cb] by auto
  moreover have "x \<in> set (tab[i := cb])" if "x \<in> set tab" "x \<noteq> null" for x
  proof -
    from that obtain j where "j < length tab" "tab ! j = x" by (auto simp: in_set_conv_nth)
    with that assms(2) have "j \<noteq> i" by auto
    with \<open>j < length tab\<close> \<open>tab ! j = x\<close> show ?thesis by (auto simp: in_set_conv_nth intro!: exI [of _ j])
  qed
  ultimately show ?thesis
    using assms(1,3) by (auto simp: supp_set_of_def set_update_memI)
qed

lemma supp_set_of_drop:
  assumes "i < length tab" and "tab ! i = cb" and "cb \<noteq> null" and "keyed supp_key tab"
  shows "supp_set_of (tab[i := null]) = supp_set_of tab - {cb}"
proof (intro set_eqI iffI)
  fix x assume x: "x \<in> supp_set_of (tab[i := null])"
  then obtain j where j: "j < length tab" "tab[i := null] ! j = x" "x \<noteq> null"
    by (auto simp: supp_set_of_def in_set_conv_nth)
  then have "j \<noteq> i" using assms(1) by auto
  moreover have "x \<noteq> cb"
    using j \<open>j \<noteq> i\<close> assms by (auto simp: keyed_def supp_key_def)
  ultimately show "x \<in> supp_set_of tab - {cb}" using j by (auto simp: supp_set_of_def)
next
  fix x assume x: "x \<in> supp_set_of tab - {cb}"
  then obtain j where j: "j < length tab" "tab ! j = x" "x \<noteq> null" "x \<noteq> cb"
    by (auto simp: supp_set_of_def in_set_conv_nth)
  then have "j \<noteq> i" using assms by auto
  with j show "x \<in> supp_set_of (tab[i := null])"
    by (auto simp: supp_set_of_def in_set_conv_nth intro!: exI [of _ j])
qed

lemma supp_active_iff:
  assumes "supp_wf s"
  shows "supp_active cb s \<longleftrightarrow> cb \<in> supp_set_of (supp_cb s)"
proof -
  have "first_index (\<lambda>x. x = cb) (supp_cb s) \<noteq> None \<longleftrightarrow> cb \<in> set (supp_cb s)"
    by (auto simp: first_index_None)
  moreover have "supp_n s \<noteq> 0" if "cb \<in> supp_set_of (supp_cb s)"
    using that assms by (auto simp: supp_wf_def card_gt_0_iff)
  ultimately show ?thesis
    using assms by (auto simp: supp_active_def supp_wf_def supp_set_of_def)
qed

lemma supp_set_wf:
  assumes "supp_wf s" and "cb \<noteq> null" and "cb \<notin> supp_set_of (supp_cb s)"
    and "card (supp_set_of (supp_cb s)) < SUPP_MAX"
  shows "supp_wf (supp_set cb s) \<and> supp_set_of (supp_cb (supp_set cb s)) = insert cb (supp_set_of (supp_cb s))"
proof -
  have "first_index (\<lambda>x. x = null) (supp_cb s) \<noteq> None"
  proof
    assume n: "first_index (\<lambda>x. x = null) (supp_cb s) = None"
    then have nn: "\<forall>x \<in> set (supp_cb s). x \<noteq> null" by (simp add: first_index_None)
    then have "distinct (supp_cb s)"
      using assms(1) by (auto simp: distinct_conv_nth supp_wf_def keyed_def supp_key_def)
    then have "card (set (supp_cb s)) = SUPP_MAX" using assms(1) by (simp add: distinct_card supp_wf_def)
    moreover have "supp_set_of (supp_cb s) = set (supp_cb s)" using nn by (auto simp: supp_set_of_def)
    ultimately show False using assms(4) by simp
  qed
  then obtain i where i: "first_index (\<lambda>x. x = null) (supp_cb s) = Some i" by auto
  note b = first_index_SomeD [OF i]
  have k: "keyed supp_key ((supp_cb s)[i := cb])"
    using assms by (intro keyed_update_fresh [where k = cb])
      (auto simp: supp_wf_def supp_key_def supp_set_of_def)
  have e: "supp_set_of ((supp_cb s)[i := cb]) = insert cb (supp_set_of (supp_cb s))"
    using b assms by (intro supp_set_of_fill) (auto simp: supp_wf_def)
  have m: "cb \<in> set ((supp_cb s)[i := cb])" using b by (simp add: set_update_memI)
  have "card (insert cb (supp_set_of (supp_cb s))) = card (supp_set_of (supp_cb s)) + 1"
    using assms(3) by simp
  with k e m assms(1) show ?thesis
    by (simp add: supp_set_def i supp_wf_def)
qed

lemma supp_clear_wf:
  assumes "supp_wf s" and "cb \<in> supp_set_of (supp_cb s)"
  shows "supp_wf (supp_clear cb s) \<and> supp_set_of (supp_cb (supp_clear cb s)) = supp_set_of (supp_cb s) - {cb}"
proof -
  have "cb \<in> set (supp_cb s)" "cb \<noteq> null" using assms(2) by (auto simp: supp_set_of_def)
  then obtain i where i: "first_index (\<lambda>x. x = cb) (supp_cb s) = Some i"
    using first_indexE [of cb "supp_cb s" "\<lambda>x. x = cb"] by blast
  have i1: "i < length (supp_cb s)" "supp_cb s ! i = cb"
    using first_index_bound [OF i] first_index_sat [OF i] by simp_all
  have e: "supp_set_of ((supp_cb s)[i := null]) = supp_set_of (supp_cb s) - {cb}"
    by (rule supp_set_of_drop [OF i1 \<open>cb \<noteq> null\<close>]) (use assms(1) in \<open>simp add: supp_wf_def\<close>)
  have k: "keyed supp_key ((supp_cb s)[i := null])"
    using assms(1) by (intro keyed_update_free) (auto simp: supp_wf_def supp_key_def)
  have c: "card (supp_set_of (supp_cb s)) = card (supp_set_of (supp_cb s) - {cb}) + 1"
    using card_Suc_Diff1 [OF finite_supp assms(2)] by simp
  have l: "supp_last s \<in> set ((supp_cb s)[i := null])" if "supp_last s \<noteq> cb" "supp_last s \<noteq> null"
  proof -
    have "supp_last s \<in> supp_set_of ((supp_cb s)[i := null])"
      unfolding e using that assms(1) by (auto simp: supp_wf_def supp_set_of_def)
    then show ?thesis by (simp add: supp_set_of_def)
  qed
  from i k e c l assms(1) show ?thesis
    by (auto simp: supp_clear_def supp_wf_def)
qed


section \<open>What the driver sees of a recording\<close>

text \<open>The driver's side: the command buffers in which it has begun a pass. A begin without a
  framebuffer, or a command that belongs inside a pass arriving outside one, is the fault this
  driver answers with a crash.\<close>

fun drv_step :: "vk_call \<Rightarrow> VkCommandBuffer set \<Rightarrow> VkCommandBuffer set option" where
  "drv_step (C_CmdBeginRenderPass cb fb c) S = (if fb = null then None else Some (insert cb S))"
| "drv_step (C_CmdEndRenderPass cb) S = (if cb \<in> S then Some (S - {cb}) else None)"
| "drv_step (C_CmdNextSubpass cb c) S = (if cb \<in> S then Some S else None)"
| "drv_step (C_CmdDraw cb d) S = (if cb \<in> S then Some S else None)"
| "drv_step _ S = Some S"

fun drv_run :: "vk_call list \<Rightarrow> VkCommandBuffer set \<Rightarrow> VkCommandBuffer set option" where
  "drv_run [] S = Some S"
| "drv_run (c # cs) S = Option.bind (drv_step c S) (drv_run cs)"

text \<open>A recording that follows the rules: passes do not nest in a command buffer, and commands of a
  pass are inside one. \<open>R\<close> and \<open>U\<close> are the command buffers whose open pass has a framebuffer, or
  has none.\<close>

fun legal :: "pass_cmd list \<Rightarrow> VkCommandBuffer set \<Rightarrow> VkCommandBuffer set \<Rightarrow> bool" where
  "legal [] R U = True"
| "legal (PBegin cb fb c # cs) R U =
     (cb \<noteq> null \<and> cb \<notin> R \<union> U \<and>
      (case fb of None \<Rightarrow> False
       | Some f \<Rightarrow> if f = null then legal cs R (insert cb U) else legal cs (insert cb R) U))"
| "legal (PEnd cb # cs) R U = (cb \<in> R \<union> U \<and> legal cs (R - {cb}) (U - {cb}))"
| "legal (PNext cb c # cs) R U = (cb \<in> R \<union> U \<and> legal cs R U)"
| "legal (PDraw cb d # cs) R U = (cb \<in> R \<union> U \<and> legal cs R U)"

text \<open>Never more than 16 command buffers are inside a pass without a framebuffer at once: the size of the shim's table.\<close>

fun table_suffices :: "pass_cmd list \<Rightarrow> VkCommandBuffer set \<Rightarrow> bool" where
  "table_suffices [] U = True"
| "table_suffices (PBegin cb fb c # cs) U =
     (if fb = Some null then card U < SUPP_MAX \<and> table_suffices cs (insert cb U) else table_suffices cs U)"
| "table_suffices (PEnd cb # cs) U = table_suffices cs (U - {cb})"
| "table_suffices (_ # cs) U = table_suffices cs U"

definition guard_name :: string where
  "guard_name = ''debug.xdplus.vkrpguard''"

definition guard_on :: "env \<Rightarrow> 'a vk_supp_scheme \<Rightarrow> bool" where
  "guard_on env s \<longleftrightarrow>
     (case prop_cache s guard_name of
        Some b \<Rightarrow> b
      | None \<Rightarrow> (\<forall>h. case take 91 (cstr (e_prop env h guard_name)) of [] \<Rightarrow> True | c # _ \<Rightarrow> c \<noteq> CHR ''0''))"

lemma drv_run_append: "drv_run (a @ b) S = Option.bind (drv_run a S) (drv_run b)"
  by (induction a arbitrary: S) (auto split: bind_splits)

lemma guard_prop_on:
  assumes "guard_on env s"
  shows "fst (prop_on env guard_name s)" and "guard_on env (snd (prop_on env guard_name s))"
    and "\<exists>cs. calls (snd (prop_on env guard_name s)) = calls s @ cs \<and> drv_run cs S = Some S"
  using assms
  by (auto simp: guard_on_def prop_on_def sys_prop_get_def Let_def split: option.splits list.splits)

lemma supp_frames [simp]:
  "calls (supp_set cb s) = calls s" "prop_cache (supp_set cb s) = prop_cache s"
  "calls (supp_clear cb s) = calls s" "prop_cache (supp_clear cb s) = prop_cache s"
  by (simp_all add: supp_set_def supp_clear_def split: option.splits)

lemma prop_on_supp [simp]:
  "supp_cb (snd (prop_on env n s)) = supp_cb s" "supp_last (snd (prop_on env n s)) = supp_last s"
  "supp_n (snd (prop_on env n s)) = supp_n s"
  by (simp_all add: prop_on_def sys_prop_get_def Let_def split: option.splits)

definition supp_inv :: "env \<Rightarrow> 'a vk_supp_scheme \<Rightarrow> VkCommandBuffer set \<Rightarrow> VkCommandBuffer set \<Rightarrow> bool" where
  "supp_inv env s R U \<longleftrightarrow> supp_wf s \<and> supp_set_of (supp_cb s) = U \<and> R \<inter> U = {} \<and> guard_on env s"

lemma supp_wf_cong:
  "supp_cb s' = supp_cb s \<Longrightarrow> supp_last s' = supp_last s \<Longrightarrow> supp_n s' = supp_n s \<Longrightarrow> supp_wf s' = supp_wf s"
  by (simp add: supp_wf_def)

lemma begin_null_ok:
  assumes "supp_inv env s R U" and "cb \<noteq> null" and "cb \<notin> R \<union> U" and "card U < SUPP_MAX"
  shows "supp_inv env (shim_CmdBeginRenderPass env cb (Some null) n s) R (insert cb U) \<and>
    (\<exists>ds. calls (shim_CmdBeginRenderPass env cb (Some null) n s) = calls s @ ds \<and> drv_run ds R = Some R)"
proof -
  let ?s1 = "snd (prop_on env guard_name s)\<lparr>null_fb_hits := null_fb_hits (snd (prop_on env guard_name s)) + 1\<rparr>"
  have g: "guard_on env s" and wf: "supp_wf s" and U: "supp_set_of (supp_cb s) = U" and RU: "R \<inter> U = {}"
    using assms(1) by (auto simp: supp_inv_def)
  have e: "shim_CmdBeginRenderPass env cb (Some null) n s = supp_set cb ?s1"
    using guard_prop_on(1) [OF g]
    by (simp add: shim_CmdBeginRenderPass_def Let_def case_prod_beta flip: guard_name_def)
  have "supp_wf ?s1" using wf supp_wf_cong [of ?s1 s] by simp
  with supp_set_wf [of ?s1 cb] assms U
  have "supp_wf (supp_set cb ?s1) \<and> supp_set_of (supp_cb (supp_set cb ?s1)) = insert cb U" by simp
  moreover have "guard_on env (supp_set cb ?s1)"
    using guard_prop_on(2) [OF g] by (simp add: guard_on_def)
  moreover obtain ds where "calls (snd (prop_on env guard_name s)) = calls s @ ds" "drv_run ds R = Some R"
    using guard_prop_on(3) [OF g, of R] by blast
  ultimately show ?thesis
    unfolding e using assms(3) RU by (auto simp: supp_inv_def)
qed

lemma supp_inv_log: "supp_inv env (log_call c s) R U = supp_inv env s R U"
  by (simp add: supp_inv_def supp_wf_def guard_on_def)

text \<open>A command inside a pass is dropped or passed on.\<close>

lemma inside_ok:
  assumes "supp_inv env s R U" and "cb \<in> R \<union> U" and "drv_step c R = (if cb \<in> R then Some R else None)"
    and "s' = (if supp_active cb s then s else log_call c s)"
  shows "supp_inv env s' R U \<and> (\<exists>ds. calls s' = calls s @ ds \<and> drv_run ds R = Some R)"
proof (cases "cb \<in> U")
  case True
  then show ?thesis using assms by (simp add: supp_inv_def supp_active_iff)
next
  case False
  then have "s' = log_call c s" using assms by (simp add: supp_inv_def supp_active_iff)
  moreover have "drv_run [c] R = Some R" using False assms(2,3) by simp
  moreover have "calls (log_call c s) = calls s @ [c]" by simp
  ultimately show ?thesis using assms(1) supp_inv_log [of env c s R U] by metis
qed

lemma end_ok:
  assumes "supp_inv env s R U" and "cb \<in> R \<union> U"
  shows "supp_inv env (shim_CmdEndRenderPass cb s) (R - {cb}) (U - {cb}) \<and>
    (\<exists>ds. calls (shim_CmdEndRenderPass cb s) = calls s @ ds \<and> drv_run ds R = Some (R - {cb}))"
proof (cases "cb \<in> U")
  case True
  then have "cb \<notin> R" using assms(1) by (auto simp: supp_inv_def)
  with True assms supp_clear_wf [of s cb] show ?thesis
    by (auto simp: shim_CmdEndRenderPass_def supp_inv_def supp_active_iff guard_on_def)
next
  case False
  then have "shim_CmdEndRenderPass cb s = log_call (C_CmdEndRenderPass cb) s"
    using assms by (simp add: shim_CmdEndRenderPass_def supp_inv_def supp_active_iff)
  moreover have "supp_inv env s (R - {cb}) (U - {cb})" using False assms by (auto simp: supp_inv_def)
  ultimately show ?thesis
    using False assms supp_inv_log [of env "C_CmdEndRenderPass cb" s "R - {cb}" "U - {cb}"]
    by (auto intro!: exI [of _ "[C_CmdEndRenderPass cb]"])
qed

text \<open>One command: the shim's state follows the recording, and what it passes on is legal for the
  driver.\<close>

lemma pass_step_ok:
  assumes "supp_inv env s R U" and "legal (c # cs) R U" and "table_suffices (c # cs) U"
  shows "\<exists>R' U' ds. legal cs R' U' \<and> table_suffices cs U' \<and> supp_inv env (pass_step env c s) R' U' \<and>
    calls (pass_step env c s) = calls s @ ds \<and> drv_run ds R = Some R'"
proof (cases c)
  case (PBegin cb fb n)
  then obtain f where f: "fb = Some f" "cb \<noteq> null" "cb \<notin> R \<union> U" using assms(2) by (auto split: option.splits)
  show ?thesis
  proof (cases "f = null")
    case True
    with f PBegin assms begin_null_ok [of env s R U cb n] show ?thesis by auto
  next
    case False
    then have "pass_step env c s = log_call (C_CmdBeginRenderPass cb f n) s"
      using PBegin f by (simp add: shim_CmdBeginRenderPass_def)
    moreover have "supp_inv env s (insert cb R) U" using assms(1) f by (auto simp: supp_inv_def)
    ultimately show ?thesis
      using False f PBegin assms(2,3) supp_inv_log [of env "C_CmdBeginRenderPass cb f n" s "insert cb R" U]
      by (intro exI [of _ "insert cb R"] exI [of _ U] exI [of _ "[C_CmdBeginRenderPass cb f n]"]) auto
  qed
next
  case (PEnd cb)
  with assms end_ok [of env s R U cb] show ?thesis by auto
next
  case (PNext cb n)
  then have e: "pass_step env c s = (if supp_active cb s then s else log_call (C_CmdNextSubpass cb n) s)"
    by (simp add: shim_CmdNextSubpass_def)
  have "cb \<in> R \<union> U" "legal cs R U" "table_suffices cs U" using PNext assms(2,3) by simp_all
  with inside_ok [OF assms(1) _ _ e] show ?thesis by auto
next
  case (PDraw cb d)
  have "pass_step env c s = s \<or> pass_step env c s = (if supp_active cb s then s else log_call (C_CmdDraw cb d) s)"
    unfolding PDraw
    by (induction env "PDraw cb d" s rule: pass_step.induct)
      (auto simp: shim_CmdDraw_def shim_CmdDrawIndexed_def shim_CmdDrawIndirect_def
        shim_CmdDrawIndexedIndirect_def shim_CmdClearAttachments_def)
  then consider "pass_step env c s = s"
    | (e) "pass_step env c s = (if supp_active cb s then s else log_call (C_CmdDraw cb d) s)" by blast
  then show ?thesis
  proof cases
    case 1
    with PDraw assms show ?thesis by (intro exI [of _ R] exI [of _ U] exI [of _ "[]"]) simp
  next
    case e
    have "cb \<in> R \<union> U" "legal cs R U" "table_suffices cs U" using PDraw assms(2,3) by simp_all
    with inside_ok [OF assms(1) _ _ e] show ?thesis by auto
  qed
qed

lemma pass_run_ok:
  assumes "supp_inv env s R U" and "legal cs R U" and "table_suffices cs U"
  shows "\<exists>ds R'. calls (fold (pass_step env) cs s) = calls s @ ds \<and> drv_run ds R = Some R'"
  using assms
proof (induction cs arbitrary: s R U)
  case (Cons c cs)
  from pass_step_ok [OF Cons.prems] obtain R' U' ds where 1: "legal cs R' U'" "supp_inv env (pass_step env c s) R' U'"
    "calls (pass_step env c s) = calls s @ ds" "drv_run ds R = Some R'" "table_suffices cs U'" by blast
  from Cons.IH [OF 1(2,1,5)] obtain ds' R'' where
    "calls (fold (pass_step env) cs (pass_step env c s)) = calls s @ ds @ ds'" "drv_run ds' R' = Some R''"
    using 1(3) by auto
  with 1(4) show ?case by (intro exI [of _ "ds @ ds'"] exI [of _ R'']) (simp add: drv_run_append)
qed simp

text \<open>C2. With the guard on, a recording that is legal but for passes without a framebuffer never
  crashes the driver, as long as no more than 16 command buffers are inside such a pass at once, which is what
  the shim's table holds: the driver sees no null framebuffer, and no draw, clear, subpass change or end
  outside a pass it was asked to begin. (With the table full the next such pass is not contained.)\<close>

theorem null_framebuffer_contained:
  assumes "supp_cb s = replicate SUPP_MAX null" and "supp_last s = null" and "supp_n s = 0"
    and "guard_on env s" and "legal cs {} {}" and "table_suffices cs {}"
  shows "\<exists>ds R. calls (fold (pass_step env) cs s) = calls s @ ds \<and> drv_run ds {} = Some R"
proof (rule pass_run_ok [OF _ assms(5,6)])
  have "supp_set_of (supp_cb s) = {}" using assms(1) by (auto simp: supp_set_of_def)
  with assms show "supp_inv env s {} {}"
    by (simp add: supp_inv_def supp_wf_def keyed_replicate supp_key_def)
qed

text \<open>Without room in the table the guard is lost half-way: the begin is still dropped, but the
  pass is not remembered, so its draws reach a driver that has no pass open.\<close>

theorem full_table_leaks_draws:
  assumes "supp_wf s" and "guard_on env s" and "null \<notin> set (supp_cb s)" and "cb \<noteq> null" and "cb \<notin> set (supp_cb s)"
  shows "\<exists>ds. calls (shim_CmdDraw cb v i fv fi (shim_CmdBeginRenderPass env cb (Some null) n s)) = calls s @ ds \<and>
    drv_run ds {} = None"
proof -
  let ?s1 = "snd (prop_on env guard_name s)\<lparr>null_fb_hits := null_fb_hits (snd (prop_on env guard_name s)) + 1\<rparr>"
  have "first_index (\<lambda>x. x = null) (supp_cb ?s1) = None" using assms(3) by (simp add: first_index_None) (metis neq0_conv)
  then have e: "shim_CmdBeginRenderPass env cb (Some null) n s = ?s1"
    using guard_prop_on(1) [OF assms(2)]
    by (simp add: shim_CmdBeginRenderPass_def supp_set_def Let_def case_prod_beta flip: guard_name_def)
  have "supp_wf ?s1" using assms(1) supp_wf_cong [of ?s1 s] by simp
  then have "\<not> supp_active cb ?s1" using assms(5) by (simp add: supp_active_iff supp_set_of_def)
  moreover obtain ds where "calls (snd (prop_on env guard_name s)) = calls s @ ds" "drv_run ds {} = Some {}"
    using guard_prop_on(3) [OF assms(2), of "{}"] by blast
  ultimately show ?thesis
    unfolding e by (auto simp: shim_CmdDraw_def drv_run_append intro!: exI [of _ "ds @ [C_CmdDraw cb (Draw [v, i, fv, fi])]"])
qed


section \<open>The theorems at a concrete driver\<close>

definition vk_supp_boot :: vk_supp where
  "vk_supp_boot = vk_scratch.extend vk_scratch_boot (vk_supp.fields (replicate SUPP_MAX null) null 0 0)"

lemma boot_supp_simps [simp]:
  "supp_cb vk_supp_boot = replicate SUPP_MAX null" "supp_last vk_supp_boot = null" "supp_n vk_supp_boot = 0"
  "calls vk_supp_boot = []" "prop_cache vk_supp_boot = Map.empty"
  by (simp_all add: vk_supp_boot_def vk_scratch_boot_def vk_cache_boot_def vk_supp.defs vk_scratch.defs vk_cache.defs)

lemma boot_guard_on: "guard_on env_demo vk_supp_boot"
  by (simp add: guard_on_def env_demo_def cstr_def)

theorem null_framebuffer_contained_witness:
  "\<exists>ds R. calls (fold (pass_step env_demo) [PBegin 3 (Some 0) 0, PDraw 3 (Draw [3, 1, 0, 0]), PEnd 3,
     PBegin 3 (Some 8) 0, PDraw 3 (Draw [3, 1, 0, 0]), PEnd 3] vk_supp_boot) = ds \<and> drv_run ds {} = Some R"
  using null_framebuffer_contained [of vk_supp_boot env_demo "[PBegin 3 (Some 0) 0, PDraw 3 (Draw [3, 1, 0, 0]), PEnd 3,
     PBegin 3 (Some 8) 0, PDraw 3 (Draw [3, 1, 0, 0]), PEnd 3]"] boot_guard_on
  by (simp add: SUPP_MAX_def)

theorem full_table_leaks_draws_witness:
  "\<exists>ds. calls (shim_CmdDraw 40 3 1 0 0 (shim_CmdBeginRenderPass env_demo 40 (Some 0) 0
       (vk_supp_boot\<lparr>supp_cb := [1..<17], supp_n := 16\<rparr>))) = ds \<and> drv_run ds {} = None"
proof -
  let ?s = "vk_supp_boot\<lparr>supp_cb := [1..<17], supp_n := 16\<rparr>"
  have d: "{Suc 0..<17} - {0} = {Suc 0..<17}" by auto
  have "supp_wf ?s" by (auto simp: supp_wf_def SUPP_MAX_def keyed_def supp_key_def supp_set_of_def d)
  moreover have "guard_on env_demo ?s" using boot_guard_on by (simp add: guard_on_def)
  ultimately show ?thesis using full_table_leaks_draws [of ?s env_demo 40 3 1 0 0 0] by auto
qed

end
