(* ===== verification/Vk_Device.thy ===== *)
theory Vk_Device
  imports Vk_Suppress
begin

text \<open>
  Instances, devices and the driver's identity in \<^verbatim>\<open>vkshim.c\<close>: the extensions the shim adds and
  the filter that keeps them from the blob, \<^verbatim>\<open>vkCreateDevice\<close>, \<^verbatim>\<open>vkDestroyDevice\<close>,
  \<^verbatim>\<open>vkCreateInstance\<close>, \<^verbatim>\<open>vkEnumerateDeviceExtensionProperties\<close>, the \<^verbatim>\<open>*2KHR\<close> queries answered
  from the 1.0 entry points, and the memory-query and binding extensions. The blob's answers to the
  queries are the record \<open>phys\<close>, functions of the call history like those of \<open>env\<close>. The two-call
  idiom (a count, then a buffer) is a pair of answers: the count, and the list written for a given
  capacity.
\<close>

section \<open>Data\<close>

text \<open>An extension is its name; the spec version that goes with it in \<^verbatim>\<open>VkExtensionProperties\<close> is a
  constant of the Vulkan headers.\<close>

type_synonym ext = string

record VkPhysicalDeviceLimits =
  maxDescriptorSetSamplers :: u32
  maxDescriptorSetUniformBuffers :: u32
  maxDescriptorSetStorageBuffers :: u32
  maxDescriptorSetSampledImages :: u32
  maxDescriptorSetStorageImages :: u32
  maxDescriptorSetInputAttachments :: u32

record VkPhysicalDeviceProperties =
  apiVersion :: u32
  driverVersion :: u32
  vendorID :: u32
  deviceID :: u32
  limits :: VkPhysicalDeviceLimits

record driver_props =
  driverID :: nat
  driverName :: string
  driverInfo :: string
  conformanceVersion :: "nat list"

record id_props =
  deviceUUID :: "u8 list"
  driverUUID :: "u8 list"
  deviceNodeMask :: u32
  deviceLUIDValid :: bool
  deviceLUID :: "u8 list"

text \<open>The structures an app may chain to a query: those the shim knows, and any other.\<close>

datatype out_struct =
  DriverProperties driver_props
| IDProperties id_props
| PushDescriptorProperties u32
| Maintenance3Properties u32 u64
| DedicatedRequirements bool bool
| OtherStruct nat nat

record phys =
  q_edep_count :: "hist \<Rightarrow> VkPhysicalDevice \<Rightarrow> string option \<Rightarrow> VkResult \<times> u32"
  q_edep :: "hist \<Rightarrow> VkPhysicalDevice \<Rightarrow> string option \<Rightarrow> u32 \<Rightarrow> VkResult \<times> ext list"
  q_gpdp :: "hist \<Rightarrow> VkPhysicalDevice \<Rightarrow> VkPhysicalDeviceProperties"
  q_gpdf :: "hist \<Rightarrow> VkPhysicalDevice \<Rightarrow> nat"
  q_gpdfp :: "hist \<Rightarrow> VkPhysicalDevice \<Rightarrow> VkFormat \<Rightarrow> nat"
  q_gpdifp :: "hist \<Rightarrow> VkPhysicalDevice \<Rightarrow> nat list \<Rightarrow> VkResult \<times> nat"
  q_gpdqfp_count :: "hist \<Rightarrow> VkPhysicalDevice \<Rightarrow> u32"
  q_gpdqfp :: "hist \<Rightarrow> VkPhysicalDevice \<Rightarrow> u32 \<Rightarrow> nat list"
  q_gpdsifp_count :: "hist \<Rightarrow> VkPhysicalDevice \<Rightarrow> nat list \<Rightarrow> u32"
  q_gpdsifp :: "hist \<Rightarrow> VkPhysicalDevice \<Rightarrow> nat list \<Rightarrow> u32 \<Rightarrow> nat list"
  q_gbmr :: "hist \<Rightarrow> VkDevice \<Rightarrow> VkBuffer \<Rightarrow> VkMemoryRequirements"
  q_gismr_count :: "hist \<Rightarrow> VkDevice \<Rightarrow> VkImage \<Rightarrow> u32"
  q_gismr :: "hist \<Rightarrow> VkDevice \<Rightarrow> VkImage \<Rightarrow> u32 \<Rightarrow> nat list"

record vk_dev = vk_supp +
  identity_resolved :: bool

section \<open>The extensions the shim adds\<close>

definition shim_extra_exts :: "ext list" where
  "shim_extra_exts =
     [''VK_KHR_driver_properties'', ''VK_KHR_external_fence_capabilities'',
      ''VK_KHR_get_physical_device_properties2'']"

definition shim_mem_exts :: "ext list" where
  "shim_mem_exts =
     [''VK_KHR_get_memory_requirements2'', ''VK_KHR_bind_memory2'',
      ''VK_KHR_dedicated_allocation'', ''VK_KHR_maintenance3'']"

abbreviation (input) drvinfo :: string where "drvinfo \<equiv> ''debug.xdplus.vkdrvinfo''"
abbreviation (input) memext :: string where "memext \<equiv> ''debug.xdplus.vkmemext''"

definition shim_added_ext_count :: "env \<Rightarrow> 'a vk_dev_scheme \<Rightarrow> nat \<times> 'a vk_dev_scheme" where
  "shim_added_ext_count env s =
     (let (d, s) = prop_on env drvinfo s;
          n = (if d then length shim_extra_exts else 0);
          (m, s) = prop_on env memext s
      in (if m then n + length shim_mem_exts else n, s))"

definition shim_added_ext_at :: "env \<Rightarrow> nat \<Rightarrow> 'a vk_dev_scheme \<Rightarrow> ext option \<times> 'a vk_dev_scheme" where
  "shim_added_ext_at env i s =
     (let (d, s) = prop_on env drvinfo s in
      if d \<and> i < length shim_extra_exts then (Some (shim_extra_exts ! i), s)
      else
        let i = (if d then i - length shim_extra_exts else i);
            (m, s) = prop_on env memext s
        in if m \<and> i < length shim_mem_exts then (Some (shim_mem_exts ! i), s) else (None, s))"

fun owns_loop :: "env \<Rightarrow> string \<Rightarrow> nat list \<Rightarrow> 'a vk_dev_scheme \<Rightarrow> bool \<times> 'a vk_dev_scheme" where
  "owns_loop env name [] s = (False, s)"
| "owns_loop env name (i # is) s =
     (let (e, s) = shim_added_ext_at env i s in
      if e = Some name then (True, s) else owns_loop env name is s)"

definition shim_owns_ext :: "env \<Rightarrow> string \<Rightarrow> 'a vk_dev_scheme \<Rightarrow> bool \<times> 'a vk_dev_scheme" where
  "shim_owns_ext env name s =
     (let (n, s) = shim_added_ext_count env s in owns_loop env name [0..<n] s)"

section \<open>Devices and instances\<close>

fun keep_exts :: "env \<Rightarrow> string list \<Rightarrow> 'a vk_dev_scheme \<Rightarrow> string list \<times> 'a vk_dev_scheme" where
  "keep_exts env [] s = ([], s)"
| "keep_exts env (e # es) s =
     (let (own, s) = shim_owns_ext env e s;
          (ks, s) = keep_exts env es s
      in (if own then ks else e # ks, s))"

definition filter_exts :: "env \<Rightarrow> string list \<Rightarrow> 'a vk_dev_scheme \<Rightarrow> string list \<times> 'a vk_dev_scheme" where
  "filter_exts env exts s =
     (if exts = [] then ([], s)
      else
        let (m, s) = sys_malloc env (length exts * (long_bits env div 8)) s in
        if m then keep_exts env exts s else (exts, s))"

definition shim_CreateDevice :: "env \<Rightarrow> VkPhysicalDevice \<Rightarrow> string list \<Rightarrow> 'a vk_dev_scheme \<Rightarrow>
    (VkResult \<times> VkDevice) \<times> 'a vk_dev_scheme" where
  "shim_CreateDevice env pd exts s =
     (let (exts, s) = filter_exts env exts s;
          (r, out) = e_CreateDevice env (calls s) pd exts;
          s = log_call (C_CreateDevice pd exts) s
      in
        if r \<noteq> VK_SUCCESS then ((r, out), s)
        else
          let s = (case cache_lookup out (dev_caches s) of
                     None \<Rightarrow> s | Some i \<Rightarrow> drop_disk_cache env (Some i) False s);
              s = s\<lparr>physical_dev := pd, shim_dev := out\<rparr>;
              s = resolve_dev env out real_gpdmp s;
              s = (if has s real_gpdmp then load_mem_props env pd s else s)
          in ((r, out), s\<lparr>mem_props_loaded := has s real_gpdmp\<rparr>))"

text \<open>The scratch images of every command buffer in the table, whichever device it belongs to.\<close>

definition clear_all_scratch :: "VkDevice \<Rightarrow> 'a vk_dev_scheme \<Rightarrow> 'a vk_dev_scheme" where
  "clear_all_scratch dev s =
     fold (\<lambda>i s. if sl_cb (cb_table s ! i) \<noteq> null
             then upd_slot i (\<lambda>_. cb_scratch_zero) (fold (free_scratch_pair dev) (pairs (cb_table s ! i)) s) else s)
       [0..<length (cb_table s)] s"

definition shim_DestroyDevice :: "env \<Rightarrow> VkDevice \<Rightarrow> 'a vk_dev_scheme \<Rightarrow> 'a vk_dev_scheme" where
  "shim_DestroyDevice env dev s =
     (let (_, s) = now_ns env s;
          (_, s) = now_ns env s;
          s = drop_disk_cache env (cache_lookup dev (dev_caches s)) True s;
          (_, s) = now_ns env s;
          s = clear_all_scratch dev s;
          s = s\<lparr>img_table := map (\<lambda>e. e\<lparr>used := False\<rparr>) (img_table s)\<rparr>;
          (_, s) = now_ns env s;
          s = log_call (C_DestroyDevice dev) s
      in snd (now_ns env s))"

definition shim_CreateInstance :: "env \<Rightarrow> 'a vk_dev_scheme \<Rightarrow> (VkResult \<times> VkInstance) \<times> 'a vk_dev_scheme" where
  "shim_CreateInstance env s =
     (let (r, out) = e_CreateInstance env (calls s);
          s = log_call C_CreateInstance s
      in
        if r \<noteq> VK_SUCCESS then ((r, out), s)
        else
          let s = log_call (C_gipa out real_gpdmp) (s\<lparr>shim_instance := out\<rparr>) in
          ((r, out),
           s\<lparr>resolved := (if e_gipa env out real_gpdmp then insert real_gpdmp (resolved s)
                          else resolved s - {real_gpdmp})\<rparr>))"

section \<open>Driver identity\<close>

text \<open>\<^verbatim>\<open>resolve_identity_fns\<close> assigns some pointers only when they are NULL and the others always.\<close>

definition reassign_inst :: "env \<Rightarrow> VkInstance \<Rightarrow> string \<Rightarrow> 'a vk_dev_scheme \<Rightarrow> 'a vk_dev_scheme" where
  "reassign_inst env inst name s =
     (let s = log_call (C_gipa inst name) s in
      s\<lparr>resolved := (if e_gipa env inst name then insert name (resolved s) else resolved s - {name})\<rparr>)"

definition resolve_identity_fns :: "env \<Rightarrow> 'a vk_dev_scheme \<Rightarrow> 'a vk_dev_scheme" where
  "resolve_identity_fns env s =
     (if identity_resolved s then s
      else
        let s = s\<lparr>identity_resolved := True\<rparr>;
            i = shim_instance s;
            s = resolve_inst env i ''vkGetPhysicalDeviceProperties'' s;
            s = fold (reassign_inst env i)
                  [''vkGetPhysicalDeviceFeatures'', ''vkGetPhysicalDeviceFormatProperties'',
                   ''vkGetPhysicalDeviceImageFormatProperties'', ''vkGetPhysicalDeviceQueueFamilyProperties'',
                   ''vkGetPhysicalDeviceSparseImageFormatProperties''] s
        in resolve_inst env i real_gpdmp s)"

text \<open>\<open>append_exts\<close> is the loop that copies the shim's own extensions into what is left of the
  buffer. The driver's \<^verbatim>\<open>*count\<close> is the length of the list it wrote.\<close>

fun append_exts :: "env \<Rightarrow> nat \<Rightarrow> nat \<Rightarrow> nat \<Rightarrow> 'a vk_dev_scheme \<Rightarrow> ext list \<times> 'a vk_dev_scheme" where
  "append_exts env appended room 0 s = ([], s)"
| "append_exts env appended room (Suc n) s =
     (if appended < room then
        let (e, s) = shim_added_ext_at env appended s;
            (es, s) = append_exts env (Suc appended) room n s
        in ((case e of Some x \<Rightarrow> x | None \<Rightarrow> []) # es, s)
      else ([], s))"

definition shim_EnumerateDeviceExtensionCount :: "env \<Rightarrow> phys \<Rightarrow> VkPhysicalDevice \<Rightarrow> string option \<Rightarrow>
    'a vk_dev_scheme \<Rightarrow> (VkResult \<times> u32) \<times> 'a vk_dev_scheme" where
  "shim_EnumerateDeviceExtensionCount env ph pd layer s =
     (let (added, s) = shim_added_ext_count env s;
          (r, n) = q_edep_count ph (calls s) pd layer;
          s = log_call (C_query ''vkEnumerateDeviceExtensionProperties'' pd) s
      in
        if layer \<noteq> None \<or> added = 0 then ((r, n), s)
        else if r \<noteq> VK_SUCCESS then ((r, n), s)
        else ((VK_SUCCESS, n + of_nat added), s))"

definition shim_EnumerateDeviceExtensionProperties :: "env \<Rightarrow> phys \<Rightarrow> VkPhysicalDevice \<Rightarrow> string option \<Rightarrow>
    u32 \<Rightarrow> 'a vk_dev_scheme \<Rightarrow> (VkResult \<times> ext list) \<times> 'a vk_dev_scheme" where
  "shim_EnumerateDeviceExtensionProperties env ph pd layer cap1 s =
     (let (added, s) = shim_added_ext_count env s;
          (r, es) = q_edep ph (calls s) pd layer cap1;
          s = log_call (C_query ''vkEnumerateDeviceExtensionProperties'' pd) s
      in
        if layer \<noteq> None \<or> added = 0 then ((r, es), s)
        else if r \<noteq> VK_SUCCESS \<and> r \<noteq> VK_INCOMPLETE then ((r, es), s)
        else
          let (xs, s) = append_exts env 0 (unat cap1 - length es) added s in
          ((if r = VK_SUCCESS \<and> length xs = added then VK_SUCCESS else VK_INCOMPLETE, es @ xs), s))"

definition strncpy :: "nat \<Rightarrow> string \<Rightarrow> string" where
  "strncpy n x = take n x @ replicate (n - length x) NUL"

definition fill_driver_properties :: driver_props where
  "fill_driver_properties =
     \<lparr>driverID = 7, driverName = strncpy 256 ''PowerVR Rogue'', driverInfo = strncpy 256 ''DDK 1.9@4893595'',
      conformanceVersion = [0, 0, 0, 0]\<rparr>"

definition SHIM_MAX_PUSH_DESCRIPTORS :: u32 where "SHIM_MAX_PUSH_DESCRIPTORS = 32"

definition shim_device_uuid :: "u8 list" where
  "shim_device_uuid = [0x10, 0x10, 0x50, 0x62, 0x34, 0x20, 0x34, 0x30, 0x20, 0x32, 0x20, 0x35, 0x31, 0x58, 0x44, 0x2b]"

definition shim_driver_uuid :: "bool \<Rightarrow> u8 list" where
  "shim_driver_uuid lp64 =
     (if lp64 then
        [0x2b, 0x83, 0x3e, 0x4d, 0x8d, 0x51, 0xf6, 0x16, 0x51, 0xc1, 0x9d, 0x08, 0xef, 0x96, 0x03, 0x7c]
      else
        [0xa2, 0x57, 0x48, 0x6e, 0x2b, 0xac, 0x14, 0x93, 0x31, 0xdb, 0x48, 0x47, 0xa7, 0xce, 0xe0, 0xe6])"

definition stamp_uuid :: "u8 list \<Rightarrow> u8 list" where
  "stamp_uuid u = u[6 := ((u ! 6) AND 0x0f) OR 0x50, 8 := ((u ! 8) AND 0x3f) OR 0x80]"

definition fill_id_properties :: "bool \<Rightarrow> id_props" where
  "fill_id_properties lp64 =
     \<lparr>deviceUUID = stamp_uuid shim_device_uuid, driverUUID = stamp_uuid (shim_driver_uuid lp64),
      deviceNodeMask = 0, deviceLUIDValid = False, deviceLUID = replicate 8 0\<rparr>"

definition SHIM_DRIVER_VERSION :: u32 where
  "SHIM_DRIVER_VERSION = push_bit 22 1 OR push_bit 12 9 OR 0"

definition drv_gpdp :: "phys \<Rightarrow> VkPhysicalDevice \<Rightarrow> 'a vk_dev_scheme \<Rightarrow>
    VkPhysicalDeviceProperties \<times> 'a vk_dev_scheme" where
  "drv_gpdp ph pd s = (q_gpdp ph (calls s) pd, log_call (C_query ''vkGetPhysicalDeviceProperties'' pd) s)"

definition shim_GetPhysicalDeviceProperties :: "phys \<Rightarrow> VkPhysicalDevice \<Rightarrow> 'a vk_dev_scheme \<Rightarrow>
    VkPhysicalDeviceProperties \<times> 'a vk_dev_scheme" where
  "shim_GetPhysicalDeviceProperties ph pd s =
     (let (p, s) = drv_gpdp ph pd s in (p\<lparr>driverVersion := SHIM_DRIVER_VERSION\<rparr>, s))"

text \<open>\<^verbatim>\<open>memset\<close> to zero when the driver has no such query.\<close>

definition zero_limits :: VkPhysicalDeviceLimits where
  "zero_limits = \<lparr>maxDescriptorSetSamplers = 0, maxDescriptorSetUniformBuffers = 0,
     maxDescriptorSetStorageBuffers = 0, maxDescriptorSetSampledImages = 0, maxDescriptorSetStorageImages = 0,
     maxDescriptorSetInputAttachments = 0\<rparr>"

text \<open>\<^verbatim>\<open>if (x < m) m = x;\<close>\<close>

definition lower :: "u32 \<Rightarrow> u32 \<Rightarrow> u32" where
  "lower x m = (if x < m then x else m)"

definition fill_maintenance3_properties :: "env \<Rightarrow> phys \<Rightarrow> VkPhysicalDevice \<Rightarrow> 'a vk_dev_scheme \<Rightarrow>
    (u32 \<times> u64) \<times> 'a vk_dev_scheme" where
  "fill_maintenance3_properties env ph pd s =
     (let (l, s) = (if has s ''vkGetPhysicalDeviceProperties''
                    then let (p, s) = drv_gpdp ph pd s in (limits p, s) else (zero_limits, s));
          m = maxDescriptorSetSamplers l;
          m = lower (maxDescriptorSetUniformBuffers l) m;
          m = lower (maxDescriptorSetStorageBuffers l) m;
          m = lower (maxDescriptorSetSampledImages l) m;
          m = lower (maxDescriptorSetStorageImages l) m;
          m = lower (maxDescriptorSetInputAttachments l) m;
          (hs, s) = (if has s real_gpdmp
                     then (memoryHeaps (e_GetMemoryProperties env (calls s) pd),
                           log_call (C_GetMemoryProperties pd) s)
                     else ([], s));
          biggest = fold (\<lambda>h b. if b < h then h else b) hs 0
      in ((m, biggest), s))"

text \<open>What the chain walker does to one structure.\<close>

definition fill_struct :: "env \<Rightarrow> phys \<Rightarrow> VkPhysicalDevice \<Rightarrow> out_struct \<Rightarrow> 'a vk_dev_scheme \<Rightarrow>
    out_struct \<times> 'a vk_dev_scheme" where
  "fill_struct env ph pd x s =
     (case x of
        DriverProperties _ \<Rightarrow> (DriverProperties fill_driver_properties, s)
      | IDProperties _ \<Rightarrow> (IDProperties (fill_id_properties (e_lp64 env)), s)
      | PushDescriptorProperties v \<Rightarrow>
          let (on, s) = prop_on env ''debug.xdplus.vkpushlimit'' s in
          (PushDescriptorProperties (if on then SHIM_MAX_PUSH_DESCRIPTORS else v), s)
      | Maintenance3Properties a b \<Rightarrow>
          let (on, s) = prop_on env memext s in
          if on then let ((m, g), s) = fill_maintenance3_properties env ph pd s in (Maintenance3Properties m g, s)
          else (x, s)
      | _ \<Rightarrow> (x, s))"

fun walk_chain :: "env \<Rightarrow> phys \<Rightarrow> VkPhysicalDevice \<Rightarrow> out_struct list \<Rightarrow> 'a vk_dev_scheme \<Rightarrow>
    out_struct list \<times> 'a vk_dev_scheme" where
  "walk_chain env ph pd [] s = ([], s)"
| "walk_chain env ph pd (x # xs) s =
     (let (y, s) = fill_struct env ph pd x s; (ys, s) = walk_chain env ph pd xs s in (y # ys, s))"

definition shim_GetPhysicalDeviceProperties2KHR :: "env \<Rightarrow> phys \<Rightarrow> VkPhysicalDevice \<Rightarrow> out_struct list \<Rightarrow>
    'a vk_dev_scheme \<Rightarrow> (VkPhysicalDeviceProperties \<times> out_struct list) \<times> 'a vk_dev_scheme" where
  "shim_GetPhysicalDeviceProperties2KHR env ph pd chain s =
     (let s = resolve_identity_fns env s;
          (p, s) = drv_gpdp ph pd s;
          p = p\<lparr>driverVersion := SHIM_DRIVER_VERSION\<rparr>;
          (chain, s) = walk_chain env ph pd chain s
      in ((p, chain), s))"

definition shim_GetPhysicalDeviceFeatures2KHR :: "env \<Rightarrow> phys \<Rightarrow> VkPhysicalDevice \<Rightarrow> 'a vk_dev_scheme \<Rightarrow>
    nat \<times> 'a vk_dev_scheme" where
  "shim_GetPhysicalDeviceFeatures2KHR env ph pd s =
     (let s = resolve_identity_fns env s in
      (q_gpdf ph (calls s) pd, log_call (C_query ''vkGetPhysicalDeviceFeatures'' pd) s))"

definition shim_GetPhysicalDeviceFormatProperties2KHR :: "env \<Rightarrow> phys \<Rightarrow> VkPhysicalDevice \<Rightarrow> VkFormat \<Rightarrow>
    'a vk_dev_scheme \<Rightarrow> nat \<times> 'a vk_dev_scheme" where
  "shim_GetPhysicalDeviceFormatProperties2KHR env ph pd f s =
     (let s = resolve_identity_fns env s in
      (q_gpdfp ph (calls s) pd f, log_call (C_query ''vkGetPhysicalDeviceFormatProperties'' pd) s))"

definition shim_GetPhysicalDeviceImageFormatProperties2KHR :: "env \<Rightarrow> phys \<Rightarrow> VkPhysicalDevice \<Rightarrow> nat list \<Rightarrow>
    'a vk_dev_scheme \<Rightarrow> (VkResult \<times> nat) \<times> 'a vk_dev_scheme" where
  "shim_GetPhysicalDeviceImageFormatProperties2KHR env ph pd info s =
     (let s = resolve_identity_fns env s in
      (q_gpdifp ph (calls s) pd info, log_call (C_query ''vkGetPhysicalDeviceImageFormatProperties'' pd) s))"

text \<open>The list queries: with a capacity, through a temporary array of that many elements.\<close>

definition via_tmp :: "env \<Rightarrow> string \<Rightarrow> handle \<Rightarrow> (hist \<Rightarrow> u32 \<Rightarrow> nat list) \<Rightarrow> nat \<Rightarrow> u32 \<Rightarrow>
    'a vk_dev_scheme \<Rightarrow> nat list \<times> 'a vk_dev_scheme" where
  "via_tmp env name h q elem_size cap1 s =
     (let (m, s) = sys_malloc env (unat cap1 * elem_size) s in
      if \<not> m then ([], s)
      else (q (calls s) cap1, log_call (C_query name h) s))"

definition shim_GetPhysicalDeviceQueueFamilyProperties2KHR :: "env \<Rightarrow> phys \<Rightarrow> VkPhysicalDevice \<Rightarrow> u32 \<Rightarrow>
    'a vk_dev_scheme \<Rightarrow> nat list \<times> 'a vk_dev_scheme" where
  "shim_GetPhysicalDeviceQueueFamilyProperties2KHR env ph pd cap1 s =
     via_tmp env ''vkGetPhysicalDeviceQueueFamilyProperties'' pd (\<lambda>h. q_gpdqfp ph h pd) 24 cap1
       (resolve_identity_fns env s)"

definition shim_GetPhysicalDeviceQueueFamilyCount2KHR :: "env \<Rightarrow> phys \<Rightarrow> VkPhysicalDevice \<Rightarrow>
    'a vk_dev_scheme \<Rightarrow> u32 \<times> 'a vk_dev_scheme" where
  "shim_GetPhysicalDeviceQueueFamilyCount2KHR env ph pd s =
     (let s = resolve_identity_fns env s in
      (q_gpdqfp_count ph (calls s) pd, log_call (C_query ''vkGetPhysicalDeviceQueueFamilyProperties'' pd) s))"

definition shim_GetPhysicalDeviceMemoryProperties2KHR :: "env \<Rightarrow> VkPhysicalDevice \<Rightarrow> 'a vk_dev_scheme \<Rightarrow>
    VkPhysicalDeviceMemoryProperties \<times> 'a vk_dev_scheme" where
  "shim_GetPhysicalDeviceMemoryProperties2KHR env pd s =
     (let s = resolve_identity_fns env s in
      (e_GetMemoryProperties env (calls s) pd, log_call (C_GetMemoryProperties pd) s))"

definition shim_GetPhysicalDeviceSparseImageFormatProperties2KHR :: "env \<Rightarrow> phys \<Rightarrow> VkPhysicalDevice \<Rightarrow>
    nat list \<Rightarrow> u32 \<Rightarrow> 'a vk_dev_scheme \<Rightarrow> nat list \<times> 'a vk_dev_scheme" where
  "shim_GetPhysicalDeviceSparseImageFormatProperties2KHR env ph pd info cap1 s =
     via_tmp env ''vkGetPhysicalDeviceSparseImageFormatProperties'' pd (\<lambda>h. q_gpdsifp ph h pd info) 20 cap1
       (resolve_identity_fns env s)"

definition shim_GetPhysicalDeviceSparseImageFormatCount2KHR :: "env \<Rightarrow> phys \<Rightarrow> VkPhysicalDevice \<Rightarrow>
    nat list \<Rightarrow> 'a vk_dev_scheme \<Rightarrow> u32 \<times> 'a vk_dev_scheme" where
  "shim_GetPhysicalDeviceSparseImageFormatCount2KHR env ph pd info s =
     (let s = resolve_identity_fns env s in
      (q_gpdsifp_count ph (calls s) pd info,
       log_call (C_query ''vkGetPhysicalDeviceSparseImageFormatProperties'' pd) s))"

definition shim_GetPhysicalDeviceExternalFencePropertiesKHR :: "u32 \<times> u32 \<times> u32" where
  "shim_GetPhysicalDeviceExternalFencePropertiesKHR = (0, 0, 0)"

section \<open>Memory queries and binding\<close>

definition resolve_memext_fns :: "env \<Rightarrow> VkDevice \<Rightarrow> 'a vk_dev_scheme \<Rightarrow> 'a vk_dev_scheme" where
  "resolve_memext_fns env dev s =
     fold (resolve_dev env dev)
       [''vkGetImageMemoryRequirements'', ''vkGetBufferMemoryRequirements'',
        ''vkGetImageSparseMemoryRequirements'', ''vkBindImageMemory'', ''vkBindBufferMemory''] s"

definition fill_dedicated_requirements :: "out_struct list \<Rightarrow> out_struct list" where
  "fill_dedicated_requirements chain =
     map (\<lambda>x. case x of DedicatedRequirements _ _ \<Rightarrow> DedicatedRequirements False False | _ \<Rightarrow> x) chain"

definition shim_GetImageMemoryRequirements2KHR :: "env \<Rightarrow> VkDevice \<Rightarrow> VkImage \<Rightarrow> out_struct list \<Rightarrow>
    'a vk_dev_scheme \<Rightarrow> (VkMemoryRequirements \<times> out_struct list) \<times> 'a vk_dev_scheme" where
  "shim_GetImageMemoryRequirements2KHR env dev i chain s =
     (let s = resolve_memext_fns env dev s in
      ((e_GetImageMemoryRequirements env (calls s) dev i, fill_dedicated_requirements chain),
       log_call (C_GetImageMemoryRequirements dev i) s))"

definition shim_GetBufferMemoryRequirements2KHR :: "env \<Rightarrow> phys \<Rightarrow> VkDevice \<Rightarrow> VkBuffer \<Rightarrow> out_struct list \<Rightarrow>
    'a vk_dev_scheme \<Rightarrow> (VkMemoryRequirements \<times> out_struct list) \<times> 'a vk_dev_scheme" where
  "shim_GetBufferMemoryRequirements2KHR env ph dev b chain s =
     (let s = resolve_memext_fns env dev s in
      ((q_gbmr ph (calls s) dev b, fill_dedicated_requirements chain),
       log_call (C_dev_query ''vkGetBufferMemoryRequirements'' dev b) s))"

definition shim_GetImageSparseMemoryRequirements2KHR :: "env \<Rightarrow> phys \<Rightarrow> VkDevice \<Rightarrow> VkImage \<Rightarrow> u32 \<Rightarrow>
    'a vk_dev_scheme \<Rightarrow> nat list \<times> 'a vk_dev_scheme" where
  "shim_GetImageSparseMemoryRequirements2KHR env ph dev i cap1 s =
     via_tmp env ''vkGetImageSparseMemoryRequirements'' dev (\<lambda>h. q_gismr ph h dev i) 48 cap1
       (resolve_memext_fns env dev s)"

definition shim_GetImageSparseMemoryCount2KHR :: "env \<Rightarrow> phys \<Rightarrow> VkDevice \<Rightarrow> VkImage \<Rightarrow>
    'a vk_dev_scheme \<Rightarrow> u32 \<times> 'a vk_dev_scheme" where
  "shim_GetImageSparseMemoryCount2KHR env ph dev i s =
     (let s = resolve_memext_fns env dev s in
      (q_gismr_count ph (calls s) dev i, log_call (C_query ''vkGetImageSparseMemoryRequirements'' dev) s))"

record bind_info =
  bi_object :: handle
  bi_memory :: VkDeviceMemory
  bi_offset :: u64

fun bind_loop :: "env \<Rightarrow> (VkDevice \<Rightarrow> handle \<Rightarrow> VkDeviceMemory \<Rightarrow> u64 \<Rightarrow> vk_call) \<Rightarrow> VkDevice \<Rightarrow>
    bind_info list \<Rightarrow> 'a vk_dev_scheme \<Rightarrow> VkResult \<times> 'a vk_dev_scheme" where
  "bind_loop env mk dev [] s = (VK_SUCCESS, s)"
| "bind_loop env mk dev (b # bs) s =
     (let r = e_BindMemory env (calls s) dev (bi_object b) (bi_memory b) (bi_offset b);
          s = log_call (mk dev (bi_object b) (bi_memory b) (bi_offset b)) s
      in if r \<noteq> VK_SUCCESS then (r, s) else bind_loop env mk dev bs s)"

definition shim_BindBufferMemory2KHR :: "env \<Rightarrow> VkDevice \<Rightarrow> bind_info list \<Rightarrow> 'a vk_dev_scheme \<Rightarrow>
    VkResult \<times> 'a vk_dev_scheme" where
  "shim_BindBufferMemory2KHR env dev infos s =
     bind_loop env C_BindBufferMemory dev infos (resolve_memext_fns env dev s)"

definition shim_BindImageMemory2KHR :: "env \<Rightarrow> VkDevice \<Rightarrow> bind_info list \<Rightarrow> 'a vk_dev_scheme \<Rightarrow>
    VkResult \<times> 'a vk_dev_scheme" where
  "shim_BindImageMemory2KHR env dev infos s =
     bind_loop env C_BindImageMemory dev infos (resolve_memext_fns env dev s)"

definition shim_GetDescriptorSetLayoutSupportKHR :: "env \<Rightarrow> phys \<Rightarrow> u32 list \<Rightarrow> 'a vk_dev_scheme \<Rightarrow>
    bool \<times> 'a vk_dev_scheme" where
  "shim_GetDescriptorSetLayoutSupportKHR env ph bindings s =
     (let s = resolve_identity_fns env s;
          ((m, _), s) = fill_maintenance3_properties env ph (physical_dev s) s;
          total = fold (\<lambda>c t. t + ucast c) bindings (0 :: u64)
      in (total \<le> ucast m, s))"

section \<open>The extensions the shim owns\<close>

definition own_exts :: "bool \<Rightarrow> bool \<Rightarrow> ext list" where
  "own_exts d m = (if d then shim_extra_exts else []) @ (if m then shim_mem_exts else [])"

definition gates_read :: "'a vk_dev_scheme \<Rightarrow> bool \<Rightarrow> bool \<Rightarrow> bool" where
  "gates_read s d m \<longleftrightarrow> prop_cache s drvinfo = Some d \<and> prop_cache s memext = Some m"

lemma added_count: "gates_read s d m \<Longrightarrow> shim_added_ext_count env s = (length (own_exts d m), s)"
  by (simp add: shim_added_ext_count_def gates_read_def own_exts_def)

lemma added_at:
  "gates_read s d m \<Longrightarrow>
     shim_added_ext_at env i s = (if i < length (own_exts d m) then Some (own_exts d m ! i) else None, s)"
  by (auto simp: shim_added_ext_at_def gates_read_def own_exts_def nth_append Let_def)

text \<open>The first look at the extensions reads both gates.\<close>

lemma count_reads_gates: "\<exists>d m. gates_read (snd (shim_added_ext_count env s)) d m"
proof -
  let ?s1 = "snd (prop_on env drvinfo s)"
  have 1: "prop_cache ?s1 drvinfo = Some (fst (prop_on env drvinfo s))"
    using prop_on_cached [of env drvinfo s] by (metis prod.collapse)
  have 2: "prop_cache (snd (prop_on env memext ?s1)) memext = Some (fst (prop_on env memext ?s1))"
    using prop_on_cached [of env memext ?s1] by (metis prod.collapse)
  have "prop_cache (snd (prop_on env memext ?s1)) drvinfo = prop_cache ?s1 drvinfo"
    by (simp add: prop_on_def sys_prop_get_def Let_def split: option.splits)
  with 1 2 show ?thesis
    by (auto simp: gates_read_def shim_added_ext_count_def Let_def case_prod_beta)
qed

lemma owns_loop_gates:
  "gates_read s d m \<Longrightarrow> owns_loop env name is s = (\<exists>i \<in> set is. i < length (own_exts d m) \<and> own_exts d m ! i = name, s)"
  by (induction "is") (auto simp: added_at)

lemma owns_ext_gates: "gates_read s d m \<Longrightarrow> shim_owns_ext env name s = (name \<in> set (own_exts d m), s)"
  by (auto simp: shim_owns_ext_def added_count owns_loop_gates in_set_conv_nth)

lemma keep_exts_gates:
  "gates_read s d m \<Longrightarrow> keep_exts env es s = (filter (\<lambda>e. e \<notin> set (own_exts d m)) es, s)"
  by (induction es) (simp_all add: owns_ext_gates)

lemma append_exts_gates:
  "gates_read s d m \<Longrightarrow> a + n = length (own_exts d m) \<Longrightarrow>
     append_exts env a room n s = (take (room - a) (drop a (own_exts d m)), s)"
proof (induction n arbitrary: a)
  case (Suc n)
  then have a: "a < length (own_exts d m)" by simp
  show ?case
  proof (cases "a < room")
    case True
    then have "room - a = Suc (room - Suc a)" by simp
    with a True Suc show ?thesis
      by (simp add: added_at Cons_nth_drop_Suc [symmetric])
  qed simp
qed simp

text \<open>A list query that follows the two-call protocol for the list \<open>D\<close>.\<close>

definition two_phase :: "(u32 \<Rightarrow> VkResult \<times> ext list) \<Rightarrow> ext list \<Rightarrow> bool" where
  "two_phase q D \<longleftrightarrow>
     (\<forall>c. q c = (if length D \<le> unat c then VK_SUCCESS else VK_INCOMPLETE, take (unat c) D))"

text \<open>C29. If the blob follows the two-call protocol for its extensions \<open>D\<close>, the shim follows it for
  \<open>D\<close> with its own extensions appended: a buffer that is large enough gets the whole list and
  \<^verbatim>\<open>VK_SUCCESS\<close>, a smaller one gets as much as fits and \<^verbatim>\<open>VK_INCOMPLETE\<close>, and nothing is written
  beyond the capacity.\<close>

theorem enumerate_two_phase:
  assumes "gates_read s d m" and "\<And>h. two_phase (q_edep ph h pd None) D"
  shows "two_phase (\<lambda>c. fst (shim_EnumerateDeviceExtensionProperties env ph pd None c s)) (D @ own_exts d m)"
  unfolding two_phase_def
proof
  fix c
  let ?s = "log_call (C_query ''vkEnumerateDeviceExtensionProperties'' pd) s"
  have g: "gates_read ?s d m" using assms(1) by (simp add: gates_read_def)
  have q: "q_edep ph h pd None c = (if length D \<le> unat c then VK_SUCCESS else VK_INCOMPLETE, take (unat c) D)" for h
    using assms(2) by (simp add: two_phase_def)
  show "fst (shim_EnumerateDeviceExtensionProperties env ph pd None c s) =
     (if length (D @ own_exts d m) \<le> unat c then VK_SUCCESS else VK_INCOMPLETE, take (unat c) (D @ own_exts d m))"
    using append_exts_gates [OF g, of 0 "length (own_exts d m)" env "unat c - min (length D) (unat c)"]
    by (auto simp: shim_EnumerateDeviceExtensionProperties_def added_count [OF assms(1)] q Let_def min_def)
qed

lemma enumerate_count:
  assumes "gates_read s d m" and "\<And>h. q_edep_count ph h pd None = (VK_SUCCESS, of_nat (length D))"
  shows "fst (shim_EnumerateDeviceExtensionCount env ph pd None s) = (VK_SUCCESS, of_nat (length (D @ own_exts d m)))"
  using assms by (simp add: shim_EnumerateDeviceExtensionCount_def added_count Let_def)

section \<open>Creating a device\<close>

fun is_create_dev :: "vk_call \<Rightarrow> bool" where
  "is_create_dev (C_CreateDevice _ _) = True"
| "is_create_dev _ = False"

lemma filter_create_log: "\<not> is_create_dev c \<Longrightarrow> filter is_create_dev (calls (log_call c s)) = filter is_create_dev (calls s)"
  by simp

text \<open>The blob is asked once for a device, with exactly the app's extensions that it could have
  enumerated itself: every name the shim advertises is withheld, every other name is passed on in
  the app's order.\<close>

theorem create_device_keeps_own_exts:
  assumes "gates_read s d m" and "\<And>h n. e_malloc env h n"
  shows "filter is_create_dev (calls (snd (shim_CreateDevice env pd exts s))) =
    filter is_create_dev (calls s) @ [C_CreateDevice pd (filter (\<lambda>e. e \<notin> set (own_exts d m)) exts)]"
proof -
  have g: "gates_read (log_call c s) d m" for c using assms(1) by (simp add: gates_read_def)
  have f: "fst (filter_exts env exts s) = filter (\<lambda>e. e \<notin> set (own_exts d m)) exts"
     "filter is_create_dev (calls (snd (filter_exts env exts s))) = filter is_create_dev (calls s)"
    using assms(2) keep_exts_gates [OF g] by (auto simp: filter_exts_def sys_malloc_def Let_def simp del: log_call_def) 
       (auto simp: filter_exts_def sys_malloc_def Let_def)
  show ?thesis
    using f by (simp add: shim_CreateDevice_def Let_def case_prod_beta drop_disk_cache_def resolve_dev_def load_mem_props_def split: option.splits)
qed


section \<open>Descriptor-set layouts\<close>

definition limit_list :: "VkPhysicalDeviceLimits \<Rightarrow> u32 list" where
  "limit_list l = [maxDescriptorSetSamplers l, maxDescriptorSetUniformBuffers l, maxDescriptorSetStorageBuffers l,
     maxDescriptorSetSampledImages l, maxDescriptorSetStorageImages l, maxDescriptorSetInputAttachments l]"

definition limits_seen :: "phys \<Rightarrow> VkPhysicalDevice \<Rightarrow> 'a vk_dev_scheme \<Rightarrow> VkPhysicalDeviceLimits" where
  "limits_seen ph pd s =
     (if has s ''vkGetPhysicalDeviceProperties'' then limits (q_gpdp ph (calls s) pd) else zero_limits)"

lemma le_lower: "x \<le> lower a m \<longleftrightarrow> x \<le> a \<and> x \<le> m"
  by (auto simp: lower_def)

lemma maintenance3_le:
  "x \<le> fst (fst (fill_maintenance3_properties env ph pd s)) \<longleftrightarrow> (\<forall>l \<in> set (limit_list (limits_seen ph pd s)). x \<le> l)"
  by (auto simp: fill_maintenance3_properties_def limits_seen_def limit_list_def drv_gpdp_def Let_def case_prod_beta le_lower)

lemma unat_ucast_64: "unat (ucast (b :: u32) :: u64) = unat b"
proof -
  have "unat b < 2 ^ 32" using unsigned_less [of b] by simp
  then have "unat b < 2 ^ 64" by simp
  then show ?thesis by (simp add: unsigned_ucast_eq take_bit_nat_eq_self)
qed

lemma fold_total:
  "unat t + sum_list (map unat bs) < 2 ^ 64 \<Longrightarrow>
     unat (fold (\<lambda>c t. t + ucast c) bs (t :: u64)) = unat t + sum_list (map unat (bs :: u32 list))"
proof (induction bs arbitrary: t)
  case (Cons b bs)
  then have "unat t + unat b < 2 ^ 64" by simp
  then have "unat (t + ucast b) = unat t + unat b"
    by (simp add: unat_add_lem [THEN iffD1] unat_ucast_64)
  with Cons show ?case by simp
qed simp

lemma sum_unat_bound: "sum_list (map unat bs) \<le> length bs * (2 ^ 32 - 1)" for bs :: "u32 list"
proof (induction bs)
  case (Cons b bs)
  have "unat b < 2 ^ 32" using unsigned_less [of b] by simp
  then have "unat b \<le> 2 ^ 32 - 1" by simp
  with Cons show ?case by simp
qed simp

text \<open>The answer to \<^verbatim>\<open>vkGetDescriptorSetLayoutSupport\<close> is yes exactly when the total number of
  descriptors is within every per-type limit the driver reports; the 64-bit sum of the 32-bit
  counts does not overflow.\<close>

theorem layout_support_exact:
  assumes "length bindings < 2 ^ 32"
  shows "fst (shim_GetDescriptorSetLayoutSupportKHR env ph bindings s) \<longleftrightarrow>
    (\<forall>l \<in> set (limit_list (limits_seen ph (physical_dev (resolve_identity_fns env s)) (resolve_identity_fns env s))).
       sum_list (map unat bindings) \<le> unat l)"
proof -
  let ?s = "resolve_identity_fns env s"
  let ?m = "fst (fst (fill_maintenance3_properties env ph (physical_dev ?s) ?s))"
  have s: "sum_list (map unat bindings) < 2 ^ 64"
  proof -
    have "sum_list (map unat bindings) \<le> length bindings * (2 ^ 32 - 1)" by (rule sum_unat_bound)
    also have "\<dots> \<le> 2 ^ 32 * (2 ^ 32 - 1)" using assms by (intro mult_right_mono) simp_all
    also have "\<dots> < 2 ^ 64" by simp
    finally show ?thesis .
  qed
  have "fst (shim_GetDescriptorSetLayoutSupportKHR env ph bindings s) \<longleftrightarrow>
      fold (\<lambda>c t. t + ucast c) bindings 0 \<le> (ucast ?m :: u64)"
    by (simp add: shim_GetDescriptorSetLayoutSupportKHR_def Let_def case_prod_beta)
  also have "\<dots> \<longleftrightarrow> sum_list (map unat bindings) \<le> unat ?m"
    using fold_total [of 0 bindings] s by (simp add: word_le_nat_alt unat_ucast_64)
  also have "\<dots> \<longleftrightarrow> (\<forall>l \<in> set (limit_list (limits_seen ph (physical_dev ?s) ?s)). sum_list (map unat bindings) \<le> unat l)"
  proof (cases "sum_list (map unat bindings) < 2 ^ 32")
    case True
    let ?x = "of_nat (sum_list (map unat bindings)) :: u32"
    have x: "unat ?x = sum_list (map unat bindings)" using True by (simp add: unat_of_nat take_bit_nat_eq_self)
    show ?thesis
      using maintenance3_le [of ?x env ph "physical_dev ?s" ?s] unfolding word_le_nat_alt x .
  next
    case False
    have "\<not> sum_list (map unat bindings) \<le> unat w" for w :: u32
    proof -
      have "unat w < 2 ^ 32" using unsigned_less [of w] by simp
      with False show ?thesis by simp
    qed
    then show ?thesis by (auto simp: limit_list_def)
  qed
  finally show ?thesis .
qed

section \<open>Binding\<close>

lemma bind_loop_calls:
  "\<exists>k \<le> length bs. calls (snd (bind_loop env mk dev bs s)) =
       calls s @ map (\<lambda>b. mk dev (bi_object b) (bi_memory b) (bi_offset b)) (take k bs) \<and>
     (fst (bind_loop env mk dev bs s) = VK_SUCCESS \<longrightarrow> k = length bs)"
proof (induction bs arbitrary: s)
  case (Cons b bs)
  let ?r = "e_BindMemory env (calls s) dev (bi_object b) (bi_memory b) (bi_offset b)"
  let ?s = "log_call (mk dev (bi_object b) (bi_memory b) (bi_offset b)) s"
  show ?case
  proof (cases "?r = VK_SUCCESS")
    case True
    from Cons.IH [of ?s] obtain k where k: "k \<le> length bs"
      "calls (snd (bind_loop env mk dev bs ?s)) =
       calls ?s @ map (\<lambda>b. mk dev (bi_object b) (bi_memory b) (bi_offset b)) (take k bs)"
      "fst (bind_loop env mk dev bs ?s) = VK_SUCCESS \<longrightarrow> k = length bs" by blast
    with True show ?thesis by (intro exI [of _ "Suc k"]) simp
  next
    case False
    then show ?thesis by (intro exI [of _ 1]) simp
  qed
qed simp

text \<open>Binding several images makes the single binds in order and stops at the first that fails,
  whose result is returned; success means that all were made.\<close>

theorem bind_image_memory2_prefix:
  "\<exists>k \<le> length bs. calls (snd (shim_BindImageMemory2KHR env dev bs s)) = calls (resolve_memext_fns env dev s) @
       map (\<lambda>b. C_BindImageMemory dev (bi_object b) (bi_memory b) (bi_offset b)) (take k bs) \<and>
     (k = length bs \<or> fst (shim_BindImageMemory2KHR env dev bs s) \<noteq> VK_SUCCESS)"
  using bind_loop_calls [of bs env C_BindImageMemory dev "resolve_memext_fns env dev s"]
  unfolding shim_BindImageMemory2KHR_def by blast

section \<open>Destroying a device\<close>

lemma clear_all_table:
  "cb_table (clear_all_scratch dev s) = map (\<lambda>e. if sl_cb e \<noteq> null then cb_scratch_zero else e) (cb_table s)"
  unfolding clear_all_scratch_def
  by (rule fold_index_update) (simp add: fold_free_scratch_pair)


text \<open>The releases of every slot in use, all on the device that is being destroyed.\<close>

lemma clear_all_calls:
  "calls (clear_all_scratch dev s) = calls s @
     concat (map (\<lambda>e. if sl_cb e \<noteq> null then concat (map (release_calls dev) (pairs e)) else []) (cb_table s))"
  unfolding clear_all_scratch_def
  by (rule fold_index_log [where h = "\<lambda>_. cb_scratch_zero"]) (simp_all add: fold_free_scratch_pair)

text \<open>Destroying a device leaves no command buffer and no image in the shim's tables, so that no
  handle of the dead device can be found under a recycled address.\<close>

theorem destroy_device_forgets:
  fixes s :: "'a vk_dev_scheme"
  shows
  "(\<forall>e \<in> set (cb_table (shim_DestroyDevice env dev s)). sl_cb e = null) \<and>
   (\<forall>i. find_img i (img_table (shim_DestroyDevice env dev s)) = None)"
proof -
  have "\<exists>t :: 'a vk_dev_scheme. cb_table (shim_DestroyDevice env dev s) = cb_table (clear_all_scratch dev t)"
    by (simp add: shim_DestroyDevice_def now_ns_def Let_def) (rule exI, rule refl)
  moreover have "\<exists>tab. img_table (shim_DestroyDevice env dev s) = map (\<lambda>e. e\<lparr>used := False\<rparr>) tab"
    by (simp add: shim_DestroyDevice_def now_ns_def Let_def) (rule exI, rule refl)
  ultimately show ?thesis
    by (auto simp: clear_all_table cb_scratch_zero_def find_img_entry entry_of_None)
qed


lemma upd_cache_cb [simp]: "cb_table (upd_cache i f s) = cb_table s"
  by (simp add: upd_cache_def)

lemma os_cb_frame [simp]:
  "cb_table (snd (now_ns env s)) = cb_table s"
  "cb_table (snd (sys_malloc env n s)) = cb_table s"
  "cb_table (snd (sys_prop_get env p s)) = cb_table s"
  "cb_table (snd (os_unlink env p s)) = cb_table s"
  "cb_table (snd (os_open_wr env p s)) = cb_table s"
  "cb_table (snd (os_write env p d s)) = cb_table s"
  "cb_table (snd (os_close env p s)) = cb_table s"
  "cb_table (snd (os_rename env p q s)) = cb_table s"
  "cb_table (snd (cap_bytes env p n s)) = cb_table s"
  by (simp_all add: os_defs cap_bytes_def Let_def)

lemma cache_cb_frame [simp]:
  "cb_table (write_cache_file env i d s) = cb_table s"
  "cb_table (commit_cache env i n now s) = cb_table s"
  by (simp_all add: write_cache_file_def commit_cache_def Let_def case_prod_beta)

lemma fold_dpc_cb [simp]: "cb_table (fold (drv_dpc dev) ps s) = cb_table s"
  by (induction ps arbitrary: s) (simp_all add: drv_dpc_def)

lemma drv_cb_frame [simp]:
  "cb_table (drv_mpc dev pc ps s) = cb_table s"
  "cb_table (drv_dpc dev pc s) = cb_table s"
  by (simp_all add: drv_mpc_def drv_dpc_def)

lemma save_cb_frame [simp]: "cb_table (save_disk_cache env c force s) = cb_table s"
  unfolding save_disk_cache_def Let_def case_prod_beta
  by (simp split: option.split)

lemma drain_cb_frame [simp]: "cb_table (drain_pending c s) = cb_table s"
  unfolding drain_pending_def Let_def
  by (simp split: option.split)

lemma drop_cb_frame [simp]: "cb_table (drop_disk_cache env c alive s) = cb_table s"
  unfolding drop_disk_cache_def Let_def
  by (simp split: option.split)

lemma calls_now: "calls (snd (now_ns env s)) = calls s @ [C_now]"
  by (simp add: now_ns_def)

lemma destroy_device_calls:
  fixes s :: "'a vk_dev_scheme"
  shows "\<exists>a b. calls (shim_DestroyDevice env dev s) = a @
     concat (map (\<lambda>e. if sl_cb e \<noteq> null then concat (map (release_calls dev) (pairs e)) else []) (cb_table s)) @ b"
proof -
  define s0 where "s0 = snd (now_ns env (snd (now_ns env s)))"
  define s1 where "s1 = snd (now_ns env (drop_disk_cache env (cache_lookup dev (dev_caches s0)) True s0))"
  have cb: "cb_table s1 = cb_table s" by (simp add: s0_def s1_def)
  have "calls (shim_DestroyDevice env dev s) = calls (clear_all_scratch dev s1) @ [C_now, C_DestroyDevice dev, C_now]"
    unfolding shim_DestroyDevice_def Let_def case_prod_beta s0_def [symmetric] s1_def [symmetric]
    by (simp add: calls_now)
  then show ?thesis unfolding clear_all_calls cb append_assoc by blast
qed

text \<open>The scratch images of every command buffer are released on the device that is being
  destroyed, those of command buffers that belong to another device included.\<close>

theorem destroy_device_frees_foreign:
  assumes "e \<in> set (cb_table s)" and "sl_cb e \<noteq> null" and "p \<in> set (pairs e)" and "src_img p \<noteq> null"
    and "sl_dev e \<noteq> dev"
  shows "C_DestroyImage dev (src_img p) \<in> set (calls (shim_DestroyDevice env dev s))"
proof -
  have "C_DestroyImage dev (src_img p) \<in> set (release_calls dev p)" using assms(4) by (simp add: release_calls_def)
  then have "C_DestroyImage dev (src_img p) \<in> set (concat (map (\<lambda>e. if sl_cb e \<noteq> null
      then concat (map (release_calls dev) (pairs e)) else []) (cb_table s)))"
    using assms(1-3) by auto
  moreover obtain a b where "calls (shim_DestroyDevice env dev s) = a @ concat (map (\<lambda>e. if sl_cb e \<noteq> null
      then concat (map (release_calls dev) (pairs e)) else []) (cb_table s)) @ b"
    using destroy_device_calls [of env dev s] by blast
  ultimately show ?thesis by (simp only: set_append Un_iff simp_thms)
qed

section \<open>UUIDs\<close>

text \<open>The reported UUIDs are well-formed name-based ones: version 5 and the RFC 4122 variant in bytes
  6 and 8 of 16.\<close>

lemma uuid_well_formed:
  assumes "u \<in> {deviceUUID (fill_id_properties lp64), driverUUID (fill_id_properties lp64)}"
  shows "length u = 16 \<and> (u ! 6) AND 0xf0 = 0x50 \<and> (u ! 8) AND 0xc0 = 0x80"
  using assms by (auto simp: fill_id_properties_def stamp_uuid_def shim_device_uuid_def shim_driver_uuid_def)

section \<open>The theorems at a concrete driver\<close>

definition vk_dev_boot :: vk_dev where
  "vk_dev_boot = vk_supp.extend vk_supp_boot (vk_dev.fields False)"

lemma boot_dev_simps [simp]: "cb_table vk_dev_boot = cb_empty" "calls vk_dev_boot = []"
  by (simp_all add: vk_dev_boot_def vk_supp_boot_def vk_scratch_boot_def vk_cache_boot_def vk_dev.defs vk_supp.defs
      vk_scratch.defs vk_cache.defs)

definition demo_exts :: "ext list" where "demo_exts = [''VK_KHR_swapchain'', ''VK_KHR_push_descriptor'']"

definition demo_limits :: VkPhysicalDeviceLimits where
  "demo_limits = \<lparr>maxDescriptorSetSamplers = 96, maxDescriptorSetUniformBuffers = 72,
     maxDescriptorSetStorageBuffers = 24, maxDescriptorSetSampledImages = 96, maxDescriptorSetStorageImages = 24,
     maxDescriptorSetInputAttachments = 8\<rparr>"

definition phys_demo :: phys where
  "phys_demo = \<lparr>q_edep_count = (\<lambda>_ _ _. (VK_SUCCESS, 2)),
     q_edep = (\<lambda>_ _ _ c. (if 2 \<le> unat c then VK_SUCCESS else VK_INCOMPLETE, take (unat c) demo_exts)),
     q_gpdp = (\<lambda>_ _. \<lparr>apiVersion = 0, driverVersion = 4893595, vendorID = 0x1010, deviceID = 0x6250, limits = demo_limits\<rparr>),
     q_gpdf = (\<lambda>_ _. 0), q_gpdfp = (\<lambda>_ _ _. 0), q_gpdifp = (\<lambda>_ _ _. (VK_SUCCESS, 0)),
     q_gpdqfp_count = (\<lambda>_ _. 0), q_gpdqfp = (\<lambda>_ _ _. []), q_gpdsifp_count = (\<lambda>_ _ _. 0), q_gpdsifp = (\<lambda>_ _ _ _. []),
     q_gbmr = (\<lambda>_ _ _. \<lparr>req_size = 0, memoryTypeBits = 0\<rparr>), q_gismr_count = (\<lambda>_ _ _. 0), q_gismr = (\<lambda>_ _ _ _. [])\<rparr>"

definition demo_gated :: vk_dev where
  "demo_gated = vk_dev_boot\<lparr>prop_cache := [drvinfo \<mapsto> True, memext \<mapsto> True]\<rparr>"

lemma demo_gates: "gates_read demo_gated True True"
  by (simp add: gates_read_def demo_gated_def)

lemma demo_own: "length (own_exts True True) = 7"
  by (simp add: own_exts_def shim_extra_exts_def shim_mem_exts_def)

theorem enumerate_two_phase_witness:
  "fst (shim_EnumerateDeviceExtensionProperties env_demo phys_demo 4 None 9 demo_gated) =
     (VK_SUCCESS, demo_exts @ own_exts True True)"
proof -
  have "two_phase (q_edep phys_demo h 4 None) demo_exts" for h
    by (simp add: two_phase_def phys_demo_def demo_exts_def)
  from enumerate_two_phase [where env = env_demo and ph = phys_demo and pd = 4, OF demo_gates this]
  show ?thesis by (simp add: two_phase_def demo_own) (simp add: demo_exts_def)
qed

theorem create_device_keeps_own_exts_witness:
  "filter is_create_dev (calls (snd (shim_CreateDevice env_demo 4 [''VK_KHR_swapchain'', ''VK_KHR_maintenance3''] demo_gated))) =
     [C_CreateDevice 4 [''VK_KHR_swapchain'']]"
proof -
  have "filter (\<lambda>e. e \<notin> set (own_exts True True)) [''VK_KHR_swapchain'', ''VK_KHR_maintenance3''] = [''VK_KHR_swapchain'']"
    by (simp add: own_exts_def shim_extra_exts_def shim_mem_exts_def)
  moreover have "calls demo_gated = []" by (simp add: demo_gated_def)
  moreover have "e_malloc env_demo h n" for h n by (simp add: env_demo_def)
  ultimately show ?thesis
    using create_device_keeps_own_exts [OF demo_gates, of env_demo 4 "[''VK_KHR_swapchain'', ''VK_KHR_maintenance3'']"]
    by simp
qed

theorem layout_support_exact_witness:
  "fst (shim_GetDescriptorSetLayoutSupportKHR env_demo phys_demo [4, 5] demo_gated) = False"
proof -
  have "has (resolve_identity_fns env_demo demo_gated) ''vkGetPhysicalDeviceProperties''"
    by (simp add: resolve_identity_fns_def demo_gated_def vk_dev_boot_def vk_supp_boot_def vk_scratch_boot_def
        vk_cache_boot_def vk_dev.defs vk_supp.defs vk_scratch.defs vk_cache.defs resolve_inst_def
        reassign_inst_def Let_def env_demo_def)
  then have "limits_seen phys_demo pd (resolve_identity_fns env_demo demo_gated) = demo_limits" for pd
    by (simp add: limits_seen_def phys_demo_def)
  then show ?thesis
    using layout_support_exact [of "[4, 5]" env_demo phys_demo demo_gated] by (simp add: limit_list_def demo_limits_def)
qed

theorem destroy_device_frees_foreign_witness:
  "C_DestroyImage 6 11 \<in> set (calls (shim_DestroyDevice env_demo 6 (vk_dev_boot\<lparr>cb_table := cb_empty[0 := demo_slot]\<rparr>)))"
proof -
  have "demo_slot \<in> set (cb_empty[0 := demo_slot])"
    by (rule set_update_memI) (simp add: cb_empty_def CB_TABLE_MAX_def)
  then show ?thesis
    using destroy_device_frees_foreign [of demo_slot "vk_dev_boot\<lparr>cb_table := cb_empty[0 := demo_slot]\<rparr>"
        "hd (pairs demo_slot)" 6 env_demo]
    by (simp add: demo_slot_def)
qed

end
