(* ===== verification/Vk_ProcAddr.thy ===== *)
theory Vk_ProcAddr
  imports Vk_Device
begin

text \<open>
  The two lookups of \<^verbatim>\<open>vkshim.c\<close> through which the loader gets every entry point
  (\<^verbatim>\<open>vkGetDeviceProcAddr\<close>, \<^verbatim>\<open>vkGetInstanceProcAddr\<close>), with the fallback to the \<^verbatim>\<open>KHR\<close> names, and
  the hwvulkan HAL module: loading the vendor blob and opening the device.
\<close>

section \<open>Entry points\<close>

text \<open>A function pointer handed to the loader: a function of the shim, or the blob's entry point of
  the given name; \<open>None\<close> is \<^verbatim>\<open>NULL\<close>.\<close>

datatype proc = Shim string | Blob string

definition khr_name :: "string \<Rightarrow> nat \<Rightarrow> string option" where
  "khr_name name n =
     (let l = length name in
      if n \<le> l + 4 then None
      else if l < 3 \<or> name ! (l - 1) \<noteq> CHR ''2'' then None
      else Some (name @ ''KHR''))"

text \<open>The name tests of the three lookup functions, as tables of (name, shim function). Those of
  \<open>dev_hooks\<close> and \<open>inst_hooks\<close> are answered only if the blob has the function too.\<close>

definition memext_procs :: "(string \<times> string) list" where
  "memext_procs =
    [(''vkGetImageMemoryRequirements2KHR'', ''shim_GetImageMemoryRequirements2KHR''),
     (''vkGetImageMemoryRequirements2'', ''shim_GetImageMemoryRequirements2KHR''),
     (''vkGetBufferMemoryRequirements2KHR'', ''shim_GetBufferMemoryRequirements2KHR''),
     (''vkGetBufferMemoryRequirements2'', ''shim_GetBufferMemoryRequirements2KHR''),
     (''vkGetImageSparseMemoryRequirements2KHR'', ''shim_GetImageSparseMemoryRequirements2KHR''),
     (''vkGetImageSparseMemoryRequirements2'', ''shim_GetImageSparseMemoryRequirements2KHR''),
     (''vkBindBufferMemory2KHR'', ''shim_BindBufferMemory2KHR''),
     (''vkBindBufferMemory2'', ''shim_BindBufferMemory2KHR''),
     (''vkBindImageMemory2KHR'', ''shim_BindImageMemory2KHR''),
     (''vkBindImageMemory2'', ''shim_BindImageMemory2KHR''),
     (''vkGetDescriptorSetLayoutSupportKHR'', ''shim_GetDescriptorSetLayoutSupportKHR''),
     (''vkGetDescriptorSetLayoutSupport'', ''shim_GetDescriptorSetLayoutSupportKHR'')]"

definition dev_hooks :: "(string \<times> string) list" where
  "dev_hooks =
    [(''vkCreateGraphicsPipelines'', ''shim_CreateGraphicsPipelines''),
     (''vkCreateComputePipelines'', ''shim_CreateComputePipelines''),
     (''vkDestroyDevice'', ''shim_DestroyDevice''),
     (''vkMergePipelineCaches'', ''shim_MergePipelineCaches''),
     (''vkCreatePipelineCache'', ''shim_CreatePipelineCache''),
     (''vkGetPipelineCacheData'', ''shim_GetPipelineCacheData''),
     (''vkDestroyPipelineCache'', ''shim_DestroyPipelineCache''),
     (''vkCmdBlitImage'', ''shim_CmdBlitImage''),
     (''vkCreateSampler'', ''shim_CreateSampler''),
     (''vkCreateImage'', ''shim_CreateImage''),
     (''vkDestroyImage'', ''shim_DestroyImage''),
     (''vkBeginCommandBuffer'', ''shim_BeginCommandBuffer''),
     (''vkResetCommandBuffer'', ''shim_ResetCommandBuffer''),
     (''vkFreeCommandBuffers'', ''shim_FreeCommandBuffers''),
     (''vkAllocateCommandBuffers'', ''shim_AllocateCommandBuffers''),
     (''vkResetCommandPool'', ''shim_ResetCommandPool''),
     (''vkDestroyCommandPool'', ''shim_DestroyCommandPool''),
     (''vkCmdBeginRenderPass'', ''shim_CmdBeginRenderPass''),
     (''vkCmdEndRenderPass'', ''shim_CmdEndRenderPass''),
     (''vkCmdNextSubpass'', ''shim_CmdNextSubpass''),
     (''vkCmdDraw'', ''shim_CmdDraw''),
     (''vkCmdDrawIndexed'', ''shim_CmdDrawIndexed''),
     (''vkCmdDrawIndirect'', ''shim_CmdDrawIndirect''),
     (''vkCmdDrawIndexedIndirect'', ''shim_CmdDrawIndexedIndirect''),
     (''vkCmdClearAttachments'', ''shim_CmdClearAttachments'')]"

definition inst_hooks :: "(string \<times> string) list" where
  "inst_hooks =
    [(''vkGetDeviceProcAddr'', ''shim_GetDeviceProcAddr''),
     (''vkCreateGraphicsPipelines'', ''shim_CreateGraphicsPipelines''),
     (''vkCreateComputePipelines'', ''shim_CreateComputePipelines''),
     (''vkCreateDevice'', ''shim_CreateDevice''),
     (''vkDestroyDevice'', ''shim_DestroyDevice''),
     (''vkCreateInstance'', ''shim_CreateInstance''),
     (''vkEnumerateDeviceExtensionProperties'', ''shim_EnumerateDeviceExtensionProperties'')]"

definition identity_procs :: "(string \<times> string) list" where
  "identity_procs =
    [(''vkGetPhysicalDeviceProperties2KHR'', ''shim_GetPhysicalDeviceProperties2KHR''),
     (''vkGetPhysicalDeviceProperties2'', ''shim_GetPhysicalDeviceProperties2KHR''),
     (''vkGetPhysicalDeviceFeatures2KHR'', ''shim_GetPhysicalDeviceFeatures2KHR''),
     (''vkGetPhysicalDeviceFeatures2'', ''shim_GetPhysicalDeviceFeatures2KHR''),
     (''vkGetPhysicalDeviceFormatProperties2KHR'', ''shim_GetPhysicalDeviceFormatProperties2KHR''),
     (''vkGetPhysicalDeviceFormatProperties2'', ''shim_GetPhysicalDeviceFormatProperties2KHR''),
     (''vkGetPhysicalDeviceImageFormatProperties2KHR'', ''shim_GetPhysicalDeviceImageFormatProperties2KHR''),
     (''vkGetPhysicalDeviceImageFormatProperties2'', ''shim_GetPhysicalDeviceImageFormatProperties2KHR''),
     (''vkGetPhysicalDeviceQueueFamilyProperties2KHR'', ''shim_GetPhysicalDeviceQueueFamilyProperties2KHR''),
     (''vkGetPhysicalDeviceQueueFamilyProperties2'', ''shim_GetPhysicalDeviceQueueFamilyProperties2KHR''),
     (''vkGetPhysicalDeviceMemoryProperties2KHR'', ''shim_GetPhysicalDeviceMemoryProperties2KHR''),
     (''vkGetPhysicalDeviceMemoryProperties2'', ''shim_GetPhysicalDeviceMemoryProperties2KHR''),
     (''vkGetPhysicalDeviceSparseImageFormatProperties2KHR'', ''shim_GetPhysicalDeviceSparseImageFormatProperties2KHR''),
     (''vkGetPhysicalDeviceSparseImageFormatProperties2'', ''shim_GetPhysicalDeviceSparseImageFormatProperties2KHR''),
     (''vkGetPhysicalDeviceExternalFencePropertiesKHR'', ''shim_GetPhysicalDeviceExternalFencePropertiesKHR''),
     (''vkGetPhysicalDeviceExternalFenceProperties'', ''shim_GetPhysicalDeviceExternalFencePropertiesKHR'')]"

definition shim_memext_proc :: "env \<Rightarrow> string \<Rightarrow> 'a vk_dev_scheme \<Rightarrow> proc option \<times> 'a vk_dev_scheme" where
  "shim_memext_proc env name s =
     (let (on, s) = prop_on env memext s in
      (if on then map_option Shim (map_of memext_procs name) else None, s))"

text \<open>The common tail of both lookups, with the blob's own lookup \<open>real\<close>: the memory extensions,
  then the blob, then the blob again under the \<^verbatim>\<open>KHR\<close> name.\<close>

definition lookup_tail :: "env \<Rightarrow> (string \<Rightarrow> bool) \<Rightarrow> (string \<Rightarrow> vk_call) \<Rightarrow> string \<Rightarrow> 'a vk_dev_scheme \<Rightarrow>
    proc option \<times> 'a vk_dev_scheme" where
  "lookup_tail env real c name s =
     (let (g, s) = shim_memext_proc env name s in
      case g of
        Some p \<Rightarrow> (Some p, s)
      | None \<Rightarrow>
          let s = log_call (c name) s in
          if real name then (Some (Blob name), s)
          else
            let (on, s) = prop_on env ''debug.xdplus.vkkhralias'' s in
            if \<not> on then (None, s)
            else (case khr_name name 128 of
                    None \<Rightarrow> (None, s)
                  | Some alias \<Rightarrow> (if real alias then Some (Blob alias) else None, log_call (c alias) s)))"

definition shim_GetDeviceProcAddr :: "env \<Rightarrow> VkDevice \<Rightarrow> string \<Rightarrow> 'a vk_dev_scheme \<Rightarrow> proc option \<times> 'a vk_dev_scheme" where
  "shim_GetDeviceProcAddr env dev name s =
     (case map_of dev_hooks name of
        Some f \<Rightarrow> let s = resolve_dev env dev name s in (if has s name then Some (Shim f) else None, s)
      | None \<Rightarrow>
          if name = ''vkGetDeviceProcAddr'' then (Some (Shim ''shim_GetDeviceProcAddr''), s)
          else lookup_tail env (e_gdpa env dev) (C_gdpa dev) name s)"

definition shim_GetInstanceProcAddr :: "env \<Rightarrow> VkInstance \<Rightarrow> string \<Rightarrow> 'a vk_dev_scheme \<Rightarrow> proc option \<times> 'a vk_dev_scheme" where
  "shim_GetInstanceProcAddr env inst name s =
     (case map_of inst_hooks name of
        Some f \<Rightarrow> let s = resolve_inst env inst name s in (if has s name then Some (Shim f) else None, s)
      | None \<Rightarrow>
          let (on, s) = prop_on env drvinfo s in
          if on \<and> name = ''vkGetPhysicalDeviceProperties'' then
            let s = resolve_inst env inst name s in
            (if has s name then Some (Shim ''shim_GetPhysicalDeviceProperties'') else None, s)
          else case (if on then map_of identity_procs name else None) of
            Some f \<Rightarrow> (Some (Shim f), s)
          | None \<Rightarrow> lookup_tail env (e_gipa env inst) (C_gipa inst) name s)"

section \<open>The HAL module\<close>

text \<open>The blob's HAL device; the shim copies it and replaces two of its pointers.\<close>

record hwvulkan_device_t =
  hd_version :: u32
  hd_close :: proc
  hd_EnumerateInstanceExtensionProperties :: proc
  hd_CreateInstance :: proc
  hd_GetInstanceProcAddr :: proc

text \<open>The dynamic linker and the blob's \<^verbatim>\<open>open\<close>.\<close>

record hal_env =
  h_dlopen :: "hist \<Rightarrow> string \<Rightarrow> bool"
  h_dlsym :: "hist \<Rightarrow> string \<Rightarrow> bool"
  h_open :: "hist \<Rightarrow> string \<Rightarrow> int \<times> hwvulkan_device_t"

record vk_hal = vk_dev +
  real_module :: bool
  real_gipa :: "proc option"
  shim_device :: "hwvulkan_device_t option"

definition vendor_path :: "env \<Rightarrow> string" where
  "vendor_path env = (if e_lp64 env then ''/vendor/lib64/hw/vulkan.mt8173.so'' else ''/vendor/lib/hw/vulkan.mt8173.so'')"

definition override_path :: "env \<Rightarrow> string" where
  "override_path env =
     (if e_lp64 env then ''/data/local/tmp/vulkan.mt8173.real.so'' else ''/data/local/tmp/vulkan.mt8173.real32.so'')"

definition sys_dlopen :: "hal_env \<Rightarrow> string \<Rightarrow> 'a vk_hal_scheme \<Rightarrow> bool \<times> 'a vk_hal_scheme" where
  "sys_dlopen hl p s = (h_dlopen hl (calls s) p, log_call (C_dlopen p) s)"

definition load_real :: "env \<Rightarrow> hal_env \<Rightarrow> 'a vk_hal_scheme \<Rightarrow> int \<times> 'a vk_hal_scheme" where
  "load_real env hl s =
     (if real_module s then (0, s)
      else
        let (ov, s) = prop_explicit_on env ''debug.xdplus.vkrealoverride'' s;
            (h, s) = (if ov then sys_dlopen hl (override_path env) s else (False, s));
            (h, s) = (if \<not> h then sys_dlopen hl (vendor_path env) s else (h, s))
        in
          if \<not> h then (-1, s)
          else
            let m = h_dlsym hl (calls s) ''HMI'';
                s = (log_call (C_dlsym ''HMI'') s)\<lparr>real_module := m\<rparr>
            in if \<not> m then (-1, s) else (0, s))"

definition shim_close :: "'a vk_hal_scheme \<Rightarrow> int \<times> 'a vk_hal_scheme" where
  "shim_close s = (0, s)"

text \<open>The device handed back is \<open>None\<close> where \<^verbatim>\<open>*device\<close> is left as it was.\<close>

definition shim_open :: "env \<Rightarrow> hal_env \<Rightarrow> string \<Rightarrow> 'a vk_hal_scheme \<Rightarrow> (int \<times> hwvulkan_device_t option) \<times> 'a vk_hal_scheme" where
  "shim_open env hl hid s =
     (let (e, s) = load_real env hl s in
      if e \<noteq> 0 then ((-1, None), s)
      else
        let (err, rd) = h_open hl (calls s) hid;
            s = log_call (C_hal_open hid) s
        in
          if err \<noteq> 0 then ((err, None), s)
          else
            let d = rd\<lparr>hd_close := Shim ''shim_close'', hd_GetInstanceProcAddr := Shim ''shim_GetInstanceProcAddr''\<rparr>
            in ((0, Some d), s\<lparr>real_gipa := Some (hd_GetInstanceProcAddr rd), shim_device := Some d\<rparr>))"

section \<open>What a lookup can return\<close>



lemma lookup_tail_absent:
  assumes "lookup_tail env real c name s = (Some (Shim f), s')"
  shows "map_of memext_procs name = Some f"
  using assms by (auto simp: lookup_tail_def shim_memext_proc_def Let_def split: option.splits if_splits prod.splits)





text \<open>A hook is handed out only over a function the blob has: then the pointer the hook will call
  through is set, so a shim function never calls \<^verbatim>\<open>NULL\<close> on the app's behalf.\<close>

theorem device_hook_has_target:
  assumes "map_of dev_hooks name = Some f" and "shim_GetDeviceProcAddr env dev name s = (p, s')"
  shows "(p = Some (Shim f) \<and> has s' name) \<or> (p = None \<and> \<not> e_gdpa env dev name)"
  using assms by (auto simp: shim_GetDeviceProcAddr_def resolve_dev_def Let_def split: if_splits)

text \<open>The names the shim answers by itself, with nothing of the blob behind them, are told from the
  hooked ones by their first eight letters.\<close>

definition own_stems :: "string set" where
  "own_stems = {''vkGetPhy'', ''vkGetIma'', ''vkGetBuf'', ''vkGetDes'', ''vkBindBu'', ''vkBindIm''}"

lemma dev_stems: "\<forall>n \<in> fst ` set dev_hooks. take 8 n \<notin> own_stems"
  by (simp add: dev_hooks_def own_stems_def)

lemma id_stems: "\<forall>n \<in> fst ` set identity_procs. take 8 n \<in> own_stems"
  by (simp add: identity_procs_def own_stems_def)

lemma mem_stems: "\<forall>n \<in> fst ` set memext_procs. take 8 n \<in> own_stems"
  by (simp add: memext_procs_def own_stems_def)

text \<open>The instance table hooks only seven of the names, so a lookup there of a device command
  that only the device table hooks, such as \<^verbatim>\<open>vkCmdBeginRenderPass\<close>, returns the blob's own
  pointer.\<close>

theorem instance_lookup_unhooked:
  assumes "map_of dev_hooks name = Some f" and "map_of inst_hooks name = None" and "e_gipa env inst name"
  shows "fst (shim_GetInstanceProcAddr env inst name s) = Some (Blob name)"
proof -
  have "name \<in> fst ` set dev_hooks" using map_of_SomeD [OF assms(1)] by force
  then have d: "take 8 name \<notin> own_stems" using dev_stems by blast
  have n: "map_of identity_procs name = None" "map_of memext_procs name = None" 
    using d id_stems mem_stems unfolding map_of_eq_None_iff by blast+
  have p: "name \<noteq> ''vkGetPhysicalDeviceProperties''" using d by (auto simp: own_stems_def)
  show ?thesis
    unfolding shim_GetInstanceProcAddr_def lookup_tail_def shim_memext_proc_def Let_def case_prod_beta assms(2) n
    using assms(3) p by simp
qed

section \<open>Loading the driver\<close>

text \<open>Unless \<^verbatim>\<open>debug.xdplus.vkrealoverride\<close> starts with 1, the driver is taken from the vendor
  partition: the directory that any adb shell can write is not even probed.\<close>

theorem driver_from_vendor:
  assumes "prop_cache s ''debug.xdplus.vkrealoverride'' = None"
    and "hd (e_prop env (calls s) ''debug.xdplus.vkrealoverride'' @ ''0'') \<noteq> CHR ''1''"
  shows "C_dlopen p \<in> set (calls (snd (load_real env hl s))) \<Longrightarrow> C_dlopen p \<in> set (calls s) \<or> p = vendor_path env"
proof -
  let ?v = "take 91 (cstr (e_prop env (calls s) ''debug.xdplus.vkrealoverride''))"
  have "(case ?v of [] \<Rightarrow> False | c # _ \<Rightarrow> c = CHR ''1'') = False"
    using assms(2) by (cases "e_prop env (calls s) ''debug.xdplus.vkrealoverride''") (auto simp: cstr_def)
  then show "C_dlopen p \<in> set (calls (snd (load_real env hl s))) \<Longrightarrow> C_dlopen p \<in> set (calls s) \<or> p = vendor_path env"
    using assms(1)
    by (auto simp: load_real_def prop_explicit_on_def sys_prop_get_def sys_dlopen_def Let_def split: if_splits)
qed

lemma load_real_ok:
  assumes "load_real env hl s = (0, s')"
  shows "real_module s'"
  using assms by (auto simp: load_real_def Let_def split: if_splits prod.splits)

text \<open>Opening the HAL gives the loader the blob's device with the two pointers replaced, or an
  error and no device, and then the shim's own record of the device does not change; with the driver
  loaded already, the linker is not asked again.\<close>

theorem shim_open_correct:
  assumes "shim_open env hl hid s = ((err, d), s')"
  shows "(err = 0 \<and> real_module s' \<and> (\<exists>h rd. h_open hl h hid = (0, rd) \<and> real_gipa s' = Some (hd_GetInstanceProcAddr rd) \<and>
            d = Some (rd\<lparr>hd_close := Shim ''shim_close'', hd_GetInstanceProcAddr := Shim ''shim_GetInstanceProcAddr''\<rparr>))) \<or>
         (err \<noteq> 0 \<and> d = None \<and> shim_device s' = shim_device s \<and> real_gipa s' = real_gipa s)"
proof -
  let ?l = "load_real env hl s"
  let ?o = "h_open hl (calls (snd ?l)) hid"
  have f: "shim_device (snd ?l) = shim_device s" "real_gipa (snd ?l) = real_gipa s"
    by (simp_all add: load_real_def prop_explicit_on_def sys_prop_get_def sys_dlopen_def Let_def case_prod_beta split: option.split)
  consider "fst ?l \<noteq> 0" | "fst ?l = 0" "fst ?o \<noteq> 0" | "fst ?l = 0" "fst ?o = 0" by blast
  then show ?thesis
  proof cases
    case 3
    then have "real_module (snd ?l)" by (intro load_real_ok [of env hl s]) (simp add: prod_eq_iff)
    with 3 assms show ?thesis
      by (auto simp: shim_open_def Let_def case_prod_beta prod_eq_iff intro!: exI [of _ "calls (snd ?l)"])
  qed (use assms f in \<open>auto simp: shim_open_def Let_def case_prod_beta\<close>)
qed

section \<open>The theorems at a concrete driver\<close>

text \<open>A blob of version 1.0: it has the core names and one extension entry point.\<close>

definition env_10 :: env where
  "env_10 = env_demo\<lparr>e_gdpa := (\<lambda>_ n. n = ''vkCmdDraw'' \<or> n = ''vkTrim2KHR'')\<rparr>"

definition hal_demo :: hal_env where
  "hal_demo = \<lparr>h_dlopen = (\<lambda>_ _. True), h_dlsym = (\<lambda>_ _. True),
     h_open = (\<lambda>_ _. (0, \<lparr>hd_version = 1, hd_close = Blob ''close'',
       hd_EnumerateInstanceExtensionProperties = Blob ''vkEnumerateInstanceExtensionProperties'',
       hd_CreateInstance = Blob ''vkCreateInstance'', hd_GetInstanceProcAddr = Blob ''vkGetInstanceProcAddr''\<rparr>))\<rparr>"

definition vk_hal_boot :: vk_hal where
  "vk_hal_boot = vk_dev.extend vk_dev_boot (vk_hal.fields False None None)"

lemma boot_hal_simps [simp]:
  "prop_cache vk_dev_boot = Map.empty" "prop_cache vk_hal_boot = Map.empty" "calls vk_hal_boot = []"
  "real_module vk_hal_boot = False" "resolved vk_dev_boot = {}"
  by (simp_all add: vk_hal_boot_def vk_dev_boot_def vk_supp_boot_def vk_scratch_boot_def vk_cache_boot_def vk_hal.defs
      vk_dev.defs vk_supp.defs vk_scratch.defs vk_cache.defs)


theorem device_hook_has_target_witness:
  "\<exists>p s'. shim_GetDeviceProcAddr env_10 7 ''vkCmdDraw'' vk_dev_boot = (p, s') \<and> p = Some (Shim ''shim_CmdDraw'') \<and> has s' ''vkCmdDraw''"
proof -
  have h: "map_of dev_hooks ''vkCmdDraw'' = Some ''shim_CmdDraw''" by (simp add: dev_hooks_def)
  obtain p s' where r: "shim_GetDeviceProcAddr env_10 7 ''vkCmdDraw'' vk_dev_boot = (p, s')" by fastforce
  from device_hook_has_target [OF h r] r show ?thesis by (auto simp: env_10_def)
qed

theorem instance_lookup_unhooked_witness:
  "fst (shim_GetInstanceProcAddr env_demo 3 ''vkCmdBeginRenderPass'' vk_dev_boot) = Some (Blob ''vkCmdBeginRenderPass'')"
  by (rule instance_lookup_unhooked [where f = "''shim_CmdBeginRenderPass''"])
    (simp_all add: dev_hooks_def inst_hooks_def env_demo_def)

theorem driver_from_vendor_witness:
  "fst (load_real env_demo hal_demo vk_hal_boot) = 0 \<and>
   C_dlopen (override_path env_demo) \<notin> set (calls (snd (load_real env_demo hal_demo vk_hal_boot)))"
proof -
  have "override_path env_demo \<noteq> vendor_path env_demo" by (simp add: override_path_def vendor_path_def)
  moreover have "fst (load_real env_demo hal_demo vk_hal_boot) = 0"
    by (simp add: load_real_def prop_explicit_on_def sys_prop_get_def sys_dlopen_def Let_def hal_demo_def env_demo_def cstr_def)
  ultimately show ?thesis
    using driver_from_vendor [of vk_hal_boot env_demo "override_path env_demo" hal_demo] by (auto simp: env_demo_def)
qed

theorem shim_open_correct_witness:
  "\<exists>d s'. shim_open env_demo hal_demo ''vk0'' vk_hal_boot = ((0, Some d), s') \<and>
     hd_close d = Shim ''shim_close'' \<and> hd_CreateInstance d = Blob ''vkCreateInstance''"
proof -
  obtain err d s' where r: "shim_open env_demo hal_demo ''vk0'' vk_hal_boot = ((err, d), s')" by (metis prod.collapse)
  have "err = 0"
    using r by (simp add: shim_open_def load_real_def prop_explicit_on_def sys_prop_get_def sys_dlopen_def Let_def hal_demo_def
        env_demo_def cstr_def split: prod.splits)
  with shim_open_correct [OF r] r show ?thesis by (auto simp: hal_demo_def)
qed

end
