(* ===== verification/Vk_Worker.thy ===== *)
theory Vk_Worker
  imports Vk_Base
begin

text \<open>
  The big-stack worker of \<^verbatim>\<open>vkshim.c\<close> and its calling thread, as two interleaved threads: the loop of
  \<^verbatim>\<open>big_worker_main\<close>, the handshake at the end of \<^verbatim>\<open>run_big_stack\<close> and \<^verbatim>\<open>big_worker_destroy\<close>, over one
  mutex and two condition variables. \<open>Vk_Cache.run_big_stack\<close> uses what is proved here: that a call
  through the worker runs its compile once and returns its result.
\<close>

section \<open>The shared worker\<close>

text \<open>Where the two threads are. The worker: before its first lock, holding the mutex at the
  test of \<open>have_work\<close> and \<open>quit\<close>, blocked in \<^verbatim>\<open>pthread_cond_wait\<close>, woken and waiting for the mutex,
  calling \<^verbatim>\<open>fn(args)\<close>, waiting for the mutex afterwards, returned. The caller: outside, about to lock
  with its arguments, at the test of \<open>done\<close>, blocked, woken; and the stages of
  \<^verbatim>\<open>big_worker_destroy\<close>. Arguments are named by a number, one for each call, since each call has its
  own on its stack.\<close>

datatype thr = Caller | Worker

datatype wpc = W_start | W_test | W_wait | W_wake | W_call nat | W_lock | W_over

datatype cpc = R_idle | R_enter nat | R_test nat | R_wait nat | R_wake nat
  | D_enter | D_lock | D_join | D_free | D_gone

record big_worker =
  mtx :: "thr option"
  fn_args :: nat
  have_work :: bool
  done_flag :: bool
  quit :: bool
  started :: bool

text \<open>\<open>slots\<close> holds the result field of each call's arguments; \<open>submitted\<close>, \<open>executed\<close> and \<open>returned\<close> record what
  was asked for, what ran on the worker's stack, and what the calls returned.\<close>

record hs = big_worker +
  wk :: wpc
  cl :: cpc
  slots :: "nat \<rightharpoonup> VkResult"
  submitted :: "nat list"
  executed :: "nat list"
  returned :: "VkResult option list"

text \<open>\<^verbatim>\<open>pthread_cond_signal\<close> on the two condition variables, each of which has one possible waiter.\<close>

definition signal_work :: "wpc \<Rightarrow> wpc" where
  "signal_work p = (if p = W_wait then W_wake else p)"

fun signal_done :: "cpc \<Rightarrow> cpc" where
  "signal_done (R_wait j) = R_wake j"
| "signal_done p = p"

text \<open>One step of each thread from where it is; \<open>None\<close> when it is blocked or has returned.\<close>

definition big_worker_main :: "(nat \<Rightarrow> VkResult) \<Rightarrow> hs \<Rightarrow> hs option" where
  "big_worker_main fn s =
     (case wk s of
        W_start \<Rightarrow> if mtx s = None then Some (s\<lparr>mtx := Some Worker, wk := W_test\<rparr>) else None
      | W_test \<Rightarrow>
          if \<not> have_work s \<and> \<not> quit s then Some (s\<lparr>mtx := None, wk := W_wait\<rparr>)
          else if quit s then Some (s\<lparr>mtx := None, wk := W_over\<rparr>)
          else Some (s\<lparr>have_work := False, mtx := None, wk := W_call (fn_args s)\<rparr>)
      | W_wait \<Rightarrow> None
      | W_wake \<Rightarrow> if mtx s = None then Some (s\<lparr>mtx := Some Worker, wk := W_test\<rparr>) else None
      | W_call j \<Rightarrow> Some (s\<lparr>slots := (slots s)(j \<mapsto> fn j), executed := executed s @ [j], wk := W_lock\<rparr>)
      | W_lock \<Rightarrow>
          if mtx s = None
          then Some (s\<lparr>mtx := Some Worker, done_flag := True, cl := signal_done (cl s), wk := W_test\<rparr>)
          else None
      | W_over \<Rightarrow> None)"

definition big_worker_call :: "hs \<Rightarrow> hs option" where
  "big_worker_call s =
     (case cl s of
        R_enter j \<Rightarrow>
          if mtx s = None
          then Some (s\<lparr>mtx := Some Caller, fn_args := j, have_work := True, done_flag := False,
                       wk := signal_work (wk s), cl := R_test j\<rparr>)
          else None
      | R_test j \<Rightarrow>
          if \<not> done_flag s then Some (s\<lparr>mtx := None, cl := R_wait j\<rparr>)
          else Some (s\<lparr>mtx := None, cl := R_idle, returned := returned s @ [slots s j]\<rparr>)
      | R_wake j \<Rightarrow> if mtx s = None then Some (s\<lparr>mtx := Some Caller, cl := R_test j\<rparr>) else None
      | _ \<Rightarrow> None)"

definition big_worker_destroy :: "hs \<Rightarrow> hs option" where
  "big_worker_destroy s =
     (case cl s of
        D_enter \<Rightarrow> Some (s\<lparr>cl := if started s then D_lock else D_free\<rparr>)
      | D_lock \<Rightarrow>
          if mtx s = None then Some (s\<lparr>quit := True, wk := signal_work (wk s), cl := D_join\<rparr>) else None
      | D_join \<Rightarrow> if wk s = W_over then Some (s\<lparr>cl := D_free\<rparr>) else None
      | D_free \<Rightarrow> Some (s\<lparr>cl := D_gone\<rparr>)
      | _ \<Rightarrow> None)"

text \<open>The state that \<^verbatim>\<open>big_worker_get\<close> leaves, and whether \<^verbatim>\<open>pthread_create\<close> made the thread.\<close>

definition hs_init :: "bool \<Rightarrow> hs" where
  "hs_init ok = \<lparr>mtx = None, fn_args = 0, have_work = False, done_flag = False, quit = False, started = ok,
     wk = (if ok then W_start else W_over), cl = R_idle, slots = Map.empty, submitted = [], executed = [], returned = []\<rparr>"

text \<open>Steps of the pair of threads. \<open>hs_work\<close> is progress of one of them, \<open>hs_step\<close> adds what the
  caller decides (to submit a compile, to exit) and the spurious wake-ups POSIX allows.\<close>

inductive hs_work :: "(nat \<Rightarrow> VkResult) \<Rightarrow> hs \<Rightarrow> hs \<Rightarrow> bool" for fn where
  hs_worker: "big_worker_main fn s = Some s' \<Longrightarrow> hs_work fn s s'"
| hs_caller: "big_worker_call s = Some s' \<Longrightarrow> hs_work fn s s'"
| hs_destroy: "big_worker_destroy s = Some s' \<Longrightarrow> hs_work fn s s'"

inductive hs_step :: "(nat \<Rightarrow> VkResult) \<Rightarrow> hs \<Rightarrow> hs \<Rightarrow> bool" for fn where
  hs_run: "hs_work fn s s' \<Longrightarrow> hs_step fn s s'"
| hs_submit: "cl s = R_idle \<Longrightarrow> started s \<Longrightarrow> j \<notin> set (submitted s) \<Longrightarrow>
     hs_step fn s (s\<lparr>cl := R_enter j, submitted := submitted s @ [j]\<rparr>)"
| hs_exit: "cl s = R_idle \<Longrightarrow> hs_step fn s (s\<lparr>cl := D_enter\<rparr>)"
| hs_spurious_worker: "wk s = W_wait \<Longrightarrow> hs_step fn s (s\<lparr>wk := W_wake\<rparr>)"
| hs_spurious_caller: "cl s = R_wait j \<Longrightarrow> hs_step fn s (s\<lparr>cl := R_wake j\<rparr>)"

inductive_cases hs_workE: "hs_work fn s s'"
inductive_cases hs_stepE: "hs_step fn s s'"

section \<open>The invariant\<close>

definition mutex_ok :: "hs \<Rightarrow> bool" where
  "mutex_ok s \<longleftrightarrow> (mtx s = Some Worker \<longleftrightarrow> wk s = W_test) \<and> (mtx s = Some Caller \<longleftrightarrow> (\<exists>j. cl s = R_test j))"

definition resting :: "wpc \<Rightarrow> bool" where
  "resting p \<longleftrightarrow> p \<in> {W_start, W_test, W_wait, W_wake}"

text \<open>The stages of a call in flight: posted and not seen, running, run and not announced, announced.
  A posted job is never missed: the worker is not asleep then, and neither is the caller once the
  result is announced.\<close>

definition in_flight :: "(nat \<Rightarrow> VkResult) \<Rightarrow> nat \<Rightarrow> hs \<Rightarrow> bool" where
  "in_flight fn j s \<longleftrightarrow>
     (have_work s \<and> \<not> done_flag s \<and> fn_args s = j \<and> wk s \<in> {W_start, W_test, W_wake} \<and> submitted s = executed s @ [j]) \<or>
     (\<not> have_work s \<and> \<not> done_flag s \<and> wk s = W_call j \<and> submitted s = executed s @ [j]) \<or>
     (\<not> have_work s \<and> \<not> done_flag s \<and> wk s = W_lock \<and> submitted s = executed s \<and> slots s j = Some (fn j)) \<or>
     (\<not> have_work s \<and> done_flag s \<and> resting (wk s) \<and> cl s \<noteq> R_wait j \<and> submitted s = executed s \<and> slots s j = Some (fn j))"

text \<open>All calls but the last, \<open>j\<close>, have returned.\<close>

definition owed :: "(nat \<Rightarrow> VkResult) \<Rightarrow> nat \<Rightarrow> nat list \<Rightarrow> VkResult option list \<Rightarrow> bool" where
  "owed fn j js rs \<longleftrightarrow> (\<exists>xs. js = xs @ [j] \<and> rs = map (Some \<circ> fn) xs)"

lemma owed_enter [simp]: "owed fn j (xs @ [j]) (map (Some \<circ> fn) xs)"
  by (simp add: owed_def)

lemma owed_paid: "owed fn j js rs \<Longrightarrow> rs @ [Some (fn j)] = map (Some \<circ> fn) js"
  by (auto simp: owed_def)

definition hs_inv :: "(nat \<Rightarrow> VkResult) \<Rightarrow> hs \<Rightarrow> bool" where
  "hs_inv fn s \<longleftrightarrow> mutex_ok s \<and>
     (case cl s of
        R_idle \<Rightarrow> \<not> have_work s \<and> \<not> quit s \<and> executed s = submitted s \<and> (if started s then resting (wk s) else wk s = W_over) \<and>
          returned s = map (Some \<circ> fn) (submitted s)
      | R_enter j \<Rightarrow> \<not> have_work s \<and> \<not> quit s \<and> started s \<and> submitted s = executed s @ [j] \<and> resting (wk s) \<and>
          returned s = map (Some \<circ> fn) (executed s)
      | R_test j \<Rightarrow> \<not> quit s \<and> started s \<and> in_flight fn j s \<and> owed fn j (submitted s) (returned s)
      | R_wait j \<Rightarrow> \<not> quit s \<and> started s \<and> in_flight fn j s \<and> owed fn j (submitted s) (returned s)
      | R_wake j \<Rightarrow> \<not> quit s \<and> started s \<and> in_flight fn j s \<and> owed fn j (submitted s) (returned s)
      | D_enter \<Rightarrow> \<not> have_work s \<and> \<not> quit s \<and> executed s = submitted s \<and> (if started s then resting (wk s) else wk s = W_over) \<and>
          returned s = map (Some \<circ> fn) (submitted s)
      | D_lock \<Rightarrow> \<not> have_work s \<and> \<not> quit s \<and> executed s = submitted s \<and> started s \<and> resting (wk s) \<and>
          returned s = map (Some \<circ> fn) (submitted s)
      | D_join \<Rightarrow> \<not> have_work s \<and> quit s \<and> executed s = submitted s \<and> wk s \<in> {W_start, W_test, W_wake, W_over} \<and>
          returned s = map (Some \<circ> fn) (submitted s)
      | _ \<Rightarrow> executed s = submitted s \<and> wk s = W_over \<and> returned s = map (Some \<circ> fn) (submitted s))"

lemmas hs_defs = hs_inv_def mutex_ok_def in_flight_def resting_def signal_work_def

lemma hs_inv_init: "hs_inv fn (hs_init ok)"
  by (simp add: hs_defs hs_init_def)

lemma hs_inv_main: "hs_inv fn s \<Longrightarrow> big_worker_main fn s = Some s' \<Longrightarrow> hs_inv fn s'"
  unfolding big_worker_main_def
  by (cases "wk s"; cases "cl s") (auto simp: hs_defs split: if_splits)

lemma hs_inv_call: "hs_inv fn s \<Longrightarrow> big_worker_call s = Some s' \<Longrightarrow> hs_inv fn s'"
  unfolding big_worker_call_def
  by (cases "cl s") (auto simp: hs_defs dest: owed_paid split: if_splits)

lemma hs_inv_destroy: "hs_inv fn s \<Longrightarrow> big_worker_destroy s = Some s' \<Longrightarrow> hs_inv fn s'"
  unfolding big_worker_destroy_def
  by (cases "cl s") (auto simp: hs_defs split: if_splits)

lemma hs_inv_step: "hs_step fn s s' \<Longrightarrow> hs_inv fn s \<Longrightarrow> hs_inv fn s'"
proof (induction rule: hs_step.induct)
  case (hs_run s s')
  then show ?case by (auto elim!: hs_workE intro: hs_inv_main hs_inv_call hs_inv_destroy)
next
  case (hs_spurious_worker s)
  then show ?case by (cases "cl s") (auto simp: hs_defs split: if_splits)
qed (auto simp: hs_defs)


abbreviation hs_reachable :: "(nat \<Rightarrow> VkResult) \<Rightarrow> bool \<Rightarrow> hs \<Rightarrow> bool" where
  "hs_reachable fn ok s \<equiv> (hs_step fn)\<^sup>*\<^sup>* (hs_init ok) s"

lemma hs_inv_reachable: "hs_reachable fn ok s \<Longrightarrow> hs_inv fn s"
  by (induction rule: rtranclp_induct) (auto intro: hs_inv_init hs_inv_step)

text \<open>C6. When the calling thread is outside \<^verbatim>\<open>run_big_stack\<close>, every compile it submitted ran on the
  worker's stack, exactly once and in order, and each call returned the result of its own compile:
  no job is lost, run twice or answered with the result of another.\<close>

theorem worker_runs_each_call_once:
  assumes "hs_reachable fn ok s" and "cl s = R_idle"
  shows "executed s = submitted s \<and> returned s = map (Some \<circ> fn) (submitted s)"
  using hs_inv_reachable [OF assms(1)] assms(2) by (simp add: hs_inv_def)

text \<open>The worker's memory is freed only after its thread has returned.\<close>

theorem worker_gone_before_free:
  assumes "hs_reachable fn ok s" and "cl s \<in> {D_free, D_gone}"
  shows "wk s = W_over \<and> mtx s = None"
  using hs_inv_reachable [OF assms(1)] assms(2) by (cases "mtx s"; cases "the (mtx s)") (auto simp: hs_inv_def mutex_ok_def)

section \<open>Progress\<close>

fun wk_weight :: "wpc \<Rightarrow> nat" where
  "wk_weight W_wait = 0"
| "wk_weight W_over = 0"
| "wk_weight W_test = 1"
| "wk_weight W_start = 2"
| "wk_weight W_wake = 2"
| "wk_weight W_lock = 4"
| "wk_weight (W_call _) = 5"

fun cl_weight :: "cpc \<Rightarrow> nat" where
  "cl_weight R_idle = 0"
| "cl_weight (R_wait _) = 1"
| "cl_weight (R_test _) = 2"
| "cl_weight (R_wake _) = 3"
| "cl_weight (R_enter _) = 10"
| "cl_weight D_gone = 0"
| "cl_weight D_free = 1"
| "cl_weight D_join = 2"
| "cl_weight D_lock = 5"
| "cl_weight D_enter = 6"

definition hs_variant :: "hs \<Rightarrow> nat" where
  "hs_variant s = wk_weight (wk s) + cl_weight (cl s) + (if have_work s then 5 else 0)"

lemma variant_main: "big_worker_main fn s = Some s' \<Longrightarrow> hs_variant s' < hs_variant s"
  unfolding big_worker_main_def hs_variant_def
  by (cases "wk s"; cases "cl s") (auto split: if_splits)

lemma variant_call: "hs_inv fn s \<Longrightarrow> big_worker_call s = Some s' \<Longrightarrow> hs_variant s' < hs_variant s"
  unfolding big_worker_call_def hs_variant_def
  by (cases "cl s") (auto simp: hs_inv_def signal_work_def split: if_splits)

lemma variant_destroy: "big_worker_destroy s = Some s' \<Longrightarrow> hs_variant s' < hs_variant s"
  unfolding big_worker_destroy_def hs_variant_def
  by (cases "cl s") (auto simp: signal_work_def split: if_splits)

lemma variant_work: "hs_inv fn s \<Longrightarrow> hs_work fn s s' \<Longrightarrow> hs_variant s' < hs_variant s"
  by (auto elim!: hs_workE intro: variant_main variant_call variant_destroy)

lemma hs_inv_work: "hs_inv fn s \<Longrightarrow> hs_work fn s s' \<Longrightarrow> hs_inv fn s'"
  by (auto intro: hs_inv_step hs_run)

lemma variant_bound: "hs_inv fn s \<Longrightarrow> hs_variant s \<le> 12"
  by (cases "cl s"; cases "wk s") (auto simp: hs_variant_def hs_inv_def in_flight_def resting_def split: if_splits)

text \<open>While the caller is inside, one of the two threads can move: no wake-up is lost.\<close>

lemma never_stuck:
  assumes "hs_inv fn s" and "cl s \<noteq> R_idle" and "cl s \<noteq> D_gone"
  shows "\<exists>s'. hs_work fn s s'"
proof (rule ccontr)
  assume "\<not> ?thesis"
  then have n: "big_worker_main fn s = None" "big_worker_call s = None" "big_worker_destroy s = None"
    using hs_work.intros by (metis option.exhaust)+
  have "mtx s = None"
  proof (cases "mtx s")
    case (Some t)
    with n(1,2) assms(1) show ?thesis
      by (cases t) (auto simp: hs_inv_def mutex_ok_def big_worker_main_def big_worker_call_def split: if_splits)
  qed
  then show False
    using n assms
    by (cases "cl s"; cases "wk s")
      (auto simp: hs_inv_def in_flight_def resting_def big_worker_main_def big_worker_call_def big_worker_destroy_def
        split: if_splits)
qed

lemma work_bounded: "(hs_work fn ^^ n) s s' \<Longrightarrow> hs_inv fn s \<Longrightarrow> n + hs_variant s' \<le> hs_variant s \<and> hs_inv fn s'"
proof (induction n arbitrary: s')
  case (Suc n)
  then obtain u where u: "(hs_work fn ^^ n) s u" "hs_work fn u s'" by auto
  with Suc variant_work [of fn u s'] hs_inv_work [of fn u s'] show ?case by fastforce
qed simp

lemma work_ends: "hs_inv fn s \<Longrightarrow> \<exists>s'. (hs_work fn)\<^sup>*\<^sup>* s s' \<and> cl s' \<in> {R_idle, D_gone}"
proof (induction "hs_variant s" arbitrary: s rule: less_induct)
  case less
  show ?case
  proof (cases "cl s \<in> {R_idle, D_gone}")
    case False
    with never_stuck [OF less.prems] obtain u where u: "hs_work fn s u" by auto
    with less variant_work hs_inv_work obtain s' where "(hs_work fn)\<^sup>*\<^sup>* u s'" "cl s' \<in> {R_idle, D_gone}" by meson
    with u show ?thesis by (meson converse_rtranclp_into_rtranclp)
  qed auto
qed

text \<open>C10. A call returns: from every reachable state the two threads, left to run, reach one where the
  caller is outside again (or has released the worker), no run of them is longer than twelve steps,
  and while the caller is inside one of them can always take a step. So the handshake neither
  deadlocks nor loses a wake-up, whatever spurious wake-ups came before.\<close>

theorem handshake_returns:
  assumes "hs_reachable fn ok s"
  shows "(\<exists>s'. (hs_work fn)\<^sup>*\<^sup>* s s' \<and> cl s' \<in> {R_idle, D_gone}) \<and>
    (\<forall>n s'. (hs_work fn ^^ n) s s' \<longrightarrow> n \<le> 12 \<and> (cl s' \<in> {R_idle, D_gone} \<or> (\<exists>u. hs_work fn s' u)))"
proof -
  have i: "hs_inv fn s" by (rule hs_inv_reachable [OF assms])
  then show ?thesis
    using work_ends [OF i] work_bounded [of _ fn s] variant_bound [OF i] never_stuck [of fn] by fastforce
qed

section \<open>The theorems on a run\<close>

definition demo_fn :: "nat \<Rightarrow> VkResult" where "demo_fn j = VK_RESULT_OTHER (int j)"

definition demo_posted :: hs where
  "demo_posted = (hs_init True)\<lparr>cl := R_enter 4, submitted := [4]\<rparr>"

lemma demo_posted_reachable: "hs_reachable demo_fn True demo_posted"
  using hs_submit [of "hs_init True" 4 demo_fn] by (auto simp: demo_posted_def hs_init_def)

text \<open>The steps of one call: the caller posts and waits, the worker runs the job and announces it.\<close>

fun run_hs :: "(hs \<Rightarrow> hs option) list \<Rightarrow> hs \<Rightarrow> hs option" where
  "run_hs [] s = Some s"
| "run_hs (f # fs) s = (case f s of None \<Rightarrow> None | Some s \<Rightarrow> run_hs fs s)"

lemma run_hs_reachable:
  "hs_reachable fn ok s \<Longrightarrow> set fs \<subseteq> {big_worker_main fn, big_worker_call, big_worker_destroy} \<Longrightarrow>
     run_hs fs s = Some s' \<Longrightarrow> hs_reachable fn ok s'"
proof (induction fs arbitrary: s)
  case (Cons f fs)
  then obtain u where u: "f s = Some u" "run_hs fs u = Some s'" by (auto split: option.splits)
  with Cons.prems(2) have "hs_step fn s u" by (auto intro: hs_run hs_work.intros)
  from Cons.prems(1) this have "hs_reachable fn ok u" by (rule rtranclp.rtrancl_into_rtrancl)
  with Cons u show ?case by simp
qed simp

definition demo_run :: "(hs \<Rightarrow> hs option) list" where
  "demo_run = [big_worker_call, big_worker_call] @ replicate 4 (big_worker_main demo_fn) @
     [big_worker_main demo_fn, big_worker_call, big_worker_call]"

theorem worker_runs_each_call_once_witness:
  "\<exists>s. run_hs demo_run demo_posted = Some s \<and> cl s = R_idle \<and> executed s = [4] \<and> returned s = [Some (VK_RESULT_OTHER 4)]"
proof -
  have "\<exists>s. run_hs demo_run demo_posted = Some s \<and> cl s = R_idle \<and> submitted s = [4]"
    by (simp add: demo_run_def demo_posted_def hs_init_def big_worker_call_def big_worker_main_def signal_work_def
        numeral_eq_Suc)
  then obtain s where s: "run_hs demo_run demo_posted = Some s" "cl s = R_idle" "submitted s = [4]" by blast
  have "hs_reachable demo_fn True s"
    by (rule run_hs_reachable [OF demo_posted_reachable _ s(1)]) (auto simp: demo_run_def)
  from worker_runs_each_call_once [OF this s(2)] s show ?thesis by (simp add: demo_fn_def)
qed

theorem handshake_returns_witness:
  "cl demo_posted = R_enter 4 \<and> (\<exists>s'. (hs_work demo_fn)\<^sup>*\<^sup>* demo_posted s' \<and> cl s' \<in> {R_idle, D_gone})"
  using handshake_returns [OF demo_posted_reachable] by (simp add: demo_posted_def)

theorem worker_gone_before_free_witness:
  "\<exists>s. run_hs [big_worker_destroy, big_worker_destroy, big_worker_main demo_fn, big_worker_main demo_fn, big_worker_destroy]
       ((hs_init True)\<lparr>cl := D_enter\<rparr>) = Some s \<and> cl s = D_free \<and> wk s = W_over \<and> mtx s = None"
proof -
  let ?fs = "[big_worker_destroy, big_worker_destroy, big_worker_main demo_fn, big_worker_main demo_fn, big_worker_destroy]"
  let ?u = "(hs_init True)\<lparr>cl := D_enter\<rparr>"
  have u: "hs_reachable demo_fn True ?u" using hs_exit [of "hs_init True" demo_fn] by (auto simp: hs_init_def)
  have "\<exists>s. run_hs ?fs ?u = Some s \<and> cl s = D_free"
    by (simp add: hs_init_def big_worker_destroy_def big_worker_main_def signal_work_def)
  then obtain s where s: "run_hs ?fs ?u = Some s" "cl s = D_free" by blast
  have "hs_reachable demo_fn True s" by (rule run_hs_reachable [OF u _ s(1)]) auto
  from worker_gone_before_free [OF this] s show ?thesis by simp
qed

end
