(* ===== verification/Audio_Mixer.thy ===== *)
theory Audio_Mixer
  imports C_String
begin

text \<open>
  The primary audio HAL (\<^verbatim>\<open>src/audio/audio_hw.c\<close>), first part: the sound card and tinyalsa, which are
  an argument of the model, the state of the audio device, the mixer helpers, and the playback and
  capture routes with their reference counts. Each route is shown to be a \<open>counted_route\<close>, and to leave the
  other alone.
\<close>

unbundle bit_operations_syntax

section \<open>Sound card and C library\<close>

text \<open>What the HAL asks of tinyalsa and of the system; every request that has an effect is logged.\<close>

datatype pcm_dev = PCM_OUT | PCM_IN

datatype alsa_call =
  A_mixer_open
| A_mixer_close
| A_set_value string nat int
| A_set_enum string string
| A_pcm_open pcm_dev
| A_pcm_close handle
| A_pcm_write handle string
| A_pcm_read handle nat
| A_htimestamp handle
| A_usleep u32
| A_calloc
| A_now

text \<open>The answers, as functions of the log; an errno result is an \<open>int\<close>, 0 for success. A PCM that is
  opened is a handle and whether it is ready; \<^verbatim>\<open>pcm_open\<close> and \<^verbatim>\<open>calloc\<close> may depend on what is in use. The inline functions and the device mask of the platform
  headers are fields too.\<close>

record alsa =
  t_mixer_open :: "alsa_call list \<Rightarrow> bool"
  t_ctl :: "string \<Rightarrow> bool"
  t_num_values :: "string \<Rightarrow> nat"
  t_set_value :: "alsa_call list \<Rightarrow> string \<Rightarrow> nat \<Rightarrow> int \<Rightarrow> int"
  t_num_enums :: "string \<Rightarrow> nat"
  t_enum_string :: "string \<Rightarrow> nat \<Rightarrow> string option"
  t_set_enum :: "alsa_call list \<Rightarrow> string \<Rightarrow> string \<Rightarrow> int"
  t_pcm_open :: "handle set \<Rightarrow> alsa_call list \<Rightarrow> pcm_dev \<Rightarrow> (handle \<times> bool) option"
  t_pcm_write :: "alsa_call list \<Rightarrow> handle \<Rightarrow> string \<Rightarrow> int"
  t_pcm_read :: "alsa_call list \<Rightarrow> handle \<Rightarrow> nat \<Rightarrow> int \<times> string"
  t_htimestamp :: "alsa_call list \<Rightarrow> handle \<Rightarrow> int \<times> u32 \<times> (int \<times> int)"
  t_calloc :: "handle set \<Rightarrow> alsa_call list \<Rightarrow> handle option"
  t_now :: "alsa_call list \<Rightarrow> int"
  t_long_bits :: nat
  t_out_all :: u32
  t_out_frame_size :: "u32 \<Rightarrow> nat"
  t_in_frame_size :: "u32 \<Rightarrow> nat"
  t_in_channel_count :: "u32 \<Rightarrow> nat"

definition ENODEV :: int where "ENODEV = 19"
definition ENOENT :: int where "ENOENT = 2"
definition EINVAL :: int where "EINVAL = 22"
definition ENOMEM :: int where "ENOMEM = 12"
definition ENOSYS :: int where "ENOSYS = 38"
definition ENODATA :: int where "ENODATA = 61"

lemmas [const_defs] = ENODEV_def ENOENT_def EINVAL_def ENOMEM_def ENOSYS_def ENODATA_def

section \<open>The device\<close>

definition GAIN_ENUM_COUNT :: int where "GAIN_ENUM_COUNT = 16"
definition GAIN_ENUM_MUTE :: int where "GAIN_ENUM_MUTE = 15"
definition GAIN_ENUM_DEFAULT :: int where "GAIN_ENUM_DEFAULT = 12"

definition kGainIndexByStep :: "int list" where
  "kGainIndexByStep = [15, 12, 11, 10, 9, 8, 7, 6, 5, 4, 3, 2, 1, 0]"

definition GAIN_STEP_COUNT :: nat where "GAIN_STEP_COUNT = length kGainIndexByStep"

definition kInputRates :: "u32 list" where "kInputRates = [8000, 16000, 32000, 48000]"

text \<open>The card's own state: the selected item of each enumerated control, the values of the others,
  and the PCM handles that are open.\<close>

record card =
  alog :: "alsa_call list"
  enums :: "string \<rightharpoonup> string"
  ints :: "string \<times> nat \<rightharpoonup> int"
  pcms :: "handle set"

record xd_audio_device = card +
  mixer :: bool
  out_route_refs :: int
  in_route_refs :: int
  out_amp :: "string option"
  out_streams :: int
  mic_mute :: bool
  audio_mode :: int
  gain_index :: int

definition say :: "alsa_call \<Rightarrow> xd_audio_device \<Rightarrow> xd_audio_device" where
  "say c s = s\<lparr>alog := alog s @ [c]\<rparr>"

definition ctl_set_value :: "alsa \<Rightarrow> string \<Rightarrow> nat \<Rightarrow> int \<Rightarrow> xd_audio_device \<Rightarrow> int \<times> xd_audio_device" where
  "ctl_set_value al name i v s =
     (let r = t_set_value al (alog s) name i v;
          s = say (A_set_value name i v) s
      in (r, if r = 0 then s\<lparr>ints := (ints s)((name, i) \<mapsto> v)\<rparr> else s))"

definition ctl_set_enum :: "alsa \<Rightarrow> string \<Rightarrow> string \<Rightarrow> xd_audio_device \<Rightarrow> int \<times> xd_audio_device" where
  "ctl_set_enum al name v s =
     (let r = t_set_enum al (alog s) name v;
          s = say (A_set_enum name v) s
      in (r, if r = 0 then s\<lparr>enums := (enums s)(name \<mapsto> v)\<rparr> else s))"

section \<open>Mixer\<close>

definition adev_mixer_locked :: "alsa \<Rightarrow> xd_audio_device \<Rightarrow> bool \<times> xd_audio_device" where
  "adev_mixer_locked al s =
     (if mixer s then (True, s)
      else let ok = t_mixer_open al (alog s) in (ok, (say A_mixer_open s)\<lparr>mixer := ok\<rparr>))"

fun set_values :: "alsa \<Rightarrow> string \<Rightarrow> int \<Rightarrow> nat list \<Rightarrow> xd_audio_device \<Rightarrow> int \<times> xd_audio_device" where
  "set_values al name v [] s = (0, s)"
| "set_values al name v (i # is) s =
     (let (r, s) = ctl_set_value al name i v s in
      if r \<noteq> 0 then (r, s) else set_values al name v is s)"

definition mixer_set_int :: "alsa \<Rightarrow> string \<Rightarrow> int \<Rightarrow> xd_audio_device \<Rightarrow> int \<times> xd_audio_device" where
  "mixer_set_int al name v s =
     (if \<not> t_ctl al name then (- ENOENT, s)
      else set_values al name v [0..<t_num_values al name] s)"

definition mixer_set_str :: "alsa \<Rightarrow> string \<Rightarrow> string \<Rightarrow> xd_audio_device \<Rightarrow> int \<times> xd_audio_device" where
  "mixer_set_str al name v s =
     (if \<not> t_ctl al name then (- ENOENT, s) else ctl_set_enum al name v s)"

definition mixer_set_enum_index :: "alsa \<Rightarrow> string \<Rightarrow> int \<Rightarrow> xd_audio_device \<Rightarrow> int \<times> xd_audio_device" where
  "mixer_set_enum_index al name i s =
     (if \<not> t_ctl al name then (- ENOENT, s)
      else if i < 0 \<or> int (t_num_enums al name) \<le> i then (- EINVAL, s)
      else case t_enum_string al name (nat i) of
        None \<Rightarrow> (- EINVAL, s)
      | Some v \<Rightarrow> ctl_set_enum al name v s)"

definition AUDIO_DEVICE_OUT_SPEAKER :: u32 where "AUDIO_DEVICE_OUT_SPEAKER = 0x2"
definition AUDIO_DEVICE_OUT_WIRED_HEADSET :: u32 where "AUDIO_DEVICE_OUT_WIRED_HEADSET = 0x4"
definition AUDIO_DEVICE_OUT_WIRED_HEADPHONE :: u32 where "AUDIO_DEVICE_OUT_WIRED_HEADPHONE = 0x8"

definition amp_ctl_for_devices :: "alsa \<Rightarrow> u32 \<Rightarrow> string" where
  "amp_ctl_for_devices al devices =
     (let out = devices AND t_out_all al;
          headphone = out AND (AUDIO_DEVICE_OUT_WIRED_HEADSET OR AUDIO_DEVICE_OUT_WIRED_HEADPHONE) \<noteq> 0;
          speaker = out AND AUDIO_DEVICE_OUT_SPEAKER \<noteq> 0
      in
        if headphone \<and> speaker then ''Headset_Speaker_Amp_Switch''
        else if headphone then ''Audio_Amp_Switch''
        else ''Speaker_Amp_Switch'')"

section \<open>Routes\<close>

text \<open>In \<open>adev_route_out_retarget\<close> the case of no amp would be a lookup of a \<^verbatim>\<open>NULL\<close> name; it does not
  arise, as \<open>out_ok\<close> below shows.

  The mixer calls whose results the route functions only report.\<close>

definition out_path_on :: "alsa \<Rightarrow> string \<Rightarrow> xd_audio_device \<Rightarrow> xd_audio_device" where
  "out_path_on al amp s =
     (let (_, s) = mixer_set_int al ''O03 I05 Switch'' 1 s;
          (_, s) = mixer_set_int al ''O04 I06 Switch'' 1 s;
          (_, s) = mixer_set_str al amp ''On'' s;
          (_, s) = mixer_set_enum_index al ''Headset_PGAL_GAIN'' (gain_index s) s;
          (_, s) = mixer_set_enum_index al ''Headset_PGAR_GAIN'' (gain_index s) s
      in s)"

definition adev_route_out_enable :: "alsa \<Rightarrow> u32 \<Rightarrow> xd_audio_device \<Rightarrow> int \<times> xd_audio_device" where
  "adev_route_out_enable al devices s =
     (let amp = amp_ctl_for_devices al devices;
          (m, s) = adev_mixer_locked al s
      in
        if \<not> m then (- ENODEV, s)
        else
          let refs = out_route_refs s;
              s = s\<lparr>out_route_refs := refs + 1\<rparr>
          in if refs > 0 then (0, s) else (0, out_path_on al amp (s\<lparr>out_amp := Some amp\<rparr>)))"

definition adev_route_out_retarget :: "alsa \<Rightarrow> u32 \<Rightarrow> xd_audio_device \<Rightarrow> xd_audio_device" where
  "adev_route_out_retarget al devices s =
     (let amp = amp_ctl_for_devices al devices in
      if out_route_refs s \<le> 0 \<or> out_amp s = Some amp then s
      else
        let (m, s) = adev_mixer_locked al s in
        if \<not> m then s
        else
          let (_, s) = (case out_amp s of Some a \<Rightarrow> mixer_set_str al a ''Off'' s | None \<Rightarrow> (- ENOENT, s));
              (_, s) = mixer_set_str al amp ''On'' s
          in s\<lparr>out_amp := Some amp\<rparr>)"

definition adev_route_out_disable :: "alsa \<Rightarrow> xd_audio_device \<Rightarrow> xd_audio_device" where
  "adev_route_out_disable al s =
     (if out_route_refs s \<le> 0 then s
      else
        let s = s\<lparr>out_route_refs := out_route_refs s - 1\<rparr> in
        if out_route_refs s > 0 then s
        else
          let (m, s) = adev_mixer_locked al s in
          if \<not> m then s
          else
            let (_, s) = mixer_set_str al (case out_amp s of Some a \<Rightarrow> a | None \<Rightarrow> ''Speaker_Amp_Switch'') ''Off'' s;
                s = s\<lparr>out_amp := None\<rparr>;
                (_, s) = mixer_set_int al ''O03 I05 Switch'' 0 s;
                (_, s) = mixer_set_int al ''O04 I06 Switch'' 0 s
            in s)"

definition in_path_on :: "alsa \<Rightarrow> xd_audio_device \<Rightarrow> xd_audio_device" where
  "in_path_on al s =
     (let (_, s) = mixer_set_int al ''O09 I03 Switch'' 1 s;
          (_, s) = mixer_set_int al ''O10 I04 Switch'' 1 s;
          (_, s) = mixer_set_str al ''Audio_ADC_1_Switch'' ''On'' s;
          (_, s) = mixer_set_str al ''Audio_Preamp1_Switch'' ''AIN1'' s
      in s)"

definition adev_route_in_enable :: "alsa \<Rightarrow> xd_audio_device \<Rightarrow> int \<times> xd_audio_device" where
  "adev_route_in_enable al s =
     (let (m, s) = adev_mixer_locked al s in
      if \<not> m then (- ENODEV, s)
      else
        let refs = in_route_refs s;
            s = s\<lparr>in_route_refs := refs + 1\<rparr>
        in if refs > 0 then (0, s) else (0, in_path_on al s))"

definition adev_route_in_disable :: "alsa \<Rightarrow> xd_audio_device \<Rightarrow> xd_audio_device" where
  "adev_route_in_disable al s =
     (if in_route_refs s \<le> 0 then s
      else
        let s = s\<lparr>in_route_refs := in_route_refs s - 1\<rparr> in
        if in_route_refs s > 0 then s
        else
          let (m, s) = adev_mixer_locked al s in
          if \<not> m then s
          else
            let (_, s) = mixer_set_str al ''Audio_Preamp1_Switch'' ''OPEN'' s;
                (_, s) = mixer_set_str al ''Audio_ADC_1_Switch'' ''Off'' s;
                (_, s) = mixer_set_int al ''O09 I03 Switch'' 0 s;
                (_, s) = mixer_set_int al ''O10 I04 Switch'' 0 s
            in s)"

definition rate_is_supported_in :: "u32 \<Rightarrow> bool" where
  "rate_is_supported_in rate \<longleftrightarrow> rate \<in> set kInputRates"


section \<open>Frames\<close>

lemma mixer_locked_frame [simp]:
  "out_route_refs (snd (adev_mixer_locked al s)) = out_route_refs s"
  "in_route_refs (snd (adev_mixer_locked al s)) = in_route_refs s"
  "out_amp (snd (adev_mixer_locked al s)) = out_amp s"
  "out_streams (snd (adev_mixer_locked al s)) = out_streams s"
  "mic_mute (snd (adev_mixer_locked al s)) = mic_mute s"
  "gain_index (snd (adev_mixer_locked al s)) = gain_index s"
  "enums (snd (adev_mixer_locked al s)) = enums s"
  "ints (snd (adev_mixer_locked al s)) = ints s"
  "pcms (snd (adev_mixer_locked al s)) = pcms s"
  by (simp_all add: adev_mixer_locked_def say_def Let_def)

lemma set_value_frame [simp]:
  "out_route_refs (snd (ctl_set_value al n i v s)) = out_route_refs s"
  "in_route_refs (snd (ctl_set_value al n i v s)) = in_route_refs s"
  "out_amp (snd (ctl_set_value al n i v s)) = out_amp s"
  "out_streams (snd (ctl_set_value al n i v s)) = out_streams s"
  "mic_mute (snd (ctl_set_value al n i v s)) = mic_mute s"
  "gain_index (snd (ctl_set_value al n i v s)) = gain_index s"
  "mixer (snd (ctl_set_value al n i v s)) = mixer s"
  "enums (snd (ctl_set_value al n i v s)) = enums s"
  "pcms (snd (ctl_set_value al n i v s)) = pcms s"
  by (simp_all add: ctl_set_value_def say_def Let_def)

lemma set_values_frame [simp]:
  "out_route_refs (snd (set_values al n v is s)) = out_route_refs s"
  "in_route_refs (snd (set_values al n v is s)) = in_route_refs s"
  "out_amp (snd (set_values al n v is s)) = out_amp s"
  "out_streams (snd (set_values al n v is s)) = out_streams s"
  "mic_mute (snd (set_values al n v is s)) = mic_mute s"
  "gain_index (snd (set_values al n v is s)) = gain_index s"
  "mixer (snd (set_values al n v is s)) = mixer s"
  "enums (snd (set_values al n v is s)) = enums s"
  "pcms (snd (set_values al n v is s)) = pcms s"
  by (induction "is" arbitrary: s) (simp_all add: Let_def case_prod_beta)

lemma set_int_frame [simp]:
  "out_route_refs (snd (mixer_set_int al n v s)) = out_route_refs s"
  "in_route_refs (snd (mixer_set_int al n v s)) = in_route_refs s"
  "out_amp (snd (mixer_set_int al n v s)) = out_amp s"
  "out_streams (snd (mixer_set_int al n v s)) = out_streams s"
  "mic_mute (snd (mixer_set_int al n v s)) = mic_mute s"
  "gain_index (snd (mixer_set_int al n v s)) = gain_index s"
  "mixer (snd (mixer_set_int al n v s)) = mixer s"
  "enums (snd (mixer_set_int al n v s)) = enums s"
  "pcms (snd (mixer_set_int al n v s)) = pcms s"
  by (simp_all add: mixer_set_int_def)

lemma set_enum_frame [simp]:
  "out_route_refs (snd (ctl_set_enum al n v s)) = out_route_refs s"
  "in_route_refs (snd (ctl_set_enum al n v s)) = in_route_refs s"
  "out_amp (snd (ctl_set_enum al n v s)) = out_amp s"
  "out_streams (snd (ctl_set_enum al n v s)) = out_streams s"
  "mic_mute (snd (ctl_set_enum al n v s)) = mic_mute s"
  "gain_index (snd (ctl_set_enum al n v s)) = gain_index s"
  "mixer (snd (ctl_set_enum al n v s)) = mixer s"
  "ints (snd (ctl_set_enum al n v s)) = ints s"
  "pcms (snd (ctl_set_enum al n v s)) = pcms s"
  by (simp_all add: ctl_set_enum_def say_def Let_def)

lemma set_str_frame [simp]:
  "out_route_refs (snd (mixer_set_str al n v s)) = out_route_refs s"
  "in_route_refs (snd (mixer_set_str al n v s)) = in_route_refs s"
  "out_amp (snd (mixer_set_str al n v s)) = out_amp s"
  "out_streams (snd (mixer_set_str al n v s)) = out_streams s"
  "mic_mute (snd (mixer_set_str al n v s)) = mic_mute s"
  "gain_index (snd (mixer_set_str al n v s)) = gain_index s"
  "mixer (snd (mixer_set_str al n v s)) = mixer s"
  "ints (snd (mixer_set_str al n v s)) = ints s"
  "pcms (snd (mixer_set_str al n v s)) = pcms s"
  by (simp_all add: mixer_set_str_def)

lemma set_enum_index_frame [simp]:
  "out_route_refs (snd (mixer_set_enum_index al n i s)) = out_route_refs s"
  "in_route_refs (snd (mixer_set_enum_index al n i s)) = in_route_refs s"
  "out_amp (snd (mixer_set_enum_index al n i s)) = out_amp s"
  "out_streams (snd (mixer_set_enum_index al n i s)) = out_streams s"
  "mic_mute (snd (mixer_set_enum_index al n i s)) = mic_mute s"
  "gain_index (snd (mixer_set_enum_index al n i s)) = gain_index s"
  "mixer (snd (mixer_set_enum_index al n i s)) = mixer s"
  "ints (snd (mixer_set_enum_index al n i s)) = ints s"
  "pcms (snd (mixer_set_enum_index al n i s)) = pcms s"
  by (simp_all add: mixer_set_enum_index_def split: option.split)

lemma set_enum_index_other: "m \<noteq> n \<Longrightarrow> enums (snd (mixer_set_enum_index al n i s)) m = enums s m"
  by (simp add: mixer_set_enum_index_def ctl_set_enum_def say_def Let_def split: option.split)

section \<open>A card that works\<close>

text \<open>The controls of the board exist and take what they are given: the behaviour of this codec's
  driver under which the routes are correct.\<close>

definition amps :: "string list" where
  "amps = [''Headset_Speaker_Amp_Switch'', ''Audio_Amp_Switch'', ''Speaker_Amp_Switch'']"

definition switches :: "string list" where
  "switches = [''O03 I05 Switch'', ''O04 I06 Switch'', ''O09 I03 Switch'', ''O10 I04 Switch'']"

definition good_card :: "alsa \<Rightarrow> bool" where
  "good_card al \<longleftrightarrow> (\<forall>h. t_mixer_open al h) \<and>
     (\<forall>n \<in> set (amps @ switches @ [''Audio_ADC_1_Switch'', ''Audio_Preamp1_Switch'']). t_ctl al n) \<and>
     (\<forall>n \<in> set switches. 0 < t_num_values al n) \<and>
     (\<forall>h n i v. t_set_value al h n i v = 0) \<and> (\<forall>h n v. t_set_enum al h n v = 0)"

lemma good_mixer [simp]: "good_card al \<Longrightarrow> fst (adev_mixer_locked al s)"
  by (simp add: good_card_def adev_mixer_locked_def)

lemma good_set_str:
  "good_card al \<Longrightarrow> n \<in> set (amps @ [''Audio_ADC_1_Switch'', ''Audio_Preamp1_Switch'']) \<Longrightarrow>
     enums (snd (mixer_set_str al n v s)) = (enums s)(n \<mapsto> v)"
  by (auto simp: good_card_def mixer_set_str_def ctl_set_enum_def say_def Let_def)

lemma good_set_values:
  "good_card al \<Longrightarrow> ints (snd (set_values al n v is s)) = (\<lambda>(m, i). if m = n \<and> i \<in> set is then Some v else ints s (m, i))"
  by (induction "is" arbitrary: s)
    (auto simp: good_card_def ctl_set_value_def say_def Let_def fun_eq_iff)

lemma good_set_int:
  "good_card al \<Longrightarrow> n \<in> set switches \<Longrightarrow>
     ints (snd (mixer_set_int al n v s)) (m, 0) = (if m = n then Some v else ints s (m, 0))"
  by (auto simp: mixer_set_int_def good_set_values) (auto simp: good_card_def)

lemma amp_in_amps [simp]: "amp_ctl_for_devices al d \<in> set amps"
  by (simp add: amp_ctl_for_devices_def amps_def Let_def)

section \<open>The output route\<close>

definition amps_on :: "xd_audio_device \<Rightarrow> string set" where
  "amps_on s = {a \<in> set amps. enums s a = Some ''On''}"

lemma amps_on_cong: "enums s = enums t \<Longrightarrow> amps_on s = amps_on t"
  by (simp add: amps_on_def)

lemma amps_on_On: "a \<in> set amps \<Longrightarrow> enums t = (enums s)(a \<mapsto> ''On'') \<Longrightarrow> amps_on t = insert a (amps_on s)"
  by (auto simp: amps_on_def)

lemma amps_on_Off: "enums t = (enums s)(a \<mapsto> ''Off'') \<Longrightarrow> amps_on t = amps_on s - {a}"
  by (auto simp: amps_on_def)

definition out_ok :: "xd_audio_device \<Rightarrow> bool" where
  "out_ok s \<longleftrightarrow> 0 \<le> out_route_refs s \<and>
     (if out_route_refs s = 0 then amps_on s = {}
      else \<exists>a \<in> set amps. out_amp s = Some a \<and> amps_on s = {a}) \<and>
     (\<forall>w \<in> {''O03 I05 Switch'', ''O04 I06 Switch''}. (ints s (w, 0) = Some 1) = (0 < out_route_refs s))"

definition in_ok :: "xd_audio_device \<Rightarrow> bool" where
  "in_ok s \<longleftrightarrow> 0 \<le> in_route_refs s \<and>
     (enums s ''Audio_ADC_1_Switch'' = Some ''On'') = (0 < in_route_refs s) \<and>
     (enums s ''Audio_Preamp1_Switch'' = Some ''AIN1'') = (0 < in_route_refs s) \<and>
     (\<forall>w \<in> {''O09 I03 Switch'', ''O10 I04 Switch''}. (ints s (w, 0) = Some 1) = (0 < in_route_refs s))"

lemma amps_other: "a \<in> set amps \<Longrightarrow> a \<noteq> ''Headset_PGAL_GAIN'' \<and> a \<noteq> ''Headset_PGAR_GAIN'' \<and>
    a \<noteq> ''Audio_ADC_1_Switch'' \<and> a \<noteq> ''Audio_Preamp1_Switch''"
  by (auto simp: amps_def)

lemma sw_in [simp]: "''O03 I05 Switch'' \<in> set switches" "''O04 I06 Switch'' \<in> set switches"
  "''O09 I03 Switch'' \<in> set switches" "''O10 I04 Switch'' \<in> set switches"
  by (simp_all add: switches_def)

lemma out_path_frame [simp]:
  "out_route_refs (out_path_on al a s) = out_route_refs s"
  "in_route_refs (out_path_on al a s) = in_route_refs s"
  "out_amp (out_path_on al a s) = out_amp s"
  "out_streams (out_path_on al a s) = out_streams s"
  "mic_mute (out_path_on al a s) = mic_mute s"
  "gain_index (out_path_on al a s) = gain_index s"
  "mixer (out_path_on al a s) = mixer s"
  "pcms (out_path_on al a s) = pcms s"
  by (simp_all add: out_path_on_def Let_def case_prod_beta)

lemma out_path_enums:
  assumes "good_card al" and "a \<in> set amps" and "n \<noteq> ''Headset_PGAL_GAIN''" and "n \<noteq> ''Headset_PGAR_GAIN''"
  shows "enums (out_path_on al a s) n = (if n = a then Some ''On'' else enums s n)"
  using assms by (simp add: out_path_on_def Let_def case_prod_beta set_enum_index_other good_set_str)

lemma out_path_ints:
  assumes "good_card al"
  shows "ints (out_path_on al a s) (w, 0) =
    (if w = ''O03 I05 Switch'' \<or> w = ''O04 I06 Switch'' then Some 1 else ints s (w, 0))"
  using assms by (simp add: out_path_on_def Let_def case_prod_beta good_set_int)

lemma out_path_amps:
  assumes "good_card al" and "a \<in> set amps"
  shows "amps_on (out_path_on al a s) = insert a (amps_on s)"
  using assms(2) amps_other
  by (auto simp: amps_on_def out_path_enums [OF assms] split: if_splits)

lemma enable_out:
  assumes "good_card al"
  shows "out_route_refs (snd (adev_route_out_enable al d s)) = out_route_refs s + 1"
    and "0 < out_route_refs s \<Longrightarrow> enums (snd (adev_route_out_enable al d s)) = enums s \<and>
      ints (snd (adev_route_out_enable al d s)) = ints s \<and> out_amp (snd (adev_route_out_enable al d s)) = out_amp s"
    and "out_route_refs s \<le> 0 \<Longrightarrow> amps_on (snd (adev_route_out_enable al d s)) = insert (amp_ctl_for_devices al d) (amps_on s) \<and>
      ints (snd (adev_route_out_enable al d s)) (''O03 I05 Switch'', 0) = Some 1 \<and>
      ints (snd (adev_route_out_enable al d s)) (''O04 I06 Switch'', 0) = Some 1 \<and>
      out_amp (snd (adev_route_out_enable al d s)) = Some (amp_ctl_for_devices al d)"
  using assms
  by (simp_all add: adev_route_out_enable_def Let_def case_prod_beta out_path_ints out_path_amps)
    (simp add: amps_on_def)

lemma enable_out_ok:
  assumes "good_card al" and "out_ok s"
  shows "out_ok (snd (adev_route_out_enable al d s))"
proof (cases "0 < out_route_refs s")
  case True
  with enable_out [OF assms(1), where s = s and d = d] assms(2) show ?thesis
    by (auto simp: out_ok_def amps_on_def)
next
  case False
  with assms(2) have "out_route_refs s = 0" "amps_on s = {}" by (auto simp: out_ok_def split: if_splits)
  with enable_out [OF assms(1), where s = s and d = d] show ?thesis
    unfolding out_ok_def by (simp add: amps_def [symmetric])
qed

lemma disable_out:
  assumes "good_card al"
  shows "out_route_refs (adev_route_out_disable al s) = (if out_route_refs s \<le> 0 then out_route_refs s else out_route_refs s - 1)"
    and "out_route_refs s \<noteq> 1 \<Longrightarrow> enums (adev_route_out_disable al s) = enums s \<and>
      ints (adev_route_out_disable al s) = ints s \<and> out_amp (adev_route_out_disable al s) = out_amp s"
    and "out_route_refs s = 1 \<Longrightarrow> out_amp s = Some a \<Longrightarrow> a \<in> set amps \<Longrightarrow> 
      amps_on (adev_route_out_disable al s) = amps_on s - {a} \<and>
      ints (adev_route_out_disable al s) (''O03 I05 Switch'', 0) = Some 0 \<and>
      ints (adev_route_out_disable al s) (''O04 I06 Switch'', 0) = Some 0"
  using assms
  by (simp_all add: adev_route_out_disable_def Let_def case_prod_beta good_set_int good_set_str amps_on_Off)

lemma disable_out_ok:
  assumes "good_card al" and "out_ok s"
  shows "out_ok (adev_route_out_disable al s)"
proof (cases "out_route_refs s = 1")
  case True
  with assms(2) obtain a where a: "a \<in> set amps" "out_amp s = Some a" "amps_on s = {a}" by (auto simp: out_ok_def)
  with disable_out(1) [OF assms(1), of s] disable_out(3) [OF assms(1) True] True show ?thesis
    unfolding out_ok_def by simp
next
  case False
  then have "0 < out_route_refs (adev_route_out_disable al s) \<longleftrightarrow> 0 < out_route_refs s"
    using disable_out(1) [OF assms(1), of s] by auto
  with disable_out(1,2) [OF assms(1), of s] False assms(2) show ?thesis
    by (auto simp: out_ok_def amps_on_def split: if_splits)
qed

lemma retarget_out:
  assumes "good_card al"
  shows "out_route_refs (adev_route_out_retarget al d s) = out_route_refs s"
    and "ints (adev_route_out_retarget al d s) = ints s"
    and "out_route_refs s \<le> 0 \<Longrightarrow> adev_route_out_retarget al d s = s"
    and "0 < out_route_refs s \<Longrightarrow> out_amp s = Some a \<Longrightarrow> a \<in> set amps \<Longrightarrow> amps_on s = {a} \<Longrightarrow>
      amps_on (adev_route_out_retarget al d s) = {amp_ctl_for_devices al d} \<and>
      out_amp (adev_route_out_retarget al d s) = Some (amp_ctl_for_devices al d)"
proof -
  show "out_route_refs (adev_route_out_retarget al d s) = out_route_refs s"
    "ints (adev_route_out_retarget al d s) = ints s"
    "out_route_refs s \<le> 0 \<Longrightarrow> adev_route_out_retarget al d s = s"
    by (simp_all add: adev_route_out_retarget_def Let_def case_prod_beta split: option.split)
  assume h: "0 < out_route_refs s" "out_amp s = Some a" "a \<in> set amps" "amps_on s = {a}"
  show "amps_on (adev_route_out_retarget al d s) = {amp_ctl_for_devices al d} \<and>
      out_amp (adev_route_out_retarget al d s) = Some (amp_ctl_for_devices al d)"
  proof (cases "a = amp_ctl_for_devices al d")
    case False
    define u where "u = snd (mixer_set_str al a ''Off'' (snd (adev_mixer_locked al s)))"
    define v where "v = snd (mixer_set_str al (amp_ctl_for_devices al d) ''On'' u)"
    have "amps_on u = {}"
      using amps_on_Off [of u s a] h good_set_str [OF assms, of a] by (simp add: u_def)
    then have "amps_on v = {amp_ctl_for_devices al d}"
      using amps_on_On [of "amp_ctl_for_devices al d" v u] good_set_str [OF assms, of "amp_ctl_for_devices al d"]
      by (simp add: v_def)
    moreover have "adev_route_out_retarget al d s = v\<lparr>out_amp := Some (amp_ctl_for_devices al d)\<rparr>"
      using h False assms by (simp add: adev_route_out_retarget_def Let_def case_prod_beta u_def v_def)
    ultimately show ?thesis by (simp add: amps_on_def)
  qed (use h in \<open>simp add: adev_route_out_retarget_def\<close>)
qed

lemma retarget_out_ok:
  assumes "good_card al" and "out_ok s"
  shows "out_ok (adev_route_out_retarget al d s)"
proof (cases "0 < out_route_refs s")
  case True
  with assms(2) obtain a where "a \<in> set amps" "out_amp s = Some a" "amps_on s = {a}" by (auto simp: out_ok_def)
  with retarget_out [OF assms(1), where s = s and d = d] True assms(2) show ?thesis
    unfolding out_ok_def by simp
qed (use assms retarget_out(3) in \<open>simp add: not_less\<close>)

section \<open>The input route\<close>

lemma in_path_frame [simp]:
  "out_route_refs (in_path_on al s) = out_route_refs s"
  "in_route_refs (in_path_on al s) = in_route_refs s"
  "out_amp (in_path_on al s) = out_amp s"
  "out_streams (in_path_on al s) = out_streams s"
  "mic_mute (in_path_on al s) = mic_mute s"
  "gain_index (in_path_on al s) = gain_index s"
  "mixer (in_path_on al s) = mixer s"
  "pcms (in_path_on al s) = pcms s"
  by (simp_all add: in_path_on_def Let_def case_prod_beta)

lemma enable_in:
  assumes "good_card al"
  shows "in_route_refs (snd (adev_route_in_enable al s)) = in_route_refs s + 1"
    and "0 < in_route_refs s \<Longrightarrow> enums (snd (adev_route_in_enable al s)) = enums s \<and>
      ints (snd (adev_route_in_enable al s)) = ints s"
    and "in_route_refs s \<le> 0 \<Longrightarrow>
      enums (snd (adev_route_in_enable al s)) = (enums s)(''Audio_ADC_1_Switch'' \<mapsto> ''On'', ''Audio_Preamp1_Switch'' \<mapsto> ''AIN1'')"
    and "in_route_refs s \<le> 0 \<Longrightarrow> ints (snd (adev_route_in_enable al s)) (w, 0) =
      (if w = ''O09 I03 Switch'' \<or> w = ''O10 I04 Switch'' then Some 1 else ints s (w, 0))"
  using assms
  by (simp_all add: adev_route_in_enable_def in_path_on_def Let_def case_prod_beta good_set_int good_set_str)

lemma disable_in:
  assumes "good_card al"
  shows "in_route_refs (adev_route_in_disable al s) = (if in_route_refs s \<le> 0 then in_route_refs s else in_route_refs s - 1)"
    and "in_route_refs s \<noteq> 1 \<Longrightarrow> enums (adev_route_in_disable al s) = enums s \<and> ints (adev_route_in_disable al s) = ints s"
    and "in_route_refs s = 1 \<Longrightarrow>
      enums (adev_route_in_disable al s) = (enums s)(''Audio_Preamp1_Switch'' \<mapsto> ''OPEN'', ''Audio_ADC_1_Switch'' \<mapsto> ''Off'')"
    and "in_route_refs s = 1 \<Longrightarrow> ints (adev_route_in_disable al s) (w, 0) =
      (if w = ''O09 I03 Switch'' \<or> w = ''O10 I04 Switch'' then Some 0 else ints s (w, 0))"
  using assms
  by (simp_all add: adev_route_in_disable_def Let_def case_prod_beta good_set_int good_set_str)

lemma enable_in_ok:
  assumes "good_card al" and "in_ok s"
  shows "in_ok (snd (adev_route_in_enable al s))"
proof (cases "0 < in_route_refs s")
  case True
  with enable_in(1,2) [OF assms(1), of s] assms(2) show ?thesis by (simp add: in_ok_def)
next
  case False
  with enable_in [OF assms(1), where s = s] assms(2) show ?thesis by (simp add: in_ok_def)
qed

lemma disable_in_ok:
  assumes "good_card al" and "in_ok s"
  shows "in_ok (adev_route_in_disable al s)"
proof (cases "in_route_refs s = 1")
  case True
  with disable_in [OF assms(1), where s = s] show ?thesis by (simp add: in_ok_def)
next
  case False
  then have "0 < in_route_refs (adev_route_in_disable al s) \<longleftrightarrow> 0 < in_route_refs s"
    using disable_in(1) [OF assms(1), of s] by auto
  with disable_in(1,2) [OF assms(1), of s] False assms(2) show ?thesis
    by (auto simp: in_ok_def split: if_splits)
qed

section \<open>Each route leaves the other alone\<close>

lemma not_amps [simp]: "''Audio_ADC_1_Switch'' \<notin> set amps" "''Audio_Preamp1_Switch'' \<notin> set amps"
  by (simp_all add: amps_def)

lemma amps_on_other: "n \<notin> set amps \<Longrightarrow> m \<notin> set amps \<Longrightarrow> enums t = (enums s)(n \<mapsto> v, m \<mapsto> u) \<Longrightarrow> amps_on t = amps_on s"
proof -
  assume h: "n \<notin> set amps" "m \<notin> set amps" "enums t = (enums s)(n \<mapsto> v, m \<mapsto> u)"
  have "enums t a = enums s a" if "a \<in> set amps" for a
  proof -
    have "a \<noteq> n" "a \<noteq> m" using h(1,2) that by auto
    then show ?thesis by (simp add: h(3))
  qed
  then show ?thesis unfolding amps_on_def by (intro Collect_cong conj_cong refl) simp
qed

lemma in_enable_keeps:
  assumes "good_card al"
  shows "amps_on (snd (adev_route_in_enable al s)) = amps_on s"
    and "w \<noteq> ''O09 I03 Switch'' \<Longrightarrow> w \<noteq> ''O10 I04 Switch'' \<Longrightarrow> ints (snd (adev_route_in_enable al s)) (w, 0) = ints s (w, 0)"
proof -
  consider "0 < in_route_refs s" | "in_route_refs s \<le> 0" by linarith
  then show "amps_on (snd (adev_route_in_enable al s)) = amps_on s"
  proof cases
    case 1
    then show ?thesis using enable_in(2) [OF assms 1] amps_on_cong by blast
  next
    case 2
    show ?thesis by (rule amps_on_other [OF not_amps enable_in(3) [OF assms 2]])
  qed
  show "w \<noteq> ''O09 I03 Switch'' \<Longrightarrow> w \<noteq> ''O10 I04 Switch'' \<Longrightarrow> ints (snd (adev_route_in_enable al s)) (w, 0) = ints s (w, 0)"
    using enable_in(2,4) [OF assms, of s] by (cases "0 < in_route_refs s") auto
qed

lemma in_disable_keeps:
  assumes "good_card al"
  shows "amps_on (adev_route_in_disable al s) = amps_on s"
    and "w \<noteq> ''O09 I03 Switch'' \<Longrightarrow> w \<noteq> ''O10 I04 Switch'' \<Longrightarrow> ints (adev_route_in_disable al s) (w, 0) = ints s (w, 0)"
proof -
  show "amps_on (adev_route_in_disable al s) = amps_on s"
  proof (cases "in_route_refs s = 1")
    case True
    show ?thesis by (rule amps_on_other [OF not_amps(2,1) disable_in(3) [OF assms True]])
  next
    case False
    then show ?thesis using disable_in(2) [OF assms False] amps_on_cong by blast
  qed
  show "w \<noteq> ''O09 I03 Switch'' \<Longrightarrow> w \<noteq> ''O10 I04 Switch'' \<Longrightarrow> ints (adev_route_in_disable al s) (w, 0) = ints s (w, 0)"
    using disable_in(2,4) [OF assms, of s] by (cases "in_route_refs s = 1") auto
qed

lemma in_frame [simp]:
  "out_route_refs (snd (adev_route_in_enable al s)) = out_route_refs s"
  "out_amp (snd (adev_route_in_enable al s)) = out_amp s"
  "out_streams (snd (adev_route_in_enable al s)) = out_streams s"
  "gain_index (snd (adev_route_in_enable al s)) = gain_index s"
  "pcms (snd (adev_route_in_enable al s)) = pcms s"
  "out_route_refs (adev_route_in_disable al s) = out_route_refs s"
  "out_amp (adev_route_in_disable al s) = out_amp s"
  "out_streams (adev_route_in_disable al s) = out_streams s"
  "gain_index (adev_route_in_disable al s) = gain_index s"
  "pcms (adev_route_in_disable al s) = pcms s"
  by (simp_all add: adev_route_in_enable_def adev_route_in_disable_def Let_def case_prod_beta)

lemma out_frame [simp]:
  "in_route_refs (snd (adev_route_out_enable al d s)) = in_route_refs s"
  "out_streams (snd (adev_route_out_enable al d s)) = out_streams s"
  "gain_index (snd (adev_route_out_enable al d s)) = gain_index s"
  "pcms (snd (adev_route_out_enable al d s)) = pcms s"
  "in_route_refs (adev_route_out_disable al s) = in_route_refs s"
  "out_streams (adev_route_out_disable al s) = out_streams s"
  "gain_index (adev_route_out_disable al s) = gain_index s"
  "pcms (adev_route_out_disable al s) = pcms s"
  "in_route_refs (adev_route_out_retarget al d s) = in_route_refs s"
  "out_streams (adev_route_out_retarget al d s) = out_streams s"
  "gain_index (adev_route_out_retarget al d s) = gain_index s"
  "pcms (adev_route_out_retarget al d s) = pcms s"
  by (simp_all add: adev_route_out_enable_def adev_route_out_disable_def adev_route_out_retarget_def Let_def case_prod_beta
      split: option.split)

lemma in_keeps_out:
  assumes "good_card al"
  shows "out_ok (snd (adev_route_in_enable al s)) = out_ok s" and "out_ok (adev_route_in_disable al s) = out_ok s"
  by (simp_all add: out_ok_def in_enable_keeps [OF assms] in_disable_keeps [OF assms])

text \<open>What the output route writes: amps, gains and its own two switches.\<close>

definition same_in :: "xd_audio_device \<Rightarrow> xd_audio_device \<Rightarrow> bool" where
  "same_in s t \<longleftrightarrow> in_route_refs t = in_route_refs s \<and>
     (\<forall>n \<in> {''Audio_ADC_1_Switch'', ''Audio_Preamp1_Switch''}. enums t n = enums s n) \<and>
     (\<forall>w \<in> {''O09 I03 Switch'', ''O10 I04 Switch''}. ints t (w, 0) = ints s (w, 0))"

lemma same_in_ok: "same_in s t \<Longrightarrow> in_ok t = in_ok s"
  by (simp add: same_in_def in_ok_def)

lemma not_amp_ctl: "a \<in> set amps \<Longrightarrow> ''Audio_ADC_1_Switch'' \<noteq> a \<and> ''Audio_Preamp1_Switch'' \<noteq> a"
  using not_amps by blast

lemma enable_keeps_in: "good_card al \<Longrightarrow> same_in s (snd (adev_route_out_enable al d s))"
  using not_amp_ctl [OF amp_in_amps [of al d]]
  by (simp add: same_in_def adev_route_out_enable_def Let_def case_prod_beta out_path_ints out_path_enums)

lemma disable_keeps_in:
  assumes "good_card al" and "out_ok s"
  shows "same_in s (adev_route_out_disable al s)"
proof (cases "out_route_refs s = 1")
  case True
  with assms(2) obtain b where "b \<in> set amps" "out_amp s = Some b" by (auto simp: out_ok_def)
  with not_amp_ctl [of b] assms(1) True show ?thesis
    by (simp add: same_in_def adev_route_out_disable_def Let_def case_prod_beta good_set_int good_set_str)
next
  case False
  then show ?thesis using disable_out(2) [OF assms(1), of s] by (simp add: same_in_def)
qed

lemma retarget_keeps_in:
  assumes "good_card al" and "out_ok s"
  shows "same_in s (adev_route_out_retarget al d s)"
proof (cases "0 < out_route_refs s")
  case True
  with assms(2) obtain b where "b \<in> set amps" "out_amp s = Some b" by (auto simp: out_ok_def)
  with not_amp_ctl [of b] not_amp_ctl [OF amp_in_amps [of al d]] assms(1) True show ?thesis
    by (simp add: same_in_def adev_route_out_retarget_def Let_def case_prod_beta good_set_str)
qed (use retarget_out(3) [OF assms(1)] in \<open>simp add: same_in_def\<close>)

lemmas out_keeps_in = enable_keeps_in [THEN same_in_ok] disable_keeps_in [THEN same_in_ok] retarget_keeps_in [THEN same_in_ok]

section \<open>Counted routes\<close>

text \<open>The contract both routes offer their streams: while the state is sound, every enable counts one
  user more, every disable one less, and both keep it sound.\<close>

locale counted_route =
  fixes refs :: "'s \<Rightarrow> int" and sound :: "'s \<Rightarrow> bool" and enable :: "'s \<Rightarrow> 's" and disable :: "'s \<Rightarrow> 's"
  assumes refs_nonneg: "sound s \<Longrightarrow> 0 \<le> refs s"
    and enable_sound: "sound s \<Longrightarrow> sound (enable s)"
    and enable_refs: "sound s \<Longrightarrow> refs (enable s) = refs s + 1"
    and disable_sound: "sound s \<Longrightarrow> sound (disable s)"
    and disable_refs: "sound s \<Longrightarrow> 0 < refs s \<Longrightarrow> refs (disable s) = refs s - 1"
begin

text \<open>A user that fails to open its PCM gives back what it took.\<close>

lemma undo: "sound s \<Longrightarrow> sound (disable (enable s)) \<and> refs (disable (enable s)) = refs s"
  using enable_sound [of s] enable_refs [of s] refs_nonneg [of s] disable_sound disable_refs by force

lemma users:
  "sound s \<Longrightarrow> int (length (filter Not (take k us))) \<le> refs s + int (length (filter (\<lambda>b. b) (take k us))) \<Longrightarrow>
   (\<And>j. j < k \<Longrightarrow> int (length (filter Not (take j us))) \<le> refs s + int (length (filter (\<lambda>b. b) (take j us)))) \<Longrightarrow> k \<le> length us \<Longrightarrow>
   sound (fold (\<lambda>b. if b then enable else disable) (take k us) s) \<and>
   refs (fold (\<lambda>b. if b then enable else disable) (take k us) s) =
     refs s + int (length (filter (\<lambda>b. b) (take k us))) - int (length (filter Not (take k us)))"
proof (induction k)
  case (Suc k)
  then have n: "k < length us" by simp
  let ?t = "fold (\<lambda>b. if b then enable else disable) (take k us) s"
  have ih: "sound ?t" "refs ?t = refs s + int (length (filter (\<lambda>b. b) (take k us))) - int (length (filter Not (take k us)))"
    using Suc by auto
  with Suc.prems(2) n show ?case
    by (auto simp: take_Suc_conv_app_nth enable_sound disable_sound enable_refs disable_refs)
qed simp

end

interpretation out_route: counted_route out_route_refs "\<lambda>s. good_card al \<and> out_ok s"
    "\<lambda>s. snd (adev_route_out_enable al d s)" "adev_route_out_disable al" for al d
  by unfold_locales (auto simp: enable_out_ok disable_out_ok enable_out disable_out(1) out_ok_def [THEN iffD1])

interpretation in_route: counted_route in_route_refs "\<lambda>s. good_card al \<and> in_ok s"
    "\<lambda>s. snd (adev_route_in_enable al s)" "adev_route_in_disable al" for al
  by unfold_locales (auto simp: enable_in_ok disable_in_ok enable_in(1) disable_in(1) in_ok_def [THEN iffD1])

end
