(* ===== verification/Audio_Stream.thy ===== *)
theory Audio_Stream
  imports Audio_Mixer Complex_Main
begin

text \<open>
  The operations of the audio HAL's output and input streams (\<^verbatim>\<open>out_*\<close> and \<^verbatim>\<open>in_*\<close> of
  \<^verbatim>\<open>src/audio/audio_hw.c\<close>). An operation takes the stream and the device it belongs to and returns both;
  what runs under the stream's lock is one step.
\<close>

section \<open>Streams\<close>

record pcm_config =
  cf_rate :: u32
  cf_channels :: u32
  cf_period_size :: u32
  cf_period_count :: u32

record xd_stream_out =
  o_pcm :: "handle option"
  o_config :: pcm_config
  o_standby :: bool
  o_routed :: bool
  o_open_failed :: bool
  o_channel_mask :: u32
  o_devices :: u32
  o_frames_written :: u64

record xd_stream_in =
  i_pcm :: "handle option"
  i_config :: pcm_config
  i_standby :: bool
  i_routed :: bool
  i_channel_mask :: u32
  i_devices :: u32

text \<open>Constants of the platform's audio headers.\<close>

definition AUDIO_FORMAT_DEFAULT :: u32 where "AUDIO_FORMAT_DEFAULT = 0"
definition AUDIO_FORMAT_PCM_16_BIT :: u32 where "AUDIO_FORMAT_PCM_16_BIT = 1"
definition AUDIO_CHANNEL_OUT_STEREO :: u32 where "AUDIO_CHANNEL_OUT_STEREO = 3"
definition AUDIO_CHANNEL_IN_STEREO :: u32 where "AUDIO_CHANNEL_IN_STEREO = 12"
definition STREAM_ROUTING :: string where "STREAM_ROUTING = ''routing''"

definition OUT_SAMPLE_RATE :: u32 where "OUT_SAMPLE_RATE = 48000"
definition OUT_CHANNEL_COUNT :: u32 where "OUT_CHANNEL_COUNT = 2"
definition OUT_PERIOD_SIZE :: u32 where "OUT_PERIOD_SIZE = 960"
definition OUT_PERIOD_COUNT :: u32 where "OUT_PERIOD_COUNT = 4"
definition IN_PERIOD_SIZE :: u32 where "IN_PERIOD_SIZE = 960"
definition IN_PERIOD_COUNT :: u32 where "IN_PERIOD_COUNT = 4"

lemmas [const_defs] = AUDIO_FORMAT_DEFAULT_def AUDIO_FORMAT_PCM_16_BIT_def AUDIO_CHANNEL_OUT_STEREO_def
  AUDIO_CHANNEL_IN_STEREO_def STREAM_ROUTING_def OUT_SAMPLE_RATE_def OUT_CHANNEL_COUNT_def OUT_PERIOD_SIZE_def
  OUT_PERIOD_COUNT_def IN_PERIOD_SIZE_def IN_PERIOD_COUNT_def

definition now_ns :: "alsa \<Rightarrow> xd_audio_device \<Rightarrow> int \<times> xd_audio_device" where
  "now_ns al s = (t_now al (alog s), say A_now s)"

definition pcm_close :: "handle \<Rightarrow> xd_audio_device \<Rightarrow> xd_audio_device" where
  "pcm_close p s = (say (A_pcm_close p) s)\<lparr>pcms := pcms s - {p}\<rparr>"

definition pcm_open :: "alsa \<Rightarrow> pcm_dev \<Rightarrow> xd_audio_device \<Rightarrow> (handle \<times> bool) option \<times> xd_audio_device" where
  "pcm_open al dev s =
     (let r = t_pcm_open al (pcms s) (alog s) dev;
          s = say (A_pcm_open dev) s
      in (r, case r of Some (p, _) \<Rightarrow> s\<lparr>pcms := insert p (pcms s)\<rparr> | None \<Rightarrow> s))"

text \<open>\<^verbatim>\<open>usleep(bytes * 1000000LL / frame_size / rate)\<close>: 64-bit arithmetic, a 32-bit argument.\<close>

definition pace :: "nat \<Rightarrow> nat \<Rightarrow> u32 \<Rightarrow> xd_audio_device \<Rightarrow> xd_audio_device" where
  "pace bytes frame_size rate s = say (A_usleep (of_nat (bytes * 1000000 mod 2 ^ 64 div frame_size div unat rate))) s"

section \<open>Playback\<close>

definition out_close_pcm_locked :: "alsa \<Rightarrow> xd_stream_out \<Rightarrow> xd_audio_device \<Rightarrow> int \<times> xd_stream_out \<times> xd_audio_device" where
  "out_close_pcm_locked al out s =
     (let (out, s) = (case o_pcm out of Some p \<Rightarrow> (out\<lparr>o_pcm := None\<rparr>, pcm_close p s) | None \<Rightarrow> (out, s));
          (out, s) = (if o_routed out then (out\<lparr>o_routed := False\<rparr>, adev_route_out_disable al s) else (out, s))
      in (0, out\<lparr>o_standby := True\<rparr>, s))"

definition out_open_pcm_locked :: "alsa \<Rightarrow> xd_stream_out \<Rightarrow> xd_audio_device \<Rightarrow> int \<times> xd_stream_out \<times> xd_audio_device" where
  "out_open_pcm_locked al out s =
     (if o_pcm out \<noteq> None then (0, out, s)
      else
        let (_, s) = adev_route_out_enable al (o_devices out) s;
            out = out\<lparr>o_routed := True\<rparr>;
            (r, s) = pcm_open al PCM_OUT s
        in case r of
             Some (p, True) \<Rightarrow> (0, out\<lparr>o_pcm := Some p, o_standby := False, o_open_failed := False\<rparr>, s)
           | _ \<Rightarrow>
               let out = out\<lparr>o_open_failed := True\<rparr>;
                   s = (case r of Some (p, _) \<Rightarrow> pcm_close p s | None \<Rightarrow> s);
                   s = adev_route_out_disable al s
               in (- ENODEV, out\<lparr>o_routed := False\<rparr>, s))"

definition out_get_sample_rate :: "xd_stream_out \<Rightarrow> u32" where
  "out_get_sample_rate out = cf_rate (o_config out)"

definition out_set_sample_rate :: "xd_stream_out \<Rightarrow> u32 \<Rightarrow> int" where
  "out_set_sample_rate out r = (if r = cf_rate (o_config out) then 0 else - ENOSYS)"

definition out_get_buffer_size :: "alsa \<Rightarrow> xd_stream_out \<Rightarrow> nat" where
  "out_get_buffer_size al out = unat (cf_period_size (o_config out)) * t_out_frame_size al (o_channel_mask out)"

definition out_get_channels :: "xd_stream_out \<Rightarrow> u32" where
  "out_get_channels out = o_channel_mask out"

definition out_get_format :: "xd_stream_out \<Rightarrow> u32" where
  "out_get_format out = AUDIO_FORMAT_PCM_16_BIT"

definition out_set_format :: "xd_stream_out \<Rightarrow> u32 \<Rightarrow> int" where
  "out_set_format out format = (if format = AUDIO_FORMAT_PCM_16_BIT then 0 else - ENOSYS)"

definition out_standby :: "alsa \<Rightarrow> xd_stream_out \<Rightarrow> xd_audio_device \<Rightarrow> int \<times> xd_stream_out \<times> xd_audio_device" where
  "out_standby al out s =
     (let (_, out, s) = (if \<not> o_standby out then out_close_pcm_locked al out s else (0, out, s)) in (0, out, s))"

definition flag :: "bool \<Rightarrow> string" where
  "flag b = (if b then ''1'' else ''0'')"

text \<open>The text the dump writes to the file descriptor.\<close>

definition out_dump :: "xd_stream_out \<Rightarrow> string" where
  "out_dump out =
     ''  out: rate '' @ dec (unat (cf_rate (o_config out))) @ '' ch '' @ dec (unat (cf_channels (o_config out))) @
     '' period '' @ dec (unat (cf_period_size (o_config out))) @ '' x '' @ dec (unat (cf_period_count (o_config out))) @
     '' standby '' @ flag (o_standby out) @ '' routed '' @ flag (o_routed out) @
     '' frames '' @ dec (unat (o_frames_written out)) @ [CHR 0x0A]"

text \<open>\<^verbatim>\<open>out_set_parameters\<close> in its two critical sections: the stream's, which stores the devices and reads
  whether the stream is routed, and the device's, which moves the route. Another operation may run
  between them.\<close>

definition routing_of :: "alsa \<Rightarrow> string option \<Rightarrow> u32 option" where
  "routing_of al kvpairs =
     (case strstr (case kvpairs of Some k \<Rightarrow> cstr k | None \<Rightarrow> []) (STREAM_ROUTING @ ''='') of
        None \<Rightarrow> None
      | Some p \<Rightarrow> Some (word_of_int (atoi (t_long_bits al) (drop (length (STREAM_ROUTING @ ''='')) p))))"

definition set_parameters_store :: "u32 \<Rightarrow> xd_stream_out \<Rightarrow> bool \<times> xd_stream_out" where
  "set_parameters_store devices out = (o_routed out, out\<lparr>o_devices := devices\<rparr>)"

definition set_parameters_apply :: "alsa \<Rightarrow> u32 \<Rightarrow> bool \<Rightarrow> xd_audio_device \<Rightarrow> xd_audio_device" where
  "set_parameters_apply al devices routed s = (if routed then adev_route_out_retarget al devices s else s)"

definition out_set_parameters :: "alsa \<Rightarrow> string option \<Rightarrow> xd_stream_out \<Rightarrow> xd_audio_device \<Rightarrow>
    int \<times> xd_stream_out \<times> xd_audio_device" where
  "out_set_parameters al kvpairs out s =
     (case routing_of al kvpairs of
        None \<Rightarrow> (0, out, s)
      | Some devices \<Rightarrow>
          let (routed, out) = set_parameters_store devices out in
          (0, out, set_parameters_apply al devices routed s))"

definition get_routing :: "string option \<Rightarrow> u32 \<Rightarrow> string" where
  "get_routing keys devices =
     (case keys of
        Some k \<Rightarrow> if strstr (cstr k) STREAM_ROUTING \<noteq> None
                  then snprintf_buf 128 (STREAM_ROUTING @ ''='' @ dec_int (sint devices)) else []
      | None \<Rightarrow> [])"

definition out_get_parameters :: "xd_stream_out \<Rightarrow> string option \<Rightarrow> string" where
  "out_get_parameters out keys = get_routing keys (o_devices out)"

definition out_get_latency :: "xd_stream_out \<Rightarrow> u32" where
  "out_get_latency out = (cf_period_size (o_config out) * cf_period_count (o_config out) * 1000) div cf_rate (o_config out)"

text \<open>The volume in \<^verbatim>\<open>float\<close> arithmetic: \<open>fl\<close> rounds an exact result to a representable number, once for
  each operation. Arguments are finite.\<close>

definition gain_step :: "(real \<Rightarrow> real) \<Rightarrow> real \<Rightarrow> nat" where
  "gain_step fl v = nat \<lfloor>fl (fl (v * real (GAIN_STEP_COUNT - 1)) + 0.5)\<rfloor>"

definition clamp01 :: "real \<Rightarrow> real" where
  "clamp01 v = (let v = (if v < 0 then 0 else v) in if v > 1 then 1 else v)"

definition gain_of :: "(real \<Rightarrow> real) \<Rightarrow> real \<Rightarrow> real \<Rightarrow> int" where
  "gain_of fl left right =
     (let v = clamp01 (fl (fl (left + right) / 2)) in
      if v = 0 then GAIN_ENUM_MUTE else kGainIndexByStep ! gain_step fl v)"

definition out_set_volume :: "alsa \<Rightarrow> (real \<Rightarrow> real) \<Rightarrow> real \<Rightarrow> real \<Rightarrow> xd_audio_device \<Rightarrow> int \<times> xd_audio_device" where
  "out_set_volume al fl left right s =
     (let index = gain_of fl left right;
          s = s\<lparr>gain_index := index\<rparr>;
          (m, s) = (if out_route_refs s > 0 then adev_mixer_locked al s else (False, s));
          s = (if m then
                 let (_, s) = mixer_set_enum_index al ''Headset_PGAL_GAIN'' index s;
                     (_, s) = mixer_set_enum_index al ''Headset_PGAR_GAIN'' index s
                 in s
               else s)
      in (0, s))"

definition out_write :: "alsa \<Rightarrow> string \<Rightarrow> xd_stream_out \<Rightarrow> xd_audio_device \<Rightarrow> nat \<times> xd_stream_out \<times> xd_audio_device" where
  "out_write al buffer out s =
     (let bytes = length buffer;
          fs = t_out_frame_size al (o_channel_mask out);
          rate = cf_rate (o_config out);
          (ret, out, s) = (if o_pcm out = None then out_open_pcm_locked al out s else (0, out, s))
      in case (ret = 0, o_pcm out) of
           (True, Some p) \<Rightarrow>
             let ret = t_pcm_write al (alog s) p buffer;
                 s = say (A_pcm_write p buffer) s
             in
               if ret \<noteq> 0 then
                 let (_, out, s) = out_close_pcm_locked al out s in (bytes, out, pace bytes fs rate s)
               else (bytes, out\<lparr>o_frames_written := o_frames_written out + of_nat (bytes div fs)\<rparr>, s)
         | _ \<Rightarrow> (bytes, out, pace bytes fs rate s))"

definition out_get_render_position :: "xd_stream_out \<Rightarrow> bool \<Rightarrow> int \<times> u32 option" where
  "out_get_render_position out has_dsp_frames =
     (if \<not> has_dsp_frames then (- EINVAL, None) else (0, Some (ucast (o_frames_written out))))"

text \<open>The frames played: those written less those still in the kernel's buffer.\<close>

definition presented :: "u64 \<Rightarrow> u32 \<Rightarrow> u32 \<Rightarrow> u64" where
  "presented frames_written kernel_buffer avail =
     (let queued = (if avail < kernel_buffer then ucast (kernel_buffer - avail) else 0) in
      if frames_written > queued then frames_written - queued else 0)"

text \<open>The position is \<open>None\<close> where the two out parameters are left as they were.\<close>

definition out_get_presentation_position :: "alsa \<Rightarrow> xd_stream_out \<Rightarrow> bool \<Rightarrow> xd_audio_device \<Rightarrow>
    (int \<times> (u64 \<times> int \<times> int) option) \<times> xd_audio_device" where
  "out_get_presentation_position al out has_args s =
     (if \<not> has_args then ((- EINVAL, None), s)
      else
        let (hw, s) = (case o_pcm out of
              Some p \<Rightarrow> (let (r, avail, ts) = t_htimestamp al (alog s) p in
                         (if r = 0 then Some (avail, ts) else None, say (A_htimestamp p) s))
            | None \<Rightarrow> (None, s))
        in case hw of
             Some (avail, ts) \<Rightarrow>
               let kernel_buffer = cf_period_size (o_config out) * cf_period_count (o_config out) in
               ((0, Some (presented (o_frames_written out) kernel_buffer avail, ts)), s)
           | None \<Rightarrow>
               if o_standby out then
                 let (ns, s) = now_ns al s in
                 ((0, Some (o_frames_written out, ns div 1000000000, ns mod 1000000000)), s)
               else ((- ENODATA, None), s))"

definition out_add_audio_effect :: "xd_stream_out \<Rightarrow> int" where "out_add_audio_effect out = 0"

definition out_remove_audio_effect :: "xd_stream_out \<Rightarrow> int" where "out_remove_audio_effect out = 0"

definition out_get_next_write_timestamp :: "xd_stream_out \<Rightarrow> int" where
  "out_get_next_write_timestamp out = - EINVAL"

section \<open>Capture\<close>

definition in_close_pcm_locked :: "alsa \<Rightarrow> xd_stream_in \<Rightarrow> xd_audio_device \<Rightarrow> int \<times> xd_stream_in \<times> xd_audio_device" where
  "in_close_pcm_locked al inp s =
     (let (inp, s) = (case i_pcm inp of Some p \<Rightarrow> (inp\<lparr>i_pcm := None\<rparr>, pcm_close p s) | None \<Rightarrow> (inp, s));
          (inp, s) = (if i_routed inp then (inp\<lparr>i_routed := False\<rparr>, adev_route_in_disable al s) else (inp, s))
      in (0, inp\<lparr>i_standby := True\<rparr>, s))"

definition in_open_pcm_locked :: "alsa \<Rightarrow> xd_stream_in \<Rightarrow> xd_audio_device \<Rightarrow> int \<times> xd_stream_in \<times> xd_audio_device" where
  "in_open_pcm_locked al inp s =
     (if i_pcm inp \<noteq> None then (0, inp, s)
      else
        let (_, s) = adev_route_in_enable al s;
            inp = inp\<lparr>i_routed := True\<rparr>;
            (r, s) = pcm_open al PCM_IN s
        in case r of
             Some (p, True) \<Rightarrow> (0, inp\<lparr>i_pcm := Some p, i_standby := False\<rparr>, s)
           | _ \<Rightarrow>
               let s = (case r of Some (p, _) \<Rightarrow> pcm_close p s | None \<Rightarrow> s);
                   s = adev_route_in_disable al s
               in (- ENODEV, inp\<lparr>i_routed := False\<rparr>, s))"

definition in_get_sample_rate :: "xd_stream_in \<Rightarrow> u32" where
  "in_get_sample_rate inp = cf_rate (i_config inp)"

definition in_set_sample_rate :: "xd_stream_in \<Rightarrow> u32 \<Rightarrow> int" where
  "in_set_sample_rate inp r = (if r = cf_rate (i_config inp) then 0 else - ENOSYS)"

definition in_get_buffer_size :: "alsa \<Rightarrow> xd_stream_in \<Rightarrow> nat" where
  "in_get_buffer_size al inp = unat (cf_period_size (i_config inp)) * t_in_frame_size al (i_channel_mask inp)"

definition in_get_channels :: "xd_stream_in \<Rightarrow> u32" where
  "in_get_channels inp = i_channel_mask inp"

definition in_get_format :: "xd_stream_in \<Rightarrow> u32" where
  "in_get_format inp = AUDIO_FORMAT_PCM_16_BIT"

definition in_set_format :: "xd_stream_in \<Rightarrow> u32 \<Rightarrow> int" where
  "in_set_format inp format = (if format = AUDIO_FORMAT_PCM_16_BIT then 0 else - ENOSYS)"

definition in_standby :: "alsa \<Rightarrow> xd_stream_in \<Rightarrow> xd_audio_device \<Rightarrow> int \<times> xd_stream_in \<times> xd_audio_device" where
  "in_standby al inp s =
     (let (_, inp, s) = (if \<not> i_standby inp then in_close_pcm_locked al inp s else (0, inp, s)) in (0, inp, s))"

definition in_dump :: "xd_stream_in \<Rightarrow> string" where
  "in_dump inp =
     ''  in: rate '' @ dec (unat (cf_rate (i_config inp))) @ '' ch '' @ dec (unat (cf_channels (i_config inp))) @
     '' period '' @ dec (unat (cf_period_size (i_config inp))) @ '' x '' @ dec (unat (cf_period_count (i_config inp))) @
     '' standby '' @ flag (i_standby inp) @ '' routed '' @ flag (i_routed inp) @ [CHR 0x0A]"

definition in_set_parameters :: "alsa \<Rightarrow> string option \<Rightarrow> xd_stream_in \<Rightarrow> int \<times> xd_stream_in" where
  "in_set_parameters al kvpairs inp =
     (case routing_of al kvpairs of
        None \<Rightarrow> (0, inp)
      | Some devices \<Rightarrow> (0, inp\<lparr>i_devices := devices\<rparr>))"

definition in_get_parameters :: "xd_stream_in \<Rightarrow> string option \<Rightarrow> string" where
  "in_get_parameters inp keys = get_routing keys (i_devices inp)"

definition in_set_gain :: "xd_stream_in \<Rightarrow> int" where "in_set_gain inp = 0"

text \<open>The buffer that the caller sees. \<^verbatim>\<open>pcm_read\<close> returns 0 only after it has filled all of it (tinyalsa's contract); the parameter's data is
  cut or padded to that length, which is no claim about the code.\<close>

definition silence :: "nat \<Rightarrow> string" where
  "silence n = replicate n NUL"

definition filled :: "nat \<Rightarrow> string \<Rightarrow> string" where
  "filled n d = take n (d @ silence n)"

definition in_read :: "alsa \<Rightarrow> nat \<Rightarrow> xd_stream_in \<Rightarrow> xd_audio_device \<Rightarrow> (nat \<times> string) \<times> xd_stream_in \<times> xd_audio_device" where
  "in_read al bytes inp s =
     (let fs = t_in_frame_size al (i_channel_mask inp);
          rate = cf_rate (i_config inp);
          (ret, inp, s) = (if i_pcm inp = None then in_open_pcm_locked al inp s else (0, inp, s))
      in case (ret = 0, i_pcm inp) of
           (True, Some p) \<Rightarrow>
             let (ret, data) = t_pcm_read al (alog s) p bytes;
                 s = say (A_pcm_read p bytes) s
             in
               if ret \<noteq> 0 then
                 let (_, inp, s) = in_close_pcm_locked al inp s in ((bytes, silence bytes), inp, pace bytes fs rate s)
               else ((bytes, if mic_mute s then silence bytes else filled bytes data), inp, s)
         | _ \<Rightarrow> ((bytes, silence bytes), inp, pace bytes fs rate s))"

definition in_get_input_frames_lost :: "xd_stream_in \<Rightarrow> u32" where "in_get_input_frames_lost inp = 0"

definition in_add_audio_effect :: "xd_stream_in \<Rightarrow> int" where "in_add_audio_effect inp = 0"

definition in_remove_audio_effect :: "xd_stream_in \<Rightarrow> int" where "in_remove_audio_effect inp = 0"

end
