(* ===== verification/Audio_Device.thy ===== *)
theory Audio_Device
  imports Audio_Stream
begin

text \<open>
  The operations of the audio device (\<^verbatim>\<open>adev_*\<close> of \<^verbatim>\<open>src/audio/audio_hw.c\<close>), the memory that holds its
  streams, and a step function over all the operations that change state, in any order.
\<close>

section \<open>The device's operations\<close>

text \<open>The HAL's memory: the device and the streams that are allocated, by address.\<close>

record hal =
  adev :: xd_audio_device
  outs :: "handle \<rightharpoonup> xd_stream_out"
  ins :: "handle \<rightharpoonup> xd_stream_in"

definition sys_calloc :: "alsa \<Rightarrow> hal \<Rightarrow> handle option \<times> hal" where
  "sys_calloc al h =
     (t_calloc al (dom (outs h) \<union> dom (ins h)) (alog (adev h)), h\<lparr>adev := say A_calloc (adev h)\<rparr>)"

record audio_config =
  ac_sample_rate :: u32
  ac_channel_mask :: u32
  ac_format :: u32

definition new_out :: "u32 \<Rightarrow> xd_stream_out" where
  "new_out devices = \<lparr>o_pcm = None,
     o_config = \<lparr>cf_rate = OUT_SAMPLE_RATE, cf_channels = OUT_CHANNEL_COUNT, cf_period_size = OUT_PERIOD_SIZE,
       cf_period_count = OUT_PERIOD_COUNT\<rparr>,
     o_standby = True, o_routed = False, o_open_failed = False, o_channel_mask = AUDIO_CHANNEL_OUT_STEREO,
     o_devices = devices, o_frames_written = 0\<rparr>"

definition adev_open_output_stream :: "alsa \<Rightarrow> u32 \<Rightarrow> audio_config \<Rightarrow> hal \<Rightarrow> (int \<times> handle option \<times> audio_config) \<times> hal" where
  "adev_open_output_stream al devices config h =
     (if out_streams (adev h) > 0 then ((- ENOSYS, None, config), h)
      else
        let h = h\<lparr>adev := (adev h)\<lparr>out_streams := out_streams (adev h) + 1\<rparr>\<rparr>;
            (m, h) = sys_calloc al h
        in case m of
             None \<Rightarrow> ((- ENOMEM, None, config), h\<lparr>adev := (adev h)\<lparr>out_streams := out_streams (adev h) - 1\<rparr>\<rparr>)
           | Some p \<Rightarrow>
               let out = new_out devices in
               ((0, Some p, \<lparr>ac_sample_rate = cf_rate (o_config out), ac_channel_mask = o_channel_mask out,
                  ac_format = AUDIO_FORMAT_PCM_16_BIT\<rparr>),
                h\<lparr>outs := (outs h)(p \<mapsto> out)\<rparr>))"

definition adev_close_output_stream :: "alsa \<Rightarrow> handle \<Rightarrow> xd_stream_out \<Rightarrow> hal \<Rightarrow> hal" where
  "adev_close_output_stream al p out h =
     (let (_, out, s) = out_close_pcm_locked al out (adev h);
          s = (if out_streams s > 0 then s\<lparr>out_streams := out_streams s - 1\<rparr> else s)
      in h\<lparr>adev := s, outs := (outs h)(p := None)\<rparr>)"

text \<open>\<^verbatim>\<open>size_t\<close> arithmetic of the word size.\<close>

definition adev_get_input_buffer_size :: "alsa \<Rightarrow> audio_config \<Rightarrow> nat" where
  "adev_get_input_buffer_size al config =
     (let channels = t_in_channel_count al (ac_channel_mask config);
          rate = (if ac_sample_rate config \<noteq> 0 then ac_sample_rate config else 48000);
          channels = (if channels < 1 then 1 else channels);
          channels = (if channels > 2 then 2 else channels);
          frames = unat IN_PERIOD_SIZE * unat rate mod 2 ^ t_long_bits al div 48000;
          frames = (if frames = 0 then 1 else frames)
      in frames * channels * 2)"

definition new_in :: "u32 \<Rightarrow> audio_config \<Rightarrow> nat \<Rightarrow> xd_stream_in" where
  "new_in devices config channels = \<lparr>i_pcm = None,
     i_config = \<lparr>cf_rate = ac_sample_rate config, cf_channels = of_nat channels,
       cf_period_size = IN_PERIOD_SIZE * ac_sample_rate config div 48000, cf_period_count = IN_PERIOD_COUNT\<rparr>,
     i_standby = True, i_routed = False, i_channel_mask = ac_channel_mask config, i_devices = devices\<rparr>"

definition adev_open_input_stream :: "alsa \<Rightarrow> u32 \<Rightarrow> audio_config \<Rightarrow> hal \<Rightarrow> (int \<times> handle option \<times> audio_config) \<times> hal" where
  "adev_open_input_stream al devices config h =
     (if ac_format config \<noteq> AUDIO_FORMAT_DEFAULT \<and> ac_format config \<noteq> AUDIO_FORMAT_PCM_16_BIT
      then ((- EINVAL, None, config\<lparr>ac_format := AUDIO_FORMAT_PCM_16_BIT\<rparr>), h)
      else if \<not> rate_is_supported_in (ac_sample_rate config)
      then ((- EINVAL, None, config\<lparr>ac_sample_rate := 48000\<rparr>), h)
      else
        let channels = t_in_channel_count al (ac_channel_mask config) in
        if channels < 1 \<or> channels > 2
        then ((- EINVAL, None, config\<lparr>ac_channel_mask := AUDIO_CHANNEL_IN_STEREO\<rparr>), h)
        else
          let (m, h) = sys_calloc al h in
          case m of
            None \<Rightarrow> ((- ENOMEM, None, config), h)
          | Some p \<Rightarrow> ((0, Some p, config), h\<lparr>ins := (ins h)(p \<mapsto> new_in devices config channels)\<rparr>))"

definition adev_close_input_stream :: "alsa \<Rightarrow> handle \<Rightarrow> xd_stream_in \<Rightarrow> hal \<Rightarrow> hal" where
  "adev_close_input_stream al p inp h =
     (let (_, inp, s) = in_close_pcm_locked al inp (adev h)
      in h\<lparr>adev := s, ins := (ins h)(p := None)\<rparr>)"

definition adev_init_check :: "alsa \<Rightarrow> xd_audio_device \<Rightarrow> int \<times> xd_audio_device" where
  "adev_init_check al s = (let (m, s) = adev_mixer_locked al s in (if m then 0 else - ENODEV, s))"

definition adev_set_parameters :: "string option \<Rightarrow> int" where "adev_set_parameters kvpairs = 0"

definition adev_get_parameters :: "string option \<Rightarrow> string" where "adev_get_parameters keys = []"

definition adev_set_voice_volume :: int where "adev_set_voice_volume = - ENOSYS"
definition adev_set_master_volume :: int where "adev_set_master_volume = - ENOSYS"
definition adev_get_master_volume :: int where "adev_get_master_volume = - ENOSYS"
definition adev_set_master_mute :: int where "adev_set_master_mute = - ENOSYS"
definition adev_get_master_mute :: int where "adev_get_master_mute = - ENOSYS"

definition adev_set_mode :: "int \<Rightarrow> xd_audio_device \<Rightarrow> int \<times> xd_audio_device" where
  "adev_set_mode m s = (0, s\<lparr>audio_mode := m\<rparr>)"

definition adev_set_mic_mute :: "bool \<Rightarrow> xd_audio_device \<Rightarrow> int \<times> xd_audio_device" where
  "adev_set_mic_mute b s = (0, s\<lparr>mic_mute := b\<rparr>)"

definition adev_get_mic_mute :: "bool \<Rightarrow> xd_audio_device \<Rightarrow> int \<times> bool option" where
  "adev_get_mic_mute has_state s = (if \<not> has_state then (- EINVAL, None) else (0, Some (mic_mute s)))"

definition adev_dump :: "xd_audio_device \<Rightarrow> string" where
  "adev_dump s =
     ''xdplus audio HAL: card 0, mixer '' @ (if mixer s then ''open'' else ''closed'') @
     '', out refs '' @ dec_int (out_route_refs s) @ '', in refs '' @ dec_int (in_route_refs s) @
     '', mic_mute '' @ flag (mic_mute s) @ '', mode '' @ dec_int (audio_mode s) @
     '', gain index '' @ dec_int (gain_index s) @ [CHR 0x0A]"

text \<open>Closing frees the device: nothing of it is left but the card.\<close>

definition adev_close :: "hal \<Rightarrow> int \<times> card" where
  "adev_close h = (0, card.truncate (if mixer (adev h) then say A_mixer_close (adev h) else adev h))"

text \<open>The device a successful open returns, over the card as it is; \<open>None\<close> with the error otherwise.\<close>

definition new_adev :: "card \<Rightarrow> xd_audio_device" where
  "new_adev c = card.extend c (xd_audio_device.fields False 0 0 None 0 False 0 GAIN_ENUM_DEFAULT)"

definition adev_open :: "alsa \<Rightarrow> string \<Rightarrow> card \<Rightarrow> int \<times> hal option \<times> card" where
  "adev_open al name c =
     (if name \<noteq> ''audio_hw_if'' then (- EINVAL, None, c)
      else
        let m = t_calloc al {} (alog c);
            c = c\<lparr>alog := alog c @ [A_calloc]\<rparr>
        in case m of
             None \<Rightarrow> (- ENOMEM, None, c)
           | Some _ \<Rightarrow> (0, Some \<lparr>adev = new_adev c, outs = Map.empty, ins = Map.empty\<rparr>, c))"

section \<open>Any sequence of operations\<close>

text \<open>The operations of the interface that change the state; a stream operation on an address that is
  not a stream of the kind does not occur. \<open>SetRoutingStore\<close> and \<open>SetRoutingApply\<close> are the two halves of
  \<^verbatim>\<open>out_set_parameters\<close>.\<close>

datatype audio_op =
  OpenOut u32 audio_config
| CloseOut handle
| OpenIn u32 audio_config
| CloseIn handle
| Write handle string
| Read handle nat
| StandbyOut handle
| StandbyIn handle
| SetRoutingStore handle u32
| SetRoutingApply u32 bool
| SetVolume real real
| SetInParameters handle "string option"
| SetMicMute bool
| SetMode int
| InitCheck
| Position handle

definition on_out :: "(xd_stream_out \<Rightarrow> xd_audio_device \<Rightarrow> xd_stream_out \<times> xd_audio_device) \<Rightarrow> handle \<Rightarrow> hal \<Rightarrow> hal" where
  "on_out f p h =
     (case outs h p of
        None \<Rightarrow> h
      | Some out \<Rightarrow> (case f out (adev h) of (out, s) \<Rightarrow> h\<lparr>adev := s, outs := (outs h)(p \<mapsto> out)\<rparr>))"

definition on_in :: "(xd_stream_in \<Rightarrow> xd_audio_device \<Rightarrow> xd_stream_in \<times> xd_audio_device) \<Rightarrow> handle \<Rightarrow> hal \<Rightarrow> hal" where
  "on_in f p h =
     (case ins h p of
        None \<Rightarrow> h
      | Some inp \<Rightarrow> (case f inp (adev h) of (inp, s) \<Rightarrow> h\<lparr>adev := s, ins := (ins h)(p \<mapsto> inp)\<rparr>))"

fun hal_step :: "alsa \<Rightarrow> (real \<Rightarrow> real) \<Rightarrow> audio_op \<Rightarrow> hal \<Rightarrow> hal" where
  "hal_step al fl (OpenOut d c) h = snd (adev_open_output_stream al d c h)"
| "hal_step al fl (CloseOut p) h = (case outs h p of None \<Rightarrow> h | Some out \<Rightarrow> adev_close_output_stream al p out h)"
| "hal_step al fl (OpenIn d c) h = snd (adev_open_input_stream al d c h)"
| "hal_step al fl (CloseIn p) h = (case ins h p of None \<Rightarrow> h | Some inp \<Rightarrow> adev_close_input_stream al p inp h)"
| "hal_step al fl (Write p b) h = on_out (\<lambda>out s. snd (out_write al b out s)) p h"
| "hal_step al fl (Read p n) h = on_in (\<lambda>inp s. snd (in_read al n inp s)) p h"
| "hal_step al fl (StandbyOut p) h = on_out (\<lambda>out s. snd (out_standby al out s)) p h"
| "hal_step al fl (StandbyIn p) h = on_in (\<lambda>inp s. snd (in_standby al inp s)) p h"
| "hal_step al fl (SetRoutingStore p d) h = on_out (\<lambda>out s. (snd (set_parameters_store d out), s)) p h"
| "hal_step al fl (SetRoutingApply d r) h = h\<lparr>adev := set_parameters_apply al d r (adev h)\<rparr>"
| "hal_step al fl (SetVolume l r) h = h\<lparr>adev := snd (out_set_volume al fl l r (adev h))\<rparr>"
| "hal_step al fl (SetInParameters p kv) h = on_in (\<lambda>inp s. (snd (in_set_parameters al kv inp), s)) p h"
| "hal_step al fl (SetMicMute b) h = h\<lparr>adev := snd (adev_set_mic_mute b (adev h))\<rparr>"
| "hal_step al fl (SetMode m) h = h\<lparr>adev := snd (adev_set_mode m (adev h))\<rparr>"
| "hal_step al fl InitCheck h = h\<lparr>adev := snd (adev_init_check al (adev h))\<rparr>"
| "hal_step al fl (Position p) h = on_out (\<lambda>out s. (out, snd (out_get_presentation_position al out True s))) p h"

definition hal_run :: "alsa \<Rightarrow> (real \<Rightarrow> real) \<Rightarrow> audio_op list \<Rightarrow> hal \<Rightarrow> hal" where
  "hal_run al fl ops h = fold (hal_step al fl) ops h"

end
