(* ===== verification/Audio_Invariant.thy ===== *)
theory Audio_Invariant
  imports Audio_Device
begin

text \<open>
  The invariant of the audio HAL and its preservation by every operation: reference counts equal the
  number of routed streams, the card's amplifiers and capture path follow the counts, and the PCMs that
  are open are those the streams hold.
\<close>

section \<open>Counting the entries of a map\<close>

definition count_of :: "('b \<Rightarrow> bool) \<Rightarrow> ('a \<rightharpoonup> 'b) \<Rightarrow> int" where
  "count_of P m = int (card {k. case m k of Some x \<Rightarrow> P x | None \<Rightarrow> False})"

definition sat :: "('b \<Rightarrow> bool) \<Rightarrow> 'b option \<Rightarrow> int" where
  "sat P v = (case v of Some x \<Rightarrow> of_bool (P x) | None \<Rightarrow> 0)"

lemma sat_simps [simp]: "sat P None = 0" "sat P (Some x) = of_bool (P x)"
  by (simp_all add: sat_def)

lemma count_upd:
  assumes "finite (dom m)"
  shows "count_of P (m(k := v)) = count_of P m - sat P (m k) + sat P v"
proof -
  let ?S = "\<lambda>m. {k. case m k of Some x \<Rightarrow> P x | None \<Rightarrow> False}"
  have f: "finite (?S m)" by (rule finite_subset [OF _ assms]) (auto split: option.splits)
  have s: "?S (m(k := v)) = (if sat P v = 1 then insert k (?S m - {k}) else ?S m - {k})"
    by (auto simp: sat_def split: option.splits if_splits)
  have "sat P (m k) = of_bool (k \<in> ?S m)" by (auto simp: sat_def split: option.splits)
  moreover have "card (?S m - {k}) = card (?S m) - of_bool (k \<in> ?S m)" by (simp add: card_Diff_singleton_if)
  moreover have "k \<in> ?S m \<Longrightarrow> 0 < card (?S m)" using f card_gt_0_iff by blast
  ultimately show ?thesis
    using f unfolding count_of_def s
    by (auto simp: card_insert_if sat_def of_nat_diff split: option.splits if_splits)
qed

lemma count_empty [simp]: "count_of P Map.empty = 0"
  by (simp add: count_of_def)

lemma count_nonneg [simp]: "0 \<le> count_of P m"
  by (simp add: count_of_def)

section \<open>What a stream operation does to the device\<close>

definition fresh_env :: "alsa \<Rightarrow> bool" where
  "fresh_env al \<longleftrightarrow> (\<forall>H l p. t_calloc al H l = Some p \<longrightarrow> p \<notin> H) \<and>
     (\<forall>H l d p b. t_pcm_open al H l d = Some (p, b) \<longrightarrow> p \<notin> H)"

definition out_stream_ok :: "xd_stream_out \<Rightarrow> bool" where
  "out_stream_ok out \<longleftrightarrow> o_routed out = (o_pcm out \<noteq> None) \<and> o_standby out = (o_pcm out = None)"

definition in_stream_ok :: "xd_stream_in \<Rightarrow> bool" where
  "in_stream_ok inp \<longleftrightarrow> i_routed inp = (i_pcm inp \<noteq> None) \<and> i_standby inp = (i_pcm inp = None)"

text \<open>A stream that held the PCM \<open>a\<close> holds \<open>b\<close>; the card's open PCMs follow.\<close>

definition pcm_trans :: "handle option \<Rightarrow> handle option \<Rightarrow> handle set \<Rightarrow> handle set \<Rightarrow> bool" where
  "pcm_trans a b P Q \<longleftrightarrow> Q = P - set_option a \<union> set_option b \<and> (a = b \<or> set_option b \<inter> P = {}) \<and> set_option a \<subseteq> P"

lemma pcm_trans_refl: "set_option a \<subseteq> P \<Longrightarrow> pcm_trans a a P P"
  by (auto simp: pcm_trans_def)

lemma pcm_trans_trans: "pcm_trans None b P Q \<Longrightarrow> pcm_trans b c Q R \<Longrightarrow> c = b \<or> c = None \<Longrightarrow> pcm_trans None c P R"
  by (cases b) (auto simp: pcm_trans_def)

definition dev_same :: "xd_audio_device \<Rightarrow> xd_audio_device \<Rightarrow> bool" where
  "dev_same s t \<longleftrightarrow> out_streams t = out_streams s \<and> gain_index t = gain_index s"

definition out_trans :: "xd_stream_out \<Rightarrow> xd_audio_device \<Rightarrow> xd_stream_out \<times> xd_audio_device \<Rightarrow> bool" where
  "out_trans out s r \<longleftrightarrow> (case r of (out', t) \<Rightarrow>
     out_stream_ok out' \<and> out_ok t \<and> in_ok t = in_ok s \<and> dev_same s t \<and> in_route_refs t = in_route_refs s \<and>
     out_route_refs t = out_route_refs s - of_bool (o_routed out) + of_bool (o_routed out') \<and>
     pcm_trans (o_pcm out) (o_pcm out') (pcms s) (pcms t))"

definition in_trans :: "xd_stream_in \<Rightarrow> xd_audio_device \<Rightarrow> xd_stream_in \<times> xd_audio_device \<Rightarrow> bool" where
  "in_trans inp s r \<longleftrightarrow> (case r of (inp', t) \<Rightarrow>
     in_stream_ok inp' \<and> in_ok t \<and> out_ok t = out_ok s \<and> dev_same s t \<and> out_route_refs t = out_route_refs s \<and>
     in_route_refs t = in_route_refs s - of_bool (i_routed inp) + of_bool (i_routed inp') \<and>
     pcm_trans (i_pcm inp) (i_pcm inp') (pcms s) (pcms t))"

lemma amps_on_say [simp]: "amps_on (say c s) = amps_on s"
  by (simp add: amps_on_def say_def)

lemma say_simps [simp]:
  "out_route_refs (say c s) = out_route_refs s" "in_route_refs (say c s) = in_route_refs s"
  "out_streams (say c s) = out_streams s" "gain_index (say c s) = gain_index s" "pcms (say c s) = pcms s"
  "mic_mute (say c s) = mic_mute s" "out_ok (say c s) = out_ok s" "in_ok (say c s) = in_ok s"
  by (simp_all add: out_ok_def in_ok_def) (simp_all add: say_def)

lemma pcms_upd_simps [simp]:
  "out_ok (s\<lparr>pcms := P\<rparr>) = out_ok s" "in_ok (s\<lparr>pcms := P\<rparr>) = in_ok s"
  by (simp_all add: out_ok_def in_ok_def amps_on_def)

lemma pcm_close_simps [simp]:
  "out_route_refs (pcm_close p s) = out_route_refs s" "in_route_refs (pcm_close p s) = in_route_refs s"
  "out_streams (pcm_close p s) = out_streams s" "gain_index (pcm_close p s) = gain_index s"
  "pcms (pcm_close p s) = pcms s - {p}" "out_ok (pcm_close p s) = out_ok s" "in_ok (pcm_close p s) = in_ok s"
  by (simp_all add: pcm_close_def)

lemma pcm_open_simps [simp]:
  "out_route_refs (snd (pcm_open al d s)) = out_route_refs s" "in_route_refs (snd (pcm_open al d s)) = in_route_refs s"
  "out_streams (snd (pcm_open al d s)) = out_streams s" "gain_index (snd (pcm_open al d s)) = gain_index s"
  "out_ok (snd (pcm_open al d s)) = out_ok s" "in_ok (snd (pcm_open al d s)) = in_ok s"
  by (simp_all add: pcm_open_def Let_def split: option.split prod.split)

lemma pcm_open_pcms: "pcms (snd (pcm_open al d s)) = pcms s \<union> fst ` set_option (fst (pcm_open al d s))"
  by (auto simp: pcm_open_def Let_def split: option.split)

lemma pcm_open_fresh: "fresh_env al \<Longrightarrow> fst (pcm_open al d s) = Some (p, b) \<Longrightarrow> p \<notin> pcms s"
  unfolding fresh_env_def pcm_open_def Let_def fst_conv by blast

lemma pace_simps [simp]:
  "out_route_refs (pace b f r s) = out_route_refs s" "in_route_refs (pace b f r s) = in_route_refs s"
  "out_streams (pace b f r s) = out_streams s" "gain_index (pace b f r s) = gain_index s"
  "pcms (pace b f r s) = pcms s" "out_ok (pace b f r s) = out_ok s" "in_ok (pace b f r s) = in_ok s"
  by (simp_all add: pace_def)

lemma close_out_trans:
  assumes "good_card al" and "out_ok s" and "out_stream_ok out" and "set_option (o_pcm out) \<subseteq> pcms s"
    and "o_routed out \<Longrightarrow> 0 < out_route_refs s"
  shows "out_trans out s (snd (out_close_pcm_locked al out s))"
    and "o_pcm (fst (snd (out_close_pcm_locked al out s))) = None"
  using assms
  by (cases "o_pcm out"; simp add: out_trans_def out_close_pcm_locked_def out_stream_ok_def dev_same_def disable_out(1)
      disable_out_ok out_keeps_in pcm_trans_def)+

lemma open_out_trans:
  assumes g: "good_card al" and f: "fresh_env al" and o: "out_ok s" and st: "out_stream_ok out" and n: "o_pcm out = None"
  shows "out_trans out s (snd (out_open_pcm_locked al out s))"
    and "fst (out_open_pcm_locked al out s) = 0 \<longleftrightarrow> o_pcm (fst (snd (out_open_pcm_locked al out s))) \<noteq> None"
proof -
  define s1 where "s1 = snd (adev_route_out_enable al (o_devices out) s)"
  define r where "r = fst (pcm_open al PCM_OUT s1)"
  define s2 where "s2 = snd (pcm_open al PCM_OUT s1)"
  have s1: "out_ok s1" "in_ok s1 = in_ok s" "out_route_refs s1 = out_route_refs s + 1" "in_route_refs s1 = in_route_refs s"
    "pcms s1 = pcms s" "out_streams s1 = out_streams s" "gain_index s1 = gain_index s"
    using enable_out_ok [OF g o] out_keeps_in(1) [OF g] enable_out(1) [OF g] by (simp_all add: s1_def)
  have nn: "0 \<le> out_route_refs s" using o by (simp add: out_ok_def)
  have s2: "out_ok s2" "in_ok s2 = in_ok s" "out_route_refs s2 = out_route_refs s + 1" "in_route_refs s2 = in_route_refs s"
    "pcms s2 = pcms s \<union> fst ` set_option r" "out_streams s2 = out_streams s" "gain_index s2 = gain_index s"
    using s1 by (simp_all add: s2_def r_def pcm_open_pcms)
  have fr: "p \<notin> pcms s" if "r = Some (p, b)" for p b
    using pcm_open_fresh [OF f, of PCM_OUT s1 p b] that s1 by (simp add: r_def)
  have e: "out_open_pcm_locked al out s =
    (case r of Some (p, True) \<Rightarrow> (0, out\<lparr>o_routed := True, o_pcm := Some p, o_standby := False, o_open_failed := False\<rparr>, s2)
       | _ \<Rightarrow> (- ENODEV, out\<lparr>o_open_failed := True, o_routed := False\<rparr>,
              adev_route_out_disable al (case r of Some (p, _) \<Rightarrow> pcm_close p s2 | None \<Rightarrow> s2)))"
    using n by (auto simp: out_open_pcm_locked_def s1_def s2_def r_def Let_def case_prod_beta split: option.split bool.split)
  consider p where "r = Some (p, True)" | p where "r = Some (p, False)" | "r = None" by (metis (full_types) option.exhaust surj_pair)
  then show "out_trans out s (snd (out_open_pcm_locked al out s))"
    unfolding e using s2 nn fr st n g disable_out_ok [OF g] out_keeps_in(2) [OF g] 
    by cases (auto simp: out_trans_def out_stream_ok_def dev_same_def pcm_trans_def disable_out(1))
  show "fst (out_open_pcm_locked al out s) = 0 \<longleftrightarrow> o_pcm (fst (snd (out_open_pcm_locked al out s))) \<noteq> None"
    unfolding e using n by (auto simp: ENODEV_def split: option.split bool.split)
qed

lemma out_trans_trans:
  "o_pcm out = None \<Longrightarrow> out_trans out s (out1, s1) \<Longrightarrow> out_trans out1 s1 (out2, s2) \<Longrightarrow>
     o_pcm out2 = o_pcm out1 \<or> o_pcm out2 = None \<Longrightarrow> out_trans out s (out2, s2)"
  using pcm_trans_trans [of "o_pcm out1" "pcms s" "pcms s1" "o_pcm out2" "pcms s2"]
  by (auto simp: out_trans_def dev_same_def)

lemma out_trans_same:
  assumes "out_stream_ok out'" and "o_routed out' = o_routed out" and "o_pcm out' = o_pcm out" and "set_option (o_pcm out) \<subseteq> pcms s"
    and "out_ok t" and "in_ok t = in_ok s" and "dev_same s t" and "in_route_refs t = in_route_refs s"
    and "out_route_refs t = out_route_refs s" and "pcms t = pcms s"
  shows "out_trans out s (out', t)"
  using assms by (simp add: out_trans_def pcm_trans_refl)

lemma out_trans_say:
  "out_trans out s (out', t) \<Longrightarrow> out_trans out s (out', pace b f r t)"
  by (simp add: out_trans_def dev_same_def)

text \<open>The part of a write after the PCM is open.\<close>

lemma write_open_trans:
  assumes g: "good_card al" and o: "out_ok s" and st: "out_stream_ok out" and p: "o_pcm out = Some p" "p \<in> pcms s"
    and r: "0 < out_route_refs s"
  shows "out_trans out s (snd (out_write al b out s))"
    and "o_pcm (fst (snd (out_write al b out s))) = o_pcm out \<or> o_pcm (fst (snd (out_write al b out s))) = None"
proof -
  let ?s = "say (A_pcm_write p b) s"
  have c: "out_trans out ?s (snd (out_close_pcm_locked al out ?s))" "o_pcm (fst (snd (out_close_pcm_locked al out ?s))) = None"
    using close_out_trans [OF g, of ?s out] o st p r by simp_all
  then have c': "out_trans out s (snd (out_close_pcm_locked al out ?s))" by (auto simp: out_trans_def dev_same_def)
  show "out_trans out s (snd (out_write al b out s))"
  proof (cases "t_pcm_write al (alog s) p b = 0")
    case True
    then show ?thesis using p o st
      by (auto simp: out_write_def Let_def intro!: out_trans_same) (simp_all add: out_stream_ok_def dev_same_def)
  next
    case False
    then show ?thesis using p c' by (auto simp: out_write_def Let_def case_prod_beta intro!: out_trans_say)
  qed
  show "o_pcm (fst (snd (out_write al b out s))) = o_pcm out \<or> o_pcm (fst (snd (out_write al b out s))) = None"
    using p c(2) by (auto simp: out_write_def Let_def case_prod_beta)
qed

lemma write_trans:
  assumes g: "good_card al" "fresh_env al" and o: "out_ok s" and st: "out_stream_ok out" and p: "set_option (o_pcm out) \<subseteq> pcms s"
    and r: "o_routed out \<Longrightarrow> 0 < out_route_refs s"
  shows "out_trans out s (snd (out_write al b out s))"
proof (cases "o_pcm out")
  case (Some q)
  with write_open_trans(1) [OF g(1) o st Some] p r st show ?thesis by (simp add: out_stream_ok_def)
next
  case None
  obtain e out1 s1 where r1: "out_open_pcm_locked al out s = (e, out1, s1)" by (metis prod.collapse)
  have t1: "out_trans out s (out1, s1)" and e: "e = 0 \<longleftrightarrow> o_pcm out1 \<noteq> None"
    using open_out_trans [OF g o st None] r1 by simp_all
  have f1: "t_out_frame_size al (o_channel_mask out1) = t_out_frame_size al (o_channel_mask out)" "o_config out1 = o_config out"
    using r1 None by (auto simp: out_open_pcm_locked_def Let_def case_prod_beta split: option.splits bool.splits)
  show ?thesis
  proof (cases "o_pcm out1")
    case None
    with e r1 \<open>o_pcm out = None\<close> have "snd (out_write al b out s) = (out1, pace (length b) (t_out_frame_size al (o_channel_mask out)) (cf_rate (o_config out)) s1)"
      by (simp add: out_write_def Let_def)
    with t1 show ?thesis by (simp add: out_trans_say)
  next
    case (Some q)
    have o1: "out_ok s1" "out_stream_ok out1" "q \<in> pcms s1" "0 < out_route_refs s1"
      using t1 Some None o st by (auto simp: out_trans_def pcm_trans_def out_stream_ok_def out_ok_def)
    have "out_write al b out s = out_write al b out1 s1"
      using e Some r1 None f1 by (simp add: out_write_def)
    moreover obtain n out2 s2 where r2: "out_write al b out1 s1 = (n, out2, s2)" by (metis prod.collapse)
    ultimately show ?thesis
      using out_trans_trans [OF None t1, of out2 s2] write_open_trans [OF g(1) o1(1,2) Some o1(3,4), of b] by simp
  qed
qed

lemma standby_out_trans:
  assumes "good_card al" and "out_ok s" and "out_stream_ok out" and "set_option (o_pcm out) \<subseteq> pcms s"
    and "o_routed out \<Longrightarrow> 0 < out_route_refs s"
  shows "out_trans out s (snd (out_standby al out s))"
  using close_out_trans(1) [OF assms(1-4)] assms
  by (auto simp: out_standby_def Let_def case_prod_beta dev_same_def intro!: out_trans_same)

section \<open>The same for capture\<close>

lemma close_in_trans:
  assumes "good_card al" and "in_ok s" and "in_stream_ok inp" and "set_option (i_pcm inp) \<subseteq> pcms s"
    and "i_routed inp \<Longrightarrow> 0 < in_route_refs s"
  shows "in_trans inp s (snd (in_close_pcm_locked al inp s))"
    and "i_pcm (fst (snd (in_close_pcm_locked al inp s))) = None"
  using assms
  by (cases "i_pcm inp"; simp add: in_trans_def in_close_pcm_locked_def in_stream_ok_def dev_same_def disable_in(1)
      disable_in_ok in_keeps_out pcm_trans_def)+

lemma open_in_trans:
  assumes g: "good_card al" and f: "fresh_env al" and o: "in_ok s" and st: "in_stream_ok inp" and n: "i_pcm inp = None"
  shows "in_trans inp s (snd (in_open_pcm_locked al inp s))"
    and "fst (in_open_pcm_locked al inp s) = 0 \<longleftrightarrow> i_pcm (fst (snd (in_open_pcm_locked al inp s))) \<noteq> None"
proof -
  define s1 where "s1 = snd (adev_route_in_enable al s)"
  define r where "r = fst (pcm_open al PCM_IN s1)"
  define s2 where "s2 = snd (pcm_open al PCM_IN s1)"
  have s1: "in_ok s1" "out_ok s1 = out_ok s" "in_route_refs s1 = in_route_refs s + 1" "out_route_refs s1 = out_route_refs s"
    "pcms s1 = pcms s" "out_streams s1 = out_streams s" "gain_index s1 = gain_index s"
    using enable_in_ok [OF g o] in_keeps_out(1) [OF g] enable_in(1) [OF g] by (simp_all add: s1_def)
  have nn: "0 \<le> in_route_refs s" using o by (simp add: in_ok_def)
  have s2: "in_ok s2" "out_ok s2 = out_ok s" "in_route_refs s2 = in_route_refs s + 1" "out_route_refs s2 = out_route_refs s"
    "pcms s2 = pcms s \<union> fst ` set_option r" "out_streams s2 = out_streams s" "gain_index s2 = gain_index s"
    using s1 by (simp_all add: s2_def r_def pcm_open_pcms)
  have fr: "p \<notin> pcms s" if "r = Some (p, b)" for p b
    using pcm_open_fresh [OF f, of PCM_IN s1 p b] that s1 by (simp add: r_def)
  have e: "in_open_pcm_locked al inp s =
    (case r of Some (p, True) \<Rightarrow> (0, inp\<lparr>i_routed := True, i_pcm := Some p, i_standby := False\<rparr>, s2)
       | _ \<Rightarrow> (- ENODEV, inp\<lparr>i_routed := False\<rparr>,
              adev_route_in_disable al (case r of Some (p, _) \<Rightarrow> pcm_close p s2 | None \<Rightarrow> s2)))"
    using n by (auto simp: in_open_pcm_locked_def s1_def s2_def r_def Let_def case_prod_beta split: option.split bool.split)
  consider p where "r = Some (p, True)" | p where "r = Some (p, False)" | "r = None" by (metis (full_types) option.exhaust surj_pair)
  then show "in_trans inp s (snd (in_open_pcm_locked al inp s))"
    unfolding e using s2 nn fr st n g disable_in_ok [OF g] in_keeps_out(2) [OF g]
    by cases (auto simp: in_trans_def in_stream_ok_def dev_same_def pcm_trans_def disable_in(1))
  show "fst (in_open_pcm_locked al inp s) = 0 \<longleftrightarrow> i_pcm (fst (snd (in_open_pcm_locked al inp s))) \<noteq> None"
    unfolding e using n by (auto simp: ENODEV_def split: option.split bool.split)
qed

lemma in_trans_trans:
  "i_pcm inp = None \<Longrightarrow> in_trans inp s (in1, s1) \<Longrightarrow> in_trans in1 s1 (in2, s2) \<Longrightarrow>
     i_pcm in2 = i_pcm in1 \<or> i_pcm in2 = None \<Longrightarrow> in_trans inp s (in2, s2)"
  using pcm_trans_trans [of "i_pcm in1" "pcms s" "pcms s1" "i_pcm in2" "pcms s2"]
  by (auto simp: in_trans_def dev_same_def)

lemma in_trans_same:
  assumes "in_stream_ok inp'" and "i_routed inp' = i_routed inp" and "i_pcm inp' = i_pcm inp" and "set_option (i_pcm inp) \<subseteq> pcms s"
    and "in_ok t" and "out_ok t = out_ok s" and "dev_same s t" and "in_route_refs t = in_route_refs s"
    and "out_route_refs t = out_route_refs s" and "pcms t = pcms s"
  shows "in_trans inp s (inp', t)"
  using assms by (simp add: in_trans_def pcm_trans_refl)

lemma in_trans_say:
  "in_trans inp s (inp', t) \<Longrightarrow> in_trans inp s (inp', pace b f r t)"
  by (simp add: in_trans_def dev_same_def)

lemma read_open_trans:
  assumes g: "good_card al" and o: "in_ok s" and st: "in_stream_ok inp" and p: "i_pcm inp = Some p" "p \<in> pcms s"
    and r: "0 < in_route_refs s"
  shows "in_trans inp s (snd (in_read al n inp s))"
    and "i_pcm (fst (snd (in_read al n inp s))) = i_pcm inp \<or> i_pcm (fst (snd (in_read al n inp s))) = None"
proof -
  let ?s = "say (A_pcm_read p n) s"
  have c: "in_trans inp ?s (snd (in_close_pcm_locked al inp ?s))" "i_pcm (fst (snd (in_close_pcm_locked al inp ?s))) = None"
    using close_in_trans [OF g, of ?s inp] o st p r by simp_all
  then have c': "in_trans inp s (snd (in_close_pcm_locked al inp ?s))" by (auto simp: in_trans_def dev_same_def)
  show "in_trans inp s (snd (in_read al n inp s))"
  proof (cases "fst (t_pcm_read al (alog s) p n) = 0")
    case True
    then show ?thesis using p o st
      by (auto simp: in_read_def Let_def case_prod_beta intro!: in_trans_same) (simp_all add: dev_same_def)
  next
    case False
    then show ?thesis using p c' by (auto simp: in_read_def Let_def case_prod_beta intro!: in_trans_say)
  qed
  show "i_pcm (fst (snd (in_read al n inp s))) = i_pcm inp \<or> i_pcm (fst (snd (in_read al n inp s))) = None"
    using p c(2) by (auto simp: in_read_def Let_def case_prod_beta)
qed

lemma read_trans:
  assumes g: "good_card al" "fresh_env al" and o: "in_ok s" and st: "in_stream_ok inp" and p: "set_option (i_pcm inp) \<subseteq> pcms s"
    and r: "i_routed inp \<Longrightarrow> 0 < in_route_refs s"
  shows "in_trans inp s (snd (in_read al n inp s))"
proof (cases "i_pcm inp")
  case (Some q)
  with read_open_trans(1) [OF g(1) o st Some] p r st show ?thesis by (simp add: in_stream_ok_def)
next
  case None
  obtain e in1 s1 where r1: "in_open_pcm_locked al inp s = (e, in1, s1)" by (metis prod.collapse)
  have t1: "in_trans inp s (in1, s1)" and e: "e = 0 \<longleftrightarrow> i_pcm in1 \<noteq> None"
    using open_in_trans [OF g o st None] r1 by simp_all
  have f1: "t_in_frame_size al (i_channel_mask in1) = t_in_frame_size al (i_channel_mask inp)" "i_config in1 = i_config inp"
    using r1 None by (auto simp: in_open_pcm_locked_def Let_def case_prod_beta split: option.splits bool.splits)
  show ?thesis
  proof (cases "i_pcm in1")
    case None
    with e r1 \<open>i_pcm inp = None\<close> have "snd (in_read al n inp s) = (in1, pace n (t_in_frame_size al (i_channel_mask inp)) (cf_rate (i_config inp)) s1)"
      by (simp add: in_read_def Let_def)
    with t1 show ?thesis by (simp add: in_trans_say)
  next
    case (Some q)
    have o1: "in_ok s1" "in_stream_ok in1" "q \<in> pcms s1" "0 < in_route_refs s1"
      using t1 Some None o st by (auto simp: in_trans_def pcm_trans_def in_stream_ok_def in_ok_def)
    have "in_read al n inp s = in_read al n in1 s1"
      using e Some r1 None f1 by (simp add: in_read_def)
    moreover obtain m in2 s2 where r2: "in_read al n in1 s1 = (m, in2, s2)" by (metis prod.collapse)
    ultimately show ?thesis
      using in_trans_trans [OF None t1, of in2 s2] read_open_trans [OF g(1) o1(1,2) Some o1(3,4), of n] by simp
  qed
qed

lemma standby_in_trans:
  assumes "good_card al" and "in_ok s" and "in_stream_ok inp" and "set_option (i_pcm inp) \<subseteq> pcms s"
    and "i_routed inp \<Longrightarrow> 0 < in_route_refs s"
  shows "in_trans inp s (snd (in_standby al inp s))"
  using close_in_trans(1) [OF assms(1-4)] assms
  by (auto simp: in_standby_def Let_def case_prod_beta dev_same_def intro!: in_trans_same)

section \<open>The invariant of the HAL\<close>

text \<open>The PCM each stream holds.\<close>

definition pcm_of :: "hal \<Rightarrow> handle \<rightharpoonup> handle" where
  "pcm_of h p = (case outs h p of Some out \<Rightarrow> o_pcm out
     | None \<Rightarrow> (case ins h p of Some inp \<Rightarrow> i_pcm inp | None \<Rightarrow> None))"

definition streams_ok :: "hal \<Rightarrow> bool" where
  "streams_ok h \<longleftrightarrow> finite (dom (outs h)) \<and> finite (dom (ins h)) \<and> dom (outs h) \<inter> dom (ins h) = {} \<and>
     (\<forall>p out. outs h p = Some out \<longrightarrow> out_stream_ok out) \<and> (\<forall>p inp. ins h p = Some inp \<longrightarrow> in_stream_ok inp)"

definition counts_ok :: "hal \<Rightarrow> bool" where
  "counts_ok h \<longleftrightarrow> out_route_refs (adev h) = count_of o_routed (outs h) \<and>
     in_route_refs (adev h) = count_of i_routed (ins h) \<and>
     out_streams (adev h) = count_of (\<lambda>_. True) (outs h) \<and> out_streams (adev h) \<le> 1"

definition pcms_ok :: "hal \<Rightarrow> bool" where
  "pcms_ok h \<longleftrightarrow> pcms (adev h) = ran (pcm_of h) \<and> inj_on (pcm_of h) (dom (pcm_of h))"

definition hal_inv :: "hal \<Rightarrow> bool" where
  "hal_inv h \<longleftrightarrow> out_ok (adev h) \<and> in_ok (adev h) \<and> streams_ok h \<and> counts_ok h \<and> pcms_ok h"

lemma count_pos: "finite (dom m) \<Longrightarrow> m k = Some x \<Longrightarrow> P x \<Longrightarrow> 0 < count_of P m"
proof -
  assume h: "finite (dom m)" "m k = Some x" "P x"
  have "finite {k. case m k of Some x \<Rightarrow> P x | None \<Rightarrow> False}"
    by (rule finite_subset [OF _ h(1)]) (auto split: option.splits)
  moreover have "k \<in> {k. case m k of Some x \<Rightarrow> P x | None \<Rightarrow> False}" using h by simp
  ultimately show ?thesis unfolding count_of_def by (metis card_gt_0_iff empty_iff of_nat_0_less_iff)
qed

lemma ran_trans:
  assumes "pcm_trans (m k) b (ran m) Q" and "inj_on m (dom m)"
  shows "Q = ran (m(k := b))" and "inj_on (m(k := b)) (dom (m(k := b)))"
proof -
  have r: "ran m - set_option (m k) = ran (m(k := None))"
    using assms(2) by (auto simp: ran_def inj_on_def dom_def)
  show "Q = ran (m(k := b))"
    using assms(1) r by (cases b) (auto simp: pcm_trans_def ran_def split: if_splits)
  have "b = None \<or> b = m k \<or> the b \<notin> ran m"
    using assms(1) by (cases b) (auto simp: pcm_trans_def)
  then show "inj_on (m(k := b)) (dom (m(k := b)))"
  proof (elim disjE)
    assume "b = m k"
    then show ?thesis using assms(2) by (simp add: fun_upd_idem)
  next
    assume "b = None"
    then show ?thesis using assms(2) by (auto simp: inj_on_def dom_def)
  next
    assume n: "the b \<notin> ran m"
    show ?thesis
    proof (cases b)
      case (Some q)
      then have "m x \<noteq> Some q" for x using n by (auto simp: ran_def)
      then show ?thesis using assms(2) Some by (auto simp: inj_on_def dom_def)
    qed (use assms(2) in \<open>auto simp: inj_on_def dom_def\<close>)
  qed
qed

lemma held_out: "hal_inv h \<Longrightarrow> outs h p = Some out \<Longrightarrow> set_option (o_pcm out) \<subseteq> pcms (adev h)"
proof -
  assume h: "hal_inv h" "outs h p = Some out"
  then have "pcm_of h p = o_pcm out" "pcms (adev h) = ran (pcm_of h)" by (simp_all add: pcm_of_def hal_inv_def pcms_ok_def)
  then show ?thesis by (auto simp: ran_def)
qed

lemma held_in: "hal_inv h \<Longrightarrow> ins h p = Some inp \<Longrightarrow> set_option (i_pcm inp) \<subseteq> pcms (adev h)"
proof -
  assume h: "hal_inv h" "ins h p = Some inp"
  then have "outs h p = None" by (auto simp: hal_inv_def streams_ok_def)
  with h have "pcm_of h p = i_pcm inp" "pcms (adev h) = ran (pcm_of h)" by (simp_all add: pcm_of_def hal_inv_def pcms_ok_def)
  then show ?thesis by (auto simp: ran_def)
qed

lemma routed_out: "hal_inv h \<Longrightarrow> outs h p = Some out \<Longrightarrow> o_routed out \<Longrightarrow> 0 < out_route_refs (adev h)"
  by (simp add: hal_inv_def streams_ok_def counts_ok_def count_pos)

lemma routed_in: "hal_inv h \<Longrightarrow> ins h p = Some inp \<Longrightarrow> i_routed inp \<Longrightarrow> 0 < in_route_refs (adev h)"
  by (simp add: hal_inv_def streams_ok_def counts_ok_def count_pos)

lemma pcm_of_upd:
  "outs h p = Some out \<Longrightarrow> pcm_of (h\<lparr>adev := s, outs := (outs h)(p \<mapsto> out')\<rparr>) = (pcm_of h)(p := o_pcm out')"
  "ins h q = Some inp \<Longrightarrow> outs h q = None \<Longrightarrow> pcm_of (h\<lparr>adev := s, ins := (ins h)(q \<mapsto> inp')\<rparr>) = (pcm_of h)(q := i_pcm inp')"
  by (auto simp: pcm_of_def fun_eq_iff split: option.split)

lemma out_trans_inv:
  assumes "hal_inv h" and "outs h p = Some out" and "out_trans out (adev h) (out', s)"
  shows "hal_inv (h\<lparr>adev := s, outs := (outs h)(p \<mapsto> out')\<rparr>)"
proof -
  let ?h = "h\<lparr>adev := s, outs := (outs h)(p \<mapsto> out')\<rparr>"
  have t: "out_stream_ok out'" "out_ok s" "in_ok s" "in_route_refs s = in_route_refs (adev h)" "out_streams s = out_streams (adev h)"
    "out_route_refs s = out_route_refs (adev h) - of_bool (o_routed out) + of_bool (o_routed out')"
    "pcm_trans (pcm_of h p) (o_pcm out') (ran (pcm_of h)) (pcms s)"
    using assms by (auto simp: out_trans_def hal_inv_def dev_same_def pcms_ok_def) (simp add: pcm_of_def)
  have "streams_ok ?h" using assms(1,2) t(1) by (auto simp: hal_inv_def streams_ok_def)
  moreover have "counts_ok ?h"
    using assms(1,2) t by (auto simp: hal_inv_def streams_ok_def counts_ok_def count_upd)
  moreover have "pcms_ok ?h"
    using ran_trans [OF t(7)] assms(1) by (auto simp: pcms_ok_def pcm_of_upd(1) [OF assms(2)] hal_inv_def)
  ultimately show ?thesis using t by (simp add: hal_inv_def)
qed

lemma in_trans_inv:
  assumes "hal_inv h" and "ins h p = Some inp" and "in_trans inp (adev h) (inp', s)"
  shows "hal_inv (h\<lparr>adev := s, ins := (ins h)(p \<mapsto> inp')\<rparr>)"
proof -
  let ?h = "h\<lparr>adev := s, ins := (ins h)(p \<mapsto> inp')\<rparr>"
  have o: "outs h p = None" using assms(1,2) by (auto simp: hal_inv_def streams_ok_def)
  have t: "in_stream_ok inp'" "out_ok s" "in_ok s" "out_route_refs s = out_route_refs (adev h)" "out_streams s = out_streams (adev h)"
    "in_route_refs s = in_route_refs (adev h) - of_bool (i_routed inp) + of_bool (i_routed inp')"
    "pcm_trans (pcm_of h p) (i_pcm inp') (ran (pcm_of h)) (pcms s)"
    using assms o by (auto simp: in_trans_def hal_inv_def dev_same_def pcms_ok_def) (simp add: pcm_of_def)
  have "streams_ok ?h" using assms(1,2) t(1) by (auto simp: hal_inv_def streams_ok_def)
  moreover have "counts_ok ?h"
    using assms(1,2) t by (auto simp: hal_inv_def streams_ok_def counts_ok_def count_upd)
  moreover have "pcms_ok ?h"
    using ran_trans [OF t(7)] assms(1) by (auto simp: pcms_ok_def pcm_of_upd(2) [OF assms(2) o] hal_inv_def)
  ultimately show ?thesis using t by (simp add: hal_inv_def)
qed

lemma on_out_inv:
  assumes "hal_inv h" and "\<And>out. outs h p = Some out \<Longrightarrow> out_trans out (adev h) (f out (adev h))"
  shows "hal_inv (on_out f p h)"
  using assms out_trans_inv by (auto simp: on_out_def split: option.split prod.split)

lemma on_in_inv:
  assumes "hal_inv h" and "\<And>inp. ins h p = Some inp \<Longrightarrow> in_trans inp (adev h) (f inp (adev h))"
  shows "hal_inv (on_in f p h)"
  using assms in_trans_inv by (auto simp: on_in_def split: option.split prod.split)

text \<open>An operation that changes the device alone.\<close>

definition dev_quiet :: "xd_audio_device \<Rightarrow> xd_audio_device \<Rightarrow> bool" where
  "dev_quiet s t \<longleftrightarrow> out_ok t = out_ok s \<and> in_ok t = in_ok s \<and> out_route_refs t = out_route_refs s \<and>
     in_route_refs t = in_route_refs s \<and> out_streams t = out_streams s \<and> pcms t = pcms s"

lemma dev_quiet_inv: "hal_inv h \<Longrightarrow> dev_quiet (adev h) s \<Longrightarrow> hal_inv (h\<lparr>adev := s\<rparr>)"
proof -
  have "pcm_of (h\<lparr>adev := s\<rparr>) = pcm_of h" by (simp add: pcm_of_def fun_eq_iff split: option.split)
  then show "hal_inv h \<Longrightarrow> dev_quiet (adev h) s \<Longrightarrow> hal_inv (h\<lparr>adev := s\<rparr>)"
    by (auto simp: hal_inv_def dev_quiet_def streams_ok_def counts_ok_def pcms_ok_def)
qed

lemma calloc_quiet: "hal_inv h \<Longrightarrow> hal_inv (snd (sys_calloc al h))"
  by (auto simp: sys_calloc_def dev_quiet_def intro: dev_quiet_inv)

lemma calloc_fresh: "fresh_env al \<Longrightarrow> fst (sys_calloc al h) = Some p \<Longrightarrow> outs h p = None \<and> ins h p = None"
  by (fastforce simp: fresh_env_def sys_calloc_def)


lemma calloc_frame [simp]: "outs (snd (sys_calloc al h)) = outs h" "ins (snd (sys_calloc al h)) = ins h"
  "out_streams (adev (snd (sys_calloc al h))) = out_streams (adev h)"
  by (simp_all add: sys_calloc_def)

text \<open>A new stream holds nothing.\<close>

lemma new_stream_pcm:
  "outs h p = None \<Longrightarrow> ins h p = None \<Longrightarrow> o_pcm out = None \<Longrightarrow> pcm_of (h\<lparr>adev := s, outs := (outs h)(p \<mapsto> out)\<rparr>) = pcm_of h"
  "outs h p = None \<Longrightarrow> ins h p = None \<Longrightarrow> i_pcm inp = None \<Longrightarrow> pcm_of (h\<lparr>ins := (ins h)(p \<mapsto> inp)\<rparr>) = pcm_of h"
  by (auto simp: pcm_of_def fun_eq_iff split: option.split)

lemma new_out_inv:
  assumes "hal_inv h" and "outs h p = None" and "ins h p = None" and "out_streams (adev h) = 0"
  shows "hal_inv (h\<lparr>adev := (adev h)\<lparr>out_streams := 1\<rparr>, outs := (outs h)(p \<mapsto> new_out d)\<rparr>)"
proof -
  have o: "out_stream_ok (new_out d)" "o_pcm (new_out d) = None" "\<not> o_routed (new_out d)"
    by (simp_all add: new_out_def out_stream_ok_def)
  have d: "out_ok (s\<lparr>out_streams := n\<rparr>) = out_ok s" "in_ok (s\<lparr>out_streams := n\<rparr>) = in_ok s" for s n
    by (simp_all add: out_ok_def in_ok_def amps_on_def)
  show ?thesis
    using assms o by (auto simp: hal_inv_def d streams_ok_def counts_ok_def pcms_ok_def count_upd new_stream_pcm(1))
qed

lemma open_out_inv:
  assumes "fresh_env al" and "hal_inv h"
  shows "hal_inv (snd (adev_open_output_stream al d c h))"
proof (cases "out_streams (adev h) > 0")
  case False
  let ?h = "h\<lparr>adev := (adev h)\<lparr>out_streams := out_streams (adev h) + 1\<rparr>\<rparr>"
  have z: "out_streams (adev h) = 0" 
  proof -
    have "0 \<le> out_streams (adev h)" using assms(2) by (simp add: hal_inv_def counts_ok_def)
    with False show ?thesis by linarith
  qed
  have c: "h\<lparr>adev := (adev (snd (sys_calloc al ?h)))\<lparr>out_streams := n\<rparr>\<rparr> = (snd (sys_calloc al h))\<lparr>adev := (adev (snd (sys_calloc al h)))\<lparr>out_streams := n\<rparr>\<rparr>" for n
    by (simp add: sys_calloc_def say_def)
  have q: "hal_inv (snd (sys_calloc al h))" by (rule calloc_quiet [OF assms(2)])
  show ?thesis
  proof (cases "fst (sys_calloc al ?h)")
    case None
    have "snd (adev_open_output_stream al d c h) = snd (sys_calloc al h)"
      using None z by (simp add: adev_open_output_stream_def Let_def case_prod_beta) (simp add: sys_calloc_def say_def)
    then show ?thesis using q by simp
  next
    case (Some p)
    then have "fst (sys_calloc al h) = Some p" by (simp add: sys_calloc_def)
    from calloc_fresh [OF assms(1) this] have f: "outs h p = None" "ins h p = None" by auto
    have "snd (adev_open_output_stream al d c h) =
        (snd (sys_calloc al h))\<lparr>adev := (adev (snd (sys_calloc al h)))\<lparr>out_streams := 1\<rparr>, outs := (outs (snd (sys_calloc al h)))(p \<mapsto> new_out d)\<rparr>"
      using Some z by (simp add: adev_open_output_stream_def Let_def case_prod_beta) (simp add: sys_calloc_def say_def)
    with new_out_inv [OF q, of p d] f z show ?thesis by simp
  qed
qed (use assms in \<open>simp add: adev_open_output_stream_def\<close>)

lemma open_in_inv:
  assumes "fresh_env al" and "hal_inv h"
  shows "hal_inv (snd (adev_open_input_stream al d c h))"
proof -
  let ?h = "snd (sys_calloc al h)"
  have q: "hal_inv ?h" by (rule calloc_quiet [OF assms(2)])
  have i: "in_stream_ok (new_in d c n)" "i_pcm (new_in d c n) = None" "\<not> i_routed (new_in d c n)" for n
    by (simp_all add: new_in_def in_stream_ok_def)
  have "hal_inv (?h\<lparr>ins := (ins h)(p \<mapsto> new_in d c n)\<rparr>)" if "fst (sys_calloc al h) = Some p" for p n
    using calloc_fresh [OF assms(1) that] q i new_stream_pcm(2) [of ?h p "new_in d c n"]
    by (auto simp: hal_inv_def streams_ok_def counts_ok_def pcms_ok_def count_upd)
  then show ?thesis
    using assms(2) q by (auto simp: adev_open_input_stream_def Let_def case_prod_beta split: option.split)
qed

text \<open>A stream that holds nothing can be freed.\<close>

lemma drop_out_inv:
  assumes "hal_inv h" and "outs h p = Some out" and "o_pcm out = None"
  shows "0 < out_streams (adev h)"
    and "hal_inv (h\<lparr>adev := (adev h)\<lparr>out_streams := out_streams (adev h) - 1\<rparr>, outs := (outs h)(p := None)\<rparr>)"
proof -
  have d: "out_ok (s\<lparr>out_streams := n\<rparr>) = out_ok s" "in_ok (s\<lparr>out_streams := n\<rparr>) = in_ok s" for s n
    by (simp_all add: out_ok_def in_ok_def amps_on_def)
  have i: "ins h p = None" using assms(1,2) by (auto simp: hal_inv_def streams_ok_def)
  have "pcm_of (h\<lparr>adev := s, outs := (outs h)(p := None)\<rparr>) = pcm_of h" for s
    using assms(2,3) i by (auto simp: pcm_of_def fun_eq_iff split: option.split)
  moreover have "\<not> o_routed out" using assms by (auto simp: hal_inv_def streams_ok_def out_stream_ok_def)
  moreover show "0 < out_streams (adev h)"
    using assms(1,2) count_pos [of "outs h" p out "\<lambda>_. True"] by (simp add: hal_inv_def streams_ok_def counts_ok_def)
  ultimately show "hal_inv (h\<lparr>adev := (adev h)\<lparr>out_streams := out_streams (adev h) - 1\<rparr>, outs := (outs h)(p := None)\<rparr>)"
    using assms(1,2) by (auto simp: hal_inv_def d streams_ok_def counts_ok_def pcms_ok_def count_upd split: if_splits)
qed

lemma drop_in_inv:
  assumes "hal_inv h" and "ins h p = Some inp" and "i_pcm inp = None"
  shows "hal_inv (h\<lparr>ins := (ins h)(p := None)\<rparr>)"
proof -
  have o: "outs h p = None" using assms(1,2) by (auto simp: hal_inv_def streams_ok_def)
  have "pcm_of (h\<lparr>ins := (ins h)(p := None)\<rparr>) = pcm_of h"
    using assms(2,3) o by (auto simp: pcm_of_def fun_eq_iff split: option.split)
  moreover have "\<not> i_routed inp" using assms by (auto simp: hal_inv_def streams_ok_def in_stream_ok_def)
  ultimately show ?thesis
    using assms(1,2) by (auto simp: hal_inv_def streams_ok_def counts_ok_def pcms_ok_def count_upd split: if_splits)
qed

lemma out_ok_of: "hal_inv h \<Longrightarrow> outs h p = Some out \<Longrightarrow> out_stream_ok out"
  by (simp add: hal_inv_def streams_ok_def)

lemma in_ok_of: "hal_inv h \<Longrightarrow> ins h p = Some inp \<Longrightarrow> in_stream_ok inp"
  by (simp add: hal_inv_def streams_ok_def)

lemma hal_inv_dev: "hal_inv h \<Longrightarrow> out_ok (adev h)" "hal_inv h \<Longrightarrow> in_ok (adev h)"
  by (simp_all add: hal_inv_def)

lemma close_out_inv:
  assumes "good_card al" and "hal_inv h" and "outs h p = Some out"
  shows "hal_inv (adev_close_output_stream al p out h)"
proof -
  obtain out' s where r: "snd (out_close_pcm_locked al out (adev h)) = (out', s)" by (metis prod.collapse)
  have t: "out_trans out (adev h) (out', s)" "o_pcm out' = None"
    using close_out_trans [OF assms(1) hal_inv_dev(1) [OF assms(2)] out_ok_of [OF assms(2,3)] held_out [OF assms(2,3)]
        routed_out [OF assms(2,3)]] r by simp_all
  let ?h = "h\<lparr>adev := s, outs := (outs h)(p \<mapsto> out')\<rparr>"
  have "hal_inv ?h" by (rule out_trans_inv [OF assms(2,3) t(1)])
  from drop_out_inv [OF this, of p out'] t(2) show ?thesis
    using r by (simp add: adev_close_output_stream_def Let_def case_prod_beta)
qed

lemma close_in_inv:
  assumes "good_card al" and "hal_inv h" and "ins h p = Some inp"
  shows "hal_inv (adev_close_input_stream al p inp h)"
proof -
  obtain inp' s where r: "snd (in_close_pcm_locked al inp (adev h)) = (inp', s)" by (metis prod.collapse)
  have t: "in_trans inp (adev h) (inp', s)" "i_pcm inp' = None"
    using close_in_trans [OF assms(1) hal_inv_dev(2) [OF assms(2)] in_ok_of [OF assms(2,3)] held_in [OF assms(2,3)]
        routed_in [OF assms(2,3)]] r by simp_all
  let ?h = "h\<lparr>adev := s, ins := (ins h)(p \<mapsto> inp')\<rparr>"
  have "hal_inv ?h" by (rule in_trans_inv [OF assms(2,3) t(1)])
  from drop_in_inv [OF this, of p inp'] t(2) show ?thesis
    using r by (simp add: adev_close_input_stream_def Let_def case_prod_beta)
qed

lemma position_frame [simp]:
  "out_route_refs (snd (out_get_presentation_position al out b s)) = out_route_refs s"
  "in_route_refs (snd (out_get_presentation_position al out b s)) = in_route_refs s"
  "out_streams (snd (out_get_presentation_position al out b s)) = out_streams s"
  "gain_index (snd (out_get_presentation_position al out b s)) = gain_index s"
  "pcms (snd (out_get_presentation_position al out b s)) = pcms s"
  "out_ok (snd (out_get_presentation_position al out b s)) = out_ok s"
  "in_ok (snd (out_get_presentation_position al out b s)) = in_ok s"
  by (simp_all add: out_get_presentation_position_def now_ns_def Let_def case_prod_beta split: option.split)

lemma volume_quiet:
  assumes "good_card al"
  shows "dev_quiet s (snd (out_set_volume al fl l r s))"
proof -
  have g: "out_ok (snd (mixer_set_enum_index al n i t)) = out_ok t" "in_ok (snd (mixer_set_enum_index al n i t)) = in_ok t"
    if "n \<in> {''Headset_PGAL_GAIN'', ''Headset_PGAR_GAIN''}" for n i t
  proof -
    have "a \<noteq> n" if "a \<in> set amps" for a using amps_other [OF that] \<open>n \<in> _\<close> by auto
    then have "amps_on (snd (mixer_set_enum_index al n i t)) = amps_on t"
      unfolding amps_on_def by (intro Collect_cong conj_cong refl) (simp add: set_enum_index_other)
    then show "out_ok (snd (mixer_set_enum_index al n i t)) = out_ok t" by (simp add: out_ok_def)
    show "in_ok (snd (mixer_set_enum_index al n i t)) = in_ok t"
      using that by (auto simp: in_ok_def set_enum_index_other)
  qed
  have m: "out_ok (snd (adev_mixer_locked al t)) = out_ok t" "in_ok (snd (adev_mixer_locked al t)) = in_ok t" for t
    by (simp_all add: out_ok_def in_ok_def amps_on_def)
  have u: "out_ok (s\<lparr>gain_index := i\<rparr>) = out_ok s" "in_ok (s\<lparr>gain_index := i\<rparr>) = in_ok s" for i
    by (simp_all add: out_ok_def in_ok_def amps_on_def)
  show ?thesis
    by (simp add: dev_quiet_def out_set_volume_def Let_def case_prod_beta g m u)
qed

lemma retarget_quiet:
  "good_card al \<Longrightarrow> hal_inv h \<Longrightarrow> hal_inv (h\<lparr>adev := set_parameters_apply al d r (adev h)\<rparr>)"
  using retarget_out(1) [of al d "adev h"] retarget_out_ok [of al "adev h" d] out_keeps_in(3) [of al "adev h" d]
  by (intro dev_quiet_inv) (auto simp: dev_quiet_def set_parameters_apply_def hal_inv_def)

lemma hal_step_inv:
  assumes g: "good_card al" "fresh_env al" and h: "hal_inv h"
  shows "hal_inv (hal_step al fl op h)"
proof (cases op)
  case (CloseOut p)
  then show ?thesis using close_out_inv [OF g(1) h] h by (simp split: option.split)
next
  case (CloseIn p)
  then show ?thesis using close_in_inv [OF g(1) h] h by (simp split: option.split)
next
  case (Write p b)
  then show ?thesis
    using write_trans [OF g hal_inv_dev(1) [OF h] out_ok_of [OF h] held_out [OF h] routed_out [OF h]]
    by (simp add: on_out_inv [OF h])
next
  case (Read p n)
  then show ?thesis
    using read_trans [OF g hal_inv_dev(2) [OF h] in_ok_of [OF h] held_in [OF h] routed_in [OF h]]
    by (simp add: on_in_inv [OF h])
next
  case (StandbyOut p)
  then show ?thesis
    using standby_out_trans [OF g(1) hal_inv_dev(1) [OF h] out_ok_of [OF h] held_out [OF h] routed_out [OF h]]
    by (simp add: on_out_inv [OF h])
next
  case (StandbyIn p)
  then show ?thesis
    using standby_in_trans [OF g(1) hal_inv_dev(2) [OF h] in_ok_of [OF h] held_in [OF h] routed_in [OF h]]
    by (simp add: on_in_inv [OF h])
next
  case (SetRoutingStore p d)
  have "out_trans out (adev h) (out\<lparr>o_devices := d\<rparr>, adev h)" if "outs h p = Some out" for out
    using out_ok_of [OF h that] held_out [OF h that] hal_inv_dev [OF h]
    by (intro out_trans_same) (simp_all add: out_stream_ok_def dev_same_def)
  then show ?thesis using SetRoutingStore by (simp add: set_parameters_store_def on_out_inv [OF h])
next
  case (SetInParameters p kv)
  have "in_trans inp (adev h) (snd (in_set_parameters al kv inp), adev h)" if "ins h p = Some inp" for inp
    using in_ok_of [OF h that] held_in [OF h that] hal_inv_dev [OF h]
    by (intro in_trans_same) (simp_all add: in_stream_ok_def dev_same_def in_set_parameters_def split: option.split)
  then show ?thesis using SetInParameters by (simp add: on_in_inv [OF h])
next
  case (Position p)
  have "out_trans out (adev h) (out, snd (out_get_presentation_position al out True (adev h)))" if "outs h p = Some out" for out
    using out_ok_of [OF h that] held_out [OF h that] hal_inv_dev [OF h] by (intro out_trans_same) (simp_all add: dev_same_def)
  then show ?thesis using Position by (simp add: on_out_inv [OF h])
next
  case (SetMicMute b)
  have "dev_quiet (adev h) ((adev h)\<lparr>mic_mute := b\<rparr>)" by (simp add: dev_quiet_def out_ok_def in_ok_def amps_on_def)
  then show ?thesis using SetMicMute by (simp add: adev_set_mic_mute_def dev_quiet_inv [OF h])
next
  case (SetMode m)
  have "dev_quiet (adev h) ((adev h)\<lparr>audio_mode := m\<rparr>)" by (simp add: dev_quiet_def out_ok_def in_ok_def amps_on_def)
  then show ?thesis using SetMode by (simp add: adev_set_mode_def dev_quiet_inv [OF h])
next
  case InitCheck
  have "dev_quiet (adev h) (snd (adev_mixer_locked al (adev h)))" by (simp add: dev_quiet_def out_ok_def in_ok_def amps_on_def)
  then show ?thesis using InitCheck by (simp add: adev_init_check_def Let_def case_prod_beta dev_quiet_inv [OF h])
qed (use h g open_out_inv open_in_inv volume_quiet retarget_quiet in \<open>auto intro: dev_quiet_inv\<close>)

lemma hal_run_inv:
  assumes "good_card al" "fresh_env al" and "hal_inv h"
  shows "hal_inv (hal_run al fl ops h)"
  unfolding hal_run_def using assms(3) by (induction ops arbitrary: h) (auto intro: hal_step_inv [OF assms(1,2)])

text \<open>A card as the kernel leaves it: no amp and no capture path on, no PCM open.\<close>

definition idle_card :: "card \<Rightarrow> bool" where
  "idle_card c \<longleftrightarrow> pcms c = {} \<and> (\<forall>n. enums c n \<noteq> Some ''On'' \<and> enums c n \<noteq> Some ''AIN1'') \<and> (\<forall>n. ints c n \<noteq> Some 1)"

lemma open_inv:
  assumes "adev_open al name c = (e, Some h, c')" and "idle_card c"
  shows "hal_inv h" and "gain_index (adev h) = GAIN_ENUM_DEFAULT"
proof -
  have h: "h = \<lparr>adev = new_adev (c\<lparr>alog := alog c @ [A_calloc]\<rparr>), outs = Map.empty, ins = Map.empty\<rparr>"
    using assms(1) by (auto simp: adev_open_def Let_def split: if_splits option.splits)
  show "gain_index (adev h) = GAIN_ENUM_DEFAULT" by (simp add: h new_adev_def card.defs xd_audio_device.defs)
  show "hal_inv h"
    using assms(2)
    by (simp add: h hal_inv_def idle_card_def out_ok_def in_ok_def amps_on_def streams_ok_def counts_ok_def pcms_ok_def
        pcm_of_def [abs_def] new_adev_def card.defs xd_audio_device.defs)
qed

lemma refs_pos_iff:
  assumes "finite (dom m)"
  shows "0 < count_of P m \<longleftrightarrow> (\<exists>k x. m k = Some x \<and> P x)"
proof (rule iffI, rule ccontr)
  assume p: "0 < count_of P m" and "\<not> (\<exists>k x. m k = Some x \<and> P x)"
  then have "{k. case m k of Some x \<Rightarrow> P x | None \<Rightarrow> False} = {}" by (auto split: option.splits)
  with p show False by (simp add: count_of_def)
qed (use count_pos [OF assms] in blast)

text \<open>C4. On a card whose mixer can be opened and takes every control write, and on which no amplifier and no capture path is on when the HAL is
  opened: after any sequence of operations on the HAL, and whichever opens, reads and writes of a PCM fail, if some output stream is
  active (out of standby) exactly one of the three mutually
  exclusive amplifier controls is on, and none is on otherwise, so the external power amplifier is never
  left enabled; the capture path is on exactly while some input stream is active. (Without the mixer a stream is marked routed with no
  reference taken, and this fails.)\<close>

theorem routes_follow_streams:
  assumes "good_card al" and "fresh_env al" and "idle_card c" and "adev_open al name c = (e, Some h0, c')"
    and "h = hal_run al fl ops h0"
  shows "(if \<exists>p out. outs h p = Some out \<and> \<not> o_standby out then \<exists>a \<in> set amps. amps_on (adev h) = {a} else amps_on (adev h) = {}) \<and>
    (enums (adev h) ''Audio_ADC_1_Switch'' = Some ''On'' \<longleftrightarrow> (\<exists>p inp. ins h p = Some inp \<and> \<not> i_standby inp))"
proof -
  have i: "hal_inv h" unfolding assms(5) by (rule hal_run_inv [OF assms(1,2) open_inv(1) [OF assms(4,3)]])
  have o: "0 < out_route_refs (adev h) \<longleftrightarrow> (\<exists>p out. outs h p = Some out \<and> \<not> o_standby out)"
    using i refs_pos_iff [of "outs h" o_routed] out_ok_of [OF i] by (auto simp: hal_inv_def streams_ok_def counts_ok_def out_stream_ok_def)
  have n: "0 < in_route_refs (adev h) \<longleftrightarrow> (\<exists>p inp. ins h p = Some inp \<and> \<not> i_standby inp)"
    using i refs_pos_iff [of "ins h" i_routed] in_ok_of [OF i] by (auto simp: hal_inv_def streams_ok_def counts_ok_def in_stream_ok_def)
  have "out_ok (adev h)" "in_ok (adev h)" using i by (simp_all add: hal_inv_def)
  then show ?thesis unfolding o [symmetric] n [symmetric] by (auto simp: out_ok_def in_ok_def)
qed

end
