(* ===== verification/Audio_Pcms.thy ===== *)
theory Audio_Pcms
  imports Audio_Invariant
begin

text \<open>
  Who holds the PCMs, whatever the mixer does: no step of the argument asks whether the mixer opens or a control can be written, because a stream
  counts as routed exactly while it has a PCM, and the mixer's functions touch no PCM. The PCMs that are open are those the
  streams hold, through every operation.
\<close>

section \<open>What a stream operation does to the PCMs\<close>

definition out_held :: "xd_stream_out \<Rightarrow> xd_audio_device \<Rightarrow> xd_stream_out \<times> xd_audio_device \<Rightarrow> bool" where
  "out_held out s r \<longleftrightarrow> (case r of (out', t) \<Rightarrow>
     out_stream_ok out' \<and> out_streams t = out_streams s \<and> pcm_trans (o_pcm out) (o_pcm out') (pcms s) (pcms t))"

definition in_held :: "xd_stream_in \<Rightarrow> xd_audio_device \<Rightarrow> xd_stream_in \<times> xd_audio_device \<Rightarrow> bool" where
  "in_held inp s r \<longleftrightarrow> (case r of (inp', t) \<Rightarrow>
     in_stream_ok inp' \<and> out_streams t = out_streams s \<and> pcm_trans (i_pcm inp) (i_pcm inp') (pcms s) (pcms t))"

lemma close_out_held:
  assumes "out_stream_ok out" and "set_option (o_pcm out) \<subseteq> pcms s"
  shows "out_held out s (snd (out_close_pcm_locked al out s))" and "o_pcm (fst (snd (out_close_pcm_locked al out s))) = None"
  using assms by (cases "o_pcm out"; simp add: out_held_def out_close_pcm_locked_def out_stream_ok_def pcm_trans_def)+

lemma close_in_held:
  assumes "in_stream_ok inp" and "set_option (i_pcm inp) \<subseteq> pcms s"
  shows "in_held inp s (snd (in_close_pcm_locked al inp s))" and "i_pcm (fst (snd (in_close_pcm_locked al inp s))) = None"
  using assms by (cases "i_pcm inp"; simp add: in_held_def in_close_pcm_locked_def in_stream_ok_def pcm_trans_def)+

lemma pcm_opened:
  assumes "fresh_env al" and "pcm_open al d s = (r, t)"
  shows "pcms t = pcms s \<union> fst ` set_option r" "out_streams t = out_streams s" "r = Some (q, b) \<Longrightarrow> q \<notin> pcms s"
  using pcm_open_pcms [of al d s] pcm_open_simps(3) [of al d s] pcm_open_fresh [OF assms(1), of d s q b] assms(2) by simp_all

lemma open_out_held:
  assumes "fresh_env al" and "out_stream_ok out" and "o_pcm out = None"
  shows "out_held out s (snd (out_open_pcm_locked al out s))"
proof -
  obtain e s1 where en: "adev_route_out_enable al (o_devices out) s = (e, s1)" by (cases "adev_route_out_enable al (o_devices out) s")
  have s1: "pcms s1 = pcms s" "out_streams s1 = out_streams s" using out_frame(2,4) [of al "o_devices out" s] by (simp_all add: en)
  obtain r s2 where p: "pcm_open al PCM_OUT s1 = (r, s2)" by (cases "pcm_open al PCM_OUT s1")
  show ?thesis using assms(2,3) s1 pcm_opened [OF assms(1) p] p en
    by (auto simp: out_open_pcm_locked_def out_held_def out_stream_ok_def pcm_trans_def Let_def split: option.splits bool.splits)
qed

lemma open_in_held:
  assumes "fresh_env al" and "in_stream_ok inp" and "i_pcm inp = None"
  shows "in_held inp s (snd (in_open_pcm_locked al inp s))"
proof -
  obtain e s1 where en: "adev_route_in_enable al s = (e, s1)" by (cases "adev_route_in_enable al s")
  have s1: "pcms s1 = pcms s" "out_streams s1 = out_streams s" using in_frame(3,5) [of al s] by (simp_all add: en)
  obtain r s2 where p: "pcm_open al PCM_IN s1 = (r, s2)" by (cases "pcm_open al PCM_IN s1")
  show ?thesis using assms(2,3) s1 pcm_opened [OF assms(1) p] p en
    by (auto simp: in_open_pcm_locked_def in_held_def in_stream_ok_def pcm_trans_def Let_def split: option.splits bool.splits)
qed

text \<open>A write or a read opens the PCM if there is none, and closes it if the transfer fails.\<close>

lemma out_held_then:
  assumes "o_pcm out = None" and "out_held out s (out1, s1)" and "out_held out1 s1 (out2, s2)" and "o_pcm out2 = o_pcm out1 \<or> o_pcm out2 = None"
  shows "out_held out s (out2, s2)"
  using assms pcm_trans_trans [of "o_pcm out1" "pcms s" "pcms s1" "o_pcm out2" "pcms s2"] by (auto simp: out_held_def)

lemma in_held_then:
  assumes "i_pcm inp = None" and "in_held inp s (in1, s1)" and "in_held in1 s1 (in2, s2)" and "i_pcm in2 = i_pcm in1 \<or> i_pcm in2 = None"
  shows "in_held inp s (in2, s2)"
  using assms pcm_trans_trans [of "i_pcm in1" "pcms s" "pcms s1" "i_pcm in2" "pcms s2"] by (auto simp: in_held_def)

lemma out_held_quiet: "out_stream_ok out' \<Longrightarrow> o_pcm out' = o_pcm out \<Longrightarrow> set_option (o_pcm out) \<subseteq> pcms s \<Longrightarrow>
    out_streams t = out_streams s \<Longrightarrow> pcms t = pcms s \<Longrightarrow> out_held out s (out', t)"
  by (simp add: out_held_def pcm_trans_refl)

lemma in_held_quiet: "in_stream_ok inp' \<Longrightarrow> i_pcm inp' = i_pcm inp \<Longrightarrow> set_option (i_pcm inp) \<subseteq> pcms s \<Longrightarrow>
    out_streams t = out_streams s \<Longrightarrow> pcms t = pcms s \<Longrightarrow> in_held inp s (inp', t)"
  by (simp add: in_held_def pcm_trans_refl)

lemma write_open_held:
  assumes "out_stream_ok out" and "o_pcm out = Some p" and "p \<in> pcms s"
  shows "out_held out s (snd (out_write al b out s))" and "o_pcm (fst (snd (out_write al b out s))) \<in> {o_pcm out, None}"
proof -
  obtain out' t where c: "snd (out_close_pcm_locked al out (say (A_pcm_write p b) s)) = (out', t)" by (metis prod.collapse)
  have h: "out_held out s (out', t)" "o_pcm out' = None"
    using close_out_held [of out "say (A_pcm_write p b) s" al] assms c by (simp_all add: out_held_def)
  have "out_held out s (out\<lparr>o_frames_written := n\<rparr>, say (A_pcm_write p b) s)" for n
    using assms by (intro out_held_quiet) (auto simp: out_stream_ok_def)
  moreover have "out_held out s (out', pace n f r t)" for n f r using h(1) by (simp add: out_held_def)
  ultimately show "out_held out s (snd (out_write al b out s))" "o_pcm (fst (snd (out_write al b out s))) \<in> {o_pcm out, None}"
    using assms(2) c h(2) by (simp_all add: out_write_def Let_def case_prod_beta)
qed

lemma read_open_held:
  assumes "in_stream_ok inp" and "i_pcm inp = Some p" and "p \<in> pcms s"
  shows "in_held inp s (snd (in_read al n inp s))" and "i_pcm (fst (snd (in_read al n inp s))) \<in> {i_pcm inp, None}"
proof -
  obtain inp' t where c: "snd (in_close_pcm_locked al inp (say (A_pcm_read p n) s)) = (inp', t)" by (metis prod.collapse)
  have h: "in_held inp s (inp', t)" "i_pcm inp' = None"
    using close_in_held [of inp "say (A_pcm_read p n) s" al] assms c by (simp_all add: in_held_def)
  have "in_held inp s (inp, say (A_pcm_read p n) s)" using assms by (intro in_held_quiet) auto
  moreover have "in_held inp s (inp', pace k f r t)" for k f r using h(1) by (simp add: in_held_def)
  ultimately show "in_held inp s (snd (in_read al n inp s))" "i_pcm (fst (snd (in_read al n inp s))) \<in> {i_pcm inp, None}"
    using assms(2) c h(2) by (simp_all add: in_read_def Let_def case_prod_beta)
qed

lemma open_out_result:
  assumes "o_pcm out = None" and "out_open_pcm_locked al out s = (e, out1, s1)"
  shows "(e = 0) = (o_pcm out1 \<noteq> None)" "o_channel_mask out1 = o_channel_mask out" "o_config out1 = o_config out"
  using assms by (auto simp: out_open_pcm_locked_def ENODEV_def Let_def case_prod_beta split: option.splits bool.splits)

lemma open_in_result:
  assumes "i_pcm inp = None" and "in_open_pcm_locked al inp s = (e, in1, s1)"
  shows "(e = 0) = (i_pcm in1 \<noteq> None)" "i_channel_mask in1 = i_channel_mask inp" "i_config in1 = i_config inp"
  using assms by (auto simp: in_open_pcm_locked_def ENODEV_def Let_def case_prod_beta split: option.splits bool.splits)

lemma write_held:
  assumes "fresh_env al" and "out_stream_ok out" and "set_option (o_pcm out) \<subseteq> pcms s"
  shows "out_held out s (snd (out_write al b out s))"
proof (cases "o_pcm out")
  case (Some p)
  then show ?thesis using write_open_held(1) [OF assms(2) Some] assms(3) by simp
next
  case None
  obtain e out1 s1 where r: "out_open_pcm_locked al out s = (e, out1, s1)" by (metis prod.collapse)
  note k = open_out_result [OF None r]
  have h: "out_held out s (out1, s1)" using open_out_held [OF assms(1,2) None, of s] r by simp
  show ?thesis
  proof (cases "o_pcm out1")
    case None
    then show ?thesis using \<open>o_pcm out = None\<close> r k h by (simp add: out_write_def Let_def) (simp add: out_held_def)
  next
    case (Some p)
    obtain n out2 s2 where w: "out_write al b out1 s1 = (n, out2, s2)" by (metis prod.collapse)
    have "out_stream_ok out1" "p \<in> pcms s1" using h Some by (auto simp: out_held_def pcm_trans_def)
    from write_open_held [OF this(1) Some this(2), of al b] have "out_held out s (out2, s2)"
      using out_held_then [OF None h, of out2 s2] w by auto
    moreover have "out_write al b out s = out_write al b out1 s1" using None Some r k by (simp add: out_write_def)
    ultimately show ?thesis using w by simp
  qed
qed

lemma read_held:
  assumes "fresh_env al" and "in_stream_ok inp" and "set_option (i_pcm inp) \<subseteq> pcms s"
  shows "in_held inp s (snd (in_read al n inp s))"
proof (cases "i_pcm inp")
  case (Some p)
  then show ?thesis using read_open_held(1) [OF assms(2) Some] assms(3) by simp
next
  case None
  obtain e in1 s1 where r: "in_open_pcm_locked al inp s = (e, in1, s1)" by (metis prod.collapse)
  note k = open_in_result [OF None r]
  have h: "in_held inp s (in1, s1)" using open_in_held [OF assms(1,2) None, of s] r by simp
  show ?thesis
  proof (cases "i_pcm in1")
    case None
    then show ?thesis using \<open>i_pcm inp = None\<close> r k h by (simp add: in_read_def Let_def) (simp add: in_held_def)
  next
    case (Some p)
    obtain m in2 s2 where w: "in_read al n in1 s1 = (m, in2, s2)" by (metis prod.collapse)
    have "in_stream_ok in1" "p \<in> pcms s1" using h Some by (auto simp: in_held_def pcm_trans_def)
    from read_open_held [OF this(1) Some this(2), of al n] have "in_held inp s (in2, s2)"
      using in_held_then [OF None h, of in2 s2] w by auto
    moreover have "in_read al n inp s = in_read al n in1 s1" using None Some r k by (simp add: in_read_def)
    ultimately show ?thesis using w by simp
  qed
qed

section \<open>The streams and the PCMs\<close>

definition pcm_inv :: "hal \<Rightarrow> bool" where
  "pcm_inv h \<longleftrightarrow> streams_ok h \<and> out_streams (adev h) = count_of (\<lambda>_. True) (outs h) \<and> out_streams (adev h) \<le> 1 \<and> pcms_ok h"

lemma pcm_inv_streams:
  assumes "pcm_inv h"
  shows "outs h p = Some out \<Longrightarrow> out_stream_ok out \<and> set_option (o_pcm out) \<subseteq> pcms (adev h)"
    and "ins h p = Some inp \<Longrightarrow> outs h p = None \<and> in_stream_ok inp \<and> set_option (i_pcm inp) \<subseteq> pcms (adev h)"
proof -
  have k: "set_option (pcm_of h p) \<subseteq> pcms (adev h)" using assms by (auto simp: pcm_inv_def pcms_ok_def ran_def)
  show "outs h p = Some out \<Longrightarrow> out_stream_ok out \<and> set_option (o_pcm out) \<subseteq> pcms (adev h)"
    using k assms by (simp add: pcm_of_def pcm_inv_def streams_ok_def)
  assume i: "ins h p = Some inp"
  then have "outs h p = None" using assms by (auto simp: pcm_inv_def streams_ok_def)
  then show "outs h p = None \<and> in_stream_ok inp \<and> set_option (i_pcm inp) \<subseteq> pcms (adev h)"
    using k i assms by (simp add: pcm_of_def pcm_inv_def streams_ok_def)
qed

lemma pcm_inv_out:
  assumes "pcm_inv h" and "outs h p = Some out" and "out_held out (adev h) (out', s)"
  shows "pcm_inv (h\<lparr>adev := s, outs := (outs h)(p \<mapsto> out')\<rparr>)"
proof -
  have t: "out_stream_ok out'" "out_streams s = out_streams (adev h)" "pcm_trans (pcm_of h p) (o_pcm out') (ran (pcm_of h)) (pcms s)"
    using assms by (auto simp: out_held_def pcm_inv_def pcms_ok_def) (simp add: pcm_of_def)
  show ?thesis using assms(1,2) t ran_trans [OF t(3)]
    by (auto simp: pcm_inv_def streams_ok_def pcms_ok_def pcm_of_upd(1) [OF assms(2)] count_upd)
qed

lemma pcm_inv_in:
  assumes "pcm_inv h" and "ins h p = Some inp" and "in_held inp (adev h) (inp', s)"
  shows "pcm_inv (h\<lparr>adev := s, ins := (ins h)(p \<mapsto> inp')\<rparr>)"
proof -
  have o: "outs h p = None" using pcm_inv_streams(2) [OF assms(1,2)] by simp
  have t: "in_stream_ok inp'" "out_streams s = out_streams (adev h)" "pcm_trans (pcm_of h p) (i_pcm inp') (ran (pcm_of h)) (pcms s)"
    using assms o by (auto simp: in_held_def pcm_inv_def pcms_ok_def) (simp add: pcm_of_def)
  show ?thesis using assms(1,2) t ran_trans [OF t(3)]
    by (auto simp: pcm_inv_def streams_ok_def pcms_ok_def pcm_of_upd(2) [OF assms(2) o])
qed

lemma pcm_inv_on_out:
  "pcm_inv h \<Longrightarrow> (\<And>out. outs h p = Some out \<Longrightarrow> out_held out (adev h) (f out (adev h))) \<Longrightarrow> pcm_inv (on_out f p h)"
  using pcm_inv_out by (auto simp: on_out_def split: option.split prod.split)

lemma pcm_inv_on_in:
  "pcm_inv h \<Longrightarrow> (\<And>inp. ins h p = Some inp \<Longrightarrow> in_held inp (adev h) (f inp (adev h))) \<Longrightarrow> pcm_inv (on_in f p h)"
  using pcm_inv_in by (auto simp: on_in_def split: option.split prod.split)

lemma pcm_inv_dev:
  assumes "pcm_inv h" and "out_streams s = out_streams (adev h)" and "pcms s = pcms (adev h)"
  shows "pcm_inv (h\<lparr>adev := s\<rparr>)"
proof -
  have "pcm_of (h\<lparr>adev := s\<rparr>) = pcm_of h" by (simp add: pcm_of_def fun_eq_iff split: option.split)
  then show ?thesis using assms by (simp add: pcm_inv_def streams_ok_def pcms_ok_def)
qed

lemma pcm_inv_calloc: "pcm_inv h \<Longrightarrow> pcm_inv (snd (sys_calloc al h))"
  by (simp add: sys_calloc_def pcm_inv_dev)

lemma pcm_inv_new_out:
  assumes "pcm_inv h" and "outs h p = None" and "ins h p = None" and "out_streams (adev h) = 0"
  shows "pcm_inv (h\<lparr>adev := (adev h)\<lparr>out_streams := 1\<rparr>, outs := (outs h)(p \<mapsto> new_out d)\<rparr>)"
proof -
  have "out_stream_ok (new_out d)" "o_pcm (new_out d) = None" by (simp_all add: new_out_def out_stream_ok_def)
  then show ?thesis using assms by (auto simp: pcm_inv_def streams_ok_def pcms_ok_def count_upd new_stream_pcm(1))
qed

lemma pcm_inv_open_out:
  assumes "fresh_env al" and "pcm_inv h"
  shows "pcm_inv (snd (adev_open_output_stream al d c h))"
proof (cases "out_streams (adev h) > 0")
  case False
  have z: "out_streams (adev h) = 0"
    using False assms(2) count_nonneg [of "\<lambda>_. True" "outs h"] unfolding pcm_inv_def by linarith
  note q = pcm_inv_calloc [OF assms(2), of al]
  show ?thesis
  proof (cases "fst (sys_calloc al h)")
    case None
    then have "snd (adev_open_output_stream al d c h) = snd (sys_calloc al h)"
      using z by (simp add: adev_open_output_stream_def sys_calloc_def say_def Let_def case_prod_beta)
    then show ?thesis using q by simp
  next
    case (Some p)
    have "snd (adev_open_output_stream al d c h) =
        (snd (sys_calloc al h))\<lparr>adev := (adev (snd (sys_calloc al h)))\<lparr>out_streams := 1\<rparr>, outs := (outs (snd (sys_calloc al h)))(p \<mapsto> new_out d)\<rparr>"
      using Some z by (simp add: adev_open_output_stream_def sys_calloc_def say_def Let_def case_prod_beta)
    then show ?thesis using pcm_inv_new_out [OF q, of p d] calloc_fresh [OF assms(1) Some] z by simp
  qed
qed (use assms in \<open>simp add: adev_open_output_stream_def\<close>)

lemma pcm_inv_open_in:
  assumes "fresh_env al" and "pcm_inv h"
  shows "pcm_inv (snd (adev_open_input_stream al d c h))"
proof -
  let ?h = "snd (sys_calloc al h)"
  note q = pcm_inv_calloc [OF assms(2), of al]
  have "in_stream_ok (new_in d c n)" "i_pcm (new_in d c n) = None" for n by (simp_all add: new_in_def in_stream_ok_def)
  then have "pcm_inv (?h\<lparr>ins := (ins h)(p \<mapsto> new_in d c n)\<rparr>)" if "fst (sys_calloc al h) = Some p" for p n
    using calloc_fresh [OF assms(1) that] q new_stream_pcm(2) [of ?h p "new_in d c n"]
    by (auto simp: pcm_inv_def streams_ok_def pcms_ok_def)
  then show ?thesis using assms(2) q by (auto simp: adev_open_input_stream_def Let_def case_prod_beta split: option.split)
qed

text \<open>A stream gives up its PCM before it is freed.\<close>

lemma pcm_inv_close_out:
  assumes "pcm_inv h" and "outs h p = Some out"
  shows "pcm_inv (adev_close_output_stream al p out h)"
proof -
  obtain out' s where r: "snd (out_close_pcm_locked al out (adev h)) = (out', s)" by (metis prod.collapse)
  note k = pcm_inv_streams(1) [OF assms]
  have t: "out_held out (adev h) (out', s)" "o_pcm out' = None"
    using close_out_held [of out "adev h" al] k r by simp_all
  let ?h = "h\<lparr>adev := s, outs := (outs h)(p \<mapsto> out')\<rparr>"
  have i: "pcm_inv ?h" by (rule pcm_inv_out [OF assms t(1)])
  have "ins h p = None" using assms by (auto simp: pcm_inv_def streams_ok_def)
  then have "pcm_of (?h\<lparr>adev := u, outs := (outs h)(p := None)\<rparr>) = pcm_of ?h" for u
    using t(2) by (auto simp: pcm_of_def fun_eq_iff split: option.split)
  moreover have "0 < out_streams (adev ?h)"
    using i count_pos [of "outs ?h" p out' "\<lambda>_. True"] by (simp add: pcm_inv_def streams_ok_def)
  ultimately have "pcm_inv (?h\<lparr>adev := s\<lparr>out_streams := out_streams s - 1\<rparr>, outs := (outs h)(p := None)\<rparr>)"
    using i assms(2) by (auto simp: pcm_inv_def streams_ok_def pcms_ok_def count_upd split: if_splits)
  then show ?thesis using r \<open>0 < _\<close> by (simp add: adev_close_output_stream_def Let_def case_prod_beta)
qed

lemma pcm_inv_close_in:
  assumes "pcm_inv h" and "ins h p = Some inp"
  shows "pcm_inv (adev_close_input_stream al p inp h)"
proof -
  obtain inp' s where r: "snd (in_close_pcm_locked al inp (adev h)) = (inp', s)" by (metis prod.collapse)
  note k = pcm_inv_streams(2) [OF assms]
  have t: "in_held inp (adev h) (inp', s)" "i_pcm inp' = None"
    using close_in_held [of inp "adev h" al] k r by simp_all
  let ?h = "h\<lparr>adev := s, ins := (ins h)(p \<mapsto> inp')\<rparr>"
  have i: "pcm_inv ?h" by (rule pcm_inv_in [OF assms t(1)])
  have "pcm_of (?h\<lparr>ins := (ins h)(p := None)\<rparr>) = pcm_of ?h"
    using t(2) k by (auto simp: pcm_of_def fun_eq_iff split: option.split)
  then have "pcm_inv (?h\<lparr>ins := (ins h)(p := None)\<rparr>)"
    using i by (auto simp: pcm_inv_def streams_ok_def pcms_ok_def split: if_splits)
  then show ?thesis using r by (simp add: adev_close_input_stream_def Let_def case_prod_beta)
qed

lemma pcm_inv_step:
  assumes "fresh_env al" and "pcm_inv h"
  shows "pcm_inv (hal_step al fl op h)"
proof -
  note o = pcm_inv_streams(1) [OF assms(2)] and i = pcm_inv_streams(2) [OF assms(2)]
  note on_out = pcm_inv_on_out [OF assms(2)] and on_in = pcm_inv_on_in [OF assms(2)]
  show ?thesis
  proof (cases op)
    case (CloseOut p)
    then show ?thesis using pcm_inv_close_out [OF assms(2)] assms(2) by (simp split: option.split)
  next
    case (CloseIn p)
    then show ?thesis using pcm_inv_close_in [OF assms(2)] assms(2) by (simp split: option.split)
  next
    case (Write p b)
    then show ?thesis using write_held [OF assms(1)] o by (simp add: on_out)
  next
    case (Read p n)
    then show ?thesis using read_held [OF assms(1)] i by (simp add: on_in)
  next
    case (StandbyOut p)
    have "out_held out (adev h) (snd (out_standby al out (adev h)))" if "outs h p = Some out" for out
      using close_out_held(1) o [OF that] by (simp add: out_standby_def Let_def case_prod_beta out_held_quiet)
    then show ?thesis using StandbyOut by (simp add: on_out)
  next
    case (StandbyIn p)
    have "in_held inp (adev h) (snd (in_standby al inp (adev h)))" if "ins h p = Some inp" for inp
      using close_in_held(1) i [OF that] by (simp add: in_standby_def Let_def case_prod_beta in_held_quiet)
    then show ?thesis using StandbyIn by (simp add: on_in)
  next
    case (SetRoutingStore p d)
    have "out_held out (adev h) (out\<lparr>o_devices := d\<rparr>, adev h)" if "outs h p = Some out" for out
      using o [OF that] by (intro out_held_quiet) (simp_all add: out_stream_ok_def)
    then show ?thesis using SetRoutingStore by (simp add: set_parameters_store_def on_out)
  next
    case (SetInParameters p kv)
    have "in_held inp (adev h) (snd (in_set_parameters al kv inp), adev h)" if "ins h p = Some inp" for inp
      using i [OF that] by (intro in_held_quiet) (simp_all add: in_stream_ok_def in_set_parameters_def split: option.split)
    then show ?thesis using SetInParameters by (simp add: on_in)
  next
    case (Position p)
    have "out_held out (adev h) (out, snd (out_get_presentation_position al out True (adev h)))" if "outs h p = Some out" for out
      using o [OF that] by (intro out_held_quiet) simp_all
    then show ?thesis using Position by (simp add: on_out)
  next
    case (SetVolume l r)
    then show ?thesis by (simp add: out_set_volume_def Let_def case_prod_beta pcm_inv_dev [OF assms(2)])
  next
    case (SetRoutingApply d r)
    then show ?thesis by (simp add: set_parameters_apply_def pcm_inv_dev [OF assms(2)])
  next
    case InitCheck
    then show ?thesis by (simp add: adev_init_check_def Let_def case_prod_beta pcm_inv_dev [OF assms(2)])
  qed (use assms pcm_inv_open_out pcm_inv_open_in in \<open>simp_all add: adev_set_mic_mute_def adev_set_mode_def pcm_inv_dev\<close>)
qed

lemma pcm_inv_run: "fresh_env al \<Longrightarrow> pcm_inv h \<Longrightarrow> pcm_inv (hal_run al fl ops h)"
  unfolding hal_run_def by (induction ops arbitrary: h) (auto intro: pcm_inv_step)

lemma pcm_inv_start:
  assumes "adev_open al name c = (e, Some h, c')" and "pcms c = {}"
  shows "pcm_inv h"
proof -
  have "h = \<lparr>adev = new_adev (c\<lparr>alog := alog c @ [A_calloc]\<rparr>), outs = Map.empty, ins = Map.empty\<rparr>"
    using assms(1) by (auto simp: adev_open_def Let_def split: if_splits option.splits)
  then show ?thesis using assms(2)
    by (simp add: pcm_inv_def streams_ok_def pcms_ok_def pcm_of_def [abs_def] new_adev_def card.defs xd_audio_device.defs)
qed

text \<open>C24. No PCM is leaked or shared. After any sequence of operations on a HAL that was opened with no PCM open, whatever the mixer and its
  controls answer and whichever opens, reads and writes of a PCM fail, the PCMs that are open are those
  the streams hold, each held by one stream, and there is at most one output stream; with every
  stream closed or in standby none is open. (A new stream or PCM has a handle that is not in use.)\<close>

theorem pcms_owned_by_streams:
  assumes "fresh_env al" and "pcms c = {}" and "adev_open al name c = (e, Some h0, c')" and "h = hal_run al fl ops h0"
  shows "pcms (adev h) = ran (pcm_of h) \<and> inj_on (pcm_of h) (dom (pcm_of h)) \<and> card (dom (outs h)) \<le> 1 \<and>
    ((\<forall>p out. outs h p = Some out \<longrightarrow> o_standby out) \<and> (\<forall>p inp. ins h p = Some inp \<longrightarrow> i_standby inp) \<longrightarrow> pcms (adev h) = {})"
proof -
  have i: "pcm_inv h" unfolding assms(4) by (rule pcm_inv_run [OF assms(1) pcm_inv_start [OF assms(3,2)]])
  have "{k. case outs h k of Some x \<Rightarrow> True | None \<Rightarrow> False} = dom (outs h)" by (auto split: option.splits)
  then have c: "card (dom (outs h)) \<le> 1" using i by (simp add: pcm_inv_def count_of_def)
  have "pcm_of h p = None" if "\<forall>p out. outs h p = Some out \<longrightarrow> o_standby out" "\<forall>p inp. ins h p = Some inp \<longrightarrow> i_standby inp" for p
    using that i by (auto simp: pcm_of_def pcm_inv_def streams_ok_def out_stream_ok_def in_stream_ok_def split: option.split)
  with i c show ?thesis by (auto simp: pcm_inv_def pcms_ok_def ran_def)
qed

end
