(* ===== verification/Audio_Props.thy ===== *)
theory Audio_Props
  imports Audio_Pcms
begin

text \<open>
  What single operations of the audio HAL promise: volume, negotiation of an input format, buffer
  sizes, playback positions and routing by parameter; and a sequence in which a route is lost. The last
  section exercises the theorems on a concrete card.
\<close>

section \<open>Volume\<close>

text \<open>What is used of \<^verbatim>\<open>float\<close> rounding: it is monotone and the small multiples of one half are
  representable.\<close>

definition good_fl :: "(real \<Rightarrow> real) \<Rightarrow> bool" where
  "good_fl fl \<longleftrightarrow> mono fl \<and> fl 0 = 0 \<and> fl (1/2) = 1/2 \<and> fl 13 = 13 \<and> fl (27/2) = 27/2"

lemma step_count: "GAIN_STEP_COUNT = 14"
  by (simp add: GAIN_STEP_COUNT_def kGainIndexByStep_def)

lemma gain_step_bound:
  assumes "good_fl fl" and "0 \<le> v" and "v \<le> 1"
  shows "gain_step fl v < GAIN_STEP_COUNT"
proof -
  have m: "x \<le> y \<Longrightarrow> fl x \<le> fl y" for x y using assms(1) by (simp add: good_fl_def monoD)
  have "0 \<le> fl (v * 13)" "fl (v * 13) \<le> 13"
    using m [of 0 "v * 13"] m [of "v * 13" 13] assms by (simp_all add: good_fl_def)
  then have "fl (fl (v * 13) + 1/2) \<le> 27/2"
    using m [of "fl (v * 13) + 1/2" "27/2"] assms(1) by (simp add: good_fl_def)
  moreover define z where "z = \<lfloor>fl (fl (v * 13) + 1/2)\<rfloor>"
  ultimately have "z < 14" by linarith
  then have "nat z < 14" by simp
  then show ?thesis by (simp add: gain_step_def step_count z_def)
qed

lemma clamp01_range: "0 \<le> clamp01 v \<and> clamp01 v \<le> 1"
  by (auto simp: clamp01_def Let_def)

lemma gain_of_allowed: "good_fl fl \<Longrightarrow> gain_of fl l r \<in> set kGainIndexByStep"
proof -
  assume g: "good_fl fl"
  have "GAIN_ENUM_MUTE \<in> set kGainIndexByStep" by (simp add: GAIN_ENUM_MUTE_def kGainIndexByStep_def)
  moreover have "kGainIndexByStep ! gain_step fl v \<in> set kGainIndexByStep" if "0 \<le> v" "v \<le> 1" for v
    using gain_step_bound [OF g that] by (simp add: GAIN_STEP_COUNT_def)
  ultimately show ?thesis using clamp01_range by (auto simp: gain_of_def Let_def)
qed

text \<open>Whatever finite volumes are set, the gain that is programmed is an entry of the step table (the
  table is never read past its end), so the reserved items 13 and 14 are never selected; full volume
  selects the loudest item and silence mutes.\<close>

theorem gain_never_reserved:
  assumes "good_fl fl"
  shows "gain_step fl (clamp01 v) < length kGainIndexByStep \<and>
    gain_of fl l r \<in> {0..GAIN_ENUM_DEFAULT} \<union> {GAIN_ENUM_MUTE} \<and>
    (fl (l + r) = 0 \<longrightarrow> gain_of fl l r = GAIN_ENUM_MUTE) \<and> (1 \<le> fl (fl (l + r) / 2) \<longrightarrow> gain_of fl l r = 0)"
proof -
  have a: "gain_step fl (clamp01 v) < length kGainIndexByStep"
    using gain_step_bound [OF assms, of "clamp01 v"] clamp01_range by (simp add: GAIN_STEP_COUNT_def)
  have b: "gain_of fl l r \<in> {0..GAIN_ENUM_DEFAULT} \<union> {GAIN_ENUM_MUTE}"
    using gain_of_allowed [OF assms, of l r] by (auto simp: kGainIndexByStep_def GAIN_ENUM_DEFAULT_def GAIN_ENUM_MUTE_def)
  have c: "gain_of fl l r = GAIN_ENUM_MUTE" if "fl (l + r) = 0"
    using that assms by (simp add: gain_of_def clamp01_def good_fl_def)
  have d: "gain_of fl l r = 0" if "fl (fl (l + r) / 2) \<ge> 1"
  proof -
    have "clamp01 (fl (fl (l + r) / 2)) = 1" using that by (auto simp: clamp01_def Let_def)
    moreover have f: "fl 13 = 13" "fl (27/2) = 27/2" using assms unfolding good_fl_def by blast+
    have "gain_step fl 1 = nat \<lfloor>fl (27/2)\<rfloor>" by (simp add: gain_step_def step_count f(1))
    then have "gain_step fl 1 = 13" unfolding f(2) by simp
    ultimately show ?thesis by (simp add: gain_of_def kGainIndexByStep_def)
  qed
  show ?thesis using a b c d by blast
qed

section \<open>Negotiation of an input format\<close>

text \<open>A caller that tries again with the suggested configuration, up to \<open>n\<close> times.\<close>

fun negotiate :: "alsa \<Rightarrow> u32 \<Rightarrow> nat \<Rightarrow> audio_config \<Rightarrow> hal \<Rightarrow> int \<times> audio_config" where
  "negotiate al d 0 c h = (case fst (adev_open_input_stream al d c h) of (e, _, c') \<Rightarrow> (e, c'))"
| "negotiate al d (Suc n) c h =
     (case fst (adev_open_input_stream al d c h) of (e, _, c') \<Rightarrow> if e = - EINVAL then negotiate al d n c' h else (e, c'))"

text \<open>How many of the three fields are not acceptable.\<close>

definition bad_fields :: "alsa \<Rightarrow> audio_config \<Rightarrow> nat" where
  "bad_fields al c = of_bool (ac_format c \<noteq> AUDIO_FORMAT_DEFAULT \<and> ac_format c \<noteq> AUDIO_FORMAT_PCM_16_BIT) +
     of_bool (\<not> rate_is_supported_in (ac_sample_rate c)) +
     of_bool (t_in_channel_count al (ac_channel_mask c) < 1 \<or> t_in_channel_count al (ac_channel_mask c) > 2)"

lemma open_in_accepts:
  "bad_fields al c = 0 \<Longrightarrow>
     fst (fst (adev_open_input_stream al d c h)) = (if fst (sys_calloc al h) = None then - ENOMEM else 0)"
  by (auto simp: bad_fields_def adev_open_input_stream_def Let_def case_prod_beta split: option.split)

lemma open_in_refuses:
  assumes "t_in_channel_count al AUDIO_CHANNEL_IN_STEREO = 2" and "0 < bad_fields al c"
  shows "fst (fst (adev_open_input_stream al d c h)) = - EINVAL"
    and "bad_fields al (snd (snd (fst (adev_open_input_stream al d c h)))) < bad_fields al c"
proof -
  have r: "rate_is_supported_in 48000" by (simp add: rate_is_supported_in_def kInputRates_def)
  show "fst (fst (adev_open_input_stream al d c h)) = - EINVAL"
    using assms by (auto simp: bad_fields_def adev_open_input_stream_def Let_def)
  show "bad_fields al (snd (snd (fst (adev_open_input_stream al d c h)))) < bad_fields al c"
    using assms r by (auto simp: bad_fields_def adev_open_input_stream_def Let_def)
qed

lemma negotiate_ends:
  assumes "t_in_channel_count al AUDIO_CHANNEL_IN_STEREO = 2"
  shows "bad_fields al c \<le> n \<Longrightarrow> fst (negotiate al d n c h) = (if fst (sys_calloc al h) = None then - ENOMEM else 0)"
proof (induction n arbitrary: c)
  case 0
  then show ?case using open_in_accepts [of al c d h] by (simp add: case_prod_beta)
next
  case (Suc n)
  show ?case
  proof (cases "bad_fields al c = 0")
    case True
    then show ?thesis using open_in_accepts [OF True, of d h] by (simp add: case_prod_beta EINVAL_def ENOMEM_def)
  next
    case False
    with open_in_refuses [OF assms, of c d h] Suc show ?thesis by (simp add: case_prod_beta)
  qed
qed

text \<open>C32. Opening an input stream with a configuration the HAL does not take is refused with a
  suggestion; a caller that follows the suggestions is accepted after at most three, if there is
  memory.\<close>

theorem input_negotiation_converges:
  assumes "t_in_channel_count al AUDIO_CHANNEL_IN_STEREO = 2"
  shows "fst (negotiate al d 3 c h) = (if fst (sys_calloc al h) = None then - ENOMEM else 0)"
  by (rule negotiate_ends [OF assms]) (simp add: bad_fields_def)

text \<open>The buffer size the HAL announces for an input configuration it takes is the one the stream then
  has, when a frame is one 16-bit sample for each channel.\<close>

theorem input_buffer_size_agrees:
  assumes "rate_is_supported_in (ac_sample_rate c)" and "t_in_channel_count al (ac_channel_mask c) \<in> {1, 2}"
    and "t_in_frame_size al (ac_channel_mask c) = 2 * t_in_channel_count al (ac_channel_mask c)" and "32 \<le> t_long_bits al"
  shows "adev_get_input_buffer_size al c = in_get_buffer_size al (new_in d c (t_in_channel_count al (ac_channel_mask c)))"
proof -
  have w: "(n :: nat) mod 2 ^ t_long_bits al = n" if "n < 2 ^ 32" for n
    using that assms(4) power_increasing [of 32 "t_long_bits al" "2 :: nat"] by (simp add: order_less_le_trans)
  have "ac_sample_rate c \<in> {8000, 16000, 32000, 48000}" using assms(1) by (simp add: rate_is_supported_in_def kInputRates_def)
  then show ?thesis
    using assms(2,3) by (auto simp: adev_get_input_buffer_size_def in_get_buffer_size_def new_in_def IN_PERIOD_SIZE_def w)
qed

section \<open>Positions\<close>

lemma unat_ucast_u32: "unat (ucast (x :: u32) :: u64) = unat x"
proof -
  have "unat x < 2 ^ 32" using unsigned_less [of x] by simp
  then have "unat x < 2 ^ 64" by simp
  then show ?thesis by (simp add: unsigned_ucast_eq take_bit_nat_eq_self)
qed

lemma presented_behind: "presented w k a \<le> w" "unat w - unat (presented w k a) \<le> unat k"
proof -
  define q where "q = (if a < k then ucast (k - a) else 0 :: u64)"
  have p: "presented w k a = (if w > q then w - q else 0)" by (simp add: presented_def q_def Let_def)
  have "unat q \<le> unat k"
    unfolding q_def by (auto simp: unat_ucast_u32 unat_sub word_less_nat_alt word_le_nat_alt)
  then show "presented w k a \<le> w" "unat w - unat (presented w k a) \<le> unat k"
    unfolding p by (auto simp: unat_sub word_less_nat_alt word_le_nat_alt not_less)
qed

text \<open>A presentation position that is reported is never ahead of what was written, and behind it by
  at most the kernel's buffer; in standby it is exactly what was written. It is refused with the
  documented errors only when an argument is missing or the active PCM has no timestamp.\<close>

theorem presentation_position_bounded:
  assumes "fst (out_get_presentation_position al out args s) = (ret, r)"
  shows "case r of
      Some (frames, ts) \<Rightarrow> ret = 0 \<and> args \<and> frames \<le> o_frames_written out \<and>
        unat (o_frames_written out) - unat frames \<le> unat (cf_period_size (o_config out) * cf_period_count (o_config out)) \<and>
        (o_pcm out = None \<longrightarrow> frames = o_frames_written out)
    | None \<Rightarrow> (if args then ret = - ENODATA \<and> \<not> o_standby out else ret = - EINVAL)"
  using assms presented_behind
  by (auto simp: out_get_presentation_position_def now_ns_def Let_def case_prod_beta split: option.splits if_splits)

section \<open>Routing by parameter\<close>

lemma digits_val_stop:
  "list_all is_digit ds \<Longrightarrow> rest = [] \<or> \<not> is_digit (hd rest) \<Longrightarrow> digits_val acc (ds @ rest) = digits_val acc ds"
  by (induction ds arbitrary: acc) (cases rest, auto)+

lemma scan_dec_int:
  assumes "rest = [] \<or> \<not> is_digit (hd rest)" and "NUL \<notin> set rest"
  shows "scan_number (dec_int i @ rest) = (i < 0, nat \<bar>i\<bar>)"
proof -
  have c: "cstr (dec n @ rest) = dec n @ rest" for n
    using dec_digits [of n] assms(2) digit_not_special by (intro cstr_no_NUL) (auto simp: list_all_iff)
  have v: "digits_val 0 (dec n @ rest) = n" for n
    using digits_val_stop [OF dec_digits assms(1)] digits_val_dec by simp
  obtain x xs where x: "dec (nat i) = x # xs" by (cases "dec (nat i)") auto
  have dx: "\<not> is_space x" "x \<noteq> CHR ''-''" "x \<noteq> CHR ''+''" "x \<noteq> NUL"
    using dec_digits [of "nat i"] x digit_not_special [of x] by auto
  show ?thesis
  proof (cases "i < 0")
    case True
    have "cstr (CHR ''-'' # dec (nat (- i)) @ rest) = CHR ''-'' # dec (nat (- i)) @ rest"
      using c [of "nat (- i)"] by (simp add: cstr_def NUL_def)
    then show ?thesis using True v [of "nat (- i)"] by (simp add: dec_int_def scan_number_def is_space_def)
  next
    case False
    then show ?thesis using c [of "nat i"] v [of "nat i"] x dx by (simp add: dec_int_def scan_number_def)
  qed
qed

lemma atoi_dec_int:
  assumes "rest = [] \<or> \<not> is_digit (hd rest)" and "NUL \<notin> set rest" and "- (2 ^ 31) \<le> i" and "i < 2 ^ 31" and "w \<in> {32, 64}"
  shows "atoi w (dec_int i @ rest) = i"
proof -
  have "strtol10 w (dec_int i @ rest) = i"
    using assms by (auto simp: strtol10_def scan_dec_int)
  then show ?thesis using assms(3,4) by (simp add: atoi_def signed_of_int signed_take_bit_int_eq_self)
qed

lemma strstr_here: "strstr (p @ r) p = Some (p @ r)"
proof (cases "p @ r")
  case (Cons c cs)
  then show ?thesis by (metis is_prefix_of_iff strstr.simps(2))
qed simp

text \<open>A routing parameter sent to an active output stream is stored, reads back as it was sent, and
  moves the stream to the amplifier of the new devices, the only one left on.\<close>

theorem routing_parameter_applied:
  assumes "good_card al" and "out_ok s" and "o_routed out" and "0 < out_route_refs s" and "t_long_bits al \<in> {32, 64}"
    and "rest = [] \<or> \<not> is_digit (hd rest)" and "NUL \<notin> set rest"
    and "out_set_parameters al (Some (''routing='' @ dec_int (sint d) @ rest)) out s = (e, out', s')"
  shows "e = 0 \<and> o_devices out' = d \<and> amps_on s' = {amp_ctl_for_devices al d} \<and>
    out_get_parameters out' (Some ''routing'') = ''routing='' @ dec_int (sint d)"
proof -
  have b: "- (2 ^ 31) \<le> sint d" "sint d < 2 ^ 31" using sint_range_size [of d] by (simp_all add: word_size)
  have nn: "NUL \<notin> set (dec_int (sint d))"
  proof -
    have "NUL \<notin> set (dec n)" for n using dec_digits [of n] digit_not_special by (auto simp: list_all_iff)
    then show ?thesis by (simp add: dec_int_def NUL_def)
  qed
  have "cstr (''routing='' @ dec_int (sint d) @ rest) = ''routing='' @ dec_int (sint d) @ rest"
    using nn assms(7) by (intro cstr_no_NUL) (auto simp: NUL_def)
  then have r: "routing_of al (Some (''routing='' @ dec_int (sint d) @ rest)) = Some d"
    using atoi_dec_int [OF assms(6,7) b assms(5)] strstr_here [of "''routing=''" "dec_int (sint d) @ rest"]
    by (simp add: routing_of_def STREAM_ROUTING_def)
  obtain a where a: "a \<in> set amps" "out_amp s = Some a" "amps_on s = {a}" using assms(2,4) by (auto simp: out_ok_def)
  have l: "length (''routing='' @ dec_int (sint d)) < 128"
  proof -
    have "nat \<bar>sint d\<bar> < 10 ^ 10" using b by simp
    from length_dec [OF this] show ?thesis by (auto simp: dec_int_def)
  qed
  have "strstr (cstr ''routing'') ''routing'' = Some ''routing''" by (simp add: cstr_def NUL_def)
  then have g: "get_routing (Some ''routing'') d = ''routing='' @ dec_int (sint d)"
    unfolding get_routing_def STREAM_ROUTING_def using snprintf_buf_fits [OF l] by simp
  have "out_set_parameters al (Some (''routing='' @ dec_int (sint d) @ rest)) out s =
      (0, out\<lparr>o_devices := d\<rparr>, adev_route_out_retarget al d s)"
    unfolding out_set_parameters_def r by (simp add: set_parameters_store_def set_parameters_apply_def assms(3))
  with assms(8) have "e = 0" "out' = out\<lparr>o_devices := d\<rparr>" "s' = adev_route_out_retarget al d s" by simp_all
  then show ?thesis
    unfolding out_get_parameters_def using retarget_out(4) [OF assms(1,4) a(2,1,3), of d] g by simp
qed

section \<open>A card whose mixer opens late\<close>

text \<open>The demonstration card: every request is granted, with a new handle each time.\<close>

definition alsa_demo :: alsa where
  "alsa_demo = \<lparr>t_mixer_open = (\<lambda>_. True), t_ctl = (\<lambda>_. True), t_num_values = (\<lambda>_. 1), t_set_value = (\<lambda>_ _ _ _. 0),
     t_num_enums = (\<lambda>_. 16), t_enum_string = (\<lambda>_ i. Some (dec i)), t_set_enum = (\<lambda>_ _ _. 0),
     t_pcm_open = (\<lambda>H l _. if length l \<in> H then None else Some (length l, True)), t_pcm_write = (\<lambda>_ _ _. 0),
     t_pcm_read = (\<lambda>_ _ n. (0, replicate n CHR ''x'')), t_htimestamp = (\<lambda>_ _. (0, 3000, (1, 2))),
     t_calloc = (\<lambda>H l. if length l \<in> H then None else Some (length l)), t_now = (\<lambda>_. 5), t_long_bits = 64,
     t_out_all = 0x3FFFFFFF, t_out_frame_size = (\<lambda>_. 4), t_in_frame_size = (\<lambda>m. if m = 12 then 4 else 2),
     t_in_channel_count = (\<lambda>m. if m = 12 then 2 else 1)\<rparr>"

text \<open>The same, but the first attempt to open the mixer fails.\<close>

definition alsa_late :: alsa where
  "alsa_late = alsa_demo\<lparr>t_mixer_open := (\<lambda>l. l \<noteq> []), t_pcm_open := (\<lambda>H l _. Some (length l, True))\<rparr>"

definition demo_card :: card where
  "demo_card = \<lparr>alog = [], enums = Map.empty, ints = Map.empty, pcms = {}\<rparr>"

definition demo_in :: xd_stream_in where
  "demo_in = new_in 0 \<lparr>ac_sample_rate = 48000, ac_channel_mask = 12, ac_format = 1\<rparr> 2"

definition two_inputs :: hal where
  "two_inputs = \<lparr>adev = new_adev demo_card, outs = Map.empty, ins = [1 \<mapsto> demo_in, 2 \<mapsto> demo_in]\<rparr>"

lemma demo_adev [simp]: "alog (new_adev demo_card) = []" "enums (new_adev demo_card) = Map.empty" "ints (new_adev demo_card) = Map.empty"
  "pcms (new_adev demo_card) = {}" "\<not> mixer (new_adev demo_card)" "in_route_refs (new_adev demo_card) = 0"
  "out_route_refs (new_adev demo_card) = 0" "out_streams (new_adev demo_card) = 0"
  by (simp_all add: new_adev_def demo_card_def card.defs xd_audio_device.defs)

section \<open>A route that another stream holds\<close>

text \<open>What a read does to a stream that has no PCM yet, when the PCM can be opened and read.\<close>

lemma read_opens:
  assumes "i_pcm a = None" and "t_pcm_open al (pcms s1) (alog s1) PCM_IN = Some (x, True)" and "snd (adev_route_in_enable al s) = s1"
    and "fst (t_pcm_read al (alog s1 @ [A_pcm_open PCM_IN]) x m) = 0"
  shows "snd (in_read al m a s) = (a\<lparr>i_routed := True, i_pcm := Some x, i_standby := False\<rparr>,
     say (A_pcm_read x m) ((say (A_pcm_open PCM_IN) s1)\<lparr>pcms := insert x (pcms s1)\<rparr>))"
proof -
  obtain e where "adev_route_in_enable al s = (e, s1)" using assms(3) by (metis prod.collapse)
  then show ?thesis using assms by (simp add: in_read_def in_open_pcm_locked_def pcm_open_def say_def Let_def case_prod_beta)
qed

lemma enable_without_mixer:
  "\<not> mixer s \<Longrightarrow> \<not> t_mixer_open al (alog s) \<Longrightarrow> snd (adev_route_in_enable al s) = (say A_mixer_open s)\<lparr>mixer := False\<rparr>"
  by (simp add: adev_route_in_enable_def adev_mixer_locked_def Let_def)

lemma enable_with_mixer:
  assumes "t_mixer_open al (alog s)"
  shows "in_route_refs (snd (adev_route_in_enable al s)) = in_route_refs s + 1 \<and> mixer (snd (adev_route_in_enable al s))"
  using assms by (simp add: adev_route_in_enable_def adev_mixer_locked_def Let_def)

lemma last_reference:
  assumes "in_route_refs s = 1" and "mixer s" and "t_ctl al ''Audio_ADC_1_Switch''" and "\<forall>l n v. t_set_enum al l n v = 0"
  shows "in_route_refs (adev_route_in_disable al s) = 0 \<and> enums (adev_route_in_disable al s) ''Audio_ADC_1_Switch'' = Some ''Off''"
  using assms by (simp add: adev_route_in_disable_def adev_mixer_locked_def mixer_set_str_def ctl_set_enum_def say_def Let_def case_prod_beta)

text \<open>C35. The HAL marks a stream routed even when the mixer could not be opened and no reference was
  taken. On any card whose mixer cannot be opened when a first input stream is read and can be from then on, with PCMs that open and
  read: if a second input stream is read and then the first one closed, the close releases the second's
  reference, and the second stays active with its PCM open while the capture path is switched off.\<close>

theorem unrouted_close_cuts_other:
  assumes "ins h p = Some a" and "ins h q = Some b" and "p \<noteq> q" and "i_pcm a = None" and "i_pcm b = None"
    and "in_route_refs (adev h) = 0" and "\<not> mixer (adev h)"
    and "\<not> t_mixer_open al (alog (adev h))" and "\<forall>l. length (alog (adev h)) < length l \<longrightarrow> t_mixer_open al l"
    and "\<forall>H l. \<exists>x. t_pcm_open al H l PCM_IN = Some (x, True)" and "\<forall>l x k. fst (t_pcm_read al l x k) = 0"
    and "t_ctl al ''Audio_ADC_1_Switch''" and "\<forall>l n v. t_set_enum al l n v = 0"
    and "h' = hal_run al fl [Read p m, Read q n, CloseIn p] h"
  shows "(\<exists>b'. ins h' q = Some b' \<and> \<not> i_standby b' \<and> i_routed b' \<and> i_pcm b' \<noteq> None) \<and>
    in_route_refs (adev h') = 0 \<and> enums (adev h') ''Audio_ADC_1_Switch'' = Some ''Off''"
proof -
  let ?s1 = "(say A_mixer_open (adev h))\<lparr>mixer := False\<rparr>"
  obtain x where x: "t_pcm_open al (pcms ?s1) (alog ?s1) PCM_IN = Some (x, True)" using assms(10) by blast
  define s2 where "s2 = say (A_pcm_read x m) ((say (A_pcm_open PCM_IN) ?s1)\<lparr>pcms := insert x (pcms ?s1)\<rparr>)"
  let ?a = "a\<lparr>i_routed := True, i_pcm := Some x, i_standby := False\<rparr>"
  have r1: "hal_step al fl (Read p m) h = h\<lparr>adev := s2, ins := (ins h)(p \<mapsto> ?a)\<rparr>"
    using read_opens [OF assms(4) x enable_without_mixer [OF assms(7,8)]] assms(1,11) by (simp add: on_in_def s2_def)
  have s2: "in_route_refs s2 = 0" "t_mixer_open al (alog s2)"
    using assms(6,9) by (simp_all add: s2_def) (simp add: say_def)
  define s3 where "s3 = snd (adev_route_in_enable al s2)"
  have s3: "in_route_refs s3 = 1" "mixer s3" using enable_with_mixer [OF s2(2)] s2(1) by (simp_all add: s3_def)
  obtain y where y: "t_pcm_open al (pcms s3) (alog s3) PCM_IN = Some (y, True)" using assms(10) by blast
  define s4 where "s4 = say (A_pcm_read y n) ((say (A_pcm_open PCM_IN) s3)\<lparr>pcms := insert y (pcms s3)\<rparr>)"
  let ?b = "b\<lparr>i_routed := True, i_pcm := Some y, i_standby := False\<rparr>"
  let ?h2 = "h\<lparr>adev := s4, ins := (ins h)(p \<mapsto> ?a, q \<mapsto> ?b)\<rparr>"
  have r2: "hal_step al fl (Read q n) (h\<lparr>adev := s2, ins := (ins h)(p \<mapsto> ?a)\<rparr>) = ?h2"
    using read_opens [OF assms(5) y s3_def [symmetric]] assms(2,3,11) by (simp add: on_in_def s4_def)
  have s4: "in_route_refs (pcm_close x s4) = 1" "mixer (pcm_close x s4)"
    using s3 by (simp_all add: s4_def) (simp add: pcm_close_def say_def)
  have r3: "hal_step al fl (CloseIn p) ?h2 = ?h2\<lparr>adev := adev_route_in_disable al (pcm_close x s4), ins := (ins ?h2)(p := None)\<rparr>"
    using assms(3) by (simp add: adev_close_input_stream_def in_close_pcm_locked_def)
  have "h' = ?h2\<lparr>adev := adev_route_in_disable al (pcm_close x s4), ins := (ins ?h2)(p := None)\<rparr>"
    unfolding assms(14) hal_run_def fold_simps r1 r2 r3 ..
  then show ?thesis using last_reference [OF s4 assms(12,13)] assms(3) by simp
qed

section \<open>The theorems at the demonstration card\<close>

lemma demo_good: "good_card alsa_demo"
  by (simp add: good_card_def alsa_demo_def)

lemma demo_fresh: "fresh_env alsa_demo"
  by (simp add: fresh_env_def alsa_demo_def)

lemma demo_idle: "idle_card demo_card"
  by (simp add: idle_card_def demo_card_def)

lemma demo_open: "adev_open alsa_demo ''audio_hw_if'' demo_card =
    (0, Some \<lparr>adev = new_adev (demo_card\<lparr>alog := [A_calloc]\<rparr>), outs = Map.empty, ins = Map.empty\<rparr>, demo_card\<lparr>alog := [A_calloc]\<rparr>)"
  by (simp add: adev_open_def alsa_demo_def demo_card_def Let_def)

definition demo_dev :: xd_audio_device where
  "demo_dev = new_adev (demo_card\<lparr>alog := [A_calloc]\<rparr>)"

lemma demo_dev_simps [simp]: "alog demo_dev = [A_calloc]" "pcms demo_dev = {}" "out_streams demo_dev = 0"
  by (simp_all add: demo_dev_def new_adev_def demo_card_def card.defs xd_audio_device.defs)

definition demo_hal :: hal where
  "demo_hal = hal_run alsa_demo (\<lambda>x. x) [OpenOut 2 \<lparr>ac_sample_rate = 0, ac_channel_mask = 0, ac_format = 0\<rparr>, Write 1 ''abcd'']
     \<lparr>adev = demo_dev, outs = Map.empty, ins = Map.empty\<rparr>"

lemma demo_opened:
  "\<exists>s. hal_step alsa_demo (\<lambda>x. x) (OpenOut 2 \<lparr>ac_sample_rate = 0, ac_channel_mask = 0, ac_format = 0\<rparr>)
     \<lparr>adev = demo_dev, outs = Map.empty, ins = Map.empty\<rparr> = \<lparr>adev = s, outs = [1 \<mapsto> new_out 2], ins = Map.empty\<rparr> \<and> pcms s = {}"
  by (simp add: adev_open_output_stream_def Let_def sys_calloc_def) (simp add: alsa_demo_def Let_def)

lemma demo_write_opens:
  assumes "pcms s = {}"
  shows "\<not> o_standby (fst (snd (out_write alsa_demo b (new_out d) s)))"
proof -
  have "fst (pcm_open alsa_demo PCM_OUT t) = Some (length (alog t), True)" if "pcms t = {}" for t
    using that by (simp add: pcm_open_def alsa_demo_def)
  moreover have "t_pcm_write alsa_demo l p b = 0" for l p by (simp add: alsa_demo_def)
  ultimately show ?thesis
    using assms by (simp add: out_write_def out_open_pcm_locked_def Let_def case_prod_beta new_out_def)
qed

lemma demo_active: "\<exists>out. outs demo_hal 1 = Some out \<and> \<not> o_standby out"
proof -
  from demo_opened obtain s where s: "hal_step alsa_demo (\<lambda>x. x) (OpenOut 2 \<lparr>ac_sample_rate = 0, ac_channel_mask = 0, ac_format = 0\<rparr>)
     \<lparr>adev = demo_dev, outs = Map.empty, ins = Map.empty\<rparr> = \<lparr>adev = s, outs = [1 \<mapsto> new_out 2], ins = Map.empty\<rparr>" "pcms s = {}"
    by blast
  have "outs demo_hal 1 = Some (fst (snd (out_write alsa_demo ''abcd'' (new_out 2) s)))"
    unfolding demo_hal_def hal_run_def fold_simps s(1) by (simp add: on_out_def case_prod_beta)
  with demo_write_opens [OF s(2)] show ?thesis by blast
qed

theorem routes_follow_streams_witness: "\<exists>a \<in> set amps. amps_on (adev demo_hal) = {a}"
proof -
  have "\<exists>p out. outs demo_hal p = Some out \<and> \<not> o_standby out" using demo_active by blast
  then show ?thesis
    using routes_follow_streams [OF demo_good demo_fresh demo_idle demo_open demo_hal_def [unfolded demo_dev_def]] by simp
qed

lemma demo_no_pcm: "pcms demo_card = {}"
  by (simp add: demo_card_def)

theorem pcms_owned_by_streams_witness: "pcms (adev demo_hal) = ran (pcm_of demo_hal) \<and> card (dom (outs demo_hal)) \<le> 1"
  using pcms_owned_by_streams [OF demo_fresh demo_no_pcm demo_open demo_hal_def [unfolded demo_dev_def]] by simp

lemma id_good_fl: "good_fl (\<lambda>x. x)"
  by (simp add: good_fl_def mono_def)

theorem gain_never_reserved_witness: "gain_of (\<lambda>x. x) 1 1 = 0 \<and> gain_of (\<lambda>x. x) 0 0 = GAIN_ENUM_MUTE"
  using gain_never_reserved [OF id_good_fl, of 0 1 1] gain_never_reserved [OF id_good_fl, of 0 0 0] by simp

theorem unrouted_close_cuts_other_witness:
  "\<exists>h'. h' = hal_run alsa_late (\<lambda>x. x) [Read 1 4, Read 2 4, CloseIn 1] two_inputs \<and> in_route_refs (adev h') = 0 \<and>
     enums (adev h') ''Audio_ADC_1_Switch'' = Some ''Off''"
proof -
  have i: "ins two_inputs 1 = Some demo_in" "ins two_inputs 2 = Some demo_in" "(1::handle) \<noteq> 2" "i_pcm demo_in = None"
    "in_route_refs (adev two_inputs) = 0" "\<not> mixer (adev two_inputs)" by (simp_all add: two_inputs_def demo_in_def new_in_def)
  have l: "\<not> t_mixer_open alsa_late (alog (adev two_inputs))" "\<forall>l. length (alog (adev two_inputs)) < length l \<longrightarrow> t_mixer_open alsa_late l"
    by (simp_all add: alsa_late_def two_inputs_def)
  have r: "\<forall>H l. \<exists>x. t_pcm_open alsa_late H l PCM_IN = Some (x, True)" "\<forall>l x k. fst (t_pcm_read alsa_late l x k) = 0"
    "t_ctl alsa_late ''Audio_ADC_1_Switch''" "\<forall>l n v. t_set_enum alsa_late l n v = 0" by (simp_all add: alsa_late_def alsa_demo_def)
  show ?thesis using unrouted_close_cuts_other [OF i(1-3,4,4,5,6) l r refl] by blast
qed

theorem input_negotiation_converges_witness:
  "fst (negotiate alsa_demo 0 3 \<lparr>ac_sample_rate = 44100, ac_channel_mask = 12, ac_format = 5\<rparr> two_inputs) = 0"
proof -
  have "fst (sys_calloc alsa_demo two_inputs) = Some 0" by (auto simp: sys_calloc_def alsa_demo_def two_inputs_def)
  then show ?thesis
    using input_negotiation_converges [of alsa_demo 0 "\<lparr>ac_sample_rate = 44100, ac_channel_mask = 12, ac_format = 5\<rparr>" two_inputs]
    by (simp add: alsa_demo_def AUDIO_CHANNEL_IN_STEREO_def)
qed

theorem input_buffer_size_agrees_witness:
  "adev_get_input_buffer_size alsa_demo \<lparr>ac_sample_rate = 16000, ac_channel_mask = 12, ac_format = 1\<rparr> =
     in_get_buffer_size alsa_demo (new_in 0 \<lparr>ac_sample_rate = 16000, ac_channel_mask = 12, ac_format = 1\<rparr> 2)"
  using input_buffer_size_agrees [of "\<lparr>ac_sample_rate = 16000, ac_channel_mask = 12, ac_format = 1\<rparr>" alsa_demo 0]
  by (simp add: alsa_demo_def rate_is_supported_in_def kInputRates_def)

theorem presentation_position_bounded_witness:
  "case fst (out_get_presentation_position alsa_demo (new_out 2) True (new_adev demo_card)) of
     (ret, Some (frames, _)) \<Rightarrow> ret = 0 \<and> frames = 0 | (_, None) \<Rightarrow> False"
proof -
  obtain ret r where e: "fst (out_get_presentation_position alsa_demo (new_out 2) True (new_adev demo_card)) = (ret, r)" by fastforce
  from presentation_position_bounded [OF e] e show ?thesis by (auto simp: new_out_def split: option.splits prod.splits)
qed

definition demo_playing :: xd_audio_device where
  "demo_playing = snd (adev_route_out_enable alsa_demo 2 (new_adev demo_card))"

lemma demo_playing_ok: "out_ok demo_playing" "0 < out_route_refs demo_playing"
proof -
  have "out_ok (new_adev demo_card)" by (simp add: out_ok_def amps_on_def)
  then show "out_ok demo_playing" "0 < out_route_refs demo_playing"
    using enable_out_ok [OF demo_good] enable_out(1) [OF demo_good] by (simp_all add: demo_playing_def)
qed

theorem routing_parameter_applied_witness:
  "case out_set_parameters alsa_demo (Some (''routing='' @ dec_int (sint (8 :: u32)) @ '';'')) ((new_out 2)\<lparr>o_routed := True\<rparr>) demo_playing of
     (e, out', s') \<Rightarrow> o_devices out' = 8 \<and> amps_on s' = {''Audio_Amp_Switch''}"
proof -
  let ?o = "(new_out 2)\<lparr>o_routed := True\<rparr>"
  obtain e out' s' where r: "out_set_parameters alsa_demo (Some (''routing='' @ dec_int (sint (8 :: u32)) @ '';'')) ?o demo_playing = (e, out', s')"
    by (metis prod.collapse)
  have "amp_ctl_for_devices alsa_demo 8 = ''Audio_Amp_Switch''"
    by (simp add: amp_ctl_for_devices_def alsa_demo_def AUDIO_DEVICE_OUT_SPEAKER_def AUDIO_DEVICE_OUT_WIRED_HEADSET_def
        AUDIO_DEVICE_OUT_WIRED_HEADPHONE_def)
  moreover have "t_long_bits alsa_demo \<in> {32, 64}" by (simp add: alsa_demo_def)
  ultimately show ?thesis
    using routing_parameter_applied [OF demo_good demo_playing_ok(1) _ demo_playing_ok(2) _ _ _ r] r
    by (simp add: is_digit_def NUL_def)
qed

end
