(* ===== verification/Hdmi_Daemon.thy ===== *)
theory Hdmi_Daemon
  imports C_String
begin

text \<open>
  The HDMI daemon (\<^verbatim>\<open>src/hdmi/xdplus_hdmid.c\<close>): reading uevents off the netlink socket, debouncing, running
  \<^verbatim>\<open>xdplus_tweaks\<close>, and the sleep timer that runs beside the main loop. The system is the argument \<open>hdmi_env\<close>,
  functions of the calls made so far; the socket is a list of what it delivers.
\<close>

section \<open>The daemon's surroundings\<close>

text \<open>What the daemon asks of the system, in order: it receives
  uevents, reads the switch attribute and properties, and runs \<^verbatim>\<open>xdplus_tweaks\<close> and \<^verbatim>\<open>hdmictl\<close>.\<close>

datatype hdmi_call =
  H_read_state
| H_recv string
| H_prop string
| H_run string "string list"
| H_wait_prop "int option"

text \<open>How a child ended: it could not be forked, could not be waited for, exited, or was killed.\<close>

datatype child = ForkFailed | WaitFailed | Exited int | Killed

record hdmi_env =
  h_attr :: "hdmi_call list \<Rightarrow> string option"
  h_prop :: "hdmi_call list \<Rightarrow> string \<Rightarrow> string option"
  h_child :: "hdmi_call list \<Rightarrow> child"
  h_changed :: "hdmi_call list \<Rightarrow> bool"
  h_find :: "hdmi_call list \<Rightarrow> bool"
  h_long :: nat

record hdmid =
  hlog :: "hdmi_call list"
  g_timer_torn :: bool
  pi_found :: bool
  last_state :: int
  buf :: string

definition HDMI_NO_DEVICE :: int where "HDMI_NO_DEVICE = 0"
definition HDMI_ACTIVE :: int where "HDMI_ACTIVE = 1"
definition BUF_SIZE :: nat where "BUF_SIZE = 8192"
definition POWER_PROP :: string where "POWER_PROP = ''sys.xdplus.screen_power''"
definition SLEEP_PROP :: string where "SLEEP_PROP = ''persist.sys.xdplus.hdmi_sleep''"
definition HDMICTL_PATH :: string where "HDMICTL_PATH = ''/system/bin/hdmictl''"
definition TWEAKS_PATH :: string where "TWEAKS_PATH = ''/system/bin/xdplus_tweaks''"

definition ask :: "hdmi_call \<Rightarrow> hdmid \<Rightarrow> hdmid" where
  "ask c s = s\<lparr>hlog := hlog s @ [c]\<rparr>"

definition read_hdmi_state :: "hdmi_env \<Rightarrow> hdmid \<Rightarrow> int \<times> hdmid" where
  "read_hdmi_state env s =
     (case h_attr env (hlog s) of
        None \<Rightarrow> (-1, ask H_read_state s)
      | Some [] \<Rightarrow> (-1, ask H_read_state s)
      | Some b \<Rightarrow> (atoi (h_long env) (take 15 b), ask H_read_state s))"

definition run_child :: "hdmi_env \<Rightarrow> string \<Rightarrow> string list \<Rightarrow> hdmid \<Rightarrow> int \<times> hdmid" where
  "run_child env p args s =
     (case h_child env (hlog s) of
        ForkFailed \<Rightarrow> (-1, s)
      | Exited c \<Rightarrow> (c, ask (H_run p args) s)
      | _ \<Rightarrow> (-1, ask (H_run p args) s))"

definition prop_int :: "hdmi_env \<Rightarrow> string \<Rightarrow> hdmid \<Rightarrow> int \<times> hdmid" where
  "prop_int env name s =
     (case h_prop env (hlog s) name of
        None \<Rightarrow> (-1, ask (H_prop name) s)
      | Some [] \<Rightarrow> (-1, ask (H_prop name) s)
      | Some v \<Rightarrow> (atoi (h_long env) (take 91 v), ask (H_prop name) s))"

text \<open>The timer thread. \<open>pi_found\<close> is whether the power property has been found; \<open>timer_off\<close> and \<open>timer_on\<close> are
  its two critical sections, under \<^verbatim>\<open>g_lock\<close>. \<^verbatim>\<open>mins * 60\<close> is an \<^verbatim>\<open>int\<close>.\<close>

definition wait_mins :: "int \<Rightarrow> int" where
  "wait_mins mins = sint (word_of_int (mins * 60) :: 32 word)"

definition timer_off :: "hdmi_env \<Rightarrow> hdmid \<Rightarrow> hdmid" where
  "timer_off env s =
     (let (power, s) = prop_int env POWER_PROP s in
      if power \<noteq> 0 then s
      else
        let (st, s) = read_hdmi_state env s in
        if st \<noteq> HDMI_ACTIVE then s
        else (snd (run_child env HDMICTL_PATH [''disable''] s))\<lparr>g_timer_torn := True\<rparr>)"

definition timer_on :: "hdmi_env \<Rightarrow> hdmid \<Rightarrow> hdmid" where
  "timer_on env s =
     (if \<not> g_timer_torn s then s
      else
        let s = s\<lparr>g_timer_torn := False\<rparr>;
            (_, s) = run_child env HDMICTL_PATH [''power'', ''1''] s
        in snd (run_child env HDMICTL_PATH [''enable''] s))"

text \<open>Where the timer thread is in its loop: before finding the property, before reading it, in the timed wait,
  before one of the two critical sections, before the wait that ends the pass. The main loop's calls come
  between any two of these steps.\<close>

datatype timer_pc = T_find | T_power | T_wait int | T_off | T_on | T_idle

fun sleep_timer :: "hdmi_env \<Rightarrow> timer_pc \<Rightarrow> hdmid \<Rightarrow> timer_pc \<times> hdmid" where
  "sleep_timer env T_find s =
     (if \<not> pi_found s \<and> \<not> h_find env (hlog s) then (T_find, ask (H_wait_prop None) s)
      else (T_power, s\<lparr>pi_found := True\<rparr>))"
| "sleep_timer env T_power s =
     (let (power, s) = prop_int env POWER_PROP s in
      if power = 0 then
        let (mins, s) = prop_int env SLEEP_PROP s in
        if mins > 0 then (T_wait mins, s) else (T_idle, s)
      else if power = 1 then (T_on, s)
      else (T_idle, s))"
| "sleep_timer env (T_wait mins) s =
     (if h_changed env (hlog s) then T_find else T_off, ask (H_wait_prop (Some (wait_mins mins))) s)"
| "sleep_timer env T_off s = (T_idle, timer_off env s)"
| "sleep_timer env T_on s = (T_idle, timer_on env s)"
| "sleep_timer env T_idle s = (T_find, ask (H_wait_prop None) s)"

definition run_tweaks :: "hdmi_env \<Rightarrow> string \<Rightarrow> hdmid \<Rightarrow> hdmid" where
  "run_tweaks env action s =
     (if h_child env (hlog s) = ForkFailed then s else ask (H_run TWEAKS_PATH [action]) s)"

section \<open>Uevents\<close>

text \<open>The loops over the records. \<open>b\<close> is the whole buffer, of which the last \<^verbatim>\<open>recv\<close> filled the first \<open>len\<close>
  bytes: \<^verbatim>\<open>strcmp\<close> reads on to the next NUL wherever it is.\<close>

function has_record :: "string \<Rightarrow> string \<Rightarrow> nat \<Rightarrow> nat \<Rightarrow> bool" where
  "has_record pat b len i =
     (if i < len then
        let reclen = length (cstr (take (len - i) (drop i b))) in
        if cstr (drop i b) = pat then True else has_record pat b len (i + reclen + 1)
      else False)"
  by pat_completeness auto
termination by (relation "measure (\<lambda>(_, _, len, i). len - i)") (auto simp: Let_def)

declare has_record.simps [simp del]

definition is_hdmi_switch_event :: "string \<Rightarrow> nat \<Rightarrow> bool" where
  "is_hdmi_switch_event b len = has_record ''SWITCH_NAME=hdmi'' b len 0"

definition has_state_zero :: "string \<Rightarrow> nat \<Rightarrow> bool" where
  "has_state_zero b len = has_record ''SWITCH_STATE=0'' b len 0"

section \<open>The main loop\<close>

text \<open>What the socket delivers: a datagram, a failed or empty \<^verbatim>\<open>recv\<close>, a second without traffic (which only
  the debounce loop waits for), a failed \<^verbatim>\<open>poll\<close>.\<close>

datatype sock = Pkt string | RecvErr | Quiet | PollErr

definition recv_into :: "string \<Rightarrow> hdmid \<Rightarrow> nat \<times> hdmid" where
  "recv_into d s = (let d = take BUF_SIZE d in (length d, (ask (H_recv d) s)\<lparr>buf := d @ drop (length d) (buf s)\<rparr>))"

fun drain :: "bool \<Rightarrow> sock list \<Rightarrow> hdmid \<Rightarrow> bool \<times> sock list \<times> hdmid" where
  "drain bounced [] s = (bounced, [], s)"
| "drain bounced (Quiet # es) s = (bounced, es, s)"
| "drain bounced (PollErr # es) s = (bounced, es, s)"
| "drain bounced (RecvErr # es) s = (bounced, es, s)"
| "drain bounced (Pkt d # es) s =
     (let (n, s) = recv_into d s in
      if n = 0 then (bounced, es, s)
      else drain (bounced \<or> is_hdmi_switch_event (buf s) n \<and> has_state_zero (buf s) n) es s)"

text \<open>What a burst leads to, once the attribute is read.\<close>

definition act :: "hdmi_env \<Rightarrow> bool \<Rightarrow> hdmid \<Rightarrow> hdmid" where
  "act env bounced s =
     (let (state, s) = read_hdmi_state env s in
      if state < 0 then s
      else if state = last_state s then
        if state = HDMI_ACTIVE \<and> bounced then run_tweaks env ''hdmi_up'' s else s
      else
        let s = s\<lparr>last_state := state\<rparr> in
        if state = HDMI_ACTIVE then run_tweaks env ''hdmi_up'' s
        else if state = HDMI_NO_DEVICE then run_tweaks env ''hdmi_down'' s
        else s)"

lemma drain_shorter: "length (fst (snd (drain b es s))) \<le> length es"
proof (induction es arbitrary: b s)
  case (Cons e es)
  show ?case by (cases e) (simp_all add: Let_def case_prod_beta le_SucI Cons.IH)
qed simp

text \<open>The loop over what the socket delivers; it returns only when \<^verbatim>\<open>poll\<close> fails.\<close>

function main_loop :: "hdmi_env \<Rightarrow> sock list \<Rightarrow> hdmid \<Rightarrow> bool \<times> hdmid" where
  "main_loop env [] s = (False, s)"
| "main_loop env (PollErr # es) s = (True, s)"
| "main_loop env (Quiet # es) s = main_loop env es s"
| "main_loop env (RecvErr # es) s = main_loop env es s"
| "main_loop env (Pkt d # es) s =
     (let (n, s) = recv_into d s in
      if n = 0 \<or> \<not> is_hdmi_switch_event (buf s) n then main_loop env es s
      else
        let r = drain (has_state_zero (buf s) n) es s in
        main_loop env (fst (snd r)) (act env (fst r) (snd (snd r))))"
  by pat_completeness auto
termination
  by (relation "measure (\<lambda>(_, es, _). length es)") (auto simp: less_Suc_eq_le drain_shorter)

text \<open>\<^verbatim>\<open>main\<close> up to its loop, with the socket and its \<^verbatim>\<open>bind\<close>; the result is the exit status.\<close>

definition main_start :: "hdmi_env \<Rightarrow> hdmid \<Rightarrow> hdmid" where
  "main_start env s =
     (let (st, s) = read_hdmi_state env s;
          s = s\<lparr>last_state := st\<rparr>
      in if st = HDMI_ACTIVE then run_tweaks env ''hdmi_up'' s else s)"

definition hdmid_main :: "hdmi_env \<Rightarrow> bool \<Rightarrow> bool \<Rightarrow> sock list \<Rightarrow> hdmid \<Rightarrow> int option \<times> hdmid" where
  "hdmid_main env sock_ok bind_ok es s =
     (if \<not> sock_ok then (Some 1, s)
      else if \<not> bind_ok then (Some 1, s)
      else
        let (ended, s) = main_loop env es (main_start env s) in
        (if ended then Some 1 else None, s))"


section \<open>Records\<close>

text \<open>The records of a datagram, each ended by a NUL.\<close>

fun split_nul :: "string \<Rightarrow> string list" where
  "split_nul [] = []"
| "split_nul (c # cs) =
     (if c = NUL then [] # split_nul cs
      else case split_nul cs of [] \<Rightarrow> [[c]] | r # rs \<Rightarrow> (c # r) # rs)"

lemma split_nul_step: "NUL \<in> set d \<Longrightarrow> split_nul d = cstr d # split_nul (drop (length (cstr d) + 1) d)"
  by (induction d) (auto simp: cstr_def)

lemma cstr_shorter: "NUL \<in> set d \<Longrightarrow> length (cstr d) < length d"
  by (induction d) (auto simp: cstr_def)

lemma cstr_append: "NUL \<in> set d \<Longrightarrow> cstr (d @ r) = cstr d"
  unfolding cstr_def by (rule takeWhile_append1) auto

text \<open>The loop decides membership of the record, whatever bytes of an earlier datagram are left behind
  the one received.\<close>

lemma has_record_from:
  assumes "d \<noteq> []" and "last d = NUL"
  shows "i \<le> length d \<Longrightarrow> has_record pat (d @ rest) (length d) i \<longleftrightarrow> pat \<in> set (split_nul (drop i d))"
proof (induction "length d - i" arbitrary: i rule: less_induct)
  case less
  show ?case
  proof (cases "i < length d")
    case True
    let ?e = "drop i d"
    have "last ?e = NUL" using True assms by (simp add: last_drop)
    moreover have "?e \<noteq> []" using True by simp
    ultimately have n: "NUL \<in> set ?e" by (metis last_in_set)
    have c: "cstr (drop i (d @ rest)) = cstr ?e" "cstr (take (length d - i) (drop i (d @ rest))) = cstr ?e"
      using True n by (simp_all add: cstr_append)
    have l: "length (cstr ?e) < length ?e"
      using n by (rule cstr_shorter)
    have ih: "has_record pat (d @ rest) (length d) (i + length (cstr ?e) + 1) \<longleftrightarrow>
        pat \<in> set (split_nul (drop (i + length (cstr ?e) + 1) d))"
      using less.hyps [of "i + length (cstr ?e) + 1"] True l by simp
    have "split_nul ?e = cstr ?e # split_nul (drop (i + length (cstr ?e) + 1) d)"
      using split_nul_step [OF n] by (simp add: add.commute add.assoc)
    then show ?thesis
      using True ih by (subst has_record.simps) (auto simp: c Let_def cstr_append [OF n])
  qed (use less in \<open>simp add: has_record.simps\<close>)
qed

lemma has_record_exact:
  "d \<noteq> [] \<Longrightarrow> last d = NUL \<Longrightarrow> has_record pat (d @ rest) (length d) 0 \<longleftrightarrow> pat \<in> set (split_nul d)"
  using has_record_from [of d 0 pat rest] by simp

text \<open>A datagram as the kernel broadcasts it: within a page and ended by a NUL.\<close>

definition kernel_pkt :: "string \<Rightarrow> bool" where
  "kernel_pkt d \<longleftrightarrow> d \<noteq> [] \<and> last d = NUL \<and> length d \<le> BUF_SIZE"

definition hdmi_pkt :: "string \<Rightarrow> bool" where
  "hdmi_pkt d \<longleftrightarrow> ''SWITCH_NAME=hdmi'' \<in> set (split_nul d)"

definition unplug_pkt :: "string \<Rightarrow> bool" where
  "unplug_pkt d \<longleftrightarrow> hdmi_pkt d \<and> ''SWITCH_STATE=0'' \<in> set (split_nul d)"

lemma recv_pkt:
  assumes "kernel_pkt d"
  shows "fst (recv_into d s) = length d" and "is_hdmi_switch_event (buf (snd (recv_into d s))) (length d) = hdmi_pkt d"
    and "(hdmi_pkt d \<and> has_state_zero (buf (snd (recv_into d s))) (length d)) = unplug_pkt d"
    and "hlog (snd (recv_into d s)) = hlog s @ [H_recv d]" and "last_state (snd (recv_into d s)) = last_state s"
  using assms
  by (auto simp: kernel_pkt_def recv_into_def Let_def is_hdmi_switch_event_def has_state_zero_def has_record_exact hdmi_pkt_def
      unplug_pkt_def ask_def)

lemma pkt_nonempty: "kernel_pkt d \<Longrightarrow> 0 < length d"
  by (simp add: kernel_pkt_def)

text \<open>A uevent is recognised exactly: for a datagram of NUL-ended records, the two scans say whether
  \<^verbatim>\<open>SWITCH_NAME=hdmi\<close> and \<^verbatim>\<open>SWITCH_STATE=0\<close> are among the records, and bytes that an earlier datagram left in
  the buffer play no part.\<close>

theorem uevent_scan_exact:
  assumes "kernel_pkt d" and "recv_into d s = (n, s')"
  shows "is_hdmi_switch_event (buf s') n = (''SWITCH_NAME=hdmi'' \<in> set (split_nul d)) \<and>
    has_state_zero (buf s') n = (''SWITCH_STATE=0'' \<in> set (split_nul d))"
  using assms
  by (auto simp: kernel_pkt_def recv_into_def Let_def is_hdmi_switch_event_def has_state_zero_def has_record_exact)

section \<open>Bring-up follows the cable\<close>

text \<open>What the daemon has last asked \<^verbatim>\<open>xdplus_tweaks\<close> for: true after \<^verbatim>\<open>hdmi_up\<close>, false after \<^verbatim>\<open>hdmi_down\<close>, and a
  plug-out uevent undoes a bring-up, since the composer then takes the external display down. Whether the
  script succeeds is not the daemon's concern: it only logs the exit status.\<close>

fun asked :: "hdmi_call \<Rightarrow> bool \<Rightarrow> bool" where
  "asked (H_recv d) up = (up \<and> \<not> unplug_pkt d)"
| "asked (H_run p as) up = (if p = TWEAKS_PATH \<and> as = [''hdmi_up''] then True
     else if p = TWEAKS_PATH \<and> as = [''hdmi_down''] then False else up)"
| "asked _ up = up"

definition bring_up :: "hdmi_call list \<Rightarrow> bool" where
  "bring_up h = fold asked h False"

lemma bring_up_append [simp]: "bring_up (h @ cs) = fold asked cs (bring_up h)"
  by (simp add: bring_up_def)

text \<open>The attribute can be read and holds the number 0 or 1, as the kernel prints it or otherwise, and the
  daemon can fork.\<close>

definition healthy :: "hdmi_env \<Rightarrow> bool" where
  "healthy env \<longleftrightarrow>
     (\<forall>h. \<exists>b. h_attr env h = Some b \<and> b \<noteq> [] \<and> atoi (h_long env) (take 15 b) \<in> {0, 1}) \<and>
     (\<forall>h. h_child env h \<noteq> ForkFailed)"

lemma read_state:
  assumes "healthy env"
  shows "fst (read_hdmi_state env s) \<in> {0, 1}" and "snd (read_hdmi_state env s) = ask H_read_state s"
proof -
  obtain b where "h_attr env (hlog s) = Some b" "b \<noteq> []" "atoi (h_long env) (take 15 b) \<in> {0, 1}"
    using assms unfolding healthy_def by blast
  then show "fst (read_hdmi_state env s) \<in> {0, 1}" "snd (read_hdmi_state env s) = ask H_read_state s"
    by (auto simp: read_hdmi_state_def neq_Nil_conv)
qed

definition tracks :: "hdmid \<Rightarrow> bool" where
  "tracks s \<longleftrightarrow> last_state s \<in> {0, 1} \<and> (bring_up (hlog s) \<longleftrightarrow> last_state s = HDMI_ACTIVE)"

lemma act_tracks:
  assumes "healthy env" and "last_state s \<in> {0, 1}" and "if b then \<not> bring_up (hlog s) else bring_up (hlog s) = (last_state s = HDMI_ACTIVE)"
  shows "tracks (act env b s)"
proof -
  have f: "h_child env h \<noteq> ForkFailed" for h using assms(1) by (simp add: healthy_def)
  obtain st where st: "read_hdmi_state env s = (st, ask H_read_state s)" "st \<in> {0, 1}"
    using read_state [OF assms(1), of s] by (metis prod.collapse)
  have u: "run_tweaks env a t = ask (H_run TWEAKS_PATH [a]) t" for a t by (simp add: run_tweaks_def f)
  have "st = 0 \<or> st = 1" using st(2) by simp
  then show ?thesis
    using assms(2,3) by (auto simp: act_def st(1) u tracks_def HDMI_ACTIVE_def HDMI_NO_DEVICE_def ask_def split: if_splits)
qed

lemma drain_tracks:
  assumes "\<forall>e \<in> set es. \<forall>d. e = Pkt d \<longrightarrow> kernel_pkt d" and "b \<longrightarrow> \<not> bring_up (hlog s)"
  shows "last_state (snd (snd (drain b es s))) = last_state s \<and>
    (if fst (drain b es s) then \<not> bring_up (hlog (snd (snd (drain b es s))))
     else bring_up (hlog (snd (snd (drain b es s)))) = bring_up (hlog s) \<and> \<not> b) \<and>
    set (fst (snd (drain b es s))) \<subseteq> set es"
  using assms
proof (induction es arbitrary: b s)
  case (Cons e es)
  show ?case
  proof (cases e)
    case (Pkt d)
    with Cons.prems have k: "kernel_pkt d" by simp
    let ?s = "snd (recv_into d s)"
    have "drain b (Pkt d # es) s = drain (b \<or> unplug_pkt d) es ?s"
      using recv_pkt [OF k, of s] pkt_nonempty [OF k] by (simp add: Let_def case_prod_beta)
    moreover have "b \<or> unplug_pkt d \<longrightarrow> \<not> bring_up (hlog ?s)" using Cons.prems(2) recv_pkt(4) [OF k, of s] by auto
    ultimately show ?thesis
      using Cons.IH [of "b \<or> unplug_pkt d" ?s] Cons.prems(1) recv_pkt(4,5) [OF k, of s] Pkt by (auto split: if_splits)
  qed (use Cons.prems in auto)
qed simp

lemma loop_tracks:
  "healthy env \<Longrightarrow> \<forall>e \<in> set es. \<forall>d. e = Pkt d \<longrightarrow> kernel_pkt d \<Longrightarrow> tracks s \<Longrightarrow> tracks (snd (main_loop env es s))"
proof (induction es arbitrary: s rule: measure_induct_rule [where f = length])
  case (less es)
  show ?case
  proof (cases es)
    case (Cons e es')
    show ?thesis
    proof (cases e)
      case (Pkt d)
      have k: "kernel_pkt d" using less.prems(2) Cons Pkt by simp
      let ?s = "snd (recv_into d s)"
      note r = recv_pkt [OF k, of s]
      have p': "\<forall>e \<in> set es'. \<forall>d. e = Pkt d \<longrightarrow> kernel_pkt d" using less.prems(2) Cons by simp
      show ?thesis
      proof (cases "hdmi_pkt d")
        case False
        then have "main_loop env es s = main_loop env es' ?s" using Cons Pkt r pkt_nonempty [OF k] by (simp add: Let_def case_prod_beta)
        moreover have "tracks ?s" using less.prems(3) r False by (simp add: tracks_def unplug_pkt_def)
        ultimately show ?thesis using less.IH [of es' ?s] less.prems(1) p' Cons by simp
      next
        case True
        let ?b = "unplug_pkt d"
        let ?r = "drain ?b es' ?s"
        have z: "has_state_zero (buf ?s) (length d) = ?b" using r(3) True by simp
        have m: "main_loop env es s = main_loop env (fst (snd ?r)) (act env (fst ?r) (snd (snd ?r)))"
          using Cons Pkt r(1,2) pkt_nonempty [OF k] True z by (simp add: Let_def case_prod_beta)
        have d: "last_state (snd (snd ?r)) = last_state ?s" 
          "if fst ?r then \<not> bring_up (hlog (snd (snd ?r))) else bring_up (hlog (snd (snd ?r))) = bring_up (hlog ?s) \<and> \<not> ?b"
          "set (fst (snd ?r)) \<subseteq> set es'"
          using drain_tracks [OF p', of ?b ?s] r(4) by auto
        have "tracks (act env (fst ?r) (snd (snd ?r)))"
          using less.prems(3) d(1,2) r(4,5) by (intro act_tracks [OF less.prems(1)]) (auto simp: tracks_def split: if_splits)
        moreover have "length (fst (snd ?r)) < length es" using drain_shorter [of ?b es' ?s] Cons by simp
        moreover have "\<forall>e \<in> set (fst (snd ?r)). \<forall>d. e = Pkt d \<longrightarrow> kernel_pkt d" using d(3) p' by blast
        ultimately show ?thesis unfolding m using less.IH less.prems(1) by blast
      qed
    qed (use less Cons in auto)
  qed (use less in simp)
qed

text \<open>C21. While the switch attribute can be read, holds 0 or 1 (trailing newline or not), and every fork
  succeeds: whenever the main loop waits for the next uevent, however the cable bounced, the bring-up that
  the daemon has asked of \<^verbatim>\<open>xdplus_tweaks\<close> stands exactly if it last read the attribute as active. It has run
  \<^verbatim>\<open>hdmi_up\<close> since the last plug-out uevent and since the last \<^verbatim>\<open>hdmi_down\<close> if the cable is in, so a plug-out inside
  a burst that ends plugged is noticed and answered, and not if it is out. What the script makes of the
  request is not part of the claim.\<close>

theorem bring_up_follows_cable:
  assumes "healthy env" and "\<forall>e \<in> set es. \<forall>d. e = Pkt d \<longrightarrow> kernel_pkt d" and "hlog s = []"
    and "hdmid_main env True True es s = (r, s')"
  shows "last_state s' \<in> {0, 1} \<and> (bring_up (hlog s') \<longleftrightarrow> last_state s' = HDMI_ACTIVE)"
proof -
  have f: "h_child env h \<noteq> ForkFailed" for h using assms(1) by (simp add: healthy_def)
  have "tracks (main_start env s)"
    using read_state [OF assms(1), of s] assms(3) f
    by (auto simp: main_start_def Let_def case_prod_beta tracks_def run_tweaks_def ask_def HDMI_ACTIVE_def bring_up_def)
  from loop_tracks [OF assms(1,2) this] assms(4) show ?thesis
    by (auto simp: hdmid_main_def tracks_def Let_def case_prod_beta split: if_splits)
qed

section \<open>The sleep timer\<close>

text \<open>The commands the daemon itself gives \<^verbatim>\<open>hdmictl\<close>, and the protocol they follow: the output is taken down (again,
  if it is still asleep), and only then powered and enabled.\<close>

fun ctl :: "hdmi_call list \<Rightarrow> string list list" where
  "ctl [] = []"
| "ctl (H_run p as # h) = (if p = HDMICTL_PATH then as # ctl h else ctl h)"
| "ctl (_ # h) = ctl h"

datatype av = Up | Down | Waking

fun ctl_next :: "string list \<Rightarrow> av option \<Rightarrow> av option" where
  "ctl_next c (Some Up) = (if c = [''disable''] then Some Down else None)"
| "ctl_next c (Some Down) =
     (if c = [''disable''] then Some Down else if c = [''power'', ''1''] then Some Waking else None)"
| "ctl_next c (Some Waking) = (if c = [''enable''] then Some Up else None)"
| "ctl_next c None = None"

lemma ctl_append [simp]: "ctl (g @ h) = ctl g @ ctl h"
  by (induction g rule: ctl.induct) simp_all

text \<open>The two threads: a step of the timer, or a call of the main loop, in any order.\<close>

datatype hdmi_step = Timer | MainRecv string | MainRead | MainRun string

fun hdmi_do :: "hdmi_env \<Rightarrow> hdmi_step \<Rightarrow> timer_pc \<times> hdmid \<Rightarrow> timer_pc \<times> hdmid" where
  "hdmi_do env Timer (pc, s) = sleep_timer env pc s"
| "hdmi_do env (MainRecv d) (pc, s) = (pc, snd (recv_into d s))"
| "hdmi_do env MainRead (pc, s) = (pc, snd (read_hdmi_state env s))"
| "hdmi_do env (MainRun a) (pc, s) = (pc, run_tweaks env a s)"

text \<open>A \<^verbatim>\<open>disable\<close> that was justified: the property read 0 and the switch read active just before it.\<close>

definition asleep_at :: "hdmi_env \<Rightarrow> hdmi_call list \<Rightarrow> bool" where
  "asleep_at env h \<longleftrightarrow>
     (\<exists>g v b. h = g @ [H_prop POWER_PROP, H_read_state] \<and>
        h_prop env g POWER_PROP = Some v \<and> v \<noteq> [] \<and> atoi (h_long env) (take 91 v) = 0 \<and>
        h_attr env (g @ [H_prop POWER_PROP]) = Some b \<and> b \<noteq> [] \<and> atoi (h_long env) (take 15 b) = HDMI_ACTIVE)"

definition timer_inv :: "hdmi_env \<Rightarrow> hdmid \<Rightarrow> bool" where
  "timer_inv env s \<longleftrightarrow>
     fold ctl_next (ctl (hlog s)) (Some Up) = Some (if g_timer_torn s then Down else Up) \<and>
     (\<forall>g h. hlog s = g @ H_run HDMICTL_PATH [''disable''] # h \<longrightarrow> asleep_at env g)"

lemma ask_simps [simp]: "hlog (ask c s) = hlog s @ [c]" "g_timer_torn (ask c s) = g_timer_torn s"
  "last_state (ask c s) = last_state s" "pi_found (ask c s) = pi_found s" "buf (ask c s) = buf s"
  by (simp_all add: ask_def)

lemma prop_int_ask: "snd (prop_int env n s) = ask (H_prop n) s"
  by (simp add: prop_int_def split: option.split list.split)

lemma read_state_ask: "snd (read_hdmi_state env s) = ask H_read_state s"
  by (simp add: read_hdmi_state_def split: option.split list.split)

lemma run_child_ask: "h_child env (hlog s) \<noteq> ForkFailed \<Longrightarrow> snd (run_child env p as s) = ask (H_run p as) s"
  by (simp add: run_child_def split: child.split)

lemma before_last: "g @ [c] = g' @ x # h \<longleftrightarrow> (h = [] \<and> g = g' \<and> c = x) \<or> (\<exists>h'. h = h' @ [c] \<and> g = g' @ x # h')"
  by (cases h rule: rev_cases) auto

lemma timer_inv_ask:
  "timer_inv env s \<Longrightarrow> (\<And>as. c \<noteq> H_run HDMICTL_PATH as) \<Longrightarrow> timer_inv env (ask c s)"
  by (cases c) (auto simp: timer_inv_def before_last)

lemma timer_inv_disable:
  "timer_inv env s \<Longrightarrow> asleep_at env (hlog s) \<Longrightarrow>
     timer_inv env ((ask (H_run HDMICTL_PATH [''disable'']) s)\<lparr>g_timer_torn := True\<rparr>)"
  by (auto simp: timer_inv_def before_last split: if_splits)

lemma timer_off_inv:
  assumes "\<forall>h. h_child env h \<noteq> ForkFailed" and "timer_inv env s"
  shows "timer_inv env (timer_off env s)"
proof -
  let ?t = "ask H_read_state (ask (H_prop POWER_PROP) s)"
  have t: "timer_inv env (ask (H_prop POWER_PROP) s)" "timer_inv env ?t"
    using assms(2) by (simp_all add: timer_inv_ask)
  show ?thesis
  proof (cases "fst (prop_int env POWER_PROP s) = 0 \<and> fst (read_hdmi_state env (ask (H_prop POWER_PROP) s)) = HDMI_ACTIVE")
    case True
    then have "asleep_at env (hlog ?t)"
      by (auto simp: asleep_at_def prop_int_def read_hdmi_state_def HDMI_ACTIVE_def split: option.splits list.splits)
    moreover have "timer_off env s = (ask (H_run HDMICTL_PATH [''disable'']) ?t)\<lparr>g_timer_torn := True\<rparr>"
      using True assms(1) by (simp add: timer_off_def case_prod_beta prop_int_ask read_state_ask run_child_ask)
    ultimately show ?thesis using timer_inv_disable [OF t(2)] by simp
  next
    case False
    then have "timer_off env s = ask (H_prop POWER_PROP) s \<or> timer_off env s = ?t"
      by (auto simp: timer_off_def case_prod_beta prop_int_ask read_state_ask)
    with t show ?thesis by auto
  qed
qed

lemma timer_on_inv:
  assumes "\<forall>h. h_child env h \<noteq> ForkFailed" and "timer_inv env s"
  shows "timer_inv env (timer_on env s) \<and> \<not> g_timer_torn (timer_on env s)"
  using assms
  by (auto simp: timer_on_def Let_def case_prod_beta run_child_ask timer_inv_def before_last
      before_last [of "g @ [c]" for g c, simplified])

lemma hdmi_do_inv:
  assumes "\<forall>h. h_child env h \<noteq> ForkFailed" and "timer_inv env s"
  shows "timer_inv env (snd (hdmi_do env x (pc, s)))"
proof (cases x)
  case Timer
  have "timer_inv env (s\<lparr>pi_found := True\<rparr>)" using assms(2) by (simp add: timer_inv_def)
  then show ?thesis
    using assms timer_off_inv [OF assms] timer_on_inv [OF assms]
    by (cases pc) (auto simp: Timer Let_def case_prod_beta prop_int_ask intro!: timer_inv_ask)
next
  case (MainRecv d)
  have "timer_inv env (ask (H_recv (take BUF_SIZE d)) s)" using assms(2) by (rule timer_inv_ask) simp
  then show ?thesis by (simp add: MainRecv recv_into_def Let_def timer_inv_def)
next
  case MainRead
  then show ?thesis using assms(2) by (simp add: read_state_ask timer_inv_ask)
next
  case (MainRun a)
  then show ?thesis using assms by (simp add: run_tweaks_def timer_inv_ask TWEAKS_PATH_def HDMICTL_PATH_def)
qed

text \<open>C31. However the timer thread and the main loop interleave, if every fork succeeds: the commands that the
  daemon itself gives \<^verbatim>\<open>hdmictl\<close> follow the protocol, so that it powers and enables the output only after a
  \<^verbatim>\<open>disable\<close> of its own that it has not yet undone; the flag is set exactly while such a \<^verbatim>\<open>disable\<close> stands; every
  \<^verbatim>\<open>disable\<close> comes right after the power property has been read as asleep and the switch as active; and the
  timer's next critical section with the screen awake clears the flag. What \<^verbatim>\<open>xdplus_tweaks\<close> does with \<^verbatim>\<open>hdmictl\<close>
  is the script's own.\<close>

theorem timer_undoes_only_itself:
  assumes "\<forall>h. h_child env h \<noteq> ForkFailed" and "hlog s = []" and "\<not> g_timer_torn s"
    and "fold (hdmi_do env) xs (T_find, s) = (pc, s')"
  shows "fold ctl_next (ctl (hlog s')) (Some Up) = Some (if g_timer_torn s' then Down else Up) \<and>
    (\<forall>g h. hlog s' = g @ H_run HDMICTL_PATH [''disable''] # h \<longrightarrow> asleep_at env g) \<and>
    (pc = T_on \<longrightarrow> \<not> g_timer_torn (snd (sleep_timer env pc s')))"
proof -
  have "timer_inv env (snd r) \<Longrightarrow> timer_inv env (snd (fold (hdmi_do env) xs r))" for r
  proof (induction xs arbitrary: r)
    case (Cons x xs)
    then show ?case using hdmi_do_inv [OF assms(1), of "snd r" x "fst r"] by simp
  qed simp
  from this [of "(T_find, s)"] have "timer_inv env s'" using assms(2-4) by (simp add: timer_inv_def)
  moreover have "\<not> g_timer_torn (snd (sleep_timer env T_on s'))" using timer_on_inv [OF assms(1) calculation] by simp
  ultimately show ?thesis unfolding timer_inv_def by blast
qed

section \<open>The theorems on a bouncing cable\<close>

text \<open>A cable that is out at start, then in, and bounces; the screen is asleep once and awake afterwards.\<close>

definition hdmi_demo :: hdmi_env where
  "hdmi_demo = \<lparr>h_attr = (\<lambda>h. if length h = 0 then Some [CHR ''0'', CHR 0x0A] else Some [CHR ''1'', CHR 0x0A]),
     h_prop = (\<lambda>h n. if n = SLEEP_PROP then Some ''5'' else if length h < 5 then Some ''0'' else Some ''1''),
     h_child = (\<lambda>_. Exited 0), h_changed = (\<lambda>_. False), h_find = (\<lambda>_. True), h_long = 64\<rparr>"

definition hdmid_boot :: hdmid where
  "hdmid_boot = \<lparr>hlog = [], g_timer_torn = False, pi_found = False, last_state = 0, buf = []\<rparr>"

definition plug_pkt :: "string \<Rightarrow> string" where
  "plug_pkt st = ''change@/devices/virtual/switch/hdmi'' @ [NUL] @ ''SWITCH_NAME=hdmi'' @ [NUL] @ ''SWITCH_STATE='' @ st @ [NUL]"

lemma plug_pkt_kernel: "kernel_pkt (plug_pkt ''0'')" "kernel_pkt (plug_pkt ''1'')"
  by (simp_all add: kernel_pkt_def plug_pkt_def BUF_SIZE_def)

lemma atoi_digit: "32 \<le> w \<Longrightarrow> atoi w ''0'' = 0" "32 \<le> w \<Longrightarrow> atoi w ''1'' = 1"
proof -
  have s: "scan_number ''0'' = (False, 0)" "scan_number ''1'' = (False, 1)"
    by (simp_all add: scan_number_def cstr_def NUL_def is_space_def is_digit_def digit_val_def)
  have m: "min 1 (2 ^ (w - 1) - 1) = (1 :: int)" "min 0 (2 ^ (w - 1) - 1) = (0 :: int)" if "32 \<le> w"
    using power_increasing [of 1 "w - 1" "2 :: int"] that by simp_all
  show "32 \<le> w \<Longrightarrow> atoi w ''0'' = 0" "32 \<le> w \<Longrightarrow> atoi w ''1'' = 1"
    unfolding atoi_def strtol10_def s using m by simp_all
qed

lemma demo_attr: "atoi 64 [CHR ''0'', CHR 0x0A] = 0" "atoi 64 [CHR ''1'', CHR 0x0A] = 1"
  by code_simp+

lemma hdmi_demo_healthy: "healthy hdmi_demo"
  by (simp add: healthy_def hdmi_demo_def demo_attr)

theorem uevent_scan_exact_witness:
  "case recv_into (plug_pkt ''0'') hdmid_boot of (n, s') \<Rightarrow> is_hdmi_switch_event (buf s') n \<and> has_state_zero (buf s') n"
proof -
  obtain n s' where r: "recv_into (plug_pkt ''0'') hdmid_boot = (n, s')" by fastforce
  have "''SWITCH_NAME=hdmi'' \<in> set (split_nul (plug_pkt ''0''))" "''SWITCH_STATE=0'' \<in> set (split_nul (plug_pkt ''0''))"
    by (simp_all add: plug_pkt_def NUL_def)
  with uevent_scan_exact [OF plug_pkt_kernel(1) r] r show ?thesis by simp
qed

theorem bring_up_follows_cable_witness:
  "case hdmid_main hdmi_demo True True [Pkt (plug_pkt ''1''), Pkt (plug_pkt ''0''), Quiet] hdmid_boot of
     (_, s') \<Rightarrow> bring_up (hlog s') \<longleftrightarrow> last_state s' = HDMI_ACTIVE"
proof -
  obtain r s' where m: "hdmid_main hdmi_demo True True [Pkt (plug_pkt ''1''), Pkt (plug_pkt ''0''), Quiet] hdmid_boot = (r, s')"
    by fastforce
  have "\<forall>e \<in> set [Pkt (plug_pkt ''1''), Pkt (plug_pkt ''0''), Quiet]. \<forall>d. e = Pkt d \<longrightarrow> kernel_pkt d"
    using plug_pkt_kernel by simp
  moreover have "hlog hdmid_boot = []" by (simp add: hdmid_boot_def)
  ultimately show ?thesis using bring_up_follows_cable [OF hdmi_demo_healthy _ _ m] m by simp
qed

text \<open>The timer finds the screen asleep, waits and takes the output down.\<close>

lemma hdmi_demo_timer:
  "map_prod id ctl (map_prod id hlog (fold (hdmi_do hdmi_demo) [Timer, Timer, MainRead, Timer, Timer] (T_find, hdmid_boot))) =
     (T_idle, [[''disable'']])"
  by code_simp

theorem timer_undoes_only_itself_witness:
  "case fold (hdmi_do hdmi_demo) [Timer, Timer, MainRead, Timer, Timer] (T_find, hdmid_boot) of
     (_, s') \<Rightarrow> ctl (hlog s') = [[''disable'']] \<and> g_timer_torn s'"
proof -
  obtain pc s' where m: "fold (hdmi_do hdmi_demo) [Timer, Timer, MainRead, Timer, Timer] (T_find, hdmid_boot) = (pc, s')"
    by fastforce
  have "\<forall>h. h_child hdmi_demo h \<noteq> ForkFailed" "hlog hdmid_boot = []" "\<not> g_timer_torn hdmid_boot"
    by (simp_all add: hdmi_demo_def hdmid_boot_def)
  from timer_undoes_only_itself [OF this m] hdmi_demo_timer [unfolded m] m show ?thesis
    by (auto split: if_splits)
qed

end
