(* ===== verification/Hdmi_Tool.thy ===== *)
theory Hdmi_Tool
  imports Hdmi_Daemon
begin

text \<open>
  The tool \<^verbatim>\<open>src/hdmi/hdmictl.c\<close> and what the daemon's use of it does to the HDMI driver.
\<close>

section \<open>The tool\<close>

record mtk_dispif_info =
  display_id :: u32
  isHwVsyncAvailable :: u32
  displayType :: u32
  displayWidth :: u32
  displayHeight :: u32
  displayFormat :: u32
  displayMode :: u32
  vsyncFPS :: u32
  physicalWidth :: u32
  physicalHeight :: u32
  isConnected :: u32
  lcmOriginalWidth :: u32
  lcmOriginalHeight :: u32

text \<open>The requests made of \<^verbatim>\<open>/dev/hdmitx\<close>, and the driver's answers: whether it opens, the result of each
  request, and what the queries fill in.\<close>

datatype hdmi_ioctl =
  AUDIO_VIDEO_ENABLE int
| POWER_ENABLE int
| VIDEO_CONFIG nat
| GET_DEV_INFO
| FACTORY_DPI_TEST
| FACTORY_GET_STATUS
| GET_CAPABILITY

record hdmitx =
  x_open :: bool
  x_ioctl :: "hdmi_ioctl \<Rightarrow> int"
  x_info :: mtk_dispif_info
  x_status :: int
  x_cap :: u32
  x_long :: nat

text \<open>\<^verbatim>\<open>strtoul\<close> with base 0, and \<^verbatim>\<open>%x\<close>.\<close>

definition hex_digit :: "char \<Rightarrow> nat option" where
  "hex_digit c =
     (let n = of_char c :: nat in
      if 48 \<le> n \<and> n \<le> 57 then Some (n - 48)
      else if 97 \<le> n \<and> n \<le> 102 then Some (n - 87)
      else if 65 \<le> n \<and> n \<le> 70 then Some (n - 55)
      else None)"

fun digits_in :: "nat \<Rightarrow> nat \<Rightarrow> string \<Rightarrow> nat" where
  "digits_in b acc [] = acc"
| "digits_in b acc (c # cs) =
     (case hex_digit c of Some v \<Rightarrow> if v < b then digits_in b (acc * b + v) cs else acc | None \<Rightarrow> acc)"

definition auto_base :: "string \<Rightarrow> nat" where
  "auto_base s =
     (case s of
        CHR ''0'' # x # c # _ \<Rightarrow>
          if (x = CHR ''x'' \<or> x = CHR ''X'') \<and> hex_digit c \<noteq> None then digits_in 16 0 (drop 2 s) else digits_in 8 0 s
      | CHR ''0'' # _ \<Rightarrow> digits_in 8 0 s
      | _ \<Rightarrow> digits_in 10 0 s)"

definition strtoul0 :: "nat \<Rightarrow> string \<Rightarrow> nat" where
  "strtoul0 w s =
     (let t = dropWhile is_space (cstr s);
          neg = (case t of c # _ \<Rightarrow> c = CHR ''-'' | [] \<Rightarrow> False);
          t = (case t of c # r \<Rightarrow> if c = CHR ''-'' \<or> c = CHR ''+'' then r else t | [] \<Rightarrow> []);
          m = auto_base t
      in if 2 ^ w \<le> m then 2 ^ w - 1 else if neg then nat ((- int m) mod 2 ^ w) else m)"

fun hex :: "nat \<Rightarrow> string" where
  "hex n = (if n < 16 then [char_of (if n < 10 then 48 + n else 87 + n)]
     else hex (n div 16) @ [char_of (if n mod 16 < 10 then 48 + n mod 16 else 87 + n mod 16)])"

declare hex.simps [simp del]

text \<open>The requests issued, what is printed, and the exit status.\<close>

definition hdmictl_main :: "hdmitx \<Rightarrow> string list \<Rightarrow> hdmi_ioctl list \<times> string \<times> int" where
  "hdmictl_main x argv =
     (if length argv < 2 then ([], [], 2)
      else if \<not> x_open x then ([], [], 1)
      else
        let done = (\<lambda>rs out r. (rs, out @ [CHR 0x0A], if r < 0 then 1 else 0));
            cmd = argv ! 1
        in
          if cmd = ''enable'' then
            let r = x_ioctl x (AUDIO_VIDEO_ENABLE 1) in
            done [AUDIO_VIDEO_ENABLE 1] (''AUDIO_VIDEO_ENABLE(1) = '' @ dec_int r) r
          else if cmd = ''disable'' then
            let r = x_ioctl x (AUDIO_VIDEO_ENABLE 0) in
            done [AUDIO_VIDEO_ENABLE 0] (''AUDIO_VIDEO_ENABLE(0) = '' @ dec_int r) r
          else if cmd = ''power'' \<and> length argv = 3 then
            let v = atoi (x_long x) (argv ! 2);
                r = x_ioctl x (POWER_ENABLE v)
            in done [POWER_ENABLE v] (''POWER_ENABLE('' @ dec_int v @ '') = '' @ dec_int r) r
          else if cmd = ''res'' \<and> length argv = 3 then
            let v = strtoul0 (x_long x) (argv ! 2);
                r = x_ioctl x (VIDEO_CONFIG v)
            in done [VIDEO_CONFIG v] (''VIDEO_CONFIG('' @ dec v @ '') = '' @ dec_int r) r
          else if cmd = ''devinfo'' then
            let r = x_ioctl x GET_DEV_INFO;
                di = x_info x
            in done [GET_DEV_INFO]
                 (''GET_DEV_INFO = '' @ dec_int r @ '': '' @ dec (unat (displayWidth di)) @ ''x'' @ dec (unat (displayHeight di)) @
                  '' type='' @ dec (unat (displayType di)) @ '' hwvsync='' @ dec (unat (isHwVsyncAvailable di)) @
                  '' fps='' @ dec (unat (vsyncFPS di)) @ '' connected='' @ dec (unat (isConnected di))) r
          else if cmd = ''dpitest'' then
            let r = x_ioctl x FACTORY_DPI_TEST in
            done [FACTORY_DPI_TEST] (''FACTORY_DPI_TEST = '' @ dec_int r) r
          else if cmd = ''status'' then
            let r1 = x_ioctl x FACTORY_GET_STATUS;
                r = x_ioctl x GET_CAPABILITY
            in done [FACTORY_GET_STATUS, GET_CAPABILITY]
                 (''FACTORY_GET_STATUS = '' @ dec_int r1 @ '', status='' @ dec_int (x_status x) @ [CHR 0x0A] @
                  ''GET_CAPABILITY = '' @ dec_int r @ '', cap=0x'' @ hex (unat (x_cap x))) r
          else ([], [], 2))"

section \<open>The daemon and the tool\<close>

text \<open>The requests that reach the driver when the daemon runs the tool with the given arguments.\<close>

definition tool_ioctls :: "hdmitx \<Rightarrow> hdmi_call \<Rightarrow> hdmi_ioctl list" where
  "tool_ioctls x c =
     (case c of H_run p as \<Rightarrow> if p = HDMICTL_PATH then fst (hdmictl_main x (p # as)) else [] | _ \<Rightarrow> [])"

definition driver_ioctls :: "hdmitx \<Rightarrow> hdmi_call list \<Rightarrow> hdmi_ioctl list" where
  "driver_ioctls x h = concat (map (tool_ioctls x) h)"

lemma tool_commands:
  assumes "x_open x" and "32 \<le> x_long x"
  shows "tool_ioctls x (H_run HDMICTL_PATH [''disable'']) = [AUDIO_VIDEO_ENABLE 0]"
    and "tool_ioctls x (H_run HDMICTL_PATH [''power'', ''1'']) = [POWER_ENABLE 1]"
    and "tool_ioctls x (H_run HDMICTL_PATH [''enable'']) = [AUDIO_VIDEO_ENABLE 1]"
  using assms by (simp_all add: tool_ioctls_def hdmictl_main_def Let_def atoi_digit)

lemma other_calls [simp]: "tool_ioctls x (H_prop n) = []" "tool_ioctls x H_read_state = []" "tool_ioctls x (H_wait_prop w) = []"
  by (simp_all add: tool_ioctls_def)

text \<open>Through the tool, the timer's commands reach the driver as they are meant: going to sleep with the
  output up disables audio and video once, and waking up after that powers the transmitter and enables
  them again, in this order.\<close>

theorem timer_reaches_driver:
  assumes "x_open x" and "32 \<le> x_long x" and "\<forall>h. h_child env h \<noteq> ForkFailed"
    and "fst (prop_int env POWER_PROP s) = 0" and "fst (read_hdmi_state env (ask (H_prop POWER_PROP) s)) = HDMI_ACTIVE"
  shows "driver_ioctls x (hlog (timer_off env s)) = driver_ioctls x (hlog s) @ [AUDIO_VIDEO_ENABLE 0] \<and>
    driver_ioctls x (hlog (timer_on env (timer_off env s))) =
      driver_ioctls x (hlog s) @ [AUDIO_VIDEO_ENABLE 0, POWER_ENABLE 1, AUDIO_VIDEO_ENABLE 1]"
  using assms
  by (simp add: timer_off_def timer_on_def Let_def case_prod_beta prop_int_ask read_state_ask run_child_ask driver_ioctls_def
      tool_commands)

definition hdmitx_demo :: hdmitx where
  "hdmitx_demo = \<lparr>x_open = True, x_ioctl = (\<lambda>_. 0),
     x_info = \<lparr>display_id = 1, isHwVsyncAvailable = 1, displayType = 2, displayWidth = 1280, displayHeight = 720, displayFormat = 0,
       displayMode = 0, vsyncFPS = 60, physicalWidth = 0, physicalHeight = 0, isConnected = 1, lcmOriginalWidth = 0,
       lcmOriginalHeight = 0\<rparr>,
     x_status = 1, x_cap = 0xb, x_long = 64\<rparr>"

theorem timer_reaches_driver_witness:
  "driver_ioctls hdmitx_demo (hlog (timer_on hdmi_demo (timer_off hdmi_demo hdmid_boot))) =
     [AUDIO_VIDEO_ENABLE 0, POWER_ENABLE 1, AUDIO_VIDEO_ENABLE 1]"
proof -
  have "fst (prop_int hdmi_demo POWER_PROP hdmid_boot) = 0"
    "fst (read_hdmi_state hdmi_demo (ask (H_prop POWER_PROP) hdmid_boot)) = HDMI_ACTIVE"
    by (simp_all add: prop_int_def read_hdmi_state_def hdmi_demo_def hdmid_boot_def POWER_PROP_def SLEEP_PROP_def HDMI_ACTIVE_def
        atoi_digit demo_attr)
  from timer_reaches_driver [OF _ _ _ this, of hdmitx_demo] show ?thesis
    by (simp add: hdmitx_demo_def hdmi_demo_def hdmid_boot_def driver_ioctls_def)
qed

end
