(* ===== verification/Avc_Daemon.thy ===== *)
theory Avc_Daemon
  imports C_String
begin

text \<open>
  The SELinux denial logger, \<^verbatim>\<open>src/avcd/xdplus_avcd.c\<close>: opening and rotating the log, splitting the kernel's
  messages into lines, picking the denials, and the main loop over what the reads of \<^verbatim>\<open>/dev/kmsg\<close> deliver.
  The system is the parameter \<open>avc_env\<close>, which answers from the history of calls. Shown: every denial is
  written once and in order however the reads cut the messages; the log is bounded when the system's calls
  succeed; and two failures the daemon does not recover from.
\<close>

section \<open>Files and system\<close>

datatype avc_call =
  V_mkdir | V_chmod | V_open_log | V_fchmod | V_fstat | V_rename | V_write string | V_stamp string | V_sleep | V_read_enforce

text \<open>The log's files by inode: what is at the log's path and at the rotated path, and the contents. An open
  descriptor is an inode, so it follows a file that is renamed. \<open>kbuf\<close> is the filled part of the buffer of
  \<^verbatim>\<open>main\<close>.\<close>

record avcd =
  vlog :: "avc_call list"
  cur :: "nat option"
  old :: "nat option"
  contents :: "nat \<Rightarrow> string"
  next_inode :: nat
  kbuf :: string

record avc_env =
  v_ok :: "avc_call list \<Rightarrow> avc_call \<Rightarrow> bool"
  v_stamp :: "avc_call list \<Rightarrow> string \<Rightarrow> string"
  v_enforce :: "string option"

definition MAXBYTES :: nat where "MAXBYTES = 1 * 1024 * 1024"
definition KBUF_SIZE :: nat where "KBUF_SIZE = 8192"
definition NL :: char where "NL = CHR 0x0A"

definition call :: "avc_env \<Rightarrow> avc_call \<Rightarrow> avcd \<Rightarrow> bool \<times> avcd" where
  "call env c s = (v_ok env (vlog s) c, s\<lparr>vlog := vlog s @ [c]\<rparr>)"

text \<open>\<^verbatim>\<open>open(O_APPEND | O_CREAT)\<close> of the log's path.\<close>

definition log_inode :: "avcd \<Rightarrow> nat \<times> avcd" where
  "log_inode s =
     (case cur s of
        Some i \<Rightarrow> (i, s)
      | None \<Rightarrow> (next_inode s,
          s\<lparr>cur := Some (next_inode s), contents := (contents s)(next_inode s := []), next_inode := next_inode s + 1\<rparr>))"

definition open_log :: "avc_env \<Rightarrow> avcd \<Rightarrow> nat option \<times> avcd" where
  "open_log env s =
     (let (ok, s) = call env V_mkdir s in
      if \<not> ok then (None, s)
      else
        let (ok, s) = call env V_chmod s in
        if \<not> ok then (None, s)
        else
          let (ok, s) = call env V_open_log s in
          if \<not> ok then (None, s)
          else
            let (fd, s) = log_inode s;
                (ok, s) = call env V_fchmod s
            in if \<not> ok then (None, s) else (Some fd, s))"

definition rotate_if_large :: "avc_env \<Rightarrow> nat \<Rightarrow> avcd \<Rightarrow> nat \<times> avcd" where
  "rotate_if_large env fd s =
     (let (ok, s) = call env V_fstat s in
      if \<not> ok then (fd, s)
      else if length (contents s fd) \<le> MAXBYTES then (fd, s)
      else
        let (ok, s) = call env V_rename s in
        if \<not> ok \<or> cur s = None then (fd, s)
        else
          let s = s\<lparr>old := cur s, cur := None\<rparr>;
              (newfd, s) = open_log env s
          in case newfd of None \<Rightarrow> (fd, s) | Some f \<Rightarrow> (f, s))"

definition format_stamp :: "avc_env \<Rightarrow> string \<Rightarrow> nat \<Rightarrow> avcd \<Rightarrow> string \<times> avcd" where
  "format_stamp env fmt out_size s =
     (let t = v_stamp env (vlog s) fmt in
      (if length t < out_size then t else [], s\<lparr>vlog := vlog s @ [V_stamp fmt]\<rparr>))"

definition fd_write :: "avc_env \<Rightarrow> nat \<Rightarrow> string \<Rightarrow> avcd \<Rightarrow> avcd" where
  "fd_write env fd d s =
     (let (ok, s) = call env (V_write d) s in
      if ok then s\<lparr>contents := (contents s)(fd := contents s fd @ d)\<rparr> else s)"

definition write_line :: "avc_env \<Rightarrow> nat \<Rightarrow> string \<Rightarrow> avcd \<Rightarrow> avcd" where
  "write_line env fd line s =
     (let (stamp, s) = format_stamp env ''%m-%d %H:%M:%S '' 32 s;
          s = fd_write env fd stamp s;
          s = fd_write env fd line s
      in if line = [] \<or> last line \<noteq> NL then fd_write env fd [NL] s else s)"

section \<open>Kernel messages\<close>

definition strip_kmsg_prefix :: "string \<Rightarrow> string" where
  "strip_kmsg_prefix line =
     (case strchr line CHR '';'' of
        Some (_ # p) \<Rightarrow> (case p of c # r \<Rightarrow> if c = CHR '' '' then r else p | [] \<Rightarrow> [])
      | _ \<Rightarrow> line)"

definition is_avc_denial :: "string \<Rightarrow> bool" where
  "is_avc_denial line =
     (let body = strip_kmsg_prefix line in
      strstr body ''avc: '' \<noteq> None \<and> strstr body ''denied'' \<noteq> None)"

definition current_mode :: "avc_env \<Rightarrow> string" where
  "current_mode env =
     (case v_enforce env of
        None \<Rightarrow> ''unknown''
      | Some b \<Rightarrow>
          let b = take 15 b in
          if b = [] then ''unknown''
          else
            let b = cstr (if last b = NL then butlast b else b) in
            if b = ''1'' then ''Enforcing'' else if b = ''0'' then ''Permissive'' else b)"

text \<open>The loop over the complete lines of the buffer; what follows the last newline is kept. Kernel
  messages contain no NUL. \<open>None\<close> is the log descriptor -1.\<close>

definition on_line :: "avc_env \<Rightarrow> string \<Rightarrow> nat \<times> avcd \<Rightarrow> nat \<times> avcd" where
  "on_line env line r =
     (case r of (fd, s) \<Rightarrow>
        if is_avc_denial line then
          let (fd, s) = rotate_if_large env fd s in (fd, write_line env fd (strip_kmsg_prefix line) s)
        else (fd, s))"

function scan_lines :: "avc_env \<Rightarrow> string \<Rightarrow> nat \<times> avcd \<Rightarrow> string \<times> nat \<times> avcd" where
  "scan_lines env b r =
     (if NL \<in> set b
      then scan_lines env (drop 1 (dropWhile (\<lambda>c. c \<noteq> NL) b)) (on_line env (takeWhile (\<lambda>c. c \<noteq> NL) b) r)
      else (b, r))"
  by pat_completeness auto
termination
proof (relation "measure (\<lambda>(_, b, _). length b)")
  fix env :: avc_env and b :: string and r :: "nat \<times> avcd"
  assume "NL \<in> set b"
  then have "dropWhile (\<lambda>c. c \<noteq> NL) b \<noteq> []" by (simp add: dropWhile_eq_Nil_conv)
  then show "((env, drop 1 (dropWhile (\<lambda>c. c \<noteq> NL) b), on_line env (takeWhile (\<lambda>c. c \<noteq> NL) b) r), env, b, r)
      \<in> measure (\<lambda>(_, b, _). length b)"
    using length_dropWhile_le [of "\<lambda>c. c \<noteq> NL" b] by (cases "dropWhile (\<lambda>c. c \<noteq> NL) b") auto
qed simp

declare scan_lines.simps [simp del]

text \<open>One read: data (at most the room left in the buffer is taken), nothing, an interrupted call, an error.\<close>

datatype kread = Data string | NoData | Interrupted | ReadError

definition on_read :: "avc_env \<Rightarrow> kread \<Rightarrow> nat \<times> avcd \<Rightarrow> nat \<times> avcd" where
  "on_read env k r =
     (case r of (fd, s) \<Rightarrow>
        (case k of
           Interrupted \<Rightarrow> (fd, s)
         | Data d \<Rightarrow>
             let d = take (KBUF_SIZE - 1 - length (kbuf s)) d in
             if d = [] then (fd, snd (call env V_sleep s))
             else
               let (rest, fd, s) = scan_lines env (kbuf s @ d) (fd, s) in
               (fd, s\<lparr>kbuf := rest\<rparr>)
         | _ \<Rightarrow> (fd, snd (call env V_sleep s))))"

definition banner :: "avc_env \<Rightarrow> string \<Rightarrow> string" where
  "banner env stamp = ''--- xdplus_avcd started '' @ stamp @ '' enforce='' @ current_mode env @ [NL]"

definition avcd_main :: "avc_env \<Rightarrow> bool \<Rightarrow> kread list \<Rightarrow> avcd \<Rightarrow> int option \<times> avcd" where
  "avcd_main env kmsg_ok ks s =
     (let (fd, s) = open_log env s in
      case fd of
        None \<Rightarrow> (Some 1, s)
      | Some fd \<Rightarrow>
          let (stamp, s) = format_stamp env ''%Y-%m-%d %H:%M:%S'' 32 s;
              s = fd_write env fd (banner env stamp) s
          in
            if \<not> kmsg_ok then (Some 1, s)
            else (None, snd (fold (on_read env) ks (fd, s\<lparr>kbuf := []\<rparr>))))"

section \<open>Lines do not depend on how the reads cut them\<close>

text \<open>The complete lines of a text and what follows the last newline.\<close>

fun complete :: "string \<Rightarrow> string list" where
  "complete [] = []"
| "complete (c # cs) =
     (if c = NL then [] # complete cs
      else case complete cs of [] \<Rightarrow> [] | l # ls \<Rightarrow> (c # l) # ls)"

fun leftover :: "string \<Rightarrow> string" where
  "leftover [] = []"
| "leftover (c # cs) = (if NL \<in> set (c # cs) then leftover cs else c # cs)"

lemma complete_none: "NL \<notin> set b \<Longrightarrow> complete b = []"
  by (induction b) auto

lemma complete_line: "NL \<notin> set l \<Longrightarrow> complete (l @ NL # r) = l # complete r"
  by (induction l) auto

lemma leftover_none: "NL \<notin> set b \<Longrightarrow> leftover b = b"
  by (cases b) auto

lemma leftover_nl: "leftover (NL # r) = leftover r"
  by simp

lemma leftover_line: "leftover (l @ NL # r) = leftover r"
  by (induction l) auto

lemma leftover_no_nl: "NL \<notin> set (leftover b)"
  by (induction b) auto

lemma leftover_length: "length (leftover b) \<le> length b"
  by (induction b) auto

lemma first_line: "NL \<in> set b \<Longrightarrow> b = takeWhile (\<lambda>c. c \<noteq> NL) b @ NL # drop 1 (dropWhile (\<lambda>c. c \<noteq> NL) b)"
  by (induction b) auto

lemma scan_lines_fold: "scan_lines env b r = (leftover b, fold (on_line env) (complete b) r)"
proof (induction env b r rule: scan_lines.induct)
  case (1 env b r)
  show ?case
  proof (cases "NL \<in> set b")
    case True
    let ?l = "takeWhile (\<lambda>c. c \<noteq> NL) b" and ?t = "drop 1 (dropWhile (\<lambda>c. c \<noteq> NL) b)"
    have "NL \<notin> set ?l" by (auto dest: set_takeWhileD)
    then have "complete b = ?l # complete ?t" "leftover b = leftover ?t"
      using complete_line [of ?l ?t] leftover_line [of ?l ?t] first_line [OF True] by simp_all
    with 1 [OF True] show ?thesis by (subst scan_lines.simps) (simp add: True)
  next
    case False
    then show ?thesis by (subst scan_lines.simps) (simp add: complete_none leftover_none)
  qed
qed

lemma complete_append: "complete (a @ b) = complete a @ complete (leftover a @ b)"
proof (induction "length a" arbitrary: a rule: less_induct)
  case less
  show ?case
  proof (cases "NL \<in> set a")
    case True
    let ?l = "takeWhile (\<lambda>c. c \<noteq> NL) a" and ?t = "drop 1 (dropWhile (\<lambda>c. c \<noteq> NL) a)"
    have n: "NL \<notin> set ?l" by (auto dest: set_takeWhileD)
    have a: "a = ?l @ NL # ?t" by (rule first_line [OF True])
    have "length ?t < length a" by (subst (2) a) simp
    from less.hyps [OF this] show ?thesis
      using complete_line [OF n, of "?t"] complete_line [OF n, of "?t @ b"] leftover_line [of ?l ?t] a
      by (metis append.assoc append_Cons)
  qed (simp add: complete_none leftover_none)
qed

lemma leftover_append: "leftover (a @ b) = leftover (leftover a @ b)"
proof (induction a)
  case (Cons c a)
  then show ?case by (cases "NL \<in> set (c # a)") auto
qed simp

section \<open>Every denial is written once\<close>

lemma complete_no_nl: "l \<in> set (complete b) \<Longrightarrow> NL \<notin> set l"
proof (induction b arbitrary: l)
  case (Cons c b)
  then show ?case by (cases "complete b") (auto split: if_splits)
qed simp

lemma complete_length: "l \<in> set (complete b) \<Longrightarrow> length l < length b"
proof (induction b arbitrary: l)
  case (Cons c b)
  then have "length k < length b" if "k \<in> set (complete b)" for k using that by blast
  with Cons.prems show ?case
    by (cases "complete b") (auto split: if_splits intro: less_SucI)
qed simp

lemma strip_suffix: "\<exists>p. line = p @ strip_kmsg_prefix line"
proof -
  let ?d = "dropWhile (\<lambda>x. x \<noteq> CHR '';'') line"
  have l: "line = takeWhile (\<lambda>x. x \<noteq> CHR '';'') line @ ?d" by simp
  have "\<exists>p. ?d = p @ strip_kmsg_prefix line \<or> strip_kmsg_prefix line = line"
    by (auto simp: strip_kmsg_prefix_def strchr_def split: list.splits option.splits if_splits
          intro: exI [of _ "[a]" for a] exI [of _ "[a, b]" for a b])
  then show ?thesis using l by (metis append.assoc append_Nil)
qed

lemma strip_no_nl: "NL \<notin> set l \<Longrightarrow> NL \<notin> set (strip_kmsg_prefix l)"
  using strip_suffix [of l] by (metis Un_iff set_append)

lemma strip_length: "length (strip_kmsg_prefix l) \<le> length l"
  using strip_suffix [of l] by (metis length_append le_add2)

fun written :: "avc_call list \<Rightarrow> string list" where
  "written [] = []"
| "written (V_write d # h) = d # written h"
| "written (_ # h) = written h"

lemma written_append [simp]: "written (g @ h) = written g @ written h"
  by (induction g rule: written.induct) simp_all

lemma call_written [simp]: "vlog (snd (call env c s)) = vlog s @ [c]"
  by (simp add: call_def)

lemma open_log_written: "written (vlog (snd (open_log env s))) = written (vlog s)"
  by (auto simp: open_log_def log_inode_def call_def Let_def split: option.splits)

lemma rotate_written: "written (vlog (snd (rotate_if_large env fd s))) = written (vlog s)"
  using open_log_written [of env]
  by (auto simp: rotate_if_large_def call_def Let_def case_prod_beta split: option.splits)

lemma fd_write_written: "written (vlog (fd_write env fd d s)) = written (vlog s) @ [d]"
  by (simp add: fd_write_def call_def)

lemma write_line_written:
  assumes "NL \<notin> set line"
  shows "\<exists>st. written (vlog (write_line env fd line s)) = written (vlog s) @ [st, line, [NL]]"
proof -
  have "line = [] \<or> last line \<noteq> NL" using assms last_in_set by fastforce
  then show ?thesis by (simp add: write_line_def format_stamp_def Let_def fd_write_written)
qed

text \<open>What a denial makes the daemon write, after a time stamp.\<close>

definition entry :: "string \<Rightarrow> string \<Rightarrow> string list" where
  "entry st l = [st, strip_kmsg_prefix l, [NL]]"

lemma on_line_written:
  assumes "NL \<notin> set l"
  shows "\<exists>st. written (vlog (snd (on_line env l r))) = written (vlog (snd r)) @ (if is_avc_denial l then entry st l else [])"
proof (cases "is_avc_denial l")
  case True
  obtain fd s where r: "r = (fd, s)" by (cases r)
  obtain fd' s' where q: "rotate_if_large env fd s = (fd', s')" by (cases "rotate_if_large env fd s")
  have "written (vlog s') = written (vlog s)" using rotate_written [of env fd s] by (simp add: q)
  with write_line_written [OF strip_no_nl [OF assms], of env fd' s'] True show ?thesis
    by (simp add: on_line_def r q entry_def)
qed (cases r, simp add: on_line_def)

definition entries :: "string list \<Rightarrow> string list \<Rightarrow> bool" where
  "entries ls w = (\<exists>ss. length ss = length ls \<and> w = concat (map2 entry ss ls))"

lemma entries_append: "entries ls w \<Longrightarrow> entries ls' w' \<Longrightarrow> entries (ls @ ls') (w @ w')"
  unfolding entries_def by (metis (no_types, lifting) concat_append length_append map_append zip_append)

lemma on_lines_written:
  assumes "\<forall>l \<in> set ls. NL \<notin> set l"
  shows "\<exists>w. written (vlog (snd (fold (on_line env) ls r))) = written (vlog (snd r)) @ w \<and> entries (filter is_avc_denial ls) w"
  using assms
proof (induction ls arbitrary: r)
  case Nil
  show ?case by (simp add: entries_def)
next
  case (Cons l ls)
  obtain st where st: "written (vlog (snd (on_line env l r))) =
      written (vlog (snd r)) @ (if is_avc_denial l then entry st l else [])"
    using on_line_written [of l env r] Cons.prems by auto
  obtain w where w: "written (vlog (snd (fold (on_line env) ls (on_line env l r)))) =
      written (vlog (snd (on_line env l r))) @ w" "entries (filter is_avc_denial ls) w"
    using Cons.IH [of "on_line env l r"] Cons.prems by auto
  have "entries [l] (entry st l)" unfolding entries_def by (rule exI [of _ "[st]"]) simp
  from entries_append [OF this w(2)] w st show ?case by (cases "is_avc_denial l") auto
qed

text \<open>What the reads delivered, and that each of them found room in the buffer.\<close>

fun text_of :: "kread list \<Rightarrow> string" where
  "text_of [] = []"
| "text_of (Data d # ks) = d @ text_of ks"
| "text_of (_ # ks) = text_of ks"

fun fits :: "kread list \<Rightarrow> string \<Rightarrow> bool" where
  "fits [] b = True"
| "fits (Data d # ks) b = (length b + length d \<le> KBUF_SIZE - 1 \<and> fits ks (leftover (b @ d)))"
| "fits (_ # ks) b = fits ks b"

lemma on_read_data:
  assumes "length (kbuf s) + length d \<le> KBUF_SIZE - 1" and "NL \<notin> set (kbuf s)"
  shows "\<exists>w. written (vlog (snd (on_read env (Data d) (fd, s)))) = written (vlog s) @ w \<and>
      entries (filter is_avc_denial (complete (kbuf s @ d))) w \<and>
    kbuf (snd (on_read env (Data d) (fd, s))) = leftover (kbuf s @ d)"
proof (cases "d = []")
  case True
  then show ?thesis using assms(2)
    by (simp add: on_read_def call_def complete_none leftover_none entries_def)
next
  case False
  have t: "take (KBUF_SIZE - 1 - length (kbuf s)) d = d" using assms(1) by simp
  obtain fd' s' where f: "fold (on_line env) (complete (kbuf s @ d)) (fd, s) = (fd', s')" by (cases "fold (on_line env) (complete (kbuf s @ d)) (fd, s)")
  have "\<exists>w. written (vlog s') = written (vlog s) @ w \<and> entries (filter is_avc_denial (complete (kbuf s @ d))) w"
    using on_lines_written [of "complete (kbuf s @ d)" env "(fd, s)"] complete_no_nl f by auto
  then show ?thesis unfolding on_read_def by (simp only: t prod.case kread.case Let_def False if_False scan_lines_fold f) simp
qed

lemma on_read_idle:
  assumes "\<And>d. k \<noteq> Data d"
  shows "written (vlog (snd (on_read env k (fd, s)))) = written (vlog s) \<and> kbuf (snd (on_read env k (fd, s))) = kbuf s"
  using assms by (cases k) (auto simp: on_read_def call_def)

lemma reads_written:
  assumes "fits ks (kbuf s)" and "NL \<notin> set (kbuf s)"
  shows "\<exists>w. written (vlog (snd (fold (on_read env) ks (fd, s)))) = written (vlog s) @ w \<and>
      entries (filter is_avc_denial (complete (kbuf s @ text_of ks))) w"
  using assms
proof (induction ks arbitrary: fd s)
  case Nil
  then show ?case by (simp add: complete_none entries_def)
next
  case (Cons k ks)
  obtain fd' s' where q: "on_read env k (fd, s) = (fd', s')" by (cases "on_read env k (fd, s)")
  show ?case
  proof (cases "\<exists>d. k = Data d")
    case True
    then obtain d where k: "k = Data d" by blast
    obtain w where w: "written (vlog s') = written (vlog s) @ w" "entries (filter is_avc_denial (complete (kbuf s @ d))) w"
        "kbuf s' = leftover (kbuf s @ d)"
      using on_read_data [of s d env fd] Cons.prems q by (auto simp: k)
    obtain w' where w': "written (vlog (snd (fold (on_read env) ks (fd', s')))) = written (vlog s') @ w'"
        "entries (filter is_avc_denial (complete (kbuf s' @ text_of ks))) w'"
      using Cons.IH [of s' fd'] Cons.prems w(3) leftover_no_nl by (auto simp: k)
    have "complete (kbuf s @ d @ text_of ks) = complete (kbuf s @ d) @ complete (kbuf s' @ text_of ks)"
      using complete_append [of "kbuf s @ d"] w(3) by simp
    then show ?thesis using entries_append [OF w(2) w'(2)] w(1) w'(1) by (simp add: k q [unfolded k])
  next
    case False
    then have f: "fits (k # ks) = fits ks" "text_of (k # ks) = text_of ks" by (cases k; auto)+
    have "written (vlog s') = written (vlog s) \<and> kbuf s' = kbuf s"
      using on_read_idle [of k env fd s] False q by auto
    with Cons.IH [of s' fd'] Cons.prems f q show ?thesis by auto
  qed
qed

text \<open>C36. Every access denial in the kernel's messages is written to the log, once, in order and without its
  kernel prefix, and nothing else is: however the reads cut the messages into pieces and whatever empty,
  interrupted or failed reads come between, as long as the pieces find room in the buffer. After the
  daemon's opening line the writes are, for each denial, a time stamp, the message and a newline.\<close>

theorem denials_logged_once:
  assumes "fits ks []" and "avcd_main env True ks s = (None, s')"
  shows "\<exists>banner ss. length ss = length (filter is_avc_denial (complete (text_of ks))) \<and>
    written (vlog s') = written (vlog s) @ [banner] @
      concat (map2 (\<lambda>st l. [st, strip_kmsg_prefix l, [NL]]) ss (filter is_avc_denial (complete (text_of ks))))"
proof -
  obtain fdo s1 where o: "open_log env s = (fdo, s1)" by (cases "open_log env s")
  then obtain fd where fd: "fdo = Some fd" using assms(2) by (cases fdo) (simp_all add: avcd_main_def)
  have w1: "written (vlog s1) = written (vlog s)" using open_log_written [of env s] by (simp add: o)
  define t where "t = v_stamp env (vlog s1) ''%Y-%m-%d %H:%M:%S''"
  define b where "b = banner env (if length t < 32 then t else [])"
  define s2 where "s2 = (fd_write env fd b (s1\<lparr>vlog := vlog s1 @ [V_stamp ''%Y-%m-%d %H:%M:%S'']\<rparr>))\<lparr>kbuf := []\<rparr>"
  have s2: "written (vlog s2) = written (vlog s) @ [b]" "kbuf s2 = []"
    by (simp_all add: s2_def fd_write_written w1)
  have s': "s' = snd (fold (on_read env) ks (fd, s2))"
    using assms(2) unfolding s2_def b_def t_def by (auto simp: avcd_main_def o fd format_stamp_def Let_def split del: if_split)
  from reads_written [of ks s2 env fd] assms(1) s2 obtain ss where
    "length ss = length (filter is_avc_denial (complete (text_of ks)))"
    "written (vlog s') = written (vlog s) @ [b] @ concat (map2 entry ss (filter is_avc_denial (complete (text_of ks))))"
    unfolding s' entries_def by auto
  then show ?thesis by (auto simp: entry_def [abs_def])
qed

section \<open>The log stays small\<close>

text \<open>A line adds at most 31 bytes of stamp, the 8191 bytes the buffer can hold and a newline.\<close>

definition LOG_BOUND :: nat where "LOG_BOUND = MAXBYTES + 31 + 8191 + 1"

definition avc_inv :: "nat \<Rightarrow> nat \<Rightarrow> avcd \<Rightarrow> bool" where
  "avc_inv B fd s \<longleftrightarrow> LOG_BOUND \<le> B \<and> cur s = Some fd \<and> fd < next_inode s \<and> length (contents s fd) \<le> B \<and>
     (\<forall>j. old s = Some j \<longrightarrow> j < next_inode s \<and> j \<noteq> fd \<and> length (contents s j) \<le> B)"

text \<open>A system on which every call succeeds.\<close>

definition all_ok :: "avc_env \<Rightarrow> bool" where
  "all_ok env \<longleftrightarrow> (\<forall>h c. v_ok env h c)"

lemma call_ok: "all_ok env \<Longrightarrow> call env c s = (True, s\<lparr>vlog := vlog s @ [c]\<rparr>)"
  by (simp add: call_def all_ok_def)

lemma open_log_ok:
  assumes "all_ok env"
  shows "fst (open_log env s) = Some (case cur s of Some i \<Rightarrow> i | None \<Rightarrow> next_inode s)"
    "cur (snd (open_log env s)) = fst (open_log env s)" "old (snd (open_log env s)) = old s"
    "next_inode (snd (open_log env s)) = (if cur s = None then next_inode s + 1 else next_inode s)"
    "contents (snd (open_log env s)) = (if cur s = None then (contents s)(next_inode s := []) else contents s)"
  by (simp_all add: open_log_def call_ok [OF assms] log_inode_def split: option.split)

lemma rotate_inv:
  assumes "all_ok env" and "avc_inv B fd s"
  shows "avc_inv B (fst (rotate_if_large env fd s)) (snd (rotate_if_large env fd s)) \<and>
    length (contents (snd (rotate_if_large env fd s)) (fst (rotate_if_large env fd s))) \<le> MAXBYTES"
proof (cases "length (contents s fd) \<le> MAXBYTES")
  case True
  then show ?thesis using assms(2) by (simp add: rotate_if_large_def call_ok [OF assms(1)] avc_inv_def)
next
  case False
  have c: "cur s = Some fd" using assms(2) by (simp add: avc_inv_def)
  define s1 where "s1 = s\<lparr>vlog := vlog s @ [V_fstat, V_rename], old := Some fd, cur := None\<rparr>"
  have r: "rotate_if_large env fd s = (next_inode s, snd (open_log env s1))"
    using open_log_ok(1) [OF assms(1), of s1] False c
    by (simp add: rotate_if_large_def call_ok [OF assms(1)] s1_def case_prod_beta)
  show ?thesis using assms(2) open_log_ok [OF assms(1), of s1]
    by (auto simp: r s1_def avc_inv_def)
qed

lemma fd_write_ok:
  assumes "all_ok env"
  shows "fd_write env fd d s = s\<lparr>vlog := vlog s @ [V_write d], contents := (contents s)(fd := contents s fd @ d)\<rparr>"
  by (simp add: fd_write_def call_ok [OF assms])

lemma write_line_inv:
  assumes "all_ok env" and "avc_inv B fd s" and "length (contents s fd) \<le> MAXBYTES" and "length line \<le> 8191"
  shows "avc_inv B fd (write_line env fd line s)"
  using assms(2-4) by (auto simp: write_line_def format_stamp_def Let_def fd_write_ok [OF assms(1)] avc_inv_def LOG_BOUND_def)

lemma on_line_inv:
  assumes "all_ok env" and "avc_inv B fd s" and "length l \<le> 8191"
  shows "avc_inv B (fst (on_line env l (fd, s))) (snd (on_line env l (fd, s)))"
  using rotate_inv [OF assms(1,2)] write_line_inv [OF assms(1)] strip_length [of l] assms(2,3)
  by (auto simp: on_line_def case_prod_beta Let_def)

lemma on_lines_inv:
  assumes "all_ok env" and "avc_inv B (fst r) (snd r)" and "\<forall>l \<in> set ls. length l \<le> 8191"
  shows "avc_inv B (fst (fold (on_line env) ls r)) (snd (fold (on_line env) ls r))"
  using assms(2,3)
proof (induction ls arbitrary: r)
  case (Cons l ls)
  have "avc_inv B (fst (on_line env l r)) (snd (on_line env l r))"
    using on_line_inv [OF assms(1), of B "fst r" "snd r" l] Cons.prems by simp
  with Cons show ?case by simp
qed simp

lemma on_read_inv:
  assumes "all_ok env" and "avc_inv B (fst r) (snd r)" and "length (kbuf (snd r)) \<le> 8191"
  shows "avc_inv B (fst (on_read env k r)) (snd (on_read env k r)) \<and> length (kbuf (snd (on_read env k r))) \<le> 8191"
proof (cases k)
  case (Data d)
  obtain fd s where r: "r = (fd, s)" by (cases r)
  let ?d = "take (KBUF_SIZE - 1 - length (kbuf s)) d"
  have n: "length (kbuf s @ ?d) \<le> 8191" using assms(3) by (simp add: KBUF_SIZE_def r)
  have i: "avc_inv B (fst (fold (on_line env) (complete (kbuf s @ ?d)) r)) (snd (fold (on_line env) (complete (kbuf s @ ?d)) r))"
    using complete_length [of _ "kbuf s @ ?d"] n by (intro on_lines_inv [OF assms(1,2)]) fastforce
  show ?thesis
  proof (cases "?d = []")
    case True
    then show ?thesis using assms by (simp add: on_read_def r Data Let_def call_def avc_inv_def)
  next
    case False
    then show ?thesis using i leftover_length [of "kbuf s @ ?d"] n
      by (simp add: on_read_def r Data Let_def scan_lines_fold case_prod_beta avc_inv_def del: length_append)
  qed
qed (use assms in \<open>auto simp: on_read_def call_def avc_inv_def split: prod.splits\<close>)

lemma on_reads_inv:
  assumes "all_ok env" and "avc_inv B (fst r) (snd r)" and "length (kbuf (snd r)) \<le> 8191"
  shows "avc_inv B (fst (fold (on_read env) ks r)) (snd (fold (on_read env) ks r))"
  using assms(2,3)
proof (induction ks arbitrary: r)
  case (Cons k ks)
  from on_read_inv [OF assms(1) Cons.prems] Cons.IH show ?case by simp
qed simp

lemma mode_length: "length (current_mode env) \<le> 15"
proof -
  have "length (cstr b) \<le> 15" if "length b \<le> 15" for b using that length_takeWhile_le [of "\<lambda>c. c \<noteq> NUL" b] by (simp add: cstr_def)
  then show ?thesis by (auto simp: current_mode_def Let_def split: option.splits)
qed

lemma banner_length: "length (banner env (fst (format_stamp env f 32 s))) \<le> 80"
  using mode_length [of env] by (simp add: banner_def format_stamp_def Let_def)

text \<open>The size of the file at a path.\<close>

definition size_at :: "avcd \<Rightarrow> nat option \<Rightarrow> nat" where
  "size_at s p = (case p of None \<Rightarrow> 0 | Some i \<Rightarrow> length (contents s i))"

text \<open>C37. On a system whose calls succeed the log never grows without bound during a run, however many denials
  come: the log is always there, and it and the rotated log are each at most 1 MiB and one line (8223
  bytes), or what the run found at its start: the rotated log as it was, the log with the opening line of
  at most 80 bytes that every start of the daemon adds without looking at the size.\<close>

theorem log_bounded:
  assumes "all_ok env" and "avcd_main env kmsg_ok ks s = (r, s')"
    and "\<forall>i. cur s = Some i \<longrightarrow> i < next_inode s"
    and "\<forall>j. old s = Some j \<longrightarrow> j < next_inode s \<and> cur s \<noteq> Some j"
  shows "cur s' \<noteq> None \<and> (\<forall>p \<in> {cur s', old s'}.
    size_at s' p \<le> max (1024 * 1024 + 8223) (max (size_at s (cur s) + 80) (size_at s (old s))))"
proof -
  define B where "B = max LOG_BOUND (max (size_at s (cur s) + 80) (size_at s (old s)))"
  obtain fdo s1 where o: "open_log env s = (fdo, s1)" by (cases "open_log env s")
  note op = open_log_ok [OF assms(1), of s, unfolded o fst_conv snd_conv]
  obtain fd where fd: "fdo = Some fd" using op(1) by simp
  obtain t s2 where t: "format_stamp env ''%Y-%m-%d %H:%M:%S'' 32 s1 = (t, s2)" by (cases "format_stamp env ''%Y-%m-%d %H:%M:%S'' 32 s1")
  have s2: "s2 = s1\<lparr>vlog := vlog s1 @ [V_stamp ''%Y-%m-%d %H:%M:%S'']\<rparr>" using t by (auto simp: format_stamp_def Let_def)
  have b: "length (banner env t) \<le> 80" using banner_length [of env "''%Y-%m-%d %H:%M:%S''" s1] by (simp add: t)
  define s3 where "s3 = fd_write env fd (banner env t) s2"
  have small: "length (contents s1 fd) + 80 \<le> B" using op fd by (auto simp: B_def size_at_def LOG_BOUND_def split: option.splits if_splits)
  have "avc_inv B fd s1" using op fd assms(3,4) small by (auto simp: avc_inv_def B_def size_at_def split: option.splits if_splits)
  then have i: "avc_inv B fd s3" using small b by (auto simp: s3_def s2 fd_write_ok [OF assms(1)] avc_inv_def)
  have "avc_inv B fd (s3\<lparr>kbuf := []\<rparr>)" using i by (simp add: avc_inv_def)
  from on_reads_inv [OF assms(1), of B "(fd, s3\<lparr>kbuf := []\<rparr>)" ks] this
  have "\<exists>f. avc_inv B f (snd (fold (on_read env) ks (fd, s3\<lparr>kbuf := []\<rparr>)))" by auto
  moreover have "s' = s3 \<or> s' = snd (fold (on_read env) ks (fd, s3\<lparr>kbuf := []\<rparr>))"
    using assms(2) by (auto simp: avcd_main_def o fd t s3_def Let_def split: if_splits)
  ultimately obtain f where f: "avc_inv B f s'" using i by blast
  then have "size_at s' (cur s') \<le> B" "size_at s' (old s') \<le> B" by (auto simp: avc_inv_def size_at_def split: option.split)
  moreover have "B = max (1024 * 1024 + 8223) (max (size_at s (cur s) + 80) (size_at s (old s)))"
    by (simp add: B_def LOG_BOUND_def MAXBYTES_def)
  ultimately show ?thesis using f by (auto simp: avc_inv_def)
qed

section \<open>Failures the daemon does not recover from\<close>

text \<open>Once the log has been renamed away and could not be opened again, it is never created again: every
  later line goes to the rotated file, which is not rotated any more, whatever the system allows.\<close>

lemma rotate_lost: "cur s = None \<Longrightarrow> fst (rotate_if_large env fd s) = fd \<and> cur (snd (rotate_if_large env fd s)) = None"
  by (simp add: rotate_if_large_def call_def Let_def)

lemma fd_write_frame: "cur (fd_write env fd d s) = cur s" "kbuf (fd_write env fd d s) = kbuf s"
  by (simp_all add: fd_write_def call_def)

lemma write_line_frame: "cur (write_line env fd l s) = cur s" "kbuf (write_line env fd l s) = kbuf s"
  by (simp_all add: write_line_def format_stamp_def fd_write_frame Let_def)

lemma log_never_recreated:
  "cur (snd r) = None \<Longrightarrow> fst (fold (on_line env) ls r) = fst r \<and> cur (snd (fold (on_line env) ls r)) = None"
proof (induction ls arbitrary: r)
  case (Cons l ls)
  have "fst (on_line env l r) = fst r \<and> cur (snd (on_line env l r)) = None"
    using rotate_lost [OF Cons.prems, of env "fst r"] Cons.prems
    by (auto simp: on_line_def case_prod_beta Let_def write_line_frame)
  with Cons.IH [of "on_line env l r"] show ?case by simp
qed simp

text \<open>A buffer that is full without a newline never empties: no further read delivers anything.\<close>

lemma full_buffer_stuck:
  assumes "length (kbuf (snd r)) = KBUF_SIZE - 1"
  shows "kbuf (snd (fold (on_read env) ks r)) = kbuf (snd r) \<and>
    written (vlog (snd (fold (on_read env) ks r))) = written (vlog (snd r))"
  using assms
proof (induction ks arbitrary: r)
  case (Cons k ks)
  have "kbuf (snd (on_read env k r)) = kbuf (snd r) \<and> written (vlog (snd (on_read env k r))) = written (vlog (snd r))"
    using Cons.prems by (cases k) (auto simp: on_read_def call_def case_prod_beta)
  with Cons show ?case by simp
qed simp

section \<open>Instances\<close>

definition avc_demo :: avc_env where
  "avc_demo = \<lparr>v_ok = (\<lambda>_ _. True), v_stamp = (\<lambda>_ _. ''01-01 00:00:00 ''), v_enforce = Some ''1''\<rparr>"

definition avcd_boot :: avcd where
  "avcd_boot = \<lparr>vlog = [], cur = None, old = None, contents = (\<lambda>_. []), next_inode = 0, kbuf = []\<rparr>"

text \<open>Two records, the second cut by the reads.\<close>

definition demo_reads :: "kread list" where
  "demo_reads = [Data (''6,1,9,-;avc: denied { read }'' @ [NL] @ ''6,2,9''), NoData, Data ('',-;ok'' @ [NL])]"

lemma demo_main: "fst (avcd_main avc_demo True ks avcd_boot) = None"
  by (simp add: avcd_main_def avc_demo_def avcd_boot_def open_log_def call_def log_inode_def format_stamp_def Let_def)

lemma demo_fits: "fits demo_reads []"
  by code_simp

lemma demo_denials: "filter is_avc_denial (complete (text_of demo_reads)) = [''6,1,9,-;avc: denied { read }'']"
  by code_simp

theorem denials_logged_once_witness:
  "\<exists>banner st. written (vlog (snd (avcd_main avc_demo True demo_reads avcd_boot))) =
     [banner, st, ''avc: denied { read }'', [NL]]"
proof -
  have "strip_kmsg_prefix ''6,1,9,-;avc: denied { read }'' = ''avc: denied { read }''" by code_simp
  moreover have "written (vlog avcd_boot) = []" by (simp add: avcd_boot_def)
  moreover have "avcd_main avc_demo True demo_reads avcd_boot = (None, snd (avcd_main avc_demo True demo_reads avcd_boot))"
    using demo_main by (metis prod.collapse)
  ultimately show ?thesis
    using denials_logged_once [OF demo_fits, of avc_demo avcd_boot "snd (avcd_main avc_demo True demo_reads avcd_boot)"]
    by (auto simp: demo_denials length_Suc_conv)
qed

theorem log_bounded_witness:
  "size_at (snd (avcd_main avc_demo True demo_reads avcd_boot)) (cur (snd (avcd_main avc_demo True demo_reads avcd_boot)))
     \<le> 1024 * 1024 + 8223"
proof -
  have "all_ok avc_demo" by (simp add: all_ok_def avc_demo_def)
  moreover have "avcd_main avc_demo True demo_reads avcd_boot = (None, snd (avcd_main avc_demo True demo_reads avcd_boot))"
    using demo_main by (metis prod.collapse)
  moreover have "cur avcd_boot = None" "old avcd_boot = None" by (simp_all add: avcd_boot_def)
  ultimately show ?thesis
    using log_bounded [of avc_demo True demo_reads avcd_boot None "snd (avcd_main avc_demo True demo_reads avcd_boot)"]
    by (simp add: size_at_def)
qed

end
