(* ===== verification/Wpa_Driver.thy ===== *)
theory Wpa_Driver
  imports C_String
begin

text \<open>
  The MediaTek driver commands of \<^verbatim>\<open>wpa_supplicant\<close>, \<^verbatim>\<open>src/wpa_supplicant/mediatek_driver_cmd_nl80211.c\<close>: the
  dispatch of the textual commands, the country request and the channel-list event, and the four stubs. The
  kernel and \<^verbatim>\<open>wpa_supplicant\<close> are the parameter \<open>wpa_env\<close>; the build flag \<^verbatim>\<open>MTK_TC1_FEATURE\<close> is its field
  \<open>w_tc1\<close>. Shown: the fixed buffers are never overrun and only \<^verbatim>\<open>ap0\<close> runs into an uninitialised pointer;
  a country command reaches the driver and the supplicant with the same two letters.
\<close>

section \<open>The driver's surroundings\<close>

text \<open>What the commands ask of the kernel and of \<^verbatim>\<open>wpa_supplicant\<close>, in order. \<open>W_country\<close> and \<open>W_suspend\<close> are
  the two private requests, with the interface name and the text handed over (and for the second the
  lengths put beside it); \<open>W_event\<close> is the channel-list event with the country code it carries.\<close>

datatype wpa_call =
  W_socket
| W_country string string
| W_close
| W_event string
| W_flags string bool
| W_msg string
| W_deauth
| W_suspend string string nat nat

record wpa_env =
  w_tc1 :: bool
  w_socket :: "wpa_call list \<Rightarrow> bool"
  w_call :: "wpa_call list \<Rightarrow> wpa_call \<Rightarrow> int"

text \<open>The fields of the interface and its driver data that the code reads; \<open>has_drv\<close>, \<open>has_ctx\<close> and
  \<open>has_conf\<close> say that the pointers are not \<^verbatim>\<open>NULL\<close>.\<close>

record i802_bss =
  ifname :: string
  first_ifname :: string
  has_drv :: bool
  has_ctx :: bool
  has_conf :: bool
  own_addr :: "u8 list"
  associated :: bool

text \<open>Undefined behaviour the code can run into: writing past a local buffer, and reading the local
  \<^verbatim>\<open>wpa_s\<close> that is assigned only on an interface other than \<^verbatim>\<open>ap0\<close>.\<close>

datatype wpa_err = Overflow | Uninitialised

type_synonym wpa = "wpa_call list"

definition PRIV_CMD_SIZE :: nat where "PRIV_CMD_SIZE = 512"
definition IFNAMSIZ :: nat where "IFNAMSIZ = 16"
definition COUNTRY_BUF :: nat where "COUNTRY_BUF = 11"

definition request :: "wpa_env \<Rightarrow> wpa_call \<Rightarrow> wpa \<Rightarrow> int \<times> wpa" where
  "request env c h = (w_call env h c, h @ [c])"

text \<open>\<^verbatim>\<open>strncasecmp(a, b, n) == 0\<close> and \<^verbatim>\<open>strcasecmp(a, b) == 0\<close> on C strings.\<close>

definition to_lower :: "char \<Rightarrow> char" where
  "to_lower c = (let k = of_char c :: nat in if 65 \<le> k \<and> k \<le> 90 then char_of (k + 32) else c)"

definition same_nocase :: "string \<Rightarrow> string \<Rightarrow> bool" where
  "same_nocase a b = (map to_lower a = map to_lower b)"

definition starts_nocase :: "string \<Rightarrow> string \<Rightarrow> nat \<Rightarrow> bool" where
  "starts_nocase a b n = same_nocase (take n a) (take n b)"

definition starts :: "string \<Rightarrow> string \<Rightarrow> nat \<Rightarrow> bool" where
  "starts a b n = (take n a = take n b)"

text \<open>\<^verbatim>\<open>%02x\<close> of a byte, and the six of them that \<^verbatim>\<open>MACSTR\<close> prints.\<close>

definition nibble :: "nat \<Rightarrow> char" where
  "nibble k = (if k < 10 then char_of (48 + k) else char_of (87 + k))"

definition hex2 :: "u8 \<Rightarrow> string" where
  "hex2 b = [nibble (unat b div 16), nibble (unat b mod 16)]"

fun macstr :: "u8 list \<Rightarrow> string" where
  "macstr [] = []"
| "macstr [b] = hex2 b"
| "macstr (b # bs) = hex2 b @ '':'' @ macstr bs"

definition strlcpy :: "string \<Rightarrow> nat \<Rightarrow> string" where
  "strlcpy s n = take (n - 1) s"

section \<open>The commands\<close>

definition wpa_driver_mediatek_set_country :: "wpa_env \<Rightarrow> i802_bss \<Rightarrow> string \<Rightarrow> wpa \<Rightarrow> (wpa_err + int) \<times> wpa" where
  "wpa_driver_mediatek_set_country env bss alpha2 h =
     (let ok = w_socket env h; h = h @ [W_socket] in
      if \<not> ok then (Inr (-1), h)
      else
        let name = (if w_tc1 env \<and> starts (first_ifname bss) ''p2p0'' 4 then strlcpy ''wlan0'' IFNAMSIZ
                    else strlcpy (first_ifname bss) IFNAMSIZ);
            buf = ''COUNTRY '' @ alpha2
        in
          if COUNTRY_BUF < length buf + 1 then (Inl Overflow, h)
          else
            let (ret, h) = request env (W_country name buf) h;
                h = h @ [W_close]
            in (Inr (if ret < 0 then ret else 0), h))"

definition wpa_driver_notify_country_change :: "string \<Rightarrow> wpa \<Rightarrow> wpa" where
  "wpa_driver_notify_country_change cmd h =
     (if starts_nocase cmd ''COUNTRY'' 7
      then h @ [W_event (if length cmd > 9 then [cmd ! 8, cmd ! 9] else [])]
      else h)"

text \<open>\<^verbatim>\<open>linux_set_iface_flags\<close> and the message that follows when it returns 0.\<close>

definition set_iface :: "wpa_env \<Rightarrow> i802_bss \<Rightarrow> bool \<Rightarrow> string \<Rightarrow> wpa \<Rightarrow> int \<times> wpa" where
  "set_iface env bss up msg h =
     (let (ret, h) = request env (W_flags (first_ifname bss) up) h in
      (ret, if ret = 0 then h @ [W_msg msg] else h))"

definition country_cmd :: "wpa_env \<Rightarrow> i802_bss \<Rightarrow> string \<Rightarrow> wpa \<Rightarrow> (wpa_err + int) \<times> wpa" where
  "country_cmd env bss cmd h =
     (if length cmd \<noteq> 7 + 3 then (Inr 0, h)
      else
        let (r, h) = wpa_driver_mediatek_set_country env bss (drop 8 cmd) h in
        case r of
          Inl e \<Rightarrow> (Inl e, h)
        | Inr ret \<Rightarrow>
            if ret = 0 then
              if ifname bss = ''ap0'' then (Inl Uninitialised, h)
              else (Inr ret, wpa_driver_notify_country_change cmd h)
            else (Inr ret, h))"

definition stop_cmd :: "wpa_env \<Rightarrow> i802_bss \<Rightarrow> wpa \<Rightarrow> (wpa_err + int) \<times> wpa" where
  "stop_cmd env bss h =
     (if associated bss \<and> ifname bss = ''ap0'' then (Inl Uninitialised, h)
      else
        let h = (if associated bss then snd (request env W_deauth h) else h);
            (ret, h) = set_iface env bss False ''CTRL-EVENT-DRIVER-STATE STOPPED'' h
        in (Inr ret, h))"

definition suspend_cmd :: "wpa_env \<Rightarrow> i802_bss \<Rightarrow> string \<Rightarrow> wpa \<Rightarrow> int \<times> wpa" where
  "suspend_cmd env bss cmd h =
     (if length cmd \<ge> PRIV_CMD_SIZE then (-1, h)
      else
        let (ret, h) = request env (W_suspend (strlcpy (ifname bss) IFNAMSIZ) cmd (length cmd + 1) PRIV_CMD_SIZE) h in
        (if ret < 0 then ret else 0, h))"

text \<open>The result carries what is written to the caller's buffer, \<open>None\<close> when it is left alone. In
  the branches \<^verbatim>\<open>getpower\<close> and \<^verbatim>\<open>get-rts-threshold\<close> the query is commented out, so \<^verbatim>\<open>ret\<close> is
  still -1 and nothing is printed; the value \<^verbatim>\<open>set-rts-threshold\<close> and \<^verbatim>\<open>POWERMODE\<close> parse is not used.\<close>

definition wpa_driver_nl80211_driver_cmd :: "wpa_env \<Rightarrow> i802_bss \<Rightarrow> string \<Rightarrow> nat \<Rightarrow> wpa \<Rightarrow>
    (wpa_err + int \<times> string option) \<times> wpa" where
  "wpa_driver_nl80211_driver_cmd env bss cmd buf_len h =
     (let no_out = (\<lambda>(r, h). (case r of Inl e \<Rightarrow> Inl e | Inr ret \<Rightarrow> Inr (ret, None), h)) in
      if \<not> has_drv bss then (Inr (-1, None), h)
      else if \<not> has_ctx bss then (Inr (-1, None), h)
      else if ifname bss \<noteq> ''ap0'' \<and> \<not> has_conf bss then (Inr (-1, None), h)
      else if starts_nocase cmd ''POWERMODE '' 10 then (Inr (-1, None), h)
      else if starts cmd ''MACADDR'' 7 then
        if ifname bss = ''ap0'' then (Inl Uninitialised, h)
        else let t = ''Macaddr = '' @ macstr (take 6 (own_addr bss)) @ [CHR 0x0A] in
          (Inr (int (length t), if buf_len = 0 then None else Some (snprintf_buf buf_len t)), h)
      else if starts_nocase cmd ''COUNTRY'' 7 then no_out (country_cmd env bss cmd h)
      else if same_nocase cmd ''start'' then
        (case set_iface env bss True ''CTRL-EVENT-DRIVER-STATE STARTED'' h of (ret, h) \<Rightarrow> (Inr (ret, None), h))
      else if same_nocase cmd ''stop'' then no_out (stop_cmd env bss h)
      else if starts_nocase cmd ''getpower'' 8 then (Inr (-1, None), h)
      else if starts_nocase cmd ''get-rts-threshold'' 17 then (Inr (-1, None), h)
      else if starts_nocase cmd ''set-rts-threshold'' 17 then (Inr (-1, None), h)
      else if same_nocase cmd ''btcoexscan-start'' then (Inr (0, None), h)
      else if same_nocase cmd ''btcoexscan-stop'' then (Inr (0, None), h)
      else if starts_nocase cmd ''btcoexmode'' 10 then (Inr (0, None), h)
      else if starts_nocase cmd ''SETSUSPENDMODE '' 15 then
        (case suspend_cmd env bss cmd h of (ret, h) \<Rightarrow> (Inr (ret, None), h))
      else (Inr (-1, None), h))"

definition wpa_driver_set_p2p_noa :: "i802_bss \<Rightarrow> u8 \<Rightarrow> int \<Rightarrow> int \<Rightarrow> int" where
  "wpa_driver_set_p2p_noa bss count start duration = -1"

definition wpa_driver_get_p2p_noa :: "i802_bss \<Rightarrow> nat \<Rightarrow> int" where
  "wpa_driver_get_p2p_noa bss len = -1"

definition wpa_driver_set_p2p_ps :: "i802_bss \<Rightarrow> int \<Rightarrow> int \<Rightarrow> int \<Rightarrow> int" where
  "wpa_driver_set_p2p_ps bss legacy_ps opp_ps ctwindow = -1"

definition wpa_driver_set_ap_wps_p2p_ie :: "i802_bss \<Rightarrow> int" where
  "wpa_driver_set_ap_wps_p2p_ie bss = 0"

section \<open>Buffers and country codes\<close>

text \<open>A request whose texts fit the fixed buffers that the C code passes.\<close>

fun fits_buffers :: "wpa_call \<Rightarrow> bool" where
  "fits_buffers (W_country i t) = (length i < IFNAMSIZ \<and> length t < COUNTRY_BUF)"
| "fits_buffers (W_suspend i t used n) =
     (length i < IFNAMSIZ \<and> used = length t + 1 \<and> used \<le> n \<and> n = PRIV_CMD_SIZE)"
| "fits_buffers _ = True"

lemma strlcpy_fits: "length (strlcpy s IFNAMSIZ) < IFNAMSIZ"
  by (simp add: strlcpy_def IFNAMSIZ_def)

lemma set_country_safe:
  assumes "length a = 2" and "list_all fits_buffers h"
  shows "fst (wpa_driver_mediatek_set_country env bss a h) \<noteq> Inl e \<and>
    list_all fits_buffers (snd (wpa_driver_mediatek_set_country env bss a h))"
  using assms strlcpy_fits
  by (auto simp: wpa_driver_mediatek_set_country_def request_def Let_def COUNTRY_BUF_def)

lemma country_cmd_safe:
  assumes "list_all fits_buffers h"
  shows "fst (country_cmd env bss cmd h) \<noteq> Inl Overflow \<and> (ifname bss \<noteq> ''ap0'' \<longrightarrow> fst (country_cmd env bss cmd h) \<noteq> Inl e) \<and>
    list_all fits_buffers (snd (country_cmd env bss cmd h))"
proof (cases "length cmd = 10")
  case True
  obtain r h' where q: "wpa_driver_mediatek_set_country env bss (drop 8 cmd) h = (r, h')"
    by (cases "wpa_driver_mediatek_set_country env bss (drop 8 cmd) h")
  have "r \<noteq> Inl e \<and> r \<noteq> Inl Overflow \<and> list_all fits_buffers h'"
    using set_country_safe [OF _ assms, of "drop 8 cmd" env bss] q True by simp
  then show ?thesis
    by (cases r) (auto simp: country_cmd_def True q wpa_driver_notify_country_change_def)
qed (use assms in \<open>simp add: country_cmd_def\<close>)

lemma stop_cmd_safe:
  assumes "list_all fits_buffers h"
  shows "fst (stop_cmd env bss h) \<noteq> Inl Overflow \<and> (ifname bss \<noteq> ''ap0'' \<longrightarrow> fst (stop_cmd env bss h) \<noteq> Inl e) \<and>
    list_all fits_buffers (snd (stop_cmd env bss h))"
  using assms by (auto simp: stop_cmd_def set_iface_def request_def Let_def)

lemma suspend_cmd_safe:
  "list_all fits_buffers h \<Longrightarrow> list_all fits_buffers (snd (suspend_cmd env bss cmd h))"
  using strlcpy_fits by (auto simp: suspend_cmd_def request_def PRIV_CMD_SIZE_def)

lemma set_iface_safe: "list_all fits_buffers h \<Longrightarrow> list_all fits_buffers (snd (set_iface env bss up m h))"
  by (simp add: set_iface_def request_def)

text \<open>C39. Whatever text a command holds, no fixed buffer is overrun: the country request is at most ten
  bytes and its NUL, the suspend request at most 511, with the lengths passed beside it true, and interface
  names are cut to fit. On an interface other than \<^verbatim>\<open>ap0\<close> no command runs into undefined behaviour.\<close>

theorem driver_cmd_in_bounds:
  assumes "list_all fits_buffers h"
  shows "fst (wpa_driver_nl80211_driver_cmd env bss cmd n h) \<noteq> Inl Overflow \<and>
    (ifname bss \<noteq> ''ap0'' \<longrightarrow> (\<exists>ret out. fst (wpa_driver_nl80211_driver_cmd env bss cmd n h) = Inr (ret, out))) \<and>
    list_all fits_buffers (snd (wpa_driver_nl80211_driver_cmd env bss cmd n h))"
proof -
  obtain rc hc where c: "country_cmd env bss cmd h = (rc, hc)" by (cases "country_cmd env bss cmd h")
  obtain rs hs where s: "stop_cmd env bss h = (rs, hs)" by (cases "stop_cmd env bss h")
  have rc: "rc = Inl Uninitialised \<and> ifname bss = ''ap0'' \<or> (\<exists>x. rc = Inr x)" "list_all fits_buffers hc"
    using country_cmd_safe [OF assms, of env bss cmd] wpa_err.exhaust by (cases rc; force simp: c)+
  have rs: "rs = Inl Uninitialised \<and> ifname bss = ''ap0'' \<or> (\<exists>x. rs = Inr x)" "list_all fits_buffers hs"
    using stop_cmd_safe [OF assms, of env bss] wpa_err.exhaust by (cases rs; force simp: s)+
  show ?thesis
    using rc rs set_iface_safe [OF assms] suspend_cmd_safe [OF assms] assms
    by (elim disjE conjE exE) (simp_all add: wpa_driver_nl80211_driver_cmd_def Let_def c s case_prod_beta)
qed

text \<open>A country command of the right length is passed on as \<^verbatim>\<open>COUNTRY\<close> and its last two characters, and when
  the driver takes it the same two characters are announced to \<^verbatim>\<open>wpa_supplicant\<close>.\<close>

lemma country_applied:
  assumes "starts_nocase cmd ''COUNTRY'' 7" and "length cmd = 10" and "ifname bss \<noteq> ''ap0''"
    and "w_socket env h" and "0 \<le> w_call env (h @ [W_socket]) (W_country name (''COUNTRY '' @ drop 8 cmd))"
    and "name = (if w_tc1 env \<and> starts (first_ifname bss) ''p2p0'' 4 then ''wlan0'' else take 15 (first_ifname bss))"
  shows "country_cmd env bss cmd h =
    (Inr 0, h @ [W_socket, W_country name (''COUNTRY '' @ drop 8 cmd), W_close, W_event (drop 8 cmd)])"
proof -
  have d: "drop 8 cmd = [cmd ! 8, cmd ! 9]" using assms(2) by (simp add: Cons_nth_drop_Suc [symmetric])
  have n: "(if w_tc1 env \<and> starts (first_ifname bss) ''p2p0'' 4 then strlcpy ''wlan0'' IFNAMSIZ
      else strlcpy (first_ifname bss) IFNAMSIZ) = name" by (simp add: assms(6) strlcpy_def IFNAMSIZ_def)
  have "wpa_driver_mediatek_set_country env bss (drop 8 cmd) h = (Inr 0, h @ [W_socket, W_country name (''COUNTRY '' @ drop 8 cmd), W_close])"
    unfolding wpa_driver_mediatek_set_country_def n using assms(2,4,5) by (simp add: Let_def COUNTRY_BUF_def request_def)
  then show ?thesis using assms(1-3) d by (simp add: country_cmd_def wpa_driver_notify_country_change_def)
qed

text \<open>On \<^verbatim>\<open>ap0\<close> the pointer \<^verbatim>\<open>wpa_s\<close> is used without ever being assigned.\<close>

lemma ap0_uninitialised:
  assumes "ifname bss = ''ap0''" and "has_drv bss" and "has_ctx bss"
  shows "fst (wpa_driver_nl80211_driver_cmd env bss ''MACADDR'' n h) = Inl Uninitialised"
proof -
  have "\<not> starts_nocase ''MACADDR'' ''POWERMODE '' 10" "starts ''MACADDR'' ''MACADDR'' 7" by code_simp+
  then show ?thesis using assms by (simp add: wpa_driver_nl80211_driver_cmd_def)
qed

section \<open>Instances\<close>

definition wpa_demo :: wpa_env where
  "wpa_demo = \<lparr>w_tc1 = False, w_socket = (\<lambda>_. True), w_call = (\<lambda>_ _. 0)\<rparr>"

definition bss_demo :: i802_bss where
  "bss_demo = \<lparr>ifname = ''wlan0'', first_ifname = ''wlan0'', has_drv = True, has_ctx = True, has_conf = True,
     own_addr = [2, 0, 0, 0, 0, 1], associated = True\<rparr>"

theorem driver_cmd_in_bounds_witness:
  "\<exists>ret out. wpa_driver_nl80211_driver_cmd wpa_demo bss_demo ''COUNTRY US'' 64 [] =
     (Inr (ret, out), [W_socket, W_country ''wlan0'' ''COUNTRY US'', W_close, W_event ''US'']) \<and>
     fits_buffers (W_country ''wlan0'' ''COUNTRY US'')"
proof -
  have "snd (wpa_driver_nl80211_driver_cmd wpa_demo bss_demo ''COUNTRY US'' 64 []) =
      [W_socket, W_country ''wlan0'' ''COUNTRY US'', W_close, W_event ''US'']" by code_simp
  moreover have "ifname bss_demo \<noteq> ''ap0''" by (simp add: bss_demo_def)
  ultimately show ?thesis
    using driver_cmd_in_bounds [of "[]" wpa_demo bss_demo "''COUNTRY US''" 64] by (auto simp: prod_eq_iff)
qed

end
