(* ===== verification/Dp_Common.thy ===== *)
theory Dp_Common
  imports C_String "HOL-Library.Multiset"
begin

text \<open>
  What the programs that sweep the display blitter share, \<^verbatim>\<open>src/dpasyncsweep\<close>, \<^verbatim>\<open>src/dpblitsweep\<close> and
  \<^verbatim>\<open>src/dpconsumerprobe\<close>: pixel formats and plane
  layouts, ION buffers, the blitter and ION as a parameter \<open>dp_env\<close> that answers from the history of calls, the
  loop that reads a destination back, the source picture, and the loop over a table of cases.

  The locale \<open>plane_layout\<close> is the contract of a plane layout under which reading back stays inside the buffer and
  counts exactly; \<open>case_loop\<close> is the contract of one case under which a sweep is defined exactly for the ranges inside
  its table. \<open>live F M h\<close> says which descriptors and mappings are open after a history.
\<close>


section \<open>Pixel formats and planes\<close>

definition PACK :: "u32 \<Rightarrow> u32 \<Rightarrow> u32 \<Rightarrow> u32 \<Rightarrow> u32 \<Rightarrow> u32 \<Rightarrow> u32 \<Rightarrow> u32 \<Rightarrow> u32 \<Rightarrow> u32" where
  "PACK video plane coplane hf vf bits grp swp uid =
     or (push_bit 27 video) (or (push_bit 24 plane) (or (push_bit 22 coplane) (or (push_bit 20 hf)
       (or (push_bit 18 vf) (or (push_bit 8 bits) (or (push_bit 6 grp) (or (push_bit 5 swp) uid)))))))"

definition DP_COLOR_RGB565 :: u32 where "DP_COLOR_RGB565 = PACK 0 1 0 0 0 16 0 0 0"
definition DP_COLOR_RGBA8888 :: u32 where "DP_COLOR_RGBA8888 = PACK 0 1 0 0 0 32 0 1 2"
definition DP_COLOR_BGRA8888 :: u32 where "DP_COLOR_BGRA8888 = PACK 0 1 0 0 0 32 0 0 2"
definition DP_COLOR_I420 :: u32 where "DP_COLOR_I420 = PACK 0 3 0 1 1 8 1 0 8"
definition DP_COLOR_YUY2 :: u32 where "DP_COLOR_YUY2 = PACK 0 1 0 1 0 16 1 0 5"
definition DP_COLOR_YV12 :: u32 where "DP_COLOR_YV12 = PACK 0 3 0 1 1 8 1 1 8"
definition DP_COLOR_NV12 :: u32 where "DP_COLOR_NV12 = PACK 0 2 1 1 1 8 1 0 12"
definition DP_COLOR_NV21 :: u32 where "DP_COLOR_NV21 = PACK 0 2 1 1 1 8 1 1 12"

definition ROT_0 :: u32 where "ROT_0 = 0"
definition ROT_90 :: u32 where "ROT_90 = 4"
definition ROT_180 :: u32 where "ROT_180 = 3"
definition ROT_270 :: u32 where "ROT_270 = 7"

text \<open>\<open>psize\<close> is the array \<^verbatim>\<open>size[3]\<close>, of which the first \<open>pn\<close> entries count.\<close>

record Planes =
  pn :: nat
  psize :: "u32 list"
  yPitch :: int
  uvPitch :: int

definition total_of :: "Planes \<Rightarrow> u32" where
  "total_of p = fold (\<lambda>s t. t + s) (take (pn p) (psize p)) 0"

section \<open>The blitter, ION and the system\<close>

record DpRect =
  r_x :: int
  r_y :: int
  r_w :: int
  r_h :: int

text \<open>An array of three pointers that is passed as the list of hardware addresses: pointers, or 32-bit words stored one
  after the other from its start, with zeros behind them.\<close>

datatype mva_list = M_ptrs "nat list" | M_words "u32 list"

text \<open>The calls on a stream object, with their arguments; \<open>C_SrcHandles\<close> and \<open>C_DstHandles\<close> are the overloads that
  take ION handles, and from \<open>C_BlitSrcFd\<close> on they are the synchronous class's.\<close>

datatype stream_op =
  C_SetUser u32
| C_CancelJob u32
| C_ConfigBegin u32
| C_SrcFd int "u32 list" nat
| C_SrcHandles nat "u32 list" nat
| C_SrcConfig int int int int u32 int
| C_DstFd nat int "u32 list" nat
| C_DstHandles nat nat "u32 list" nat
| C_SrcCrop nat DpRect
| C_DstConfig nat int int int int u32 DpRect int
| C_Orientation nat u32
| C_PQ nat u32 u32
| C_ConfigEnd
| C_Invalidate
| C_BlitSrcFd int "u32 list" nat
| C_BlitDstFd int "u32 list" nat
| C_SrcConfigRoi int int int int u32 DpRect
| C_DstConfigRoi int int int int u32 DpRect
| C_BlitOrientation u32
| C_BlitSrcVa "nat list" "u32 list" nat
| C_BlitDstVa "nat list" "u32 list" nat
| C_BlitSrcMva "nat list" mva_list "u32 list" nat
| C_BlitDstMva "nat list" mva_list "u32 list" nat
| C_BlitPQ u32 u32

text \<open>What one destination buffer held after the blit: its port and ring slot, the planes' checksums, how
  many bytes still hold the sentinel, and the buffer's size.\<close>

record dst_report =
  dr_port :: nat
  dr_slot :: nat
  dr_sums :: "u32 list"
  dr_untouched :: u32
  dr_size :: u32

datatype report =
  R_skipped_wedges string
| R_skipped_unreachable string
| R_warn_leak
| R_alloc_fail string "(nat \<times> nat) option"
| R_setup string "int list"
| R_frame nat int
| R_result int int int "dst_report list"
| R_starved nat
| R_query string int int
| R_fds string "(string \<times> string) list"
| R_blit int dst_report
| R_bind_fail string string
| R_bind string string string u32 u32 "int list" string
| R_mva_failed u32 u32
| R_pq u32 int bool
| R_no_ion

datatype dp_call =
  D_ion_open int
| D_alloc u32 "nat option"
| D_share "int option"
| D_mmap "nat option"
| D_munmap nat u32
| D_close int
| D_pattern nat u32
| D_sentinel nat u32
| D_construct
| D_destruct
| D_createJob u32 int
| D_stream stream_op
| D_wait int
| D_dump string u32
| D_mva_config nat int
| D_mva_phys nat int
| D_print report

record dp_env =
  d_long :: nat
  d_ion :: int
  d_alloc :: "dp_call list \<Rightarrow> u32 \<Rightarrow> nat option"
  d_share :: "dp_call list \<Rightarrow> nat \<Rightarrow> int option"
  d_mmap :: "dp_call list \<Rightarrow> int \<Rightarrow> nat option"
  d_createJob :: "dp_call list \<Rightarrow> u32 \<Rightarrow> int \<Rightarrow> int \<times> u32 \<times> int"
  d_call :: "dp_call list \<Rightarrow> stream_op \<Rightarrow> int"
  d_wait :: "dp_call list \<Rightarrow> int \<Rightarrow> int"
  d_mem :: "dp_call list \<Rightarrow> nat \<Rightarrow> nat \<Rightarrow> u8"
  d_query :: "bool \<Rightarrow> u32 list \<Rightarrow> int"
  d_fopen :: "dp_call list \<Rightarrow> string \<Rightarrow> bool"
  d_fds :: "dp_call list \<Rightarrow> (string \<times> string option) list option"
  d_mva_config :: "dp_call list \<Rightarrow> nat \<Rightarrow> int"
  d_mva_phys :: "dp_call list \<Rightarrow> nat \<Rightarrow> int \<times> u32"

text \<open>The descriptors a run was given and those it closed, and the mappings it made and removed. A fence is a
  descriptor when it is not negative.\<close>

fun opened :: "dp_call \<Rightarrow> int multiset" where
  "opened (D_share (Some fd)) = {#fd#}"
| "opened (D_createJob i f) = (if 0 \<le> f then {#f#} else {#})"
| "opened _ = {#}"

fun closed :: "dp_call \<Rightarrow> int multiset" where
  "closed (D_close fd) = {#fd#}"
| "closed _ = {#}"

fun mapped :: "dp_call \<Rightarrow> nat multiset" where
  "mapped (D_mmap (Some va)) = {#va#}"
| "mapped _ = {#}"

fun unmapped :: "dp_call \<Rightarrow> nat multiset" where
  "unmapped (D_munmap va n) = {#va#}"
| "unmapped _ = {#}"

definition total_fds :: "(dp_call \<Rightarrow> 'a multiset) \<Rightarrow> dp_call list \<Rightarrow> 'a multiset" where
  "total_fds f h = sum_list (map f h)"

lemma total_fds_simps [simp]:
  "total_fds f [] = {#}" "total_fds f (g @ h) = total_fds f g + total_fds f h" "total_fds f (c # h) = f c + total_fds f h"
  by (simp_all add: total_fds_def)

section \<open>ION buffers\<close>

record ion_buf =
  b_fd :: int
  b_va :: nat
  b_handle :: nat

definition alloc_ion :: "dp_env \<Rightarrow> u32 \<Rightarrow> dp_call list \<Rightarrow> ion_buf option \<times> dp_call list" where
  "alloc_ion env n h =
     (let a = d_alloc env h n; h = h @ [D_alloc n a] in
      case a of
        None \<Rightarrow> (None, h)
      | Some hnd \<Rightarrow>
          let sh = d_share env h hnd; h = h @ [D_share sh] in
          case sh of
            None \<Rightarrow> (None, h)
          | Some fd \<Rightarrow>
              let va = d_mmap env h fd; h = h @ [D_mmap va] in
              case va of
                None \<Rightarrow> (None, h)
              | Some va \<Rightarrow> (Some \<lparr>b_fd = fd, b_va = va, b_handle = hnd\<rparr>, h))"

lemma alloc_ion_balance:
  assumes "alloc_ion env n h = (Some b, h')"
  shows "total_fds opened h' = total_fds opened h + {#b_fd b#}" "total_fds closed h' = total_fds closed h"
    "total_fds mapped h' = total_fds mapped h + {#b_va b#}" "total_fds unmapped h' = total_fds unmapped h"
  using assms by (auto simp: alloc_ion_def Let_def split: option.splits)

section \<open>Reading a destination back\<close>

text \<open>\<open>None\<close> is a read past the end of the buffer. The offsets are \<^verbatim>\<open>unsigned\<close> and wrap.\<close>

definition rd :: "(nat \<Rightarrow> u8) \<Rightarrow> u32 \<Rightarrow> u32 \<Rightarrow> u8 option" where
  "rd mem sz i = (if i < sz then Some (mem (unat i)) else None)"

fun sum_bytes :: "(u32 \<Rightarrow> u8 option) \<Rightarrow> u32 \<Rightarrow> nat list \<Rightarrow> u32 \<Rightarrow> u32 \<Rightarrow> (u32 \<times> u32) option" where
  "sum_bytes r off [] sm un = Some (sm, un)"
| "sum_bytes r off (i # is) sm un =
     (case r (off + of_nat i) of
        None \<Rightarrow> None
      | Some b \<Rightarrow> sum_bytes r off is (sm * 31 + ucast b) (if b = 0xa5 then un + 1 else un))"

fun sum_planes :: "(u32 \<Rightarrow> u8 option) \<Rightarrow> u32 list \<Rightarrow> u32 \<Rightarrow> u32 \<Rightarrow> (u32 list \<times> u32) option" where
  "sum_planes r [] off un = Some ([], un)"
| "sum_planes r (n # ns) off un =
     (case sum_bytes r off [0..<unat n] 0 un of
        None \<Rightarrow> None
      | Some (sm, un) \<Rightarrow>
          (case sum_planes r ns (off + n) un of
             None \<Rightarrow> None
           | Some (sms, un) \<Rightarrow> Some (sm # sms, un)))"

text \<open>The sums of a buffer's planes, padded to the three that are printed, and its untouched bytes.\<close>

definition scan_dst :: "(nat \<Rightarrow> u8) \<Rightarrow> Planes \<Rightarrow> (u32 list \<times> u32) option" where
  "scan_dst mem p =
     (case sum_planes (rd mem (total_of p)) (take (pn p) (psize p)) 0 0 of
        None \<Rightarrow> None
      | Some (sms, un) \<Rightarrow> Some (take 3 (sms @ [0, 0, 0]), un))"

text \<open>The reference: the polynomial sum of a list of bytes, and the sums of consecutive planes.\<close>

definition poly_sum :: "u8 list \<Rightarrow> u32" where
  "poly_sum bs = fold (\<lambda>b s. s * 31 + ucast b) bs 0"

fun plane_sums :: "(nat \<Rightarrow> u8) \<Rightarrow> nat \<Rightarrow> nat list \<Rightarrow> u32 list" where
  "plane_sums mem off [] = []"
| "plane_sums mem off (n # ns) = poly_sum (map mem [off..<off + n]) # plane_sums mem (off + n) ns"

definition sent :: "(nat \<Rightarrow> u8) \<Rightarrow> nat \<Rightarrow> nat \<Rightarrow> nat" where
  "sent mem a b = length (filter (\<lambda>i. mem i = 0xa5) [a..<b])"

lemma u32_lt: "unat (w :: u32) < 2 ^ 32"
  using unsigned_less [of w] by simp

lemma sum_bytes_eq:
  assumes "unat off + (a + k) \<le> unat sz"
  shows "sum_bytes (rd mem sz) off [a..<a + k] sm un =
    Some (fold (\<lambda>b s. s * 31 + ucast b) (map mem [unat off + a..<unat off + a + k]) sm,
          un + of_nat (sent mem (unat off + a) (unat off + a + k)))"
  using assms
proof (induction k arbitrary: a sm un)
  case (Suc k)
  have lt: "unat off + a < unat sz" using Suc.prems by simp
  have "unat sz < 2 ^ 32" by (rule u32_lt)
  then have u: "unat (off + of_nat a) = unat off + a"
    using lt by (simp add: unat_word_ariths unat_of_nat)
  have r: "rd mem sz (off + of_nat a) = Some (mem (unat off + a))"
    using lt by (simp add: rd_def word_less_nat_alt u)
  have e: "[a..<a + Suc k] = a # [Suc a..<Suc a + k]"
    "[unat off + a..<unat off + a + Suc k] = (unat off + a) # [unat off + Suc a..<unat off + Suc a + k]"
    by (simp_all add: upt_conv_Cons)
  show ?case using Suc.IH [of "Suc a"] Suc.prems unfolding e sent_def
    by (simp add: r add.assoc)
qed (simp add: sent_def)

lemma sent_append: "a \<le> b \<Longrightarrow> b \<le> c \<Longrightarrow> sent mem a c = sent mem a b + sent mem b c"
  unfolding sent_def by (metis filter_append le_add_diff_inverse length_append upt_add_eq_append)

lemma sum_planes_eq:
  assumes "unat off + sum_list (map unat ns) \<le> unat sz"
  shows "sum_planes (rd mem sz) ns off un =
    Some (plane_sums mem (unat off) (map unat ns), un + of_nat (sent mem (unat off) (unat off + sum_list (map unat ns))))"
  using assms
proof (induction ns arbitrary: off un)
  case (Cons n ns)
  have "unat sz < 2 ^ 32" by (rule u32_lt)
  then have u: "unat (off + n) = unat off + unat n" using Cons.prems by (simp add: unat_word_ariths)
  have b: "sum_bytes (rd mem sz) off [0..<unat n] 0 un =
      Some (poly_sum (map mem [unat off..<unat off + unat n]), un + of_nat (sent mem (unat off) (unat off + unat n)))"
    using sum_bytes_eq [of off 0 "unat n" sz mem 0 un] Cons.prems by (simp add: poly_sum_def)
  have t: "sent mem (unat off) (unat off + (unat n + sum_list (map unat ns))) =
      sent mem (unat off) (unat off + unat n) + sent mem (unat off + unat n) (unat off + unat n + sum_list (map unat ns))"
    using sent_append [of "unat off" "unat off + unat n" "unat off + unat n + sum_list (map unat ns)" mem] by (simp add: add.assoc)
  show ?case using Cons.IH [of "off + n"] Cons.prems by (simp add: b u t add.assoc)
qed (simp add: sent_def)

lemma total_of_exact:
  assumes "sum_list (map unat (take (pn p) (psize p))) < 2 ^ 32"
  shows "unat (total_of p) = sum_list (map unat (take (pn p) (psize p)))"
proof -
  have "unat (fold (\<lambda>s t. t + s) ns a) = unat a + sum_list (map unat ns)"
    if "unat a + sum_list (map unat ns) < 2 ^ 32" for ns :: "u32 list" and a
    using that
  proof (induction ns arbitrary: a)
    case (Cons n ns)
    have u: "unat (a + n) = unat a + unat n" using Cons.prems by (simp add: unat_word_ariths)
    show ?case using Cons.IH [of "a + n"] Cons.prems by (simp add: u)
  qed simp
  from this [of 0] assms show ?thesis by (simp add: total_of_def)
qed

lemma sent_all: "sent mem a b = b - a \<longleftrightarrow> (\<forall>i. a \<le> i \<and> i < b \<longrightarrow> mem i = 0xa5)"
proof -
  have "length (filter P xs) = length xs \<longleftrightarrow> (\<forall>x \<in> set xs. P x)" for P :: "nat \<Rightarrow> bool" and xs
    by (metis filter_id_conv length_filter_less less_irrefl)
  from this [of "\<lambda>i. mem i = 0xa5" "[a..<b]"] show ?thesis by (auto simp: sent_def)
qed

lemma sent_le: "sent mem a b \<le> b - a"
  unfolding sent_def by (metis length_filter_le length_upt)

section \<open>Calls\<close>

text \<open>A call on the stream object, an argument of the program with its default, and a buffer given back.\<close>

definition call :: "dp_env \<Rightarrow> stream_op \<Rightarrow> dp_call list \<Rightarrow> int \<times> dp_call list" where
  "call env c h = (d_call env h c, h @ [D_stream c])"

definition arg :: "dp_env \<Rightarrow> string list \<Rightarrow> nat \<Rightarrow> int \<Rightarrow> int" where
  "arg env argv i d = (if i < length argv then atoi (d_long env) (argv ! i) else d)"

definition release_buf :: "u32 \<Rightarrow> ion_buf \<Rightarrow> dp_call list" where
  "release_buf n b = [D_munmap (b_va b) n, D_close (b_fd b)]"

section \<open>Descriptors and mappings\<close>

text \<open>\<open>adds P h h'\<close>: the calls made from \<open>h\<close> to \<open>h'\<close> all satisfy \<open>P\<close>.\<close>

definition adds :: "(dp_call \<Rightarrow> bool) \<Rightarrow> dp_call list \<Rightarrow> dp_call list \<Rightarrow> bool" where
  "adds P h h' \<longleftrightarrow> (\<exists>n. h' = h @ n \<and> list_all P n)"

lemma adds_refl [simp]: "adds P h h"
  by (simp add: adds_def)

lemma adds_trans: "adds P h h' \<Longrightarrow> adds P h' h'' \<Longrightarrow> adds P h h''"
  by (auto simp: adds_def)

lemma adds_append: "list_all P n \<Longrightarrow> adds P h (h @ n)"
  by (auto simp: adds_def)

lemma adds_snoc [simp]: "P c \<Longrightarrow> adds P h (h @ [c])"
  by (simp add: adds_append)

lemma adds_fold: "(\<And>x h. adds P h (f x h)) \<Longrightarrow> adds P h (fold f xs h)"
  by (induction xs arbitrary: h) (auto intro: adds_trans)

lemma adds_mono: "adds P h h' \<Longrightarrow> (\<And>c. P c \<Longrightarrow> Q c) \<Longrightarrow> adds Q h h'"
  by (auto simp: adds_def list_all_iff)

text \<open>Calls that neither open nor close, map nor unmap anything.\<close>

definition neutral :: "dp_call \<Rightarrow> bool" where
  "neutral c \<longleftrightarrow> opened c = {#} \<and> closed c = {#} \<and> mapped c = {#} \<and> unmapped c = {#}"

lemma neutral_simps [simp]:
  "neutral (D_stream c)" "neutral (D_print r)" "neutral (D_wait f)" "neutral (D_dump p n)" "neutral (D_pattern a n)"
  "neutral (D_sentinel a n)" "neutral (D_mva_config a i)" "neutral (D_mva_phys a i)" "neutral D_construct" "neutral D_destruct"
  by (simp_all add: neutral_def)

lemma adds_neutral_totals:
  assumes "adds neutral h h'"
  shows "total_fds opened h' = total_fds opened h" "total_fds closed h' = total_fds closed h"
    "total_fds mapped h' = total_fds mapped h" "total_fds unmapped h' = total_fds unmapped h"
proof -
  obtain n where n: "h' = h @ n" "list_all neutral n" using assms by (auto simp: adds_def)
  have "total_fds opened n = {#} \<and> total_fds closed n = {#} \<and> total_fds mapped n = {#} \<and> total_fds unmapped n = {#}"
    using n(2) by (induction n) (auto simp: neutral_def)
  then show "total_fds opened h' = total_fds opened h" "total_fds closed h' = total_fds closed h"
    "total_fds mapped h' = total_fds mapped h" "total_fds unmapped h' = total_fds unmapped h" by (simp_all add: n(1))
qed

text \<open>The descriptors in \<open>F\<close> and the mappings in \<open>M\<close> are what is open at the end of \<open>h\<close>.\<close>

definition live :: "int multiset \<Rightarrow> nat multiset \<Rightarrow> dp_call list \<Rightarrow> bool" where
  "live F M h \<longleftrightarrow> total_fds opened h = total_fds closed h + F \<and> total_fds mapped h = total_fds unmapped h + M"

lemma live_neutral: "live F M h \<Longrightarrow> adds neutral h h' \<Longrightarrow> live F M h'"
  by (simp add: live_def adds_neutral_totals)

lemma live_alloc: "live F M h \<Longrightarrow> alloc_ion env n h = (Some b, h') \<Longrightarrow> live (F + {#b_fd b#}) (M + {#b_va b#}) h'"
  by (simp add: live_def alloc_ion_balance)

lemma live_release_buf: "live (F + {#b_fd b#}) (M + {#b_va b#}) h \<Longrightarrow> live F M (h @ release_buf n b)"
  by (simp add: live_def release_buf_def)

text \<open>The calls that configuring, waiting and reading back consist of.\<close>

fun is_user :: "dp_call \<Rightarrow> bool" where
  "is_user (D_stream (C_SetUser u)) = True"
| "is_user _ = False"

fun cfg :: "dp_call \<Rightarrow> bool" where
  "cfg (D_stream c) = (\<not> is_user (D_stream c))"
| "cfg (D_print r) = (case r of R_alloc_fail s x \<Rightarrow> False | R_bind_fail s t \<Rightarrow> False | _ \<Rightarrow> True)"
| "cfg (D_wait f) = True"
| "cfg (D_dump p n) = True"
| "cfg (D_mva_config n r) = True"
| "cfg (D_mva_phys n r) = True"
| "cfg _ = False"

lemma cfg_neutral: "cfg c \<Longrightarrow> neutral c"
  by (cases c) simp_all

lemma cfg_plain: "cfg c \<Longrightarrow> \<not> is_user c"
  by (cases c) simp_all

lemma call_adds: "\<not> is_user (D_stream c) \<Longrightarrow> adds cfg h (snd (call env c h))"
  by (simp add: call_def)

text \<open>No buffer could not be allocated.\<close>

fun alloc_failed :: "dp_call \<Rightarrow> bool" where
  "alloc_failed (D_print (R_alloc_fail s x)) = True"
| "alloc_failed (D_print (R_bind_fail s t)) = True"
| "alloc_failed _ = False"

definition allocated :: "dp_call list \<Rightarrow> bool" where
  "allocated h \<longleftrightarrow> list_all (\<lambda>c. \<not> alloc_failed c) h"

lemma allocated_append [simp]: "allocated (g @ h) \<longleftrightarrow> allocated g \<and> allocated h"
  by (simp add: allocated_def)

lemma adds_allocated: "adds P h h' \<Longrightarrow> allocated h' \<Longrightarrow> allocated h"
  by (auto simp: adds_def)

lemma cfg_not_failed: "cfg c \<Longrightarrow> \<not> alloc_failed c"
  by (erule contrapos_pn, erule alloc_failed.elims(2)) simp_all

lemma allocated_adds: "adds (\<lambda>c. \<not> alloc_failed c) h h' \<Longrightarrow> allocated h \<Longrightarrow> allocated h'"
  by (auto simp: adds_def allocated_def)

text \<open>ION has memory, descriptors and addresses left.\<close>

definition ion_works :: "dp_env \<Rightarrow> bool" where
  "ion_works env \<longleftrightarrow> (\<forall>h n. d_alloc env h n \<noteq> None) \<and> (\<forall>h b. d_share env h b \<noteq> None) \<and> (\<forall>h fd. d_mmap env h fd \<noteq> None)"

lemma ion_works_alloc: "ion_works env \<Longrightarrow> fst (alloc_ion env n h) \<noteq> None"
  by (simp add: ion_works_def alloc_ion_def Let_def option.case_eq_if)

lemma alloc_ion_extends: "\<exists>n. snd (alloc_ion env sz h) = h @ n \<and> allocated n"
  by (auto simp: alloc_ion_def Let_def allocated_def split: option.split)

section \<open>Sizes\<close>

lemma mult_box: "0 \<le> a \<Longrightarrow> a \<le> A \<Longrightarrow> 0 \<le> b \<Longrightarrow> b \<le> B \<Longrightarrow> 0 \<le> a * b \<and> a * b \<le> A * (B :: int)"
  by (simp add: mult_mono)

lemma unat_word_of_int_le: "0 \<le> x \<Longrightarrow> x \<le> X \<Longrightarrow> unat (word_of_int x :: u32) \<le> nat X"
proof -
  assume "0 \<le> x" "x \<le> X"
  then have "uint (word_of_int x :: u32) \<le> X" using zmod_le_nonneg_dividend [of x "2 ^ 32"] by (simp add: uint_word_of_int)
  then have "nat (uint (word_of_int x :: u32)) \<le> nat X" by (rule nat_mono)
  then show ?thesis by (simp only: nat_uint_eq)
qed

lemma plane_sizes:
  fixes w h :: int
  assumes b: "0 \<le> w" "w \<le> 16384" "0 \<le> h" "h \<le> 16384"
  shows "unat (word_of_int (w * h) :: u32) \<le> 268435456" "unat (word_of_int (w * h * 2) :: u32) \<le> 536870912"
    "unat (word_of_int (w * h * 4) :: u32) \<le> 1073741824"
    "unat (word_of_int (w * h div 2) :: u32) \<le> 134217728"
    "unat (word_of_int ((w + 1) div 2 * ((h + 1) div 2)) :: u32) \<le> 67108864"
    "unat (word_of_int ((w + 1) div 2 * 2 * ((h + 1) div 2)) :: u32) \<le> 134217728"
proof -
  have c: "0 \<le> (w + 1) div 2" "(w + 1) div 2 \<le> 8192" "0 \<le> (h + 1) div 2" "(h + 1) div 2 \<le> 8192" using b by auto
  have m: "0 \<le> w * h \<and> w * h \<le> 268435456" "0 \<le> (w + 1) div 2 * ((h + 1) div 2) \<and> (w + 1) div 2 * ((h + 1) div 2) \<le> 67108864"
    using mult_box [OF b] mult_box [OF c] by simp_all
  have d: "0 \<le> w * h div 2" "w * h div 2 \<le> 134217728" using m(1) by linarith+
  show "unat (word_of_int (w * h) :: u32) \<le> 268435456" "unat (word_of_int (w * h * 2) :: u32) \<le> 536870912"
    "unat (word_of_int (w * h * 4) :: u32) \<le> 1073741824"
    "unat (word_of_int (w * h div 2) :: u32) \<le> 134217728"
    "unat (word_of_int ((w + 1) div 2 * ((h + 1) div 2)) :: u32) \<le> 67108864"
    "unat (word_of_int ((w + 1) div 2 * 2 * ((h + 1) div 2)) :: u32) \<le> 134217728"
    using m unat_word_of_int_le [OF d] unat_word_of_int_le [of "w * h" 268435456] unat_word_of_int_le [of "w * h * 2" 536870912]
      unat_word_of_int_le [of "w * h * 4" 1073741824] unat_word_of_int_le [of "(w + 1) div 2 * ((h + 1) div 2)" 67108864]
      unat_word_of_int_le [of "(w + 1) div 2 * 2 * ((h + 1) div 2)" 134217728] by (simp_all add: ac_simps)
qed

section \<open>The source picture\<close>

text \<open>The byte the programs store at offset \<open>i\<close> of the source; \<open>D_pattern\<close> is the loop that fills it.\<close>

definition src_byte :: "u32 \<Rightarrow> u8" where
  "src_byte i = ucast (and (i * 7 + (i div 977) * 13) 0xff)"

lemma src_byte_nat:
  assumes "i < 2 ^ 32"
  shows "unat (src_byte (of_nat i)) = (i * 7 + i div 977 * 13) mod 256"
proof -
  let ?w = "of_nat i * 7 + (of_nat i div 977) * 13 :: u32"
  have u: "unat (of_nat i :: u32) = i" using assms by (simp add: unat_of_nat)
  have d: "unat (of_nat i div 977 :: u32) = i div 977" by (simp add: unat_div_distrib u)
  have m: "and ?w 0xff = take_bit 8 ?w" by (simp add: take_bit_eq_mask mask_eq_exp_minus_1)
  have "unat (src_byte (of_nat i)) = take_bit 8 (unat ?w)"
    unfolding src_byte_def m by (simp add: unsigned_ucast_eq unsigned_take_bit_eq)
  also have "\<dots> = unat ?w mod 256" by (simp add: take_bit_eq_mod)
  also have "unat ?w = (i * 7 + i div 977 * 13) mod 2 ^ 32"
    by (simp add: unat_word_ariths u d mod_simps)
  also have "(i * 7 + i div 977 * 13) mod 2 ^ 32 mod 256 = (i * 7 + i div 977 * 13) mod 256"
    by (rule mod_mod_cancel) simp
  finally show ?thesis .
qed

lemma div_step: "(i + m) div 977 = i div 977 + m div 977 \<or> (i + m) div 977 = i div 977 + m div 977 + 1" for i m :: nat
proof -
  have "i mod 977 + m mod 977 < 2 * 977" using mod_less_divisor [of 977 i] mod_less_divisor [of 977 m] by linarith
  then have "(i mod 977 + m mod 977) div 977 < 2" by (simp only: div_less_iff_less_mult)
  moreover have "(i + m) div 977 = i div 977 + m div 977 + (i mod 977 + m mod 977) div 977" by (rule div_add1_eq)
  ultimately show ?thesis by linarith
qed

lemma src_byte_differs:
  assumes "i + m < 2 ^ 32" and "(7 * m + 13 * (m div 977)) mod 256 \<noteq> 0" and "(7 * m + 13 * (m div 977 + 1)) mod 256 \<noteq> 0"
  shows "src_byte (of_nat (i + m)) \<noteq> src_byte (of_nat i)"
proof
  assume "src_byte (of_nat (i + m)) = src_byte (of_nat i)"
  then have e: "((i + m) * 7 + (i + m) div 977 * 13) mod 256 = (i * 7 + i div 977 * 13) mod 256"
    using src_byte_nat [of i] src_byte_nat [of "i + m"] assms(1) by simp
  obtain d where d: "d = m div 977 \<or> d = m div 977 + 1" "(i + m) div 977 = i div 977 + d" using div_step [of i m] by auto
  have "(i * 7 + i div 977 * 13 + (7 * m + 13 * d)) mod 256 = (i * 7 + i div 977 * 13) mod 256"
    using e unfolding d(2) by (simp add: algebra_simps)
  then have "256 dvd 7 * m + 13 * d" by (simp only: mod_eq_dvd_iff_nat [OF le_add1] add_diff_cancel_left')
  then have "(7 * m + 13 * d) mod 256 = 0" by (simp only: dvd_eq_mod_eq_0)
  with d(1) assms(2,3) show False by auto
qed

section \<open>Plane layouts\<close>

text \<open>The contract of a function that lays a picture out in planes: three sizes, of which at most three
  count, and for the pictures the sweeps use a total that fits 32 bits. What follows holds for each of the
  sweeps.\<close>

locale plane_layout =
  fixes planes :: "u32 \<Rightarrow> int \<Rightarrow> int \<Rightarrow> Planes"
  assumes three: "pn (planes f w h) \<le> 3 \<and> length (psize (planes f w h)) = 3"
    and fits: "\<lbrakk>0 \<le> w; w \<le> 16384; 0 \<le> h; h \<le> 16384\<rbrakk> \<Longrightarrow>
      sum_list (map unat (take (pn (planes f w h)) (psize (planes f w h)))) < 2 ^ 32"
begin

lemma scan_exact:
  assumes "0 \<le> w" and "w \<le> 16384" and "0 \<le> h" and "h \<le> 16384" and "p = planes f w h"
  shows "scan_dst mem p = Some (take 3 (plane_sums mem 0 (map unat (take (pn p) (psize p))) @ [0, 0, 0]),
    of_nat (sent mem 0 (unat (total_of p))))"
proof -
  let ?ns = "take (pn p) (psize p)"
  have t: "unat (total_of p) = sum_list (map unat ?ns)"
    unfolding assms(5) by (rule total_of_exact [OF fits [OF assms(1-4)]])
  have "sum_planes (rd mem (total_of p)) ?ns 0 0 = Some (plane_sums mem 0 (map unat ?ns), of_nat (sent mem 0 (unat (total_of p))))"
    using sum_planes_eq [of 0 ?ns "total_of p" mem 0] by (simp add: t)
  then show ?thesis by (simp add: scan_dst_def)
qed

lemma untouched_all:
  assumes "0 \<le> w" and "w \<le> 16384" and "0 \<le> h" and "h \<le> 16384" and "p = planes f w h"
    and "scan_dst mem p = Some (sms, un)"
  shows "un = total_of p \<longleftrightarrow> (\<forall>i < unat (total_of p). mem i = 0xa5)"
proof -
  have u: "un = of_nat (sent mem 0 (unat (total_of p)))" using scan_exact [OF assms(1-5)] assms(6) by simp
  have "sent mem 0 (unat (total_of p)) < 2 ^ 32"
    using sent_le [of mem 0 "unat (total_of p)"] u32_lt [of "total_of p"] by simp
  then have "unat un = sent mem 0 (unat (total_of p))" by (simp add: u unat_of_nat)
  then have "un = total_of p \<longleftrightarrow> sent mem 0 (unat (total_of p)) = unat (total_of p)" by (simp add: word_unat_eq_iff)
  then show ?thesis using sent_all [of mem 0 "unat (total_of p)"] by simp
qed

end



section \<open>Loops over a table of cases\<close>

text \<open>\<open>for_cases\<close> runs a case for every index in turn; \<open>case_range\<close> is the range the two arguments select in a table of
  \<open>n\<close> cases.\<close>

fun for_cases :: "(int \<Rightarrow> 's \<Rightarrow> 's option) \<Rightarrow> int list \<Rightarrow> 's \<Rightarrow> 's option" where
  "for_cases step [] s = Some s"
| "for_cases step (c # cs) s = (case step c s of None \<Rightarrow> None | Some s \<Rightarrow> for_cases step cs s)"

definition case_range :: "int \<Rightarrow> int \<Rightarrow> nat \<Rightarrow> int list" where
  "case_range fr cnt n =
     (let n = int n; n = (if 0 \<le> cnt \<and> fr + cnt < n then fr + cnt else n) in [fr..n - 1])"

text \<open>The contract of a case: it is defined exactly for the indices of the table.\<close>

locale case_loop =
  fixes step :: "int \<Rightarrow> 's \<Rightarrow> 's option" and n :: nat
  assumes defined: "step c s = None \<longleftrightarrow> c < 0 \<or> int n \<le> c"
begin

lemma loop_defined: "for_cases step cs s = None \<longleftrightarrow> \<not> list_all (\<lambda>c. 0 \<le> c \<and> c < int n) cs"
proof (induction cs arbitrary: s)
  case (Cons c cs)
  then show ?case using defined [of c s] by (cases "step c s") auto
qed simp

lemma range_defined: "for_cases step (case_range fr cnt n) s = None \<longleftrightarrow> fr < 0 \<and> cnt \<noteq> 0"
proof -
  define e where "e = (if 0 \<le> cnt \<and> fr + cnt < int n then fr + cnt else int n)"
  have "(\<not> list_all (\<lambda>c. 0 \<le> c \<and> c < int n) [fr..e - 1]) = (fr < 0 \<and> fr < e)" (is "?l = ?r")
  proof
    show "?l \<Longrightarrow> ?r" by (auto simp: list_all_iff e_def split: if_splits)
    show "?r \<Longrightarrow> ?l" by (auto simp: list_all_iff intro: bexI [of _ fr])
  qed
  also have "\<dots> = (fr < 0 \<and> cnt \<noteq> 0)" by (auto simp: e_def)
  finally show ?thesis unfolding loop_defined case_range_def Let_def e_def .
qed

end

text \<open>What every case keeps, the loop keeps.\<close>

lemma for_cases_keeps:
  assumes "for_cases step cs s = Some s'" and "P s" and "\<And>c s s'. \<lbrakk>step c s = Some s'; P s\<rbrakk> \<Longrightarrow> P s'"
  shows "P s'"
  using assms(1,2)
proof (induction cs arbitrary: s)
  case (Cons c cs)
  then show ?case using assms(3) by (auto split: option.splits)
qed simp


section \<open>An environment\<close>

text \<open>ION and the blitter answer every call with success, descriptors and addresses come from a counter, and nothing is
  written to a destination.\<close>

definition demo_dp :: dp_env where
  "demo_dp = \<lparr>d_long = 32, d_ion = 3, d_alloc = (\<lambda>h n. Some (length h)), d_share = (\<lambda>h b. Some (int (length h))),
     d_mmap = (\<lambda>h fd. Some (length h)), d_createJob = (\<lambda>h i f. (0, i + 1, int (length h))), d_call = (\<lambda>h c. 0),
     d_wait = (\<lambda>h f. 0), d_mem = (\<lambda>h a i. 0xa5), d_query = (\<lambda>s a. 1), d_fopen = (\<lambda>h p. True), d_fds = (\<lambda>h. None),
     d_mva_config = (\<lambda>h n. 0), d_mva_phys = (\<lambda>h n. (0, 0x1000))\<rparr>"

lemma demo_dp_simps [simp]: "d_ion demo_dp = 3" "ion_works demo_dp" "arg demo_dp [s] (Suc n) d = d"
  by (simp_all add: demo_dp_def ion_works_def arg_def)

end
