(* ===== verification/Dp_Async.thy ===== *)
theory Dp_Async
  imports Dp_Common
begin

text \<open>
  \<^verbatim>\<open>src/dpasyncsweep/dpasync_sweep.c\<close>: its tables, and every function of it. A run is the list of the calls it made and
  of the lines it printed, each line recorded when it is complete, and \<open>None\<close> is undefined behaviour. The layout's divisions are by two, of picture sizes,
  which are not negative in the table.
\<close>


section \<open>Cases\<close>

definition USER_PRIMARY :: u32 where "USER_PRIMARY = 0"
definition USER_MIRROR :: u32 where "USER_MIRROR = 5"
definition USER_SC2 :: u32 where "USER_SC2 = 1"
definition USER_MULTI :: u32 where "USER_MULTI = 4"
definition DST_RING_MAX :: int where "DST_RING_MAX = 4"

definition planes_for :: "u32 \<Rightarrow> int \<Rightarrow> int \<Rightarrow> Planes" where
  "planes_for fmt w h =
     (let cw = (w + 1) div 2; ch = (h + 1) div 2 in
      if fmt = DP_COLOR_RGBA8888 \<or> fmt = DP_COLOR_BGRA8888 then
        \<lparr>pn = 1, psize = [word_of_int (w * h * 4), 0, 0], yPitch = w * 4, uvPitch = 0\<rparr>
      else if fmt = DP_COLOR_RGB565 \<or> fmt = DP_COLOR_YUY2 then
        \<lparr>pn = 1, psize = [word_of_int (w * h * 2), 0, 0], yPitch = w * 2, uvPitch = 0\<rparr>
      else if fmt = DP_COLOR_YV12 \<or> fmt = DP_COLOR_I420 then
        \<lparr>pn = 3, psize = [word_of_int (w * h), word_of_int (cw * ch), word_of_int (cw * ch)], yPitch = w, uvPitch = cw\<rparr>
      else
        \<lparr>pn = 2, psize = [word_of_int (w * h), word_of_int (cw * 2 * ch), 0], yPitch = w, uvPitch = cw * 2\<rparr>)"

record Port =
  dw :: int
  dh :: int
  dfmt :: u32
  rot :: u32
  cropX :: int
  cropY :: int
  cropW :: int
  cropH :: int

record Case =
  name :: string
  user :: u32
  sw :: int
  sh :: int
  sfmt :: u32
  nports :: nat
  ports :: "Port list"
  pqScenario :: nat
  cancelExtra :: bool
  unreachable :: bool
  wedges :: bool
  frames :: int
  extraJobsPerFrame :: nat
  dstRing :: int
  srcSecure :: int
  dstSecure :: int

definition port :: "int \<Rightarrow> int \<Rightarrow> u32 \<Rightarrow> u32 \<Rightarrow> int \<Rightarrow> int \<Rightarrow> int \<Rightarrow> int \<Rightarrow> Port" where
  "port w h f r cx cy cw ch = \<lparr>dw = w, dh = h, dfmt = f, rot = r, cropX = cx, cropY = cy, cropW = cw, cropH = ch\<rparr>"

definition mk_case :: "string \<Rightarrow> u32 \<Rightarrow> int \<Rightarrow> int \<Rightarrow> u32 \<Rightarrow> nat \<Rightarrow> Port list \<Rightarrow> nat \<Rightarrow> bool \<Rightarrow> bool \<Rightarrow> bool \<Rightarrow>
    int \<Rightarrow> nat \<Rightarrow> int \<Rightarrow> int \<Rightarrow> int \<Rightarrow> Case" where
  "mk_case nm u w h f n ps pq cancel unre wedge fr extra ring ss ds =
     \<lparr>name = nm, user = u, sw = w, sh = h, sfmt = f, nports = n, ports = ps, pqScenario = pq, cancelExtra = cancel,
      unreachable = unre, wedges = wedge, frames = fr, extraJobsPerFrame = extra, dstRing = ring, srcSecure = ss,
      dstSecure = ds\<rparr>"

definition cases :: "Case list" where
  "cases =
    [mk_case ''a_baseline'' USER_PRIMARY 640 360 DP_COLOR_RGBA8888 1 [port 640 360 DP_COLOR_YV12 ROT_0 0 0 0 0]
       0 False False False 0 0 0 0 0,
     mk_case ''a_down2x'' USER_PRIMARY 1280 720 DP_COLOR_RGBA8888 1 [port 640 360 DP_COLOR_YV12 ROT_0 0 0 0 0]
       0 False False False 0 0 0 0 0,
     mk_case ''a_rot90'' USER_PRIMARY 640 360 DP_COLOR_RGBA8888 1 [port 360 640 DP_COLOR_YV12 ROT_90 0 0 0 0]
       0 False False False 0 0 0 0 0,
     mk_case ''a_rot270'' USER_PRIMARY 640 360 DP_COLOR_RGBA8888 1 [port 360 640 DP_COLOR_YV12 ROT_270 0 0 0 0]
       0 False False False 0 0 0 0 0,
     mk_case ''a_to_rgb565'' USER_PRIMARY 640 360 DP_COLOR_RGBA8888 1 [port 640 360 DP_COLOR_RGB565 ROT_0 0 0 0 0]
       0 False False False 0 0 0 0 0,
     mk_case ''a_rgba_rgba'' USER_PRIMARY 640 360 DP_COLOR_RGBA8888 1 [port 640 360 DP_COLOR_RGBA8888 ROT_0 0 0 0 0]
       0 False False False 0 0 0 0 0,
     mk_case ''a_crop_centre'' USER_PRIMARY 1280 720 DP_COLOR_RGBA8888 1 [port 640 360 DP_COLOR_YV12 ROT_0 320 180 640 360]
       0 False False False 0 0 0 0 0,
     mk_case ''a_crop_scale'' USER_PRIMARY 1280 720 DP_COLOR_RGBA8888 1 [port 854 480 DP_COLOR_YV12 ROT_0 100 100 800 400]
       0 False False False 0 0 0 0 0,
     mk_case ''a_user5'' USER_MIRROR 640 360 DP_COLOR_RGBA8888 1 [port 640 360 DP_COLOR_YV12 ROT_0 0 0 0 0]
       0 False False False 0 0 0 0 0,
     mk_case ''a_user5_down'' USER_MIRROR 1280 720 DP_COLOR_RGBA8888 1 [port 640 360 DP_COLOR_YV12 ROT_0 0 0 0 0]
       0 False False False 0 0 0 0 0,
     mk_case ''a_two_same'' USER_MIRROR 1280 720 DP_COLOR_RGBA8888 2 [port 640 360 DP_COLOR_YV12 ROT_0 0 0 0 0, port 640 360 DP_COLOR_YV12 ROT_0 0 0 0 0]
       0 False True False 0 0 0 0 0,
     mk_case ''a_two_sizes'' USER_MIRROR 1280 720 DP_COLOR_RGBA8888 2 [port 1280 720 DP_COLOR_YV12 ROT_0 0 0 0 0, port 640 360 DP_COLOR_YV12 ROT_0 0 0 0 0]
       0 False True False 0 0 0 0 0,
     mk_case ''a_two_formats'' USER_MIRROR 640 360 DP_COLOR_RGBA8888 2 [port 640 360 DP_COLOR_YV12 ROT_0 0 0 0 0, port 640 360 DP_COLOR_RGBA8888 ROT_0 0 0 0 0]
       0 False True False 0 0 0 0 0,
     mk_case ''a_two_rots'' USER_MIRROR 640 360 DP_COLOR_RGBA8888 2 [port 640 360 DP_COLOR_YV12 ROT_0 0 0 0 0, port 360 640 DP_COLOR_YV12 ROT_90 0 0 0 0]
       0 False True False 0 0 0 0 0,
     mk_case ''a_two_crops'' USER_MIRROR 1280 720 DP_COLOR_RGBA8888 2 [port 640 360 DP_COLOR_YV12 ROT_0 0 0 640 360, port 640 360 DP_COLOR_YV12 ROT_0 640 360 640 360]
       0 False True False 0 0 0 0 0,
     mk_case ''a_three_port'' USER_MIRROR 1280 720 DP_COLOR_RGBA8888 3 [port 1280 720 DP_COLOR_YV12 ROT_0 0 0 0 0, port 640 360 DP_COLOR_NV12 ROT_0 0 0 0 0, port 320 180 DP_COLOR_RGBA8888 ROT_0 0 0 0 0]
       0 False True False 0 0 0 0 0,
     mk_case ''a_four_port'' USER_MIRROR 640 360 DP_COLOR_RGBA8888 4 [port 640 360 DP_COLOR_YV12 ROT_0 0 0 0 0, port 320 180 DP_COLOR_YV12 ROT_0 0 0 0 0, port 640 360 DP_COLOR_NV21 ROT_0 0 0 0 0, port 180 320 DP_COLOR_YV12 ROT_270 0 0 0 0]
       0 False True False 0 0 0 0 0,
     mk_case ''a_pq_sc1'' USER_MIRROR 640 360 DP_COLOR_RGBA8888 1 [port 640 360 DP_COLOR_YV12 ROT_0 0 0 0 0]
       1 False False False 0 0 0 0 0,
     mk_case ''a_pq_sc2'' USER_MIRROR 640 360 DP_COLOR_RGBA8888 1 [port 640 360 DP_COLOR_YV12 ROT_0 0 0 0 0]
       2 False False False 0 0 0 0 0,
     mk_case ''a_cancel'' USER_MIRROR 640 360 DP_COLOR_RGBA8888 1 [port 640 360 DP_COLOR_YV12 ROT_0 0 0 0 0]
       0 True False False 0 0 0 0 0,
     mk_case ''a_yuy2_copy'' USER_MIRROR 736 1280 DP_COLOR_YUY2 1 [port 736 1280 DP_COLOR_YUY2 ROT_0 0 0 0 0]
       0 False False False 0 0 0 0 0,
     mk_case ''a_yuy2_up'' USER_MIRROR 736 1280 DP_COLOR_YUY2 1 [port 1104 1920 DP_COLOR_YUY2 ROT_0 0 0 0 0]
       0 False False False 0 0 0 0 0,
     mk_case ''a_yuy2_rot90'' USER_MIRROR 736 1280 DP_COLOR_YUY2 1 [port 1920 1080 DP_COLOR_YUY2 ROT_90 0 0 0 0]
       0 False False False 0 0 0 0 0,
     mk_case ''a_yuy2_from_rgba'' USER_MIRROR 736 1280 DP_COLOR_RGBA8888 1 [port 1920 1080 DP_COLOR_YUY2 ROT_90 0 0 0 0]
       0 False False False 0 0 0 0 0,
     mk_case ''a_mirror_yuy2'' USER_MIRROR 736 1280 DP_COLOR_YUY2 1 [port 1920 1080 DP_COLOR_YUY2 ROT_90 0 0 0 0]
       0 False False False 3 2 3 0 0,
     mk_case ''a_mirror_live'' USER_MIRROR 736 1280 DP_COLOR_RGB565 1 [port 1920 1080 DP_COLOR_RGB565 ROT_90 0 0 0 0]
       0 False False False 3 2 3 0 0,
     mk_case ''a_565_copy'' USER_MIRROR 736 1280 DP_COLOR_RGB565 1 [port 736 1280 DP_COLOR_RGB565 ROT_0 0 0 0 0]
       0 False False False 0 0 0 0 0,
     mk_case ''a_565_rot90'' USER_MIRROR 736 1280 DP_COLOR_RGB565 1 [port 1920 1080 DP_COLOR_RGB565 ROT_90 0 0 0 0]
       0 False False False 0 0 0 0 0,
     mk_case ''a_565_up'' USER_MIRROR 736 1280 DP_COLOR_RGB565 1 [port 1104 1920 DP_COLOR_RGB565 ROT_0 0 0 0 0]
       0 False False False 0 0 0 0 0,
     mk_case ''a_rgba_rot90_up'' USER_MIRROR 736 1280 DP_COLOR_RGBA8888 1 [port 1920 1080 DP_COLOR_RGBA8888 ROT_90 0 0 0 0]
       0 False False False 0 0 0 0 0,
     mk_case ''a_mirror'' USER_MIRROR 1280 720 DP_COLOR_RGBA8888 1 [port 1920 1080 DP_COLOR_RGBA8888 ROT_0 0 0 0 0]
       0 False False False 3 2 0 0 0,
     mk_case ''a_mirror_yuv'' USER_MIRROR 1280 720 DP_COLOR_RGBA8888 1 [port 1920 1080 DP_COLOR_YV12 ROT_0 0 0 0 0]
       0 False False False 3 2 0 0 0,
     mk_case ''a_mirror_ring'' USER_MIRROR 1280 720 DP_COLOR_RGBA8888 1 [port 1920 1080 DP_COLOR_RGBA8888 ROT_0 0 0 0 0]
       0 False False False 3 2 3 0 0,
     mk_case ''a_mirror_ring_yuv'' USER_MIRROR 1280 720 DP_COLOR_RGBA8888 1 [port 1920 1080 DP_COLOR_YV12 ROT_0 0 0 0 0]
       0 False False False 3 2 3 0 0,
     mk_case ''a_mirror_ring6'' USER_MIRROR 1280 720 DP_COLOR_RGBA8888 1 [port 1920 1080 DP_COLOR_RGBA8888 ROT_0 0 0 0 0]
       0 False False False 6 2 3 0 0,
     mk_case ''a_mirror_sec'' USER_MIRROR 1280 720 DP_COLOR_RGBA8888 1 [port 1920 1080 DP_COLOR_RGBA8888 ROT_0 0 0 0 0]
       0 False True False 3 2 0 1 1,
     mk_case ''a_mirror_sec_src'' USER_MIRROR 1280 720 DP_COLOR_RGBA8888 1 [port 1920 1080 DP_COLOR_RGBA8888 ROT_0 0 0 0 0]
       0 False True False 3 2 0 1 0,
     mk_case ''a_mirror_ring_sec'' USER_MIRROR 1280 720 DP_COLOR_RGBA8888 1 [port 1920 1080 DP_COLOR_RGBA8888 ROT_0 0 0 0 0]
       0 False True False 3 2 3 1 1,
     mk_case ''a_sc2'' USER_SC2 640 360 DP_COLOR_RGBA8888 1 [port 640 360 DP_COLOR_YV12 ROT_0 0 0 0 0]
       0 False True False 0 0 0 0 0,
     mk_case ''a_sc2_down'' USER_SC2 1280 720 DP_COLOR_RGBA8888 1 [port 640 360 DP_COLOR_YV12 ROT_0 0 0 0 0]
       0 False True False 0 0 0 0 0,
     mk_case ''a_sc2_rot90'' USER_SC2 640 360 DP_COLOR_RGBA8888 1 [port 360 640 DP_COLOR_YV12 ROT_90 0 0 0 0]
       0 False True False 0 0 0 0 0,
     mk_case ''a_mt'' USER_MULTI 640 360 DP_COLOR_RGBA8888 1 [port 640 360 DP_COLOR_YV12 ROT_0 0 0 0 0]
       0 False True True 0 0 0 0 0,
     mk_case ''a_mt_down'' USER_MULTI 1280 720 DP_COLOR_RGBA8888 1 [port 640 360 DP_COLOR_YV12 ROT_0 0 0 0 0]
       0 False True True 0 0 0 0 0,
     mk_case ''a_mt_rot90'' USER_MULTI 640 360 DP_COLOR_RGBA8888 1 [port 360 640 DP_COLOR_YV12 ROT_90 0 0 0 0]
       0 False True True 0 0 0 0 0,
     mk_case ''a_mt_crop'' USER_MULTI 1280 720 DP_COLOR_RGBA8888 1 [port 640 360 DP_COLOR_YV12 ROT_0 320 180 640 360]
       0 False True True 0 0 0 0 0,
     mk_case ''a_mt_rgb565'' USER_MULTI 640 360 DP_COLOR_RGBA8888 1 [port 640 360 DP_COLOR_RGB565 ROT_0 0 0 0 0]
       0 False True True 0 0 0 0 0,
     mk_case ''a_mt_two'' USER_MULTI 1280 720 DP_COLOR_RGBA8888 2 [port 640 360 DP_COLOR_YV12 ROT_0 0 0 0 0, port 640 360 DP_COLOR_YV12 ROT_0 0 0 0 0]
       0 False True True 0 0 0 0 0,
     mk_case ''a_two_r0_p1'' USER_PRIMARY 640 360 DP_COLOR_RGBA8888 2 [port 360 640 DP_COLOR_YV12 ROT_90 0 0 0 0, port 640 360 DP_COLOR_YV12 ROT_0 0 0 0 0]
       0 False True False 0 0 0 0 0,
     mk_case ''a_two_bothrot'' USER_PRIMARY 640 360 DP_COLOR_RGBA8888 2 [port 360 640 DP_COLOR_YV12 ROT_90 0 0 0 0, port 360 640 DP_COLOR_YV12 ROT_270 0 0 0 0]
       0 False True False 0 0 0 0 0,
     mk_case ''a_two_1to1'' USER_PRIMARY 640 360 DP_COLOR_RGBA8888 2 [port 640 360 DP_COLOR_YV12 ROT_0 0 0 0 0, port 640 360 DP_COLOR_NV12 ROT_0 0 0 0 0]
       0 False True False 0 0 0 0 0,
     mk_case ''a_two_sc2'' USER_SC2 640 360 DP_COLOR_RGBA8888 2 [port 640 360 DP_COLOR_YV12 ROT_0 0 0 0 0, port 640 360 DP_COLOR_YV12 ROT_0 0 0 0 0]
       0 False True False 0 0 0 0 0,
     mk_case ''a_two_sc2_rot'' USER_SC2 640 360 DP_COLOR_RGBA8888 2 [port 640 360 DP_COLOR_YV12 ROT_0 0 0 0 0, port 360 640 DP_COLOR_YV12 ROT_90 0 0 0 0]
       0 False True False 0 0 0 0 0,
     mk_case ''a_two_sc2_sz'' USER_SC2 1280 720 DP_COLOR_RGBA8888 2 [port 1280 720 DP_COLOR_YV12 ROT_0 0 0 0 0, port 640 360 DP_COLOR_YV12 ROT_0 0 0 0 0]
       0 False True False 0 0 0 0 0,
     mk_case ''a_two_sc2_fmt'' USER_SC2 640 360 DP_COLOR_RGBA8888 2 [port 640 360 DP_COLOR_YV12 ROT_0 0 0 0 0, port 640 360 DP_COLOR_RGBA8888 ROT_0 0 0 0 0]
       0 False True False 0 0 0 0 0,
     mk_case ''a_two_sc2_crop'' USER_SC2 1280 720 DP_COLOR_RGBA8888 2 [port 640 360 DP_COLOR_YV12 ROT_0 0 0 640 360, port 640 360 DP_COLOR_YV12 ROT_0 640 360 640 360]
       0 False True False 0 0 0 0 0]"

record QCase =
  q_name :: string
  q_sw :: u32
  q_sh :: u32
  q_dw :: u32
  q_dh :: u32
  q_rot :: u32
  q_sfmt :: u32
  q_dfmt :: u32

definition qcase :: "string \<Rightarrow> u32 \<Rightarrow> u32 \<Rightarrow> u32 \<Rightarrow> u32 \<Rightarrow> u32 \<Rightarrow> u32 \<Rightarrow> u32 \<Rightarrow> QCase" where
  "qcase nm a b c d r f g =
     \<lparr>q_name = nm, q_sw = a, q_sh = b, q_dw = c, q_dh = d, q_rot = r, q_sfmt = f, q_dfmt = g\<rparr>"

definition qcases :: "QCase list" where
  "qcases =
    [qcase ''q_1to1'' 640 360 (640) (360) ROT_0 DP_COLOR_RGBA8888 DP_COLOR_YV12,
     qcase ''q_down2x'' 1280 720 (640) (360) ROT_0 DP_COLOR_RGBA8888 DP_COLOR_YV12,
     qcase ''q_down32x'' 1280 720 (40) (22) ROT_0 DP_COLOR_RGBA8888 DP_COLOR_YV12,
     qcase ''q_up8x'' 160 90 (1280) (720) ROT_0 DP_COLOR_RGBA8888 DP_COLOR_YV12,
     qcase ''q_up64x'' 160 90 (1280*8) (720*8) ROT_0 DP_COLOR_RGBA8888 DP_COLOR_YV12,
     qcase ''q_rot90'' 640 360 (360) (640) ROT_90 DP_COLOR_RGBA8888 DP_COLOR_YV12,
     qcase ''q_rot270'' 640 360 (360) (640) ROT_270 DP_COLOR_RGBA8888 DP_COLOR_YV12,
     qcase ''q_huge_src'' 4096 4096 (1280) (720) ROT_0 DP_COLOR_RGBA8888 DP_COLOR_YV12,
     qcase ''q_huge_dst'' 640 360 (8192) (4096) ROT_0 DP_COLOR_RGBA8888 DP_COLOR_YV12,
     qcase ''q_zero_dst'' 640 360 (0) (0) ROT_0 DP_COLOR_RGBA8888 DP_COLOR_YV12,
     qcase ''q_565_565'' 640 360 (640) (360) ROT_0 DP_COLOR_RGB565 DP_COLOR_RGB565,
     qcase ''q_yv12_rgba'' 640 360 (640) (360) ROT_0 DP_COLOR_YV12 DP_COLOR_RGBA8888]"

section \<open>One case\<close>

text \<open>\<open>create_job\<close> passes the two variables by reference: the answer holds their values afterwards, which a call
  that fails may leave as they were.\<close>

definition create_job :: "dp_env \<Rightarrow> u32 \<Rightarrow> int \<Rightarrow> dp_call list \<Rightarrow> (int \<times> u32 \<times> int) \<times> dp_call list" where
  "create_job env i f h =
     (let (rc, i, f) = d_createJob env h i f in ((rc, i, f), h @ [D_createJob i f]))"

definition close_fence :: "int \<Rightarrow> dp_call list \<Rightarrow> dp_call list" where
  "close_fence f h = (if 0 \<le> f then h @ [D_close f] else h)"

definition ring_of :: "Case \<Rightarrow> nat" where
  "ring_of k = nat (if dstRing k > 1 then if dstRing k > DST_RING_MAX then DST_RING_MAX else dstRing k else 1)"

definition frames_of :: "Case \<Rightarrow> nat" where
  "frames_of k = nat (if frames k > 0 then frames k else 1)"

definition dst_planes :: "Case \<Rightarrow> nat \<Rightarrow> Planes" where
  "dst_planes k p = (let o' = ports k ! p in planes_for (dfmt o') (dw o') (dh o'))"

text \<open>The ports and slots in the order the nested loops visit them; \<^verbatim>\<open>dst*[p][r]\<close> is entry \<open>p * ring + r\<close> of the
  list of buffers.\<close>

definition port_slots :: "Case \<Rightarrow> (nat \<times> nat) list" where
  "port_slots k = concat (map (\<lambda>p. map (\<lambda>r. (p, r)) [0..<ring_of k]) [0..<nports k])"

fun alloc_dsts :: "dp_env \<Rightarrow> Case \<Rightarrow> (nat \<times> nat) list \<Rightarrow> dp_call list \<Rightarrow> ion_buf list option \<times> dp_call list" where
  "alloc_dsts env k [] h = (Some [], h)"
| "alloc_dsts env k ((p, r) # prs) h =
     (let n = total_of (dst_planes k p); (b, h) = alloc_ion env n h in
      case b of
        None \<Rightarrow> (None, h @ [D_print (R_alloc_fail (name k) (Some (p, r)))])
      | Some b \<Rightarrow>
          let (bs, h) = alloc_dsts env k prs (h @ [D_sentinel (b_va b) n]) in
          (map_option (Cons b) bs, h))"

definition extra_jobs :: "dp_env \<Rightarrow> nat \<Rightarrow> dp_call list \<Rightarrow> dp_call list" where
  "extra_jobs env n h =
     fold (\<lambda>_ h. let ((rc, i, f), h) = create_job env 0 (-1) h in close_fence f h) [0..<n] h"

definition config_src :: "dp_env \<Rightarrow> Case \<Rightarrow> ion_buf \<Rightarrow> dp_call list \<Rightarrow> int list \<times> dp_call list" where
  "config_src env k src h =
     (let sp = planes_for (sfmt k) (sw k) (sh k);
          (sb, h) = (if srcSecure k \<noteq> 0 then call env (C_SrcHandles (b_handle src) (psize sp) (pn sp)) h
                     else call env (C_SrcFd (b_fd src) (psize sp) (pn sp)) h);
          (sc, h) = call env (C_SrcConfig (sw k) (sh k) (yPitch sp) (uvPitch sp) (sfmt k) (srcSecure k)) h
      in ([sb, sc], h))"

definition config_port :: "dp_env \<Rightarrow> Case \<Rightarrow> ion_buf list \<Rightarrow> nat \<Rightarrow> nat \<Rightarrow> int list \<times> dp_call list \<Rightarrow> int list \<times> dp_call list" where
  "config_port env k ds slot p r =
     (let (st, h) = r; o' = ports k ! p; dp = dst_planes k p; b = ds ! (p * ring_of k + slot);
          (db, h) = (if dstSecure k \<noteq> 0 then call env (C_DstHandles p (b_handle b) (psize dp) (pn dp)) h
                     else call env (C_DstFd p (b_fd b) (psize dp) (pn dp)) h);
          useCrop = cropW o' \<noteq> 0;
          srcCrop = \<lparr>r_x = if useCrop then cropX o' else 0, r_y = if useCrop then cropY o' else 0,
                     r_w = if useCrop then cropW o' else sw k, r_h = if useCrop then cropH o' else sh k\<rparr>;
          (sk, h) = call env (C_SrcCrop p srcCrop) h;
          (dc, h) = call env (C_DstConfig p (dw o') (dh o') (yPitch dp) (uvPitch dp) (dfmt o')
                      \<lparr>r_x = 0, r_y = 0, r_w = dw o', r_h = dh o'\<rparr> (dstSecure k)) h;
          (so, h) = call env (C_Orientation p (rot o')) h;
          (pq, h) = (if pqScenario k \<noteq> 0 then call env (C_PQ p (of_nat (pqScenario k)) 0x1234) h else (0, h))
      in (map2 or st [db, dc, sk, so, pq], h))"

definition dump_dst :: "dp_env \<Rightarrow> string option \<Rightarrow> string \<Rightarrow> nat \<Rightarrow> u32 \<Rightarrow> dp_call list \<Rightarrow> dp_call list" where
  "dump_dst env tag kase p n h =
     (case tag of
        None \<Rightarrow> h
      | Some t \<Rightarrow>
          let pth = snprintf_buf 192 (''/data/local/tmp/dst_'' @ kase @ ''_p'' @ dec p @ ''.'' @ t @ ''.bin'') in
          if d_fopen env h pth then h @ [D_dump pth n] else h)"

text \<open>The checksums of every port and slot, and how many of them hold nothing but the sentinel.\<close>

fun scan_ports :: "dp_env \<Rightarrow> string option \<Rightarrow> Case \<Rightarrow> ion_buf list \<Rightarrow> (nat \<times> nat) list \<Rightarrow> dst_report list \<times> nat \<Rightarrow>
    dp_call list \<Rightarrow> (dst_report list \<times> nat) option \<times> dp_call list" where
  "scan_ports env tag k ds [] acc h = (Some acc, h)"
| "scan_ports env tag k ds ((p, r) # prs) acc h =
     (let dp = dst_planes k p; n = total_of dp; b = ds ! (p * ring_of k + r) in
      case scan_dst (d_mem env h (b_va b)) dp of
        None \<Rightarrow> (None, h)
      | Some (sums, un) \<Rightarrow>
          scan_ports env tag k ds prs
            (fst acc @ [\<lparr>dr_port = p, dr_slot = r, dr_sums = sums, dr_untouched = un, dr_size = n\<rparr>],
             if un = n then snd acc + 1 else snd acc)
            (dump_dst env tag (name k) p n h))"

text \<open>One frame: the job is created, configured and submitted; \<open>su\<close> and \<open>spare\<close> are \<^verbatim>\<open>setUser\<close>'s result and the
  spare job. The state is the job, its fence and \<^verbatim>\<open>cx\<close>.\<close>

definition submit_frame :: "dp_env \<Rightarrow> Case \<Rightarrow> int \<Rightarrow> u32 \<Rightarrow> ion_buf \<Rightarrow> ion_buf list \<Rightarrow> nat \<Rightarrow>
    u32 \<times> int \<times> int \<Rightarrow> dp_call list \<Rightarrow> (int \<times> u32 \<times> int \<times> int) \<times> dp_call list" where
  "submit_frame env k su spare src ds f jf h =
     (let (jobId, fence, cx) = jf;
          h = extra_jobs env (extraJobsPerFrame k) h;
          h = close_fence fence h;
          ((cj, jobId, fence), h) = create_job env jobId (if 0 \<le> fence then -1 else fence) h;
          (cx, h) = (if cancelExtra k then call env (C_CancelJob spare) h else (cx, h));
          (cb, h) = call env (C_ConfigBegin jobId) h;
          (s, h) = config_src env k src h;
          (st, h) = fold (config_port env k ds (f mod ring_of k)) [0..<nports k] ([0, 0, 0, 0, 0], h);
          (ce, h) = call env C_ConfigEnd h;
          h = h @ [D_print (R_setup (name k) ([su, cj, cx, cb] @ s @ st @ [ce]))];
          (iv, h) = call env C_Invalidate h
      in ((iv, jobId, fence, cx), h))"

text \<open>The rest of a frame; the last one waits for the fence and reads the destinations back. \<open>None\<close> is a read
  past a buffer.\<close>

definition finish_frame :: "dp_env \<Rightarrow> string option \<Rightarrow> Case \<Rightarrow> ion_buf list \<Rightarrow> nat \<Rightarrow> int \<Rightarrow> int \<Rightarrow> dp_call list \<Rightarrow>
    dp_call list option" where
  "finish_frame env tag k ds f iv fence h =
     (if f + 1 < frames_of k then
        Some ((if 0 \<le> fence then h @ [D_wait fence] else h) @ [D_print (R_frame f iv)])
      else
        let (fw, h) = (if 0 \<le> fence then (d_wait env h fence, h @ [D_wait fence]) else (-2, h));
            (rep, h) = scan_ports env tag k ds (port_slots k) ([], 0) h
        in
          case rep of
            None \<Rightarrow> None
          | Some (rs, starved) \<Rightarrow>
              Some (h @ [D_print (R_result iv fence fw rs)] @
                (if starved \<noteq> 0 \<and> iv = 0 then [D_print (R_starved starved)] else [])))"

definition run_frame :: "dp_env \<Rightarrow> string option \<Rightarrow> Case \<Rightarrow> int \<Rightarrow> u32 \<Rightarrow> ion_buf \<Rightarrow> ion_buf list \<Rightarrow> nat \<Rightarrow>
    u32 \<times> int \<times> int \<Rightarrow> dp_call list \<Rightarrow> ((u32 \<times> int \<times> int) \<times> dp_call list) option" where
  "run_frame env tag k su spare src ds f jf h =
     (case submit_frame env k su spare src ds f jf h of
        ((iv, jobId, fence, cx), h) \<Rightarrow> map_option (Pair (jobId, fence, cx)) (finish_frame env tag k ds f iv fence h))"

fun run_frames :: "dp_env \<Rightarrow> string option \<Rightarrow> Case \<Rightarrow> int \<Rightarrow> u32 \<Rightarrow> ion_buf \<Rightarrow> ion_buf list \<Rightarrow> nat list \<Rightarrow>
    u32 \<times> int \<times> int \<Rightarrow> dp_call list \<Rightarrow> ((u32 \<times> int \<times> int) \<times> dp_call list) option" where
  "run_frames env tag k su spare src ds [] jf h = Some (jf, h)"
| "run_frames env tag k su spare src ds (f # fs) jf h =
     (case run_frame env tag k su spare src ds f jf h of
        None \<Rightarrow> None
      | Some (jf, h) \<Rightarrow> run_frames env tag k su spare src ds fs jf h)"

definition run_case :: "dp_env \<Rightarrow> string option \<Rightarrow> Case \<Rightarrow> dp_call list \<Rightarrow> dp_call list option" where
  "run_case env tag k h =
     (let sp = planes_for (sfmt k) (sw k) (sh k);
          srcSize = total_of sp;
          (src, h) = alloc_ion env srcSize h
      in
        case src of
          None \<Rightarrow> Some (h @ [D_print (R_alloc_fail (name k) None)])
        | Some src \<Rightarrow>
            let (dsts, h) = alloc_dsts env k (port_slots k) (h @ [D_pattern (b_va src) srcSize]) in
            case dsts of
              None \<Rightarrow> Some h
            | Some ds \<Rightarrow>
                let (su, h) = call env (C_SetUser (user k)) (h @ [D_construct]);
                    ((rc, spareId, spareFence), h) =
                      (if cancelExtra k then create_job env 0 (-1) h else ((0, 0, -1), h))
                in
                  case run_frames env tag k su spareId src ds [0..<frames_of k] (0, -1, 0) h of
                    None \<Rightarrow> None
                  | Some ((jobId, fence, cx), h) \<Rightarrow>
                      Some (close_fence spareFence (close_fence fence h) @ [D_destruct] @ release_buf srcSize src @
                        concat (map2 (\<lambda>(p, r) b. release_buf (total_of (dst_planes k p)) b) (port_slots k) ds)))"

section \<open>The program\<close>

definition run_query :: "dp_env \<Rightarrow> dp_call list \<Rightarrow> dp_call list" where
  "run_query env h =
     h @ map (\<lambda>q. let a = [q_sw q, q_sh q, q_dw q, q_dh q, q_rot q, q_sfmt q, q_dfmt q] in
            D_print (R_query (q_name q) (d_query env True a) (d_query env False a))) qcases"

definition dump_fds :: "dp_env \<Rightarrow> string \<Rightarrow> dp_call list \<Rightarrow> dp_call list" where
  "dump_fds env tag h =
     (case d_fds env h of
        None \<Rightarrow> h
      | Some es \<Rightarrow>
          h @ [D_print (R_fds tag
            (concat (map (\<lambda>(n, t). if n \<noteq> [] \<and> hd n = CHR ''.'' then []
                       else case t of None \<Rightarrow> [] | Some t \<Rightarrow> [(n, take 255 t)]) es)))])"

text \<open>One round of the loop over the cases: whether the warning was given, and the calls. An index outside
  the table is undefined behaviour, \<open>None\<close>.\<close>

definition sweep_case :: "dp_env \<Rightarrow> string list \<Rightarrow> int \<Rightarrow> bool \<times> dp_call list \<Rightarrow> (bool \<times> dp_call list) option" where
  "sweep_case env argv c r =
     (if c < 0 \<or> int (length cases) \<le> c then None
      else
        let (warned, h) = r; k = cases ! nat c in
        if wedges k \<and> arg env argv 5 0 = 0 then Some (warned, h @ [D_print (R_skipped_wedges (name k))])
        else
          let w = unreachable k \<and> arg env argv 4 0 \<noteq> 0 \<and> \<not> warned;
              warned = (warned \<or> w);
              h = (if w then h @ [D_print R_warn_leak] else h)
          in
            if unreachable k \<and> arg env argv 4 0 = 0 then Some (warned, h @ [D_print (R_skipped_unreachable (name k))])
            else
              case run_case env (if 7 < length argv then Some (argv ! 7) else None) k h of
                None \<Rightarrow> None
              | Some h \<Rightarrow> Some (warned, if arg env argv 6 0 \<noteq> 0 then dump_fds env (name k) h else h))"

abbreviation sweep :: "dp_env \<Rightarrow> string list \<Rightarrow> int list \<Rightarrow> bool \<times> dp_call list \<Rightarrow> (bool \<times> dp_call list) option" where
  "sweep env argv \<equiv> for_cases (sweep_case env argv)"

text \<open>\<open>argv\<close> includes the program's name. The sum of the first two arguments may overflow an \<^verbatim>\<open>int\<close>, which is
  undefined behaviour.\<close>

definition dpasync_main :: "dp_env \<Rightarrow> string list \<Rightarrow> (int \<times> dp_call list) option" where
  "dpasync_main env argv =
     (let from = arg env argv 1 0; cnt = arg env argv 2 (-1); h = [D_ion_open (d_ion env)] in
      if d_ion env < 0 then Some (1, h @ [D_print R_no_ion])
      else
        if 0 \<le> cnt \<and> 2 ^ 31 \<le> from + cnt then None
        else
          case sweep env argv (case_range from cnt (length cases)) (False, h) of
            None \<Rightarrow> None
          | Some (_, h) \<Rightarrow> Some (0, if arg env argv 3 1 \<noteq> 0 then run_query env h else h))"

end
