(* ===== verification/Dp_Async_Props.thy ===== *)
theory Dp_Async_Props
  imports Dp_Async
begin

text \<open>
  What the asynchronous sweep guarantees: it stays inside its table and its buffers, gives back every descriptor,
  fence and mapping, never runs the multi-threaded user unasked, and calls out a blit that wrote nothing.
\<close>


section \<open>Descriptors and mappings\<close>

text \<open>The descriptor a fence variable holds.\<close>

definition fence_fd :: "int \<Rightarrow> int multiset" where
  "fence_fd f = (if 0 \<le> f then {#f#} else {#})"

lemma live_create: "live F M h \<Longrightarrow> create_job env i f h = ((rc, i', f'), h') \<Longrightarrow> live (F + fence_fd f') M h'"
  by (auto simp: live_def create_job_def fence_fd_def split: prod.splits)

lemma live_close: "live (F + fence_fd f) M h \<Longrightarrow> live F M (close_fence f h)"
  by (simp add: live_def close_fence_def fence_fd_def)

lemma live_extra: "live F M h \<Longrightarrow> live F M (extra_jobs env n h)"
proof -
  have "live F M (let ((rc, i, f), h) = create_job env 0 (-1) h in close_fence f h)" if "live F M h" for h
    using live_create [OF that, of env 0 "-1"] live_close
    by (cases "create_job env 0 (-1) h") (auto split: prod.splits)
  then have "live F M (fold (\<lambda>_ h. let ((rc, i, f), h) = create_job env 0 (-1) h in close_fence f h) xs h)" if "live F M h" for xs :: "nat list" and h
    using that by (induction xs arbitrary: h) auto
  then show "live F M h \<Longrightarrow> live F M (extra_jobs env n h)" by (simp add: extra_jobs_def)
qed

lemma live_dsts: "live F M h \<Longrightarrow> alloc_dsts env k prs h = (Some ds, h') \<Longrightarrow>
    live (F + mset (map b_fd ds)) (M + mset (map b_va ds)) h' \<and> length ds = length prs"
proof (induction prs arbitrary: h F M ds)
  case (Cons pr prs)
  obtain p r where pr: "pr = (p, r)" by (cases pr)
  obtain b h1 where a: "alloc_ion env (total_of (dst_planes k p)) h = (Some b, h1)"
    using Cons.prems(2) by (auto simp: pr Let_def split: prod.splits option.splits)
  let ?h2 = "h1 @ [D_sentinel (b_va b) (total_of (dst_planes k p))]"
  obtain ds' where d: "alloc_dsts env k prs ?h2 = (Some ds', h')" "ds = b # ds'"
    using Cons.prems(2) by (auto simp: pr Let_def a split: prod.splits)
  have "live (F + {#b_fd b#}) (M + {#b_va b#}) ?h2"
    by (rule live_neutral [OF live_alloc [OF Cons.prems(1) a]]) simp
  from Cons.IH [OF this d(1)] show ?case by (simp add: d(2) ac_simps)
qed simp

lemma config_src_adds: "adds cfg h (snd (config_src env k src h))"
  by (simp add: config_src_def Let_def case_prod_beta call_def adds_append)

lemma config_port_adds: "adds cfg (snd r) (snd (config_port env k ds sl p r))"
  by (simp add: config_port_def Let_def case_prod_beta call_def adds_append)

lemma config_ports_adds: "adds cfg (snd r) (snd (fold (config_port env k ds sl) ps r))"
proof (induction ps arbitrary: r)
  case (Cons p ps)
  show ?case using adds_trans [OF config_port_adds Cons.IH] by simp
qed simp

lemma dump_dst_adds: "adds cfg h (dump_dst env tag nm p n h)"
  by (simp add: dump_dst_def Let_def split: option.split)

lemma scan_ports_adds: "adds cfg h (snd (scan_ports env tag k ds prs acc h))"
proof (induction prs arbitrary: acc h)
  case (Cons pr prs)
  show ?case using adds_trans [OF dump_dst_adds Cons.IH]
    by (cases pr) (auto simp: Let_def split: option.splits)
qed simp

lemma submit_adds:
  assumes "submit_frame env k su spare src ds f (jobId, fence, cx) h = ((iv, j', f', cx'), h')"
  shows "\<exists>rc h1. create_job env jobId (if 0 \<le> fence then -1 else fence)
      (close_fence fence (extra_jobs env (extraJobsPerFrame k) h)) = ((rc, j', f'), h1) \<and> adds cfg h1 h'"
proof -
  obtain rc j1 f1 h1 where c: "create_job env jobId (if 0 \<le> fence then -1 else fence)
      (close_fence fence (extra_jobs env (extraJobsPerFrame k) h)) = ((rc, j1, f1), h1)" by (metis prod.collapse)
  obtain cx2 h2 where x: "(if cancelExtra k then call env (C_CancelJob spare) h1 else (cx, h1)) = (cx2, h2)" by (metis prod.collapse)
  obtain cb h3 where b: "call env (C_ConfigBegin j1) h2 = (cb, h3)" by (metis prod.collapse)
  obtain sc h4 where sc: "config_src env k src h3 = (sc, h4)" by (metis prod.collapse)
  obtain st h5 where st: "fold (config_port env k ds (f mod ring_of k)) [0..<nports k] ([0, 0, 0, 0, 0], h4) = (st, h5)" by (metis prod.collapse)
  obtain ce h6 where ce: "call env C_ConfigEnd h5 = (ce, h6)" by (metis prod.collapse)
  define h7 where "h7 = h6 @ [D_print (R_setup (name k) (su # rc # cx2 # cb # sc @ st @ [ce]))]"
  have i: "call env C_Invalidate h7 = (iv, h')" and e: "j' = j1" "f' = f1"
    using assms by (simp_all add: submit_frame_def Let_def c x b sc st ce h7_def split: prod.splits)
  have "adds cfg h1 h2" using x call_adds [of "C_CancelJob spare" h1 env] by (auto split: if_splits)
  moreover have "adds cfg h2 h3" using call_adds [of "C_ConfigBegin j1" h2 env] by (simp add: b)
  moreover have "adds cfg h3 h4" using config_src_adds [of h3 env k src] by (simp add: sc)
  moreover have "adds cfg h4 h5"
    using config_ports_adds [of "([0, 0, 0, 0, 0], h4)" env k ds "f mod ring_of k" "[0..<nports k]"] by (simp add: st)
  moreover have "adds cfg h5 h6" using call_adds [of C_ConfigEnd h5 env] by (simp add: ce)
  moreover have "adds cfg h6 h7" by (simp add: h7_def)
  moreover have "adds cfg h7 h'" using call_adds [of C_Invalidate h7 env] by (simp add: i)
  ultimately have "adds cfg h1 h'" by (meson adds_trans)
  with c e show ?thesis by blast
qed

lemma finish_adds:
  assumes "finish_frame env tag k ds f iv fence h = Some h'"
  shows "adds cfg h h'"
proof (cases "f + 1 < frames_of k")
  case True
  then show ?thesis using assms by (auto simp: finish_frame_def adds_append)
next
  case False
  obtain fw h1 where fw: "(if 0 \<le> fence then (d_wait env h fence, h @ [D_wait fence]) else (-2, h)) = (fw, h1)" by (metis prod.collapse)
  obtain rep h2 where rep: "scan_ports env tag k ds (port_slots k) ([], 0) h1 = (rep, h2)" by (metis prod.collapse)
  obtain rs sv where e: "h' = h2 @ [D_print (R_result iv fence fw rs)] @ (if sv \<noteq> 0 \<and> iv = 0 then [D_print (R_starved sv)] else [])"
    using assms False by (cases rep) (auto simp: finish_frame_def fw rep split del: if_split)
  have "adds cfg h h1" using fw by (auto split: if_splits)
  moreover have "adds cfg h1 h2" using scan_ports_adds [of h1 env tag k ds "port_slots k" "([], 0)"] by (simp add: rep)
  moreover have "adds cfg h2 h'" unfolding e by (rule adds_append) simp
  ultimately show ?thesis by (meson adds_trans)
qed

lemma frame_split:
  assumes "run_frame env tag k su spare src ds f (jobId, fence, cx) h = Some ((j', f', cx'), h')"
  shows "\<exists>rc h1. create_job env jobId (if 0 \<le> fence then -1 else fence)
      (close_fence fence (extra_jobs env (extraJobsPerFrame k) h)) = ((rc, j', f'), h1) \<and> adds cfg h1 h'"
proof -
  obtain iv j1 f1 c1 h1 where s: "submit_frame env k su spare src ds f (jobId, fence, cx) h = ((iv, j1, f1, c1), h1)"
    by (metis prod.collapse)
  then have e: "j' = j1" "f' = f1" and fin: "finish_frame env tag k ds f iv f1 h1 = Some h'"
    using assms by (auto simp: run_frame_def)
  from submit_adds [OF s] finish_adds [OF fin] e show ?thesis by (meson adds_trans)
qed

lemma live_frame:
  assumes "live (F + fence_fd fence) M h" and "run_frame env tag k su spare src ds f (jobId, fence, cx) h = Some ((j', f', cx'), h')"
  shows "live (F + fence_fd f') M h'"
proof -
  obtain rc h1 where c: "create_job env jobId (if 0 \<le> fence then -1 else fence)
      (close_fence fence (extra_jobs env (extraJobsPerFrame k) h)) = ((rc, j', f'), h1)" and a: "adds cfg h1 h'"
    using frame_split [OF assms(2)] by blast
  have "live (F + fence_fd f') M h1" by (rule live_create [OF live_close [OF live_extra [OF assms(1)]] c])
  then show ?thesis by (rule live_neutral [OF _ adds_mono [OF a cfg_neutral]])
qed

lemma live_frames:
  assumes "live (F + fence_fd fence) M h" and "run_frames env tag k su spare src ds fs (jobId, fence, cx) h = Some ((j', f', cx'), h')"
  shows "live (F + fence_fd f') M h'"
  using assms
proof (induction fs arbitrary: fence jobId cx h)
  case (Cons f fs)
  obtain j1 f1 c1 h1 where r: "run_frame env tag k su spare src ds f (jobId, fence, cx) h = Some ((j1, f1, c1), h1)"
      "run_frames env tag k su spare src ds fs (j1, f1, c1) h1 = Some ((j', f', cx'), h')"
    using Cons.prems(2) by (auto split: prod.splits option.splits)
  show ?case by (rule Cons.IH [OF live_frame [OF Cons.prems(1) r(1)] r(2)])
qed simp

section \<open>No read leaves its buffer\<close>

interpretation async_planes: plane_layout planes_for
proof
  show "pn (planes_for f w h) \<le> 3 \<and> length (psize (planes_for f w h)) = 3" for f w h
    by (simp add: planes_for_def Let_def)
next
  fix f :: u32 and w h :: int assume b: "0 \<le> w" "w \<le> 16384" "0 \<le> h" "h \<le> 16384"
  show "sum_list (map unat (take (pn (planes_for f w h)) (psize (planes_for f w h)))) < 2 ^ 32"
    using plane_sizes [OF b] by (simp add: planes_for_def Let_def take_Cons')
qed

definition case_ok :: "Case \<Rightarrow> bool" where
  "case_ok k \<longleftrightarrow> nports k \<le> length (ports k) \<and> nports k \<le> 4 \<and>
     list_all (\<lambda>o'. 0 \<le> dw o' \<and> dw o' \<le> 16384 \<and> 0 \<le> dh o' \<and> dh o' \<le> 16384) (ports k)"

lemma cases_ok: "list_all case_ok cases"
  by (simp add: cases_def mk_case_def port_def case_ok_def)

lemma scan_dst_total:
  assumes "case_ok k" and "p < nports k"
  shows "\<exists>sums un. scan_dst mem (dst_planes k p) = Some (sums, un) \<and>
    (un = total_of (dst_planes k p) \<longleftrightarrow> (\<forall>i < unat (total_of (dst_planes k p)). mem i = 0xa5))"
proof -
  let ?o = "ports k ! p"
  have "?o \<in> set (ports k)" using assms by (simp add: case_ok_def)
  then have d: "0 \<le> dw ?o" "dw ?o \<le> 16384" "0 \<le> dh ?o" "dh ?o \<le> 16384"
    using assms(1) by (auto simp: case_ok_def list_all_iff)
  have e: "dst_planes k p = planes_for (dfmt ?o) (dw ?o) (dh ?o)" by (simp add: dst_planes_def Let_def)
  show ?thesis using async_planes.scan_exact [OF d e] async_planes.untouched_all [OF d e] by blast
qed

lemma port_slots_bound: "(p, r) \<in> set (port_slots k) \<Longrightarrow> p < nports k \<and> r < ring_of k"
  by (auto simp: port_slots_def)

lemma scan_ports_total:
  assumes "case_ok k" and "\<forall>(p, r) \<in> set prs. p < nports k"
  shows "fst (scan_ports env tag k ds prs acc h) \<noteq> None"
  using assms(2)
proof (induction prs arbitrary: acc h)
  case (Cons pr prs)
  obtain p r where pr: "pr = (p, r)" by (cases pr)
  obtain sums un where "scan_dst (d_mem env h (b_va (ds ! (p * ring_of k + r)))) (dst_planes k p) = Some (sums, un)"
    using scan_dst_total [OF assms(1), of p "d_mem env h (b_va (ds ! (p * ring_of k + r)))"] Cons.prems by (auto simp: pr)
  with Cons show ?case by (simp add: pr Let_def)
qed simp

lemma run_frame_total:
  assumes "case_ok k"
  shows "\<exists>r. run_frame env tag k su spare src ds f jf h = Some r"
proof -
  obtain iv j1 f1 c1 h1 where s: "submit_frame env k su spare src ds f jf h = ((iv, j1, f1, c1), h1)" by (metis prod.collapse)
  have "\<forall>(p, r) \<in> set (port_slots k). p < nports k" using port_slots_bound [of _ _ k] by blast
  from scan_ports_total [OF assms this]
  have "finish_frame env tag k ds f iv f1 h1 \<noteq> None"
    by (auto simp: finish_frame_def Let_def split: prod.splits option.splits) (metis fst_conv option.distinct(1))+
  then show ?thesis by (auto simp: run_frame_def s)
qed

lemma run_frames_total:
  assumes "case_ok k"
  shows "\<exists>r. run_frames env tag k su spare src ds fs jf h = Some r"
proof (induction fs arbitrary: jf h)
  case (Cons f fs)
  obtain jf' h' where "run_frame env tag k su spare src ds f jf h = Some (jf', h')"
    using run_frame_total [OF assms, of env tag su spare src ds f jf h] by (metis prod.collapse)
  with Cons show ?case by simp
qed (blast intro: run_frames.simps(1))

section \<open>Whole cases\<close>

lemma alloc_dsts_fail: "alloc_dsts env k prs h = (None, h') \<Longrightarrow> \<not> allocated h'"
proof (induction prs arbitrary: h)
  case (Cons pr prs)
  then show ?case
    by (cases pr) (auto simp: Let_def allocated_def split: prod.splits option.splits)
qed simp

lemma live_release:
  assumes "live (F + mset (map b_fd ds)) (M + mset (map b_va ds)) h" and "length ds = length prs"
  shows "live F M (h @ concat (map2 (\<lambda>(p, r) b. release_buf (g p) b) prs ds))"
  using assms(2,1)
proof (induction ds prs arbitrary: h rule: list_induct2)
  case (Cons b ds pr prs)
  have "live ((F + mset (map b_fd ds)) + {#b_fd b#}) ((M + mset (map b_va ds)) + {#b_va b#}) h"
    using Cons.prems by simp
  from Cons.IH [OF live_release_buf [OF this, of "g (fst pr)"]] show ?case by (simp add: case_prod_beta)
qed simp

lemma live_spare: "live F M h \<Longrightarrow> (if c then create_job env i (-1) h else ((0, 0, -1), h)) = ((rc, i', f'), h') \<Longrightarrow>
    live (F + fence_fd f') M h'"
  using live_create [of F M h env i "-1" rc i' f' h'] by (auto simp: fence_fd_def split: if_splits)

text \<open>A case only appends to the history, the only user it sets is its own, and it reports a failed allocation only
  when one failed (\<open>a\<close>).\<close>

fun sets_only :: "bool \<Rightarrow> u32 \<Rightarrow> dp_call \<Rightarrow> bool" where
  "sets_only a u (D_stream (C_SetUser v)) = (v = u)"
| "sets_only a u (D_print (R_alloc_fail s x)) = a"
| "sets_only a u (D_print (R_bind_fail s t)) = a"
| "sets_only a u _ = True"

lemma ion_works_dsts: "ion_works env \<Longrightarrow> fst (alloc_dsts env k prs h) \<noteq> None"
proof (induction prs arbitrary: h)
  case (Cons pr prs)
  obtain p r where pr: "pr = (p, r)" by (cases pr)
  obtain b h1 where "alloc_ion env (total_of (dst_planes k p)) h = (Some b, h1)"
    using ion_works_alloc [OF Cons.prems, of "total_of (dst_planes k p)" h] by (metis option.exhaust prod.collapse)
  with Cons show ?case by (simp add: pr Let_def case_prod_beta)
qed simp

lemma cfg_sets_only: "cfg c \<Longrightarrow> sets_only a u c"
proof (cases c)
  fix x assume "cfg c" "c = D_stream x"
  then show ?thesis by (cases x) simp_all
next
  fix x assume "cfg c" "c = D_print x"
  then show ?thesis by (cases x) simp_all
qed simp_all

lemma sets_only_adds: "adds cfg h h' \<Longrightarrow> adds (sets_only a u) h h'"
  by (erule adds_mono) (rule cfg_sets_only)

lemma alloc_ion_adds: "adds (sets_only a u) h (snd (alloc_ion env n h))"
  by (auto simp: alloc_ion_def Let_def adds_append split: option.split)

lemma alloc_dsts_adds: "adds (sets_only (\<not> ion_works env) u) h (snd (alloc_dsts env k prs h))"
proof (induction prs arbitrary: h)
  case (Cons pr prs)
  let ?u = "sets_only (\<not> ion_works env) u"
  obtain p r where pr: "pr = (p, r)" by (cases pr)
  let ?n = "total_of (dst_planes k p)"
  obtain b h1 where a: "alloc_ion env ?n h = (b, h1)" by (metis prod.collapse)
  have h1: "adds ?u h h1" using alloc_ion_adds [of _ u h env ?n] by (simp add: a)
  show ?case
  proof (cases b)
    case None
    then have "\<not> ion_works env" using ion_works_alloc [of env ?n h] a by auto
    then show ?thesis using adds_trans [OF h1 adds_snoc] None by (simp add: pr Let_def a)
  next
    case (Some b')
    have "adds ?u h (h1 @ [D_sentinel (b_va b') ?n])" using adds_trans [OF h1 adds_snoc] by simp
    from adds_trans [OF this Cons.IH] Some show ?thesis by (simp add: pr Let_def a case_prod_beta)
  qed
qed simp

lemma create_job_adds: "adds (sets_only a u) h (snd (create_job env i f h))"
  by (simp add: create_job_def Let_def case_prod_beta)

lemma close_fence_adds: "adds (sets_only a u) h (close_fence f h)"
  by (simp add: close_fence_def)

lemma extra_jobs_adds: "adds (sets_only a u) h (extra_jobs env n h)"
  unfolding extra_jobs_def
  by (rule adds_fold) (use adds_trans [OF create_job_adds close_fence_adds] in \<open>simp add: case_prod_beta\<close>)

lemma run_frame_adds:
  assumes "run_frame env tag k su spare src ds f jf h = Some (jf', h')"
  shows "adds (sets_only a u) h h'"
proof -
  obtain jobId fence cx where jf: "jf = (jobId, fence, cx)" by (cases jf)
  obtain j' f' cx' where jf': "jf' = (j', f', cx')" by (cases jf')
  let ?h = "close_fence fence (extra_jobs env (extraJobsPerFrame k) h)" and ?f = "if 0 \<le> fence then -1 else fence"
  obtain rc h1 where c: "create_job env jobId ?f ?h = ((rc, j', f'), h1)" and cf: "adds cfg h1 h'"
    using frame_split [OF assms [unfolded jf jf']] by blast
  have "adds (sets_only a u) ?h h1" using create_job_adds [of a u ?h env jobId ?f] by (simp add: c)
  then show ?thesis using sets_only_adds [OF cf] extra_jobs_adds close_fence_adds by (meson adds_trans)
qed

lemma run_frames_adds:
  "run_frames env tag k su spare src ds fs jf h = Some (jf', h') \<Longrightarrow> adds (sets_only a u) h h'"
proof (induction fs arbitrary: jf h)
  case (Cons f fs)
  then show ?case by (auto split: option.splits dest!: run_frame_adds intro: adds_trans)
qed simp


text \<open>How a case runs: an allocation fails, or everything is allocated, the frames run and everything is released.\<close>

definition release_all :: "Case \<Rightarrow> ion_buf \<Rightarrow> ion_buf list \<Rightarrow> dp_call list" where
  "release_all k src ds = release_buf (total_of (planes_for (sfmt k) (sw k) (sh k))) src @
     concat (map2 (\<lambda>(p, r) b. release_buf (total_of (dst_planes k p)) b) (port_slots k) ds)"

lemma run_case_parts:
  assumes r: "run_case env tag k h = Some h'"
  obtains (Fail) "\<not> allocated h'" "\<not> ion_works env" "adds (sets_only (\<not> ion_works env) (user k)) h h'"
  | (Run) src h1 ds h2 su rc sid sf h4 j f c h5
    where "alloc_ion env (total_of (planes_for (sfmt k) (sw k) (sh k))) h = (Some src, h1)"
      "alloc_dsts env k (port_slots k) (h1 @ [D_pattern (b_va src) (total_of (planes_for (sfmt k) (sw k) (sh k)))]) = (Some ds, h2)"
      "(if cancelExtra k then create_job env 0 (-1) (h2 @ [D_construct, D_stream (C_SetUser (user k))])
        else ((0, 0, -1), h2 @ [D_construct, D_stream (C_SetUser (user k))])) = ((rc, sid, sf), h4)"
      "run_frames env tag k su sid src ds [0..<frames_of k] (0, -1, 0) h4 = Some ((j, f, c), h5)"
      "h' = close_fence sf (close_fence f h5) @ D_destruct # release_all k src ds"
proof -
  let ?n = "total_of (planes_for (sfmt k) (sw k) (sh k))" and ?u = "sets_only (\<not> ion_works env) (user k)"
  obtain so h1 where al: "alloc_ion env ?n h = (so, h1)" by (metis prod.collapse)
  have a1: "adds ?u h h1" using alloc_ion_adds [of _ "user k" h env ?n] by (simp add: al)
  show ?thesis
  proof (cases so)
    case None
    then have "h' = h1 @ [D_print (R_alloc_fail (name k) None)]" using r by (simp add: run_case_def al)
    moreover have "\<not> ion_works env" using ion_works_alloc [of env ?n h] al None by auto
    ultimately show ?thesis using Fail adds_trans [OF a1 adds_snoc] by (simp add: allocated_def)
  next
    case (Some src)
    let ?h = "h1 @ [D_pattern (b_va src) ?n]"
    obtain dso h2 where ad: "alloc_dsts env k (port_slots k) ?h = (dso, h2)" by (metis prod.collapse)
    have "adds ?u h ?h" using adds_trans [OF a1 adds_snoc] by simp
    from adds_trans [OF this alloc_dsts_adds, of k "port_slots k"] have a2: "adds ?u h h2" by (simp add: ad)
    show ?thesis
    proof (cases dso)
      case None
      then have "h' = h2" using r Some by (simp add: run_case_def al ad)
      moreover have "\<not> ion_works env" using ion_works_dsts [of env k "port_slots k" ?h] ad None by auto
      ultimately show ?thesis using Fail a2 alloc_dsts_fail [of env k "port_slots k" ?h h2] ad None by simp
    next
      case (Some ds)
      obtain rc sid sf h4 where sp: "(if cancelExtra k then create_job env 0 (-1) (h2 @ [D_construct, D_stream (C_SetUser (user k))])
        else ((0, 0, -1), h2 @ [D_construct, D_stream (C_SetUser (user k))])) = ((rc, sid, sf), h4)"
        by (metis prod.collapse)
      let ?su = "d_call env (h2 @ [D_construct]) (C_SetUser (user k))"
      obtain j f c h5 where "run_frames env tag k ?su sid src ds [0..<frames_of k] (0, -1, 0) h4 = Some ((j, f, c), h5)"
        "h' = close_fence sf (close_fence f h5) @ D_destruct # release_all k src ds"
        using r \<open>so = Some src\<close> Some
        by (auto simp: run_case_def al ad call_def sp release_all_def split: option.splits)
      with al ad sp \<open>so = Some src\<close> Some show ?thesis using Run by simp
    qed
  qed
qed

lemma live_case:
  assumes l: "live F M h" and r: "run_case env tag k h = Some h'" and a: "allocated h'"
  shows "live F M h'"
  using r
proof (cases rule: run_case_parts)
  case (Run src h1 ds h2 su rc sid sf h4 j f c h5)
  let ?F = "F + {#b_fd src#} + mset (map b_fd ds)" and ?M = "M + {#b_va src#} + mset (map b_va ds)"
    and ?n = "total_of (planes_for (sfmt k) (sw k) (sh k))"
  have "live (F + {#b_fd src#}) (M + {#b_va src#}) (h1 @ [D_pattern (b_va src) ?n])"
    by (rule live_neutral [OF live_alloc [OF l Run(1)]]) simp
  from live_dsts [OF this Run(2)]
  have d: "live ?F ?M (h2 @ [D_construct, D_stream (C_SetUser (user k))])" and n: "length ds = length (port_slots k)"
    by (auto simp: live_def)
  from live_spare [OF d Run(3)] have "live (?F + fence_fd sf + fence_fd (-1)) ?M h4" by (simp add: fence_fd_def)
  from live_frames [OF this Run(4)] have "live ?F ?M (close_fence sf (close_fence f h5) @ [D_destruct])"
    by (rule live_neutral [OF live_close [OF live_close] adds_snoc]) simp
  then have "live (F + mset (map b_fd ds) + {#b_fd src#}) (M + mset (map b_va ds) + {#b_va src#})
      (close_fence sf (close_fence f h5) @ [D_destruct])" by (simp add: ac_simps)
  from live_release [OF live_release_buf [OF this] n] show ?thesis by (simp add: Run(5) release_all_def)
qed (use a in simp)

lemma release_all_adds: "adds (sets_only a u) h (h @ release_all k src ds)"
  by (rule adds_append) (auto simp: release_all_def release_buf_def list_all_iff)

lemma run_case_adds:
  assumes "run_case env tag k h = Some h'"
  shows "adds (sets_only (\<not> ion_works env) (user k)) h h'"
  using assms
proof (cases rule: run_case_parts)
  case (Run src h1 ds h2 su rc sid sf h4 j f c h5)
  let ?u = "sets_only (\<not> ion_works env) (user k)" and ?n = "total_of (planes_for (sfmt k) (sw k) (sh k))"
  have "adds ?u h h1" using alloc_ion_adds [of _ "user k" h env ?n] by (simp add: Run(1))
  moreover have "adds ?u h1 h2"
    using adds_trans [OF adds_snoc alloc_dsts_adds, of env "user k" "D_pattern (b_va src) ?n" h1 k "port_slots k"]
    by (simp add: Run(2))
  moreover have "adds ?u h2 (h2 @ [D_construct, D_stream (C_SetUser (user k))])" by (rule adds_append) simp
  moreover have "adds ?u (h2 @ [D_construct, D_stream (C_SetUser (user k))]) h4"
    using Run(3) create_job_adds [of _ "user k" "h2 @ [D_construct, D_stream (C_SetUser (user k))]" env 0 "-1"]
    by (auto split: if_splits)
  moreover have "adds ?u h4 h5" by (rule run_frames_adds [OF Run(4)])
  moreover have "adds ?u h5 (close_fence sf (close_fence f h5))" using close_fence_adds by (meson adds_trans)
  moreover have "adds ?u (close_fence sf (close_fence f h5)) h'"
    using adds_trans [OF adds_snoc release_all_adds, of "\<not> ion_works env" "user k" D_destruct "close_fence sf (close_fence f h5)" k src ds]
    by (simp add: Run(5))
  ultimately show ?thesis by (meson adds_trans)
qed


section \<open>The sweep\<close>

lemma run_case_total:
  assumes "case_ok k"
  shows "\<exists>h'. run_case env tag k h = Some h'"
proof (cases "run_case env tag k h")
  case None
  then obtain su sid src ds h' where "run_frames env tag k su sid src ds [0..<frames_of k] (0, -1, 0) h' = None"
    by (auto simp: run_case_def Let_def split: prod.splits option.splits)
  then show ?thesis using run_frames_total [OF assms] by (metis option.distinct(1))
qed blast

lemma neutral_print_fds: "adds cfg h (dump_fds env t h)"
  by (simp add: dump_fds_def split: option.split)

lemma sweep_case_cases:
  assumes "sweep_case env argv c (w, h) = Some (w', h')"
  obtains (Skip) "adds cfg h h'"
  | (Ran) h1 h2 where "adds cfg h h1" "run_case env (if 7 < length argv then Some (argv ! 7) else None) (cases ! nat c) h1 = Some h2"
      "adds cfg h2 h'" "0 \<le> c" "c < int (length cases)" "wedges (cases ! nat c) \<longrightarrow> arg env argv 5 0 \<noteq> 0"
proof -
  let ?k = "cases ! nat c" and ?tag = "if 7 < length argv then Some (argv ! 7) else None"
  let ?warn = "unreachable ?k \<and> arg env argv 4 0 \<noteq> 0 \<and> \<not> w"
  define h1 where "h1 = (if ?warn then h @ [D_print R_warn_leak] else h)"
  have h1: "adds cfg h h1" by (simp add: h1_def)
  have range: "0 \<le> c" "c < int (length cases)" using assms by (auto simp: sweep_case_def split: if_splits)
  consider (Wedge) "wedges ?k \<and> arg env argv 5 0 = 0" | (Unr) "\<not> (wedges ?k \<and> arg env argv 5 0 = 0)" "unreachable ?k \<and> arg env argv 4 0 = 0"
    | (Run) "\<not> (wedges ?k \<and> arg env argv 5 0 = 0)" "\<not> (unreachable ?k \<and> arg env argv 4 0 = 0)" by blast
  then show ?thesis
  proof cases
    case Wedge
    then have "h' = h @ [D_print (R_skipped_wedges (name ?k))]" using assms range by (simp add: sweep_case_def)
    then show ?thesis using Skip by simp
  next
    case Unr
    then have "h' = h @ [D_print (R_skipped_unreachable (name ?k))]" using assms range
      unfolding sweep_case_def Let_def by (auto split: if_splits)
    then show ?thesis using Skip by simp
  next
    case Run
    have s: "sweep_case env argv c (w, h) = (case run_case env ?tag ?k h1 of None \<Rightarrow> None
      | Some h \<Rightarrow> Some (w \<or> ?warn, if arg env argv 6 0 \<noteq> 0 then dump_fds env (name ?k) h else h))"
      unfolding sweep_case_def Let_def h1_def case_prod_conv if_not_P [OF Run(1)] if_not_P [OF Run(2)]
      using range by (simp split del: if_split)
    obtain h2 where r: "run_case env ?tag ?k h1 = Some h2"
      and e: "h' = (if arg env argv 6 0 \<noteq> 0 then dump_fds env (name ?k) h2 else h2)"
      using assms unfolding s by (auto split: option.splits)
    have "adds cfg h2 h'" using neutral_print_fds by (simp add: e)
    with Ran [OF h1 r] range Run show ?thesis by blast
  qed
qed


lemma sweep_case_extends:
  assumes "sweep_case env argv c (w, h) = Some (w', h')"
  shows "adds (\<lambda>_. True) h h'"
  using assms
proof (cases rule: sweep_case_cases)
  case Skip
  then show ?thesis by (rule adds_mono) simp
next
  case (Ran h1 h2)
  have "adds (\<lambda>_. True) h h1" "adds (\<lambda>_. True) h1 h2" "adds (\<lambda>_. True) h2 h'"
    using Ran(1,3) run_case_adds [OF Ran(2)] by (auto intro: adds_mono)
  then show ?thesis by (meson adds_trans)
qed

lemma sets_only_not_failed: "sets_only False u c \<Longrightarrow> \<not> alloc_failed c"
  by (erule contrapos_pn, erule alloc_failed.elims(2)) simp_all

lemma sweep_case_allocated:
  assumes "sweep_case env argv c (w, h) = Some (w', h')" and "ion_works env" and "allocated h"
  shows "allocated h'"
proof -
  have cfg: "adds cfg g g' \<Longrightarrow> allocated g \<Longrightarrow> allocated g'" for g g'
    by (rule allocated_adds [OF adds_mono [OF _ cfg_not_failed]])
  have run: "adds (sets_only False u) g g' \<Longrightarrow> allocated g \<Longrightarrow> allocated g'" for u g g'
    by (rule allocated_adds [OF adds_mono [OF _ sets_only_not_failed]])
  show ?thesis using assms(1)
  proof (cases rule: sweep_case_cases)
    case (Ran h1 h2)
    then show ?thesis using cfg run run_case_adds [OF Ran(2)] assms(2,3) by simp
  qed (use cfg assms(3) in blast)
qed

lemma sweep_allocated:
  "\<lbrakk>sweep env argv cs (w, h) = Some (w', h'); ion_works env; allocated h\<rbrakk> \<Longrightarrow> allocated h'"
proof (induction cs arbitrary: w h)
  case (Cons c cs)
  then show ?case by (auto split: option.splits dest!: sweep_case_allocated)
qed simp

lemma sweep_extends: "sweep env argv cs (w, h) = Some (w', h') \<Longrightarrow> adds (\<lambda>_. True) h h'"
proof (induction cs arbitrary: w h)
  case (Cons c cs)
  then show ?case by (auto split: option.splits dest!: sweep_case_extends intro: adds_trans)
qed simp

lemma live_sweep:
  "\<lbrakk>live F M h; sweep env argv cs (w, h) = Some (w', h'); allocated h'\<rbrakk> \<Longrightarrow> live F M h'"
proof (induction cs arbitrary: w h)
  case (Cons c cs)
  obtain w1 h1 where c: "sweep_case env argv c (w, h) = Some (w1, h1)" and r: "sweep env argv cs (w1, h1) = Some (w', h')"
    using Cons.prems(2) by (auto split: option.splits)
  have a: "allocated h1" by (rule adds_allocated [OF sweep_extends [OF r] Cons.prems(3)])
  have n: "adds cfg g g' \<Longrightarrow> live F M g \<Longrightarrow> live F M g'" for g g'
    by (meson adds_mono cfg_neutral live_neutral)
  have "live F M h1" using c
  proof (cases rule: sweep_case_cases)
    case Skip
    then show ?thesis using n Cons.prems(1) by blast
  next
    case (Ran g1 g2)
    show ?thesis by (rule n [OF Ran(3) live_case [OF n [OF Ran(1) Cons.prems(1)] Ran(2) adds_allocated [OF Ran(3) a]]])
  qed
  from Cons.IH [OF this r Cons.prems(3)] show ?case .
qed simp

lemma multi_wedges: "list_all (\<lambda>k. user k = USER_MULTI \<longrightarrow> wedges k) cases"
  by (simp add: cases_def mk_case_def USER_PRIMARY_def USER_MIRROR_def USER_SC2_def USER_MULTI_def)

lemma cfg_not_multi: "cfg c \<Longrightarrow> c \<noteq> D_stream (C_SetUser USER_MULTI)"
  by auto

lemma sets_only_other: "sets_only a u c \<Longrightarrow> u \<noteq> USER_MULTI \<Longrightarrow> c \<noteq> D_stream (C_SetUser USER_MULTI)"
  by auto

lemma sweep_single:
  "\<lbrakk>sweep env argv cs (w, h) = Some (w', h'); arg env argv 5 0 = 0\<rbrakk> \<Longrightarrow> adds (\<lambda>c. c \<noteq> D_stream (C_SetUser USER_MULTI)) h h'"
proof (induction cs arbitrary: w h)
  case (Cons c cs)
  let ?P = "\<lambda>c. c \<noteq> D_stream (C_SetUser USER_MULTI)"
  obtain w1 h1 where c: "sweep_case env argv c (w, h) = Some (w1, h1)" and r: "sweep env argv cs (w1, h1) = Some (w', h')"
    using Cons.prems(1) by (auto split: option.splits)
  have n: "adds cfg g g' \<Longrightarrow> adds ?P g g'" for g g' by (erule adds_mono) (rule cfg_not_multi)
  have "adds ?P h h1" using c
  proof (cases rule: sweep_case_cases)
    case Skip
    then show ?thesis by (rule n)
  next
    case (Ran g1 g2)
    have "user (cases ! nat c) \<noteq> USER_MULTI"
      using Ran(4-6) Cons.prems(2) multi_wedges by (auto simp: list_all_length)
    then have "adds ?P g1 g2" using run_case_adds [OF Ran(2)] sets_only_other by (meson adds_mono)
    then show ?thesis using n Ran(1,3) by (meson adds_trans)
  qed
  from adds_trans [OF this Cons.IH [OF r Cons.prems(2)]] show ?case .
qed simp

lemma sweep_case_defined: "sweep_case env argv c r = None \<longleftrightarrow> c < 0 \<or> int (length cases) \<le> c"
proof (cases "c < 0 \<or> int (length cases) \<le> c")
  case False
  then have "nat c < length cases" by auto
  then have "case_ok (cases ! nat c)" using cases_ok by (simp add: list_all_length)
  then obtain g where g: "\<And>tag h. run_case env tag (cases ! nat c) h = Some (g tag h)"
    using run_case_total [of "cases ! nat c" env] by metis
  obtain w h where "r = (w, h)" by (cases r)
  with False show ?thesis unfolding sweep_case_def Let_def by (simp add: g)
qed (simp add: sweep_case_def)

interpretation async_loop: case_loop "sweep_case env argv" "length cases" for env argv
  by unfold_locales (rule sweep_case_defined)

section \<open>Properties\<close>

lemma main_loop:
  assumes "dpasync_main env argv = Some (rc, h)"
  obtains (No_ion) "h = [D_ion_open (d_ion env), D_print R_no_ion]"
  | (Swept) cs w h' where "sweep env argv cs (False, [D_ion_open (d_ion env)]) = Some (w, h')" "adds cfg h' h"
proof (cases "d_ion env < 0")
  case True
  then show ?thesis using assms No_ion by (simp add: dpasync_main_def Let_def)
next
  case False
  have q: "adds cfg g (run_query env g)" for g by (simp add: run_query_def Let_def adds_append list_all_iff)
  obtain cs w h' where "sweep env argv cs (False, [D_ion_open (d_ion env)]) = Some (w, h')"
    "h = (if arg env argv 3 1 \<noteq> 0 then run_query env h' else h')"
    using assms False unfolding dpasync_main_def Let_def by (auto split: if_splits option.splits)
  then show ?thesis using Swept q by simp
qed

text \<open>C40. The sweep gives back what it was given. However ION and the blitter answer, a run in which no allocation
  failed has closed every buffer descriptor and every fence it was handed, each once, and removed every mapping it
  made: the job of every frame, the jobs created and never configured, and the spare job that is cancelled included.\<close>

theorem sweep_releases:
  assumes "dpasync_main env argv = Some (rc, h)" and "allocated h"
  shows "total_fds closed h = total_fds opened h \<and> total_fds unmapped h = total_fds mapped h"
proof -
  have i: "live {#} {#} [D_ion_open (d_ion env)]" by (simp add: live_def)
  have "live {#} {#} h" using assms(1)
  proof (cases rule: main_loop)
    case No_ion
    then show ?thesis by (simp add: live_def)
  next
    case (Swept cs w h')
    have "live {#} {#} h'" by (rule live_sweep [OF i Swept(1) adds_allocated [OF Swept(2) assms(2)]])
    then show ?thesis by (rule live_neutral [OF _ adds_mono [OF Swept(2) cfg_neutral]])
  qed
  then show ?thesis by (simp add: live_def)
qed

text \<open>Without the fifth argument no job is ever submitted for the multi-threaded user, which hangs the command
  queue and needs a reboot to clear.\<close>

theorem multi_thread_opt_in:
  assumes "dpasync_main env argv = Some (rc, h)" and "arg env argv 5 0 = 0"
  shows "D_stream (C_SetUser USER_MULTI) \<notin> set h"
  using assms(1)
proof (cases rule: main_loop)
  case (Swept cs w h')
  have "adds (\<lambda>c. c \<noteq> D_stream (C_SetUser USER_MULTI)) [D_ion_open (d_ion env)] h"
    using sweep_single [OF Swept(1) assms(2)] adds_mono [OF Swept(2) cfg_not_multi] by (meson adds_trans)
  then show ?thesis by (auto simp: adds_def list_all_iff)
qed simp

text \<open>The sweep reads inside its table and its buffers for every environment, unless the first argument is
  negative while the second is not zero, or their sum overflows: then it reads before the table, or has undefined
  behaviour, and it does so for every such pair.\<close>

theorem sweep_undefined_iff:
  "dpasync_main env argv = None \<longleftrightarrow> 0 \<le> d_ion env \<and>
     (arg env argv 1 0 < 0 \<and> arg env argv 2 (-1) \<noteq> 0 \<or>
      0 \<le> arg env argv 2 (-1) \<and> 2 ^ 31 \<le> arg env argv 1 0 + arg env argv 2 (-1))"
  using async_loop.range_defined [of env argv "arg env argv 1 0" "arg env argv 2 (-1)" "(False, [D_ion_open (d_ion env)])"]
  unfolding dpasync_main_def Let_def by (auto split: option.split)

text \<open>A destination nothing was written to.\<close>

definition blank :: "(nat \<Rightarrow> u8) \<Rightarrow> u32 \<Rightarrow> bool" where
  "blank mem n \<longleftrightarrow> (\<forall>i < unat n. mem i = 0xa5)"

definition blank_slots :: "dp_env \<Rightarrow> Case \<Rightarrow> ion_buf list \<Rightarrow> dp_call list \<Rightarrow> (nat \<times> nat) list \<Rightarrow> nat" where
  "blank_slots env k ds h prs = length (filter (\<lambda>(p, r).
     blank (d_mem env h (b_va (ds ! (p * ring_of k + r)))) (total_of (dst_planes k p))) prs)"

lemma scan_ports_blank:
  assumes "case_ok k" and "\<forall>(p, r) \<in> set prs. p < nports k"
  shows "\<exists>rs. scan_ports env None k ds prs (rs0, m) h = (Some (rs, m + blank_slots env k ds h prs), h)"
  using assms(2)
proof (induction prs arbitrary: rs0 m)
  case (Cons pr prs)
  obtain p r where pr: "pr = (p, r)" by (cases pr)
  let ?m = "d_mem env h (b_va (ds ! (p * ring_of k + r)))" and ?n = "total_of (dst_planes k p)"
  obtain sums un where s: "scan_dst ?m (dst_planes k p) = Some (sums, un)" "un = ?n \<longleftrightarrow> blank ?m ?n"
    using scan_dst_total [OF assms(1), of p ?m] Cons.prems by (auto simp: pr blank_def)
  have t: "\<forall>(p, r) \<in> set prs. p < nports k" using Cons.prems by simp
  obtain rs where "scan_ports env None k ds prs
      (rs0 @ [\<lparr>dr_port = p, dr_slot = r, dr_sums = sums, dr_untouched = un, dr_size = ?n\<rparr>], if un = ?n then m + 1 else m) h =
      (Some (rs, (if un = ?n then m + 1 else m) + blank_slots env k ds h prs), h)"
    using Cons.IH [OF t] by blast
  then show ?case by (auto simp: pr Let_def s blank_slots_def dump_dst_def)
qed (simp add: blank_slots_def)

text \<open>A blit that wrote nothing is called out. When no destination is dumped, the last frame of a case of the
  table reports exactly the number of ports and ring slots that still hold only the sentinel, after the wait for the
  fence, and it does so only when the submission itself claimed success.\<close>

theorem starved_exact:
  assumes "k \<in> set cases" and "frames_of k \<le> f + 1"
    and h1: "h1 = (if 0 \<le> fence then h @ [D_wait fence] else h)"
    and m: "m = blank_slots env k ds h1 (port_slots k)"
  shows "\<exists>rs. finish_frame env None k ds f iv fence h = Some (h1 @
    [D_print (R_result iv fence (if 0 \<le> fence then d_wait env h fence else -2) rs)] @
    (if 0 < m \<and> iv = 0 then [D_print (R_starved m)] else []))"
proof -
  have ok: "case_ok k" using assms(1) cases_ok by (simp add: list_all_iff)
  have "\<forall>(p, r) \<in> set (port_slots k). p < nports k" using port_slots_bound [of _ _ k] by blast
  from scan_ports_blank [OF ok this, of env ds "[]" 0 h1]
  obtain rs where s: "scan_ports env None k ds (port_slots k) ([], 0) h1 = (Some (rs, m), h1)" by (auto simp: m)
  show ?thesis using assms(2) s by (cases "0 \<le> fence") (auto simp: finish_frame_def h1)
qed

section \<open>A run\<close>

lemma main_defined:
  assumes "0 \<le> d_ion env" and "0 \<le> arg env argv 1 0" and "arg env argv 1 0 + arg env argv 2 (-1) < 2 ^ 31"
  shows "\<exists>h. dpasync_main env argv = Some (0, h) \<and> (ion_works env \<longrightarrow> allocated h)"
proof -
  let ?cs = "case_range (arg env argv 1 0) (arg env argv 2 (-1)) (length cases)"
  obtain w h where s: "sweep env argv ?cs (False, [D_ion_open (d_ion env)]) = Some (w, h)"
    using async_loop.range_defined [of env argv "arg env argv 1 0" "arg env argv 2 (-1)" "(False, [D_ion_open (d_ion env)])"]
      assms(2) by (metis not_None_eq linorder_not_less prod.collapse)
  have a: "ion_works env \<Longrightarrow> allocated h" using sweep_allocated [OF s] by (simp add: allocated_def)
  have "dpasync_main env argv = Some (0, if arg env argv 3 1 \<noteq> 0 then run_query env h else h)"
    using assms s unfolding dpasync_main_def Let_def by simp
  then show ?thesis using a by (auto simp: run_query_def allocated_def list_all_iff Let_def)
qed

theorem sweep_releases_witness:
  "\<exists>h. dpasync_main demo_dp [''dpasync_sweep''] = Some (0, h) \<and> allocated h \<and>
     total_fds closed h = total_fds opened h \<and> total_fds unmapped h = total_fds mapped h"
proof -
  obtain h where h: "dpasync_main demo_dp [''dpasync_sweep''] = Some (0, h)" "allocated h"
    using main_defined [of demo_dp "[''dpasync_sweep'']"] by (auto simp: arg_def)
  from sweep_releases [OF this] h show ?thesis by blast
qed

theorem multi_thread_opt_in_witness:
  "\<exists>h. dpasync_main demo_dp [''dpasync_sweep''] = Some (0, h) \<and> arg demo_dp [''dpasync_sweep''] 5 0 = 0 \<and>
     D_stream (C_SetUser USER_MULTI) \<notin> set h"
proof -
  have a: "arg demo_dp [''dpasync_sweep''] 5 0 = 0" by (simp add: arg_def)
  obtain h where h: "dpasync_main demo_dp [''dpasync_sweep''] = Some (0, h)"
    using main_defined [of demo_dp "[''dpasync_sweep'']"] by (auto simp: arg_def)
  from multi_thread_opt_in [OF this a] h a show ?thesis by blast
qed

theorem starved_exact_witness:
  "\<exists>rs. finish_frame demo_dp None (cases ! 0) [\<lparr>b_fd = 5, b_va = 4096, b_handle = 1\<rparr>] 0 0 9 [] =
     Some [D_wait 9, D_print (R_result 0 9 0 rs), D_print (R_starved 1)]"
proof -
  let ?k = "cases ! 0" and ?b = "\<lparr>b_fd = 5, b_va = 4096, b_handle = 1\<rparr> :: ion_buf"
  have k: "?k \<in> set cases" "frames_of ?k \<le> 0 + 1" "port_slots ?k = [(0, 0)]"
    by (simp_all add: cases_def mk_case_def frames_of_def port_slots_def ring_of_def)
  have m: "blank_slots demo_dp ?k [?b] [D_wait 9] (port_slots ?k) = 1"
    by (simp add: k blank_slots_def blank_def demo_dp_def)
  show ?thesis using starved_exact [OF k(1,2) refl refl, where env = demo_dp and ds = "[?b]" and fence = 9 and h = "[]" and iv = 0] m
    by (simp add: demo_dp_def)
qed

end
