(* ===== verification/Dp_Blit.thy ===== *)
theory Dp_Blit
  imports Dp_Common
begin

text \<open>
  \<^verbatim>\<open>src/dpblitsweep/dpblit_sweep.c\<close>: the synchronous class's sweep, and what it guarantees. Both locales of \<open>Dp_Common\<close>
  are interpreted for its own layout function and its own table.
\<close>


section \<open>Cases\<close>

text \<open>The two formats of the decoder are literals in the source.\<close>

definition DP_COLOR_BLOCK_YUV :: u32 where "DP_COLOR_BLOCK_YUV = 0x0a55004c"
definition DP_COLOR_DEC_I420 :: u32 where "DP_COLOR_DEC_I420 = 0x03140848"

definition blit_planes_for :: "u32 \<Rightarrow> int \<Rightarrow> int \<Rightarrow> Planes" where
  "blit_planes_for fmt w h =
     (let cw = (w + 1) div 2; ch = (h + 1) div 2 in
      if fmt = DP_COLOR_RGBA8888 \<or> fmt = DP_COLOR_BGRA8888 then
        \<lparr>pn = 1, psize = [word_of_int (w * h * 4), 0, 0], yPitch = w * 4, uvPitch = 0\<rparr>
      else if fmt = DP_COLOR_RGB565 then
        \<lparr>pn = 1, psize = [word_of_int (w * h * 2), 0, 0], yPitch = w * 2, uvPitch = 0\<rparr>
      else if fmt = DP_COLOR_YV12 \<or> fmt = DP_COLOR_I420 \<or> fmt = DP_COLOR_DEC_I420 then
        \<lparr>pn = 3, psize = [word_of_int (w * h), word_of_int (cw * ch), word_of_int (cw * ch)], yPitch = w, uvPitch = cw\<rparr>
      else if fmt = DP_COLOR_BLOCK_YUV then
        \<lparr>pn = 2, psize = [word_of_int (w * h), word_of_int (w * h div 2), 0], yPitch = w * 32, uvPitch = w * 16\<rparr>
      else
        \<lparr>pn = 2, psize = [word_of_int (w * h), word_of_int (cw * 2 * ch), 0], yPitch = w, uvPitch = cw * 2\<rparr>)"

record Blit_Case =
  bk_name :: string
  bk_sw :: int
  bk_sh :: int
  bk_dw :: int
  bk_dh :: int
  bk_sfmt :: u32
  bk_dfmt :: u32
  bk_rot :: u32
  bk_cropX :: int
  bk_cropY :: int
  bk_cropW :: int
  bk_cropH :: int

definition blit_case :: "string \<Rightarrow> int \<Rightarrow> int \<Rightarrow> int \<Rightarrow> int \<Rightarrow> u32 \<Rightarrow> u32 \<Rightarrow> u32 \<Rightarrow> int \<Rightarrow> int \<Rightarrow> int \<Rightarrow> int \<Rightarrow> Blit_Case" where
  "blit_case nm a b c d f g r x y cw ch =
     \<lparr>bk_name = nm, bk_sw = a, bk_sh = b, bk_dw = c, bk_dh = d, bk_sfmt = f, bk_dfmt = g, bk_rot = r,
      bk_cropX = x, bk_cropY = y, bk_cropW = cw, bk_cropH = ch\<rparr>"

definition blit_cases :: "Blit_Case list" where
  "blit_cases =
    [blit_case ''baseline'' 640 360 640 360 DP_COLOR_RGBA8888 DP_COLOR_YV12 ROT_0 0 0 0 0,
     blit_case ''down2x'' 1280 720 640 360 DP_COLOR_RGBA8888 DP_COLOR_YV12 ROT_0 0 0 0 0,
     blit_case ''up2x'' 320 180 640 360 DP_COLOR_RGBA8888 DP_COLOR_YV12 ROT_0 0 0 0 0,
     blit_case ''down_odd_ratio'' 1280 720 854 480 DP_COLOR_RGBA8888 DP_COLOR_YV12 ROT_0 0 0 0 0,
     blit_case ''down_extreme'' 1280 720 160 90 DP_COLOR_RGBA8888 DP_COLOR_YV12 ROT_0 0 0 0 0,
     blit_case ''wide_thin'' 1280 64 640 32 DP_COLOR_RGBA8888 DP_COLOR_YV12 ROT_0 0 0 0 0,
     blit_case ''tall_thin'' 64 720 32 360 DP_COLOR_RGBA8888 DP_COLOR_YV12 ROT_0 0 0 0 0,
     blit_case ''nonmult16'' 642 362 322 182 DP_COLOR_RGBA8888 DP_COLOR_RGBA8888 ROT_0 0 0 0 0,
     blit_case ''nonmult16_yuv'' 642 362 642 362 DP_COLOR_RGBA8888 DP_COLOR_YV12 ROT_0 0 0 0 0,
     blit_case ''rot90'' 640 360 360 640 DP_COLOR_RGBA8888 DP_COLOR_YV12 ROT_90 0 0 0 0,
     blit_case ''rot180'' 640 360 640 360 DP_COLOR_RGBA8888 DP_COLOR_YV12 ROT_180 0 0 0 0,
     blit_case ''rot270'' 640 360 360 640 DP_COLOR_RGBA8888 DP_COLOR_YV12 ROT_270 0 0 0 0,
     blit_case ''rot90_scale'' 1280 720 360 640 DP_COLOR_RGBA8888 DP_COLOR_YV12 ROT_90 0 0 0 0,
     blit_case ''to_nv12'' 640 360 640 360 DP_COLOR_RGBA8888 DP_COLOR_NV12 ROT_0 0 0 0 0,
     blit_case ''to_nv21'' 640 360 640 360 DP_COLOR_RGBA8888 DP_COLOR_NV21 ROT_0 0 0 0 0,
     blit_case ''to_i420'' 640 360 640 360 DP_COLOR_RGBA8888 DP_COLOR_I420 ROT_0 0 0 0 0,
     blit_case ''to_rgb565'' 640 360 640 360 DP_COLOR_RGBA8888 DP_COLOR_RGB565 ROT_0 0 0 0 0,
     blit_case ''to_bgra'' 640 360 640 360 DP_COLOR_RGBA8888 DP_COLOR_BGRA8888 ROT_0 0 0 0 0,
     blit_case ''rgb565_src'' 640 360 640 360 DP_COLOR_RGB565 DP_COLOR_YV12 ROT_0 0 0 0 0,
     blit_case ''rgba_to_rgba'' 640 360 640 360 DP_COLOR_RGBA8888 DP_COLOR_RGBA8888 ROT_0 0 0 0 0,
     blit_case ''crop_centre'' 1280 720 640 360 DP_COLOR_RGBA8888 DP_COLOR_YV12 ROT_0 320 180 640 360,
     blit_case ''crop_offset'' 1280 720 320 180 DP_COLOR_RGBA8888 DP_COLOR_YV12 ROT_0 17 29 640 360,
     blit_case ''crop_scale'' 1280 720 854 480 DP_COLOR_RGBA8888 DP_COLOR_YV12 ROT_0 100 100 800 400,
     blit_case ''dec_block'' 1280 736 1280 720 DP_COLOR_BLOCK_YUV DP_COLOR_DEC_I420 ROT_0 0 0 1280 720,
     blit_case ''dec_block_nv12'' 1280 736 1280 720 DP_COLOR_BLOCK_YUV DP_COLOR_NV12 ROT_0 0 0 1280 720,
     blit_case ''dec_block_half'' 1280 736 640 360 DP_COLOR_BLOCK_YUV DP_COLOR_YV12 ROT_0 0 0 1280 720]"

section \<open>One case\<close>

definition src_planes :: "Blit_Case \<Rightarrow> Planes" where
  "src_planes k = blit_planes_for (bk_sfmt k) (bk_sw k) (bk_sh k)"

definition blit_dst_planes :: "Blit_Case \<Rightarrow> Planes" where
  "blit_dst_planes k = blit_planes_for (bk_dfmt k) (bk_dw k) (bk_dh k)"

definition blit_configure :: "dp_env \<Rightarrow> Blit_Case \<Rightarrow> ion_buf \<Rightarrow> ion_buf \<Rightarrow> dp_call list \<Rightarrow> dp_call list" where
  "blit_configure env k src dst h =
     (let sp = src_planes k; dp = blit_dst_planes k; useCrop = bk_cropW k \<noteq> 0;
          srcRoi = \<lparr>r_x = if useCrop then bk_cropX k else 0, r_y = if useCrop then bk_cropY k else 0,
                    r_w = if useCrop then bk_cropW k else bk_sw k, r_h = if useCrop then bk_cropH k else bk_sh k\<rparr>;
          dstRoi = \<lparr>r_x = 0, r_y = 0, r_w = bk_dw k, r_h = bk_dh k\<rparr>;
          (sb, h) = call env (C_BlitSrcFd (b_fd src) (psize sp) (pn sp)) h;
          (sc, h) = call env (C_SrcConfigRoi (bk_sw k) (bk_sh k) (yPitch sp) (uvPitch sp) (bk_sfmt k) srcRoi) h;
          (db, h) = call env (C_BlitDstFd (b_fd dst) (psize dp) (pn dp)) h;
          (dc, h) = call env (C_DstConfigRoi (bk_dw k) (bk_dh k) (yPitch dp) (uvPitch dp) (bk_dfmt k) dstRoi) h;
          h = (if bk_rot k \<noteq> ROT_0 then snd (call env (C_BlitOrientation (bk_rot k)) h) else h)
      in h @ [D_print (R_setup (bk_name k) [sb, sc, db, dc])])"

text \<open>The blit is repeated until one fails.\<close>

fun blit_reps :: "dp_env \<Rightarrow> nat \<Rightarrow> int \<Rightarrow> dp_call list \<Rightarrow> int \<times> dp_call list" where
  "blit_reps env 0 iv h = (iv, h)"
| "blit_reps env (Suc n) iv h =
     (let (iv, h) = call env C_Invalidate h in if iv \<noteq> 0 then (iv, h) else blit_reps env n iv h)"

text \<open>One round of \<^verbatim>\<open>main\<close>'s loop. \<open>None\<close> is a read outside the table or past a buffer.\<close>

definition blit_run :: "dp_env \<Rightarrow> int \<Rightarrow> Blit_Case \<Rightarrow> dp_call list \<Rightarrow> dp_call list option" where
  "blit_run env reps k h =
     (let srcSize = total_of (src_planes k); dstSize = total_of (blit_dst_planes k);
          (src, h) = alloc_ion env srcSize h
      in
        case src of
          None \<Rightarrow> Some (h @ [D_print (R_alloc_fail (bk_name k) None)])
        | Some src \<Rightarrow>
            let (dst, h) = alloc_ion env dstSize h in
            case dst of
              None \<Rightarrow> Some (h @ [D_print (R_alloc_fail (bk_name k) None)])
            | Some dst \<Rightarrow>
                let h = h @ [D_pattern (b_va src) srcSize, D_sentinel (b_va dst) dstSize, D_construct];
                    (iv, h) = blit_reps env (nat reps) 0 (blit_configure env k src dst h)
                in
                  case scan_dst (d_mem env h (b_va dst)) (blit_dst_planes k) of
                    None \<Rightarrow> None
                  | Some (sums, un) \<Rightarrow>
                      Some (h @ [D_print (R_blit iv \<lparr>dr_port = 0, dr_slot = 0, dr_sums = sums, dr_untouched = un, dr_size = dstSize\<rparr>),
                        D_destruct, D_munmap (b_va src) srcSize, D_munmap (b_va dst) dstSize, D_close (b_fd src), D_close (b_fd dst)]))"

definition blit_step :: "dp_env \<Rightarrow> int \<Rightarrow> int \<Rightarrow> dp_call list \<Rightarrow> dp_call list option" where
  "blit_step env reps c h =
     (if c < 0 \<or> int (length blit_cases) \<le> c then None else blit_run env reps (blit_cases ! nat c) h)"

definition dpblit_main :: "dp_env \<Rightarrow> string list \<Rightarrow> (int \<times> dp_call list) option" where
  "dpblit_main env argv =
     (let reps = arg env argv 1 1; from = arg env argv 2 0; cnt = arg env argv 3 (-1); h = [D_ion_open (d_ion env)] in
      if d_ion env < 0 then Some (1, h @ [D_print R_no_ion])
      else
        if 0 \<le> cnt \<and> 2 ^ 31 \<le> from + cnt then None
        else map_option (Pair 0) (for_cases (blit_step env reps) (case_range from cnt (length blit_cases)) h))"

section \<open>No read leaves its buffer\<close>

interpretation blit_planes: plane_layout blit_planes_for
proof
  show "pn (blit_planes_for f w h) \<le> 3 \<and> length (psize (blit_planes_for f w h)) = 3" for f w h
    by (simp add: blit_planes_for_def Let_def)
next
  fix f :: u32 and w h :: int assume b: "0 \<le> w" "w \<le> 16384" "0 \<le> h" "h \<le> 16384"
  show "sum_list (map unat (take (pn (blit_planes_for f w h)) (psize (blit_planes_for f w h)))) < 2 ^ 32"
    using plane_sizes [OF b] by (simp add: blit_planes_for_def Let_def take_Cons')
qed

definition blit_case_ok :: "Blit_Case \<Rightarrow> bool" where
  "blit_case_ok k \<longleftrightarrow> 0 \<le> bk_dw k \<and> bk_dw k \<le> 16384 \<and> 0 \<le> bk_dh k \<and> bk_dh k \<le> 16384"

lemma blit_cases_ok: "list_all blit_case_ok blit_cases"
  by (simp add: blit_cases_def blit_case_def blit_case_ok_def)


lemma blit_run_total:
  assumes "blit_case_ok k"
  shows "blit_run env reps k h \<noteq> None"
proof -
  have "scan_dst mem (blit_dst_planes k) \<noteq> None" for mem
    using blit_planes.scan_exact [of "bk_dw k" "bk_dh k" "blit_dst_planes k" "bk_dfmt k" mem] assms
    by (simp add: blit_case_ok_def blit_dst_planes_def)
  moreover have "\<exists>mem. scan_dst mem (blit_dst_planes k) = None" if "blit_run env reps k h = None"
    using that by (auto simp: blit_run_def Let_def split: prod.splits option.splits)
  ultimately show ?thesis by blast
qed

interpretation blit_loop: case_loop "blit_step env reps" "length blit_cases" for env reps
proof
  fix c and h :: "dp_call list"
  have "blit_case_ok (blit_cases ! nat c)" if "0 \<le> c" "c < int (length blit_cases)"
    using that blit_cases_ok by (simp add: list_all_length)
  then show "blit_step env reps c h = None \<longleftrightarrow> c < 0 \<or> int (length blit_cases) \<le> c"
    using blit_run_total [of "blit_cases ! nat c" env reps h] by (auto simp: blit_step_def)
qed

section \<open>Descriptors and mappings\<close>

lemma blit_configure_adds: "adds cfg h (blit_configure env k src dst h)"
  by (simp add: blit_configure_def Let_def call_def adds_append)

lemma blit_reps_run: "\<exists>m. snd (blit_reps env n iv h) = h @ replicate m (D_stream C_Invalidate) \<and> m \<le> n \<and>
    (fst (blit_reps env n 0 h) = 0 \<longrightarrow> snd (blit_reps env n 0 h) = h @ replicate n (D_stream C_Invalidate))"
proof (induction n arbitrary: iv h)
  case (Suc n)
  let ?h = "h @ [D_stream C_Invalidate]" and ?iv = "d_call env h C_Invalidate"
  obtain m where "snd (blit_reps env n ?iv ?h) = ?h @ replicate m (D_stream C_Invalidate)" "m \<le> n"
    "fst (blit_reps env n 0 ?h) = 0 \<longrightarrow> snd (blit_reps env n 0 ?h) = ?h @ replicate n (D_stream C_Invalidate)"
    using Suc.IH by blast
  then show ?case
    by (cases "?iv = 0") (auto simp: call_def intro: exI [of _ "Suc m"] exI [of _ "Suc 0"])
qed simp

lemma blit_reps_adds: "adds cfg h (snd (blit_reps env n iv h))"
  using blit_reps_run [of env n iv h] by (auto intro!: adds_append simp: list_all_iff)

text \<open>How a case runs.\<close>

lemma blit_run_cases:
  assumes "blit_run env reps k h = Some h'"
  obtains (Fail) "\<not> allocated h'" "\<not> ion_works env"
  | (Run) src h1 dst h2 h3 r where "alloc_ion env (total_of (src_planes k)) h = (Some src, h1)"
      "alloc_ion env (total_of (blit_dst_planes k)) h1 = (Some dst, h2)"
      "adds cfg (h2 @ [D_pattern (b_va src) (total_of (src_planes k)), D_sentinel (b_va dst) (total_of (blit_dst_planes k)), D_construct]) h3"
      "h' = h3 @ [D_print (R_blit (fst r) (snd r)), D_destruct, D_munmap (b_va src) (total_of (src_planes k)),
        D_munmap (b_va dst) (total_of (blit_dst_planes k)), D_close (b_fd src), D_close (b_fd dst)]"
proof -
  let ?n = "total_of (src_planes k)" and ?m = "total_of (blit_dst_planes k)"
  obtain a h1 where a: "alloc_ion env ?n h = (a, h1)" by (metis prod.collapse)
  obtain b h2 where b: "alloc_ion env ?m h1 = (b, h2)" by (metis prod.collapse)
  show ?thesis
  proof (cases "a = None \<or> b = None")
    case True
    then have "\<not> ion_works env" using ion_works_alloc [of env ?n h] ion_works_alloc [of env ?m h1] a b by auto
    moreover have "\<not> allocated h'" using True assms by (cases a) (auto simp: blit_run_def a b allocated_def)
    ultimately show ?thesis using Fail by blast
  next
    case False
    then obtain src dst where s: "a = Some src" "b = Some dst" by auto
    let ?h = "h2 @ [D_pattern (b_va src) ?n, D_sentinel (b_va dst) ?m, D_construct]"
    obtain iv h3 where r: "blit_reps env (nat reps) 0 (blit_configure env k src dst ?h) = (iv, h3)" by (metis prod.collapse)
    have "adds cfg (blit_configure env k src dst ?h) h3"
      using blit_reps_adds [of "blit_configure env k src dst ?h" env "nat reps" 0] by (simp add: r)
    from adds_trans [OF blit_configure_adds this] have "adds cfg ?h h3" .
    moreover obtain rep where "h' = h3 @ [D_print (R_blit iv rep), D_destruct, D_munmap (b_va src) ?n,
        D_munmap (b_va dst) ?m, D_close (b_fd src), D_close (b_fd dst)]"
      using assms by (auto simp: blit_run_def a b s r Let_def split: option.splits)
    ultimately show ?thesis using Run [of src h1 dst h2 h3 "(iv, rep)"] a b s by simp
  qed
qed


lemma live_blit_run:
  assumes l: "live F M h" and r: "blit_run env reps k h = Some h'" and a: "allocated h'"
  shows "live F M h'"
  using r
proof (cases rule: blit_run_cases)
  case (Run src h1 dst h2 h3 r)
  have "live (F + {#b_fd src#} + {#b_fd dst#}) (M + {#b_va src#} + {#b_va dst#}) h2"
    by (rule live_alloc [OF live_alloc [OF l Run(1)] Run(2)])
  then have "live (F + {#b_fd src#} + {#b_fd dst#}) (M + {#b_va src#} + {#b_va dst#})
      (h2 @ [D_pattern (b_va src) (total_of (src_planes k)), D_sentinel (b_va dst) (total_of (blit_dst_planes k)), D_construct])"
    by (simp add: live_def)
  from live_neutral [OF this adds_mono [OF Run(3) cfg_neutral]] show ?thesis by (simp add: Run(4) live_def)
qed (use a in simp)

lemma blit_run_extends:
  assumes "blit_run env reps k h = Some h'" and "allocated h'"
  shows "allocated h"
  using assms(1)
proof (cases rule: blit_run_cases)
  case (Run src h1 dst h2 h3 r)
  have "allocated h3" using assms(2) by (simp add: Run(4))
  then have "allocated h2" using adds_allocated [OF Run(3)] by simp
  then show ?thesis
    using alloc_ion_extends [of env "total_of (src_planes k)" h] alloc_ion_extends [of env "total_of (blit_dst_planes k)" h1]
    by (auto simp: Run(1,2))
qed (use assms(2) in simp)

lemma live_blit_sweep:
  "\<lbrakk>for_cases (blit_step env reps) cs h = Some h'; allocated h'; live F M h\<rbrakk> \<Longrightarrow> live F M h' \<and> allocated h"
proof (induction cs arbitrary: h)
  case (Cons c cs)
  obtain h1 where s: "blit_step env reps c h = Some h1" and r: "for_cases (blit_step env reps) cs h1 = Some h'"
    using Cons.prems(1) by (auto split: option.splits)
  have c: "blit_run env reps (blit_cases ! nat c) h = Some h1" using s by (auto simp: blit_step_def split: if_splits)
  have "allocated h1"
  proof (rule ccontr)
    assume n: "\<not> allocated h1"
    have "\<not> allocated h'" by (rule for_cases_keeps [OF r, where P = "\<lambda>h. \<not> allocated h", OF n]) (auto simp: blit_step_def dest: blit_run_extends split: if_splits)
    then show False using Cons.prems(2) by simp
  qed
  with live_blit_run [OF Cons.prems(3) c] blit_run_extends [OF c] Cons.IH [OF r Cons.prems(2)] show ?case by blast
qed simp

text \<open>The synchronous sweep gives back what it was given: a run in which no allocation failed has closed both
  descriptors and removed both mappings of every case, however often the blit is repeated and whether or not it fails.\<close>

theorem blit_sweep_releases:
  assumes "dpblit_main env argv = Some (rc, h)" and "allocated h"
  shows "total_fds closed h = total_fds opened h \<and> total_fds unmapped h = total_fds mapped h"
proof (cases "d_ion env < 0")
  case True
  then show ?thesis using assms by (auto simp: dpblit_main_def Let_def)
next
  case False
  then obtain cs where "for_cases (blit_step env (arg env argv 1 1)) cs [D_ion_open (d_ion env)] = Some h"
    using assms(1) unfolding dpblit_main_def Let_def by (auto split: if_splits)
  from live_blit_sweep [OF this assms(2), of "{#}" "{#}"] show ?thesis by (simp add: live_def)
qed

text \<open>The synchronous sweep reads inside its table and its buffers for every environment, unless the index of the
  first case is negative while the count is not zero, or their sum overflows.\<close>

theorem blit_sweep_undefined_iff:
  "dpblit_main env argv = None \<longleftrightarrow> 0 \<le> d_ion env \<and>
     (arg env argv 2 0 < 0 \<and> arg env argv 3 (-1) \<noteq> 0 \<or>
      0 \<le> arg env argv 3 (-1) \<and> 2 ^ 31 \<le> arg env argv 2 0 + arg env argv 3 (-1))"
  using blit_loop.range_defined [of env "arg env argv 1 1" "arg env argv 2 0" "arg env argv 3 (-1)" "[D_ion_open (d_ion env)]"]
  unfolding dpblit_main_def Let_def by auto


section \<open>The source picture\<close>

definition pattern_ok :: "Blit_Case \<Rightarrow> bool" where
  "pattern_ok k =
     (let m = 4 * nat (yPitch (src_planes k)) in
      (7 * m + 13 * (m div 977)) mod 256 \<noteq> 0 \<and> (7 * m + 13 * (m div 977 + 1)) mod 256 \<noteq> 0 \<and>
      m + nat (yPitch (src_planes k)) \<le> unat (total_of (src_planes k)))"

lemma color_values:
  "DP_COLOR_RGBA8888 = 0x1002022" "DP_COLOR_BGRA8888 = 0x1002002" "DP_COLOR_RGB565 = 0x1001000" "DP_COLOR_YV12 = 0x3140868"
  "DP_COLOR_I420 = 0x3140848" "DP_COLOR_NV12 = 0x254084c" "DP_COLOR_NV21 = 0x254086c"
  by code_simp+

lemma patterns_ok: "list_all pattern_ok blit_cases"
  by (simp add: blit_cases_def blit_case_def pattern_ok_def src_planes_def blit_planes_for_def total_of_def color_values
      DP_COLOR_BLOCK_YUV_def DP_COLOR_DEC_I420_def)

text \<open>The picture a case blits has no constant row and no constant column: two neighbouring bytes of the buffer
  differ, and in every byte column the fifth line differs from the first. The tall narrow case is why it takes five
  lines: its pitch is 256, and neighbouring lines can be equal.\<close>

theorem source_pattern_varies:
  assumes "k \<in> set blit_cases" and "p = nat (yPitch (src_planes k))"
  shows "(\<forall>i. i + 1 < 2 ^ 32 \<longrightarrow> src_byte (of_nat (i + 1)) \<noteq> src_byte (of_nat i)) \<and>
    (\<forall>x < p. x + 4 * p < unat (total_of (src_planes k)) \<and> src_byte (of_nat (x + 4 * p)) \<noteq> src_byte (of_nat x))"
proof (intro conjI allI impI)
  show "src_byte (of_nat (i + 1)) \<noteq> src_byte (of_nat i)" if "i + 1 < 2 ^ 32" for i
    by (rule src_byte_differs [OF that]) simp_all
  have ok: "pattern_ok k" using assms(1) patterns_ok by (simp add: list_all_iff)
  fix x assume x: "x < p"
  then show b: "x + 4 * p < unat (total_of (src_planes k))" using ok by (simp add: pattern_ok_def Let_def assms(2))
  then have "x + 4 * p < 2 ^ 32" using u32_lt [of "total_of (src_planes k)"] by linarith
  moreover have "(7 * (4 * p) + 13 * (4 * p div 977)) mod 256 \<noteq> 0" "(7 * (4 * p) + 13 * (4 * p div 977 + 1)) mod 256 \<noteq> 0"
    using ok unfolding pattern_ok_def Let_def assms(2) by blast+
  ultimately show "src_byte (of_nat (x + 4 * p)) \<noteq> src_byte (of_nat x)" by (rule src_byte_differs)
qed


section \<open>A run\<close>

lemma blit_main_defined:
  assumes "ion_works env" and "0 \<le> d_ion env" and "0 \<le> arg env argv 2 0" and "arg env argv 2 0 + arg env argv 3 (-1) < 2 ^ 31"
  shows "\<exists>h. dpblit_main env argv = Some (0, h) \<and> allocated h"
proof -
  let ?cs = "case_range (arg env argv 2 0) (arg env argv 3 (-1)) (length blit_cases)" and ?st = "blit_step env (arg env argv 1 1)"
  obtain h where s: "for_cases ?st ?cs [D_ion_open (d_ion env)] = Some h"
    using blit_loop.range_defined [of env "arg env argv 1 1" "arg env argv 2 0" "arg env argv 3 (-1)" "[D_ion_open (d_ion env)]"]
      assms(3) by (metis not_None_eq linorder_not_less)
  have "allocated h"
  proof (rule for_cases_keeps [OF s, where P = allocated])
    show "allocated h'" if st: "?st c g = Some h'" and g: "allocated g" for c g h'
    proof -
      have "blit_run env (arg env argv 1 1) (blit_cases ! nat c) g = Some h'" using st by (auto simp: blit_step_def split: if_splits)
      then show ?thesis
      proof (cases rule: blit_run_cases)
        case (Run src h1 dst h2 h3 r)
        let ?k = "blit_cases ! nat c"
        have "allocated h2" using g alloc_ion_extends [of env "total_of (src_planes ?k)" g]
            alloc_ion_extends [of env "total_of (blit_dst_planes ?k)" h1] by (auto simp: Run(1,2))
        then have "allocated h3"
          using allocated_adds [OF adds_mono [OF Run(3) cfg_not_failed]] by (simp add: allocated_def)
        then show ?thesis by (simp add: Run(4) allocated_def)
      qed (use assms(1) in simp)
    qed
  qed (simp add: allocated_def)
  moreover have "dpblit_main env argv = Some (0, h)" using s assms unfolding dpblit_main_def Let_def by simp
  ultimately show ?thesis by blast
qed

theorem blit_sweep_releases_witness:
  "\<exists>h. dpblit_main demo_dp [''dpblit_sweep''] = Some (0, h) \<and> allocated h \<and>
     total_fds closed h = total_fds opened h \<and> total_fds unmapped h = total_fds mapped h"
proof -
  obtain h where h: "dpblit_main demo_dp [''dpblit_sweep''] = Some (0, h)" "allocated h"
    using blit_main_defined [of demo_dp "[''dpblit_sweep'']"] by (auto simp: arg_def)
  from blit_sweep_releases [OF this] h show ?thesis by blast
qed

theorem source_pattern_varies_witness:
  "bk_name (blit_cases ! 6) = ''tall_thin'' \<and> src_byte (of_nat (0 + 4 * 256)) \<noteq> src_byte (of_nat 0) \<and>
     src_byte (of_nat 256) = src_byte (of_nat 0)"
proof -
  have k: "blit_cases ! 6 \<in> set blit_cases" by (simp add: blit_cases_def)
  have p: "256 = nat (yPitch (src_planes (blit_cases ! 6)))"
    by (simp add: blit_cases_def blit_case_def src_planes_def blit_planes_for_def color_values)
  have "src_byte (of_nat (0 + 4 * 256)) \<noteq> src_byte (of_nat 0)"
    using source_pattern_varies [OF k p] by (metis zero_less_numeral)
  moreover have "src_byte (of_nat 256) = src_byte (of_nat 0)" by code_simp
  ultimately show ?thesis by (simp add: blit_cases_def blit_case_def)
qed

end
