(* ===== verification/Dp_Consumer.thy ===== *)
theory Dp_Consumer
  imports Dp_Common
begin

text \<open>
  \<^verbatim>\<open>src/dpconsumerprobe/dpconsumer_probe.c\<close>: the probe that binds the same buffers in the five ways the blitter's consumers
  do and compares what was blitted. Shown: it stays inside its buffers, the plane pointers cover the allocation, it gives back
  what it was given, and its verdicts are exact.
\<close>


section \<open>Cases\<close>

definition con_planes_for :: "u32 \<Rightarrow> int \<Rightarrow> int \<Rightarrow> Planes" where
  "con_planes_for fmt w h =
     (let cw = (w + 1) div 2; ch = (h + 1) div 2 in
      if fmt = DP_COLOR_RGBA8888 then
        \<lparr>pn = 1, psize = [word_of_int (w * h * 4), 0, 0], yPitch = w * 4, uvPitch = 0\<rparr>
      else if fmt = DP_COLOR_YV12 then
        \<lparr>pn = 3, psize = [word_of_int (w * h), word_of_int (cw * ch), word_of_int (cw * ch)], yPitch = w, uvPitch = cw\<rparr>
      else
        \<lparr>pn = 2, psize = [word_of_int (w * h), word_of_int (cw * 2 * ch), 0], yPitch = w, uvPitch = cw * 2\<rparr>)"

record Con_Case =
  ck_name :: string
  ck_sw :: int
  ck_sh :: int
  ck_dw :: int
  ck_dh :: int
  ck_sfmt :: u32
  ck_dfmt :: u32
  ck_rot :: u32

definition con_cases :: "Con_Case list" where
  "con_cases =
    [\<lparr>ck_name = ''baseline'', ck_sw = 640, ck_sh = 360, ck_dw = 640, ck_dh = 360, ck_sfmt = DP_COLOR_RGBA8888,
       ck_dfmt = DP_COLOR_YV12, ck_rot = ROT_0\<rparr>,
     \<lparr>ck_name = ''scale_down'', ck_sw = 1280, ck_sh = 720, ck_dw = 640, ck_dh = 360, ck_sfmt = DP_COLOR_RGBA8888,
       ck_dfmt = DP_COLOR_YV12, ck_rot = ROT_0\<rparr>,
     \<lparr>ck_name = ''to_nv12'', ck_sw = 640, ck_sh = 360, ck_dw = 640, ck_dh = 360, ck_sfmt = DP_COLOR_RGBA8888,
       ck_dfmt = DP_COLOR_NV12, ck_rot = ROT_0\<rparr>,
     \<lparr>ck_name = ''rot90'', ck_sw = 640, ck_sh = 360, ck_dw = 360, ck_dh = 640, ck_sfmt = DP_COLOR_RGBA8888,
       ck_dfmt = DP_COLOR_YV12, ck_rot = ROT_90\<rparr>]"

datatype BindMode = BIND_FD | BIND_VA | BIND_VA_MVA_ZERO | BIND_VA_MVA_VA | BIND_VA_MVA_REAL

definition bind_name :: "BindMode \<Rightarrow> string" where
  "bind_name m = (case m of BIND_FD \<Rightarrow> ''fd'' | BIND_VA \<Rightarrow> ''valist'' | BIND_VA_MVA_ZERO \<Rightarrow> ''va+mva0''
     | BIND_VA_MVA_VA \<Rightarrow> ''va+mva=va'' | BIND_VA_MVA_REAL \<Rightarrow> ''va+mva=real'')"

definition bind_owner :: "BindMode \<Rightarrow> string" where
  "bind_owner m = (case m of BIND_FD \<Rightarrow> ''gpu_aux/sweep'' | BIND_VA \<Rightarrow> ''gpu_aux'' | _ \<Rightarrow> ''ClearMotionFW'')"

section \<open>One blit\<close>

definition mva_of :: "dp_env \<Rightarrow> nat \<Rightarrow> dp_call list \<Rightarrow> u32 \<times> dp_call list" where
  "mva_of env hnd h =
     (let rc = d_mva_config env h hnd; h = h @ [D_mva_config hnd rc] in
      if rc > 0 \<and> rc \<noteq> 0x10000 then (0, h)
      else
        let (rc, phys) = d_mva_phys env h hnd; h = h @ [D_mva_phys hnd rc] in
        if rc \<noteq> 0 then (0, h) else (phys, h))"

text \<open>The offsets of the planes, and the pointers to them; the entries behind them stay null.\<close>

fun offsets :: "u32 \<Rightarrow> u32 list \<Rightarrow> u32 list" where
  "offsets off [] = []"
| "offsets off (n # ns) = off # offsets (off + n) ns"

definition plane_offs :: "Planes \<Rightarrow> u32 list" where
  "plane_offs p = offsets 0 (take (pn p) (psize p))"

definition plane_ptrs :: "nat \<Rightarrow> Planes \<Rightarrow> nat list" where
  "plane_ptrs base p = map (\<lambda>d. base + unat d) (plane_offs p) @ replicate (3 - pn p) 0"

definition con_src_planes :: "Con_Case \<Rightarrow> Planes" where
  "con_src_planes k = con_planes_for (ck_sfmt k) (ck_sw k) (ck_sh k)"

definition con_dst_planes :: "Con_Case \<Rightarrow> Planes" where
  "con_dst_planes k = con_planes_for (ck_dfmt k) (ck_dw k) (ck_dh k)"

definition bind :: "dp_env \<Rightarrow> Con_Case \<Rightarrow> BindMode \<Rightarrow> ion_buf \<Rightarrow> ion_buf \<Rightarrow> dp_call list \<Rightarrow> (int \<times> int) \<times> dp_call list" where
  "bind env k m src dst h =
     (let sp = con_src_planes k; dp = con_dst_planes k; sPtr = plane_ptrs (b_va src) sp; dPtr = plane_ptrs (b_va dst) dp;
          two = (\<lambda>c d h. let (sb, h) = call env c h; (db, h) = call env d h in ((sb, db), h));
          mva = (\<lambda>s d h. two (C_BlitSrcMva sPtr s (psize sp) (pn sp)) (C_BlitDstMva dPtr d (psize dp) (pn dp)) h)
      in case m of
        BIND_FD \<Rightarrow> two (C_BlitSrcFd (b_fd src) (psize sp) (pn sp)) (C_BlitDstFd (b_fd dst) (psize dp) (pn dp)) h
      | BIND_VA \<Rightarrow> two (C_BlitSrcVa sPtr (psize sp) (pn sp)) (C_BlitDstVa dPtr (psize dp) (pn dp)) h
      | BIND_VA_MVA_ZERO \<Rightarrow> mva (M_ptrs [0, 0, 0]) (M_ptrs [0, 0, 0]) h
      | BIND_VA_MVA_VA \<Rightarrow> mva (M_ptrs sPtr) (M_ptrs dPtr) h
      | BIND_VA_MVA_REAL \<Rightarrow>
          let (sBase, h) = mva_of env (b_handle src) h;
              (dBase, h) = mva_of env (b_handle dst) h;
              h = (if sBase = 0 \<or> dBase = 0 then h @ [D_print (R_mva_failed sBase dBase)] else h)
          in mva (M_words (map (\<lambda>d. sBase + d) (plane_offs sp))) (M_words (map (\<lambda>d. dBase + d) (plane_offs dp))) h)"

definition con_configure :: "dp_env \<Rightarrow> Con_Case \<Rightarrow> dp_call list \<Rightarrow> int list \<times> dp_call list" where
  "con_configure env k h =
     (let sp = con_src_planes k; dp = con_dst_planes k;
          (sc, h) = call env (C_SrcConfigRoi (ck_sw k) (ck_sh k) (yPitch sp) (uvPitch sp) (ck_sfmt k)
                      \<lparr>r_x = 0, r_y = 0, r_w = ck_sw k, r_h = ck_sh k\<rparr>) h;
          (dc, h) = call env (C_DstConfigRoi (ck_dw k) (ck_dh k) (yPitch dp) (uvPitch dp) (ck_dfmt k)
                      \<lparr>r_x = 0, r_y = 0, r_w = ck_dw k, r_h = ck_dh k\<rparr>) h;
          h = (if ck_rot k \<noteq> ROT_0 then snd (call env (C_BlitOrientation (ck_rot k)) h) else h);
          (iv, h) = call env C_Invalidate h
      in ([sc, dc, iv], h))"

text \<open>The result of one blit: the checksum of the whole destination, its untouched bytes and the five statuses. The
  inner option is \<^verbatim>\<open>ok\<close>; the outer one is a read past the buffer.\<close>

definition con_run :: "dp_env \<Rightarrow> Con_Case \<Rightarrow> BindMode \<Rightarrow> dp_call list \<Rightarrow> ((u32 \<times> u32 \<times> int list) option \<times> dp_call list) option" where
  "con_run env k m h =
     (let srcSize = total_of (con_src_planes k); dstSize = total_of (con_dst_planes k);
          (src, h) = alloc_ion env srcSize h
      in
        case src of
          None \<Rightarrow> Some (None, h)
        | Some src \<Rightarrow>
            let (dst, h) = alloc_ion env dstSize h in
            case dst of
              None \<Rightarrow> Some (None, h)
            | Some dst \<Rightarrow>
                let h = h @ [D_pattern (b_va src) srcSize, D_sentinel (b_va dst) dstSize, D_construct];
                    ((sb, db), h) = bind env k m src dst h;
                    (st, h) = con_configure env k h
                in
                  case sum_bytes (rd (d_mem env h (b_va dst)) dstSize) 0 [0..<unat dstSize] 0 0 of
                    None \<Rightarrow> None
                  | Some (sm, un) \<Rightarrow>
                      Some (Some (sm, un, [sb, db] @ st), h @ [D_destruct, D_munmap (b_va src) srcSize,
                        D_munmap (b_va dst) dstSize, D_close (b_fd src), D_close (b_fd dst)]))"

section \<open>The program\<close>

text \<open>One round of the inner loop; the reference is the checksum through the descriptor, if there is one.\<close>

definition con_bind :: "dp_env \<Rightarrow> Con_Case \<Rightarrow> BindMode \<Rightarrow> u32 option \<times> dp_call list \<Rightarrow> (u32 option \<times> dp_call list) option" where
  "con_bind env k m r =
     (let (ref, h) = r in
      case con_run env k m h of
        None \<Rightarrow> None
      | Some (None, h) \<Rightarrow> Some (ref, h @ [D_print (R_bind_fail (ck_name k) (bind_name m))])
      | Some (Some (sm, un, st), h) \<Rightarrow>
          let ref = (if m = BIND_FD then Some sm else ref);
              verdict = (case ref of None \<Rightarrow> ''''
                | Some f \<Rightarrow> if m = BIND_FD then '''' else if sm = f then ''MATCH'' else ''DIFFERS-FROM-FD'')
          in Some (ref, h @ [D_print (R_bind (ck_name k) (bind_name m) (bind_owner m) sm un st verdict)]))"

fun con_binds :: "dp_env \<Rightarrow> Con_Case \<Rightarrow> BindMode list \<Rightarrow> u32 option \<times> dp_call list \<Rightarrow> (u32 option \<times> dp_call list) option" where
  "con_binds env k [] r = Some r"
| "con_binds env k (m # ms) r = (case con_bind env k m r of None \<Rightarrow> None | Some r \<Rightarrow> con_binds env k ms r)"

definition modes :: "BindMode list" where
  "modes = [BIND_FD, BIND_VA, BIND_VA_MVA_ZERO, BIND_VA_MVA_VA, BIND_VA_MVA_REAL]"

fun con_sweep :: "dp_env \<Rightarrow> Con_Case list \<Rightarrow> dp_call list \<Rightarrow> dp_call list option" where
  "con_sweep env [] h = Some h"
| "con_sweep env (k # ks) h =
     (case con_binds env k modes (None, h) of None \<Rightarrow> None | Some (_, h) \<Rightarrow> con_sweep env ks h)"

definition would_accept :: "u32 \<Rightarrow> bool" where
  "would_accept sc \<longleftrightarrow> sc \<le> 4 \<and> and (push_bit (unat (and sc 0x1f)) 1) (0x16 :: u32) \<noteq> 0"

definition probe_pq :: "dp_env \<Rightarrow> dp_call list \<Rightarrow> dp_call list" where
  "probe_pq env h = fold (\<lambda>sc h.
     let (rc, h) = call env (C_BlitPQ sc 0x1234) (h @ [D_construct]) in
     h @ [D_print (R_pq sc rc (would_accept sc)), D_destruct]) [0, 1, 2, 3, 4, 5] h"

definition consumer_main :: "dp_env \<Rightarrow> string list \<Rightarrow> (int \<times> dp_call list) option" where
  "consumer_main env argv =
     (let pqOnly = (1 < length argv \<and> argv ! 1 = ''pq''); h = [D_ion_open (d_ion env)] in
      if d_ion env < 0 then Some (1, h @ [D_print R_no_ion])
      else map_option (\<lambda>h. (0, probe_pq env h)) (if pqOnly then Some h else con_sweep env con_cases h))"


section \<open>No read leaves its buffer\<close>

interpretation con_planes: plane_layout con_planes_for
proof
  show "pn (con_planes_for f w h) \<le> 3 \<and> length (psize (con_planes_for f w h)) = 3" for f w h
    by (simp add: con_planes_for_def Let_def)
next
  fix f :: u32 and w h :: int assume b: "0 \<le> w" "w \<le> 16384" "0 \<le> h" "h \<le> 16384"
  show "sum_list (map unat (take (pn (con_planes_for f w h)) (psize (con_planes_for f w h)))) < 2 ^ 32"
    using plane_sizes [OF b] by (simp add: con_planes_for_def Let_def take_Cons')
qed

lemma sum_whole: "sum_bytes (rd mem n) 0 [0..<unat n] 0 0 = Some (poly_sum (map mem [0..<unat n]), of_nat (sent mem 0 (unat n)))"
  using sum_bytes_eq [of 0 0 "unat n" n mem 0 0] by (simp add: poly_sum_def)

lemma offsets_nth:
  "\<lbrakk>i < length ns; unat off + sum_list (map unat ns) < 2 ^ 32\<rbrakk> \<Longrightarrow>
    unat (offsets off ns ! i) = unat off + sum_list (map unat (take i ns))"
proof (induction ns arbitrary: off i)
  case (Cons n ns)
  have "unat (off + n) = unat off + unat n" using Cons.prems(2) by (simp add: unat_word_ariths)
  then show ?case using Cons.IH [of "i - 1" "off + n"] Cons.prems by (cases i) (simp_all add: add.assoc)
qed simp

lemma offsets_length [simp]: "length (offsets off ns) = length ns"
  by (induction ns arbitrary: off) simp_all

lemma take_sum_le: "i < length ns \<Longrightarrow> sum_list (take i ns) + ns ! i \<le> sum_list (ns :: nat list)"
  by (metis append_take_drop_id Cons_nth_drop_Suc sum_list_append sum_list.Cons add.assoc le_add1)

text \<open>The plane pointers a consumer passes are contiguous and stay inside the allocation: every plane starts where
  the planes before it end, and ends at or before the end of the buffer.\<close>

theorem plane_ptrs_cover:
  assumes "p = con_planes_for f w h" and "0 \<le> w" and "w \<le> 16384" and "0 \<le> h" and "h \<le> 16384" and "i < pn p"
  shows "plane_ptrs base p ! i = base + sum_list (map unat (take i (psize p))) \<and>
    plane_ptrs base p ! i + unat (psize p ! i) \<le> base + unat (total_of p)"
proof -
  let ?ns = "take (pn p) (psize p)"
  have fits: "sum_list (map unat ?ns) < 2 ^ 32" unfolding assms(1) by (rule con_planes.fits [OF assms(2-5)])
  have i: "i < length ?ns" using assms(6) con_planes.three [of f w h] by (auto simp: assms(1))
  have "plane_ptrs base p ! i = base + unat (plane_offs p ! i)"
    using i by (simp add: plane_ptrs_def plane_offs_def nth_append)
  also have "unat (plane_offs p ! i) = sum_list (map unat (take i ?ns))"
    using offsets_nth [OF i, of 0] fits by (simp add: plane_offs_def)
  also have "take i ?ns = take i (psize p)" using assms(6) by simp
  finally have e: "plane_ptrs base p ! i = base + sum_list (map unat (take i (psize p)))" .
  have "sum_list (map unat (take i (psize p))) + unat (psize p ! i) \<le> sum_list (map unat ?ns)"
    using take_sum_le [of i "map unat ?ns"] i assms(6) by (simp add: take_map)
  then show ?thesis using total_of_exact [OF fits] by (simp add: e)
qed

section \<open>Descriptors and mappings\<close>

text \<open>The calls between the allocation and the release.\<close>

fun mid :: "dp_call \<Rightarrow> bool" where
  "mid (D_stream c) = (\<not> is_user (D_stream c))"
| "mid (D_mva_config a i) = True"
| "mid (D_mva_phys a i) = True"
| "mid (D_print (R_mva_failed a b)) = True"
| "mid _ = False"

lemma mid_cfg: "mid c \<Longrightarrow> cfg c"
  by (erule mid.elims(2)) simp_all

lemma mva_of_adds: "adds mid h (snd (mva_of env hnd h))"
  by (simp add: mva_of_def Let_def case_prod_beta adds_append)

lemma bind_adds: "adds mid h (snd (bind env k m src dst h))"
proof (cases m)
  case BIND_VA_MVA_REAL
  obtain a h1 where a: "mva_of env (b_handle src) h = (a, h1)" by (metis prod.collapse)
  obtain b h2 where b: "mva_of env (b_handle dst) h1 = (b, h2)" by (metis prod.collapse)
  have "adds mid h h1" "adds mid h1 h2"
    using mva_of_adds [of h env "b_handle src"] mva_of_adds [of h1 env "b_handle dst"] by (simp_all add: a b)
  then have "adds mid h h2" by (rule adds_trans)
  then show ?thesis
    by (rule adds_trans) (simp add: bind_def BIND_VA_MVA_REAL Let_def a b call_def adds_append)
qed (simp_all add: bind_def Let_def call_def adds_append)

lemma con_configure_adds: "adds mid h (snd (con_configure env k h))"
  by (simp add: con_configure_def Let_def call_def adds_append)

text \<open>How a blit runs.\<close>

lemma con_run_total: "con_run env k m h \<noteq> None"
  by (auto simp: con_run_def Let_def sum_whole split: prod.split option.split)

lemma con_run_cases:
  assumes "con_run env k m h = Some (r, h')"
  obtains (Fail) n where "r = None" "\<not> ion_works env" "h' = h @ n" "allocated n"
  | (Run) src h1 dst h2 h3 x where "r = Some x" "alloc_ion env (total_of (con_src_planes k)) h = (Some src, h1)"
      "alloc_ion env (total_of (con_dst_planes k)) h1 = (Some dst, h2)"
      "adds mid (h2 @ [D_pattern (b_va src) (total_of (con_src_planes k)), D_sentinel (b_va dst) (total_of (con_dst_planes k)), D_construct]) h3"
      "h' = h3 @ [D_destruct, D_munmap (b_va src) (total_of (con_src_planes k)),
        D_munmap (b_va dst) (total_of (con_dst_planes k)), D_close (b_fd src), D_close (b_fd dst)]"
proof -
  let ?n = "total_of (con_src_planes k)" and ?m = "total_of (con_dst_planes k)"
  obtain a h1 where a: "alloc_ion env ?n h = (a, h1)" by (metis prod.collapse)
  obtain b h2 where b: "alloc_ion env ?m h1 = (b, h2)" by (metis prod.collapse)
  obtain n1 n2 where e: "h1 = h @ n1" "h2 = h1 @ n2" "allocated n1" "allocated n2"
    using alloc_ion_extends [of env ?n h] alloc_ion_extends [of env ?m h1] by (auto simp: a b)
  show ?thesis
  proof (cases "a = None \<or> b = None")
    case True
    then have "\<not> ion_works env" using ion_works_alloc [of env ?n h] ion_works_alloc [of env ?m h1] a b by auto
    moreover have "r = None \<and> (h' = h1 \<or> h' = h2)" using True assms by (cases a) (auto simp: con_run_def a b)
    ultimately show ?thesis using Fail [of n1] Fail [of "n1 @ n2"] e by auto
  next
    case False
    then obtain src dst where s: "a = Some src" "b = Some dst" by auto
    let ?h = "h2 @ [D_pattern (b_va src) ?n, D_sentinel (b_va dst) ?m, D_construct]"
    obtain sb db h3 where bd: "bind env k m src dst ?h = ((sb, db), h3)" by (metis prod.collapse)
    obtain st h4 where c: "con_configure env k h3 = (st, h4)" by (metis prod.collapse)
    have "adds mid ?h h3" "adds mid h3 h4"
      using bind_adds [of ?h env k m src dst] con_configure_adds [of h3 env k] by (simp_all add: bd c)
    then have "adds mid ?h h4" by (rule adds_trans)
    moreover obtain x where "r = Some x" "h' = h4 @ [D_destruct, D_munmap (b_va src) ?n, D_munmap (b_va dst) ?m,
        D_close (b_fd src), D_close (b_fd dst)]"
      using assms by (auto simp: con_run_def a b s bd c sum_whole Let_def)
    ultimately show ?thesis using Run a b s by blast
  qed
qed

lemma live_con_run:
  assumes l: "live F M h" and r: "con_run env k m h = Some (Some x, h')"
  shows "live F M h'"
  using r
proof (cases rule: con_run_cases)
  case (Run src h1 dst h2 h3 x)
  have "live (F + {#b_fd src#} + {#b_fd dst#}) (M + {#b_va src#} + {#b_va dst#}) h2"
    by (rule live_alloc [OF live_alloc [OF l Run(2)] Run(3)])
  then have "live (F + {#b_fd src#} + {#b_fd dst#}) (M + {#b_va src#} + {#b_va dst#})
      (h2 @ [D_pattern (b_va src) (total_of (con_src_planes k)), D_sentinel (b_va dst) (total_of (con_dst_planes k)), D_construct])"
    by (simp add: live_def)
  from live_neutral [OF this adds_mono [OF Run(4) cfg_neutral [OF mid_cfg]]] show ?thesis by (simp add: Run(5) live_def)
qed simp

section \<open>Verdicts\<close>

text \<open>The rows of the table a history holds.\<close>

fun rows_of :: "dp_call \<Rightarrow> report list" where
  "rows_of (D_print (R_bind a b c d e f g)) = [R_bind a b c d e f g]"
| "rows_of _ = []"

definition rows :: "dp_call list \<Rightarrow> report list" where
  "rows h = concat (map rows_of h)"

lemma rows_append [simp]: "rows (g @ h) = rows g @ rows h" "rows [] = []" "rows (c # h) = rows_of c @ rows h"
  by (simp_all add: rows_def)

lemma rows_mid: "adds mid h h' \<Longrightarrow> rows h' = rows h"
proof -
  have "mid c \<Longrightarrow> rows_of c = []" for c by (erule mid.elims(2)) simp_all
  then have "list_all mid n \<Longrightarrow> rows n = []" for n by (induction n) simp_all
  then show "adds mid h h' \<Longrightarrow> rows h' = rows h" by (auto simp: adds_def)
qed

lemma rows_alloc: "alloc_ion env n h = (a, h') \<Longrightarrow> rows h' = rows h"
  by (auto simp: alloc_ion_def Let_def split: option.splits)

lemma con_run_works:
  assumes "ion_works env"
  obtains sm un st h' where "con_run env k m h = Some (Some (sm, un, st), h')" "rows h' = rows h"
proof -
  obtain r h' where c: "con_run env k m h = Some (r, h')" using con_run_total [of env k m h] by auto
  then show ?thesis
  proof (cases rule: con_run_cases)
    case (Run src h1 dst h2 h3 x)
    have "rows h' = rows h" using rows_mid [OF Run(4)] rows_alloc [OF Run(2)] rows_alloc [OF Run(3)] by (simp add: Run(5))
    with c Run(1) that show ?thesis by (cases x) auto
  qed (use assms in simp)
qed

lemma con_bind_fd:
  assumes "ion_works env"
  obtains sm un st h' where "con_bind env k BIND_FD (None, h) = Some (Some sm, h')"
    "rows h' = rows h @ [R_bind (ck_name k) (bind_name BIND_FD) (bind_owner BIND_FD) sm un st '''']"
proof -
  obtain sm un st h' where c: "con_run env k BIND_FD h = Some (Some (sm, un, st), h')" "rows h' = rows h"
    by (rule con_run_works [OF assms])
  let ?row = "R_bind (ck_name k) (bind_name BIND_FD) (bind_owner BIND_FD) sm un st ''''"
  have "con_bind env k BIND_FD (None, h) = Some (Some sm, h' @ [D_print ?row])" by (simp add: con_bind_def c)
  then show ?thesis by (rule that) (simp add: c)
qed

lemma con_binds_rest:
  assumes "ion_works env" and "BIND_FD \<notin> set ms"
  shows "\<exists>rs h'. con_binds env k ms (Some f, h) = Some (Some f, h') \<and> length rs = length ms \<and>
    rows h' = rows h @ map2 (\<lambda>m (sm, un, st). R_bind (ck_name k) (bind_name m) (bind_owner m) sm un st
      (if sm = f then ''MATCH'' else ''DIFFERS-FROM-FD'')) ms rs"
  using assms(2)
proof (induction ms arbitrary: h)
  case (Cons m ms)
  obtain sm un st h1 where c: "con_run env k m h = Some (Some (sm, un, st), h1)" "rows h1 = rows h"
    by (rule con_run_works [OF assms(1)])
  let ?v = "if sm = f then ''MATCH'' else ''DIFFERS-FROM-FD''"
  let ?h = "h1 @ [D_print (R_bind (ck_name k) (bind_name m) (bind_owner m) sm un st ?v)]"
  have b: "con_bind env k m (Some f, h) = Some (Some f, ?h)" using Cons.prems by (auto simp: con_bind_def c)
  obtain rs h' where r: "con_binds env k ms (Some f, ?h) = Some (Some f, h')" "length rs = length ms"
    "rows h' = rows ?h @ map2 (\<lambda>m (sm, un, st). R_bind (ck_name k) (bind_name m) (bind_owner m) sm un st
      (if sm = f then ''MATCH'' else ''DIFFERS-FROM-FD'')) ms rs"
    using Cons.IH [of ?h] Cons.prems by auto
  show ?case by (rule exI [of _ "(sm, un, st) # rs"], rule exI [of _ h']) (simp add: b r c split del: if_split)
qed simp

text \<open>The table of verdicts is complete and exact when ION has memory left: every case gives one row per binding in
  the order of the enumeration, the first is the reference and has no verdict, and each later one says \<^verbatim>\<open>MATCH\<close> exactly
  when its checksum is the reference's.\<close>

theorem verdicts_exact:
  assumes "ion_works env"
  shows "\<exists>f un st rs h'. con_binds env k modes (None, h) = Some (Some f, h') \<and> length rs = 4 \<and>
    rows h' = rows h @ R_bind (ck_name k) ''fd'' ''gpu_aux/sweep'' f un st '''' #
      map2 (\<lambda>m (sm, un, st). R_bind (ck_name k) (bind_name m) (bind_owner m) sm un st
        (if sm = f then ''MATCH'' else ''DIFFERS-FROM-FD'')) (tl modes) rs"
proof -
  obtain f un st h1 where b: "con_bind env k BIND_FD (None, h) = Some (Some f, h1)"
    "rows h1 = rows h @ [R_bind (ck_name k) (bind_name BIND_FD) (bind_owner BIND_FD) f un st '''']"
    by (rule con_bind_fd [OF assms])
  have m: "modes = BIND_FD # tl modes" "BIND_FD \<notin> set (tl modes)" "length (tl modes) = 4" by (simp_all add: modes_def)
  obtain rs h' where r: "con_binds env k (tl modes) (Some f, h1) = Some (Some f, h')" "length rs = length (tl modes)"
    "rows h' = rows h1 @ map2 (\<lambda>m (sm, un, st). R_bind (ck_name k) (bind_name m) (bind_owner m) sm un st
      (if sm = f then ''MATCH'' else ''DIFFERS-FROM-FD'')) (tl modes) rs"
    using con_binds_rest [OF assms m(2), of k f h1] by auto
  have "con_binds env k modes (None, h) = Some (Some f, h')" using b(1) r(1) by (subst m(1)) simp
  then show ?thesis using r(2,3) m(3) b(2) by (auto simp: bind_name_def bind_owner_def)
qed

section \<open>The whole program\<close>

lemma con_bind_total: "con_bind env k m r \<noteq> None"
  using con_run_total [of env k m "snd r"] by (auto simp: con_bind_def Let_def split: prod.splits option.splits)

lemma con_binds_total: "con_binds env k ms r \<noteq> None"
proof (induction ms arbitrary: r)
  case (Cons m ms)
  then show ?case using con_bind_total [of env k m r] by auto
qed simp

lemma con_sweep_total: "con_sweep env ks h \<noteq> None"
proof (induction ks arbitrary: h)
  case (Cons k ks)
  then show ?case using con_binds_total [of env k modes "(None, h)"] by auto
qed simp

text \<open>The probe never reads outside a buffer, and ends.\<close>

theorem consumer_defined: "consumer_main env argv \<noteq> None"
  using con_sweep_total by (auto simp: consumer_main_def Let_def)

lemma live_con_bind:
  assumes "con_bind env k m (ref, h) = Some (ref', h')"
  shows "(allocated h' \<longrightarrow> allocated h) \<and> (allocated h' \<longrightarrow> live F M h \<longrightarrow> live F M h')"
proof -
  obtain r h1 where c: "con_run env k m h = Some (r, h1)" using con_run_total [of env k m h] by auto
  show ?thesis
  proof (cases r)
    case None
    then show ?thesis using assms by (auto simp: con_bind_def c allocated_def)
  next
    case (Some x)
    obtain rep where e: "h' = h1 @ [D_print (R_bind (ck_name k) (bind_name m) (bind_owner m) (fst x) (fst (snd x)) (snd (snd x)) rep)]"
      using assms Some by (cases x) (auto simp: con_bind_def c Let_def)
    have l: "live F M h \<Longrightarrow> live F M h1" using live_con_run c Some by blast
    have "allocated h1 \<longrightarrow> allocated h" using c
    proof (cases rule: con_run_cases)
      case (Run src g1 dst g2 g3 y)
      then show ?thesis
        using adds_allocated [OF Run(4)] alloc_ion_extends [of env "total_of (con_src_planes k)" h]
          alloc_ion_extends [of env "total_of (con_dst_planes k)" g1] by auto
    qed (simp add: Some)
    with l show ?thesis by (auto simp: e live_def)
  qed
qed

lemma live_con_binds:
  "con_binds env k ms r = Some (ref', h') \<Longrightarrow> (allocated h' \<longrightarrow> allocated (snd r)) \<and> (allocated h' \<longrightarrow> live F M (snd r) \<longrightarrow> live F M h')"
proof (induction ms arbitrary: r)
  case (Cons m ms)
  obtain ref1 h1 where c: "con_bind env k m r = Some (ref1, h1)" and b: "con_binds env k ms (ref1, h1) = Some (ref', h')"
    using Cons.prems by (auto split: option.splits)
  show ?case using live_con_bind [of env k m "fst r" "snd r" ref1 h1 F M] c Cons.IH [OF b] by simp
qed simp

lemma live_con_sweep:
  "con_sweep env ks h = Some h' \<Longrightarrow> (allocated h' \<longrightarrow> allocated h) \<and> (allocated h' \<longrightarrow> live F M h \<longrightarrow> live F M h')"
proof (induction ks arbitrary: h)
  case (Cons k ks)
  obtain ref1 h1 where c: "con_binds env k modes (None, h) = Some (ref1, h1)" and b: "con_sweep env ks h1 = Some h'"
    using Cons.prems by (auto split: option.splits)
  show ?case using live_con_binds [OF c, of F M] Cons.IH [OF b] by auto
qed simp

lemma probe_pq_neutral: "adds neutral h (probe_pq env h)"
  unfolding probe_pq_def by (rule adds_fold) (simp add: call_def adds_append)

text \<open>The probe gives back what it was given: when no allocation failed, both descriptors and both mappings of every
  blit are released, through every way of binding the buffers.\<close>

theorem consumer_releases:
  assumes "consumer_main env argv = Some (rc, h)" and "allocated h"
  shows "total_fds closed h = total_fds opened h \<and> total_fds unmapped h = total_fds mapped h"
proof (cases "d_ion env < 0")
  case True
  then show ?thesis using assms by (auto simp: consumer_main_def Let_def)
next
  case False
  let ?i = "[D_ion_open (d_ion env)]"
  obtain h1 where s: "con_sweep env con_cases ?i = Some h1 \<or> h1 = ?i" and h: "h = probe_pq env h1"
    using assms(1) False by (auto simp: consumer_main_def Let_def split: if_splits)
  have "allocated h1" using adds_allocated [OF probe_pq_neutral] assms(2) by (simp add: h)
  moreover have "live {#} {#} ?i" by (simp add: live_def)
  ultimately have "live {#} {#} h1" using s live_con_sweep by blast
  then have "live {#} {#} h" unfolding h by (rule live_neutral [OF _ probe_pq_neutral])
  then show ?thesis by (simp add: live_def)
qed

text \<open>The scenarios stock accepts.\<close>

lemma would_accept_iff: "list_all (\<lambda>sc. would_accept sc = (sc = 1 \<or> sc = 2 \<or> sc = 4)) [0, 1, 2, 3, 4, 5]"
  by code_simp

theorem verdicts_exact_witness:
  "\<exists>f un st rs h'. con_binds demo_dp (con_cases ! 0) modes (None, []) = Some (Some f, h') \<and> length rs = 4 \<and>
    rows h' = R_bind ''baseline'' ''fd'' ''gpu_aux/sweep'' f un st '''' #
      map2 (\<lambda>m (sm, un, st). R_bind ''baseline'' (bind_name m) (bind_owner m) sm un st
        (if sm = f then ''MATCH'' else ''DIFFERS-FROM-FD'')) (tl modes) rs"
proof -
  have "ck_name (con_cases ! 0) = ''baseline''" by (simp add: con_cases_def)
  then show ?thesis using verdicts_exact [of demo_dp "con_cases ! 0" "[]"] by simp
qed

end
