(* ===== verification/Sensor_Queue.thy ===== *)
theory Sensor_Queue
  imports XD_Prelude
begin

text \<open>
  \<^verbatim>\<open>src/sensors/SensorEventQueue.cpp\<close>: the fixed-size circular queue between a sub-HAL's polling thread and the
  multi-HAL's \<^verbatim>\<open>poll\<close>. A pointer into the array is its index. The only length the program asks for is the
  capacity, 36, and every sum stays far below the range of \<^verbatim>\<open>int\<close> (\<open>region_no_overflow\<close>).

  The locale \<open>event_queue\<close> is the queue's contract: a list of readable events; a region the writer may fill while
  the reader goes on reading and dequeuing; the region becoming readable, in order, when it is marked.
\<close>

section \<open>The queue\<close>

record 'e SensorEventQueue =
  mCapacity :: int
  mStart :: int
  mSize :: int
  mData :: "'e list"

definition SensorEventQueue_new :: "int \<Rightarrow> 'e list \<Rightarrow> 'e SensorEventQueue" where
  "SensorEventQueue_new capacity junk = \<lparr>mCapacity = capacity, mStart = 0, mSize = 0, mData = take (nat capacity) junk\<rparr>"

definition getWritableRegion :: "int \<Rightarrow> 'e SensorEventQueue \<Rightarrow> int option \<times> int" where
  "getWritableRegion requestedLength q =
     (if mSize q = mCapacity q \<or> requestedLength \<le> 0 then (None, 0)
      else
        let firstWritable = (mStart q + mSize q) mod mCapacity q;
            lastWritable = firstWritable + requestedLength - 1;
            lastWritable = (if lastWritable > mCapacity q - 1 then mCapacity q - 1 else lastWritable);
            lastWritable = (if firstWritable < mStart q \<and> lastWritable \<ge> mStart q then mStart q - 1 else lastWritable)
        in (Some firstWritable, lastWritable - firstWritable + 1))"

definition markAsWritten :: "int \<Rightarrow> 'e SensorEventQueue \<Rightarrow> 'e SensorEventQueue" where
  "markAsWritten cnt q = q\<lparr>mSize := mSize q + cnt\<rparr>"

definition getSize :: "'e SensorEventQueue \<Rightarrow> int" where
  "getSize q = mSize q"

definition peek :: "'e SensorEventQueue \<Rightarrow> 'e option" where
  "peek q = (if mSize q = 0 then None else Some (mData q ! nat (mStart q)))"

text \<open>The flag says whether the writers that wait for space are woken.\<close>

definition dequeue :: "'e SensorEventQueue \<Rightarrow> bool \<times> 'e SensorEventQueue" where
  "dequeue q =
     (if mSize q = 0 then (False, q)
      else (mSize q = mCapacity q, q\<lparr>mSize := mSize q - 1, mStart := (mStart q + 1) mod mCapacity q\<rparr>))"

text \<open>The test of \<^verbatim>\<open>waitForSpace\<close>'s loop.\<close>

definition is_full :: "'e SensorEventQueue \<Rightarrow> bool" where
  "is_full q \<longleftrightarrow> mSize q = mCapacity q"

text \<open>A store through the pointer the writer was given.\<close>

definition store :: "int \<Rightarrow> 'e \<Rightarrow> 'e SensorEventQueue \<Rightarrow> 'e SensorEventQueue" where
  "store i e q = q\<lparr>mData := (mData q)[nat i := e]\<rparr>"

section \<open>Invariant and contents\<close>

definition queue_ok :: "'e SensorEventQueue \<Rightarrow> bool" where
  "queue_ok q \<longleftrightarrow> 0 < mCapacity q \<and> 0 \<le> mStart q \<and> mStart q < mCapacity q \<and> 0 \<le> mSize q \<and> mSize q \<le> mCapacity q \<and>
     length (mData q) = nat (mCapacity q)"

definition slot :: "'e SensorEventQueue \<Rightarrow> int \<Rightarrow> nat" where
  "slot q j = nat ((mStart q + j) mod mCapacity q)"

definition contents :: "'e SensorEventQueue \<Rightarrow> 'e list" where
  "contents q = map (\<lambda>j. mData q ! slot q (int j)) [0..<nat (mSize q)]"

text \<open>The writer may fill \<open>n\<close> slots from \<open>i\<close> on; \<open>cells q i n\<close> is what they hold.\<close>

definition region_ok :: "'e SensorEventQueue \<Rightarrow> int \<Rightarrow> int \<Rightarrow> bool" where
  "region_ok q i n \<longleftrightarrow> i = (mStart q + mSize q) mod mCapacity q \<and> 0 \<le> n \<and> i + n \<le> mCapacity q \<and> mSize q + n \<le> mCapacity q"

definition cells :: "'e SensorEventQueue \<Rightarrow> int \<Rightarrow> int \<Rightarrow> 'e list" where
  "cells q i n = take (nat n) (drop (nat i) (mData q))"

lemma slot_bound: "queue_ok q \<Longrightarrow> slot q j < length (mData q)"
  by (simp add: queue_ok_def slot_def nat_less_iff)

text \<open>Positions of the ring that are less than a lap apart are different slots.\<close>

lemma mod_inj:
  fixes a b c :: int
  assumes "0 < c" and "a mod c = b mod c" and "\<bar>a - b\<bar> < c"
  shows "a = b"
proof -
  have "c dvd a - b" using assms(2) by (simp add: mod_eq_dvd_iff)
  with assms(1,3) show ?thesis using dvd_imp_le_int [of "a - b" c] by (cases "a = b") auto
qed

lemma slot_region:
  assumes "queue_ok q" and "region_ok q i n" and "0 \<le> k" and "k < n"
  shows "slot q (mSize q + k) = nat (i + k)"
proof -
  have "(mStart q + (mSize q + k)) mod mCapacity q = (i + k) mod mCapacity q"
    using assms(2) by (simp add: region_ok_def mod_simps add.assoc)
  also have "\<dots> = i + k" using assms by (intro mod_pos_pos_trivial) (auto simp: region_ok_def queue_ok_def)
  finally show ?thesis by (simp add: slot_def)
qed

lemma slot_inj:
  assumes "queue_ok q" and "slot q j = slot q k" and "0 \<le> j" and "0 \<le> k" and "j < mCapacity q" and "k < mCapacity q"
  shows "j = k"
proof -
  have c: "0 < mCapacity q" using assms(1) by (simp add: queue_ok_def)
  have "(mStart q + j) mod mCapacity q = (mStart q + k) mod mCapacity q"
    using assms(2) c by (simp add: slot_def nat_eq_iff2)
  from mod_inj [OF c this] assms(3-6) show ?thesis by simp
qed


section \<open>Operations\<close>

lemma contents_length [simp]: "length (contents q) = nat (mSize q)"
  by (simp add: contents_def)

lemma contents_nil: "queue_ok q \<Longrightarrow> contents q = [] \<longleftrightarrow> mSize q = 0"
  by (auto simp: contents_def queue_ok_def)

lemma peek_contents: "queue_ok q \<Longrightarrow> peek q = (case contents q of [] \<Rightarrow> None | e # es \<Rightarrow> Some e)"
proof (cases "mSize q = 0")
  case False
  assume ok: "queue_ok q"
  then have "[0..<nat (mSize q)] = 0 # [1..<nat (mSize q)]" using False by (auto simp: queue_ok_def upt_conv_Cons)
  moreover have "slot q 0 = nat (mStart q)" using ok by (simp add: slot_def queue_ok_def)
  ultimately show ?thesis using False by (simp add: peek_def contents_def)
qed (simp add: peek_def contents_def)

lemma dequeue_ok: "queue_ok q \<Longrightarrow> queue_ok (snd (dequeue q))"
  by (auto simp: queue_ok_def dequeue_def)

lemma dequeue_slot: "queue_ok q \<Longrightarrow> mSize q \<noteq> 0 \<Longrightarrow> slot (snd (dequeue q)) j = slot q (j + 1)"
  by (simp add: slot_def dequeue_def mod_simps algebra_simps)

lemma dequeue_contents:
  assumes "queue_ok q"
  shows "contents (snd (dequeue q)) = tl (contents q)"
proof (cases "mSize q = 0")
  case False
  with assms have n: "nat (mSize q) = Suc (nat (mSize q - 1))" by (auto simp: queue_ok_def)
  have "contents (snd (dequeue q)) = map (\<lambda>j. mData q ! slot q (int j + 1)) [0..<nat (mSize q - 1)]"
    using False dequeue_slot [OF assms False] unfolding contents_def by (simp add: dequeue_def)
  also have "\<dots> = map (\<lambda>j. mData q ! slot q (int j)) (map Suc [0..<nat (mSize q - 1)])" by (simp add: add.commute)
  also have "\<dots> = tl (contents q)" unfolding contents_def n map_Suc_upt by (simp add: map_tl [symmetric] upt_rec)
  finally show ?thesis .
qed (simp add: dequeue_def contents_def)

lemma dequeue_region:
  assumes "queue_ok q" and "region_ok q i n"
  shows "region_ok (snd (dequeue q)) i n \<and> cells (snd (dequeue q)) i n = cells q i n"
proof (cases "mSize q = 0")
  case False
  have "((mStart q + 1) mod mCapacity q + (mSize q - 1)) mod mCapacity q = (mStart q + mSize q) mod mCapacity q"
    using mod_add_left_eq [of "mStart q + 1" "mCapacity q" "mSize q - 1"] by simp
  then show ?thesis using assms False by (simp add: region_ok_def dequeue_def cells_def)
qed (use assms in \<open>simp add: dequeue_def\<close>)

lemma dequeue_wakes: "queue_ok q \<Longrightarrow> fst (dequeue q) = is_full q"
  by (auto simp: dequeue_def is_full_def queue_ok_def)

lemma store_ok: "queue_ok q \<Longrightarrow> queue_ok (store i e q)"
  by (simp add: queue_ok_def store_def)

lemma store_region: "region_ok (store j e q) i n = region_ok q i n"
  by (simp add: region_ok_def store_def)

lemma store_contents:
  assumes "queue_ok q" and "region_ok q i n" and "0 \<le> k" and "k < n"
  shows "contents (store (i + k) e q) = contents q"
proof -
  have "slot q (int j) \<noteq> nat (i + k)" if "j < nat (mSize q)" for j
  proof
    have b: "int j < mSize q" "mSize q + k < mCapacity q" "0 \<le> mSize q"
      using that assms by (auto simp: region_ok_def queue_ok_def zless_nat_eq_int_zless)
    assume "slot q (int j) = nat (i + k)"
    then have "int j = mSize q + k"
      using slot_inj [OF assms(1), of "int j" "mSize q + k"] slot_region [OF assms] b assms(3) by simp
    then show False using b(1) assms(3) by simp
  qed
  then have "(mData q)[nat (i + k) := e] ! slot q (int j) = mData q ! slot q (int j)" if "j < nat (mSize q)" for j
    using that by (metis nth_list_update_neq)
  then show ?thesis by (simp add: contents_def store_def slot_def)
qed

lemma store_cells:
  assumes "queue_ok q" and "region_ok q i n" and "0 \<le> k" and "k < n"
  shows "cells (store (i + k) e q) i n = (cells q i n)[nat k := e]"
proof -
  have "0 \<le> i" using assms(1,2) by (simp add: region_ok_def queue_ok_def)
  then have "nat (i + k) = nat i + nat k" using assms(3) by (simp add: nat_add_distrib)
  then show ?thesis using assms(3,4) by (simp add: cells_def store_def drop_update_swap take_update_swap)
qed

lemma cells_length: "queue_ok q \<Longrightarrow> region_ok q i n \<Longrightarrow> length (cells q i n) = nat n"
  by (auto simp: cells_def queue_ok_def region_ok_def nat_le_iff)

lemma mark_ok: "queue_ok q \<Longrightarrow> region_ok q i n \<Longrightarrow> 0 \<le> m \<Longrightarrow> m \<le> n \<Longrightarrow> queue_ok (markAsWritten m q)"
  by (auto simp: queue_ok_def region_ok_def markAsWritten_def)

lemma mark_contents:
  assumes "queue_ok q" and "region_ok q i n" and "0 \<le> m" and "m \<le> n"
  shows "contents (markAsWritten m q) = contents q @ take (nat m) (cells q i n)"
proof -
  have i: "0 \<le> i" using assms(1,2) by (simp add: region_ok_def queue_ok_def)
  have "nat (mSize q + m) = nat (mSize q) + nat m" using assms(1,3) by (simp add: queue_ok_def nat_add_distrib)
  then have "contents (markAsWritten m q) = contents q @ map (\<lambda>j. mData q ! slot q (int j)) [nat (mSize q)..<nat (mSize q) + nat m]"
    using upt_add_eq_append [of 0 "nat (mSize q)" "nat m"] by (simp add: contents_def markAsWritten_def slot_def)
  moreover have "map (\<lambda>j. mData q ! slot q (int j)) [nat (mSize q)..<nat (mSize q) + nat m] = take (nat m) (cells q i n)"
  proof (rule nth_equalityI)
    show l: "length (map (\<lambda>j. mData q ! slot q (int j)) [nat (mSize q)..<nat (mSize q) + nat m]) = length (take (nat m) (cells q i n))"
      using cells_length [OF assms(1,2)] assms(4) by (simp add: nat_mono)
    fix k assume "k < length (map (\<lambda>j. mData q ! slot q (int j)) [nat (mSize q)..<nat (mSize q) + nat m])"
    then have k: "k < nat m" by simp
    have "int (nat (mSize q) + k) = mSize q + int k" using assms(1) by (simp add: queue_ok_def)
    then have "slot q (int (nat (mSize q) + k)) = nat (i + int k)"
      using slot_region [OF assms(1,2), of "int k"] k assms(4) by simp
    moreover have "nat (i + int k) = nat i + k" using i by simp
    moreover have "k < nat n" "nat i \<le> length (mData q)"
      using k nat_mono [OF assms(4)] assms(1,2) by (simp_all add: queue_ok_def region_ok_def nat_mono)
    ultimately show "map (\<lambda>j. mData q ! slot q (int j)) [nat (mSize q)..<nat (mSize q) + nat m] ! k = take (nat m) (cells q i n) ! k"
      using k by (simp add: cells_def del: take_take)
  qed
  ultimately show ?thesis by simp
qed

lemma region_given:
  assumes "queue_ok q" and "getWritableRegion r q = (Some i, n)"
  shows "region_ok q i n \<and> 1 \<le> n \<and> n \<le> r"
proof -
  have c: "0 < mCapacity q" "0 \<le> mStart q" "mStart q < mCapacity q" "0 \<le> mSize q" "mSize q < mCapacity q" "0 < r"
    and i: "i = (mStart q + mSize q) mod mCapacity q"
    and n: "n = (let l = min (i + r - 1) (mCapacity q - 1) in if i < mStart q \<and> mStart q \<le> l then mStart q - 1 else l) - i + 1"
    using assms by (auto simp: getWritableRegion_def queue_ok_def Let_def min_def split: if_splits)
  have "i = mStart q + mSize q \<or> i = mStart q + mSize q - mCapacity q"
  proof (cases "mStart q + mSize q < mCapacity q")
    case True
    then show ?thesis using c by (simp add: i)
  next
    case False
    then have "(mStart q + mSize q) mod mCapacity q = mStart q + mSize q - mCapacity q"
      using c by (subst minus_mod_self2 [symmetric]) (rule mod_pos_pos_trivial; simp)
    then show ?thesis by (simp add: i)
  qed
  moreover have "0 \<le> i" "i < mCapacity q" using c by (simp_all add: i)
  ultimately show ?thesis using c unfolding n region_ok_def i [symmetric] by (auto simp: Let_def min_def split: if_splits)
qed

lemma region_none: "queue_ok q \<Longrightarrow> 0 < r \<Longrightarrow> fst (getWritableRegion r q) = None \<longleftrightarrow> is_full q"
  by (simp add: getWritableRegion_def Let_def is_full_def)


text \<open>No intermediate value leaves \<^verbatim>\<open>int\<close> for the capacities and lengths in use.\<close>

lemma region_no_overflow:
  assumes "queue_ok q" and "mCapacity q \<le> 2 ^ 29" and "r \<le> 2 ^ 29"
  shows "mStart q + mSize q < 2 ^ 31" and "(mStart q + mSize q) mod mCapacity q + r - 1 < 2 ^ 31"
proof -
  have c: "mCapacity q \<le> 536870912" "r \<le> 536870912" using assms(2,3) by simp_all
  have "mStart q < mCapacity q" "mSize q \<le> mCapacity q" using assms(1) by (simp_all add: queue_ok_def)
  with c have "mStart q + mSize q < 2147483648" by linarith
  then show "mStart q + mSize q < 2 ^ 31" by simp
  have "(mStart q + mSize q) mod mCapacity q < mCapacity q" using assms(1) by (intro pos_mod_bound) (simp add: queue_ok_def)
  with c have "(mStart q + mSize q) mod mCapacity q + r - 1 < 2147483648" by linarith
  then show "(mStart q + mSize q) mod mCapacity q + r - 1 < 2 ^ 31" by simp
qed

section \<open>The contract\<close>

text \<open>What the other threads may do between the writer getting its region and marking it: the writer's device
  stores into the region, the reader dequeues.\<close>

datatype 'e qop = Put int 'e | Deq

locale event_queue =
  fixes ok :: "'q \<Rightarrow> bool" and readable :: "'q \<Rightarrow> 'e list" and full :: "'q \<Rightarrow> bool"
    and owns :: "'q \<Rightarrow> int \<Rightarrow> int \<Rightarrow> bool" and held :: "'q \<Rightarrow> int \<Rightarrow> int \<Rightarrow> 'e list"
    and ask :: "int \<Rightarrow> 'q \<Rightarrow> int option \<times> int" and first :: "'q \<Rightarrow> 'e option" and drop1 :: "'q \<Rightarrow> bool \<times> 'q"
    and put :: "int \<Rightarrow> 'e \<Rightarrow> 'q \<Rightarrow> 'q" and commit :: "int \<Rightarrow> 'q \<Rightarrow> 'q"
  assumes first: "ok q \<Longrightarrow> first q = (case readable q of [] \<Rightarrow> None | e # es \<Rightarrow> Some e)"
    and drop1_ok: "ok q \<Longrightarrow> ok (snd (drop1 q))"
    and drop1_readable: "ok q \<Longrightarrow> readable (snd (drop1 q)) = tl (readable q)"
    and drop1_owns: "ok q \<Longrightarrow> owns q i n \<Longrightarrow> owns (snd (drop1 q)) i n \<and> held (snd (drop1 q)) i n = held q i n"
    and drop1_wakes: "ok q \<Longrightarrow> fst (drop1 q) = full q"
    and ask_owns: "ok q \<Longrightarrow> ask r q = (Some i, n) \<Longrightarrow> owns q i n \<and> 1 \<le> n \<and> n \<le> r"
    and ask_none: "ok q \<Longrightarrow> 0 < r \<Longrightarrow> fst (ask r q) = None \<longleftrightarrow> full q"
    and put_ok: "ok q \<Longrightarrow> ok (put j e q)"
    and put_owns: "owns (put j e q) i n = owns q i n"
    and put_readable: "\<lbrakk>ok q; owns q i n; 0 \<le> k; k < n\<rbrakk> \<Longrightarrow> readable (put (i + k) e q) = readable q"
    and put_held: "\<lbrakk>ok q; owns q i n; 0 \<le> k; k < n\<rbrakk> \<Longrightarrow> held (put (i + k) e q) i n = (held q i n)[nat k := e]"
    and held_length: "ok q \<Longrightarrow> owns q i n \<Longrightarrow> length (held q i n) = nat n"
    and commit_ok: "\<lbrakk>ok q; owns q i n; 0 \<le> m; m \<le> n\<rbrakk> \<Longrightarrow> ok (commit m q)"
    and commit_readable: "\<lbrakk>ok q; owns q i n; 0 \<le> m; m \<le> n\<rbrakk> \<Longrightarrow> readable (commit m q) = readable q @ take (nat m) (held q i n)"
begin

text \<open>The queue after the stores and dequeues, and the cells of the region after the stores.\<close>

lemma interleaved:
  assumes "ok q" and "owns q i n" and "list_all (\<lambda>c. case c of Put k e \<Rightarrow> 0 \<le> k \<and> k < n | Deq \<Rightarrow> True) ops"
    and "q' = fold (\<lambda>c q. case c of Put k e \<Rightarrow> put (i + k) e q | Deq \<Rightarrow> snd (drop1 q)) ops q"
  shows "ok q' \<and> owns q' i n \<and> readable q' = drop (length (filter (\<lambda>c. c = Deq) ops)) (readable q) \<and>
    held q' i n = fold (\<lambda>c xs. case c of Put k e \<Rightarrow> xs[nat k := e] | Deq \<Rightarrow> xs) ops (held q i n)"
  using assms
proof (induction ops arbitrary: q)
  case (Cons c ops)
  show ?case
  proof (cases c)
    case (Put k e)
    then have "0 \<le> k" "k < n" using Cons.prems(3) by simp_all
    with Cons.prems Put show ?thesis
      using Cons.IH [of "put (i + k) e q"] by (simp add: put_ok put_owns put_readable put_held)
  next
    case Deq
    with Cons.prems show ?thesis
      using Cons.IH [of "snd (drop1 q)"] by (simp add: drop1_ok drop1_owns drop1_readable drop_Suc)
  qed
qed simp

end

interpretation ring: event_queue queue_ok contents is_full region_ok cells getWritableRegion peek dequeue store markAsWritten
  by unfold_locales
    (simp_all add: peek_contents dequeue_ok dequeue_contents dequeue_region dequeue_wakes region_given region_none store_ok
      store_region store_contents store_cells cells_length mark_ok mark_contents)

text \<open>C15. The circular queue is a first-in first-out queue whose writer needs no lock while it writes. From any queue
  that is not full the writer is given a region of at least one slot; whatever it stores there and however often the
  reader dequeues in the meantime, the events the reader sees are those that were readable, less those dequeued; and
  when the first \<open>m\<close> slots are marked as written, exactly their contents are appended, in order.\<close>

theorem queue_fifo_while_written:
  assumes "queue_ok q" and "getWritableRegion r q = (Some i, n)"
    and "list_all (\<lambda>c. case c of Put k e \<Rightarrow> 0 \<le> k \<and> k < n | Deq \<Rightarrow> True) ops"
    and "q' = fold (\<lambda>c q. case c of Put k e \<Rightarrow> store (i + k) e q | Deq \<Rightarrow> snd (dequeue q)) ops q" and "0 \<le> m" and "m \<le> n"
  shows "1 \<le> n \<and> n \<le> r \<and> queue_ok (markAsWritten m q') \<and>
    contents q' = drop (length (filter (\<lambda>c. c = Deq) ops)) (contents q) \<and>
    contents (markAsWritten m q') = contents q' @
      take (nat m) (fold (\<lambda>c xs. case c of Put k e \<Rightarrow> xs[nat k := e] | Deq \<Rightarrow> xs) ops (cells q i n))"
proof -
  have o: "region_ok q i n" "1 \<le> n" "n \<le> r" using ring.ask_owns [OF assms(1,2)] by simp_all
  note i = ring.interleaved [OF assms(1) o(1) assms(3,4)]
  then show ?thesis using o ring.commit_ok [of q' i n m] ring.commit_readable [of q' i n m] assms(5,6) by simp
qed

theorem queue_fifo_while_written_witness:
  "let q = \<lparr>mCapacity = 3, mStart = 2, mSize = 1, mData = [0, 0, 7 :: nat]\<rparr>;
       q' = fold (\<lambda>c q. case c of Put k e \<Rightarrow> store (0 + k) e q | Deq \<Rightarrow> snd (dequeue q)) [Put 0 8, Deq, Put 1 9] q
   in getWritableRegion 36 q = (Some 0, 2) \<and> contents q = [7] \<and> contents q' = [] \<and> contents (markAsWritten 2 q') = [8, 9]"
proof -
  let ?q = "\<lparr>mCapacity = 3, mStart = 2, mSize = 1, mData = [0, 0, 7 :: nat]\<rparr>"
  let ?q' = "fold (\<lambda>c q. case c of Put k e \<Rightarrow> store (0 + k) e q | Deq \<Rightarrow> snd (dequeue q)) [Put 0 8, Deq, Put 1 9] ?q"
  have r: "getWritableRegion 36 ?q = (Some 0, 2)" by (simp add: getWritableRegion_def)
  have c: "contents ?q = [7]" by (simp add: contents_def slot_def)
  have "contents ?q' = [] \<and> contents (markAsWritten 2 ?q') = [8, 9]"
    using queue_fifo_while_written [OF _ r, of "[Put 0 8, Deq, Put 1 9]" ?q' 2] c
    by (simp add: queue_ok_def cells_def)
  then show ?thesis using r c by (simp add: Let_def)
qed

end
