(* ===== verification/Sensor_Hal.thy ===== *)
theory Sensor_Hal
  imports Sensor_Queue "HOL-Library.Sublist"
begin

text \<open>
  \<^verbatim>\<open>src/sensors/multihal.cpp\<close> without its threads: the handle maps, the loading and opening of the sub-HALs, the merged
  list of sensors and the calls that are passed on. \<open>hal\<close> holds the statics of the file, \<open>sensors_poll_context_t\<close> the
  device \<^verbatim>\<open>open\<close> returns. The sub-HALs, the loader and the configuration files are the parameter \<open>sub_env\<close>, which answers
  from the history of calls; the constants of \<^verbatim>\<open>hardware/sensors.h\<close>, which is not part of the tree, are fields of it.
  A crash of the code is a \<open>fault\<close>.
\<close>

section \<open>Data\<close>

datatype FullHandle = FullHandle (moduleIndex: int) (localHandle: int)

text \<open>The order of the map that is keyed by \<open>FullHandle\<close>.\<close>

instantiation FullHandle :: linorder
begin

definition less_FullHandle :: "FullHandle \<Rightarrow> FullHandle \<Rightarrow> bool" where
  "less_FullHandle a b =
     (if moduleIndex a < moduleIndex b then True
      else if moduleIndex a > moduleIndex b then False
      else localHandle a < localHandle b)"

definition less_eq_FullHandle :: "FullHandle \<Rightarrow> FullHandle \<Rightarrow> bool" where
  "less_eq_FullHandle a b \<longleftrightarrow> a < b \<or> a = b"

instance
proof
  fix x y z :: FullHandle
  show "x < y \<longleftrightarrow> x \<le> y \<and> \<not> y \<le> x" by (auto simp: less_FullHandle_def less_eq_FullHandle_def split: if_splits)
  show "x \<le> x" by (simp add: less_eq_FullHandle_def)
  show "x \<le> y \<Longrightarrow> y \<le> z \<Longrightarrow> x \<le> z" by (auto simp: less_FullHandle_def less_eq_FullHandle_def split: if_splits)
  show "x \<le> y \<Longrightarrow> y \<le> x \<Longrightarrow> x = y" by (auto simp: less_FullHandle_def less_eq_FullHandle_def split: if_splits)
  show "x \<le> y \<or> y \<le> x" by (cases x; cases y) (auto simp: less_FullHandle_def less_eq_FullHandle_def)
qed

end

record sensor_t =
  handle :: int
  stype :: int
  flags :: int
  minDelay :: int
  maxDelay :: int
  rest :: string

text \<open>An event: \<open>ev_meta\<close> is the sensor its payload names when it is a meta-data event.\<close>

record sensors_event_t =
  ev_type :: int
  ev_sensor :: int
  ev_meta :: int
  ev_data :: nat

record sub_device =
  d_id :: nat
  d_version :: int

datatype hal_call =
  S_sleep int
| S_open nat string
| S_list nat
| S_activate nat int int
| S_setDelay nat int int
| S_batch nat int int int int
| S_flush nat int
| S_inject nat sensors_event_t
| S_close nat
| S_thread nat

datatype fault = Null_deref | Out_of_range | Buffer_overrun

record sub_env =
  x_conf :: "string \<Rightarrow> string list option"
  x_dlopen :: "string \<Rightarrow> nat option"
  x_dlsym :: "nat \<Rightarrow> nat option"
  x_open :: "hal_call list \<Rightarrow> nat \<Rightarrow> string \<Rightarrow> int \<times> sub_device"
  x_list :: "hal_call list \<Rightarrow> nat \<Rightarrow> sensor_t list"
  x_call :: "hal_call list \<Rightarrow> hal_call \<Rightarrow> int"
  x_blank :: sensor_t
  x_junk :: "sensors_event_t list"
  EINVAL :: int
  SENSOR_TYPE_META_DATA :: int
  SENSOR_TYPE_PROXIMITY :: int
  SENSOR_TYPE_TILT_DETECTOR :: int
  SENSOR_TYPE_LIGHT :: int
  SENSOR_FLAG_WAKE_UP :: int
  SENSOR_FLAG_ON_CHANGE_MODE :: int
  API_VERSION_1_0 :: int
  API_VERSION_1_1 :: int
  API_VERSION_1_4 :: int

record hal =
  global_to_full :: "int \<rightharpoonup> FullHandle"
  full_to_global :: "FullHandle \<rightharpoonup> int"
  next_global_handle :: int
  sub_hw_modules :: "nat list option"
  sub_hw_versions :: "(nat \<rightharpoonup> int) option"
  global_sensors_list :: "sensor_t list option"
  global_sensors_count :: int
  calls :: "hal_call list"

definition hal_boot :: hal where
  "hal_boot = \<lparr>global_to_full = Map.empty, full_to_global = Map.empty, next_global_handle = 1, sub_hw_modules = None,
     sub_hw_versions = None, global_sensors_list = None, global_sensors_count = -1, calls = []\<rparr>"

record sensors_poll_context_t =
  sub_hw_devices :: "sub_device list"
  queues :: "sensors_event_t SensorEventQueue list"
  nextReadIndex :: int

definition do_call :: "sub_env \<Rightarrow> hal_call \<Rightarrow> hal \<Rightarrow> int \<times> hal" where
  "do_call env c s = (x_call env (calls s) c, s\<lparr>calls := calls s @ [c]\<rparr>)"

section \<open>Handles\<close>

definition assign_global_handle :: "int \<Rightarrow> int \<Rightarrow> hal \<Rightarrow> int \<times> hal" where
  "assign_global_handle module_index local_handle s =
     (let global_handle = next_global_handle s; full_handle = FullHandle module_index local_handle in
      (global_handle, s\<lparr>next_global_handle := next_global_handle s + 1,
         full_to_global := (full_to_global s)(full_handle \<mapsto> global_handle),
         global_to_full := (global_to_full s)(global_handle \<mapsto> full_handle)\<rparr>))"

definition get_local_handle :: "hal \<Rightarrow> int \<Rightarrow> int" where
  "get_local_handle s g = (case global_to_full s g of None \<Rightarrow> -1 | Some f \<Rightarrow> localHandle f)"

definition get_module_index :: "hal \<Rightarrow> int \<Rightarrow> int" where
  "get_module_index s g = (case global_to_full s g of None \<Rightarrow> -1 | Some f \<Rightarrow> moduleIndex f)"

definition get_global_handle :: "hal \<Rightarrow> FullHandle \<Rightarrow> int" where
  "get_global_handle s f = (case full_to_global s f of None \<Rightarrow> -1 | Some g \<Rightarrow> g)"

section \<open>Calls that are passed on\<close>

definition SENSOR_EVENT_QUEUE_CAPACITY :: int where "SENSOR_EVENT_QUEUE_CAPACITY = 36"

definition addSubHwDevice :: "sub_env \<Rightarrow> sub_device \<Rightarrow> sensors_poll_context_t \<Rightarrow> sensors_poll_context_t" where
  "addSubHwDevice env d ctx = ctx\<lparr>sub_hw_devices := sub_hw_devices ctx @ [d],
     queues := queues ctx @ [SensorEventQueue_new SENSOR_EVENT_QUEUE_CAPACITY (x_junk env)]\<rparr>"

text \<open>\<^verbatim>\<open>get_v0_device_by_handle\<close> and \<^verbatim>\<open>get_v1_device_by_handle\<close> differ in the type of the pointer only.\<close>

definition get_device_by_handle :: "hal \<Rightarrow> sensors_poll_context_t \<Rightarrow> int \<Rightarrow> sub_device option" where
  "get_device_by_handle s ctx g =
     (let sub_index = get_module_index s g in
      if sub_index < 0 \<or> sub_index \<ge> int (length (sub_hw_devices ctx)) then None
      else Some (sub_hw_devices ctx ! nat sub_index))"

definition get_device_version_by_handle :: "hal \<Rightarrow> sensors_poll_context_t \<Rightarrow> int \<Rightarrow> int" where
  "get_device_version_by_handle s ctx g = (case get_device_by_handle s ctx g of None \<Rightarrow> -1 | Some d \<Rightarrow> d_version d)"

definition halIsAPILevelCompliant :: "hal \<Rightarrow> sensors_poll_context_t \<Rightarrow> int \<Rightarrow> int \<Rightarrow> bool" where
  "halIsAPILevelCompliant s ctx g level \<longleftrightarrow>
     (let version = get_device_version_by_handle s ctx g in version \<noteq> -1 \<and> version \<ge> level)"

definition activate :: "sub_env \<Rightarrow> sensors_poll_context_t \<Rightarrow> int \<Rightarrow> int \<Rightarrow> hal \<Rightarrow> int \<times> hal" where
  "activate env ctx g enabled s =
     (let local_handle = get_local_handle s g in
      case get_device_by_handle s ctx g of
        Some d \<Rightarrow> if 0 \<le> local_handle then do_call env (S_activate (d_id d) local_handle enabled) s else (- EINVAL env, s)
      | None \<Rightarrow> (- EINVAL env, s))"

definition setDelay :: "sub_env \<Rightarrow> sensors_poll_context_t \<Rightarrow> int \<Rightarrow> int \<Rightarrow> hal \<Rightarrow> int \<times> hal" where
  "setDelay env ctx g ns s =
     (let local_handle = get_local_handle s g in
      case get_device_by_handle s ctx g of
        Some d \<Rightarrow> if 0 \<le> local_handle then do_call env (S_setDelay (d_id d) local_handle ns) s else (- EINVAL env, s)
      | None \<Rightarrow> (- EINVAL env, s))"

text \<open>The older devices' branch reads the list of sensors at the module's index, and passes the global handle on.\<close>

definition batch :: "sub_env \<Rightarrow> sensors_poll_context_t \<Rightarrow> int \<Rightarrow> int \<Rightarrow> int \<Rightarrow> int \<Rightarrow> hal \<Rightarrow> fault + (int \<times> hal)" where
  "batch env ctx g fl period_ns timeout s =
     (let local_handle = get_local_handle s g in
      case get_device_by_handle s ctx g of
        None \<Rightarrow> Inr (- EINVAL env, s)
      | Some d \<Rightarrow>
          if \<not> 0 \<le> local_handle then Inr (- EINVAL env, s)
          else if halIsAPILevelCompliant s ctx g (API_VERSION_1_1 env) then
            Inr (do_call env (S_batch (d_id d) local_handle fl period_ns timeout) s)
          else if period_ns < 0 \<or> timeout < 0 then Inr (- EINVAL env, s)
          else
            case global_sensors_list s of
              None \<Rightarrow> Inl Null_deref
            | Some l \<Rightarrow>
                let sub_index = nat (get_module_index s g) in
                if length l \<le> sub_index then Inl Buffer_overrun
                else
                  let mx = maxDelay (l ! sub_index); mn = minDelay (l ! sub_index);
                      period_ns = (if period_ns < mn then mn else if period_ns > mx then mx else period_ns)
                  in Inr (do_call env (S_setDelay (d_id d) g period_ns) s))"

definition flush :: "sub_env \<Rightarrow> sensors_poll_context_t \<Rightarrow> int \<Rightarrow> hal \<Rightarrow> int \<times> hal" where
  "flush env ctx g s =
     (let local_handle = get_local_handle s g in
      case get_device_by_handle s ctx g of
        None \<Rightarrow> (- EINVAL env, s)
      | Some d \<Rightarrow>
          if \<not> 0 \<le> local_handle then (- EINVAL env, s)
          else if halIsAPILevelCompliant s ctx g (API_VERSION_1_1 env) then do_call env (S_flush (d_id d) local_handle) s
          else (- EINVAL env, s))"

definition inject_sensor_data :: "sub_env \<Rightarrow> sensors_poll_context_t \<Rightarrow> sensors_event_t \<Rightarrow> hal \<Rightarrow> int \<times> hal" where
  "inject_sensor_data env ctx e s =
     (let local_handle = get_local_handle s (ev_sensor e) in
      case get_device_by_handle s ctx (ev_sensor e) of
        None \<Rightarrow> (- EINVAL env, s)
      | Some d \<Rightarrow>
          if halIsAPILevelCompliant s ctx (ev_sensor e) (API_VERSION_1_4 env) \<and> 0 \<le> local_handle
          then do_call env (S_inject (d_id d) e) s
          else (- EINVAL env, s))"

definition ctx_close :: "sub_env \<Rightarrow> sensors_poll_context_t \<Rightarrow> hal \<Rightarrow> int \<times> hal" where
  "ctx_close env ctx s = (0, fold (\<lambda>d s. snd (do_call env (S_close (d_id d)) s)) (sub_hw_devices ctx) s)"

text \<open>The entries of the device's function table that are not mere wrappers.\<close>

definition device__close :: "sub_env \<Rightarrow> sensors_poll_context_t option \<Rightarrow> hal \<Rightarrow> int \<times> hal" where
  "device__close env ctx s = (case ctx of None \<Rightarrow> (0, s) | Some ctx \<Rightarrow> (0, snd (ctx_close env ctx s)))"

definition device__batch :: "sub_env \<Rightarrow> sensors_poll_context_t \<Rightarrow> int \<Rightarrow> int \<Rightarrow> int \<Rightarrow> int \<Rightarrow> hal \<Rightarrow> int \<times> hal" where
  "device__batch env ctx g fl period_ns timeout s = (0, snd (setDelay env ctx g period_ns s))"

text \<open>An event on its way out: its handle becomes global, \<open>-1\<close> if it is unknown.\<close>

definition copy_event_remap_handle :: "sub_env \<Rightarrow> hal \<Rightarrow> sensors_event_t \<Rightarrow> int \<Rightarrow> sensors_event_t" where
  "copy_event_remap_handle env s src sub_index =
     (if ev_type src = SENSOR_TYPE_META_DATA env
      then src\<lparr>ev_meta := get_global_handle s (FullHandle sub_index (ev_meta src))\<rparr>
      else src\<lparr>ev_sensor := get_global_handle s (FullHandle sub_index (ev_sensor src))\<rparr>)"

section \<open>Loading and opening the sub-HALs\<close>

definition starts_with :: "string option \<Rightarrow> string option \<Rightarrow> bool" where
  "starts_with s p =
     (case s of None \<Rightarrow> False | Some s \<Rightarrow> case p of None \<Rightarrow> False
      | Some p \<Rightarrow> length p \<le> length s \<and> take (length p) s = p)"

definition MULTI_HAL_CONFIG_FILE_PATH :: string where
  "MULTI_HAL_CONFIG_FILE_PATH = ''/vendor/etc/sensors/_hals.conf''"

definition DEPRECATED_MULTI_HAL_CONFIG_FILE_PATH :: string where
  "DEPRECATED_MULTI_HAL_CONFIG_FILE_PATH = ''/system/etc/sensors/_hals.conf''"

text \<open>When neither file opens, the stream is the default-constructed one, which is not in a failed state: the test does
  not return, and the path that is compared next is still null.\<close>

definition get_so_paths :: "sub_env \<Rightarrow> fault + string list" where
  "get_so_paths env =
     (case x_conf env MULTI_HAL_CONFIG_FILE_PATH of
        Some ls \<Rightarrow> Inr ls
      | None \<Rightarrow> (case x_conf env DEPRECATED_MULTI_HAL_CONFIG_FILE_PATH of None \<Rightarrow> Inl Null_deref | Some ls \<Rightarrow> Inr ls))"

definition load_module :: "sub_env \<Rightarrow> string \<Rightarrow> nat list" where
  "load_module env p =
     (case x_dlopen env p of
        None \<Rightarrow> []
      | Some lib \<Rightarrow> (case x_dlsym env lib of None \<Rightarrow> [] | Some m \<Rightarrow> if m = null then [] else [m]))"

definition lazy_init_modules :: "sub_env \<Rightarrow> hal \<Rightarrow> fault + hal" where
  "lazy_init_modules env s =
     (case sub_hw_modules s of
        Some ms \<Rightarrow> Inr s
      | None \<Rightarrow>
          (case get_so_paths env of
             Inl e \<Rightarrow> Inl e
           | Inr ps \<Rightarrow> Inr (s\<lparr>sub_hw_modules := Some (concat (map (load_module env) ps)), calls := calls s @ [S_sleep 10000]\<rparr>)))"

definition fix_sensor_flags :: "sub_env \<Rightarrow> int \<Rightarrow> sensor_t \<Rightarrow> sensor_t" where
  "fix_sensor_flags env version sensor =
     (if version \<le> API_VERSION_1_0 env then
        let sensor = (if stype sensor = SENSOR_TYPE_PROXIMITY env \<or> stype sensor = SENSOR_TYPE_TILT_DETECTOR env
                      then sensor\<lparr>flags := or (SENSOR_FLAG_WAKE_UP env) (SENSOR_FLAG_ON_CHANGE_MODE env)\<rparr> else sensor)
        in if stype sensor = SENSOR_TYPE_LIGHT env then sensor\<lparr>flags := SENSOR_FLAG_ON_CHANGE_MODE env\<rparr> else sensor
      else sensor)"

definition list_call :: "sub_env \<Rightarrow> nat \<Rightarrow> hal \<Rightarrow> sensor_t list \<times> hal" where
  "list_call env m s = (x_list env (calls s) m, s\<lparr>calls := calls s @ [S_list m]\<rparr>)"

definition count_sensors :: "sub_env \<Rightarrow> nat list \<Rightarrow> hal \<Rightarrow> hal" where
  "count_sensors env ms s =
     fold (\<lambda>m s. let (l, s) = list_call env m s in s\<lparr>global_sensors_count := global_sensors_count s + int (length l)\<rparr>) ms
       (s\<lparr>global_sensors_count := 0\<rparr>)"

text \<open>One sensor of module \<open>m\<close>, at index \<open>mi\<close>; \<open>out\<close> are the entries of the array written so far.\<close>

definition add_sensor :: "sub_env \<Rightarrow> int \<Rightarrow> nat \<Rightarrow> sensor_t \<Rightarrow> sensor_t list \<times> hal \<Rightarrow> fault + (sensor_t list \<times> hal)" where
  "add_sensor env mi m sensor r =
     (let (out, s) = r in
      if global_sensors_count s \<le> int (length out) then Inl Buffer_overrun
      else
        let (global_handle, s) = assign_global_handle mi (handle sensor) s in
        case sub_hw_versions s of
          None \<Rightarrow> Inl Null_deref
        | Some vs \<Rightarrow>
            (case vs m of
               None \<Rightarrow> Inl Out_of_range
             | Some version \<Rightarrow> Inr (out @ [fix_sensor_flags env version (sensor\<lparr>handle := global_handle\<rparr>)], s)))"

fun add_sensors :: "sub_env \<Rightarrow> int \<Rightarrow> nat \<Rightarrow> sensor_t list \<Rightarrow> sensor_t list \<times> hal \<Rightarrow> fault + (sensor_t list \<times> hal)" where
  "add_sensors env mi m [] r = Inr r"
| "add_sensors env mi m (x # xs) r = (case add_sensor env mi m x r of Inl e \<Rightarrow> Inl e | Inr r \<Rightarrow> add_sensors env mi m xs r)"

fun add_modules :: "sub_env \<Rightarrow> int \<Rightarrow> nat list \<Rightarrow> sensor_t list \<times> hal \<Rightarrow> fault + (sensor_t list \<times> hal)" where
  "add_modules env mi [] r = Inr r"
| "add_modules env mi (m # ms) r =
     (let (out, s) = r; (l, s) = list_call env m s in
      case add_sensors env mi m l (out, s) of Inl e \<Rightarrow> Inl e | Inr r \<Rightarrow> add_modules env (mi + 1) ms r)"

definition lazy_init_sensors_list :: "sub_env \<Rightarrow> hal \<Rightarrow> fault + hal" where
  "lazy_init_sensors_list env s =
     (case global_sensors_list s of
        Some l \<Rightarrow> Inr s
      | None \<Rightarrow>
          (case lazy_init_modules env s of
             Inl e \<Rightarrow> Inl e
           | Inr s \<Rightarrow>
               let ms = the (sub_hw_modules s) in
               case add_modules env 0 ms ([], count_sensors env ms s) of
                 Inl e \<Rightarrow> Inl e
               | Inr (out, s) \<Rightarrow>
                   Inr (s\<lparr>global_sensors_list := Some (out @ replicate (nat (global_sensors_count s) - length out) (x_blank env)),
                          sub_hw_versions := None\<rparr>)))"

definition module__get_sensors_list :: "sub_env \<Rightarrow> hal \<Rightarrow> fault + (int \<times> sensor_t list option \<times> hal)" where
  "module__get_sensors_list env s =
     (case lazy_init_sensors_list env s of
        Inl e \<Rightarrow> Inl e
      | Inr s \<Rightarrow> Inr (global_sensors_count s, global_sensors_list s, s))"

text \<open>\<^verbatim>\<open>insert\<close> keeps an entry that is already there.\<close>

definition open_one :: "sub_env \<Rightarrow> string \<Rightarrow> nat \<Rightarrow> sensors_poll_context_t \<times> hal \<Rightarrow> sensors_poll_context_t \<times> hal" where
  "open_one env nm m r =
     (let (ctx, s) = r; (rc, d) = x_open env (calls s) m nm; s = s\<lparr>calls := calls s @ [S_open m nm]\<rparr> in
      if rc \<noteq> 0 then (ctx, s)
      else (addSubHwDevice env d ctx,
            s\<lparr>calls := calls s @ [S_thread (d_id d)],
              sub_hw_versions := map_option (\<lambda>vs. if m \<in> dom vs then vs else vs(m \<mapsto> d_version d)) (sub_hw_versions s)\<rparr>))"

definition open_sensors :: "sub_env \<Rightarrow> string \<Rightarrow> hal \<Rightarrow> fault + (sensors_poll_context_t \<times> hal)" where
  "open_sensors env nm s =
     (case lazy_init_modules env s of
        Inl e \<Rightarrow> Inl e
      | Inr s \<Rightarrow>
          Inr (fold (open_one env nm) (the (sub_hw_modules s))
            (\<lparr>sub_hw_devices = [], queues = [], nextReadIndex = 0\<rparr>, s\<lparr>sub_hw_versions := Some Map.empty\<rparr>)))"

end
