(* ===== verification/Sensor_Props.thy ===== *)
theory Sensor_Props
  imports Sensor_Hal
begin

text \<open>
  What the handle maps, the merged list and the forwarded calls of the sensors multi-HAL guarantee. The sub-HALs'
  documented behaviour that a theorem relies on is a hypothesis of it: \<open>lists_fixed\<close>, a module lists the same sensors
  every time; \<open>opens\<close>, which modules open and the device each gives.
\<close>

section \<open>The handle maps\<close>

definition handles_ok :: "hal \<Rightarrow> bool" where
  "handles_ok s \<longleftrightarrow> 1 \<le> next_global_handle s \<and> dom (global_to_full s) = {1..<next_global_handle s} \<and>
     (\<forall>f g. full_to_global s f = Some g \<longrightarrow> global_to_full s g = Some f) \<and>
     (\<forall>g f. global_to_full s g = Some f \<longrightarrow> f \<in> dom (full_to_global s))"

lemma handles_boot: "handles_ok hal_boot"
  by (simp add: handles_ok_def hal_boot_def)

lemma assign_ok:
  assumes "handles_ok s"
  shows "handles_ok (snd (assign_global_handle mi lh s))"
proof -
  have "next_global_handle s \<notin> dom (global_to_full s)" using assms by (simp add: handles_ok_def)
  moreover have "{1..<next_global_handle s + 1} = insert (next_global_handle s) {1..<next_global_handle s}"
    using assms by (auto simp: handles_ok_def)
  ultimately show ?thesis using assms by (auto simp: handles_ok_def assign_global_handle_def Let_def domIff split: if_splits)
qed

lemma handles_frame [simp]:
  "handles_ok (s\<lparr>calls := c\<rparr>) = handles_ok s" "handles_ok (s\<lparr>sub_hw_modules := ms\<rparr>) = handles_ok s"
  "handles_ok (s\<lparr>sub_hw_versions := vs\<rparr>) = handles_ok s" "handles_ok (s\<lparr>global_sensors_list := l\<rparr>) = handles_ok s"
  "handles_ok (s\<lparr>global_sensors_count := n\<rparr>) = handles_ok s"
  by (simp_all add: handles_ok_def)

lemma add_sensor_handles:
  "add_sensor env mi m x (out, s) = Inr (out', s') \<Longrightarrow> handles_ok s \<Longrightarrow> handles_ok s'"
  using assign_ok [of s mi "handle x"] by (auto simp: add_sensor_def Let_def split: prod.splits option.splits if_splits)

lemma add_sensors_handles:
  "add_sensors env mi m xs (out, s) = Inr (out', s') \<Longrightarrow> handles_ok s \<Longrightarrow> handles_ok s'"
proof (induction xs arbitrary: out s)
  case (Cons x xs)
  then show ?case by (auto split: sum.splits dest: add_sensor_handles)
qed simp

lemma add_modules_handles:
  "add_modules env mi ms (out, s) = Inr (out', s') \<Longrightarrow> handles_ok s \<Longrightarrow> handles_ok s'"
proof (induction ms arbitrary: mi out s)
  case (Cons m ms)
  obtain l s1 where l: "list_call env m s = (l, s1)" by (metis prod.collapse)
  then have "handles_ok s1" using Cons.prems(2) by (auto simp: list_call_def)
  then show ?case using Cons.prems(1) Cons.IH by (auto simp: l split: sum.splits dest: add_sensors_handles)
qed simp

lemma count_sensors_frame:
  "handles_ok (count_sensors env ms s) = handles_ok s"
  "global_to_full (count_sensors env ms s) = global_to_full s" "next_global_handle (count_sensors env ms s) = next_global_handle s"
  "sub_hw_versions (count_sensors env ms s) = sub_hw_versions s" "sub_hw_modules (count_sensors env ms s) = sub_hw_modules s"
proof -
  let ?f = "\<lambda>m s. let (l, s) = list_call env m s in s\<lparr>global_sensors_count := global_sensors_count s + int (length l)\<rparr>"
  have "handles_ok (fold ?f ms s) = handles_ok s \<and> global_to_full (fold ?f ms s) = global_to_full s \<and>
      next_global_handle (fold ?f ms s) = next_global_handle s \<and> sub_hw_versions (fold ?f ms s) = sub_hw_versions s \<and>
      sub_hw_modules (fold ?f ms s) = sub_hw_modules s" for s :: hal
    by (induction ms arbitrary: s) (simp_all add: list_call_def)
  then show "handles_ok (count_sensors env ms s) = handles_ok s"
    "global_to_full (count_sensors env ms s) = global_to_full s" "next_global_handle (count_sensors env ms s) = next_global_handle s"
    "sub_hw_versions (count_sensors env ms s) = sub_hw_versions s" "sub_hw_modules (count_sensors env ms s) = sub_hw_modules s"
    by (simp_all add: count_sensors_def)
qed

lemma lazy_modules_handles: "lazy_init_modules env s = Inr s' \<Longrightarrow> handles_ok s' = handles_ok s"
  by (auto simp: lazy_init_modules_def split: option.splits sum.splits)

lemma lazy_list_handles: "lazy_init_sensors_list env s = Inr s' \<Longrightarrow> handles_ok s \<Longrightarrow> handles_ok s'"
  by (auto simp: lazy_init_sensors_list_def Let_def count_sensors_frame lazy_modules_handles
      split: option.splits sum.splits dest!: add_modules_handles)

lemma open_one_handles: "handles_ok (snd (open_one env nm m r)) = handles_ok (snd r)"
  by (simp add: open_one_def Let_def case_prod_beta)

lemma open_handles: "open_sensors env nm s = Inr (ctx, s') \<Longrightarrow> handles_ok s \<Longrightarrow> handles_ok s'"
proof -
  have f: "handles_ok (snd (fold (open_one env nm) ms r)) = handles_ok (snd r)" for ms r
    by (induction ms arbitrary: r) (simp_all add: open_one_handles)
  assume "open_sensors env nm s = Inr (ctx, s')" "handles_ok s"
  then obtain s1 where s1: "lazy_init_modules env s = Inr s1"
    and e: "fold (open_one env nm) (the (sub_hw_modules s1))
      (\<lparr>sub_hw_devices = [], queues = [], nextReadIndex = 0\<rparr>, s1\<lparr>sub_hw_versions := Some Map.empty\<rparr>) = (ctx, s')"
    by (auto simp: open_sensors_def split: sum.splits)
  show "handles_ok s'"
    using f [of "the (sub_hw_modules s1)" "(\<lparr>sub_hw_devices = [], queues = [], nextReadIndex = 0\<rparr>, s1\<lparr>sub_hw_versions := Some Map.empty\<rparr>)"]
      lazy_modules_handles [OF s1] \<open>handles_ok s\<close> by (simp add: e)
qed

section \<open>Runs\<close>

text \<open>The calls the framework makes, in any order; those that need a device are made on the one opened last.\<close>

datatype hal_op =
  O_open string
| O_list
| O_activate int int
| O_batch int int int int
| O_flush int
| O_inject sensors_event_t
| O_close

fun hal_op_step :: "sub_env \<Rightarrow> hal_op \<Rightarrow> sensors_poll_context_t option \<times> hal \<Rightarrow> fault + (sensors_poll_context_t option \<times> hal)" where
  "hal_op_step env (O_open nm) (c, s) = (case open_sensors env nm s of Inl e \<Rightarrow> Inl e | Inr (ctx, s) \<Rightarrow> Inr (Some ctx, s))"
| "hal_op_step env O_list (c, s) = (case module__get_sensors_list env s of Inl e \<Rightarrow> Inl e | Inr (n, l, s) \<Rightarrow> Inr (c, s))"
| "hal_op_step env (O_activate g en) (Some ctx, s) = Inr (Some ctx, snd (activate env ctx g en s))"
| "hal_op_step env (O_batch g fl p t) (Some ctx, s) = Inr (Some ctx, snd (device__batch env ctx g fl p t s))"
| "hal_op_step env (O_flush g) (Some ctx, s) = Inr (Some ctx, snd (flush env ctx g s))"
| "hal_op_step env (O_inject e) (Some ctx, s) = Inr (Some ctx, snd (inject_sensor_data env ctx e s))"
| "hal_op_step env O_close (c, s) = Inr (None, snd (device__close env c s))"
| "hal_op_step env _ (None, s) = Inr (None, s)"

inductive hal_reach :: "sub_env \<Rightarrow> sensors_poll_context_t option \<Rightarrow> hal \<Rightarrow> bool" for env where
  hal_boots: "hal_reach env None hal_boot"
| hal_steps: "hal_reach env c s \<Longrightarrow> hal_op_step env x (c, s) = Inr (c', s') \<Longrightarrow> hal_reach env c' s'"

lemma do_call_frame [simp]: "handles_ok (snd (do_call env c s)) = handles_ok s"
  by (simp add: do_call_def)

lemma forwarded_handles:
  "handles_ok (snd (activate env ctx g en s)) = handles_ok s" "handles_ok (snd (setDelay env ctx g ns s)) = handles_ok s"
  "handles_ok (snd (flush env ctx g s)) = handles_ok s" "handles_ok (snd (inject_sensor_data env ctx e s)) = handles_ok s"
  "handles_ok (snd (device__close env c s)) = handles_ok s"
proof -
  show "handles_ok (snd (activate env ctx g en s)) = handles_ok s" "handles_ok (snd (setDelay env ctx g ns s)) = handles_ok s"
    "handles_ok (snd (flush env ctx g s)) = handles_ok s" "handles_ok (snd (inject_sensor_data env ctx e s)) = handles_ok s"
    by (auto simp: activate_def setDelay_def flush_def inject_sensor_data_def Let_def split: option.split)
  have "handles_ok (fold (\<lambda>d s. snd (do_call env (S_close (d_id d)) s)) ds s) = handles_ok s" for ds :: "sub_device list" and s
    by (induction ds arbitrary: s) simp_all
  then show "handles_ok (snd (device__close env c s)) = handles_ok s"
    by (simp add: device__close_def ctx_close_def split: option.split)
qed

lemma hal_op_handles: "hal_op_step env x (c, s) = Inr (c', s') \<Longrightarrow> handles_ok s \<Longrightarrow> handles_ok s'"
  by (cases "(env, x, c, s)" rule: hal_op_step.cases)
    (auto simp: forwarded_handles device__batch_def module__get_sensors_list_def split: sum.splits prod.splits
      dest: open_handles lazy_list_handles)

lemma reach_handles: "hal_reach env c s \<Longrightarrow> handles_ok s"
  by (induction rule: hal_reach.induct) (auto simp: handles_boot dest: hal_op_handles)


text \<open>C27. The handle maps stay well formed whatever the framework calls and however the sub-HALs answer: the global
  handles in use are 1 to the last one given; each of them denotes a sensor of a module, and the lookup of that sensor finds a handle in use
  that denotes the same sensor; and whatever handle is found for a module's sensor leads back to that module and that local handle.\<close>

theorem handle_maps_typed:
  assumes "hal_reach env c s"
  shows "dom (global_to_full s) = {1..<next_global_handle s} \<and>
    (\<forall>g \<in> {1..<next_global_handle s}. get_global_handle s (FullHandle (get_module_index s g) (get_local_handle s g)) \<in> {1..<next_global_handle s}) \<and>
    (\<forall>f. get_global_handle s f \<noteq> -1 \<longrightarrow> get_global_handle s f \<in> {1..<next_global_handle s} \<and>
       FullHandle (get_module_index s (get_global_handle s f)) (get_local_handle s (get_global_handle s f)) = f)"
proof -
  have ok: "handles_ok s" using assms by (rule reach_handles)
  then have d: "dom (global_to_full s) = {1..<next_global_handle s}" by (simp add: handles_ok_def)
  have b: "g \<in> {1..<next_global_handle s} \<and> FullHandle (get_module_index s g) (get_local_handle s g) = f"
    if "full_to_global s f = Some g" for f g
  proof -
    have g: "global_to_full s g = Some f" using ok that by (simp add: handles_ok_def)
    then have "g \<in> {1..<next_global_handle s}" using d by auto
    with g show ?thesis by (simp add: get_module_index_def get_local_handle_def)
  qed
  have "get_global_handle s (FullHandle (get_module_index s g) (get_local_handle s g)) \<in> {1..<next_global_handle s}"
    if "g \<in> {1..<next_global_handle s}" for g
  proof -
    have "g \<in> dom (global_to_full s)" using that by (simp add: d)
    then obtain f where f: "global_to_full s g = Some f" by blast
    then obtain g' where g': "full_to_global s f = Some g'" using ok unfolding handles_ok_def by blast
    have e: "FullHandle (get_module_index s g) (get_local_handle s g) = f" using f by (simp add: get_module_index_def get_local_handle_def)
    show ?thesis unfolding e using conjunct1 [OF b [OF g']] g' by (simp add: get_global_handle_def)
  qed
  moreover have "get_global_handle s f \<in> {1..<next_global_handle s} \<and>
      FullHandle (get_module_index s (get_global_handle s f)) (get_local_handle s (get_global_handle s f)) = f" if "get_global_handle s f \<noteq> -1" for f
    using that b [of f] by (auto simp: get_global_handle_def split: option.splits)
  ultimately show ?thesis using d by blast
qed

section \<open>The merged list\<close>

definition lists_fixed :: "sub_env \<Rightarrow> (nat \<Rightarrow> sensor_t list) \<Rightarrow> bool" where
  "lists_fixed env L \<longleftrightarrow> (\<forall>h m. x_list env h m = L m)"

text \<open>The sensors of the modules in order, each with its module's index.\<close>

fun fulls :: "(nat \<Rightarrow> sensor_t list) \<Rightarrow> int \<Rightarrow> nat list \<Rightarrow> FullHandle list" where
  "fulls L mi [] = []"
| "fulls L mi (m # ms) = map (\<lambda>x. FullHandle mi (handle x)) (L m) @ fulls L (mi + 1) ms"

text \<open>A map extended by consecutive keys.\<close>

definition extend :: "int \<Rightarrow> 'a list \<Rightarrow> (int \<rightharpoonup> 'a) \<Rightarrow> (int \<rightharpoonup> 'a)" where
  "extend g fs m = (\<lambda>k. if g \<le> k \<and> k < g + int (length fs) then Some (fs ! nat (k - g)) else m k)"

lemma extend_nil [simp]: "extend g [] m = m"
  by (rule ext) (auto simp: extend_def)

lemma extend_append: "extend (g + int (length as)) bs (extend g as m) = extend g (as @ bs) m"
proof
  fix k
  show "extend (g + int (length as)) bs (extend g as m) k = extend g (as @ bs) m k"
  proof (cases "g + int (length as) \<le> k")
    case True
    then have "nat (k - g) - length as = nat (k - (g + int (length as)))" "\<not> nat (k - g) < length as" by auto
    with True show ?thesis by (auto simp: extend_def nth_append)
  next
    case False
    then show ?thesis by (auto simp: extend_def nth_append)
  qed
qed

lemma extend_one: "m(g \<mapsto> f) = extend g [f] m"
  by (auto simp: extend_def)

text \<open>What a stretch of the list adds: the sensors get consecutive handles, and the maps follow.\<close>

definition grew :: "FullHandle list \<Rightarrow> sensor_t list \<times> hal \<Rightarrow> sensor_t list \<times> hal \<Rightarrow> bool" where
  "grew fs r r' \<longleftrightarrow> (let (out, s) = r; (out', s') = r'; g = next_global_handle s in
     map handle out' = map handle out @ map (\<lambda>j. g + int j) [0..<length fs] \<and>
     next_global_handle s' = g + int (length fs) \<and> global_to_full s' = extend g fs (global_to_full s) \<and>
     sub_hw_versions s' = sub_hw_versions s \<and> global_sensors_count s' = global_sensors_count s)"

lemma grew_refl [simp]: "grew [] r r"
  by (simp add: grew_def split: prod.split)

lemma grew_trans:
  assumes "grew as r r1" and "grew bs r1 r2"
  shows "grew (as @ bs) r r2"
proof -
  have "map (\<lambda>j. g + int (length as) + int j) [0..<length bs] = map (\<lambda>j. g + int j) [length as..<length as + length bs]" for g
    by (rule nth_equalityI) simp_all
  then show ?thesis using assms upt_add_eq_append [of 0 "length as" "length bs"]
    by (cases r; cases r1; cases r2) (simp add: grew_def Let_def extend_append add.assoc)
qed

lemma fix_flags_handle [simp]: "handle (fix_sensor_flags env v x) = handle x"
  by (simp add: fix_sensor_flags_def Let_def)

lemma add_sensor_grew:
  "add_sensor env mi m x r = Inr r' \<Longrightarrow> grew [FullHandle mi (handle x)] r r' \<and> (\<exists>vs. sub_hw_versions (snd r) = Some vs \<and> m \<in> dom vs)"
  by (cases r; cases r')
    (auto simp: add_sensor_def assign_global_handle_def Let_def grew_def extend_one split: option.splits if_splits)

lemma add_sensors_grew:
  "add_sensors env mi m xs r = Inr r' \<Longrightarrow> grew (map (\<lambda>x. FullHandle mi (handle x)) xs) r r'"
proof (induction xs arbitrary: r)
  case (Cons x xs)
  then obtain r1 where a: "add_sensor env mi m x r = Inr r1" "add_sensors env mi m xs r1 = Inr r'" by (auto split: sum.splits)
  show ?case using grew_trans [OF conjunct1 [OF add_sensor_grew [OF a(1)]] Cons.IH [OF a(2)]] by simp
qed simp

lemma list_call_grew: "list_call env m s = (l, s1) \<Longrightarrow> grew [] (out, s) (out, s1)"
  by (auto simp: list_call_def grew_def)

lemma add_modules_grew:
  assumes "lists_fixed env L"
  shows "add_modules env mi ms r = Inr r' \<Longrightarrow> grew (fulls L mi ms) r r'"
proof (induction ms arbitrary: mi r)
  case (Cons m ms)
  obtain out s where r: "r = (out, s)" by (cases r)
  obtain l s1 where l: "list_call env m s = (l, s1)" by (metis prod.collapse)
  have L: "l = L m" using l assms by (simp add: list_call_def lists_fixed_def)
  obtain r1 where a: "add_sensors env mi m l (out, s1) = Inr r1" "add_modules env (mi + 1) ms r1 = Inr r'"
    using Cons.prems by (auto simp: r l split: sum.splits)
  have "grew (map (\<lambda>x. FullHandle mi (handle x)) l) r r1"
    using grew_trans [OF list_call_grew [OF l] add_sensors_grew [OF a(1)]] by (simp add: r)
  from grew_trans [OF this Cons.IH [OF a(2)]] show ?case by (simp add: L)
qed simp


lemma fulls_length: "length (fulls L mi ms) = sum_list (map (\<lambda>m. length (L m)) ms)"
  by (induction ms arbitrary: mi) simp_all

lemma count_exact:
  assumes "lists_fixed env L"
  shows "global_sensors_count (count_sensors env ms s) = int (length (fulls L mi ms))"
proof -
  let ?f = "\<lambda>m s. let (l, s) = list_call env m s in s\<lparr>global_sensors_count := global_sensors_count s + int (length l)\<rparr>"
  have "global_sensors_count (fold ?f ms s) = global_sensors_count s + int (sum_list (map (\<lambda>m. length (L m)) ms))" for s
    using assms by (induction ms arbitrary: s) (simp_all add: list_call_def lists_fixed_def)
  then show ?thesis by (simp add: count_sensors_def fulls_length)
qed

lemma add_sensors_defined:
  assumes "sub_hw_versions s = Some vs" and "int (length out + length xs) \<le> global_sensors_count s"
  shows "if xs = [] \<or> m \<in> dom vs then \<exists>r. add_sensors env mi m xs (out, s) = Inr r
    else add_sensors env mi m xs (out, s) = Inl Out_of_range"
  using assms
proof (induction xs arbitrary: out s)
  case (Cons x xs)
  let ?s = "snd (assign_global_handle mi (handle x) s)"
  have s: "sub_hw_versions ?s = Some vs" "global_sensors_count ?s = global_sensors_count s"
    using Cons.prems(1) by (simp_all add: assign_global_handle_def Let_def)
  show ?case
  proof (cases "vs m")
    case None
    then show ?thesis using Cons.prems s by (auto simp: add_sensor_def Let_def case_prod_beta)
  next
    case (Some v)
    let ?o = "out @ [fix_sensor_flags env v (x\<lparr>handle := fst (assign_global_handle mi (handle x) s)\<rparr>)]"
    have "add_sensor env mi m x (out, s) = Inr (?o, ?s)"
      using Cons.prems s Some by (simp add: add_sensor_def Let_def case_prod_beta)
    moreover have "int (length ?o + length xs) \<le> global_sensors_count ?s" using Cons.prems(2) by (simp add: s(2))
    moreover have d: "m \<in> dom vs" using Some by (rule domI)
    ultimately have "\<exists>r. add_sensors env mi m xs (?o, ?s) = Inr r" using Cons.IH [OF s(1), of ?o] by simp
    then show ?thesis using d by (simp add: \<open>add_sensor env mi m x (out, s) = Inr (?o, ?s)\<close>)
  qed
qed simp

lemma add_modules_defined:
  assumes "lists_fixed env L" and "sub_hw_versions s = Some vs" and "int (length out + length (fulls L mi ms)) \<le> global_sensors_count s"
  shows "if \<forall>m \<in> set ms. L m = [] \<or> m \<in> dom vs then \<exists>r. add_modules env mi ms (out, s) = Inr r
    else add_modules env mi ms (out, s) = Inl Out_of_range"
  using assms(2,3)
proof (induction ms arbitrary: mi out s)
  case (Cons m ms)
  let ?s = "s\<lparr>calls := calls s @ [S_list m]\<rparr>"
  have l: "list_call env m s = (L m, ?s)" using assms(1) by (simp add: list_call_def lists_fixed_def)
  have d: "if L m = [] \<or> m \<in> dom vs then \<exists>r. add_sensors env mi m (L m) (out, ?s) = Inr r
    else add_sensors env mi m (L m) (out, ?s) = Inl Out_of_range"
    using add_sensors_defined [of ?s vs out "L m" m env mi] Cons.prems by simp
  show ?case
  proof (cases "L m = [] \<or> m \<in> dom vs")
    case False
    then show ?thesis using d by (auto simp: l)
  next
    case True
    then obtain o1 s1 where a: "add_sensors env mi m (L m) (out, ?s) = Inr (o1, s1)" using d by auto
    have g: "grew (map (\<lambda>x. FullHandle mi (handle x)) (L m)) (out, ?s) (o1, s1)" by (rule add_sensors_grew [OF a])
    then have "length (map handle o1) = length out + length (L m)" by (simp add: grew_def Let_def)
    then have "int (length o1 + length (fulls L (mi + 1) ms)) \<le> global_sensors_count s1" "sub_hw_versions s1 = Some vs"
      using g Cons.prems by (simp_all add: grew_def Let_def)
    from Cons.IH [OF this(2,1)] show ?thesis using True by (auto simp: l a)
  qed
qed simp

lemma add_sensors_modules: "add_sensors env mi m xs r = Inr r' \<Longrightarrow> sub_hw_modules (snd r') = sub_hw_modules (snd r)"
proof (induction xs arbitrary: r)
  case (Cons x xs)
  have "add_sensor env mi m x r = Inr r1 \<Longrightarrow> sub_hw_modules (snd r1) = sub_hw_modules (snd r)" for r1
    by (cases r) (auto simp: add_sensor_def assign_global_handle_def Let_def split: option.splits if_splits)
  with Cons show ?case by (auto split: sum.splits)
qed simp

lemma add_modules_modules: "add_modules env mi ms r = Inr r' \<Longrightarrow> sub_hw_modules (snd r') = sub_hw_modules (snd r)"
proof (induction ms arbitrary: mi r)
  case (Cons m ms)
  obtain out s where r: "r = (out, s)" by (cases r)
  obtain r1 where "add_sensors env mi m (fst (list_call env m s)) (out, snd (list_call env m s)) = Inr r1"
    "add_modules env (mi + 1) ms r1 = Inr r'"
    using Cons.prems by (auto simp: r case_prod_beta split: sum.splits)
  then show ?case using Cons.IH add_sensors_modules by (fastforce simp: r list_call_def)
qed simp

section \<open>Fresh handles\<close>

definition fresh :: "hal \<Rightarrow> bool" where
  "fresh s \<longleftrightarrow> (global_sensors_list s = None \<longrightarrow> next_global_handle s = 1)"

lemma fresh_frame [simp]:
  "fresh (s\<lparr>calls := c\<rparr>) = fresh s" "fresh (s\<lparr>sub_hw_modules := ms\<rparr>) = fresh s" "fresh (s\<lparr>sub_hw_versions := vs\<rparr>) = fresh s"
  "fresh (s\<lparr>global_sensors_list := Some l\<rparr>)"
  by (simp_all add: fresh_def)

lemma lazy_modules_fresh: "lazy_init_modules env s = Inr s' \<Longrightarrow> fresh s' = fresh s"
  by (auto simp: lazy_init_modules_def split: option.splits sum.splits)

lemma lazy_list_fresh: "lazy_init_sensors_list env s = Inr s' \<Longrightarrow> fresh s'"
  by (auto simp: lazy_init_sensors_list_def Let_def fresh_def split: option.splits sum.splits)

lemma open_one_fresh: "fresh (snd (open_one env nm m r)) = fresh (snd r)"
  by (simp add: open_one_def Let_def case_prod_beta)

lemma forwarded_fresh:
  "fresh (snd (activate env ctx g en s)) = fresh s" "fresh (snd (setDelay env ctx g ns s)) = fresh s"
  "fresh (snd (flush env ctx g s)) = fresh s" "fresh (snd (inject_sensor_data env ctx e s)) = fresh s"
  "fresh (snd (device__close env c s)) = fresh s"
proof -
  have c: "fresh (snd (do_call env x s)) = fresh s" for x s by (simp add: do_call_def)
  show "fresh (snd (activate env ctx g en s)) = fresh s" "fresh (snd (setDelay env ctx g ns s)) = fresh s"
    "fresh (snd (flush env ctx g s)) = fresh s" "fresh (snd (inject_sensor_data env ctx e s)) = fresh s"
    by (auto simp: activate_def setDelay_def flush_def inject_sensor_data_def Let_def c split: option.split)
  have "fresh (fold (\<lambda>d s. snd (do_call env (S_close (d_id d)) s)) ds s) = fresh s" for ds :: "sub_device list" and s
    by (induction ds arbitrary: s) (simp_all add: c)
  then show "fresh (snd (device__close env c s)) = fresh s"
    by (simp add: device__close_def ctx_close_def split: option.split)
qed

lemma open_fresh: "open_sensors env nm s = Inr (ctx, s') \<Longrightarrow> fresh s \<Longrightarrow> fresh s'"
proof -
  have f: "fresh (snd (fold (open_one env nm) ms r)) = fresh (snd r)" for ms r
    by (induction ms arbitrary: r) (simp_all add: open_one_fresh)
  assume "open_sensors env nm s = Inr (ctx, s')" "fresh s"
  then obtain s1 where s1: "lazy_init_modules env s = Inr s1"
    and e: "s' = snd (fold (open_one env nm) (the (sub_hw_modules s1))
      (\<lparr>sub_hw_devices = [], queues = [], nextReadIndex = 0\<rparr>, s1\<lparr>sub_hw_versions := Some Map.empty\<rparr>))"
    by (auto simp: open_sensors_def split: sum.splits)
  show "fresh s'" unfolding e f using lazy_modules_fresh [OF s1] \<open>fresh s\<close> by simp
qed

lemma hal_op_fresh: "hal_op_step env x (c, s) = Inr (c', s') \<Longrightarrow> fresh s \<Longrightarrow> fresh s'"
  by (cases "(env, x, c, s)" rule: hal_op_step.cases)
    (auto simp: forwarded_fresh device__batch_def module__get_sensors_list_def split: sum.splits prod.splits
      dest: open_fresh lazy_list_fresh)

lemma reach_fresh: "hal_reach env c s \<Longrightarrow> fresh s"
  by (induction rule: hal_reach.induct) (auto simp: fresh_def hal_boot_def dest: hal_op_fresh)


section \<open>The list and the devices\<close>

lemma list_built:
  assumes "lists_fixed env L" and "fresh s" and "global_sensors_list s = None"
    and "lazy_init_sensors_list env s = Inr s'" and "fs = fulls L 0 (the (sub_hw_modules s'))"
  shows "\<exists>l. global_sensors_list s' = Some l \<and> global_sensors_count s' = int (length l) \<and>
    map handle l = map (\<lambda>j. 1 + int j) [0..<length fs] \<and>
    map (\<lambda>x. FullHandle (get_module_index s' (handle x)) (get_local_handle s' (handle x))) l = fs \<and>
    next_global_handle s' = 1 + int (length fs) \<and> (\<forall>j < length fs. global_to_full s' (1 + int j) = Some (fs ! j))"
proof -
  obtain s1 where m: "lazy_init_modules env s = Inr s1" using assms(3,4) by (auto simp: lazy_init_sensors_list_def split: sum.splits)
  let ?ms = "the (sub_hw_modules s1)"
  obtain out s2 where a: "add_modules env 0 ?ms ([], count_sensors env ?ms s1) = Inr (out, s2)"
    and e: "s' = s2\<lparr>global_sensors_list := Some (out @ replicate (nat (global_sensors_count s2) - length out) (x_blank env)),
      sub_hw_versions := None\<rparr>"
    using assms(3,4) by (auto simp: lazy_init_sensors_list_def m Let_def split: sum.splits)
  have ms: "sub_hw_modules s2 = sub_hw_modules s1"
    using add_modules_modules [OF a] by (simp add: count_sensors_frame)
  have fs: "fs = fulls L 0 ?ms" using assms(5) by (simp add: e ms)
  have n1: "next_global_handle s1 = 1"
    using assms(2,3) m by (auto simp: fresh_def lazy_init_modules_def split: option.splits sum.splits)
  have g: "grew fs ([], count_sensors env ?ms s1) (out, s2)" unfolding fs by (rule add_modules_grew [OF assms(1) a])
  then have h: "map handle out = map (\<lambda>j. 1 + int j) [0..<length fs]" and x: "global_to_full s2 = extend 1 fs (global_to_full s1)"
    and cnt: "global_sensors_count s2 = int (length fs)" and nx: "next_global_handle s2 = 1 + int (length fs)"
    by (simp_all add: grew_def Let_def count_sensors_frame n1 count_exact [OF assms(1), of ?ms s1 0] fs)
  have len: "length out = length fs" using arg_cong [OF h, of length] by simp
  have "handle (out ! j) = 1 + int j" if "j < length fs" for j
    using that arg_cong [OF h, of "\<lambda>l. l ! j"] len by simp
  then have "map (\<lambda>x. FullHandle (get_module_index s' (handle x)) (get_local_handle s' (handle x))) out = fs"
    by (intro nth_equalityI) (simp_all add: len e x get_module_index_def get_local_handle_def extend_def)
  then show ?thesis using h len cnt nx by (simp add: e x extend_def)
qed

text \<open>C26. The merged list can be taken apart again. After the list is first built, its sensors carry the handles 1 to
  their number, in the order of the modules and of each module's own list, and each handle leads back to the index of
  the module and the local handle it came from.\<close>

theorem sensor_list_roundtrip:
  assumes "lists_fixed env L" and "hal_reach env c s" and "global_sensors_list s = None"
    and "lazy_init_sensors_list env s = Inr s'" and "fs = fulls L 0 (the (sub_hw_modules s'))"
  shows "\<exists>l. global_sensors_list s' = Some l \<and> global_sensors_count s' = int (length l) \<and>
    map handle l = map (\<lambda>j. 1 + int j) [0..<length fs] \<and>
    map (\<lambda>x. FullHandle (get_module_index s' (handle x)) (get_local_handle s' (handle x))) l = fs"
  using list_built [OF assms(1) reach_fresh [OF assms(2)] assms(3-5)] by blast

text \<open>The modules in \<open>A\<close> open, and \<open>D m\<close> is the device of module \<open>m\<close>.\<close>

definition opens :: "sub_env \<Rightarrow> string \<Rightarrow> nat set \<Rightarrow> (nat \<Rightarrow> sub_device) \<Rightarrow> bool" where
  "opens env nm A D \<longleftrightarrow> (\<forall>h m. (fst (x_open env h m nm) = 0) = (m \<in> A) \<and> snd (x_open env h m nm) = D m)"

lemma open_one_spec:
  assumes "opens env nm A D" and "sub_hw_versions (snd r) = Some vs" and "open_one env nm m r = r'"
  shows "sub_hw_devices (fst r') = sub_hw_devices (fst r) @ (if m \<in> A then [D m] else []) \<and>
    (\<exists>vs'. sub_hw_versions (snd r') = Some vs' \<and> dom vs' = dom vs \<union> (if m \<in> A then {m} else {})) \<and>
    sub_hw_modules (snd r') = sub_hw_modules (snd r) \<and> global_sensors_list (snd r') = global_sensors_list (snd r)"
proof (cases "m \<in> A")
  case True
  then obtain d where "x_open env (calls (snd r)) m nm = (0, D m)" using assms(1) unfolding opens_def by (metis prod.collapse)
  then show ?thesis using assms True
    by (cases r) (auto simp: open_one_def Let_def addSubHwDevice_def)
next
  case False
  then have "fst (x_open env (calls (snd r)) m nm) \<noteq> 0" using assms(1) by (simp add: opens_def)
  then show ?thesis using assms False by (cases r) (auto simp: open_one_def Let_def case_prod_beta)
qed

lemma open_fold_spec:
  assumes "opens env nm A D"
  shows "sub_hw_versions (snd r) = Some vs \<Longrightarrow> r' = fold (open_one env nm) ms r \<Longrightarrow>
    sub_hw_devices (fst r') = sub_hw_devices (fst r) @ map D (filter (\<lambda>m. m \<in> A) ms) \<and>
    (\<exists>vs'. sub_hw_versions (snd r') = Some vs' \<and> dom vs' = dom vs \<union> (set ms \<inter> A)) \<and>
    sub_hw_modules (snd r') = sub_hw_modules (snd r) \<and> global_sensors_list (snd r') = global_sensors_list (snd r)"
proof (induction ms arbitrary: r vs)
  case (Cons m ms)
  let ?r = "open_one env nm m r"
  note o = open_one_spec [OF assms Cons.prems(1) refl, of m]
  then obtain vs1 where v: "sub_hw_versions (snd ?r) = Some vs1" "dom vs1 = dom vs \<union> (if m \<in> A then {m} else {})" by blast
  have e: "r' = fold (open_one env nm) ms ?r" using Cons.prems(2) by simp
  show ?case using Cons.IH [OF v(1) e] o v(2) by (auto split: if_splits)
qed simp

lemma opened:
  assumes "opens env nm A D" and "open_sensors env nm hal_boot = Inr (ctx, s)" and "ms = the (sub_hw_modules s)"
  shows "sub_hw_devices ctx = map D (filter (\<lambda>m. m \<in> A) ms) \<and> global_sensors_list s = None \<and> fresh s \<and>
    sub_hw_modules s \<noteq> None \<and> (\<exists>vs. sub_hw_versions s = Some vs \<and> dom vs = set ms \<inter> A)"
proof -
  obtain s1 where s1: "lazy_init_modules env hal_boot = Inr s1" using assms(2) by (auto simp: open_sensors_def split: sum.splits)
  let ?r = "(\<lparr>sub_hw_devices = [], queues = [], nextReadIndex = 0\<rparr>, s1\<lparr>sub_hw_versions := Some Map.empty\<rparr>)"
  have e: "(ctx, s) = fold (open_one env nm) (the (sub_hw_modules s1)) ?r" using assms(2) by (simp add: open_sensors_def s1)
  have v: "sub_hw_versions (snd ?r) = Some Map.empty" by simp
  have m: "sub_hw_modules s1 \<noteq> None" "global_sensors_list s1 = None"
    using s1 by (auto simp: lazy_init_modules_def hal_boot_def split: sum.splits)
  have "fresh hal_boot" by (simp add: fresh_def hal_boot_def)
  from open_fresh [OF assms(2) this] open_fold_spec [OF assms(1) v e] m assms(3) show ?thesis by auto
qed

lemma fulls_range: "f \<in> set (fulls L mi ms) \<Longrightarrow> mi \<le> moduleIndex f \<and> moduleIndex f < mi + int (length ms)"
  by (induction ms arbitrary: mi) (auto, fastforce+)

lemma list_defined:
  assumes "lists_fixed env L" and "sub_hw_modules s = Some ms" and "sub_hw_versions s = Some vs" and "global_sensors_list s = None"
  shows "if \<forall>m \<in> set ms. L m = [] \<or> m \<in> dom vs then \<exists>s'. lazy_init_sensors_list env s = Inr s' \<and> sub_hw_modules s' = Some ms
    else lazy_init_sensors_list env s = Inl Out_of_range"
proof -
  let ?s = "count_sensors env ms s"
  have "int (length [] + length (fulls L 0 ms)) \<le> global_sensors_count ?s" using count_exact [OF assms(1), of ms s 0] by simp
  from add_modules_defined [OF assms(1) _ this, of vs]
  have "if \<forall>m \<in> set ms. L m = [] \<or> m \<in> dom vs then \<exists>r. add_modules env 0 ms ([], ?s) = Inr r
    else add_modules env 0 ms ([], ?s) = Inl Out_of_range" using assms(3) by (simp add: count_sensors_frame)
  moreover have "sub_hw_modules (snd r) = Some ms" if "add_modules env 0 ms ([], ?s) = Inr r" for r
    using add_modules_modules [OF that] assms(2) by (simp add: count_sensors_frame)
  ultimately show ?thesis using assms(2,4)
    by (auto simp: lazy_init_sensors_list_def lazy_init_modules_def Let_def split: if_splits)
qed


text \<open>A handle that is looked up is one of the list's.\<close>

lemma handles_listed:
  assumes "handles_ok s" and "map handle l = map (\<lambda>j. 1 + int j) [0..<length fs]" and "next_global_handle s = 1 + int (length fs)"
    and "global_to_full s g = Some f"
  shows "\<exists>j < length fs. full_to_global s f = Some (handle (l ! j))"
proof -
  obtain g' where g': "full_to_global s f = Some g'" using assms(1,4) unfolding handles_ok_def by (meson domD)
  then have "g' \<in> dom (global_to_full s)" using assms(1) by (auto simp: handles_ok_def)
  moreover have "dom (global_to_full s) = {1..<1 + int (length fs)}" using assms(1,3) by (simp add: handles_ok_def)
  ultimately have g: "1 \<le> g'" "g' < 1 + int (length fs)" by auto
  then have j: "nat (g' - 1) < length fs" by linarith
  have "length l = length fs" using arg_cong [OF assms(2), of length] by simp
  then have "handle (l ! nat (g' - 1)) = 1 + int (nat (g' - 1))" using j arg_cong [OF assms(2), of "\<lambda>x. x ! nat (g' - 1)"] by simp
  then show ?thesis using g' g(1) j by auto
qed

text \<open>C22. Calls reach the sensor they are made for. When every module opens and lists the same sensors every time, the
  list can be built after the device is opened, and activating the handle of a listed sensor activates, on the device
  of the module that listed it and on no other, the sensor with the local handle it was listed with; and when no module
  lists a local handle twice, an event of that sensor is reported under the same handle.\<close>

theorem calls_reach_their_device:
  assumes "lists_fixed env L" and "opens env nm UNIV D" and "open_sensors env nm hal_boot = Inr (ctx, s)"
    and "ms = the (sub_hw_modules s)" and "fs = fulls L 0 ms"
  shows "\<exists>s' l. lazy_init_sensors_list env s = Inr s' \<and> global_sensors_list s' = Some l \<and> length l = length fs \<and>
    (\<forall>k < length fs. 0 \<le> localHandle (fs ! k) \<longrightarrow>
       activate env ctx (handle (l ! k)) en s' =
         do_call env (S_activate (d_id (D (ms ! nat (moduleIndex (fs ! k))))) (localHandle (fs ! k)) en) s') \<and>
    (distinct fs \<longrightarrow> (\<forall>k < length fs. get_global_handle s' (fs ! k) = handle (l ! k)))"
proof -
  obtain vs where o: "sub_hw_devices ctx = map D ms" "global_sensors_list s = None" "fresh s" "sub_hw_modules s = Some ms"
    "sub_hw_versions s = Some vs" "dom vs = set ms"
  proof -
    note op = opened [OF assms(2,3,4)]
    have "sub_hw_modules s = Some ms" using op assms(4) by (metis option.collapse)
    then show ?thesis using op that by simp blast
  qed
  obtain s' where s': "lazy_init_sensors_list env s = Inr s'" "sub_hw_modules s' = Some ms"
    using list_defined [OF assms(1) o(4,5,2)] o(6) by auto
  obtain l where l: "global_sensors_list s' = Some l" "map handle l = map (\<lambda>j. 1 + int j) [0..<length fs]"
    and b: "map (\<lambda>x. FullHandle (get_module_index s' (handle x)) (get_local_handle s' (handle x))) l = fs"
    and nx: "next_global_handle s' = 1 + int (length fs)" and g2f: "\<forall>j < length fs. global_to_full s' (1 + int j) = Some (fs ! j)"
    using list_built [OF assms(1) o(3,2) s'(1), of fs] s'(2) assms(5) by auto
  have len: "length l = length fs" using arg_cong [OF b, of length] by simp
  have nth: "get_module_index s' (handle (l ! k)) = moduleIndex (fs ! k)" "get_local_handle s' (handle (l ! k)) = localHandle (fs ! k)"
    if "k < length fs" for k
  proof -
    have "FullHandle (get_module_index s' (handle (l ! k))) (get_local_handle s' (handle (l ! k))) = fs ! k"
      using that arg_cong [OF b, of "\<lambda>x. x ! k"] len by simp
    then show "get_module_index s' (handle (l ! k)) = moduleIndex (fs ! k)" "get_local_handle s' (handle (l ! k)) = localHandle (fs ! k)"
      by (metis FullHandle.sel)+
  qed
  have act: "activate env ctx (handle (l ! k)) en s' =
      do_call env (S_activate (d_id (D (ms ! nat (moduleIndex (fs ! k))))) (localHandle (fs ! k)) en) s'"
    if "k < length fs" "0 \<le> localHandle (fs ! k)" for k
    using nth [OF that(1)] that fulls_range [of "fs ! k" L 0 ms] assms(5)
    by (simp add: activate_def get_device_by_handle_def o(1) Let_def nat_less_iff)
  have "get_global_handle s' (fs ! k) = handle (l ! k)" if d: "distinct fs" and k: "k < length fs" for k
  proof -
    have ok: "handles_ok s'" by (rule lazy_list_handles [OF s'(1) open_handles [OF assms(3) handles_boot]])
    have h: "handle (l ! j) = 1 + int j" if "j < length fs" for j using that arg_cong [OF l(2), of "\<lambda>x. x ! j"] len by simp
    obtain j where j: "j < length fs" "full_to_global s' (fs ! k) = Some (handle (l ! j))"
      using handles_listed [OF ok l(2) nx, of "1 + int k" "fs ! k"] g2f k by blast
    have "global_to_full s' (handle (l ! j)) = Some (fs ! k)" using ok j(2) by (simp add: handles_ok_def)
    then have "fs ! j = fs ! k" using g2f j(1) h [OF j(1)] by simp
    then have "j = k" using d j(1) k by (simp add: nth_eq_iff_index_eq)
    then show ?thesis using j(2) by (simp add: get_global_handle_def)
  qed
  then show ?thesis using s'(1) l(1) len act by blast
qed


text \<open>C34. The list of sensors can be built after an open exactly when every module that lists a sensor opened: if one
  did not, looking up its version throws and the process ends.\<close>

theorem list_crash_exact:
  assumes "lists_fixed env L" and "opens env nm A D" and "open_sensors env nm hal_boot = Inr (ctx, s)" and "ms = the (sub_hw_modules s)"
  shows "(lazy_init_sensors_list env s = Inl Out_of_range) = (\<exists>m \<in> set ms. L m \<noteq> [] \<and> m \<notin> A) \<and>
    ((\<exists>s'. lazy_init_sensors_list env s = Inr s') = (\<forall>m \<in> set ms. L m = [] \<or> m \<in> A))"
proof -
  note op = opened [OF assms(2-4)]
  then obtain vs where vs: "sub_hw_versions s = Some vs" "dom vs = set ms \<inter> A" by blast
  have m: "sub_hw_modules s = Some ms" using op assms(4) by (metis option.collapse)
  have "if \<forall>m \<in> set ms. L m = [] \<or> m \<in> dom vs then \<exists>s'. lazy_init_sensors_list env s = Inr s' \<and> sub_hw_modules s' = Some ms
    else lazy_init_sensors_list env s = Inl Out_of_range"
    using op by (intro list_defined [OF assms(1) m vs(1)]) simp
  then show ?thesis using vs(2) by (auto split: if_splits)
qed

text \<open>The framework has to open the device first: a list asked for before that is built from a map that does not
  exist.\<close>

lemma list_before_open:
  assumes "lists_fixed env L" and "lazy_init_modules env hal_boot = Inr s" and "the (sub_hw_modules s) = m # ms" and "L m \<noteq> []"
  shows "lazy_init_sensors_list env hal_boot = Inl Null_deref"
proof -
  have "sub_hw_versions s = None" "global_sensors_list s = None"
    using assms(2) by (auto simp: lazy_init_modules_def hal_boot_def split: sum.splits)
  obtain x xs where x: "L m = x # xs" using assms(4) by (cases "L m") auto
  let ?s = "count_sensors env (m # ms) s"
  have c: "0 < global_sensors_count ?s" using count_exact [OF assms(1), of "m # ms" s 0] x by simp
  have v: "sub_hw_versions ?s = None" using \<open>sub_hw_versions s = None\<close> by (simp add: count_sensors_frame)
  have "add_modules env 0 (m # ms) ([], ?s) = Inl Null_deref"
    using assms(1) x c v by (simp add: list_call_def lists_fixed_def add_sensor_def assign_global_handle_def Let_def)
  then show ?thesis using assms(2,3) by (simp add: lazy_init_sensors_list_def hal_boot_def)
qed

section \<open>A configuration\<close>

definition demo_sensor :: "int \<Rightarrow> sensor_t" where
  "demo_sensor h = \<lparr>handle = h, stype = 1, flags = 0, minDelay = 0, maxDelay = 0, rest = []\<rparr>"

text \<open>Modules 10, 11 and 12; the first lists nothing, and opens if \<open>b\<close>.\<close>

definition demo_sub :: "bool \<Rightarrow> sub_env" where
  "demo_sub b = \<lparr>x_conf = (\<lambda>p. Some [''a'', ''b'', ''c'']), x_dlopen = (\<lambda>p. Some (of_char (hd p))), x_dlsym = (\<lambda>l. Some (l - 87)),
     x_open = (\<lambda>h m nm. (if m = 10 \<and> \<not> b then 1 else 0, \<lparr>d_id = m + 100, d_version = 0\<rparr>)),
     x_list = (\<lambda>h m. if m = 11 then [demo_sensor 5] else if m = 12 then [demo_sensor 6] else []),
     x_call = (\<lambda>h c. 0), x_blank = demo_sensor 0, x_junk = [], EINVAL = 22, SENSOR_TYPE_META_DATA = 0, SENSOR_TYPE_PROXIMITY = 8,
     SENSOR_TYPE_TILT_DETECTOR = 22, SENSOR_TYPE_LIGHT = 5, SENSOR_FLAG_WAKE_UP = 1, SENSOR_FLAG_ON_CHANGE_MODE = 2,
     API_VERSION_1_0 = 0, API_VERSION_1_1 = 1, API_VERSION_1_4 = 4\<rparr>"

lemma demo_load: "lazy_init_modules (demo_sub b) hal_boot = Inr (hal_boot\<lparr>sub_hw_modules := Some [10, 11, 12], calls := [S_sleep 10000]\<rparr>)"
  by (simp add: lazy_init_modules_def hal_boot_def get_so_paths_def demo_sub_def load_module_def)

lemma demo_facts:
  "lists_fixed (demo_sub b) (\<lambda>m. if m = 11 then [demo_sensor 5] else if m = 12 then [demo_sensor 6] else [])"
  "opens (demo_sub b) nm (if b then UNIV else - {10}) (\<lambda>m. \<lparr>d_id = m + 100, d_version = 0\<rparr>)"
  by (simp_all add: lists_fixed_def opens_def demo_sub_def)

lemma multihal_opened:
  obtains ctx s where "open_sensors (demo_sub b) nm hal_boot = Inr (ctx, s)" "the (sub_hw_modules s) = [10, 11, 12]"
proof -
  let ?r = "(\<lparr>sub_hw_devices = [], queues = [], nextReadIndex = 0\<rparr>,
    hal_boot\<lparr>sub_hw_modules := Some [10, 11, 12], calls := [S_sleep 10000], sub_hw_versions := Some Map.empty\<rparr>)"
  obtain ctx s where e: "(ctx, s) = fold (open_one (demo_sub b) nm) [10, 11, 12] ?r" by (metis prod.collapse)
  have "sub_hw_versions (snd ?r) = Some Map.empty" by simp
  from open_fold_spec [OF demo_facts(2) this e] have "the (sub_hw_modules s) = [10, 11, 12]" by simp
  moreover have "open_sensors (demo_sub b) nm hal_boot = Inr (ctx, s)" unfolding open_sensors_def demo_load using e by simp
  ultimately show ?thesis using that by blast
qed

text \<open>When the first module does not open, the device list is no longer parallel to the module list: the sensor of
  module 11 is activated on the device of module 12.\<close>

lemma failed_open_misroutes:
  "\<exists>ctx s s'. open_sensors (demo_sub False) nm hal_boot = Inr (ctx, s) \<and> the (sub_hw_modules s) = [10, 11, 12] \<and>
     lazy_init_sensors_list (demo_sub False) s = Inr s' \<and> get_module_index s' 1 = 1 \<and>
     last (calls (snd (activate (demo_sub False) ctx 1 1 s'))) = S_activate 112 5 1"
proof -
  let ?e = "demo_sub False"
  obtain ctx s where o: "open_sensors ?e nm hal_boot = Inr (ctx, s)" and ms: "the (sub_hw_modules s) = [10, 11, 12]"
    by (rule multihal_opened)
  note op = opened [OF demo_facts(2) o ms [symmetric]]
  have dev: "sub_hw_devices ctx = [\<lparr>d_id = 111, d_version = 0\<rparr>, \<lparr>d_id = 112, d_version = 0\<rparr>]" using op by simp
  have m: "sub_hw_modules s = Some [10, 11, 12]" using op ms by (metis option.collapse)
  obtain vs where vs: "sub_hw_versions s = Some vs" "dom vs = {11, 12}" using op by auto
  have "global_sensors_list s = None" using op by simp
  from list_defined [OF demo_facts(1) m vs(1) this] vs(2)
  obtain s' where s': "lazy_init_sensors_list ?e s = Inr s'" "sub_hw_modules s' = Some [10, 11, 12]" by auto
  from list_built [OF demo_facts(1) _ _ s'(1) refl] op s'(2)
  have "global_to_full s' 1 = Some (FullHandle 1 5)" by (auto simp: demo_sensor_def)
  then have "get_module_index s' 1 = 1" "get_local_handle s' 1 = 5" by (simp_all add: get_module_index_def get_local_handle_def)
  then have "last (calls (snd (activate ?e ctx 1 1 s'))) = S_activate 112 5 1"
    by (simp add: activate_def get_device_by_handle_def dev do_call_def)
  then show ?thesis using o ms s'(1) \<open>get_module_index s' 1 = 1\<close> by blast
qed


lemma demo_run:
  obtains ctx s s' where "open_sensors (demo_sub True) nm hal_boot = Inr (ctx, s)" "the (sub_hw_modules s) = [10, 11, 12]"
    "lazy_init_sensors_list (demo_sub True) s = Inr s'" "sub_hw_modules s' = Some [10, 11, 12]" "global_sensors_list s = None"
    "hal_reach (demo_sub True) (Some ctx) s" "hal_reach (demo_sub True) (Some ctx) s'"
proof -
  let ?e = "demo_sub True"
  obtain ctx s where o: "open_sensors ?e nm hal_boot = Inr (ctx, s)" and ms: "the (sub_hw_modules s) = [10, 11, 12]"
    by (rule multihal_opened)
  note op = opened [OF demo_facts(2) o ms [symmetric]]
  have m: "sub_hw_modules s = Some [10, 11, 12]" using op ms by (metis option.collapse)
  obtain vs where vs: "sub_hw_versions s = Some vs" "dom vs = {10, 11, 12}" using op by auto
  have g: "global_sensors_list s = None" using op by simp
  from list_defined [OF demo_facts(1) m vs(1) g] vs(2)
  obtain s' where s': "lazy_init_sensors_list ?e s = Inr s'" "sub_hw_modules s' = Some [10, 11, 12]" by auto
  have r: "hal_reach ?e (Some ctx) s" by (rule hal_steps [OF hal_boots, of _ "O_open nm"]) (simp add: o)
  have "hal_reach ?e (Some ctx) s'" by (rule hal_steps [OF r, of O_list]) (simp add: module__get_sensors_list_def s')
  with o ms s' g r that show ?thesis by blast
qed

theorem handle_maps_typed_witness:
  "\<exists>c s. hal_reach (demo_sub True) c s \<and> get_global_handle s (FullHandle 1 5) = 1 \<and> get_module_index s 1 = 1 \<and> get_local_handle s 1 = 5"
proof -
  obtain ctx s s' where d: "open_sensors (demo_sub True) ''x'' hal_boot = Inr (ctx, s)" "the (sub_hw_modules s) = [10, 11, 12]"
    "lazy_init_sensors_list (demo_sub True) s = Inr s'" "sub_hw_modules s' = Some [10, 11, 12]" "global_sensors_list s = None"
    "hal_reach (demo_sub True) (Some ctx) s" "hal_reach (demo_sub True) (Some ctx) s'"
    by (rule demo_run)
  from list_built [OF demo_facts(1) reach_fresh [OF d(6)] d(5,3) refl] d(4)
  have l: "global_to_full s' 1 = Some (FullHandle 1 5)" "next_global_handle s' = 3" "global_to_full s' 2 = Some (FullHandle 2 6)"
    by (auto simp: demo_sensor_def less_Suc_eq)
  have ok: "handles_ok s'" by (rule reach_handles [OF d(7)])
  then obtain g where g: "full_to_global s' (FullHandle 1 5) = Some g" "global_to_full s' g = Some (FullHandle 1 5)"
    using l(1) unfolding handles_ok_def by (meson domD)
  then have "1 \<le> g" "g < 3" using ok l(2) by (auto simp: handles_ok_def)
  then have "g = 1 \<or> g = 2" by linarith
  then have "g = 1" using g(2) l(3) by auto
  then have "get_global_handle s' (FullHandle 1 5) = 1" using g(1) by (simp add: get_global_handle_def)
  moreover from this have "get_module_index s' 1 = 1" "get_local_handle s' 1 = 5"
    using handle_maps_typed [OF d(7)] by (metis FullHandle.sel one_neq_neg_one)+
  ultimately show ?thesis using d(7) by blast
qed

theorem sensor_list_roundtrip_witness:
  "\<exists>s' l. global_sensors_list s' = Some l \<and> map handle l = [1, 2] \<and> global_sensors_count s' = 2 \<and>
     map (\<lambda>x. FullHandle (get_module_index s' (handle x)) (get_local_handle s' (handle x))) l = [FullHandle 1 5, FullHandle 2 6]"
proof -
  obtain ctx s s' where d: "open_sensors (demo_sub True) ''x'' hal_boot = Inr (ctx, s)" "the (sub_hw_modules s) = [10, 11, 12]"
    "lazy_init_sensors_list (demo_sub True) s = Inr s'" "sub_hw_modules s' = Some [10, 11, 12]" "global_sensors_list s = None"
    "hal_reach (demo_sub True) (Some ctx) s" "hal_reach (demo_sub True) (Some ctx) s'"
    by (rule demo_run)
  from sensor_list_roundtrip [OF demo_facts(1) d(6,5,3) refl] d(4)
  obtain l where "global_sensors_list s' = Some l" "map handle l = [1, 2]" "global_sensors_count s' = 2"
    "map (\<lambda>x. FullHandle (get_module_index s' (handle x)) (get_local_handle s' (handle x))) l = [FullHandle 1 5, FullHandle 2 6]"
    by (auto simp: demo_sensor_def upt_rec)
  then show ?thesis by (intro exI [of _ s'] exI [of _ l] conjI)
qed

theorem calls_reach_their_device_witness:
  "\<exists>ctx s s'. open_sensors (demo_sub True) ''x'' hal_boot = Inr (ctx, s) \<and> lazy_init_sensors_list (demo_sub True) s = Inr s' \<and>
     activate (demo_sub True) ctx 2 1 s' = do_call (demo_sub True) (S_activate 112 6 1) s' \<and> get_global_handle s' (FullHandle 2 6) = 2"
proof -
  obtain ctx s s' where d: "open_sensors (demo_sub True) ''x'' hal_boot = Inr (ctx, s)" "the (sub_hw_modules s) = [10, 11, 12]"
    "lazy_init_sensors_list (demo_sub True) s = Inr s'" "sub_hw_modules s' = Some [10, 11, 12]" "global_sensors_list s = None"
    "hal_reach (demo_sub True) (Some ctx) s" "hal_reach (demo_sub True) (Some ctx) s'"
    by (rule demo_run)
  let ?L = "\<lambda>m. if m = 11 then [demo_sensor 5] else if m = 12 then [demo_sensor 6] else []"
  have fs: "fulls ?L 0 [10, 11, 12] = [FullHandle 1 5, FullHandle 2 6]" by (simp add: demo_sensor_def)
  have o: "opens (demo_sub True) ''x'' UNIV (\<lambda>m. \<lparr>d_id = m + 100, d_version = 0\<rparr>)" using demo_facts(2) [of True] by simp
  obtain l where l: "global_sensors_list s' = Some l" "map handle l = [1, 2]"
    using list_built [OF demo_facts(1) reach_fresh [OF d(6)] d(5,3) refl] d(4) by (auto simp: demo_sensor_def upt_rec)
  then have h: "handle (l ! 1) = 2" by auto
  have "activate (demo_sub True) ctx (handle (l ! 1)) 1 s' = do_call (demo_sub True) (S_activate 112 6 1) s' \<and>
      get_global_handle s' (FullHandle 2 6) = handle (l ! 1)"
    using calls_reach_their_device [OF demo_facts(1) o d(1) d(2) [symmetric] fs [symmetric], of 1] d(3) l(1)
    by (auto dest!: spec [of _ 1])
  then show ?thesis using d(1,3) h by auto
qed

theorem list_crash_exact_witness:
  "\<exists>ctx s. open_sensors ((demo_sub True)\<lparr>x_open := \<lambda>h m nm. (1, \<lparr>d_id = 0, d_version = 0\<rparr>)\<rparr>) ''x'' hal_boot = Inr (ctx, s) \<and>
     lazy_init_sensors_list ((demo_sub True)\<lparr>x_open := \<lambda>h m nm. (1, \<lparr>d_id = 0, d_version = 0\<rparr>)\<rparr>) s = Inl Out_of_range"
proof -
  let ?e = "(demo_sub True)\<lparr>x_open := \<lambda>h m nm. (1, \<lparr>d_id = 0, d_version = 0\<rparr>)\<rparr>"
    and ?L = "\<lambda>m. if m = 11 then [demo_sensor 5] else if m = 12 then [demo_sensor 6] else []"
  have f: "lists_fixed ?e ?L" "opens ?e ''x'' {} (\<lambda>m. \<lparr>d_id = 0, d_version = 0\<rparr>)"
    by (simp_all add: lists_fixed_def opens_def demo_sub_def)
  have "lazy_init_modules ?e hal_boot = Inr (hal_boot\<lparr>sub_hw_modules := Some [10, 11, 12], calls := [S_sleep 10000]\<rparr>)"
    by (simp add: lazy_init_modules_def hal_boot_def get_so_paths_def demo_sub_def load_module_def)
  then obtain ctx s where o: "open_sensors ?e ''x'' hal_boot = Inr (ctx, s)" "the (sub_hw_modules s) = [10, 11, 12]"
    by (simp add: open_sensors_def open_one_def hal_boot_def)
  then show ?thesis using list_crash_exact [OF f o(1) refl] by auto
qed

end
