(* ===== verification/Sensor_Poll.thy ===== *)
theory Sensor_Poll
  imports Sensor_Hal
begin

text \<open>
  The threads of \<^verbatim>\<open>src/sensors/multihal.cpp\<close>: one \<^verbatim>\<open>writerTask\<close> per sub-HAL, which polls its device straight into its
  queue, and the framework's thread, which calls \<^verbatim>\<open>poll\<close> and empties the queues in turn. A step is a critical section
  of \<^verbatim>\<open>queue_mutex\<close>, or what a thread does outside of it: the device's stores into the region the writer was given,
  the return of its \<^verbatim>\<open>poll\<close>, and a return from \<^verbatim>\<open>pthread_cond_wait\<close>, with or without a signal.

  The handle maps do not change while the threads run, and one thread at a time calls \<^verbatim>\<open>poll\<close>: the framework builds
  the list of sensors first, and has one polling thread. Of a sub-HAL's \<^verbatim>\<open>poll\<close> the code relies on two things, which
  are the guards of its steps: it writes inside the buffer it is given, and does not claim more events than fit.
\<close>

section \<open>The scan of the queues\<close>

text \<open>\<open>sc_data\<close> is the caller's array, \<open>eventsRead\<close> the number of entries that count. \<open>taken\<close> logs the events that are
  dequeued, with the index of their queue, and \<open>woken\<close> the queues whose waiting writer is signalled.\<close>

record scan =
  sc_ctx :: sensors_poll_context_t
  sc_data :: "sensors_event_t list"
  eventsRead :: int
  empties :: int
  taken :: "(int \<times> sensors_event_t) list"
  woken :: "int list"

definition scan_body :: "sub_env \<Rightarrow> hal \<Rightarrow> scan \<Rightarrow> fault + scan" where
  "scan_body env s c =
     (let ctx = sc_ctx c; i = nextReadIndex ctx; queueCount = int (length (queues ctx));
          next_ix = (i + 1) mod queueCount in
      if i < 0 \<or> queueCount \<le> i then Inl Out_of_range
      else
        case peek (queues ctx ! nat i) of
          None \<Rightarrow> Inr (c\<lparr>empties := empties c + 1, sc_ctx := ctx\<lparr>nextReadIndex := next_ix\<rparr>\<rparr>)
        | Some event \<Rightarrow>
            if int (length (sc_data c)) \<le> eventsRead c then Inl Buffer_overrun
            else
              let out = copy_event_remap_handle env s event i;
                  (wakes, q) = dequeue (queues ctx ! nat i)
              in Inr (c\<lparr>empties := 0, sc_data := (sc_data c)[nat (eventsRead c) := out],
                   eventsRead := (if ev_sensor out = -1 then eventsRead c else eventsRead c + 1),
                   sc_ctx := ctx\<lparr>queues := (queues ctx)[nat i := q], nextReadIndex := next_ix\<rparr>,
                   taken := taken c @ [(i, event)], woken := (if wakes then woken c @ [i] else woken c)\<rparr>))"

partial_function (option) poll_scan :: "sub_env \<Rightarrow> hal \<Rightarrow> int \<Rightarrow> scan \<Rightarrow> (fault + scan) option" where
  "poll_scan env s maxReads c =
     (if empties c < int (length (queues (sc_ctx c))) \<and> eventsRead c < maxReads then
        case scan_body env s c of Inl e \<Rightarrow> Some (Inl e) | Inr c \<Rightarrow> poll_scan env s maxReads c
      else Some (Inr c))"

section \<open>The threads\<close>

text \<open>The writer: at the test for space; asleep for want of it; in its device's \<^verbatim>\<open>poll\<close> with a region of \<open>n\<close> slots from
  \<open>i\<close>; about to mark the \<open>m\<close> events it got.\<close>

datatype writer = W_top | W_wait | W_poll int int | W_mark int int int

text \<open>The reader: outside \<^verbatim>\<open>poll\<close>; asleep for want of data; woken and about to take the mutex.\<close>

datatype reader = R_out | R_wait int "sensors_event_t list" | R_woken int "sensors_event_t list"

record threads =
  dev_ctx :: sensors_poll_context_t
  writers :: "writer list"
  reader :: reader
  waiting_for_data :: bool
  polled :: "sensors_event_t list list"
  consumed :: "(int \<times> sensors_event_t) list"
  delivered :: "sensors_event_t list list"

definition threads_boot :: "sensors_poll_context_t \<Rightarrow> threads" where
  "threads_boot c = \<lparr>dev_ctx = c, writers = replicate (length (queues c)) W_top, reader = R_out, waiting_for_data = False,
     polled = replicate (length (queues c)) [], consumed = [], delivered = []\<rparr>"

definition queue_of :: "threads \<Rightarrow> nat \<Rightarrow> sensors_event_t SensorEventQueue" where
  "queue_of t j = queues (dev_ctx t) ! j"

definition set_queue :: "nat \<Rightarrow> sensors_event_t SensorEventQueue \<Rightarrow> threads \<Rightarrow> threads" where
  "set_queue j q t = t\<lparr>dev_ctx := (dev_ctx t)\<lparr>queues := (queues (dev_ctx t))[j := q]\<rparr>\<rparr>"

definition set_writer :: "nat \<Rightarrow> writer \<Rightarrow> threads \<Rightarrow> threads" where
  "set_writer j w t = t\<lparr>writers := (writers t)[j := w]\<rparr>"

text \<open>The writer's first critical section, up to \<^verbatim>\<open>device->poll\<close> or to sleep.\<close>

definition writer_enter :: "nat \<Rightarrow> threads \<Rightarrow> threads" where
  "writer_enter j t =
     (if is_full (queue_of t j) then set_writer j W_wait t
      else case getWritableRegion SENSOR_EVENT_QUEUE_CAPACITY (queue_of t j) of
        (Some i, n) \<Rightarrow> set_writer j (W_poll i n) t
      | (None, n) \<Rightarrow> t)"

text \<open>\<^verbatim>\<open>device->poll\<close> returns \<open>m\<close>.\<close>

definition writer_polled :: "nat \<Rightarrow> int \<Rightarrow> int \<Rightarrow> int \<Rightarrow> threads \<Rightarrow> threads" where
  "writer_polled j i n m t =
     (if m \<le> 0 then set_writer j W_top t
      else set_writer j (W_mark i n m)
        (t\<lparr>polled := (polled t)[j := polled t ! j @ take (nat m) (cells (queue_of t j) i n)]\<rparr>))"

text \<open>The writer's second critical section.\<close>

definition wake_reader :: "threads \<Rightarrow> threads" where
  "wake_reader t = t\<lparr>reader := (case reader t of R_wait mr d \<Rightarrow> R_woken mr d | r \<Rightarrow> r)\<rparr>"

definition writer_mark :: "nat \<Rightarrow> int \<Rightarrow> threads \<Rightarrow> threads" where
  "writer_mark j m t =
     (let t = set_queue j (markAsWritten m (queue_of t j)) t;
          t = (if waiting_for_data t then wake_reader t else t)
      in set_writer j W_top t)"

text \<open>A broadcast to the writers that wait on these queues.\<close>

definition wake_writers :: "int list \<Rightarrow> writer list \<Rightarrow> writer list" where
  "wake_writers js ws = map (\<lambda>(j, w). if int j \<in> set js \<and> w = W_wait then W_top else w) (enumerate 0 ws)"

text \<open>The reader's critical section: the scan from an empty count, then either the return or sleep.\<close>

definition poll_section :: "sub_env \<Rightarrow> hal \<Rightarrow> int \<Rightarrow> sensors_event_t list \<Rightarrow> threads \<Rightarrow> (fault + threads) option" where
  "poll_section env s maxReads d t =
     map_option
       (map_sum (\<lambda>e. e)
         (\<lambda>c. let t = t\<lparr>dev_ctx := sc_ctx c, writers := wake_writers (woken c) (writers t), consumed := consumed t @ taken c\<rparr> in
            if eventsRead c = 0 then t\<lparr>reader := R_wait maxReads (sc_data c), waiting_for_data := True\<rparr>
            else t\<lparr>reader := R_out, delivered := delivered t @ [take (nat (eventsRead c)) (sc_data c)]\<rparr>))
       (poll_scan env s maxReads \<lparr>sc_ctx = dev_ctx t, sc_data = d, eventsRead = 0, empties = 0, taken = [], woken = []\<rparr>)"

inductive mh_step :: "sub_env \<Rightarrow> hal \<Rightarrow> threads \<Rightarrow> threads \<Rightarrow> bool" for env s where
  enter: "\<lbrakk>j < length (writers t); writers t ! j = W_top\<rbrakk> \<Longrightarrow> mh_step env s t (writer_enter j t)"
| writer_spurious: "\<lbrakk>j < length (writers t); writers t ! j = W_wait\<rbrakk> \<Longrightarrow> mh_step env s t (set_writer j W_top t)"
| device_stores: "\<lbrakk>j < length (writers t); writers t ! j = W_poll i n; 0 \<le> k; k < n\<rbrakk>
    \<Longrightarrow> mh_step env s t (set_queue j (store (i + k) e (queue_of t j)) t)"
| device_returns: "\<lbrakk>j < length (writers t); writers t ! j = W_poll i n; m \<le> n\<rbrakk> \<Longrightarrow> mh_step env s t (writer_polled j i n m t)"
| mark: "\<lbrakk>j < length (writers t); writers t ! j = W_mark i n m\<rbrakk> \<Longrightarrow> mh_step env s t (writer_mark j m t)"
| poll_called: "\<lbrakk>reader t = R_out; maxReads \<le> int (length d); poll_section env s maxReads d t = Some (Inr t')\<rbrakk> \<Longrightarrow> mh_step env s t t'"
| reader_spurious: "reader t = R_wait mr d \<Longrightarrow> mh_step env s t (t\<lparr>reader := R_woken mr d\<rparr>)"
| poll_resumed: "\<lbrakk>reader t = R_woken mr d; poll_section env s mr d (t\<lparr>waiting_for_data := False\<rparr>) = Some (Inr t')\<rbrakk> \<Longrightarrow> mh_step env s t t'"

inductive mh_reached :: "sub_env \<Rightarrow> hal \<Rightarrow> threads \<Rightarrow> threads \<Rightarrow> bool" for env s t where
  start: "mh_reached env s t t"
| more: "mh_reached env s t t1 \<Longrightarrow> mh_step env s t1 t2 \<Longrightarrow> mh_reached env s t t2"

end
