(* ===== verification/Sensor_Poll_Props.thy ===== *)
theory Sensor_Poll_Props
  imports Sensor_Poll Sensor_Props
begin

text \<open>
  The delivery of sensor events: every event a sub-HAL hands over is passed on once, in its order, or dropped because
  its handle is unknown; \<^verbatim>\<open>poll\<close>'s scan ends without a fault; and no thread sleeps while there is work for it.
\<close>

section \<open>The scan\<close>

text \<open>The events of queue \<open>j\<close> among those dequeued, and what the caller gets of them.\<close>

definition of_queue :: "nat \<Rightarrow> (int \<times> sensors_event_t) list \<Rightarrow> sensors_event_t list" where
  "of_queue j xs = map snd (filter (\<lambda>x. fst x = int j) xs)"

definition passed_on :: "sub_env \<Rightarrow> hal \<Rightarrow> (int \<times> sensors_event_t) list \<Rightarrow> sensors_event_t list" where
  "passed_on env s xs = filter (\<lambda>e. ev_sensor e \<noteq> -1) (map (\<lambda>(i, e). copy_event_remap_handle env s e i) xs)"

lemma of_queue_append [simp]: "of_queue j (xs @ ys) = of_queue j xs @ of_queue j ys"
  by (simp add: of_queue_def)

lemma passed_on_append [simp]: "passed_on env s (xs @ ys) = passed_on env s xs @ passed_on env s ys"
  by (simp add: passed_on_def)

text \<open>A queue after \<open>xs\<close> were dequeued; \<open>w\<close> says whether its writer was signalled.\<close>

definition follows :: "'e SensorEventQueue \<Rightarrow> 'e SensorEventQueue \<Rightarrow> 'e list \<Rightarrow> bool \<Rightarrow> bool" where
  "follows q0 q xs w \<longleftrightarrow> queue_ok q \<and> mCapacity q = mCapacity q0 \<and> contents q0 = xs @ contents q \<and> (is_full q0 \<longrightarrow> is_full q \<or> w) \<and>
     (\<forall>i n. region_ok q0 i n \<longrightarrow> region_ok q i n \<and> cells q i n = cells q0 i n)"

lemma follows_refl: "queue_ok q \<Longrightarrow> follows q q [] False"
  by (simp add: follows_def)

lemma dequeue_capacity [simp]: "mCapacity (snd (dequeue q)) = mCapacity q"
  by (simp add: dequeue_def)

lemma follows_dequeue:
  assumes "follows q0 q xs w" and "peek q = Some e"
  shows "follows q0 (snd (dequeue q)) (xs @ [e]) (w \<or> fst (dequeue q))"
proof -
  have ok: "queue_ok q" using assms(1) by (simp add: follows_def)
  have "contents q = e # tl (contents q)" using ring.first [OF ok] assms(2) by (simp split: list.splits)
  then show ?thesis
    using assms(1) ring.drop1_ok [OF ok] ring.drop1_readable [OF ok] ring.drop1_owns [OF ok] ring.drop1_wakes [OF ok]
    by (auto simp: follows_def)
qed

lemma follows_weaken: "follows q0 q xs w \<Longrightarrow> w \<longrightarrow> w' \<Longrightarrow> follows q0 q xs w'"
  by (auto simp: follows_def)

text \<open>The invariant of the inner loop, from the queues \<open>Q\<close> on: the last \<open>empties\<close> queues visited are empty.\<close>

definition scan_ok :: "sub_env \<Rightarrow> hal \<Rightarrow> int \<Rightarrow> sensors_event_t SensorEventQueue list \<Rightarrow> scan \<Rightarrow> bool" where
  "scan_ok env s mr Q c \<longleftrightarrow>
     (let qs = queues (sc_ctx c); N = int (length qs) in
      length qs = length Q \<and> (Q \<noteq> [] \<longrightarrow> 0 \<le> nextReadIndex (sc_ctx c) \<and> nextReadIndex (sc_ctx c) < N) \<and>
      0 \<le> empties c \<and> 0 \<le> eventsRead c \<and> mr \<le> int (length (sc_data c)) \<and> (eventsRead c = 0 \<or> eventsRead c \<le> mr) \<and>
      take (nat (eventsRead c)) (sc_data c) = passed_on env s (taken c) \<and>
      (\<forall>j<length Q. follows (Q ! j) (qs ! j) (of_queue j (taken c)) (int j \<in> set (woken c))) \<and>
      (\<forall>k. 1 \<le> k \<and> k \<le> empties c \<longrightarrow> contents (qs ! nat ((nextReadIndex (sc_ctx c) - k) mod N)) = []))"

lemma scan_ok_follows: "scan_ok env s mr Q c \<Longrightarrow> j < length Q \<Longrightarrow> follows (Q ! j) (queues (sc_ctx c) ! j) (of_queue j (taken c)) (int j \<in> set (woken c))"
  by (simp add: scan_ok_def Let_def)

definition scan_left :: "scan \<Rightarrow> nat" where
  "scan_left c = (let qs = queues (sc_ctx c) in
     sum_list (map (\<lambda>q. length (contents q)) qs) * (length qs + 1) + nat (int (length qs) - empties c))"

lemma sum_update_less:
  fixes f :: "'a \<Rightarrow> nat"
  assumes "i < length xs" and "f y < f (xs ! i)"
  shows "sum_list (map f (xs[i := y])) < sum_list (map f xs)"
  using assms
proof (induction xs arbitrary: i)
  case (Cons x xs)
  then show ?case by (cases i) auto
qed simp

lemma scan_empty_step:
  assumes "scan_ok env s mr Q c" and "empties c < int (length Q)" and "peek (queues (sc_ctx c) ! nat (nextReadIndex (sc_ctx c))) = None"
  shows "\<exists>c'. scan_body env s c = Inr c' \<and> scan_ok env s mr Q c' \<and> scan_left c' < scan_left c"
proof -
  let ?qs = "queues (sc_ctx c)" and ?i = "nextReadIndex (sc_ctx c)" and ?N = "int (length (queues (sc_ctx c)))"
  let ?c = "c\<lparr>empties := empties c + 1, sc_ctx := (sc_ctx c)\<lparr>nextReadIndex := (?i + 1) mod ?N\<rparr>\<rparr>"
  have Q: "length ?qs = length Q" "Q \<noteq> []" "0 \<le> ?i" "?i < ?N" using assms(1,2) by (auto simp: scan_ok_def Let_def)
  then have b: "scan_body env s c = Inr ?c" using assms(3) by (simp add: scan_body_def Let_def)
  have ok: "queue_ok (?qs ! nat ?i)" using assms(1) Q by (simp add: scan_ok_def Let_def follows_def nat_less_iff)
  have e: "contents (?qs ! nat ?i) = []" using ring.first [OF ok] assms(3) by (simp split: list.splits)
  have k: "contents (?qs ! nat (((?i + 1) mod ?N - k) mod ?N)) = []" if "1 \<le> k" "k \<le> empties c + 1" for k
  proof -
    have "((?i + 1) mod ?N - k) mod ?N = (?i - (k - 1)) mod ?N" by (simp add: mod_simps algebra_simps)
    moreover have "?i mod ?N = ?i" using Q by simp
    ultimately show ?thesis using that e assms(1) by (cases "k = 1") (auto simp: scan_ok_def Let_def)
  qed
  have "scan_ok env s mr Q ?c" using assms(1,2) Q k by (simp add: scan_ok_def Let_def)
  moreover have "scan_left ?c < scan_left c" using assms(2) Q by (simp add: scan_left_def Let_def)
  ultimately show ?thesis using b by blast
qed

lemma scan_take_step:
  assumes "scan_ok env s mr Q c" and "empties c < int (length Q)" and "eventsRead c < mr"
    and "peek (queues (sc_ctx c) ! nat (nextReadIndex (sc_ctx c))) = Some e"
  shows "\<exists>c'. scan_body env s c = Inr c' \<and> scan_ok env s mr Q c' \<and> scan_left c' < scan_left c"
proof -
  let ?qs = "queues (sc_ctx c)" and ?i = "nextReadIndex (sc_ctx c)" and ?N = "int (length (queues (sc_ctx c)))"
  let ?q = "?qs ! nat ?i"
  have Q: "length ?qs = length Q" "Q \<noteq> []" "0 \<le> ?i" "?i < ?N" and r: "0 \<le> eventsRead c" "eventsRead c < int (length (sc_data c))"
    using assms(1-3) by (auto simp: scan_ok_def Let_def)
  let ?out = "copy_event_remap_handle env s e ?i"
  let ?c = "c\<lparr>empties := 0, sc_data := (sc_data c)[nat (eventsRead c) := ?out],
      eventsRead := (if ev_sensor ?out = -1 then eventsRead c else eventsRead c + 1),
      sc_ctx := (sc_ctx c)\<lparr>queues := ?qs[nat ?i := snd (dequeue ?q)], nextReadIndex := (?i + 1) mod ?N\<rparr>,
      taken := taken c @ [(?i, e)], woken := (if fst (dequeue ?q) then woken c @ [?i] else woken c)\<rparr>"
  have b: "scan_body env s c = Inr ?c" using assms(4) Q r by (simp add: scan_body_def Let_def case_prod_beta)
  have f: "follows (Q ! j) (?qs[nat ?i := snd (dequeue ?q)] ! j) (of_queue j (taken c @ [(?i, e)])) (int j \<in> set (woken ?c))"
    if "j < length Q" for j
  proof (cases "j = nat ?i")
    case True
    have "follows (Q ! j) ?q (of_queue j (taken c)) (int j \<in> set (woken c))"
      using scan_ok_follows [OF assms(1) that] unfolding True .
    from follows_dequeue [OF this assms(4)] have "follows (Q ! j) (snd (dequeue ?q)) (of_queue j (taken c @ [(?i, e)])) (int j \<in> set (woken ?c))"
      using True Q by (auto simp: of_queue_def elim: follows_weaken)
    then show ?thesis using True that Q by simp
  next
    case False
    then have "int j \<noteq> ?i" by auto
    then show ?thesis using assms(1) that False by (auto simp: scan_ok_def Let_def of_queue_def)
  qed
  have ok: "queue_ok ?q" using assms(1) Q by (simp add: scan_ok_def Let_def follows_def nat_less_iff)
  have "take (nat (eventsRead c) + 1) ((sc_data c)[nat (eventsRead c) := ?out]) = take (nat (eventsRead c)) (sc_data c) @ [?out]"
    using r by (subst take_Suc_conv_app_nth [of "nat (eventsRead c)", unfolded Suc_eq_plus1]) (simp_all add: nat_less_iff)
  then have "take (nat (eventsRead ?c)) (sc_data ?c) = passed_on env s (taken ?c)"
    using assms(1) r by (simp add: scan_ok_def Let_def passed_on_def nat_add_distrib)
  moreover have "0 \<le> (?i + 1) mod ?N" "(?i + 1) mod ?N < ?N" using Q by simp_all
  ultimately have "scan_ok env s mr Q ?c" using assms(1,3) Q r f by (auto simp: scan_ok_def Let_def)
  moreover have "scan_left ?c < scan_left c"
  proof -
    have "contents ?q \<noteq> []" using ring.first [OF ok] assms(4) by (auto split: list.splits)
    then have "sum_list (map (\<lambda>q. length (contents q)) (?qs[nat ?i := snd (dequeue ?q)])) < sum_list (map (\<lambda>q. length (contents q)) ?qs)"
      using Q ring.drop1_readable [OF ok] by (intro sum_update_less) (auto simp: nat_less_iff simp del: contents_length)
    then have "(sum_list (map (\<lambda>q. length (contents q)) (?qs[nat ?i := snd (dequeue ?q)])) + 1) * (length ?qs + 1)
        \<le> sum_list (map (\<lambda>q. length (contents q)) ?qs) * (length ?qs + 1)" by (intro mult_le_mono1) simp
    then show ?thesis using assms(1) by (simp add: scan_left_def Let_def scan_ok_def)
  qed
  ultimately show ?thesis using b by blast
qed

lemma scan_step:
  assumes "scan_ok env s mr Q c" and "empties c < int (length (queues (sc_ctx c)))" and "eventsRead c < mr"
  shows "\<exists>c'. scan_body env s c = Inr c' \<and> scan_ok env s mr Q c' \<and> scan_left c' < scan_left c"
proof -
  have "length (queues (sc_ctx c)) = length Q" using assms(1) by (simp add: scan_ok_def Let_def)
  with assms show ?thesis
    by (cases "peek (queues (sc_ctx c) ! nat (nextReadIndex (sc_ctx c)))") (auto intro: scan_empty_step scan_take_step)
qed

lemma scan_ends:
  "scan_ok env s mr Q c \<Longrightarrow> \<exists>c'. poll_scan env s mr c = Some (Inr c') \<and> scan_ok env s mr Q c' \<and>
     (int (length Q) \<le> empties c' \<or> mr \<le> eventsRead c')"
proof (induction c rule: measure_induct_rule [of scan_left])
  case (less c)
  have n: "length (queues (sc_ctx c)) = length Q" using less.prems by (simp add: scan_ok_def Let_def)
  show ?case
  proof (cases "empties c < int (length (queues (sc_ctx c))) \<and> eventsRead c < mr")
    case True
    with scan_step [OF less.prems] obtain c1 where c1: "scan_body env s c = Inr c1" "scan_ok env s mr Q c1" "scan_left c1 < scan_left c"
      by blast
    from less.IH [OF c1(3,2)] True c1(1) show ?thesis by (subst poll_scan.simps) simp
  next
    case False
    with less.prems n show ?thesis by (subst poll_scan.simps) auto
  qed
qed

section \<open>The threads\<close>

text \<open>What is known of queue \<open>q\<close> and its writer \<open>w\<close>, when the device handed over \<open>p\<close> and the reader dequeued \<open>xs\<close>.\<close>

fun in_flight :: "'e SensorEventQueue \<Rightarrow> writer \<Rightarrow> 'e list" where
  "in_flight q (W_mark i n m) = take (nat m) (cells q i n)"
| "in_flight q w = []"

fun writer_ok :: "'e SensorEventQueue \<Rightarrow> writer \<Rightarrow> bool" where
  "writer_ok q W_top = True"
| "writer_ok q W_wait = is_full q"
| "writer_ok q (W_poll i n) = region_ok q i n"
| "writer_ok q (W_mark i n m) = (region_ok q i n \<and> 0 < m \<and> m \<le> n)"

definition lane_ok :: "threads \<Rightarrow> nat \<Rightarrow> bool" where
  "lane_ok t j \<longleftrightarrow> queue_ok (queue_of t j) \<and> mCapacity (queue_of t j) = SENSOR_EVENT_QUEUE_CAPACITY \<and> writer_ok (queue_of t j) (writers t ! j) \<and>
     polled t ! j = of_queue j (consumed t) @ contents (queue_of t j) @ in_flight (queue_of t j) (writers t ! j)"

definition reader_ok :: "threads \<Rightarrow> bool" where
  "reader_ok t \<longleftrightarrow>
     (case reader t of
        R_out \<Rightarrow> True
      | R_wait mr d \<Rightarrow> waiting_for_data t \<and> mr \<le> int (length d) \<and> (0 < mr \<longrightarrow> (\<forall>j<length (writers t). contents (queue_of t j) = []))
      | R_woken mr d \<Rightarrow> mr \<le> int (length d))"

definition threads_ok :: "sub_env \<Rightarrow> hal \<Rightarrow> threads \<Rightarrow> bool" where
  "threads_ok env s t \<longleftrightarrow>
     length (queues (dev_ctx t)) = length (writers t) \<and> length (polled t) = length (writers t) \<and>
     (writers t \<noteq> [] \<longrightarrow> 0 \<le> nextReadIndex (dev_ctx t) \<and> nextReadIndex (dev_ctx t) < int (length (writers t))) \<and>
     (\<forall>j<length (writers t). lane_ok t j) \<and> reader_ok t \<and>
     concat (delivered t) = passed_on env s (consumed t)"

lemma queue_of_simps [simp]:
  "queue_of (set_writer j w t) k = queue_of t k"
  "k < length (queues (dev_ctx t)) \<Longrightarrow> queue_of (set_queue j q t) k = (if k = j then q else queue_of t k)"
  "queue_of (t\<lparr>reader := r\<rparr>) k = queue_of t k"
  "queue_of (t\<lparr>waiting_for_data := b\<rparr>) k = queue_of t k"
  "queue_of (t\<lparr>polled := ps\<rparr>) k = queue_of t k"
  "queue_of (t\<lparr>delivered := ds\<rparr>) k = queue_of t k"
  by (simp_all add: queue_of_def set_writer_def set_queue_def)

lemma lane_frame:
  "lane_ok (t\<lparr>reader := r\<rparr>) k = lane_ok t k"
  "lane_ok (t\<lparr>waiting_for_data := b\<rparr>) k = lane_ok t k"
  "lane_ok (t\<lparr>delivered := ds\<rparr>) k = lane_ok t k"
  "lane_ok (wake_reader t) k = lane_ok t k"
  by (simp_all add: lane_ok_def wake_reader_def)

text \<open>The writer's own steps, and those of its device, keep the invariant.\<close>

lemma set_writer_ok:
  assumes "threads_ok env s t" and "j < length (writers t)" and "writer_ok (queue_of t j) w"
    and "in_flight (queue_of t j) w = in_flight (queue_of t j) (writers t ! j)"
  shows "threads_ok env s (set_writer j w t)"
proof -
  have "lane_ok (set_writer j w t) k" if "k < length (writers t)" for k
    using assms that by (cases "k = j") (simp_all add: threads_ok_def lane_ok_def set_writer_def queue_of_def)
  then show ?thesis using assms(1) by (simp add: threads_ok_def set_writer_def reader_ok_def queue_of_def split: reader.splits)
qed

lemma enter_ok:
  assumes "threads_ok env s t" and "j < length (writers t)" and "writers t ! j = W_top"
  shows "threads_ok env s (writer_enter j t)"
proof (cases "is_full (queue_of t j)")
  case True
  then show ?thesis using assms by (simp add: writer_enter_def set_writer_ok)
next
  case False
  have ok: "queue_ok (queue_of t j)" using assms(1,2) by (simp add: threads_ok_def lane_ok_def)
  obtain i n where r: "getWritableRegion SENSOR_EVENT_QUEUE_CAPACITY (queue_of t j) = (Some i, n)"
    using ring.ask_none [OF ok, of SENSOR_EVENT_QUEUE_CAPACITY] False
    by (cases "getWritableRegion SENSOR_EVENT_QUEUE_CAPACITY (queue_of t j)") (auto simp: SENSOR_EVENT_QUEUE_CAPACITY_def)
  then show ?thesis using False assms ring.ask_owns [OF ok r] by (simp add: writer_enter_def set_writer_ok)
qed

lemma stores_ok:
  assumes "threads_ok env s t" and "j < length (writers t)" and "writers t ! j = W_poll i n" and "0 \<le> k" and "k < n"
  shows "threads_ok env s (set_queue j (store (i + k) e (queue_of t j)) t)"
proof -
  have l: "lane_ok t j" "length (queues (dev_ctx t)) = length (writers t)" using assms(1,2) by (simp_all add: threads_ok_def)
  then have o: "queue_ok (queue_of t j)" "region_ok (queue_of t j) i n" using assms(3) by (simp_all add: lane_ok_def)
  note st = ring.put_ok [OF o(1)] ring.put_readable [OF o assms(4,5)]
  have m: "mCapacity (store (i + k) e (queue_of t j)) = mCapacity (queue_of t j)" by (simp add: store_def)
  have "lane_ok (set_queue j (store (i + k) e (queue_of t j)) t) k'" if "k' < length (writers t)" for k'
  proof -
    have "lane_ok t k'" using assms(1) that by (simp add: threads_ok_def)
    then show ?thesis using assms(3) that l(2) st m o(2)
      by (cases "k' = j") (simp_all add: lane_ok_def, simp_all add: set_queue_def store_region)
  qed
  then show ?thesis using assms(1,2) l st
    by (auto simp: threads_ok_def reader_ok_def set_queue_def queue_of_def nth_list_update split: reader.splits)
qed

lemma polled_ok:
  assumes "threads_ok env s t" and "j < length (writers t)" and "writers t ! j = W_poll i n" and "m \<le> n"
  shows "threads_ok env s (writer_polled j i n m t)"
proof (cases "m \<le> 0")
  case True
  then show ?thesis using assms by (simp add: writer_polled_def set_writer_ok)
next
  case False
  have "region_ok (queue_of t j) i n" using assms by (auto simp: threads_ok_def lane_ok_def)
  then have "lane_ok (writer_polled j i n m t) k" if "k < length (writers t)" for k
    using assms that False by (cases "k = j") (simp_all add: writer_polled_def threads_ok_def lane_ok_def set_writer_def queue_of_def)
  then show ?thesis
    using assms(1) False by (simp add: writer_polled_def threads_ok_def set_writer_def reader_ok_def queue_of_def split: reader.splits)
qed

lemma mark_frame:
  "length (writers (writer_mark j m t)) = length (writers t)" "polled (writer_mark j m t) = polled t"
  "consumed (writer_mark j m t) = consumed t" "delivered (writer_mark j m t) = delivered t"
  "nextReadIndex (dev_ctx (writer_mark j m t)) = nextReadIndex (dev_ctx t)"
  "length (queues (dev_ctx (writer_mark j m t))) = length (queues (dev_ctx t))"
  by (simp_all add: writer_mark_def Let_def set_writer_def set_queue_def wake_reader_def)

lemma mark_step_ok:
  assumes "threads_ok env s t" and "j < length (writers t)" and "writers t ! j = W_mark i n m"
  shows "threads_ok env s (writer_mark j m t)"
proof -
  have l: "lane_ok t j" "length (queues (dev_ctx t)) = length (writers t)" using assms(1,2) by (simp_all add: threads_ok_def)
  then have o: "queue_ok (queue_of t j)" "region_ok (queue_of t j) i n" "0 \<le> m" "m \<le> n" using assms(3) by (simp_all add: lane_ok_def)
  note mk = ring.commit_ok [OF o] ring.commit_readable [OF o]
  have c: "mCapacity (markAsWritten m (queue_of t j)) = mCapacity (queue_of t j)" by (simp add: markAsWritten_def)
  let ?t = "set_writer j W_top (set_queue j (markAsWritten m (queue_of t j)) t)"
  have e: "writer_mark j m t = (if waiting_for_data t then wake_reader ?t else ?t)"
    by (simp add: writer_mark_def Let_def set_writer_def set_queue_def wake_reader_def)
  have "lane_ok ?t k" if "k < length (writers t)" for k
    using assms that l mk c
    by (cases "k = j") (simp_all add: threads_ok_def lane_ok_def, simp_all add: set_queue_def set_writer_def)
  then have "lane_ok (writer_mark j m t) k" if "k < length (writers t)" for k
    using that e by (simp add: lane_frame)
  moreover have "reader_ok (writer_mark j m t)"
    using assms(1) by (auto simp: threads_ok_def reader_ok_def writer_mark_def Let_def set_writer_def set_queue_def wake_reader_def split: reader.splits)
  moreover have "writers t \<noteq> []" using assms(2) by auto
  ultimately show ?thesis using assms(1) by (simp add: threads_ok_def mark_frame)
qed

text \<open>The reader's critical section.\<close>

lemma wake_writers_length [simp]: "length (wake_writers js ws) = length ws"
  by (simp add: wake_writers_def)

lemma wake_writers_nil [simp]: "wake_writers js ws = [] \<longleftrightarrow> ws = []"
  by (simp flip: length_0_conv)

lemma wake_writers_nth: "j < length ws \<Longrightarrow> wake_writers js ws ! j = (if int j \<in> set js \<and> ws ! j = W_wait then W_top else ws ! j)"
  by (simp add: wake_writers_def nth_enumerate_eq)

definition after_scan :: "int \<Rightarrow> threads \<Rightarrow> scan \<Rightarrow> threads" where
  "after_scan mr t c =
     (let t = t\<lparr>dev_ctx := sc_ctx c, writers := wake_writers (woken c) (writers t), consumed := consumed t @ taken c\<rparr> in
      if eventsRead c = 0 then t\<lparr>reader := R_wait mr (sc_data c), waiting_for_data := True\<rparr>
      else t\<lparr>reader := R_out, delivered := delivered t @ [take (nat (eventsRead c)) (sc_data c)]\<rparr>)"

lemma after_scan_frame:
  "dev_ctx (after_scan mr t c) = sc_ctx c" "writers (after_scan mr t c) = wake_writers (woken c) (writers t)"
  "polled (after_scan mr t c) = polled t" "consumed (after_scan mr t c) = consumed t @ taken c"
  "delivered (after_scan mr t c) = delivered t @ (if eventsRead c = 0 then [] else [take (nat (eventsRead c)) (sc_data c)])"
  "reader (after_scan mr t c) = (if eventsRead c = 0 then R_wait mr (sc_data c) else R_out)"
  "waiting_for_data (after_scan mr t c) = (eventsRead c = 0 \<or> waiting_for_data t)"
  by (simp_all add: after_scan_def Let_def)

lemma lane_follows:
  assumes "lane_ok t j" and "j < length (writers t)"
    and "follows (queue_of t j) (queues (sc_ctx c) ! j) (of_queue j (taken c)) (int j \<in> set (woken c))"
  shows "lane_ok (after_scan mr t c) j"
proof -
  have q: "queue_of (after_scan mr t c) j = queues (sc_ctx c) ! j" by (simp add: queue_of_def after_scan_frame)
  show ?thesis
    using assms unfolding lane_ok_def q after_scan_frame wake_writers_nth [OF assms(2)]
    by (cases "writers t ! j") (auto simp: follows_def)
qed

lemma all_visited:
  assumes "scan_ok env s mr Q c" and "int (length Q) \<le> empties c" and "j < length Q"
  shows "contents (queues (sc_ctx c) ! j) = []"
proof -
  let ?N = "int (length (queues (sc_ctx c)))" and ?i = "nextReadIndex (sc_ctx c)"
  have N: "length (queues (sc_ctx c)) = length Q" "0 \<le> ?i" "?i < ?N" using assms(1,3) by (auto simp: scan_ok_def Let_def)
  let ?k = "(?i - int j - 1) mod ?N + 1"
  have "(?i - ?k) mod ?N = (?i - 1 - (?i - int j - 1) mod ?N) mod ?N" by (simp add: algebra_simps)
  also have "\<dots> = int j mod ?N" by (simp add: mod_diff_right_eq)
  also have "\<dots> = int j" using assms(3) N(1) by simp
  finally have e: "nat ((?i - ?k) mod ?N) = j" by simp
  have p: "0 < ?N" using N by linarith
  have "1 \<le> ?k" using pos_mod_sign [OF p, of "?i - int j - 1"] by linarith
  moreover have "?k \<le> empties c" using pos_mod_bound [OF p, of "?i - int j - 1"] N(1) assms(2) by linarith
  ultimately have "contents (queues (sc_ctx c) ! nat ((?i - ?k) mod ?N)) = []" using assms(1) unfolding scan_ok_def Let_def by blast
  then show ?thesis unfolding e .
qed

lemma scan_delivers:
  assumes "scan_ok env s mr Q c" and "eventsRead c \<noteq> 0"
  shows "1 \<le> length (take (nat (eventsRead c)) (sc_data c)) \<and> int (length (take (nat (eventsRead c)) (sc_data c))) \<le> mr"
proof -
  have "0 \<le> eventsRead c" "mr \<le> int (length (sc_data c))" "eventsRead c = 0 \<or> eventsRead c \<le> mr"
    using assms(1) by (simp_all add: scan_ok_def Let_def)
  then show ?thesis using assms(2) by auto
qed

lemma section_ends:
  assumes "threads_ok env s t" and "mr \<le> int (length d)"
  obtains c where "poll_section env s mr d t = Some (Inr (after_scan mr t c))" "scan_ok env s mr (queues (dev_ctx t)) c"
    "int (length (queues (dev_ctx t))) \<le> empties c \<or> mr \<le> eventsRead c"
proof -
  let ?c = "\<lparr>sc_ctx = dev_ctx t, sc_data = d, eventsRead = 0, empties = 0, taken = [], woken = []\<rparr>" and ?Q = "queues (dev_ctx t)"
  have n: "length ?Q = length (writers t)" and lane: "\<And>j. j < length (writers t) \<Longrightarrow> lane_ok t j"
    using assms(1) by (simp_all add: threads_ok_def)
  have "follows (?Q ! j) (?Q ! j) [] False" if "j < length ?Q" for j
    using lane [of j] that n by (simp add: follows_refl lane_ok_def queue_of_def)
  then have "scan_ok env s mr ?Q ?c"
    using assms n by (auto simp: scan_ok_def Let_def threads_ok_def of_queue_def passed_on_def)
  from scan_ends [OF this] obtain c where c: "poll_scan env s mr ?c = Some (Inr c)" "scan_ok env s mr ?Q c"
      and fin: "int (length ?Q) \<le> empties c \<or> mr \<le> eventsRead c" by blast
  moreover have "poll_section env s mr d t = Some (Inr (after_scan mr t c))" by (simp add: poll_section_def c(1) after_scan_def)
  ultimately show ?thesis using c(2) fin that by blast
qed

lemma section_ok:
  assumes "threads_ok env s t" and "mr \<le> int (length d)"
  shows "\<exists>t'. poll_section env s mr d t = Some (Inr t') \<and> threads_ok env s t' \<and> (reader t' = R_out \<or> (\<exists>d'. reader t' = R_wait mr d'))"
proof -
  let ?Q = "queues (dev_ctx t)"
  obtain c where p: "poll_section env s mr d t = Some (Inr (after_scan mr t c))" and ok: "scan_ok env s mr ?Q c"
    and fin: "int (length ?Q) \<le> empties c \<or> mr \<le> eventsRead c" by (rule section_ends [OF assms])
  let ?t = "after_scan mr t c"
  have n: "length ?Q = length (writers t)" and lane: "\<And>j. j < length (writers t) \<Longrightarrow> lane_ok t j"
    using assms(1) by (simp_all add: threads_ok_def)
  have l: "lane_ok ?t j" if "j < length (writers t)" for j
    using scan_ok_follows [OF ok, of j] that n by (intro lane_follows lane) (simp_all add: queue_of_def)
  have data: "take (nat (eventsRead c)) (sc_data c) = passed_on env s (taken c)" and sz: "mr \<le> int (length (sc_data c))"
    using ok by (simp_all add: scan_ok_def Let_def)
  have "contents (queue_of ?t j) = []" if "eventsRead c = 0" "0 < mr" "j < length (writers t)" for j
    using all_visited [OF ok, of j] fin that n by (simp add: queue_of_def after_scan_frame)
  then have r: "reader_ok ?t" using sz by (simp add: reader_ok_def after_scan_frame)
  have "concat (delivered ?t) = passed_on env s (consumed ?t)"
    using assms(1) data by (auto simp: threads_ok_def after_scan_frame)
  with l r have "threads_ok env s ?t" using assms(1) ok n unfolding threads_ok_def
    by (auto simp: after_scan_frame scan_ok_def Let_def)
  then show ?thesis using p by (auto simp: after_scan_def Let_def)
qed

lemma section_result:
  assumes "threads_ok env s t" and "mr \<le> int (length d)"
  shows "\<exists>t'. poll_section env s mr d t = Some (Inr t') \<and>
    ((reader t' = R_out \<and> (\<exists>b. delivered t' = delivered t @ [b] \<and> 1 \<le> length b \<and> int (length b) \<le> mr)) \<or>
     (\<exists>d'. reader t' = R_wait mr d' \<and> (0 < mr \<longrightarrow> (\<forall>q\<in>set (queues (dev_ctx t')). contents q = []))))"
proof -
  obtain c where c: "poll_section env s mr d t = Some (Inr (after_scan mr t c))" "scan_ok env s mr (queues (dev_ctx t)) c"
    "int (length (queues (dev_ctx t))) \<le> empties c \<or> mr \<le> eventsRead c" by (rule section_ends [OF assms])
  have n: "length (queues (sc_ctx c)) = length (queues (dev_ctx t))" using c(2) by (simp add: scan_ok_def Let_def)
  have "contents q = []" if "q \<in> set (queues (sc_ctx c))" "eventsRead c = 0" "0 < mr" for q
    using that c(3) all_visited [OF c(2)] n by (auto simp: in_set_conv_nth)
  then show ?thesis using c(1) scan_delivers [OF c(2)] by (cases "eventsRead c = 0") (auto simp: after_scan_frame)
qed

lemma frame_ok:
  "threads_ok env s t \<Longrightarrow> reader t = R_wait mr d \<Longrightarrow> threads_ok env s (t\<lparr>reader := R_woken mr d\<rparr>)"
  "threads_ok env s t \<Longrightarrow> reader t = R_woken mr d \<Longrightarrow> threads_ok env s (t\<lparr>waiting_for_data := b\<rparr>) \<and> mr \<le> int (length d)"
  by (simp_all add: threads_ok_def reader_ok_def lane_frame)

lemma step_ok: "mh_step env s t t' \<Longrightarrow> threads_ok env s t \<Longrightarrow> threads_ok env s t'"
proof (induction rule: mh_step.induct)
  case (poll_called t maxReads d t')
  then show ?case using section_ok [of env s t maxReads d] by auto
next
  case (poll_resumed t mr d t')
  then show ?case using section_ok [of env s "t\<lparr>waiting_for_data := False\<rparr>" mr d] frame_ok(2) [of env s t mr d False] by auto
next
  case (writer_spurious j t)
  then show ?case by (simp add: set_writer_ok)
qed (simp_all add: enter_ok stores_ok polled_ok mark_step_ok frame_ok)

lemma section_lanes:
  assumes "poll_section env s mr d t = Some (Inr t')"
  shows "length (writers t') = length (writers t)"
proof -
  obtain z where z: "poll_scan env s mr \<lparr>sc_ctx = dev_ctx t, sc_data = d, eventsRead = 0, empties = 0, taken = [], woken = []\<rparr> = Some z"
    using assms by (auto simp: poll_section_def)
  with assms obtain c where "t' = after_scan mr t c" by (cases z) (auto simp: poll_section_def after_scan_def)
  then show ?thesis by (simp add: after_scan_frame)
qed

lemma step_lanes: "mh_step env s t t' \<Longrightarrow> length (writers t') = length (writers t)"
proof (induction rule: mh_step.induct)
  case (enter j t)
  then show ?case by (auto simp: writer_enter_def set_writer_def split: prod.splits option.splits)
qed (auto simp: set_writer_def set_queue_def writer_polled_def mark_frame dest: section_lanes)

lemma reached_lanes: "mh_reached env s t0 t \<Longrightarrow> length (writers t) = length (writers t0)"
  by (induction rule: mh_reached.induct) (auto dest: step_lanes)

lemma reached_ok: "mh_reached env s t0 t \<Longrightarrow> threads_ok env s t0 \<Longrightarrow> threads_ok env s t"
  by (induction rule: mh_reached.induct) (auto intro: step_ok)

section \<open>From the opened device on\<close>

lemma open_fold_queues:
  "r' = fold (open_one env nm) ms r \<Longrightarrow>
     nextReadIndex (fst r') = nextReadIndex (fst r) \<and>
     (\<exists>N. queues (fst r') = queues (fst r) @ replicate N (SensorEventQueue_new SENSOR_EVENT_QUEUE_CAPACITY (x_junk env)))"
proof (induction ms arbitrary: r)
  case Nil
  then show ?case by (auto intro: exI [of _ 0])
next
  case (Cons m ms)
  let ?q = "SensorEventQueue_new SENSOR_EVENT_QUEUE_CAPACITY (x_junk env)"
  have "r' = fold (open_one env nm) ms (open_one env nm m r)" using Cons.prems by simp
  from Cons.IH [OF this] obtain N where N: "nextReadIndex (fst r') = nextReadIndex (fst (open_one env nm m r))"
    "queues (fst r') = queues (fst (open_one env nm m r)) @ replicate N ?q" by blast
  have "nextReadIndex (fst (open_one env nm m r)) = nextReadIndex (fst r)"
    "queues (fst (open_one env nm m r)) = queues (fst r) \<or> queues (fst (open_one env nm m r)) = queues (fst r) @ [?q]"
    by (auto simp: open_one_def Let_def addSubHwDevice_def case_prod_beta)
  with N show ?case by (auto intro: exI [of _ N] exI [of _ "Suc N"])
qed

lemma opened_threads_ok:
  assumes "open_sensors env nm s0 = Inr (c, s1)" and "SENSOR_EVENT_QUEUE_CAPACITY \<le> int (length (x_junk env))"
  shows "threads_ok env s (threads_boot c)"
proof -
  let ?q = "SensorEventQueue_new SENSOR_EVENT_QUEUE_CAPACITY (x_junk env)"
  obtain s2 where s2: "lazy_init_modules env s0 = Inr s2" using assms(1) by (auto simp: open_sensors_def split: sum.splits)
  then have "(c, s1) = fold (open_one env nm) (the (sub_hw_modules s2))
      (\<lparr>sub_hw_devices = [], queues = [], nextReadIndex = 0\<rparr>, s2\<lparr>sub_hw_versions := Some Map.empty\<rparr>)"
    using assms(1) by (simp add: open_sensors_def)
  from open_fold_queues [OF this] obtain N where c: "nextReadIndex c = 0" "queues c = replicate N ?q" by auto
  have q: "queue_ok ?q" "contents ?q = []" "mCapacity ?q = SENSOR_EVENT_QUEUE_CAPACITY"
    using assms(2) by (simp_all add: SensorEventQueue_new_def queue_ok_def contents_def SENSOR_EVENT_QUEUE_CAPACITY_def)
  have "lane_ok (threads_boot c) j" if "j < N" for j
    using that q by (simp add: lane_ok_def threads_boot_def queue_of_def c of_queue_def)
  then show ?thesis using c by (simp add: threads_ok_def reader_ok_def) (auto simp: threads_boot_def c passed_on_def)
qed

text \<open>C13. Every event a sub-HAL hands over is delivered once and in order. Whatever the threads do after the device is
  opened, the events module \<open>j\<close>'s \<^verbatim>\<open>poll\<close> returned so far are those \<^verbatim>\<open>poll\<close> took from its queue, then those in the
  queue, then those its writer is about to mark; and the calls of \<^verbatim>\<open>poll\<close> together returned exactly the events taken, with
  their handles made global, less those of an unknown sensor.\<close>

theorem events_delivered_once:
  assumes "open_sensors env nm s0 = Inr (c, s1)" and "SENSOR_EVENT_QUEUE_CAPACITY \<le> int (length (x_junk env))"
    and "mh_reached env s (threads_boot c) t" and "j < length (queues c)"
  shows "polled t ! j = of_queue j (consumed t) @ contents (queue_of t j) @ in_flight (queue_of t j) (writers t ! j) \<and>
    concat (delivered t) = passed_on env s (consumed t)"
proof -
  have "threads_ok env s t" by (rule reached_ok [OF assms(3) opened_threads_ok [OF assms(1,2)]])
  moreover have "length (writers t) = length (queues c)" by (simp add: reached_lanes [OF assms(3)] threads_boot_def)
  ultimately show ?thesis using assms(4) by (simp add: threads_ok_def lane_ok_def)
qed

text \<open>C14. No wake-up is lost. A thread that sleeps has nothing to do: while \<^verbatim>\<open>poll\<close> is asleep every queue is empty, while a
  writer is asleep its queue is full; so the two are never asleep together, and the multi-HAL does not deadlock.\<close>

theorem no_lost_wakeup:
  assumes "open_sensors env nm s0 = Inr (c, s1)" and "SENSOR_EVENT_QUEUE_CAPACITY \<le> int (length (x_junk env))"
    and "mh_reached env s (threads_boot c) t" and "j < length (queues c)"
  shows "(reader t = R_wait mr d \<and> 0 < mr \<longrightarrow> contents (queue_of t j) = [] \<and> writers t ! j \<noteq> W_wait) \<and>
    (writers t ! j = W_wait \<longrightarrow> is_full (queue_of t j))"
proof -
  have ok: "threads_ok env s t" by (rule reached_ok [OF assms(3) opened_threads_ok [OF assms(1,2)]])
  have j: "j < length (writers t)" using assms(4) by (simp add: reached_lanes [OF assms(3)] threads_boot_def)
  then have l: "lane_ok t j" using ok by (simp add: threads_ok_def)
  then have f: "is_full (queue_of t j)" if "writers t ! j = W_wait" using that by (simp add: lane_ok_def)
  have "\<not> is_full (queue_of t j)" if "contents (queue_of t j) = []"
    using that l contents_nil [of "queue_of t j"] by (auto simp: lane_ok_def is_full_def SENSOR_EVENT_QUEUE_CAPACITY_def)
  then show ?thesis using ok j f by (auto simp: threads_ok_def reader_ok_def)
qed

text \<open>C28. \<^verbatim>\<open>poll\<close>'s scan always ends, and without a fault. From any reachable state, with an array of at least \<open>mr\<close> events,
  it either returns between 1 and \<open>mr\<close> events or goes to sleep, which for a positive \<open>mr\<close> it does only with every queue
  empty.\<close>

theorem poll_scan_returns:
  assumes "open_sensors env nm s0 = Inr (c, s1)" and "SENSOR_EVENT_QUEUE_CAPACITY \<le> int (length (x_junk env))"
    and "mh_reached env s (threads_boot c) t" and "mr \<le> int (length d)"
  shows "\<exists>t'. poll_section env s mr d t = Some (Inr t') \<and>
    ((reader t' = R_out \<and> (\<exists>b. delivered t' = delivered t @ [b] \<and> 1 \<le> length b \<and> int (length b) \<le> mr)) \<or>
     (\<exists>d'. reader t' = R_wait mr d' \<and> (0 < mr \<longrightarrow> (\<forall>q\<in>set (queues (dev_ctx t')). contents q = []))))"
  by (rule section_result [OF reached_ok [OF assms(3) opened_threads_ok [OF assms(1,2)]] assms(4)])

text \<open>A call with no room for an event sleeps whatever the queues hold, and again whenever it is woken.\<close>

lemma poll_no_room_sleeps:
  assumes "mr \<le> 0"
  shows "\<exists>t'. poll_section env s mr d t = Some (Inr t') \<and> reader t' = R_wait mr d \<and> queues (dev_ctx t') = queues (dev_ctx t)"
  using assms by (simp add: poll_section_def poll_scan.simps)

text \<open>A meta-data event of an unknown sensor is passed on, with \<open>-1\<close> as the sensor it is about.\<close>

lemma unknown_meta_passed_on:
  assumes "ev_type e = SENSOR_TYPE_META_DATA env" and "ev_sensor e = 0" and "full_to_global s (FullHandle i (ev_meta e)) = None"
  shows "passed_on env s [(i, e)] = [e\<lparr>ev_meta := -1\<rparr>]"
  using assms by (simp add: passed_on_def copy_event_remap_handle_def get_global_handle_def)

section \<open>A run\<close>

text \<open>The first sub-HAL of the example hands over one meta-data event.\<close>

definition demo_event :: sensors_event_t where
  "demo_event = \<lparr>ev_type = 0, ev_sensor = 0, ev_meta = 5, ev_data = 7\<rparr>"

definition demo_env :: sub_env where
  "demo_env = (demo_sub True)\<lparr>x_junk := replicate 36 (demo_event\<lparr>ev_data := 0\<rparr>)\<rparr>"

definition demo_queue :: "sensors_event_t SensorEventQueue" where
  "demo_queue = \<lparr>mCapacity = 36, mStart = 0, mSize = 0, mData = replicate 36 (demo_event\<lparr>ev_data := 0\<rparr>)\<rparr>"

lemma multihal_open: "\<exists>c s. open_sensors demo_env ''x'' hal_boot = Inr (c, s) \<and> queues c = [demo_queue, demo_queue, demo_queue] \<and> nextReadIndex c = 0"
proof -
  have "lazy_init_modules demo_env hal_boot = Inr (hal_boot\<lparr>sub_hw_modules := Some [10, 11, 12], calls := [S_sleep 10000]\<rparr>)"
    by (simp add: lazy_init_modules_def hal_boot_def get_so_paths_def demo_env_def demo_sub_def load_module_def)
  then show ?thesis
    by (simp add: open_sensors_def open_one_def hal_boot_def demo_env_def demo_sub_def addSubHwDevice_def demo_queue_def
        SensorEventQueue_new_def SENSOR_EVENT_QUEUE_CAPACITY_def)
qed

lemma demo_handover:
  assumes "queues c = [demo_queue, demo_queue, demo_queue]"
  shows "\<exists>t. mh_reached env s (threads_boot c) t \<and> reader t = R_out \<and> writers t = [W_top, W_top, W_top] \<and> consumed t = [] \<and>
    delivered t = [] \<and> polled t = [[demo_event], [], []] \<and> nextReadIndex (dev_ctx t) = nextReadIndex c \<and> length (queues (dev_ctx t)) = 3"
proof -
  let ?t0 = "threads_boot c"
  have w: "writers ?t0 = [W_top, W_top, W_top]" by (simp add: threads_boot_def assms numeral_3_eq_3)
  have g: "getWritableRegion SENSOR_EVENT_QUEUE_CAPACITY demo_queue = (Some 0, 36)" "\<not> is_full demo_queue"
    by (simp_all add: getWritableRegion_def demo_queue_def SENSOR_EVENT_QUEUE_CAPACITY_def is_full_def)
  have "mh_step env s ?t0 (writer_enter 0 ?t0)" by (rule mh_step.enter) (simp_all add: w)
  moreover have e: "writer_enter 0 ?t0 = set_writer 0 (W_poll 0 36) ?t0"
    using g by (simp add: writer_enter_def queue_of_def threads_boot_def assms)
  ultimately have r1: "mh_reached env s ?t0 (set_writer 0 (W_poll 0 36) ?t0)" (is "mh_reached env s ?t0 ?t1")
    by (metis mh_reached.intros)
  have w1: "writers ?t1 = [W_poll 0 36, W_top, W_top]" using w by (simp add: set_writer_def)
  have "mh_step env s ?t1 (set_queue 0 (store (0 + 0) demo_event (queue_of ?t1 0)) ?t1)" (is "mh_step env s ?t1 ?t2")
    by (rule mh_step.device_stores [of _ _ _ 36]) (simp_all add: w1)
  with r1 have r2: "mh_reached env s ?t0 ?t2" by (rule mh_reached.more)
  have w2: "writers ?t2 = [W_poll 0 36, W_top, W_top]" using w1 by (simp add: set_queue_def)
  have "mh_step env s ?t2 (writer_polled 0 0 36 1 ?t2)" (is "mh_step env s ?t2 ?t3")
    by (rule mh_step.device_returns) (simp_all only: w2, simp_all)
  with r2 have r3: "mh_reached env s ?t0 ?t3" by (rule mh_reached.more)
  have w3: "writers ?t3 = [W_mark 0 36 1, W_top, W_top]" using w2 by (simp add: writer_polled_def set_writer_def)
  have "mh_step env s ?t3 (writer_mark 0 1 ?t3)" by (rule mh_step.mark) (simp_all only: w3, simp_all)
  with r3 have r4: "mh_reached env s ?t0 (writer_mark 0 1 ?t3)" by (rule mh_reached.more)
  have "cells (queue_of ?t2 0) 0 36 = demo_event # replicate 35 (demo_event\<lparr>ev_data := 0\<rparr>)"
    by (simp add: queue_of_def threads_boot_def set_queue_def set_writer_def assms cells_def store_def demo_queue_def
        numeral_eq_Suc)
  then have "polled (writer_mark 0 1 ?t3) = [[demo_event], [], []]"
    by (simp add: mark_frame writer_polled_def set_writer_def set_queue_def threads_boot_def assms numeral_3_eq_3)
  moreover have "writers (writer_mark 0 1 ?t3) = [W_top, W_top, W_top]"
    using w3 by (simp add: writer_mark_def Let_def set_writer_def set_queue_def wake_reader_def)
  moreover have "reader (writer_mark 0 1 ?t3) = R_out" "consumed (writer_mark 0 1 ?t3) = []" "delivered (writer_mark 0 1 ?t3) = []"
    by (simp_all add: writer_mark_def Let_def set_writer_def set_queue_def wake_reader_def writer_polled_def threads_boot_def)
  moreover have "nextReadIndex (dev_ctx (writer_mark 0 1 ?t3)) = nextReadIndex c" "length (queues (dev_ctx (writer_mark 0 1 ?t3))) = 3"
    by (simp_all add: mark_frame) (simp_all add: set_writer_def set_queue_def writer_polled_def threads_boot_def assms)
  ultimately show ?thesis using r4 by blast
qed

lemma demo_room: "SENSOR_EVENT_QUEUE_CAPACITY \<le> int (length (x_junk demo_env))"
  by (simp add: SENSOR_EVENT_QUEUE_CAPACITY_def demo_env_def)

theorem events_delivered_once_witness:
  "\<exists>c s t. open_sensors demo_env ''x'' hal_boot = Inr (c, s) \<and> mh_reached demo_env s (threads_boot c) t \<and>
     polled t ! 0 = [demo_event] \<and> consumed t = [] \<and> contents (queue_of t 0) = [demo_event]"
proof -
  obtain c s where o: "open_sensors demo_env ''x'' hal_boot = Inr (c, s)" "queues c = [demo_queue, demo_queue, demo_queue]"
    using multihal_open by blast
  from demo_handover [OF o(2)] obtain t where t: "mh_reached demo_env s (threads_boot c) t" "writers t = [W_top, W_top, W_top]"
    "consumed t = []" "polled t = [[demo_event], [], []]" by blast
  have "polled t ! 0 = contents (queue_of t 0)"
    using events_delivered_once [OF o(1) demo_room t(1), of 0] by (simp add: o(2) t(2,3) of_queue_def)
  then show ?thesis using o(1) t by (metis nth_Cons_0)
qed

text \<open>One event in the first queue visited is returned at once.\<close>

lemma poll_one:
  assumes "nextReadIndex (dev_ctx t) = 0" and "queues (dev_ctx t) \<noteq> []" and "peek (queue_of t 0) = Some e"
    and "ev_sensor (copy_event_remap_handle env s e 0) \<noteq> -1" and "poll_section env s 1 [x] t = Some (Inr t')"
  shows "reader t' = R_out \<and> delivered t' = delivered t @ [[copy_event_remap_handle env s e 0]]"
proof -
  let ?c = "\<lparr>sc_ctx = dev_ctx t, sc_data = [x], eventsRead = 0, empties = 0, taken = [], woken = []\<rparr>"
  obtain c where c: "scan_body env s ?c = Inr c" "eventsRead c = 1" "sc_data c = [copy_event_remap_handle env s e 0]"
    using assms(1-4) by (auto simp: scan_body_def Let_def queue_of_def case_prod_beta)
  have "poll_scan env s 1 c = Some (Inr c)" using c(2) by (subst poll_scan.simps) simp
  then have "poll_scan env s 1 ?c = Some (Inr c)" using c(1) assms(2) by (subst poll_scan.simps) simp
  then show ?thesis using assms(5) c(2,3) by (auto simp: poll_section_def)
qed

theorem poll_scan_returns_witness:
  "\<exists>c s t t'. open_sensors demo_env ''x'' hal_boot = Inr (c, s) \<and> mh_reached demo_env s (threads_boot c) t \<and>
     poll_section demo_env s 1 [demo_event] t = Some (Inr t') \<and> reader t' = R_out \<and> (\<exists>b. delivered t' = [b] \<and> length b = 1)"
proof -
  obtain c s where o: "open_sensors demo_env ''x'' hal_boot = Inr (c, s)" "queues c = [demo_queue, demo_queue, demo_queue]" "nextReadIndex c = 0"
    using multihal_open by blast
  from demo_handover [OF o(2)] obtain t where t: "mh_reached demo_env s (threads_boot c) t" "writers t = [W_top, W_top, W_top]"
    "consumed t = []" "polled t = [[demo_event], [], []]" "delivered t = []" "nextReadIndex (dev_ctx t) = 0" "length (queues (dev_ctx t)) = 3"
    unfolding o(3) by blast
  have ne: "queues (dev_ctx t) \<noteq> []" using t(7) by auto
  have ok: "threads_ok demo_env s t" by (rule reached_ok [OF t(1) opened_threads_ok [OF o(1) demo_room]])
  then have q: "queue_ok (queue_of t 0)" "contents (queue_of t 0) = [demo_event]"
    using t by (auto simp: threads_ok_def lane_ok_def of_queue_def dest!: spec [of _ 0])
  then have pk: "peek (queue_of t 0) = Some demo_event" using ring.first [OF q(1)] by simp
  have m: "ev_sensor (copy_event_remap_handle demo_env s demo_event 0) \<noteq> -1"
    by (simp add: copy_event_remap_handle_def demo_event_def demo_env_def demo_sub_def)
  have "\<exists>t'. poll_section demo_env s 1 [demo_event] t = Some (Inr t') \<and> reader t' = R_out \<and> (\<exists>b. delivered t' = [b] \<and> length b = 1)"
    using poll_scan_returns [OF o(1) demo_room t(1), of 1 "[demo_event]"] poll_one [OF t(6) ne pk m] t(5) by auto
  then show ?thesis using o(1) t(1) by blast
qed

theorem no_lost_wakeup_witness:
  "\<exists>c s t d. open_sensors demo_env ''x'' hal_boot = Inr (c, s) \<and> mh_reached demo_env s (threads_boot c) t \<and>
     reader t = R_wait 1 d \<and> contents (queue_of t 0) = []"
proof -
  obtain c s where o: "open_sensors demo_env ''x'' hal_boot = Inr (c, s)" "queues c = [demo_queue, demo_queue, demo_queue]" "nextReadIndex c = 0"
    using multihal_open by blast
  let ?t = "threads_boot c"
  have r: "mh_reached demo_env s ?t ?t" by (rule mh_reached.start)
  have ok: "threads_ok demo_env s ?t" by (rule opened_threads_ok [OF o(1) demo_room])
  obtain t' where t': "poll_section demo_env s 1 [demo_event] ?t = Some (Inr t')" "threads_ok demo_env s t'"
      "reader t' = R_out \<or> (\<exists>d. reader t' = R_wait 1 d)"
    using section_ok [OF ok, of 1 "[demo_event]"] by auto
  have e: "peek demo_queue = None" by (simp add: demo_queue_def peek_def)
  have "\<exists>d. reader t' = R_wait 1 d"
    using t'(1) e by (auto simp: poll_section_def poll_scan.simps scan_body_def Let_def threads_boot_def o(2,3))
  then obtain d where d: "reader t' = R_wait 1 d" by blast
  have "mh_step demo_env s ?t t'" by (rule mh_step.poll_called [OF _ _ t'(1)]) (simp_all add: threads_boot_def)
  with r have r': "mh_reached demo_env s ?t t'" by (rule mh_reached.more)
  have "contents (queue_of t' 0) = []"
    using no_lost_wakeup [OF o(1) demo_room r', of 0 1 d] d by (simp add: o(2))
  then show ?thesis using o(1) r' d by blast
qed

end
