(* ===== verification/Wifi_Msg.thy ===== *)
theory Wifi_Msg
  imports XD_Prelude
begin

text \<open>
  Requests to the Wi-Fi driver, \<^verbatim>\<open>src/wifi/cpp_bindings.h\<close> and \<^verbatim>\<open>cpp_bindings.cpp\<close>: \<^verbatim>\<open>WifiRequest\<close> and the attributes that
  are put into it. \<^verbatim>\<open>libnl\<close> is not part of the tree, and \<open>x_attrs\<close> is its walk over the attributes in some bytes. A message is the sequence of calls made on it that succeeded, and
  the answers (whether an attribute fits) are fields of \<open>wifi_env\<close>, which see what the message holds already. The
  constants of \<^verbatim>\<open>nl80211_copy.h\<close> and \<^verbatim>\<open>wifi_hal.h\<close> are fields too.

  The methods that assemble a request put attribute after attribute and return at the first error. Such a method is a
  \<open>prog list\<close>, in the order of its calls, and \<open>run_prog\<close> executes it with the early returns; \<open>decode\<close> reads the attributes of a
  message as a tree, which is what the nesting calls are documented to produce.
\<close>

section \<open>Messages\<close>

type_synonym u16 = "16 word"

datatype nl_val = V8 u8 | V16 u16 | V32 u32 | Vbytes "u8 list"

datatype nl_op = N_put int nl_val | N_start int | N_end

record nl_msg =
  m_family :: int
  m_cmd :: int
  m_flags :: int
  m_hdrlen :: int
  m_ops :: "nl_op list"

text \<open>Why a call does not return: a crash, or a wait that does not end.\<close>

datatype stop = Null_pointer | Array_overrun | Use_after_free | Hang

text \<open>A reply or an event, as \<^verbatim>\<open>WifiEvent\<close> gives access to it: the result of parsing it, its command, its 32-bit attributes (0 for one
  that is missing), and the bytes of its vendor data.\<close>

record nl_event =
  e_parse :: int
  e_cmd :: int
  e_u32 :: "int \<Rightarrow> u32"
  e_data :: "u8 list option"

datatype nl_cbk = K_ack | K_finish | K_error int | K_valid nl_event

text \<open>What the framework is told. \<open>hal_result\<close> is \<^verbatim>\<open>wifi_scan_result\<close>, the fields that are written.\<close>

record hal_result =
  s_ts :: u64
  s_ssid :: "u8 list"
  s_bssid :: "u8 list"
  s_channel :: u32
  s_rssi :: int
  s_rtt :: u64
  s_rtt_sd :: u64
  s_beacon_period :: u16
  s_capability :: u16
  s_ie_length :: nat
  s_ie_data :: "u8 list"

record change_result =
  g_bssid :: "u8 list"
  g_channel :: u16
  g_rssi :: "int list"

record rtt_slot =
  t_bytes :: "u8 list"
  t_LCI :: "nat option"
  t_LCR :: "nat option"

datatype upcall =
  U_rssi "u8 list" int
| U_scan_event u32
| U_full_result hal_result u32
| U_hotlist_found nat "u8 list"
| U_hotlist_lost nat "u8 list"
| U_network_found nat "hal_result list"
| U_change nat "change_result list"
| U_passpoint u32 hal_result nat "u8 list"
| U_rtt nat "rtt_slot list"

datatype wifi_call =
  W_sent nl_msg
| W_upcall int upcall
| W_signal nat

record wifi_env =
  x_msg_alloc :: "wifi_call list \<Rightarrow> bool"
  x_put :: "nl_op list \<Rightarrow> int \<Rightarrow> nl_val \<Rightarrow> int"
  x_start :: "nl_op list \<Rightarrow> int \<Rightarrow> bool"
  x_cb_alloc :: "wifi_call list \<Rightarrow> bool"
  x_send :: "wifi_call list \<Rightarrow> nl_msg \<Rightarrow> int"
  x_recv :: "wifi_call list \<Rightarrow> nl_msg \<Rightarrow> nl_cbk list list"
  x_attrs :: "u8 list \<Rightarrow> (int \<times> u8 list) list"
  x_malloc :: "wifi_call list \<Rightarrow> nat \<Rightarrow> bool"
  x_on :: "int \<Rightarrow> bool"
  sizeof_scan_result :: nat
  sizeof_rtt_result :: nat
  sizeof_capabilities :: nat
  sizeof_rtt_capabilities :: nat
  sizeof_responder :: nat
  MAX_AP_CACHE_PER_SCAN :: nat
  MAX_PROBE_RESP_IE_LEN :: nat
  WIFI_SUCCESS :: int
  WIFI_ERROR_OUT_OF_MEMORY :: int
  WIFI_ERROR_INVALID_ARGS :: int
  WIFI_ERROR_UNKNOWN :: int
  NL_OK :: int
  NL_SKIP :: int
  NL_STOP :: int
  NL80211_CMD_VENDOR :: int
  NL80211_ATTR_VENDOR_ID :: int
  NL80211_ATTR_VENDOR_SUBCMD :: int
  NL80211_ATTR_VENDOR_DATA :: int
  NL80211_ATTR_IFINDEX :: int
  WIFI_BAND_UNSPECIFIED :: int
  WIFI_BAND_ABG :: int
  WIFI_BAND_ABG_WITH_DFS :: int
  MAX_EPNO_NETWORKS :: int
  N_AVAIL_ID :: int
  MKEEP_ALIVE_IP_PKT_MAX :: int

text \<open>The codes as \<^verbatim>\<open>wifi_hal.h\<close> documents them: success is zero and errors are negative.\<close>

definition codes_ok :: "wifi_env \<Rightarrow> bool" where
  "codes_ok env \<longleftrightarrow> WIFI_SUCCESS env = 0 \<and> WIFI_ERROR_OUT_OF_MEMORY env < 0 \<and> WIFI_ERROR_INVALID_ARGS env < 0 \<and> WIFI_ERROR_UNKNOWN env < 0"

section \<open>Requests\<close>

record WifiRequest =
  mFamily :: int
  mIface :: int
  mMsg :: "nl_msg option"

definition WifiRequest_new :: "int \<Rightarrow> int \<Rightarrow> WifiRequest" where
  "WifiRequest_new family iface = \<lparr>mFamily = family, mIface = iface, mMsg = None\<rparr>"

definition destroy :: "WifiRequest \<Rightarrow> WifiRequest" where
  "destroy q = q\<lparr>mMsg := None\<rparr>"

definition create_msg :: "wifi_env \<Rightarrow> wifi_call list \<Rightarrow> int \<Rightarrow> int \<Rightarrow> int \<Rightarrow> int \<Rightarrow> WifiRequest \<Rightarrow> int \<times> WifiRequest" where
  "create_msg env h family cmd fl hdrlen q =
     (let q = destroy q in
      if x_msg_alloc env h then
        (WIFI_SUCCESS env, q\<lparr>mMsg := Some \<lparr>m_family = family, m_cmd = cmd, m_flags = fl, m_hdrlen = hdrlen, m_ops = []\<rparr>\<rparr>)
      else (WIFI_ERROR_OUT_OF_MEMORY env, q))"

text \<open>\<^verbatim>\<open>nla_put\<close> on a request without a message goes through a null pointer.\<close>

definition put :: "wifi_env \<Rightarrow> int \<Rightarrow> nl_val \<Rightarrow> WifiRequest \<Rightarrow> stop + (int \<times> WifiRequest)" where
  "put env a v q =
     (case mMsg q of
        None \<Rightarrow> Inl Null_pointer
      | Some m \<Rightarrow>
          let r = x_put env (m_ops m) a v in
          Inr (r, if r < 0 then q else q\<lparr>mMsg := Some (m\<lparr>m_ops := m_ops m @ [N_put a v]\<rparr>)\<rparr>))"

definition create_vendor :: "wifi_env \<Rightarrow> wifi_call list \<Rightarrow> u32 \<Rightarrow> int \<Rightarrow> WifiRequest \<Rightarrow> stop + (int \<times> WifiRequest)" where
  "create_vendor env h vid subcmd q =
     (let (res, q) = create_msg env h (mFamily q) (NL80211_CMD_VENDOR env) 0 0 q in
      if res < 0 then Inr (res, q)
      else
        case put env (NL80211_ATTR_VENDOR_ID env) (V32 vid) q of
          Inl e \<Rightarrow> Inl e
        | Inr (res, q) \<Rightarrow>
            if res < 0 then Inr (res, q)
            else
              case put env (NL80211_ATTR_VENDOR_SUBCMD env) (V32 (word_of_int subcmd)) q of
                Inl e \<Rightarrow> Inl e
              | Inr (res, q) \<Rightarrow>
                  if res < 0 then Inr (res, q)
                  else if mIface q \<noteq> -1 then put env (NL80211_ATTR_IFINDEX env) (V32 (word_of_int (mIface q))) q
                  else Inr (res, q))"

section \<open>Assembling attributes\<close>

text \<open>\<open>P_put\<close>: put, and return on an error. \<open>P_put_any\<close>: put, whatever comes of it. \<open>P_nest c a ps\<close>: \<^verbatim>\<open>attr_start\<close>, with a test for
  null if \<open>c\<close>, the calls \<open>ps\<close>, and \<^verbatim>\<open>attr_end\<close>, which goes through the pointer. \<open>P_overrun\<close>: a read past an array.\<close>

datatype prog = P_put int nl_val | P_put_any int nl_val | P_nest bool int "prog list" | P_overrun

datatype flow = Go int "nl_op list" | Ret int "nl_op list" | Stop stop

fun run_prog :: "wifi_env \<Rightarrow> prog list \<Rightarrow> int \<Rightarrow> nl_op list \<Rightarrow> flow" where
  "run_prog env [] r ops = Go r ops"
| "run_prog env (P_put a v # ps) r ops =
     (let r = x_put env ops a v in if r < 0 then Ret r ops else run_prog env ps r (ops @ [N_put a v]))"
| "run_prog env (P_put_any a v # ps) r ops =
     run_prog env ps r (if x_put env ops a v < 0 then ops else ops @ [N_put a v])"
| "run_prog env (P_nest c a bs # ps) r ops =
     (let ok = x_start env ops a in
      if c \<and> \<not> ok then Ret (WIFI_ERROR_OUT_OF_MEMORY env) ops
      else
        case run_prog env bs r (if ok then ops @ [N_start a] else ops) of
          Go r ops \<Rightarrow> if ok then run_prog env ps r (ops @ [N_end]) else Stop Null_pointer
        | Ret r ops \<Rightarrow> Ret r ops
        | Stop e \<Rightarrow> Stop e)"
| "run_prog env (P_overrun # ps) r ops = Stop Array_overrun"

text \<open>A method of that kind: the vendor command, the attributes, and \<open>fin\<close> of the last result as the method's own.\<close>

definition build :: "wifi_env \<Rightarrow> wifi_call list \<Rightarrow> u32 \<Rightarrow> int \<Rightarrow> (int \<Rightarrow> int) \<Rightarrow> prog list \<Rightarrow> WifiRequest \<Rightarrow> stop + (int \<times> WifiRequest)" where
  "build env h vid subcmd fin ps q =
     (case create_vendor env h vid subcmd q of
        Inl e \<Rightarrow> Inl e
      | Inr (r, q) \<Rightarrow>
          if r < 0 then Inr (r, q)
          else
            case mMsg q of
              None \<Rightarrow> Inl Null_pointer
            | Some m \<Rightarrow>
                (case run_prog env ps r (m_ops m) of
                   Go r ops \<Rightarrow> Inr (fin r, q\<lparr>mMsg := Some (m\<lparr>m_ops := ops\<rparr>)\<rparr>)
                 | Ret r ops \<Rightarrow> Inr (r, q\<lparr>mMsg := Some (m\<lparr>m_ops := ops\<rparr>)\<rparr>)
                 | Stop e \<Rightarrow> Inl e))"

section \<open>What a message says\<close>

datatype tree = T_leaf int nl_val | T_node int "tree list"

fun decode :: "nl_op list \<Rightarrow> (int \<times> tree list) list \<Rightarrow> tree list \<Rightarrow> tree list option" where
  "decode [] stk acc = (if stk = [] then Some (rev acc) else None)"
| "decode (N_put a v # r) stk acc = decode r stk (T_leaf a v # acc)"
| "decode (N_start a # r) stk acc = decode r ((a, acc) # stk) []"
| "decode (N_end # r) [] acc = None"
| "decode (N_end # r) ((a, acc0) # stk) acc = decode r stk (T_node a (rev acc) # acc0)"

fun calls_of :: "prog list \<Rightarrow> nl_op list" where
  "calls_of [] = []"
| "calls_of (P_put a v # ps) = N_put a v # calls_of ps"
| "calls_of (P_put_any a v # ps) = N_put a v # calls_of ps"
| "calls_of (P_nest c a bs # ps) = N_start a # calls_of bs @ N_end # calls_of ps"
| "calls_of (P_overrun # ps) = calls_of ps"

fun trees_of :: "prog list \<Rightarrow> tree list" where
  "trees_of [] = []"
| "trees_of (P_put a v # ps) = T_leaf a v # trees_of ps"
| "trees_of (P_put_any a v # ps) = T_leaf a v # trees_of ps"
| "trees_of (P_nest c a bs # ps) = T_node a (trees_of bs) # trees_of ps"
| "trees_of (P_overrun # ps) = trees_of ps"

fun all_checked :: "prog list \<Rightarrow> bool" where
  "all_checked [] = True"
| "all_checked (P_put_any a v # ps) = False"
| "all_checked (P_nest c a bs # ps) = (all_checked bs \<and> all_checked ps)"
| "all_checked (p # ps) = all_checked ps"

lemma decode_calls: "decode (calls_of ps @ r) stk acc = decode r stk (rev (trees_of ps) @ acc)"
  by (induction ps arbitrary: r stk acc rule: calls_of.induct) simp_all

lemma calls_append [simp]: "calls_of (ps @ qs) = calls_of ps @ calls_of qs"
  by (induction ps rule: calls_of.induct) simp_all

lemma trees_append [simp]: "trees_of (ps @ qs) = trees_of ps @ trees_of qs"
  by (induction ps rule: trees_of.induct) simp_all

lemma checked_append [simp]: "all_checked (ps @ qs) \<longleftrightarrow> all_checked ps \<and> all_checked qs"
  by (induction ps rule: all_checked.induct) auto

lemma run_go: "run_prog env ps r ops = Go r' ops' \<Longrightarrow> all_checked ps \<Longrightarrow> ops' = ops @ calls_of ps"
proof (induction env ps r ops arbitrary: r' ops' rule: run_prog.induct)
  case (4 env c a bs ps r ops)
  from "4.prems"(1) obtain r1 ops1 where b: "run_prog env bs r (ops @ [N_start a]) = Go r1 ops1" "x_start env ops a"
    and t: "run_prog env ps r1 (ops1 @ [N_end]) = Go r' ops'"
    by (auto simp: Let_def split: if_splits flow.splits)
  have "ops1 = (ops @ [N_start a]) @ calls_of bs" using "4.IH"(1) b "4.prems"(2) by auto
  moreover have "ops' = (ops1 @ [N_end]) @ calls_of ps" using "4.IH"(2) [OF refl _ _ _ t] b "4.prems"(2) by auto
  ultimately show ?case by simp
qed (auto simp: Let_def split: if_splits)

text \<open>A request that was assembled without an error decodes to the attributes of its program, after the vendor header.\<close>

definition vendor_header :: "wifi_env \<Rightarrow> u32 \<Rightarrow> int \<Rightarrow> int \<Rightarrow> tree list" where
  "vendor_header env vid subcmd iface =
     [T_leaf (NL80211_ATTR_VENDOR_ID env) (V32 vid), T_leaf (NL80211_ATTR_VENDOR_SUBCMD env) (V32 (word_of_int subcmd))] @
     (if iface = -1 then [] else [T_leaf (NL80211_ATTR_IFINDEX env) (V32 (word_of_int iface))])"

definition says :: "WifiRequest \<Rightarrow> tree list \<Rightarrow> bool" where
  "says q ts \<longleftrightarrow> (\<exists>m. mMsg q = Some m \<and> decode (m_ops m) [] [] = Some ts)"

lemma put_some:
  "mMsg q = Some m \<Longrightarrow> put env a v q = Inr (r, q') \<Longrightarrow> 0 \<le> r \<Longrightarrow>
     mMsg q' = Some (m\<lparr>m_ops := m_ops m @ [N_put a v]\<rparr>) \<and> mIface q' = mIface q \<and> mFamily q' = mFamily q"
  by (auto simp: put_def Let_def split: if_splits)

lemma create_vendor_ops:
  assumes "create_vendor env h vid subcmd q = Inr (r, q')" and "0 \<le> r" and "codes_ok env"
  shows "\<exists>m. mMsg q' = Some m \<and> mIface q' = mIface q \<and>
    (\<forall>r stk acc. decode (m_ops m @ r) stk acc = decode r stk (rev (vendor_header env vid subcmd (mIface q)) @ acc))"
proof -
  obtain m q1 where c: "create_msg env h (mFamily q) (NL80211_CMD_VENDOR env) 0 0 q = (WIFI_SUCCESS env, q1)"
      "mMsg q1 = Some m" "m_ops m = []" "mIface q1 = mIface q"
    using assms by (auto simp: create_vendor_def create_msg_def codes_ok_def destroy_def Let_def split: if_splits)
  obtain r2 q2 where p2: "put env (NL80211_ATTR_VENDOR_ID env) (V32 vid) q1 = Inr (r2, q2)" using c(2) by (auto simp: put_def Let_def)
  have r2: "0 \<le> r2" using assms c p2 by (auto simp: create_vendor_def codes_ok_def split: if_splits)
  note q2 = put_some [OF c(2) p2 r2]
  obtain r3 q3 where p3: "put env (NL80211_ATTR_VENDOR_SUBCMD env) (V32 (word_of_int subcmd)) q2 = Inr (r3, q3)"
    using q2 by (auto simp: put_def Let_def)
  have r3: "0 \<le> r3" using assms c p2 p3 r2 by (auto simp: create_vendor_def codes_ok_def split: if_splits)
  note q3 = put_some [OF conjunct1 [OF q2] p3 r3]
  show ?thesis
  proof (cases "mIface q = -1")
    case True
    then have "q' = q3" using assms c p2 p3 r2 r3 q3 q2 by (simp add: create_vendor_def codes_ok_def)
    then show ?thesis using True q3 q2 c(3,4) by (simp add: vendor_header_def)
  next
    case False
    then have p4: "put env (NL80211_ATTR_IFINDEX env) (V32 (word_of_int (mIface q))) q3 = Inr (r, q')"
      using assms c p2 p3 r2 r3 q3 q2 by (simp add: create_vendor_def codes_ok_def)
    note q4 = put_some [OF conjunct1 [OF q3] p4 assms(2)]
    then show ?thesis using False q3 q2 c(3,4) by (simp add: vendor_header_def)
  qed
qed

lemma run_ret: "run_prog env ps r ops = Ret r' ops' \<Longrightarrow> codes_ok env \<Longrightarrow> r' < 0"
proof (induction env ps r ops arbitrary: r' ops' rule: run_prog.induct)
  case (4 env c a bs ps r ops)
  show ?case
  proof (cases "x_start env ops a")
    case True
    then show ?thesis using 4 by (cases "run_prog env bs r (ops @ [N_start a])") auto
  next
    case False
    then show ?thesis using 4 by (cases "run_prog env bs r ops") (auto simp: codes_ok_def split: if_splits)
  qed
next
  case (2 env a v ps r ops)
  show ?case
  proof (cases "x_put env ops a v < 0")
    case True
    then show ?thesis using "2.prems"(1) by (auto simp: Let_def)
  next
    case False
    then show ?thesis using "2.IH" [OF refl False] "2.prems" by (simp add: Let_def)
  qed
next
  case (3 env a v ps r ops)
  show ?case by (rule "3.IH" [OF _ "3.prems"(2)]) (use "3.prems"(1) in \<open>simp only: run_prog.simps\<close>)
qed simp_all

lemma build_says:
  assumes "build env h vid subcmd fin ps q = Inr (r, q')" and "codes_ok env" and "all_checked ps" and "0 \<le> r"
  shows "says q' (vendor_header env vid subcmd (mIface q) @ trees_of ps) \<and> mIface q' = mIface q"
proof -
  obtain r1 q1 where c: "create_vendor env h vid subcmd q = Inr (r1, q1)" "0 \<le> r1"
    using assms(1,4) by (auto simp: build_def split: sum.splits if_splits)
  obtain m where m: "mMsg q1 = Some m" "mIface q1 = mIface q"
    and d: "\<And>r stk acc. decode (m_ops m @ r) stk acc = decode r stk (rev (vendor_header env vid subcmd (mIface q)) @ acc)"
    using create_vendor_ops [OF c assms(2)] by blast
  have e: "(case run_prog env ps r1 (m_ops m) of Go r ops \<Rightarrow> Inr (fin r, q1\<lparr>mMsg := Some (m\<lparr>m_ops := ops\<rparr>)\<rparr>)
      | Ret r ops \<Rightarrow> Inr (r, q1\<lparr>mMsg := Some (m\<lparr>m_ops := ops\<rparr>)\<rparr>) | Stop e \<Rightarrow> Inl e) = Inr (r, q')"
    using assms(1) c m(1) by (simp add: build_def)
  obtain r2 ops where g: "run_prog env ps r1 (m_ops m) = Go r2 ops" "q' = q1\<lparr>mMsg := Some (m\<lparr>m_ops := ops\<rparr>)\<rparr>"
  proof (cases "run_prog env ps r1 (m_ops m)")
    case (Go r2 ops)
    then show ?thesis using e that by simp
  next
    case (Ret r2 ops)
    then show ?thesis using run_ret [OF Ret assms(2)] e assms(4) by simp
  qed (use e in simp)
  have "ops = m_ops m @ calls_of ps" by (rule run_go [OF g(1) assms(3)])
  then have "decode ops [] [] = Some (vendor_header env vid subcmd (mIface q) @ trees_of ps)"
    using d decode_calls [of ps "[]"] by simp
  then show ?thesis using g(2) m(2) by (simp add: says_def)
qed

section \<open>No null attribute is ended\<close>

text \<open>The buffer of a message only fills up: where an attribute cannot be opened, none can be put. \<open>starts_put\<close>: the calls begin with one
  that then returns.\<close>

definition room_ok :: "wifi_env \<Rightarrow> bool" where
  "room_ok env \<longleftrightarrow> (\<forall>ops a b v. \<not> x_start env ops a \<longrightarrow> x_put env ops b v < 0 \<and> \<not> x_start env ops b)"

fun starts_put :: "prog list \<Rightarrow> bool" where
  "starts_put (P_put a v # ps) = True"
| "starts_put (P_nest c a bs # ps) = (c \<or> starts_put bs)"
| "starts_put ps = False"

fun guarded :: "prog list \<Rightarrow> bool" where
  "guarded [] = True"
| "guarded (P_nest c a bs # ps) = ((c \<or> starts_put bs) \<and> guarded bs \<and> guarded ps)"
| "guarded (P_overrun # ps) = False"
| "guarded (p # ps) = guarded ps"

lemma guarded_append [simp]: "guarded (ps @ qs) \<longleftrightarrow> guarded ps \<and> guarded qs"
  by (induction ps rule: guarded.induct) auto

lemma full_returns:
  "starts_put ps \<Longrightarrow> room_ok env \<Longrightarrow> \<not> x_start env ops a \<Longrightarrow> \<exists>r' ops'. run_prog env ps r ops = Ret r' ops'"
proof (induction ps rule: starts_put.induct)
  case (1 b v ps)
  then show ?case by (auto simp: room_ok_def Let_def)
next
  case (2 c b bs ps)
  then have "\<not> x_start env ops b" by (auto simp: room_ok_def)
  with 2 show ?case by (cases c) auto
qed simp_all

lemma run_no_stop: "guarded ps \<Longrightarrow> room_ok env \<Longrightarrow> run_prog env ps r ops \<noteq> Stop e"
proof (induction env ps r ops arbitrary: e rule: run_prog.induct)
  case (4 env c a bs ps r ops)
  show ?case
  proof (cases "x_start env ops a")
    case True
    then show ?thesis using 4 by (auto simp: Let_def split: flow.splits)
  next
    case False
    then show ?thesis using "4.prems" full_returns [of bs env ops a r] by (auto simp: Let_def)
  qed
qed (auto simp: Let_def)

lemma create_vendor_no_stop:
  assumes "codes_ok env"
  shows "\<exists>r q'. create_vendor env h vid subcmd q = Inr (r, q') \<and> (0 \<le> r \<longrightarrow> mMsg q' \<noteq> None)"
  using assms by (auto simp: create_vendor_def create_msg_def put_def Let_def codes_ok_def destroy_def)

lemma build_no_stop:
  assumes "codes_ok env" and "room_ok env" and "guarded ps"
  shows "\<exists>r q'. build env h vid subcmd fin ps q = Inr (r, q')"
proof -
  obtain r1 q1 where c: "create_vendor env h vid subcmd q = Inr (r1, q1)" "0 \<le> r1 \<longrightarrow> mMsg q1 \<noteq> None"
    using create_vendor_no_stop [OF assms(1)] by blast
  show ?thesis
  proof (cases "r1 < 0")
    case False
    with c obtain m where m: "mMsg q1 = Some m" by auto
    then show ?thesis using run_no_stop [OF assms(3,2)] c False
      by (cases "run_prog env ps r1 (m_ops m)") (simp_all add: build_def)
  qed (simp add: build_def c)
qed

end
