(* ===== verification/Wifi_Requests.thy ===== *)
theory Wifi_Requests
  imports Wifi_Msg
begin

text \<open>
  The requests of the Wi-Fi HAL's commands, \<^verbatim>\<open>src/wifi/gscan.cpp\<close>, \<^verbatim>\<open>rtt.cpp\<close>, \<^verbatim>\<open>wifi_hal.cpp\<close> and \<^verbatim>\<open>wifi_offload.cpp\<close>: one program per method that
  assembles a request, its calls in order. Integers that are put as 8, 16 or 32 bits are cut to them, as C does. Shown:
  what the driver reads back from a request is what was asked for.
\<close>

section \<open>Constants\<close>

named_theorems wifi_consts

definition GOOGLE_OUI :: u32 where [wifi_consts]: "GOOGLE_OUI = 0x001A11"
definition DOT11_MAX_SSID_LEN :: nat where [wifi_consts]: "DOT11_MAX_SSID_LEN = 32"
definition WIFI_SUBCMD_GET_CHANNEL_LIST :: int where [wifi_consts]: "WIFI_SUBCMD_GET_CHANNEL_LIST = 1"
definition WIFI_SUBCMD_GET_FEATURE_SET :: int where [wifi_consts]: "WIFI_SUBCMD_GET_FEATURE_SET = 2"
definition WIFI_SUBCMD_GET_FEATURE_SET_MATRIX :: int where [wifi_consts]: "WIFI_SUBCMD_GET_FEATURE_SET_MATRIX = 3"
definition WIFI_SUBCMD_SET_COUNTRY_CODE :: int where [wifi_consts]: "WIFI_SUBCMD_SET_COUNTRY_CODE = 6"
definition WIFI_SUBCMD_SET_RSSI_MONITOR :: int where [wifi_consts]: "WIFI_SUBCMD_SET_RSSI_MONITOR = 7"
definition GSCAN_SUBCMD_GET_CAPABILITIES :: int where [wifi_consts]: "GSCAN_SUBCMD_GET_CAPABILITIES = 4096"
definition GSCAN_SUBCMD_SET_CONFIG :: int where [wifi_consts]: "GSCAN_SUBCMD_SET_CONFIG = 4097"
definition GSCAN_SUBCMD_SET_SCAN_CONFIG :: int where [wifi_consts]: "GSCAN_SUBCMD_SET_SCAN_CONFIG = 4098"
definition GSCAN_SUBCMD_ENABLE_GSCAN :: int where [wifi_consts]: "GSCAN_SUBCMD_ENABLE_GSCAN = 4099"
definition GSCAN_SUBCMD_GET_SCAN_RESULTS :: int where [wifi_consts]: "GSCAN_SUBCMD_GET_SCAN_RESULTS = 4100"
definition GSCAN_SUBCMD_SET_HOTLIST :: int where [wifi_consts]: "GSCAN_SUBCMD_SET_HOTLIST = 4102"
definition GSCAN_SUBCMD_SET_SIGNIFICANT_CHANGE_CONFIG :: int where [wifi_consts]: "GSCAN_SUBCMD_SET_SIGNIFICANT_CHANGE_CONFIG = 4103"
definition GSCAN_SUBCMD_ENABLE_FULL_SCAN_RESULTS :: int where [wifi_consts]: "GSCAN_SUBCMD_ENABLE_FULL_SCAN_RESULTS = 4104"
definition GSCAN_SUBCMD_SET_EPNO_SSID :: int where [wifi_consts]: "GSCAN_SUBCMD_SET_EPNO_SSID = 4111"
definition GSCAN_SUBCMD_ANQPO_CONFIG :: int where [wifi_consts]: "GSCAN_SUBCMD_ANQPO_CONFIG = 4117"
definition WIFI_ATTRIBUTE_BAND :: int where [wifi_consts]: "WIFI_ATTRIBUTE_BAND = 1"
definition WIFI_ATTRIBUTE_NUM_CHANNELS :: int where [wifi_consts]: "WIFI_ATTRIBUTE_NUM_CHANNELS = 2"
definition WIFI_ATTRIBUTE_CHANNEL_LIST :: int where [wifi_consts]: "WIFI_ATTRIBUTE_CHANNEL_LIST = 3"
definition WIFI_ATTRIBUTE_NUM_FEATURE_SET :: int where [wifi_consts]: "WIFI_ATTRIBUTE_NUM_FEATURE_SET = 4"
definition WIFI_ATTRIBUTE_FEATURE_SET :: int where [wifi_consts]: "WIFI_ATTRIBUTE_FEATURE_SET = 5"
definition WIFI_ATTRIBUTE_COUNTRY_CODE :: int where [wifi_consts]: "WIFI_ATTRIBUTE_COUNTRY_CODE = 8"
definition WIFI_ATTRIBUTE_MAX_RSSI :: int where [wifi_consts]: "WIFI_ATTRIBUTE_MAX_RSSI = 9"
definition WIFI_ATTRIBUTE_MIN_RSSI :: int where [wifi_consts]: "WIFI_ATTRIBUTE_MIN_RSSI = 10"
definition WIFI_ATTRIBUTE_RSSI_MONITOR_START :: int where [wifi_consts]: "WIFI_ATTRIBUTE_RSSI_MONITOR_START = 11"
definition GSCAN_EVENT_SIGNIFICANT_CHANGE_RESULTS :: int where [wifi_consts]: "GSCAN_EVENT_SIGNIFICANT_CHANGE_RESULTS = 0"
definition GSCAN_EVENT_HOTLIST_RESULTS_FOUND :: int where [wifi_consts]: "GSCAN_EVENT_HOTLIST_RESULTS_FOUND = 1"
definition GSCAN_EVENT_SCAN_RESULTS_AVAILABLE :: int where [wifi_consts]: "GSCAN_EVENT_SCAN_RESULTS_AVAILABLE = 2"
definition GSCAN_EVENT_FULL_SCAN_RESULTS :: int where [wifi_consts]: "GSCAN_EVENT_FULL_SCAN_RESULTS = 3"
definition RTT_EVENT_COMPLETE :: int where [wifi_consts]: "RTT_EVENT_COMPLETE = 4"
definition GSCAN_EVENT_COMPLETE_SCAN :: int where [wifi_consts]: "GSCAN_EVENT_COMPLETE_SCAN = 5"
definition GSCAN_EVENT_HOTLIST_RESULTS_LOST :: int where [wifi_consts]: "GSCAN_EVENT_HOTLIST_RESULTS_LOST = 6"
definition WIFI_EVENT_RSSI_MONITOR :: int where [wifi_consts]: "WIFI_EVENT_RSSI_MONITOR = 7"
definition GSCAN_EVENT_EPNO_EVENT :: int where [wifi_consts]: "GSCAN_EVENT_EPNO_EVENT = 8"
definition GSCAN_EVENT_ANQPO_HOTSPOT_MATCH :: int where [wifi_consts]: "GSCAN_EVENT_ANQPO_HOTSPOT_MATCH = 9"
definition GSCAN_ATTRIBUTE_CAPABILITIES :: int where [wifi_consts]: "GSCAN_ATTRIBUTE_CAPABILITIES = 1"
definition GSCAN_ATTRIBUTE_NUM_BUCKETS :: int where [wifi_consts]: "GSCAN_ATTRIBUTE_NUM_BUCKETS = 10"
definition GSCAN_ATTRIBUTE_BASE_PERIOD :: int where [wifi_consts]: "GSCAN_ATTRIBUTE_BASE_PERIOD = 11"
definition GSCAN_ATTRIBUTE_BUCKETS_BAND :: int where [wifi_consts]: "GSCAN_ATTRIBUTE_BUCKETS_BAND = 12"
definition GSCAN_ATTRIBUTE_BUCKET_ID :: int where [wifi_consts]: "GSCAN_ATTRIBUTE_BUCKET_ID = 13"
definition GSCAN_ATTRIBUTE_BUCKET_PERIOD :: int where [wifi_consts]: "GSCAN_ATTRIBUTE_BUCKET_PERIOD = 14"
definition GSCAN_ATTRIBUTE_BUCKET_NUM_CHANNELS :: int where [wifi_consts]: "GSCAN_ATTRIBUTE_BUCKET_NUM_CHANNELS = 15"
definition GSCAN_ATTRIBUTE_BUCKET_CHANNELS :: int where [wifi_consts]: "GSCAN_ATTRIBUTE_BUCKET_CHANNELS = 16"
definition GSCAN_ATTRIBUTE_NUM_AP_PER_SCAN :: int where [wifi_consts]: "GSCAN_ATTRIBUTE_NUM_AP_PER_SCAN = 17"
definition GSCAN_ATTRIBUTE_REPORT_THRESHOLD :: int where [wifi_consts]: "GSCAN_ATTRIBUTE_REPORT_THRESHOLD = 18"
definition GSCAN_ATTRIBUTE_NUM_SCANS_TO_CACHE :: int where [wifi_consts]: "GSCAN_ATTRIBUTE_NUM_SCANS_TO_CACHE = 19"
definition GSCAN_ATTRIBUTE_ENABLE_FEATURE :: int where [wifi_consts]: "GSCAN_ATTRIBUTE_ENABLE_FEATURE = 20"
definition GSCAN_ATTRIBUTE_SCAN_RESULTS_COMPLETE :: int where [wifi_consts]: "GSCAN_ATTRIBUTE_SCAN_RESULTS_COMPLETE = 21"
definition GSCAN_ENABLE_FULL_SCAN_RESULTS :: int where [wifi_consts]: "GSCAN_ENABLE_FULL_SCAN_RESULTS = 23"
definition GSCAN_ATTRIBUTE_REPORT_EVENTS :: int where [wifi_consts]: "GSCAN_ATTRIBUTE_REPORT_EVENTS = 24"
definition GSCAN_ATTRIBUTE_BUCKET_STEP_COUNT :: int where [wifi_consts]: "GSCAN_ATTRIBUTE_BUCKET_STEP_COUNT = 25"
definition GSCAN_ATTRIBUTE_BUCKET_MAX_PERIOD :: int where [wifi_consts]: "GSCAN_ATTRIBUTE_BUCKET_MAX_PERIOD = 26"
definition GSCAN_ATTRIBUTE_NUM_OF_RESULTS :: int where [wifi_consts]: "GSCAN_ATTRIBUTE_NUM_OF_RESULTS = 30"
definition GSCAN_ATTRIBUTE_FLUSH_RESULTS :: int where [wifi_consts]: "GSCAN_ATTRIBUTE_FLUSH_RESULTS = 31"
definition GSCAN_ATTRIBUTE_SCAN_RESULTS :: int where [wifi_consts]: "GSCAN_ATTRIBUTE_SCAN_RESULTS = 32"
definition GSCAN_ATTRIBUTE_SCAN_ID :: int where [wifi_consts]: "GSCAN_ATTRIBUTE_SCAN_ID = 33"
definition GSCAN_ATTRIBUTE_SCAN_FLAGS :: int where [wifi_consts]: "GSCAN_ATTRIBUTE_SCAN_FLAGS = 34"
definition GSCAN_ATTRIBUTE_CH_BUCKET_BITMASK :: int where [wifi_consts]: "GSCAN_ATTRIBUTE_CH_BUCKET_BITMASK = 36"
definition GSCAN_ATTRIBUTE_BSSID :: int where [wifi_consts]: "GSCAN_ATTRIBUTE_BSSID = 41"
definition GSCAN_ATTRIBUTE_HOTLIST_BSSIDS :: int where [wifi_consts]: "GSCAN_ATTRIBUTE_HOTLIST_BSSIDS = 50"
definition GSCAN_ATTRIBUTE_RSSI_LOW :: int where [wifi_consts]: "GSCAN_ATTRIBUTE_RSSI_LOW = 51"
definition GSCAN_ATTRIBUTE_RSSI_HIGH :: int where [wifi_consts]: "GSCAN_ATTRIBUTE_RSSI_HIGH = 52"
definition GSCAN_ATTRIBUTE_HOTLIST_ELEM :: int where [wifi_consts]: "GSCAN_ATTRIBUTE_HOTLIST_ELEM = 53"
definition GSCAN_ATTRIBUTE_HOTLIST_FLUSH :: int where [wifi_consts]: "GSCAN_ATTRIBUTE_HOTLIST_FLUSH = 54"
definition GSCAN_ATTRIBUTE_RSSI_SAMPLE_SIZE :: int where [wifi_consts]: "GSCAN_ATTRIBUTE_RSSI_SAMPLE_SIZE = 60"
definition GSCAN_ATTRIBUTE_LOST_AP_SAMPLE_SIZE :: int where [wifi_consts]: "GSCAN_ATTRIBUTE_LOST_AP_SAMPLE_SIZE = 61"
definition GSCAN_ATTRIBUTE_MIN_BREACHING :: int where [wifi_consts]: "GSCAN_ATTRIBUTE_MIN_BREACHING = 62"
definition GSCAN_ATTRIBUTE_NUM_AP :: int where [wifi_consts]: "GSCAN_ATTRIBUTE_NUM_AP = 63"
definition GSCAN_ATTRIBUTE_SIGNIFICANT_CHANGE_BSSIDS :: int where [wifi_consts]: "GSCAN_ATTRIBUTE_SIGNIFICANT_CHANGE_BSSIDS = 64"
definition GSCAN_ATTRIBUTE_SIGNIFICANT_CHANGE_FLUSH :: int where [wifi_consts]: "GSCAN_ATTRIBUTE_SIGNIFICANT_CHANGE_FLUSH = 65"
definition GSCAN_ATTRIBUTE_EPNO_SSID_LIST :: int where [wifi_consts]: "GSCAN_ATTRIBUTE_EPNO_SSID_LIST = 70"
definition GSCAN_ATTRIBUTE_EPNO_SSID :: int where [wifi_consts]: "GSCAN_ATTRIBUTE_EPNO_SSID = 71"
definition GSCAN_ATTRIBUTE_EPNO_SSID_LEN :: int where [wifi_consts]: "GSCAN_ATTRIBUTE_EPNO_SSID_LEN = 72"
definition GSCAN_ATTRIBUTE_EPNO_FLAGS :: int where [wifi_consts]: "GSCAN_ATTRIBUTE_EPNO_FLAGS = 74"
definition GSCAN_ATTRIBUTE_EPNO_AUTH :: int where [wifi_consts]: "GSCAN_ATTRIBUTE_EPNO_AUTH = 75"
definition GSCAN_ATTRIBUTE_EPNO_SSID_NUM :: int where [wifi_consts]: "GSCAN_ATTRIBUTE_EPNO_SSID_NUM = 76"
definition GSCAN_ATTRIBUTE_EPNO_FLUSH :: int where [wifi_consts]: "GSCAN_ATTRIBUTE_EPNO_FLUSH = 77"
definition GSCAN_ATTRIBUTE_ANQPO_HS_LIST :: int where [wifi_consts]: "GSCAN_ATTRIBUTE_ANQPO_HS_LIST = 110"
definition GSCAN_ATTRIBUTE_ANQPO_HS_LIST_SIZE :: int where [wifi_consts]: "GSCAN_ATTRIBUTE_ANQPO_HS_LIST_SIZE = 111"
definition GSCAN_ATTRIBUTE_ANQPO_HS_NETWORK_ID :: int where [wifi_consts]: "GSCAN_ATTRIBUTE_ANQPO_HS_NETWORK_ID = 112"
definition GSCAN_ATTRIBUTE_ANQPO_HS_NAI_REALM :: int where [wifi_consts]: "GSCAN_ATTRIBUTE_ANQPO_HS_NAI_REALM = 113"
definition GSCAN_ATTRIBUTE_ANQPO_HS_ROAM_CONSORTIUM_ID :: int where [wifi_consts]: "GSCAN_ATTRIBUTE_ANQPO_HS_ROAM_CONSORTIUM_ID = 114"
definition GSCAN_ATTRIBUTE_ANQPO_HS_PLMN :: int where [wifi_consts]: "GSCAN_ATTRIBUTE_ANQPO_HS_PLMN = 115"
definition GSCAN_ATTRIBUTE_EPNO_5G_RSSI_THR :: int where [wifi_consts]: "GSCAN_ATTRIBUTE_EPNO_5G_RSSI_THR = 130"
definition GSCAN_ATTRIBUTE_EPNO_2G_RSSI_THR :: int where [wifi_consts]: "GSCAN_ATTRIBUTE_EPNO_2G_RSSI_THR = 131"
definition GSCAN_ATTRIBUTE_EPNO_INIT_SCORE_MAX :: int where [wifi_consts]: "GSCAN_ATTRIBUTE_EPNO_INIT_SCORE_MAX = 132"
definition GSCAN_ATTRIBUTE_EPNO_CUR_CONN_BONUS :: int where [wifi_consts]: "GSCAN_ATTRIBUTE_EPNO_CUR_CONN_BONUS = 133"
definition GSCAN_ATTRIBUTE_EPNO_SAME_NETWORK_BONUS :: int where [wifi_consts]: "GSCAN_ATTRIBUTE_EPNO_SAME_NETWORK_BONUS = 134"
definition GSCAN_ATTRIBUTE_EPNO_SECURE_BONUS :: int where [wifi_consts]: "GSCAN_ATTRIBUTE_EPNO_SECURE_BONUS = 135"
definition GSCAN_ATTRIBUTE_EPNO_5G_BONUS :: int where [wifi_consts]: "GSCAN_ATTRIBUTE_EPNO_5G_BONUS = 136"
definition RTT_SUBCMD_SET_CONFIG :: int where [wifi_consts]: "RTT_SUBCMD_SET_CONFIG = 4352"
definition RTT_SUBCMD_CANCEL_CONFIG :: int where [wifi_consts]: "RTT_SUBCMD_CANCEL_CONFIG = 4353"
definition RTT_SUBCMD_GETCAPABILITY :: int where [wifi_consts]: "RTT_SUBCMD_GETCAPABILITY = 4354"
definition RTT_SUBCMD_GETAVAILCHANNEL :: int where [wifi_consts]: "RTT_SUBCMD_GETAVAILCHANNEL = 4355"
definition RTT_SUBCMD_SET_RESPONDER :: int where [wifi_consts]: "RTT_SUBCMD_SET_RESPONDER = 4356"
definition RTT_SUBCMD_CANCEL_RESPONDER :: int where [wifi_consts]: "RTT_SUBCMD_CANCEL_RESPONDER = 4357"
definition RTT_ATTRIBUTE_CAPABILITIES :: int where [wifi_consts]: "RTT_ATTRIBUTE_CAPABILITIES = 1"
definition RTT_ATTRIBUTE_TARGET_CNT :: int where [wifi_consts]: "RTT_ATTRIBUTE_TARGET_CNT = 10"
definition RTT_ATTRIBUTE_TARGET_INFO :: int where [wifi_consts]: "RTT_ATTRIBUTE_TARGET_INFO = 11"
definition RTT_ATTRIBUTE_TARGET_MAC :: int where [wifi_consts]: "RTT_ATTRIBUTE_TARGET_MAC = 12"
definition RTT_ATTRIBUTE_TARGET_TYPE :: int where [wifi_consts]: "RTT_ATTRIBUTE_TARGET_TYPE = 13"
definition RTT_ATTRIBUTE_TARGET_PEER :: int where [wifi_consts]: "RTT_ATTRIBUTE_TARGET_PEER = 14"
definition RTT_ATTRIBUTE_TARGET_CHAN :: int where [wifi_consts]: "RTT_ATTRIBUTE_TARGET_CHAN = 15"
definition RTT_ATTRIBUTE_TARGET_PERIOD :: int where [wifi_consts]: "RTT_ATTRIBUTE_TARGET_PERIOD = 16"
definition RTT_ATTRIBUTE_TARGET_NUM_BURST :: int where [wifi_consts]: "RTT_ATTRIBUTE_TARGET_NUM_BURST = 17"
definition RTT_ATTRIBUTE_TARGET_NUM_FTM_BURST :: int where [wifi_consts]: "RTT_ATTRIBUTE_TARGET_NUM_FTM_BURST = 18"
definition RTT_ATTRIBUTE_TARGET_NUM_RETRY_FTM :: int where [wifi_consts]: "RTT_ATTRIBUTE_TARGET_NUM_RETRY_FTM = 19"
definition RTT_ATTRIBUTE_TARGET_NUM_RETRY_FTMR :: int where [wifi_consts]: "RTT_ATTRIBUTE_TARGET_NUM_RETRY_FTMR = 20"
definition RTT_ATTRIBUTE_TARGET_LCI :: int where [wifi_consts]: "RTT_ATTRIBUTE_TARGET_LCI = 21"
definition RTT_ATTRIBUTE_TARGET_LCR :: int where [wifi_consts]: "RTT_ATTRIBUTE_TARGET_LCR = 22"
definition RTT_ATTRIBUTE_TARGET_BURST_DURATION :: int where [wifi_consts]: "RTT_ATTRIBUTE_TARGET_BURST_DURATION = 23"
definition RTT_ATTRIBUTE_TARGET_PREAMBLE :: int where [wifi_consts]: "RTT_ATTRIBUTE_TARGET_PREAMBLE = 24"
definition RTT_ATTRIBUTE_TARGET_BW :: int where [wifi_consts]: "RTT_ATTRIBUTE_TARGET_BW = 25"
definition RTT_ATTRIBUTE_RESULTS_COMPLETE :: int where [wifi_consts]: "RTT_ATTRIBUTE_RESULTS_COMPLETE = 30"
definition RTT_ATTRIBUTE_RESULTS_PER_TARGET :: int where [wifi_consts]: "RTT_ATTRIBUTE_RESULTS_PER_TARGET = 31"
definition RTT_ATTRIBUTE_RESULT_CNT :: int where [wifi_consts]: "RTT_ATTRIBUTE_RESULT_CNT = 32"
definition RTT_ATTRIBUTE_RESULT :: int where [wifi_consts]: "RTT_ATTRIBUTE_RESULT = 33"
definition WIFI_OFFLOAD_START_MKEEP_ALIVE :: int where [wifi_consts]: "WIFI_OFFLOAD_START_MKEEP_ALIVE = 5632"
definition WIFI_OFFLOAD_STOP_MKEEP_ALIVE :: int where [wifi_consts]: "WIFI_OFFLOAD_STOP_MKEEP_ALIVE = 5633"
definition MKEEP_ALIVE_ATTRIBUTE_ID :: int where [wifi_consts]: "MKEEP_ALIVE_ATTRIBUTE_ID = 1"
definition MKEEP_ALIVE_ATTRIBUTE_IP_PKT_LEN :: int where [wifi_consts]: "MKEEP_ALIVE_ATTRIBUTE_IP_PKT_LEN = 2"
definition MKEEP_ALIVE_ATTRIBUTE_IP_PKT :: int where [wifi_consts]: "MKEEP_ALIVE_ATTRIBUTE_IP_PKT = 3"
definition MKEEP_ALIVE_ATTRIBUTE_SRC_MAC_ADDR :: int where [wifi_consts]: "MKEEP_ALIVE_ATTRIBUTE_SRC_MAC_ADDR = 4"
definition MKEEP_ALIVE_ATTRIBUTE_DST_MAC_ADDR :: int where [wifi_consts]: "MKEEP_ALIVE_ATTRIBUTE_DST_MAC_ADDR = 5"
definition MKEEP_ALIVE_ATTRIBUTE_PERIOD_MSEC :: int where [wifi_consts]: "MKEEP_ALIVE_ATTRIBUTE_PERIOD_MSEC = 6"

abbreviation v8 :: "int \<Rightarrow> nl_val" where "v8 x \<equiv> V8 (word_of_int x)"
abbreviation v16 :: "int \<Rightarrow> nl_val" where "v16 x \<equiv> V16 (word_of_int x)"
abbreviation v32 :: "int \<Rightarrow> nl_val" where "v32 x \<equiv> V32 (word_of_int x)"

text \<open>A loop that reads \<open>n\<close> elements of an array.\<close>

definition for_each :: "int \<Rightarrow> 'a list \<Rightarrow> (int \<Rightarrow> 'a \<Rightarrow> prog) \<Rightarrow> prog list" where
  "for_each n xs f = map (\<lambda>i. f (int i) (xs ! i)) [0..<min (nat n) (length xs)] @ (if int (length xs) < n then [P_overrun] else [])"

section \<open>Scans\<close>

definition createFeatureRequest :: "wifi_env \<Rightarrow> wifi_call list \<Rightarrow> int \<Rightarrow> int \<Rightarrow> WifiRequest \<Rightarrow> stop + (int \<times> WifiRequest)" where
  "createFeatureRequest env h subcmd enable =
     build env h GOOGLE_OUI subcmd (\<lambda>r. WIFI_SUCCESS env)
       [P_nest False (NL80211_ATTR_VENDOR_DATA env) [P_put GSCAN_ATTRIBUTE_ENABLE_FEATURE (v32 enable)]]"

record bucket_spec =
  bucket :: int
  period :: int
  band :: int
  step_count :: int
  max_period :: int
  report_events :: int
  num_channels :: int
  channels :: "int list"

record scan_params =
  base_period :: int
  max_ap_per_scan :: int
  report_threshold_percent :: int
  report_threshold_num_scans :: int
  num_buckets :: int
  buckets :: "bucket_spec list"

definition valid_band :: "wifi_env \<Rightarrow> int \<Rightarrow> int" where
  "valid_band env b = (if b < WIFI_BAND_UNSPECIFIED env \<or> b > WIFI_BAND_ABG_WITH_DFS env then WIFI_BAND_ABG env else b)"

definition bucket_prog :: "wifi_env \<Rightarrow> int \<Rightarrow> bucket_spec \<Rightarrow> prog" where
  "bucket_prog env i b =
     P_nest False i
       ([P_put GSCAN_ATTRIBUTE_BUCKET_ID (v32 (bucket b)),
         P_put GSCAN_ATTRIBUTE_BUCKET_PERIOD (v32 (period b)),
         P_put GSCAN_ATTRIBUTE_BUCKETS_BAND (v32 (valid_band env (band b))),
         P_put GSCAN_ATTRIBUTE_BUCKET_STEP_COUNT (v32 (step_count b)),
         P_put GSCAN_ATTRIBUTE_BUCKET_MAX_PERIOD (v32 (max_period b)),
         P_put GSCAN_ATTRIBUTE_REPORT_EVENTS (v32 (report_events b)),
         P_put GSCAN_ATTRIBUTE_BUCKET_NUM_CHANNELS (v32 (num_channels b))] @
        (if num_channels b \<noteq> 0 then
           [P_nest False GSCAN_ATTRIBUTE_BUCKET_CHANNELS (for_each (num_channels b) (channels b) (\<lambda>j ch. P_put j (v32 ch)))]
         else []))"

definition scan_setup_prog :: "wifi_env \<Rightarrow> scan_params \<Rightarrow> prog list" where
  "scan_setup_prog env p =
     [P_nest False (NL80211_ATTR_VENDOR_DATA env)
       ([P_put GSCAN_ATTRIBUTE_BASE_PERIOD (v32 (base_period p)),
         P_put GSCAN_ATTRIBUTE_NUM_BUCKETS (v32 (num_buckets p))] @
        for_each (num_buckets p) (buckets p) (bucket_prog env))]"

definition Scan_createSetupRequest :: "wifi_env \<Rightarrow> wifi_call list \<Rightarrow> scan_params \<Rightarrow> WifiRequest \<Rightarrow> stop + (int \<times> WifiRequest)" where
  "Scan_createSetupRequest env h p = build env h GOOGLE_OUI GSCAN_SUBCMD_SET_CONFIG (\<lambda>r. WIFI_SUCCESS env) (scan_setup_prog env p)"

definition valid_percent :: "int \<Rightarrow> int" where
  "valid_percent x = (if x < 0 \<or> x > 100 then 100 else x)"

definition Scan_createScanConfigRequest :: "wifi_env \<Rightarrow> wifi_call list \<Rightarrow> scan_params \<Rightarrow> WifiRequest \<Rightarrow> stop + (int \<times> WifiRequest)" where
  "Scan_createScanConfigRequest env h p =
     build env h GOOGLE_OUI GSCAN_SUBCMD_SET_SCAN_CONFIG (\<lambda>r. WIFI_SUCCESS env)
       [P_nest False (NL80211_ATTR_VENDOR_DATA env)
         [P_put GSCAN_ATTRIBUTE_NUM_AP_PER_SCAN (v32 (max_ap_per_scan p)),
          P_put GSCAN_ATTRIBUTE_REPORT_THRESHOLD (v32 (valid_percent (report_threshold_percent p))),
          P_put GSCAN_ATTRIBUTE_NUM_SCANS_TO_CACHE (v32 (report_threshold_num_scans p))]]"

definition Scan_createStartRequest :: "wifi_env \<Rightarrow> wifi_call list \<Rightarrow> WifiRequest \<Rightarrow> stop + (int \<times> WifiRequest)" where
  "Scan_createStartRequest env h = createFeatureRequest env h GSCAN_SUBCMD_ENABLE_GSCAN 1"

definition Scan_createStopRequest :: "wifi_env \<Rightarrow> wifi_call list \<Rightarrow> WifiRequest \<Rightarrow> stop + (int \<times> WifiRequest)" where
  "Scan_createStopRequest env h = createFeatureRequest env h GSCAN_SUBCMD_ENABLE_GSCAN 0"

definition Full_createRequest :: "wifi_env \<Rightarrow> wifi_call list \<Rightarrow> int \<Rightarrow> int \<Rightarrow> WifiRequest \<Rightarrow> stop + (int \<times> WifiRequest)" where
  "Full_createRequest env h subcmd enable =
     build env h GOOGLE_OUI subcmd (\<lambda>r. WIFI_SUCCESS env)
       [P_nest False (NL80211_ATTR_VENDOR_DATA env) [P_put GSCAN_ENABLE_FULL_SCAN_RESULTS (v32 enable)]]"

definition Results_createRequest :: "wifi_env \<Rightarrow> wifi_call list \<Rightarrow> int \<Rightarrow> u8 \<Rightarrow> WifiRequest \<Rightarrow> stop + (int \<times> WifiRequest)" where
  "Results_createRequest env h num fl =
     build env h GOOGLE_OUI GSCAN_SUBCMD_GET_SCAN_RESULTS (\<lambda>r. WIFI_SUCCESS env)
       [P_nest False (NL80211_ATTR_VENDOR_DATA env)
         [P_put GSCAN_ATTRIBUTE_NUM_OF_RESULTS (v32 num), P_put GSCAN_ATTRIBUTE_FLUSH_RESULTS (V8 fl)]]"

definition Channels_create :: "wifi_env \<Rightarrow> wifi_call list \<Rightarrow> int \<Rightarrow> WifiRequest \<Rightarrow> stop + (int \<times> WifiRequest)" where
  "Channels_create env h mBand =
     build env h GOOGLE_OUI WIFI_SUBCMD_GET_CHANNEL_LIST (\<lambda>r. r)
       [P_nest False (NL80211_ATTR_VENDOR_DATA env) [P_put WIFI_ATTRIBUTE_BAND (v32 mBand)]]"

section \<open>Hotlist, preferred networks, significant changes\<close>

record ap_threshold =
  bssid :: "u8 list"
  high :: int
  low :: int

record hotlist_params =
  h_lost_ap_sample_size :: int
  h_num_bssid :: int
  h_ap :: "ap_threshold list"

definition ap_prog :: "int \<Rightarrow> ap_threshold \<Rightarrow> prog" where
  "ap_prog i a =
     P_nest True i
       [P_put GSCAN_ATTRIBUTE_BSSID (Vbytes (bssid a)),
        P_put GSCAN_ATTRIBUTE_RSSI_HIGH (v32 (high a)),
        P_put GSCAN_ATTRIBUTE_RSSI_LOW (v32 (low a))]"

definition hotlist_setup_prog :: "wifi_env \<Rightarrow> hotlist_params \<Rightarrow> prog list" where
  "hotlist_setup_prog env p =
     [P_nest False (NL80211_ATTR_VENDOR_DATA env)
       [P_put GSCAN_ATTRIBUTE_HOTLIST_FLUSH (v8 1),
        P_put GSCAN_ATTRIBUTE_LOST_AP_SAMPLE_SIZE (v32 (h_lost_ap_sample_size p)),
        P_put GSCAN_ATTRIBUTE_NUM_AP (v16 (h_num_bssid p)),
        P_nest False GSCAN_ATTRIBUTE_HOTLIST_BSSIDS
          (for_each (h_num_bssid p) (h_ap p) (\<lambda>i. ap_prog GSCAN_ATTRIBUTE_HOTLIST_ELEM))]]"

definition Hotlist_createSetupRequest :: "wifi_env \<Rightarrow> wifi_call list \<Rightarrow> hotlist_params \<Rightarrow> WifiRequest \<Rightarrow> stop + (int \<times> WifiRequest)" where
  "Hotlist_createSetupRequest env h p = build env h GOOGLE_OUI GSCAN_SUBCMD_SET_HOTLIST (\<lambda>r. r) (hotlist_setup_prog env p)"

definition Hotlist_createTeardownRequest :: "wifi_env \<Rightarrow> wifi_call list \<Rightarrow> WifiRequest \<Rightarrow> stop + (int \<times> WifiRequest)" where
  "Hotlist_createTeardownRequest env h =
     build env h GOOGLE_OUI GSCAN_SUBCMD_SET_HOTLIST (\<lambda>r. r)
       [P_nest False (NL80211_ATTR_VENDOR_DATA env)
         [P_put GSCAN_ATTRIBUTE_HOTLIST_FLUSH (v8 1), P_nest False GSCAN_ATTRIBUTE_HOTLIST_BSSIDS []]]"

record epno_network =
  ssid :: "u8 list"
  n_flags :: u8
  auth_bit_field :: u8

record epno_params =
  min5GHz_rssi :: int
  min24GHz_rssi :: int
  initial_score_max :: int
  current_connection_bonus :: int
  same_network_bonus :: int
  secure_bonus :: int
  band5GHz_bonus :: int
  num_networks :: int
  networks :: "epno_network list"

text \<open>The whole array of the name goes out, and its length up to the first NUL.\<close>

definition network_prog :: "int \<Rightarrow> epno_network \<Rightarrow> prog" where
  "network_prog i n =
     P_nest True i
       [P_put GSCAN_ATTRIBUTE_EPNO_SSID (Vbytes (take DOT11_MAX_SSID_LEN (ssid n))),
        P_put GSCAN_ATTRIBUTE_EPNO_SSID_LEN (v32 (int (length (takeWhile (\<lambda>c. c \<noteq> 0) (ssid n))))),
        P_put GSCAN_ATTRIBUTE_EPNO_FLAGS (V32 (ucast (n_flags n))),
        P_put GSCAN_ATTRIBUTE_EPNO_AUTH (V32 (ucast (auth_bit_field n)))]"

definition epno_setup_prog :: "wifi_env \<Rightarrow> epno_params \<Rightarrow> prog list" where
  "epno_setup_prog env p =
     [P_nest False (NL80211_ATTR_VENDOR_DATA env)
       [P_put GSCAN_ATTRIBUTE_EPNO_FLUSH (v8 1),
        P_put GSCAN_ATTRIBUTE_EPNO_5G_RSSI_THR (v8 (min5GHz_rssi p)),
        P_put GSCAN_ATTRIBUTE_EPNO_2G_RSSI_THR (v8 (min24GHz_rssi p)),
        P_put GSCAN_ATTRIBUTE_EPNO_INIT_SCORE_MAX (v16 (initial_score_max p)),
        P_put GSCAN_ATTRIBUTE_EPNO_CUR_CONN_BONUS (v16 (current_connection_bonus p)),
        P_put GSCAN_ATTRIBUTE_EPNO_SAME_NETWORK_BONUS (v16 (same_network_bonus p)),
        P_put GSCAN_ATTRIBUTE_EPNO_SECURE_BONUS (v16 (secure_bonus p)),
        P_put GSCAN_ATTRIBUTE_EPNO_5G_BONUS (v16 (band5GHz_bonus p)),
        P_put GSCAN_ATTRIBUTE_EPNO_SSID_NUM (v8 (num_networks p)),
        P_nest False GSCAN_ATTRIBUTE_EPNO_SSID_LIST (for_each (num_networks p) (networks p) network_prog)]]"

definition Epno_createSetupRequest :: "wifi_env \<Rightarrow> wifi_call list \<Rightarrow> epno_params \<Rightarrow> WifiRequest \<Rightarrow> stop + (int \<times> WifiRequest)" where
  "Epno_createSetupRequest env h p q =
     (if num_networks p > MAX_EPNO_NETWORKS env then Inr (WIFI_ERROR_INVALID_ARGS env, q)
      else build env h GOOGLE_OUI GSCAN_SUBCMD_SET_EPNO_SSID (\<lambda>r. r) (epno_setup_prog env p) q)"

definition Epno_createTeardownRequest :: "wifi_env \<Rightarrow> wifi_call list \<Rightarrow> WifiRequest \<Rightarrow> stop + (int \<times> WifiRequest)" where
  "Epno_createTeardownRequest env h =
     build env h GOOGLE_OUI GSCAN_SUBCMD_SET_EPNO_SSID (\<lambda>r. r)
       [P_nest False (NL80211_ATTR_VENDOR_DATA env) [P_put GSCAN_ATTRIBUTE_EPNO_FLUSH (v8 1)]]"

record change_params =
  rssi_sample_size :: int
  c_lost_ap_sample_size :: int
  min_breaching :: int
  c_num_bssid :: int
  c_ap :: "ap_threshold list"

definition change_setup_prog :: "wifi_env \<Rightarrow> change_params \<Rightarrow> prog list" where
  "change_setup_prog env p =
     [P_nest False (NL80211_ATTR_VENDOR_DATA env)
       [P_put GSCAN_ATTRIBUTE_SIGNIFICANT_CHANGE_FLUSH (v8 1),
        P_put GSCAN_ATTRIBUTE_RSSI_SAMPLE_SIZE (v16 (rssi_sample_size p)),
        P_put GSCAN_ATTRIBUTE_LOST_AP_SAMPLE_SIZE (v16 (c_lost_ap_sample_size p)),
        P_put GSCAN_ATTRIBUTE_MIN_BREACHING (v16 (min_breaching p)),
        P_put GSCAN_ATTRIBUTE_NUM_AP (v16 (c_num_bssid p)),
        P_nest False GSCAN_ATTRIBUTE_SIGNIFICANT_CHANGE_BSSIDS (for_each (c_num_bssid p) (c_ap p) ap_prog)]]"

definition Change_createSetupRequest :: "wifi_env \<Rightarrow> wifi_call list \<Rightarrow> change_params \<Rightarrow> WifiRequest \<Rightarrow> stop + (int \<times> WifiRequest)" where
  "Change_createSetupRequest env h p =
     build env h GOOGLE_OUI GSCAN_SUBCMD_SET_SIGNIFICANT_CHANGE_CONFIG (\<lambda>r. r) (change_setup_prog env p)"

definition Change_createTeardownRequest :: "wifi_env \<Rightarrow> wifi_call list \<Rightarrow> WifiRequest \<Rightarrow> stop + (int \<times> WifiRequest)" where
  "Change_createTeardownRequest env h =
     build env h GOOGLE_OUI GSCAN_SUBCMD_SET_SIGNIFICANT_CHANGE_CONFIG (\<lambda>r. r)
       [P_nest False (NL80211_ATTR_VENDOR_DATA env) [P_put GSCAN_ATTRIBUTE_SIGNIFICANT_CHANGE_FLUSH (v16 1)]]"

section \<open>Passpoint networks\<close>

record passpoint_network =
  pp_id :: int
  realm :: "u8 list"
  roamingConsortiumIds :: "u8 list"
  plmn :: "u8 list"

definition passpoint_prog :: "int \<Rightarrow> passpoint_network \<Rightarrow> prog" where
  "passpoint_prog i n =
     P_nest True i
       [P_put GSCAN_ATTRIBUTE_ANQPO_HS_NETWORK_ID (v32 (pp_id n)),
        P_put GSCAN_ATTRIBUTE_ANQPO_HS_NAI_REALM (Vbytes (take 256 (realm n))),
        P_put GSCAN_ATTRIBUTE_ANQPO_HS_ROAM_CONSORTIUM_ID (Vbytes (take 128 (roamingConsortiumIds n))),
        P_put GSCAN_ATTRIBUTE_ANQPO_HS_PLMN (Vbytes (take 3 (plmn n)))]"

text \<open>The result of creating the message is overwritten before it is tested. The parameter \<^verbatim>\<open>val\<close> is not used.\<close>

definition Anqpo_createRequest :: "wifi_env \<Rightarrow> wifi_call list \<Rightarrow> int \<Rightarrow> passpoint_network list \<Rightarrow> WifiRequest \<Rightarrow> stop + (int \<times> WifiRequest)" where
  "Anqpo_createRequest env h num_hs mNetworks q =
     (case create_vendor env h GOOGLE_OUI GSCAN_SUBCMD_ANQPO_CONFIG q of
        Inl e \<Rightarrow> Inl e
      | Inr (r, q) \<Rightarrow>
          case mMsg q of
            None \<Rightarrow> Inl Null_pointer
          | Some m \<Rightarrow>
              (case run_prog env
                  [P_put GSCAN_ATTRIBUTE_ANQPO_HS_LIST_SIZE (v32 num_hs),
                   P_nest False (NL80211_ATTR_VENDOR_DATA env)
                     [P_nest False GSCAN_ATTRIBUTE_ANQPO_HS_LIST (for_each num_hs mNetworks passpoint_prog)]] r (m_ops m) of
                 Go r ops \<Rightarrow> Inr (WIFI_SUCCESS env, q\<lparr>mMsg := Some (m\<lparr>m_ops := ops\<rparr>)\<rparr>)
               | Ret r ops \<Rightarrow> Inr (r, q\<lparr>mMsg := Some (m\<lparr>m_ops := ops\<rparr>)\<rparr>)
               | Stop e \<Rightarrow> Inl e))"

section \<open>Ranging\<close>

record rtt_config =
  r_addr :: "u8 list"
  r_type :: int
  r_peer :: int
  r_channel :: "u8 list"
  num_burst :: int
  num_frames_per_burst :: int
  num_retries_per_rtt_frame :: int
  num_retries_per_ftmr :: int
  burst_period :: int
  burst_duration :: int
  LCI_request :: int
  LCR_request :: int
  bw :: int
  preamble :: int

definition target_prog :: "int \<Rightarrow> rtt_config \<Rightarrow> prog" where
  "target_prog i t =
     P_nest True i
       [P_put RTT_ATTRIBUTE_TARGET_MAC (Vbytes (r_addr t)),
        P_put RTT_ATTRIBUTE_TARGET_TYPE (v8 (r_type t)),
        P_put RTT_ATTRIBUTE_TARGET_PEER (v8 (r_peer t)),
        P_put RTT_ATTRIBUTE_TARGET_CHAN (Vbytes (r_channel t)),
        P_put RTT_ATTRIBUTE_TARGET_NUM_BURST (v32 (num_burst t)),
        P_put RTT_ATTRIBUTE_TARGET_NUM_FTM_BURST (v32 (num_frames_per_burst t)),
        P_put RTT_ATTRIBUTE_TARGET_NUM_RETRY_FTM (v32 (num_retries_per_rtt_frame t)),
        P_put RTT_ATTRIBUTE_TARGET_NUM_RETRY_FTMR (v32 (num_retries_per_ftmr t)),
        P_put RTT_ATTRIBUTE_TARGET_PERIOD (v32 (burst_period t)),
        P_put RTT_ATTRIBUTE_TARGET_BURST_DURATION (v32 (burst_duration t)),
        P_put RTT_ATTRIBUTE_TARGET_LCI (v8 (LCI_request t)),
        P_put RTT_ATTRIBUTE_TARGET_LCR (v8 (LCR_request t)),
        P_put RTT_ATTRIBUTE_TARGET_BW (v8 (bw t)),
        P_put RTT_ATTRIBUTE_TARGET_PREAMBLE (v8 (preamble t))]"

definition rtt_setup_prog :: "wifi_env \<Rightarrow> int \<Rightarrow> rtt_config list \<Rightarrow> prog list" where
  "rtt_setup_prog env numRttParams rttParams =
     [P_nest False (NL80211_ATTR_VENDOR_DATA env)
       [P_put RTT_ATTRIBUTE_TARGET_CNT (v8 numRttParams),
        P_nest False RTT_ATTRIBUTE_TARGET_INFO (for_each numRttParams rttParams target_prog)]]"

definition Rtt_createSetupRequest :: "wifi_env \<Rightarrow> wifi_call list \<Rightarrow> int \<Rightarrow> rtt_config list \<Rightarrow> WifiRequest \<Rightarrow> stop + (int \<times> WifiRequest)" where
  "Rtt_createSetupRequest env h n ps = build env h GOOGLE_OUI RTT_SUBCMD_SET_CONFIG (\<lambda>r. WIFI_SUCCESS env) (rtt_setup_prog env n ps)"

definition Rtt_createTeardownRequest :: "wifi_env \<Rightarrow> wifi_call list \<Rightarrow> int \<Rightarrow> u8 list list \<Rightarrow> WifiRequest \<Rightarrow> stop + (int \<times> WifiRequest)" where
  "Rtt_createTeardownRequest env h num_devices addr =
     build env h GOOGLE_OUI RTT_SUBCMD_CANCEL_CONFIG (\<lambda>r. r)
       [P_nest False (NL80211_ATTR_VENDOR_DATA env)
         (P_put_any RTT_ATTRIBUTE_TARGET_CNT (v8 num_devices) #
          for_each num_devices addr (\<lambda>i a. P_put RTT_ATTRIBUTE_TARGET_MAC (Vbytes a)))]"

section \<open>The other requests\<close>

definition Rssi_createRequest :: "wifi_env \<Rightarrow> wifi_call list \<Rightarrow> int \<Rightarrow> int \<Rightarrow> int \<Rightarrow> WifiRequest \<Rightarrow> stop + (int \<times> WifiRequest)" where
  "Rssi_createRequest env h mMax_rssi mMin_rssi enable =
     build env h GOOGLE_OUI WIFI_SUBCMD_SET_RSSI_MONITOR (\<lambda>r. r)
       [P_nest False (NL80211_ATTR_VENDOR_DATA env)
         [P_put WIFI_ATTRIBUTE_MAX_RSSI (v32 (if enable \<noteq> 0 then mMax_rssi else 0)),
          P_put WIFI_ATTRIBUTE_MIN_RSSI (v32 (if enable \<noteq> 0 then mMin_rssi else 0)),
          P_put WIFI_ATTRIBUTE_RSSI_MONITOR_START (v32 enable)]]"

definition Country_create :: "wifi_env \<Rightarrow> wifi_call list \<Rightarrow> u8 list \<Rightarrow> WifiRequest \<Rightarrow> stop + (int \<times> WifiRequest)" where
  "Country_create env h mCountryCode =
     build env h GOOGLE_OUI WIFI_SUBCMD_SET_COUNTRY_CODE (\<lambda>r. WIFI_SUCCESS env)
       [P_nest False (NL80211_ATTR_VENDOR_DATA env) [P_put WIFI_ATTRIBUTE_COUNTRY_CODE (Vbytes (mCountryCode @ [0]))]]"

definition Features_create :: "wifi_env \<Rightarrow> wifi_call list \<Rightarrow> int \<Rightarrow> WifiRequest \<Rightarrow> stop + (int \<times> WifiRequest)" where
  "Features_create env h feature_type q =
     (if feature_type = WIFI_ATTRIBUTE_FEATURE_SET then create_vendor env h GOOGLE_OUI WIFI_SUBCMD_GET_FEATURE_SET q
      else if feature_type = WIFI_ATTRIBUTE_NUM_FEATURE_SET then create_vendor env h GOOGLE_OUI WIFI_SUBCMD_GET_FEATURE_SET_MATRIX q
      else Inr (-1, q))"

datatype GetCmdType = START_MKEEP_ALIVE | STOP_MKEEP_ALIVE

record keep_alive =
  mIndex :: u8
  mIpPkt :: "u8 list"
  mIpPktLen :: u16
  mSrcMacAddr :: "u8 list"
  mDstMacAddr :: "u8 list"
  mPeriodMsec :: u32
  mType :: GetCmdType

definition keep_alive_prog :: "wifi_env \<Rightarrow> keep_alive \<Rightarrow> prog list" where
  "keep_alive_prog env k =
     [P_nest False (NL80211_ATTR_VENDOR_DATA env)
       (case mType k of
          START_MKEEP_ALIVE \<Rightarrow>
            [P_put MKEEP_ALIVE_ATTRIBUTE_ID (V8 (mIndex k)),
             P_put MKEEP_ALIVE_ATTRIBUTE_IP_PKT_LEN (V16 (mIpPktLen k)),
             (if length (mIpPkt k) < unat (mIpPktLen k) then P_overrun
              else P_put MKEEP_ALIVE_ATTRIBUTE_IP_PKT (Vbytes (take (unat (mIpPktLen k)) (mIpPkt k)))),
             P_put MKEEP_ALIVE_ATTRIBUTE_SRC_MAC_ADDR (Vbytes (mSrcMacAddr k)),
             P_put MKEEP_ALIVE_ATTRIBUTE_DST_MAC_ADDR (Vbytes (mDstMacAddr k)),
             P_put MKEEP_ALIVE_ATTRIBUTE_PERIOD_MSEC (V32 (mPeriodMsec k))]
        | STOP_MKEEP_ALIVE \<Rightarrow> [P_put MKEEP_ALIVE_ATTRIBUTE_ID (V8 (mIndex k))])]"

text \<open>Here any result but success ends the creation.\<close>

definition KeepAlive_createRequest :: "wifi_env \<Rightarrow> wifi_call list \<Rightarrow> keep_alive \<Rightarrow> WifiRequest \<Rightarrow> stop + (int \<times> WifiRequest)" where
  "KeepAlive_createRequest env h k q =
     (case create_vendor env h GOOGLE_OUI
         (case mType k of START_MKEEP_ALIVE \<Rightarrow> WIFI_OFFLOAD_START_MKEEP_ALIVE | STOP_MKEEP_ALIVE \<Rightarrow> WIFI_OFFLOAD_STOP_MKEEP_ALIVE) q of
        Inl e \<Rightarrow> Inl e
      | Inr (r, q) \<Rightarrow>
          if r \<noteq> WIFI_SUCCESS env then Inr (r, q)
          else
            case mMsg q of
              None \<Rightarrow> Inl Null_pointer
            | Some m \<Rightarrow>
                (case run_prog env (keep_alive_prog env k) r (m_ops m) of
                   Go r ops \<Rightarrow> Inr (r, q\<lparr>mMsg := Some (m\<lparr>m_ops := ops\<rparr>)\<rparr>)
                 | Ret r ops \<Rightarrow> Inr (r, q\<lparr>mMsg := Some (m\<lparr>m_ops := ops\<rparr>)\<rparr>)
                 | Stop e \<Rightarrow> Inl e))"

section \<open>Reading a request back\<close>

fun leaf_at :: "int \<Rightarrow> tree list \<Rightarrow> nl_val option" where
  "leaf_at a [] = None"
| "leaf_at a (T_leaf b v # ts) = (if a = b then Some v else leaf_at a ts)"
| "leaf_at a (T_node b us # ts) = leaf_at a ts"

fun node_at :: "int \<Rightarrow> tree list \<Rightarrow> tree list" where
  "node_at a [] = []"
| "node_at a (T_leaf b v # ts) = node_at a ts"
| "node_at a (T_node b us # ts) = (if a = b then us else node_at a ts)"

fun nodes :: "tree list \<Rightarrow> tree list list" where
  "nodes [] = []"
| "nodes (T_leaf b v # ts) = nodes ts"
| "nodes (T_node b us # ts) = us # nodes ts"

fun leaves :: "tree list \<Rightarrow> nl_val list" where
  "leaves [] = []"
| "leaves (T_leaf b v # ts) = v # leaves ts"
| "leaves (T_node b us # ts) = leaves ts"

lemma nodes_append [simp]: "nodes (ts @ us) = nodes ts @ nodes us"
  by (induction ts rule: nodes.induct) simp_all

lemma node_at_header [simp]: "node_at a (vendor_header env vid sc i @ ts) = node_at a ts"
  by (simp add: vendor_header_def)

fun no_overrun :: "prog list \<Rightarrow> bool" where
  "no_overrun [] = True"
| "no_overrun (P_overrun # ps) = False"
| "no_overrun (P_nest c a bs # ps) = (no_overrun bs \<and> no_overrun ps)"
| "no_overrun (p # ps) = no_overrun ps"

lemma no_overrun_append [simp]: "no_overrun (ps @ qs) \<longleftrightarrow> no_overrun ps \<and> no_overrun qs"
  by (induction ps rule: no_overrun.induct) auto

lemma run_no_overrun: "run_prog env ps r ops = Go r' ops' \<Longrightarrow> no_overrun ps"
proof (induction env ps r ops arbitrary: r' ops' rule: run_prog.induct)
  case (4 env c a bs ps r ops)
  from "4.prems"(1) obtain r1 ops1 where b: "run_prog env bs r (ops @ [N_start a]) = Go r1 ops1" "x_start env ops a"
    and t: "run_prog env ps r1 (ops1 @ [N_end]) = Go r' ops'"
    by (auto simp: Let_def split: if_splits flow.splits)
  have "no_overrun bs" using "4.IH"(1) b by auto
  moreover have "no_overrun ps" using "4.IH"(2) [OF refl _ _ _ t] b by auto
  ultimately show ?case by simp
next
  case (2 env a v ps r ops)
  show ?case
  proof (cases "x_put env ops a v < 0")
    case False
    then show ?thesis using "2.IH" [OF refl False] "2.prems" by (simp add: Let_def)
  qed (use "2.prems" in \<open>simp add: Let_def\<close>)
next
  case (3 env a v ps r ops)
  have "no_overrun ps" by (rule "3.IH") (use "3.prems"(1) in \<open>simp only: run_prog.simps\<close>)
  then show ?case by simp
qed simp_all

text \<open>A method that succeeded has read no array past its end, and its message says what its program says.\<close>

lemma built:
  assumes "build env h vid subcmd fin ps q = Inr (r, q')" and "codes_ok env" and "all_checked ps" and "0 \<le> r"
  shows "says q' (vendor_header env vid subcmd (mIface q) @ trees_of ps) \<and> no_overrun ps"
proof -
  obtain r1 q1 where c: "create_vendor env h vid subcmd q = Inr (r1, q1)" "0 \<le> r1"
    using assms(1,4) by (auto simp: build_def split: sum.splits if_splits)
  obtain m where m: "mMsg q1 = Some m" using create_vendor_ops [OF c assms(2)] by blast
  have "no_overrun ps"
  proof (cases "run_prog env ps r1 (m_ops m)")
    case (Go r2 ops)
    then show ?thesis by (rule run_no_overrun)
  next
    case (Ret r2 ops)
    then show ?thesis using run_ret [OF Ret assms(2)] assms(1,4) c m by (simp add: build_def)
  next
    case (Stop e)
    then show ?thesis using assms(1) c m by (simp add: build_def)
  qed
  then show ?thesis using build_says [OF assms] by simp
qed

lemma for_each_nests:
  assumes "no_overrun (for_each n xs f)" and "\<And>i x. \<exists>c a bs. f i x = P_nest c a bs \<and> trees_of bs = g x"
  shows "n \<le> int (length xs) \<and> nodes (trees_of (for_each n xs f)) = map g (take (nat n) xs)"
proof -
  have n: "n \<le> int (length xs)" using assms(1) by (auto simp: for_each_def split: if_splits)
  have "nodes (trees_of (map (\<lambda>i. f (int i) (xs ! i)) is)) = map (\<lambda>i. g (xs ! i)) is" for "is"
  proof (induction "is")
    case (Cons i "is")
    obtain c a bs where "f (int i) (xs ! i) = P_nest c a bs" "trees_of bs = g (xs ! i)" using assms(2) by blast
    then show ?case using Cons by simp
  qed simp
  moreover have "map (\<lambda>i. xs ! i) [0..<nat n] = take (nat n) xs" using n by (intro nth_equalityI) auto
  then have "map (\<lambda>i. g (xs ! i)) [0..<nat n] = map g (take (nat n) xs)" by (metis (mono_tags, lifting) comp_apply map_cong map_map)
  ultimately show ?thesis using n by (simp add: for_each_def min_def)
qed

lemma for_each_leaves:
  assumes "no_overrun (for_each n xs f)" and "\<And>i x. \<exists>a. f i x = P_put a (g x)"
  shows "n \<le> int (length xs) \<and> leaves (trees_of (for_each n xs f)) = map g (take (nat n) xs)"
proof -
  have n: "n \<le> int (length xs)" using assms(1) by (auto simp: for_each_def split: if_splits)
  have "leaves (trees_of (map (\<lambda>i. f (int i) (xs ! i)) is)) = map (\<lambda>i. g (xs ! i)) is" for "is"
  proof (induction "is")
    case (Cons i "is")
    obtain a where "f (int i) (xs ! i) = P_put a (g (xs ! i))" using assms(2) by blast
    then show ?case using Cons by simp
  qed simp
  moreover have "map (\<lambda>i. xs ! i) [0..<nat n] = take (nat n) xs" using n by (intro nth_equalityI) auto
  then have "map (\<lambda>i. g (xs ! i)) [0..<nat n] = map g (take (nat n) xs)" by (metis (mono_tags, lifting) comp_apply map_cong map_map)
  ultimately show ?thesis using n by (simp add: for_each_def min_def)
qed

lemma for_each_checked: "(\<And>i x. all_checked [f i x]) \<Longrightarrow> all_checked (for_each n xs f)"
proof -
  assume a: "\<And>i x. all_checked [f i x]"
  have "all_checked (map (\<lambda>i. f (int i) (xs ! i)) is)" for "is"
  proof (induction "is")
    case (Cons i "is")
    then show ?case using a [of "int i" "xs ! i"] checked_append [of "[f (int i) (xs ! i)]"] by simp
  qed simp
  then show ?thesis by (simp add: for_each_def)
qed

lemma for_each_inner:
  assumes "no_overrun (for_each n xs f)" and "x \<in> set (take (nat n) xs)"
  shows "\<exists>i. no_overrun [f i x]"
proof -
  have each: "no_overrun (map (\<lambda>i. f (int i) (xs ! i)) is) \<Longrightarrow> i \<in> set is \<Longrightarrow> no_overrun [f (int i) (xs ! i)]" for "is" i
  proof (induction "is")
    case (Cons k "is")
    then show ?case using no_overrun_append [of "[f (int k) (xs ! k)]" "map (\<lambda>i. f (int i) (xs ! i)) is"] by auto
  qed simp
  obtain i where "i < length (take (nat n) xs)" "x = take (nat n) xs ! i" using assms(2) by (metis in_set_conv_nth)
  then have "i < min (nat n) (length xs)" "x = xs ! i" by auto
  then show ?thesis using each [of "[0..<min (nat n) (length xs)]" i] assms(1) by (auto simp: for_each_def)
qed

definition read_bucket :: "tree list \<Rightarrow> nl_val option list \<times> nl_val list" where
  "read_bucket ts =
     (map (\<lambda>a. leaf_at a ts) [GSCAN_ATTRIBUTE_BUCKET_ID, GSCAN_ATTRIBUTE_BUCKET_PERIOD, GSCAN_ATTRIBUTE_BUCKETS_BAND,
        GSCAN_ATTRIBUTE_BUCKET_STEP_COUNT, GSCAN_ATTRIBUTE_BUCKET_MAX_PERIOD, GSCAN_ATTRIBUTE_REPORT_EVENTS,
        GSCAN_ATTRIBUTE_BUCKET_NUM_CHANNELS],
      leaves (node_at GSCAN_ATTRIBUTE_BUCKET_CHANNELS ts))"

definition bucket_says :: "wifi_env \<Rightarrow> bucket_spec \<Rightarrow> nl_val option list \<times> nl_val list" where
  "bucket_says env b =
     (map (\<lambda>x. Some (v32 x)) [bucket b, period b, valid_band env (band b), step_count b, max_period b, report_events b, num_channels b],
      map v32 (take (nat (num_channels b)) (channels b)))"

definition bucket_body :: "wifi_env \<Rightarrow> bucket_spec \<Rightarrow> prog list" where
  "bucket_body env b = (case bucket_prog env 0 b of P_nest c a bs \<Rightarrow> bs | p \<Rightarrow> [])"

lemma bucket_prog_nest: "bucket_prog env i b = P_nest False i (bucket_body env b)"
  by (simp add: bucket_prog_def bucket_body_def)

lemma bucket_checked: "all_checked [bucket_prog env i b]"
  by (auto simp: bucket_prog_def intro!: for_each_checked)

lemma bucket_read:
  assumes "no_overrun [bucket_prog env i b]"
  shows "read_bucket (trees_of (bucket_body env b)) = bucket_says env b"
proof -
  have "num_channels b \<noteq> 0 \<Longrightarrow> no_overrun (for_each (num_channels b) (channels b) (\<lambda>j ch. P_put j (v32 ch)))"
    using assms by (simp add: bucket_prog_def)
  from for_each_leaves [OF this, of v32]
  show ?thesis by (auto simp: bucket_body_def bucket_prog_def read_bucket_def bucket_says_def wifi_consts)
qed

lemma scan_request_reads:
  assumes "codes_ok env" and "Scan_createSetupRequest env h p q = Inr (r, q')" and "0 \<le> r"
  shows "\<exists>ts. says q' ts \<and> num_buckets p \<le> int (length (buckets p)) \<and>
    leaf_at GSCAN_ATTRIBUTE_BASE_PERIOD (node_at (NL80211_ATTR_VENDOR_DATA env) ts) = Some (v32 (base_period p)) \<and>
    leaf_at GSCAN_ATTRIBUTE_NUM_BUCKETS (node_at (NL80211_ATTR_VENDOR_DATA env) ts) = Some (v32 (num_buckets p)) \<and>
    map read_bucket (nodes (node_at (NL80211_ATTR_VENDOR_DATA env) ts)) = map (bucket_says env) (take (nat (num_buckets p)) (buckets p))"
proof -
  let ?ts = "vendor_header env GOOGLE_OUI GSCAN_SUBCMD_SET_CONFIG (mIface q) @ trees_of (scan_setup_prog env p)"
  have "all_checked (scan_setup_prog env p)"
    by (simp add: scan_setup_prog_def for_each_checked bucket_checked)
  from built [OF assms(2) [unfolded Scan_createSetupRequest_def] assms(1) this assms(3)]
  have s: "says q' ?ts" and o: "no_overrun (for_each (num_buckets p) (buckets p) (bucket_prog env))"
    by (simp_all add: scan_setup_prog_def)
  have n: "num_buckets p \<le> int (length (buckets p)) \<and>
      nodes (trees_of (for_each (num_buckets p) (buckets p) (bucket_prog env))) =
        map (\<lambda>b. trees_of (bucket_body env b)) (take (nat (num_buckets p)) (buckets p))"
    by (rule for_each_nests [OF o]) (auto simp: bucket_prog_nest)
  have "read_bucket (trees_of (bucket_body env b)) = bucket_says env b" if "b \<in> set (take (nat (num_buckets p)) (buckets p))" for b
    using for_each_inner [OF o that] bucket_read by blast
  with n show ?thesis
    by (intro exI [of _ ?ts] conjI s) (simp_all add: scan_setup_prog_def wifi_consts)
qed

text \<open>Nothing is refused: there is memory for the message, and room in it for every attribute.\<close>

definition ample :: "wifi_env \<Rightarrow> wifi_call list \<Rightarrow> bool" where
  "ample env h \<longleftrightarrow> x_msg_alloc env h \<and> (\<forall>ops a. x_start env ops a) \<and> (\<forall>ops a v. 0 \<le> x_put env ops a v)"

lemma run_ample: "ample env h \<Longrightarrow> no_overrun ps \<Longrightarrow> \<exists>r' ops'. run_prog env ps r ops = Go r' ops'"
proof (induction env ps r ops rule: run_prog.induct)
  case (4 env c a bs ps r ops)
  then have s: "x_start env ops a" by (simp add: ample_def)
  then obtain r1 ops1 where b: "run_prog env bs r (ops @ [N_start a]) = Go r1 ops1" using "4.IH"(1) [OF refl] "4.prems" by auto
  have "\<exists>r' ops'. run_prog env ps r1 (ops1 @ [N_end]) = Go r' ops'" using "4.IH"(2) [OF refl] s b "4.prems" by auto
  then show ?case using s b by simp
qed (auto simp: ample_def Let_def not_less)

lemma create_vendor_ample: "ample env h \<Longrightarrow> codes_ok env \<Longrightarrow> \<exists>r q'. create_vendor env h vid sc q = Inr (r, q') \<and> 0 \<le> r \<and> mMsg q' \<noteq> None"
  by (auto simp: ample_def codes_ok_def create_vendor_def create_msg_def put_def Let_def not_less)

lemma build_ample:
  assumes "ample env h" and "codes_ok env" and "no_overrun ps"
  shows "\<exists>r q'. build env h vid sc fin ps q = Inr (fin r, q')"
proof -
  obtain r1 q1 m where c: "create_vendor env h vid sc q = Inr (r1, q1)" "0 \<le> r1" "mMsg q1 = Some m"
    using create_vendor_ample [OF assms(1,2)] by blast
  obtain r2 ops where "run_prog env ps r1 (m_ops m) = Go r2 ops" using run_ample [OF assms(1,3)] by blast
  then show ?thesis using c by (auto simp: build_def)
qed

lemma guarded_no_overrun: "guarded ps \<Longrightarrow> no_overrun ps"
  by (induction ps rule: guarded.induct) auto

lemma for_each_guarded:
  assumes "n \<le> int (length xs)" and "\<And>i x. x \<in> set (take (nat n) xs) \<Longrightarrow> guarded [f i x]"
  shows "guarded (for_each n xs f)"
proof -
  have each: "(\<And>i. i \<in> set is \<Longrightarrow> guarded [f (int i) (xs ! i)]) \<Longrightarrow> guarded (map (\<lambda>i. f (int i) (xs ! i)) is)" for "is"
  proof (induction "is")
    case (Cons k "is")
    then show ?case using guarded_append [of "[f (int k) (xs ! k)]"] by fastforce
  qed simp
  have "guarded [f (int i) (xs ! i)]" if "i \<in> set [0..<min (nat n) (length xs)]" for i
    using assms(2) [of "xs ! i"] that by (simp add: in_set_conv_nth) (metis nth_take)
  then have "guarded (map (\<lambda>i. f (int i) (xs ! i)) [0..<min (nat n) (length xs)])" by (rule each)
  then show ?thesis using assms(1) by (simp add: for_each_def)
qed

text \<open>The counts that a scan's parameters give are within their arrays.\<close>

definition counts_within :: "scan_params \<Rightarrow> bool" where
  "counts_within p \<longleftrightarrow> num_buckets p \<le> int (length (buckets p)) \<and>
     list_all (\<lambda>b. 0 \<le> num_channels b \<and> num_channels b \<le> int (length (channels b))) (take (nat (num_buckets p)) (buckets p))"

lemma bucket_guarded:
  assumes "0 \<le> num_channels b" and "num_channels b \<le> int (length (channels b))"
  shows "guarded [bucket_prog env i b]"
proof -
  have "guarded (for_each (num_channels b) (channels b) (\<lambda>j ch. P_put j (v32 ch)))"
    using assms(2) by (rule for_each_guarded) simp
  moreover have "num_channels b \<noteq> 0 \<Longrightarrow> starts_put (for_each (num_channels b) (channels b) (\<lambda>j ch. P_put j (v32 ch)))"
    using assms by (auto simp: for_each_def upt_conv_Cons)
  ultimately show ?thesis by (simp add: bucket_prog_def)
qed

lemma scan_guarded: "counts_within p \<Longrightarrow> guarded (scan_setup_prog env p)"
  using for_each_guarded [of "num_buckets p" "buckets p" "bucket_prog env"] bucket_guarded
  by (auto simp: counts_within_def scan_setup_prog_def list_all_iff)

text \<open>C20. What the driver reads of a scan's configuration is what was asked for. If the counts of buckets and of channels that the
  framework passes are within their arrays (the code checks neither), the request is assembled without reading past an array and without
  going through a null attribute; the method returns; if it reports no error, its message is well nested and holds the base period,
  the number of buckets and, in order, every bucket's fields and channels, a band that is not one of the enumeration replaced; and
  it reports success if there was memory and room for everything.\<close>

theorem scan_request_roundtrip:
  assumes "codes_ok env" and "room_ok env" and "counts_within p"
  shows "\<exists>r q'. Scan_createSetupRequest env h p q = Inr (r, q') \<and> (ample env h \<longrightarrow> r = WIFI_SUCCESS env) \<and>
    (0 \<le> r \<longrightarrow> (\<exists>ts. says q' ts \<and>
      leaf_at GSCAN_ATTRIBUTE_BASE_PERIOD (node_at (NL80211_ATTR_VENDOR_DATA env) ts) = Some (v32 (base_period p)) \<and>
      leaf_at GSCAN_ATTRIBUTE_NUM_BUCKETS (node_at (NL80211_ATTR_VENDOR_DATA env) ts) = Some (v32 (num_buckets p)) \<and>
      map read_bucket (nodes (node_at (NL80211_ATTR_VENDOR_DATA env) ts)) = map (bucket_says env) (take (nat (num_buckets p)) (buckets p))))"
proof -
  note g = scan_guarded [OF assms(3), of env]
  obtain r q' where c: "Scan_createSetupRequest env h p q = Inr (r, q')"
    using build_no_stop [OF assms(1,2) g] unfolding Scan_createSetupRequest_def by blast
  moreover have "r = WIFI_SUCCESS env" if "ample env h"
    using build_ample [OF that assms(1) guarded_no_overrun [OF g], of GOOGLE_OUI GSCAN_SUBCMD_SET_CONFIG "\<lambda>r. WIFI_SUCCESS env" q] c
    by (simp add: Scan_createSetupRequest_def)
  ultimately show ?thesis using scan_request_reads [OF assms(1) c] by blast
qed

text \<open>The count of targets of a ranging request is one byte. The request lists every target it was given, and the count
  agrees with the list exactly when there are fewer than 256.\<close>

theorem rtt_target_count:
  assumes "codes_ok env" and "Rtt_createSetupRequest env h n targets q = Inr (r, q')" and "0 \<le> r" and "0 \<le> n"
  shows "\<exists>ts c. says q' ts \<and> leaf_at RTT_ATTRIBUTE_TARGET_CNT (node_at (NL80211_ATTR_VENDOR_DATA env) ts) = Some (V8 c) \<and>
    length (nodes (node_at RTT_ATTRIBUTE_TARGET_INFO (node_at (NL80211_ATTR_VENDOR_DATA env) ts))) = nat n \<and>
    (unat c = nat n \<longleftrightarrow> n < 256)"
proof -
  let ?ts = "vendor_header env GOOGLE_OUI RTT_SUBCMD_SET_CONFIG (mIface q) @ trees_of (rtt_setup_prog env n targets)"
  have "all_checked (rtt_setup_prog env n targets)"
    by (auto simp: rtt_setup_prog_def target_prog_def intro!: for_each_checked)
  from built [OF assms(2) [unfolded Rtt_createSetupRequest_def] assms(1) this assms(3)]
  have s: "says q' ?ts" and o: "no_overrun (for_each n targets target_prog)" by (simp_all add: rtt_setup_prog_def)
  have "n \<le> int (length targets) \<and> nodes (trees_of (for_each n targets target_prog)) =
      map (\<lambda>t. case target_prog 0 t of P_nest c a bs \<Rightarrow> trees_of bs | _ \<Rightarrow> []) (take (nat n) targets)"
    by (rule for_each_nests [OF o]) (auto simp: target_prog_def)
  then have l: "length (nodes (trees_of (for_each n targets target_prog))) = nat n" by auto
  have "unat (word_of_int n :: u8) = nat n \<longleftrightarrow> n < 256"
  proof -
    have "int (unat (word_of_int n :: u8)) = n mod 256" by (simp add: unat_eq_nat_uint uint_word_of_int)
    then show ?thesis using assms(4) by (metis eq_nat_nat_iff mod_pos_pos_trivial nat_int pos_mod_bound pos_mod_sign zero_less_numeral)
  qed
  then show ?thesis
    by (intro exI [of _ ?ts] exI [of _ "word_of_int n"] conjI s) (simp_all add: l rtt_setup_prog_def wifi_consts)
qed

section \<open>A driver that takes everything\<close>

definition roomy :: wifi_env where
  "roomy = \<lparr>x_msg_alloc = (\<lambda>h. True), x_put = (\<lambda>m a v. 0), x_start = (\<lambda>m a. True), x_cb_alloc = (\<lambda>h. True), x_send = (\<lambda>h m. 0),
     x_recv = (\<lambda>h m. [[K_ack]]), x_attrs = (\<lambda>bs. []), x_malloc = (\<lambda>h n. True), x_on = (\<lambda>i. True), sizeof_scan_result = 88,
     sizeof_rtt_result = 200, sizeof_capabilities = 36, sizeof_rtt_capabilities = 8, sizeof_responder = 20, MAX_AP_CACHE_PER_SCAN = 32,
     MAX_PROBE_RESP_IE_LEN = 2048, WIFI_SUCCESS = 0, WIFI_ERROR_OUT_OF_MEMORY = -7, WIFI_ERROR_INVALID_ARGS = -5,
     WIFI_ERROR_UNKNOWN = -1, NL_OK = 0, NL_SKIP = 1, NL_STOP = 2, NL80211_CMD_VENDOR = 103, NL80211_ATTR_VENDOR_ID = 195,
     NL80211_ATTR_VENDOR_SUBCMD = 196, NL80211_ATTR_VENDOR_DATA = 197, NL80211_ATTR_IFINDEX = 3, WIFI_BAND_UNSPECIFIED = 0,
     WIFI_BAND_ABG = 3, WIFI_BAND_ABG_WITH_DFS = 7, MAX_EPNO_NETWORKS = 64, N_AVAIL_ID = 3, MKEEP_ALIVE_IP_PKT_MAX = 256\<rparr>"

lemma roomy_codes: "codes_ok roomy" "room_ok roomy"
  by (simp_all add: codes_ok_def room_ok_def roomy_def)

theorem scan_request_roundtrip_witness:
  "\<exists>q' ts. Scan_createSetupRequest roomy [] \<lparr>base_period = 10, max_ap_per_scan = 1, report_threshold_percent = 1, report_threshold_num_scans = 1,
      num_buckets = 1, buckets = [\<lparr>bucket = 0, period = 30, band = 9, step_count = 0, max_period = 0, report_events = 1, num_channels = 2,
        channels = [2412, 2437]\<rparr>]\<rparr> (WifiRequest_new 20 4) = Inr (0, q') \<and> says q' ts \<and>
     map read_bucket (nodes (node_at 197 ts)) = [(map (\<lambda>x. Some (v32 x)) [0, 30, 3, 0, 0, 1, 2], [v32 2412, v32 2437])]"
proof -
  let ?p = "\<lparr>base_period = 10, max_ap_per_scan = 1, report_threshold_percent = 1, report_threshold_num_scans = 1,
      num_buckets = 1, buckets = [\<lparr>bucket = 0, period = 30, band = 9, step_count = 0, max_period = 0, report_events = 1, num_channels = 2,
        channels = [2412, 2437]\<rparr>]\<rparr>"
  have w: "counts_within ?p" "ample roomy []" by (simp_all add: counts_within_def ample_def roomy_def)
  then obtain q' where "Scan_createSetupRequest roomy [] ?p (WifiRequest_new 20 4) = Inr (WIFI_SUCCESS roomy, q')"
    "\<exists>ts. says q' ts \<and> map read_bucket (nodes (node_at (NL80211_ATTR_VENDOR_DATA roomy) ts)) =
       map (bucket_says roomy) (take (nat (num_buckets ?p)) (buckets ?p))"
    using scan_request_roundtrip [OF roomy_codes w(1), of "[]" "WifiRequest_new 20 4"] roomy_codes(1) unfolding codes_ok_def by fastforce
  then show ?thesis by (auto simp: bucket_says_def valid_band_def roomy_def)
qed

theorem rtt_target_count_witness:
  "\<exists>q' ts c. Rtt_createSetupRequest roomy [] 0 [] (WifiRequest_new 20 4) = Inr (0, q') \<and> says q' ts \<and>
     leaf_at RTT_ATTRIBUTE_TARGET_CNT (node_at (NL80211_ATTR_VENDOR_DATA roomy) ts) = Some (V8 c) \<and> unat c = 0"
proof -
  have "\<exists>q'. Rtt_createSetupRequest roomy [] 0 [] (WifiRequest_new 20 4) = Inr (0, q')"
    by (simp add: Rtt_createSetupRequest_def build_def create_vendor_def create_msg_def put_def destroy_def WifiRequest_new_def
        roomy_def rtt_setup_prog_def for_each_def)
  then obtain q' where q': "Rtt_createSetupRequest roomy [] 0 [] (WifiRequest_new 20 4) = Inr (0, q')" by blast
  show ?thesis using rtt_target_count [OF roomy_codes(1) q'] q' by (fastforce simp: roomy_def)
qed

end
