(* ===== verification/Wifi_Event.thy ===== *)
theory Wifi_Event
  imports Wifi_Requests
begin

text \<open>
  What the commands of the Wi-Fi HAL do with an event, \<^verbatim>\<open>handleEvent\<close> in \<^verbatim>\<open>src/wifi/gscan.cpp\<close>, \<^verbatim>\<open>rtt.cpp\<close> and \<^verbatim>\<open>wifi_hal.cpp\<close>: the driver's
  structures are read from the bytes of the vendor data, as \<^verbatim>\<open>src/wifi/common.h\<close> lays them out on the device, and the framework is told.
  A read behind the vendor data is \<open>Array_overrun\<close>. \<open>x_on\<close> says whether the framework gave a function for the request.
\<close>

section \<open>Reading bytes\<close>

definition field :: "nat \<Rightarrow> nat \<Rightarrow> u8 list \<Rightarrow> u8 list" where
  "field off n bs = take n (drop off bs)"

definition u16_at :: "nat \<Rightarrow> u8 list \<Rightarrow> u16" where "u16_at off bs = word_rcat (rev (field off 2 bs))"
definition u32_at :: "nat \<Rightarrow> u8 list \<Rightarrow> u32" where "u32_at off bs = word_rcat (rev (field off 4 bs))"
definition u64_at :: "nat \<Rightarrow> u8 list \<Rightarrow> u64" where "u64_at off bs = word_rcat (rev (field off 8 bs))"

definition readable :: "nat \<Rightarrow> u8 list \<Rightarrow> (stop + 'a) \<Rightarrow> stop + 'a" where
  "readable n bs k = (if n \<le> length bs then k else Inl Array_overrun)"

text \<open>\<^verbatim>\<open>struct nlattr\<close>: the length, the type, and the payload behind it.\<close>

definition NLA_HDRLEN :: nat where "NLA_HDRLEN = 4"
definition attr_len :: "u8 list \<Rightarrow> nat" where "attr_len d = unat (u16_at 0 d)"
definition attr_type :: "u8 list \<Rightarrow> int" where "attr_type d = uint (u16_at 2 d)"
definition attr_payload :: "u8 list \<Rightarrow> u8 list" where "attr_payload d = drop NLA_HDRLEN d"

definition get_vendor_subcmd :: "wifi_env \<Rightarrow> nl_event \<Rightarrow> int" where
  "get_vendor_subcmd env e = sint (e_u32 e (NL80211_ATTR_VENDOR_SUBCMD env))"

text \<open>A loop over attributes: each turn says whether to go on.\<close>

fun loop :: "('a \<Rightarrow> 's \<Rightarrow> stop + (bool \<times> 's)) \<Rightarrow> 'a list \<Rightarrow> 's \<Rightarrow> stop + 's" where
  "loop f [] s = Inr s"
| "loop f (x # xs) s = (case f x s of Inl e \<Rightarrow> Inl e | Inr (go, s) \<Rightarrow> if go then loop f xs s else Inr s)"

definition tell :: "wifi_env \<Rightarrow> int \<Rightarrow> upcall \<Rightarrow> wifi_call list" where
  "tell env i u = (if x_on env i then [W_upcall i u] else [])"

section \<open>Scan results\<close>

definition sizeof_full_result :: nat where "sizeof_full_result = 104"
definition offsetof_ie_data :: nat where "offsetof_ie_data = 96"
definition sizeof_gscan_result :: nat where "sizeof_gscan_result = 88"

definition convert_to_hal_result :: "u8 list \<Rightarrow> hal_result" where
  "convert_to_hal_result from =
     \<lparr>s_ts = u64_at 0 from, s_ssid = field 8 (DOT11_MAX_SSID_LEN + 1) from, s_bssid = field 41 6 from, s_channel = u32_at 48 from,
      s_rssi = sint (u32_at 52 from), s_rtt = u64_at 56 from, s_rtt_sd = u64_at 64 from, s_beacon_period = u16_at 72 from,
      s_capability = u16_at 74 from, s_ie_length = 0, s_ie_data = []\<rparr>"

text \<open>The length is that of the whole vendor data, and the result starts behind the header of the attribute in it.\<close>

definition wifi_handle_full_scan_event :: "wifi_env \<Rightarrow> wifi_call list \<Rightarrow> int \<Rightarrow> nl_event \<Rightarrow> stop + wifi_call list" where
  "wifi_handle_full_scan_event env h i e =
     (case e_data e of
        None \<Rightarrow> Inr []
      | Some d \<Rightarrow>
          if length d < sizeof_full_result then Inr []
          else if get_vendor_subcmd env e \<noteq> GSCAN_EVENT_FULL_SCAN_RESULTS then Inr []
          else
            let drv_res = attr_payload d; ie_len = min (MAX_PROBE_RESP_IE_LEN env) (unat (u32_at 92 drv_res)) in
            if ie_len + offsetof_ie_data > length d then Inr []
            else if \<not> x_malloc env h 0 then Inr []
            else
              readable (offsetof_ie_data + ie_len) drv_res
                (Inr (tell env i (U_full_result
                   ((convert_to_hal_result drv_res)\<lparr>s_ie_length := ie_len, s_ie_data := field offsetof_ie_data ie_len drv_res\<rparr>)
                   (u32_at 88 drv_res)))))"

definition Scan_handleEvent :: "wifi_env \<Rightarrow> wifi_call list \<Rightarrow> int \<Rightarrow> nl_event \<Rightarrow> stop + wifi_call list" where
  "Scan_handleEvent env h i e =
     (let event_id = get_vendor_subcmd env e in
      if event_id = GSCAN_EVENT_COMPLETE_SCAN \<or> event_id = GSCAN_EVENT_SCAN_RESULTS_AVAILABLE then
        case e_data e of
          None \<Rightarrow> Inr []
        | Some d \<Rightarrow>
            readable 2 d (if attr_len d \<noteq> 8 then Inr [] else readable 8 d (Inr (tell env i (U_scan_event (u32_at 4 d)))))
      else if event_id = GSCAN_EVENT_FULL_SCAN_RESULTS then wifi_handle_full_scan_event env h i e
      else Inr [])"

section \<open>Hotlist, preferred networks, significant changes\<close>

definition MAX_RESULTS :: nat where "MAX_RESULTS = 64"

definition Hotlist_handleEvent :: "wifi_env \<Rightarrow> int \<Rightarrow> nl_event \<Rightarrow> stop + wifi_call list" where
  "Hotlist_handleEvent env i e =
     (case e_data e of
        None \<Rightarrow> Inr []
      | Some d \<Rightarrow>
          if length d = 0 then Inr []
          else
            let num = min MAX_RESULTS (length d div sizeof_scan_result env); n = num * sizeof_scan_result env;
                copied = attr_type d = GSCAN_EVENT_HOTLIST_RESULTS_LOST \<or> attr_type d = GSCAN_EVENT_HOTLIST_RESULTS_FOUND;
                mResults = (if copied then take n (attr_payload d) else replicate n 0);
                event_id = get_vendor_subcmd env e
            in
            readable 4 d
              (readable (if copied then n else 0) (attr_payload d)
                (Inr (if event_id = GSCAN_EVENT_HOTLIST_RESULTS_FOUND then tell env i (U_hotlist_found num mResults)
                      else if event_id = GSCAN_EVENT_HOTLIST_RESULTS_LOST then tell env i (U_hotlist_lost num mResults)
                      else []))))"

definition sizeof_pno_result :: nat where "sizeof_pno_result = 44"
definition PNO_SSID_FOUND :: u16 where "PNO_SSID_FOUND = 1"

definition zero_result :: hal_result where
  "zero_result = \<lparr>s_ts = 0, s_ssid = [], s_bssid = [], s_channel = 0, s_rssi = 0, s_rtt = 0, s_rtt_sd = 0, s_beacon_period = 0,
     s_capability = 0, s_ie_length = 0, s_ie_data = []\<rparr>"

text \<open>The name is copied by the length the driver gives, into an array of 33 bytes.\<close>

definition pno_result :: "u8 list \<Rightarrow> stop + hal_result" where
  "pno_result res =
     (if u16_at 36 res = PNO_SSID_FOUND then
        let ssid_len = unat (res ! 32) in
        if ssid_len > DOT11_MAX_SSID_LEN then Inl Array_overrun
        else Inr (zero_result\<lparr>s_ssid := take ssid_len res @ [0], s_bssid := field 38 6 res, s_channel := ucast (u16_at 34 res),
                    s_rssi := sint (res ! 33)\<rparr>)
      else Inr zero_result)"

definition Epno_handleEvent :: "wifi_env \<Rightarrow> int \<Rightarrow> nl_event \<Rightarrow> stop + wifi_call list" where
  "Epno_handleEvent env i e =
     (case e_data e of
        None \<Rightarrow> Inr []
      | Some d \<Rightarrow>
          if length d = 0 then Inr []
          else
            let num = min (nat (MAX_EPNO_NETWORKS env)) (length d div sizeof_pno_result) in
            case loop (\<lambda>k rs. case pno_result (field (k * sizeof_pno_result) sizeof_pno_result d) of
                         Inl x \<Rightarrow> Inl x | Inr r \<Rightarrow> Inr (True, rs @ [r])) [0..<num] [] of
              Inl x \<Rightarrow> Inl x
            | Inr mResults \<Rightarrow> Inr (tell env i (U_network_found num mResults)))"

definition sizeof_ChangeInfo :: nat where "sizeof_ChangeInfo = 18"

definition change_info :: "u8 list \<Rightarrow> change_result" where
  "change_info ci = \<lparr>g_bssid = field 4 6 ci, g_channel = u16_at 2 ci, g_rssi = map sint (field 10 8 ci)\<rparr>"

text \<open>The function for significant changes is called without a test.\<close>

definition Change_handleEvent :: "wifi_env \<Rightarrow> int \<Rightarrow> nl_event \<Rightarrow> stop + wifi_call list" where
  "Change_handleEvent env i e =
     (case e_data e of
        None \<Rightarrow> Inr []
      | Some d \<Rightarrow>
          if length d = 0 then Inr []
          else
            let num = min (length d div sizeof_ChangeInfo) MAX_RESULTS in
            readable 4 d
              (if attr_type d \<noteq> GSCAN_EVENT_SIGNIFICANT_CHANGE_RESULTS then Inr []
               else
                 readable (num * sizeof_ChangeInfo) (attr_payload d)
                   (if num = 0 then Inr []
                    else if \<not> x_on env i then Inl Null_pointer
                    else
                      Inr [W_upcall i (U_change num
                        (map (\<lambda>k. change_info (field (k * sizeof_ChangeInfo) sizeof_ChangeInfo (attr_payload d))) [0..<num]))])))"

section \<open>Passpoint networks, signal strength\<close>

text \<open>The lengths inside the data are the driver's, and are not compared with that of the data.\<close>

definition Anqpo_handleEvent :: "wifi_env \<Rightarrow> wifi_call list \<Rightarrow> int \<Rightarrow> nl_event \<Rightarrow> stop + wifi_call list" where
  "Anqpo_handleEvent env h i e =
     (case e_data e of
        None \<Rightarrow> Inr []
      | Some d \<Rightarrow>
          if length d < sizeof_scan_result env then Inr []
          else if \<not> x_malloc env h 0 then Inr []
          else
            readable offsetof_ie_data d
              (let anqp = drop (offsetof_ie_data + unat (u32_at 92 d)) d; anqp_len = 8 + unat (u16_at 6 anqp) in
               readable 8 anqp
                 (readable (anqp_len + 4) anqp
                   (Inr (tell env i (U_passpoint (u32_at anqp_len anqp) (convert_to_hal_result d) anqp_len (take anqp_len anqp)))))))"

definition RSSI_MONITOR_EVT_VERSION :: u8 where "RSSI_MONITOR_EVT_VERSION = 1"

definition Rssi_handleEvent :: "wifi_env \<Rightarrow> int \<Rightarrow> nl_event \<Rightarrow> stop + wifi_call list" where
  "Rssi_handleEvent env i e =
     (case e_data e of
        None \<Rightarrow> Inr []
      | Some d \<Rightarrow>
          if length d = 0 then Inr []
          else
            readable 4 d
              (if attr_type d \<noteq> WIFI_EVENT_RSSI_MONITOR then Inr []
               else
                 let data = attr_payload d in
                 readable 8 data
                   (if data ! 0 \<noteq> RSSI_MONITOR_EVT_VERSION then Inr []
                    else Inr (tell env i (U_rssi (field 2 6 data) (sint (data ! 1)))))))"

section \<open>Ranging\<close>

record rtt_state =
  mCompleted :: bool
  currentIdx :: nat
  totalCnt :: nat
  rttResults :: "rtt_slot list"

definition rtt_none :: rtt_state where
  "rtt_none = \<lparr>mCompleted = False, currentIdx = 0, totalCnt = 0, rttResults = []\<rparr>"

definition RTT_MAX_RESULTS :: nat where "RTT_MAX_RESULTS = 1024"
definition DOT11_HDR_LEN :: nat where "DOT11_HDR_LEN = 2"
definition DOT11_MNG_MEASURE_REQUEST_ID :: u8 where "DOT11_MNG_MEASURE_REQUEST_ID = 38"
definition DOT11_MEASURE_TYPE_LCI :: u8 where "DOT11_MEASURE_TYPE_LCI = 8"
definition DOT11_MEASURE_TYPE_CIVICLOC :: u8 where "DOT11_MEASURE_TYPE_CIVICLOC = 11"

text \<open>The location elements behind a result: the size of the result is taken off the length twice.\<close>

definition second_element :: "u8 \<Rightarrow> nat \<Rightarrow> int \<Rightarrow> u8 list \<Rightarrow> stop + nat option" where
  "second_element ty at rest bs =
     (let result_len = rest - int (unat (bs ! (at + 1)) + DOT11_HDR_LEN); ele_2 = at + unat (bs ! (at + 1)) + DOT11_HDR_LEN in
      if result_len > 0 then
        readable (ele_2 + 1) bs
          (if bs ! ele_2 \<noteq> DOT11_MNG_MEASURE_REQUEST_ID then Inr None
           else readable (ele_2 + 5) bs (Inr (if bs ! (ele_2 + 4) = ty then Some ele_2 else None)))
      else Inr None)"

definition rtt_location :: "nat \<Rightarrow> u8 list \<Rightarrow> stop + rtt_slot" where
  "rtt_location sz bs =
     (let none = \<lparr>t_bytes = bs, t_LCI = None, t_LCR = None\<rparr>; rest = int (length bs) - int sz in
      if rest > 0 then
        let rest = rest - int sz in
        if bs ! sz \<noteq> DOT11_MNG_MEASURE_REQUEST_ID then Inr none
        else
          readable (sz + 5) bs
            (if bs ! (sz + 4) = DOT11_MEASURE_TYPE_LCI then
               (case second_element DOT11_MEASURE_TYPE_CIVICLOC sz rest bs of
                  Inl x \<Rightarrow> Inl x | Inr r \<Rightarrow> Inr (none\<lparr>t_LCI := Some sz, t_LCR := r\<rparr>))
             else if bs ! (sz + 4) = DOT11_MEASURE_TYPE_CIVICLOC then
               (case second_element DOT11_MEASURE_TYPE_LCI sz rest bs of
                  Inl x \<Rightarrow> Inl x | Inr r \<Rightarrow> Inr (none\<lparr>t_LCR := Some sz, t_LCI := r\<rparr>))
             else Inr none)
      else Inr none)"

definition rtt_inner :: "wifi_env \<Rightarrow> wifi_call list \<Rightarrow> int \<times> u8 list \<Rightarrow> rtt_state \<Rightarrow> stop + (bool \<times> rtt_state)" where
  "rtt_inner env h = (\<lambda>(t, bs) st.
     if t = RTT_ATTRIBUTE_TARGET_MAC then readable 6 bs (Inr (True, st))
     else if t = RTT_ATTRIBUTE_RESULT_CNT then readable 4 bs (Inr (True, st))
     else if t = RTT_ATTRIBUTE_RESULT then
       if currentIdx st \<ge> RTT_MAX_RESULTS then Inl Array_overrun
       else if \<not> x_malloc env h (currentIdx st) then Inr (False, st\<lparr>mCompleted := True\<rparr>)
       else
         (case rtt_location (sizeof_rtt_result env) bs of
            Inl x \<Rightarrow> Inl x
          | Inr r \<Rightarrow>
              Inr (True, st\<lparr>rttResults := rttResults st @ [r], totalCnt := totalCnt st + 1, currentIdx := currentIdx st + 1\<rparr>))
     else Inr (True, st))"

definition rtt_outer :: "wifi_env \<Rightarrow> wifi_call list \<Rightarrow> int \<times> u8 list \<Rightarrow> rtt_state \<Rightarrow> stop + (bool \<times> rtt_state)" where
  "rtt_outer env h = (\<lambda>(t, bs) st.
     if t = RTT_ATTRIBUTE_RESULTS_COMPLETE then readable 4 bs (Inr (True, st\<lparr>mCompleted := u32_at 0 bs \<noteq> 0\<rparr>))
     else if t = RTT_ATTRIBUTE_RESULTS_PER_TARGET then
       (case loop (rtt_inner env h) (x_attrs env bs) st of Inl x \<Rightarrow> Inl x | Inr st \<Rightarrow> Inr (True, st))
     else Inr (True, st))"

text \<open>The walk over an event's results. The test for missing data only logs.\<close>

definition rtt_results :: "wifi_env \<Rightarrow> wifi_call list \<Rightarrow> nl_event \<Rightarrow> rtt_state \<Rightarrow> stop + rtt_state" where
  "rtt_results env h e st =
     (case e_data e of None \<Rightarrow> Inl Null_pointer | Some d \<Rightarrow> loop (rtt_outer env h) (x_attrs env d) st)"

end
