(* ===== verification/Wifi_Hal.thy ===== *)
theory Wifi_Hal
  imports Wifi_Event
begin

text \<open>
  The core of the Wi-Fi HAL, \<^verbatim>\<open>src/wifi/common.cpp\<close>, \<^verbatim>\<open>cpp_bindings.cpp\<close> and the commands of \<^verbatim>\<open>gscan.cpp\<close>, \<^verbatim>\<open>rtt.cpp\<close> and \<^verbatim>\<open>wifi_hal.cpp\<close>: the tables
  of event handlers and of outstanding commands, the reference-counted command objects, the exchange of a request and
  its response, starting and cancelling, and the dispatch of events.

  \<open>objs\<close> is the heap of command objects: a pointer is a number, and using one that was deleted is \<open>Use_after_free\<close>. Every
  handler the commands register is \<^verbatim>\<open>WifiCommand::event_handler\<close>. \<^verbatim>\<open>new\<close> does not fail.
\<close>

section \<open>State\<close>

record cb_info =
  nl_cmd :: int
  vendor_id :: u32
  vendor_subcmd :: int
  cb_func :: nat
  cb_arg :: nat

record cmd_info =
  ci_id :: int
  ci_cmd :: nat

datatype wclass =
  C_rssi int int
| C_full
| C_scan scan_params
| C_hotlist hotlist_params
| C_epno epno_params
| C_change change_params
| C_anqpo int "passpoint_network list"
| C_rtt int "rtt_config list"

record WifiCommand =
  c_class :: wclass
  mId :: int
  c_iface :: int
  mRefs :: int
  c_rtt :: rtt_state

record hal_info =
  nl80211_family_id :: int
  event_cb :: "cb_info list"
  num_event_cb :: int
  alloc_event_cb :: int
  cmd_tab :: "cmd_info list"
  num_cmd :: int
  alloc_cmd :: int
  objs :: "nat \<rightharpoonup> WifiCommand"
  next_obj :: nat
  wcalls :: "wifi_call list"

section \<open>The tables\<close>

text \<open>\<^verbatim>\<open>memmove(&xs[i], &xs[i+1], (n - i - 1) * sizeof xs[0])\<close>\<close>

definition memmove_down :: "nat \<Rightarrow> nat \<Rightarrow> 'a list \<Rightarrow> 'a list" where
  "memmove_down i n xs = take i xs @ take (n - i - 1) (drop (i + 1) xs) @ drop (n - 1) xs"

definition wifi_register_handler :: "wifi_env \<Rightarrow> int \<Rightarrow> nat \<Rightarrow> nat \<Rightarrow> hal_info \<Rightarrow> int \<times> hal_info" where
  "wifi_register_handler env c func arg s =
     (if num_event_cb s < alloc_event_cb s then
        (WIFI_SUCCESS env,
         s\<lparr>event_cb := (event_cb s)[nat (num_event_cb s) :=
             \<lparr>nl_cmd = c, vendor_id = 0, vendor_subcmd = 0, cb_func = func, cb_arg = arg\<rparr>],
           num_event_cb := num_event_cb s + 1\<rparr>)
      else (WIFI_ERROR_OUT_OF_MEMORY env, s))"

definition wifi_register_vendor_handler :: "wifi_env \<Rightarrow> u32 \<Rightarrow> int \<Rightarrow> nat \<Rightarrow> nat \<Rightarrow> hal_info \<Rightarrow> int \<times> hal_info" where
  "wifi_register_vendor_handler env vid subcmd func arg s =
     (if num_event_cb s < alloc_event_cb s then
        (WIFI_SUCCESS env,
         s\<lparr>event_cb := (event_cb s)[nat (num_event_cb s) :=
             \<lparr>nl_cmd = NL80211_CMD_VENDOR env, vendor_id = vid, vendor_subcmd = subcmd, cb_func = func, cb_arg = arg\<rparr>],
           num_event_cb := num_event_cb s + 1\<rparr>)
      else (WIFI_ERROR_OUT_OF_MEMORY env, s))"

definition remove_cb :: "(cb_info \<Rightarrow> bool) \<Rightarrow> hal_info \<Rightarrow> hal_info" where
  "remove_cb P s =
     (case first_index P (take (nat (num_event_cb s)) (event_cb s)) of
        None \<Rightarrow> s
      | Some i \<Rightarrow> s\<lparr>event_cb := memmove_down i (nat (num_event_cb s)) (event_cb s), num_event_cb := num_event_cb s - 1\<rparr>)"

definition wifi_unregister_handler :: "wifi_env \<Rightarrow> int \<Rightarrow> hal_info \<Rightarrow> hal_info" where
  "wifi_unregister_handler env c s = (if c = NL80211_CMD_VENDOR env then s else remove_cb (\<lambda>b. nl_cmd b = c) s)"

definition wifi_unregister_vendor_handler :: "wifi_env \<Rightarrow> u32 \<Rightarrow> int \<Rightarrow> hal_info \<Rightarrow> hal_info" where
  "wifi_unregister_vendor_handler env vid subcmd =
     remove_cb (\<lambda>b. nl_cmd b = NL80211_CMD_VENDOR env \<and> vendor_id b = vid \<and> vendor_subcmd b = subcmd)"

definition wifi_register_cmd :: "wifi_env \<Rightarrow> int \<Rightarrow> nat \<Rightarrow> hal_info \<Rightarrow> int \<times> hal_info" where
  "wifi_register_cmd env i c s =
     (if num_cmd s < alloc_cmd s then
        (WIFI_SUCCESS env, s\<lparr>cmd_tab := (cmd_tab s)[nat (num_cmd s) := \<lparr>ci_id = i, ci_cmd = c\<rparr>], num_cmd := num_cmd s + 1\<rparr>)
      else (WIFI_ERROR_OUT_OF_MEMORY env, s))"

definition remove_cmd :: "(cmd_info \<Rightarrow> bool) \<Rightarrow> hal_info \<Rightarrow> nat \<times> hal_info" where
  "remove_cmd P s =
     (case first_index P (take (nat (num_cmd s)) (cmd_tab s)) of
        None \<Rightarrow> (null, s)
      | Some i \<Rightarrow> (ci_cmd (cmd_tab s ! i), s\<lparr>cmd_tab := memmove_down i (nat (num_cmd s)) (cmd_tab s), num_cmd := num_cmd s - 1\<rparr>))"

definition wifi_unregister_cmd :: "int \<Rightarrow> hal_info \<Rightarrow> nat \<times> hal_info" where
  "wifi_unregister_cmd i = remove_cmd (\<lambda>c. ci_id c = i)"

definition wifi_get_cmd :: "int \<Rightarrow> hal_info \<Rightarrow> nat" where
  "wifi_get_cmd i s =
     (case first_index (\<lambda>c. ci_id c = i) (take (nat (num_cmd s)) (cmd_tab s)) of None \<Rightarrow> null | Some k \<Rightarrow> ci_cmd (cmd_tab s ! k))"

definition wifi_unregister_cmd_ptr :: "nat \<Rightarrow> hal_info \<Rightarrow> hal_info" where
  "wifi_unregister_cmd_ptr c s = snd (remove_cmd (\<lambda>x. ci_cmd x = c) s)"

section \<open>Command objects\<close>

definition new_cmd :: "wclass \<Rightarrow> int \<Rightarrow> int \<Rightarrow> hal_info \<Rightarrow> nat \<times> hal_info" where
  "new_cmd cls i iface s =
     (next_obj s, s\<lparr>objs := (objs s)(next_obj s \<mapsto> \<lparr>c_class = cls, mId = i, c_iface = iface, mRefs = 1, c_rtt = rtt_none\<rparr>), next_obj := next_obj s + 1\<rparr>)"

definition addRef :: "nat \<Rightarrow> hal_info \<Rightarrow> stop + hal_info" where
  "addRef p s =
     (case objs s p of None \<Rightarrow> Inl Use_after_free | Some c \<Rightarrow> Inr (s\<lparr>objs := (objs s)(p \<mapsto> c\<lparr>mRefs := mRefs c + 1\<rparr>)\<rparr>))"

definition releaseRef :: "nat \<Rightarrow> hal_info \<Rightarrow> stop + hal_info" where
  "releaseRef p s =
     (case objs s p of
        None \<Rightarrow> Inl Use_after_free
      | Some c \<Rightarrow>
          let refs = mRefs c - 1 in
          Inr (s\<lparr>objs := (if refs = 0 then (objs s)(p := None) else (objs s)(p \<mapsto> c\<lparr>mRefs := refs\<rparr>))\<rparr>))"

definition registerVendorHandler :: "wifi_env \<Rightarrow> int \<Rightarrow> nat \<Rightarrow> hal_info \<Rightarrow> hal_info" where
  "registerVendorHandler env subcmd p s = snd (wifi_register_vendor_handler env GOOGLE_OUI subcmd 1 p s)"

definition unregisterVendorHandler :: "wifi_env \<Rightarrow> int \<Rightarrow> hal_info \<Rightarrow> hal_info" where
  "unregisterVendorHandler env subcmd = wifi_unregister_vendor_handler env GOOGLE_OUI subcmd"

section \<open>Request and response\<close>

text \<open>The callbacks that each \<^verbatim>\<open>nl_recvmsgs\<close> makes, until one of them has cleared \<^verbatim>\<open>err\<close>; \<open>None\<close> when none does.\<close>

fun on_cbk :: "nl_cbk \<Rightarrow> int \<times> nl_event list \<Rightarrow> int \<times> nl_event list" where
  "on_cbk K_ack (err, evs) = (0, evs)"
| "on_cbk K_finish (err, evs) = (0, evs)"
| "on_cbk (K_error e) (err, evs) = (e, evs)"
| "on_cbk (K_valid m) (err, evs) = (err, evs @ [m])"

fun recv_loop :: "nl_cbk list list \<Rightarrow> int \<times> nl_event list \<Rightarrow> (int \<times> nl_event list) option" where
  "recv_loop bs (err, evs) =
     (if err \<le> 0 then Some (err, evs) else case bs of [] \<Rightarrow> None | b # bs \<Rightarrow> recv_loop bs (fold on_cbk b (err, evs)))"

text \<open>A callback set that cannot be allocated gives the result 0. The replies that are valid go to \<^verbatim>\<open>handleResponse\<close>.\<close>

definition requestResponse :: "wifi_env \<Rightarrow> WifiRequest \<Rightarrow> hal_info \<Rightarrow> stop + (int \<times> nl_event list \<times> hal_info)" where
  "requestResponse env q s =
     (if \<not> x_cb_alloc env (wcalls s) then Inr (0, [], s)
      else
        case mMsg q of
          None \<Rightarrow> Inl Null_pointer
        | Some m \<Rightarrow>
            let err = x_send env (wcalls s) m; bs = x_recv env (wcalls s) m; s = s\<lparr>wcalls := wcalls s @ [W_sent m]\<rparr> in
            if err < 0 then Inr (err, [], s)
            else case recv_loop bs (1, []) of None \<Rightarrow> Inl Hang | Some (err, evs) \<Rightarrow> Inr (err, evs, s))"

text \<open>Assemble a request, return if that failed, do \<open>pre\<close>, send it. The flag says whether it was sent.\<close>

definition ask :: "wifi_env \<Rightarrow> int \<Rightarrow> (int \<Rightarrow> bool) \<Rightarrow> (WifiRequest \<Rightarrow> stop + (int \<times> WifiRequest)) \<Rightarrow> (hal_info \<Rightarrow> hal_info) \<Rightarrow> hal_info \<Rightarrow>
    stop + (bool \<times> int \<times> hal_info)" where
  "ask env iface bad bld pre s =
     (case bld (WifiRequest_new (nl80211_family_id s) iface) of
        Inl e \<Rightarrow> Inl e
      | Inr (r, q) \<Rightarrow>
          if bad r then Inr (False, r, s)
          else case requestResponse env q (pre s) of Inl e \<Rightarrow> Inl e | Inr (r, evs, s) \<Rightarrow> Inr (True, r, s))"

section \<open>Starting\<close>

definition Rssi_start :: "wifi_env \<Rightarrow> nat \<Rightarrow> int \<Rightarrow> int \<Rightarrow> int \<Rightarrow> hal_info \<Rightarrow> stop + (int \<times> hal_info)" where
  "Rssi_start env p iface mx mn s =
     (case ask env iface (\<lambda>r. r < 0) (Rssi_createRequest env (wcalls s) mx mn 1) (\<lambda>s. s) s of
        Inl e \<Rightarrow> Inl e
      | Inr (sent, r, s) \<Rightarrow> if r < 0 then Inr (r, s) else Inr (r, registerVendorHandler env WIFI_EVENT_RSSI_MONITOR p s))"

definition Full_start :: "wifi_env \<Rightarrow> nat \<Rightarrow> int \<Rightarrow> hal_info \<Rightarrow> stop + (int \<times> hal_info)" where
  "Full_start env p iface s =
     (case ask env iface (\<lambda>r. r \<noteq> WIFI_SUCCESS env) (Full_createRequest env (wcalls s) GSCAN_SUBCMD_ENABLE_FULL_SCAN_RESULTS 1)
         (registerVendorHandler env GSCAN_EVENT_FULL_SCAN_RESULTS p) s of
        Inl e \<Rightarrow> Inl e
      | Inr (sent, r, s) \<Rightarrow>
          if sent \<and> r \<noteq> WIFI_SUCCESS env then Inr (r, unregisterVendorHandler env GSCAN_EVENT_FULL_SCAN_RESULTS s) else Inr (r, s))"

definition Scan_start :: "wifi_env \<Rightarrow> nat \<Rightarrow> int \<Rightarrow> scan_params \<Rightarrow> hal_info \<Rightarrow> stop + (int \<times> hal_info)" where
  "Scan_start env p iface mParams s =
     (case ask env iface (\<lambda>r. r \<noteq> WIFI_SUCCESS env) (Scan_createSetupRequest env (wcalls s) mParams) (\<lambda>s. s) s of
        Inl e \<Rightarrow> Inl e
      | Inr (sent, r, s) \<Rightarrow>
          if r \<noteq> WIFI_SUCCESS env then Inr (r, s)
          else
            case ask env iface (\<lambda>r. r \<noteq> WIFI_SUCCESS env) (Scan_createScanConfigRequest env (wcalls s) mParams) (\<lambda>s. s) s of
              Inl e \<Rightarrow> Inl e
            | Inr (sent, r, s) \<Rightarrow>
                if r \<noteq> WIFI_SUCCESS env then Inr (r, s)
                else
                  case ask env iface (\<lambda>r. r \<noteq> WIFI_SUCCESS env) (Scan_createStartRequest env (wcalls s))
                      (\<lambda>s. registerVendorHandler env GSCAN_EVENT_FULL_SCAN_RESULTS p
                         (registerVendorHandler env GSCAN_EVENT_COMPLETE_SCAN p
                           (registerVendorHandler env GSCAN_EVENT_SCAN_RESULTS_AVAILABLE p s))) s of
                    Inl e \<Rightarrow> Inl e
                  | Inr (sent, r, s) \<Rightarrow>
                      if sent \<and> r \<noteq> WIFI_SUCCESS env then
                        Inr (r, unregisterVendorHandler env GSCAN_EVENT_FULL_SCAN_RESULTS
                                  (unregisterVendorHandler env GSCAN_EVENT_SCAN_RESULTS_AVAILABLE
                                    (unregisterVendorHandler env GSCAN_EVENT_COMPLETE_SCAN s)))
                      else Inr (r, s))"

definition drop_hotlist :: "wifi_env \<Rightarrow> hal_info \<Rightarrow> hal_info" where
  "drop_hotlist env s =
     unregisterVendorHandler env GSCAN_EVENT_HOTLIST_RESULTS_LOST (unregisterVendorHandler env GSCAN_EVENT_HOTLIST_RESULTS_FOUND s)"

definition Hotlist_start :: "wifi_env \<Rightarrow> nat \<Rightarrow> int \<Rightarrow> hotlist_params \<Rightarrow> hal_info \<Rightarrow> stop + (int \<times> hal_info)" where
  "Hotlist_start env p iface mParams s =
     (case ask env iface (\<lambda>r. r < 0) (Hotlist_createSetupRequest env (wcalls s) mParams) (\<lambda>s. s) s of
        Inl e \<Rightarrow> Inl e
      | Inr (sent, r, s) \<Rightarrow>
          if r < 0 then Inr (r, if sent then drop_hotlist env s else s)
          else
            case ask env iface (\<lambda>r. r < 0) (createFeatureRequest env (wcalls s) GSCAN_SUBCMD_ENABLE_GSCAN 1)
                (\<lambda>s. registerVendorHandler env GSCAN_EVENT_HOTLIST_RESULTS_LOST p
                   (registerVendorHandler env GSCAN_EVENT_HOTLIST_RESULTS_FOUND p s)) s of
              Inl e \<Rightarrow> Inl e
            | Inr (sent, r, s) \<Rightarrow> Inr (r, if sent \<and> r < 0 then drop_hotlist env s else s))"

definition Epno_start :: "wifi_env \<Rightarrow> nat \<Rightarrow> int \<Rightarrow> epno_params \<Rightarrow> hal_info \<Rightarrow> stop + (int \<times> hal_info)" where
  "Epno_start env p iface ps s =
     (case ask env iface (\<lambda>r. r < 0) (Epno_createSetupRequest env (wcalls s) ps) (\<lambda>s. s) s of
        Inl e \<Rightarrow> Inl e
      | Inr (sent, r, s) \<Rightarrow>
          if r < 0 then Inr (r, if sent then unregisterVendorHandler env GSCAN_EVENT_EPNO_EVENT s else s)
          else Inr (r, registerVendorHandler env GSCAN_EVENT_EPNO_EVENT p s))"

definition Change_start :: "wifi_env \<Rightarrow> nat \<Rightarrow> int \<Rightarrow> change_params \<Rightarrow> hal_info \<Rightarrow> stop + (int \<times> hal_info)" where
  "Change_start env p iface ps s =
     (case ask env iface (\<lambda>r. r < 0) (Change_createSetupRequest env (wcalls s) ps) (\<lambda>s. s) s of
        Inl e \<Rightarrow> Inl e
      | Inr (sent, r, s) \<Rightarrow>
          if r < 0 then Inr (r, s)
          else
            case ask env iface (\<lambda>r. r < 0) (createFeatureRequest env (wcalls s) GSCAN_SUBCMD_ENABLE_GSCAN 1)
                (registerVendorHandler env GSCAN_EVENT_SIGNIFICANT_CHANGE_RESULTS p) s of
              Inl e \<Rightarrow> Inl e
            | Inr (sent, r, s) \<Rightarrow>
                Inr (r, if sent \<and> r < 0 then unregisterVendorHandler env GSCAN_EVENT_SIGNIFICANT_CHANGE_RESULTS s else s))"

definition Anqpo_start :: "wifi_env \<Rightarrow> nat \<Rightarrow> int \<Rightarrow> int \<Rightarrow> passpoint_network list \<Rightarrow> hal_info \<Rightarrow> stop + (int \<times> hal_info)" where
  "Anqpo_start env p iface num_hs ns s =
     (case ask env iface (\<lambda>r. r \<noteq> WIFI_SUCCESS env) (Anqpo_createRequest env (wcalls s) num_hs ns)
         (registerVendorHandler env GSCAN_EVENT_ANQPO_HOTSPOT_MATCH p) s of
        Inl e \<Rightarrow> Inl e
      | Inr (sent, r, s) \<Rightarrow>
          Inr (r, if sent \<and> r \<noteq> WIFI_SUCCESS env then unregisterVendorHandler env GSCAN_EVENT_ANQPO_HOTSPOT_MATCH s else s))"

definition Rtt_start :: "wifi_env \<Rightarrow> nat \<Rightarrow> int \<Rightarrow> int \<Rightarrow> rtt_config list \<Rightarrow> hal_info \<Rightarrow> stop + (int \<times> hal_info)" where
  "Rtt_start env p iface n ps s =
     (case ask env iface (\<lambda>r. r \<noteq> WIFI_SUCCESS env) (Rtt_createSetupRequest env (wcalls s) n ps) (\<lambda>s. s) s of
        Inl e \<Rightarrow> Inl e
      | Inr (sent, r, s) \<Rightarrow>
          if r \<noteq> WIFI_SUCCESS env then Inr (r, s) else Inr (r, registerVendorHandler env RTT_EVENT_COMPLETE p s))"

fun start :: "wifi_env \<Rightarrow> nat \<Rightarrow> int \<Rightarrow> wclass \<Rightarrow> hal_info \<Rightarrow> stop + (int \<times> hal_info)" where
  "start env p iface (C_rssi mx mn) s = Rssi_start env p iface mx mn s"
| "start env p iface C_full s = Full_start env p iface s"
| "start env p iface (C_scan ps) s = Scan_start env p iface ps s"
| "start env p iface (C_hotlist ps) s = Hotlist_start env p iface ps s"
| "start env p iface (C_epno ps) s = Epno_start env p iface ps s"
| "start env p iface (C_change ps) s = Change_start env p iface ps s"
| "start env p iface (C_anqpo n ps) s = Anqpo_start env p iface n ps s"
| "start env p iface (C_rtt n ps) s = Rtt_start env p iface n ps s"

section \<open>Cancelling\<close>

text \<open>The commands that send first and drop their handlers in any case, and those that drop their handlers first.\<close>

definition send_then :: "wifi_env \<Rightarrow> int \<Rightarrow> (WifiRequest \<Rightarrow> stop + (int \<times> WifiRequest)) \<Rightarrow> (hal_info \<Rightarrow> hal_info) \<Rightarrow> hal_info \<Rightarrow>
    stop + (int \<times> hal_info)" where
  "send_then env iface bld drop_handlers s =
     (case ask env iface (\<lambda>r. r \<noteq> WIFI_SUCCESS env) bld (\<lambda>s. s) s of
        Inl e \<Rightarrow> Inl e
      | Inr (sent, r, s) \<Rightarrow> Inr (WIFI_SUCCESS env, drop_handlers s))"

definition then_send :: "wifi_env \<Rightarrow> int \<Rightarrow> (WifiRequest \<Rightarrow> stop + (int \<times> WifiRequest)) \<Rightarrow> hal_info \<Rightarrow> stop + (int \<times> hal_info)" where
  "then_send env iface bld s =
     (case ask env iface (\<lambda>r. r < 0) bld (\<lambda>s. s) s of Inl e \<Rightarrow> Inl e | Inr (sent, r, s) \<Rightarrow> Inr (r, s))"

definition drop_scan :: "wifi_env \<Rightarrow> hal_info \<Rightarrow> hal_info" where
  "drop_scan env s =
     unregisterVendorHandler env GSCAN_EVENT_FULL_SCAN_RESULTS
       (unregisterVendorHandler env GSCAN_EVENT_SCAN_RESULTS_AVAILABLE (unregisterVendorHandler env GSCAN_EVENT_COMPLETE_SCAN s))"

definition Rssi_cancel :: "wifi_env \<Rightarrow> int \<Rightarrow> int \<Rightarrow> int \<Rightarrow> hal_info \<Rightarrow> stop + (int \<times> hal_info)" where
  "Rssi_cancel env iface mx mn s =
     send_then env iface (Rssi_createRequest env (wcalls s) mx mn 0) (unregisterVendorHandler env WIFI_EVENT_RSSI_MONITOR) s"

definition Full_cancel :: "wifi_env \<Rightarrow> int \<Rightarrow> hal_info \<Rightarrow> stop + (int \<times> hal_info)" where
  "Full_cancel env iface s =
     send_then env iface (Full_createRequest env (wcalls s) GSCAN_SUBCMD_ENABLE_FULL_SCAN_RESULTS 0)
       (unregisterVendorHandler env GSCAN_EVENT_FULL_SCAN_RESULTS) s"

definition Scan_cancel :: "wifi_env \<Rightarrow> int \<Rightarrow> hal_info \<Rightarrow> stop + (int \<times> hal_info)" where
  "Scan_cancel env iface s = send_then env iface (Scan_createStopRequest env (wcalls s)) (drop_scan env) s"

definition Hotlist_cancel :: "wifi_env \<Rightarrow> int \<Rightarrow> hal_info \<Rightarrow> stop + (int \<times> hal_info)" where
  "Hotlist_cancel env iface s =
     (let s = drop_hotlist env s in then_send env iface (Hotlist_createTeardownRequest env (wcalls s)) s)"

definition Epno_cancel :: "wifi_env \<Rightarrow> int \<Rightarrow> hal_info \<Rightarrow> stop + (int \<times> hal_info)" where
  "Epno_cancel env iface s =
     (let s = unregisterVendorHandler env GSCAN_EVENT_EPNO_EVENT s in then_send env iface (Epno_createTeardownRequest env (wcalls s)) s)"

definition Change_cancel :: "wifi_env \<Rightarrow> int \<Rightarrow> hal_info \<Rightarrow> stop + (int \<times> hal_info)" where
  "Change_cancel env iface s =
     (let s = unregisterVendorHandler env GSCAN_EVENT_SIGNIFICANT_CHANGE_RESULTS s in
      then_send env iface (Change_createTeardownRequest env (wcalls s)) s)"

definition Anqpo_cancel :: "wifi_env \<Rightarrow> int \<Rightarrow> int \<Rightarrow> passpoint_network list \<Rightarrow> hal_info \<Rightarrow> stop + (int \<times> hal_info)" where
  "Anqpo_cancel env iface n ps s =
     send_then env iface (Anqpo_createRequest env (wcalls s) n ps) (unregisterVendorHandler env GSCAN_EVENT_ANQPO_HOTSPOT_MATCH) s"

definition Rtt_cancel :: "wifi_env \<Rightarrow> int \<Rightarrow> hal_info \<Rightarrow> stop + (int \<times> hal_info)" where
  "Rtt_cancel env iface s =
     send_then env iface (Rtt_createTeardownRequest env (wcalls s) 0 []) (unregisterVendorHandler env RTT_EVENT_COMPLETE) s"

fun cancel :: "wifi_env \<Rightarrow> int \<Rightarrow> wclass \<Rightarrow> hal_info \<Rightarrow> stop + (int \<times> hal_info)" where
  "cancel env iface (C_rssi mx mn) s = Rssi_cancel env iface mx mn s"
| "cancel env iface C_full s = Full_cancel env iface s"
| "cancel env iface (C_scan ps) s = Scan_cancel env iface s"
| "cancel env iface (C_hotlist ps) s = Hotlist_cancel env iface s"
| "cancel env iface (C_epno ps) s = Epno_cancel env iface s"
| "cancel env iface (C_change ps) s = Change_cancel env iface s"
| "cancel env iface (C_anqpo n ps) s = Anqpo_cancel env iface n ps s"
| "cancel env iface (C_rtt n ps) s = Rtt_cancel env iface s"

lemmas cancels = Rssi_cancel_def Full_cancel_def Scan_cancel_def Hotlist_cancel_def Epno_cancel_def Change_cancel_def Anqpo_cancel_def
  Rtt_cancel_def

definition cancel_specific :: "wifi_env \<Rightarrow> int \<Rightarrow> int \<Rightarrow> u8 list list \<Rightarrow> hal_info \<Rightarrow> stop + (int \<times> hal_info)" where
  "cancel_specific env iface num_devices addr s =
     send_then env iface (Rtt_createTeardownRequest env (wcalls s) num_devices addr) (unregisterVendorHandler env RTT_EVENT_COMPLETE) s"

section \<open>The calls of the framework\<close>

definition release_with :: "nat \<Rightarrow> int \<Rightarrow> hal_info \<Rightarrow> stop + (int \<times> hal_info)" where
  "release_with p r s = (case releaseRef p s of Inl e \<Rightarrow> Inl e | Inr s \<Rightarrow> Inr (r, s))"

text \<open>The eight calls that start a command have this body, each with its own class.\<close>

definition wifi_start :: "wifi_env \<Rightarrow> wclass \<Rightarrow> int \<Rightarrow> int \<Rightarrow> hal_info \<Rightarrow> stop + (int \<times> hal_info)" where
  "wifi_start env cls i iface s =
     (let (p, s) = new_cmd cls i iface s; (r, s) = wifi_register_cmd env i p s in
      if r \<noteq> WIFI_SUCCESS env then release_with p r s
      else
        case start env p iface cls s of
          Inl e \<Rightarrow> Inl e
        | Inr (r, s) \<Rightarrow> if r \<noteq> WIFI_SUCCESS env then release_with p r (snd (wifi_unregister_cmd i s)) else Inr (r, s))"

definition zero_epno :: epno_params where
  "zero_epno = \<lparr>min5GHz_rssi = 0, min24GHz_rssi = 0, initial_score_max = 0, current_connection_bonus = 0, same_network_bonus = 0,
     secure_bonus = 0, band5GHz_bonus = 0, num_networks = 0, networks = []\<rparr>"

definition wifi_start_gscan where "wifi_start_gscan env i iface params = wifi_start env (C_scan params) i iface"
definition wifi_enable_full_scan_results where "wifi_enable_full_scan_results env i iface = wifi_start env C_full i iface"
definition wifi_set_bssid_hotlist where "wifi_set_bssid_hotlist env i iface params = wifi_start env (C_hotlist params) i iface"
definition wifi_set_significant_change_handler where
  "wifi_set_significant_change_handler env i iface params = wifi_start env (C_change params) i iface"
definition wifi_set_epno_list where
  "wifi_set_epno_list env i iface params = wifi_start env (C_epno (case params of None \<Rightarrow> zero_epno | Some p \<Rightarrow> p)) i iface"
definition wifi_set_passpoint_list where "wifi_set_passpoint_list env i iface num ns = wifi_start env (C_anqpo num ns) i iface"
definition wifi_rtt_range_request where "wifi_rtt_range_request env i iface n cfg = wifi_start env (C_rtt n cfg) i iface"
definition wifi_start_rssi_monitoring where "wifi_start_rssi_monitoring env i iface mx mn = wifi_start env (C_rssi mx mn) i iface"

definition cancel_obj :: "wifi_env \<Rightarrow> nat \<Rightarrow> hal_info \<Rightarrow> stop + (int \<times> hal_info)" where
  "cancel_obj env p s = (case objs s p of None \<Rightarrow> Inl Use_after_free | Some c \<Rightarrow> cancel env (c_iface c) (c_class c) s)"

definition wifi_cancel_cmd :: "wifi_env \<Rightarrow> int \<Rightarrow> hal_info \<Rightarrow> stop + (int \<times> hal_info)" where
  "wifi_cancel_cmd env i s =
     (let (p, s) = wifi_unregister_cmd i s in
      if p \<noteq> null then
        case cancel_obj env p s of Inl e \<Rightarrow> Inl e | Inr (r, s) \<Rightarrow> release_with p (WIFI_SUCCESS env) s
      else Inr (WIFI_ERROR_INVALID_ARGS env, s))"

definition wifi_reset_bssid_hotlist where "wifi_reset_bssid_hotlist env i iface = wifi_cancel_cmd env i"
definition wifi_reset_significant_change_handler where "wifi_reset_significant_change_handler env i iface = wifi_cancel_cmd env i"
definition wifi_reset_passpoint_list where "wifi_reset_passpoint_list env i iface = wifi_cancel_cmd env i"

text \<open>The request id -1 stops whatever runs: by a command made for the purpose.\<close>

definition cancel_temp :: "wifi_env \<Rightarrow> wclass \<Rightarrow> int \<Rightarrow> int \<Rightarrow> hal_info \<Rightarrow> stop + (int \<times> hal_info)" where
  "cancel_temp env cls i iface s =
     (let (p, s) = new_cmd cls i iface s in
      case cancel env iface cls s of Inl e \<Rightarrow> Inl e | Inr (r, s) \<Rightarrow> release_with p (WIFI_SUCCESS env) s)"

definition wifi_stop_gscan :: "wifi_env \<Rightarrow> scan_params \<Rightarrow> int \<Rightarrow> int \<Rightarrow> hal_info \<Rightarrow> stop + (int \<times> hal_info)" where
  "wifi_stop_gscan env dummy_params i iface s =
     (if i = -1 then cancel_temp env (C_scan dummy_params) i iface s else wifi_cancel_cmd env i s)"

definition wifi_disable_full_scan_results :: "wifi_env \<Rightarrow> int \<Rightarrow> int \<Rightarrow> hal_info \<Rightarrow> stop + (int \<times> hal_info)" where
  "wifi_disable_full_scan_results env i iface s = (if i = -1 then cancel_temp env C_full 0 iface s else wifi_cancel_cmd env i s)"

definition wifi_reset_epno_list :: "wifi_env \<Rightarrow> int \<Rightarrow> int \<Rightarrow> hal_info \<Rightarrow> stop + (int \<times> hal_info)" where
  "wifi_reset_epno_list env i iface s = (if i = -1 then cancel_temp env (C_epno zero_epno) i iface s else wifi_cancel_cmd env i s)"

definition wifi_stop_rssi_monitoring :: "wifi_env \<Rightarrow> int \<Rightarrow> int \<Rightarrow> hal_info \<Rightarrow> stop + (int \<times> hal_info)" where
  "wifi_stop_rssi_monitoring env i iface s = (if i = -1 then cancel_temp env (C_rssi 0 0) i iface s else wifi_cancel_cmd env i s)"

definition wifi_rtt_range_cancel :: "wifi_env \<Rightarrow> int \<Rightarrow> int \<Rightarrow> int \<Rightarrow> u8 list list \<Rightarrow> hal_info \<Rightarrow> stop + (int \<times> hal_info)" where
  "wifi_rtt_range_cancel env i iface num_devices addr s =
     (let (p, s) = new_cmd (C_rtt 0 []) i iface s in
      case cancel_specific env iface num_devices addr s of Inl e \<Rightarrow> Inl e | Inr (r, s) \<Rightarrow> release_with p (WIFI_SUCCESS env) s)"

section \<open>Events\<close>

text \<open>The lock section of \<^verbatim>\<open>internal_valid_message_handler\<close>: the first handler that matches, and a reference to its command.\<close>

definition matches :: "wifi_env \<Rightarrow> nl_event \<Rightarrow> cb_info \<Rightarrow> bool" where
  "matches env e b \<longleftrightarrow> e_cmd e = nl_cmd b \<and>
     \<not> (e_cmd e = NL80211_CMD_VENDOR env \<and>
        (e_u32 e (NL80211_ATTR_VENDOR_ID env) \<noteq> vendor_id b \<or> sint (e_u32 e (NL80211_ATTR_VENDOR_SUBCMD env)) \<noteq> vendor_subcmd b))"

definition dispatch_enter :: "wifi_env \<Rightarrow> nl_event \<Rightarrow> hal_info \<Rightarrow> stop + (cb_info option \<times> hal_info)" where
  "dispatch_enter env e s =
     (if e_parse e < 0 then Inr (None, s)
      else
        case first_index (matches env e) (take (nat (num_event_cb s)) (event_cb s)) of
          None \<Rightarrow> Inr (None, s)
        | Some i \<Rightarrow>
            let b = event_cb s ! i in
            if cb_arg b = null then Inr (Some b, s)
            else case addRef (cb_arg b) s of Inl e \<Rightarrow> Inl e | Inr s \<Rightarrow> Inr (Some b, s))"

text \<open>A ranging command that has got its last results tells the framework and leaves the tables by itself; the others only tell.\<close>

definition rtt_finish :: "wifi_env \<Rightarrow> nat \<Rightarrow> WifiCommand \<Rightarrow> hal_info \<Rightarrow> stop + hal_info" where
  "rtt_finish env p c s =
     (let s = unregisterVendorHandler env RTT_EVENT_COMPLETE s in
      if \<not> x_on env (mId c) then Inl Null_pointer
      else
        let s = s\<lparr>wcalls := wcalls s @ [W_upcall (mId c) (U_rtt (totalCnt (c_rtt c)) (rttResults (c_rtt c)))],
                  objs := (objs s)(p \<mapsto> c\<lparr>c_rtt := (c_rtt c)\<lparr>rttResults := [], totalCnt := 0, currentIdx := 0\<rparr>\<rparr>)\<rparr>;
            (q, s) = wifi_unregister_cmd (mId c) s
        in if q \<noteq> null then releaseRef q s else Inr s)"

definition Rtt_handleEvent :: "wifi_env \<Rightarrow> nat \<Rightarrow> WifiCommand \<Rightarrow> nl_event \<Rightarrow> hal_info \<Rightarrow> stop + hal_info" where
  "Rtt_handleEvent env p c e s =
     (case rtt_results env (wcalls s) e (c_rtt c) of
        Inl x \<Rightarrow> Inl x
      | Inr st \<Rightarrow>
          let c = c\<lparr>c_rtt := st\<rparr> in
          if mCompleted st then rtt_finish env p c s else Inr (s\<lparr>objs := (objs s)(p \<mapsto> c)\<rparr>))"

fun told :: "wifi_env \<Rightarrow> wifi_call list \<Rightarrow> int \<Rightarrow> nl_event \<Rightarrow> wclass \<Rightarrow> stop + wifi_call list" where
  "told env h i e (C_rssi mx mn) = Rssi_handleEvent env i e"
| "told env h i e C_full = wifi_handle_full_scan_event env h i e"
| "told env h i e (C_scan ps) = Scan_handleEvent env h i e"
| "told env h i e (C_hotlist ps) = Hotlist_handleEvent env i e"
| "told env h i e (C_epno ps) = Epno_handleEvent env i e"
| "told env h i e (C_change ps) = Change_handleEvent env i e"
| "told env h i e (C_anqpo n ps) = Anqpo_handleEvent env h i e"
| "told env h i e (C_rtt n ps) = Inr []"

definition handleEvent :: "wifi_env \<Rightarrow> nat \<Rightarrow> nl_event \<Rightarrow> hal_info \<Rightarrow> stop + hal_info" where
  "handleEvent env p e s =
     (case objs s p of
        None \<Rightarrow> Inl Use_after_free
      | Some c \<Rightarrow>
          (case c_class c of
             C_rtt n ps \<Rightarrow> Rtt_handleEvent env p c e s
           | cls \<Rightarrow>
               (case told env (wcalls s) (mId c) e cls of
                  Inl x \<Rightarrow> Inl x | Inr us \<Rightarrow> Inr (s\<lparr>wcalls := wcalls s @ us\<rparr>))))"

definition event_handler :: "wifi_env \<Rightarrow> nat \<Rightarrow> nl_event \<Rightarrow> hal_info \<Rightarrow> stop + hal_info" where
  "event_handler env p e s =
     (case (if e_parse e < 0 then Inr s else handleEvent env p e s) of
        Inl x \<Rightarrow> Inl x
      | Inr s \<Rightarrow> (case objs s p of None \<Rightarrow> Inl Use_after_free | Some c \<Rightarrow> Inr (s\<lparr>wcalls := wcalls s @ [W_signal p]\<rparr>)))"

definition dispatch_body :: "wifi_env \<Rightarrow> cb_info \<Rightarrow> nl_event \<Rightarrow> hal_info \<Rightarrow> stop + hal_info" where
  "dispatch_body env b e s = (if cb_func b \<noteq> null then event_handler env (cb_arg b) e s else Inr s)"

definition dispatch_leave :: "cb_info \<Rightarrow> hal_info \<Rightarrow> stop + hal_info" where
  "dispatch_leave b s = (if cb_arg b \<noteq> null then releaseRef (cb_arg b) s else Inr s)"

definition internal_valid_message_handler :: "wifi_env \<Rightarrow> nl_event \<Rightarrow> hal_info \<Rightarrow> stop + (int \<times> hal_info)" where
  "internal_valid_message_handler env e s =
     (case dispatch_enter env e s of
        Inl x \<Rightarrow> Inl x
      | Inr (None, s) \<Rightarrow> Inr (if e_parse e < 0 then NL_SKIP env else NL_OK env, s)
      | Inr (Some b, s) \<Rightarrow>
          (case dispatch_body env b e s of
             Inl x \<Rightarrow> Inl x
           | Inr s \<Rightarrow> (case dispatch_leave b s of Inl x \<Rightarrow> Inl x | Inr s \<Rightarrow> Inr (NL_OK env, s))))"

end
