(* ===== verification/Wifi_Init.thy ===== *)
theory Wifi_Init
  imports Wifi_Hal
begin

text \<open>
  Starting and stopping the Wi-Fi HAL, \<^verbatim>\<open>src/wifi/wifi_hal.cpp\<close>: the interfaces, \<^verbatim>\<open>wifi_initialize\<close> with what it has acquired at each return,
  and the loop of \<^verbatim>\<open>wifi_cleanup\<close> that cancels what is outstanding. What the system answers is a field of \<open>init_env\<close>.
\<close>

section \<open>Interfaces\<close>

definition is_wifi_interface :: "string \<Rightarrow> bool" where
  "is_wifi_interface name \<longleftrightarrow> take 4 name = ''wlan'' \<or> take 3 name = ''p2p''"

record interface_info =
  if_name :: string
  if_id :: int

definition get_interface :: "(string \<Rightarrow> int) \<Rightarrow> string \<Rightarrow> interface_info" where
  "get_interface if_nametoindex name = \<lparr>if_name = take 8 name, if_id = if_nametoindex name\<rparr>"

record init_env =
  i_info :: bool
  i_socketpair :: bool
  i_cmd_sock :: bool
  i_event_sock :: bool
  i_event_cb_set :: bool
  i_event_cb :: "(nat \<Rightarrow> cb_info) option"
  i_cmd :: "(nat \<Rightarrow> cmd_info) option"
  i_family :: int
  i_dir1 :: "string list option"
  i_dir2 :: "string list option"
  i_ifaces :: bool
  i_ifinfo :: "nat \<Rightarrow> bool"
  i_index :: "string \<Rightarrow> int"
  i_multicast :: "string \<Rightarrow> int"
  i_membership :: "int \<Rightarrow> int"
  WIFI_ERROR_NOT_AVAILABLE :: int

definition listed :: "string list \<Rightarrow> string list" where
  "listed d = filter is_wifi_interface (filter (\<lambda>n. take 1 n \<noteq> ''.'') d)"

text \<open>The directory is read twice: the first reading gives the size of the array, the second one fills it. Entries that the second
  reading does not fill are left as \<^verbatim>\<open>malloc\<close> gave them (\<open>None\<close>).\<close>

fun fill :: "init_env \<Rightarrow> nat \<Rightarrow> string list \<Rightarrow> interface_info option list \<Rightarrow> stop + interface_info option list" where
  "fill ie i [] a = Inr a"
| "fill ie i (n # ns) a =
     (if \<not> i_ifinfo ie i then Inl Null_pointer
      else if i < length a then fill ie (i + 1) ns (a[i := Some (get_interface (i_index ie) n)])
      else Inl Array_overrun)"

definition wifi_init_interfaces :: "wifi_env \<Rightarrow> init_env \<Rightarrow> stop + (int \<times> interface_info option list)" where
  "wifi_init_interfaces env ie =
     (case i_dir1 ie of
        None \<Rightarrow> Inr (WIFI_ERROR_UNKNOWN env, [])
      | Some d \<Rightarrow>
          let n = length (listed d) in
          if n = 0 then Inr (WIFI_ERROR_NOT_AVAILABLE ie, [])
          else
            case i_dir2 ie of
              None \<Rightarrow> Inr (WIFI_ERROR_UNKNOWN env, [])
            | Some d2 \<Rightarrow>
                if \<not> i_ifaces ie then Inr (WIFI_ERROR_OUT_OF_MEMORY env, [])
                else
                  (case fill ie 0 (listed d2) (replicate n None) of
                     Inl e \<Rightarrow> Inl e
                   | Inr a \<Rightarrow> Inr (WIFI_SUCCESS env, a)))"

section \<open>Initialisation\<close>

definition boot :: "int \<Rightarrow> cb_info list \<Rightarrow> cmd_info list \<Rightarrow> hal_info" where
  "boot family cb_array cmd_array =
     \<lparr>nl80211_family_id = family, event_cb = cb_array, num_event_cb = 0, alloc_event_cb = int (length cb_array), cmd_tab = cmd_array,
      num_cmd = 0, alloc_cmd = int (length cmd_array), objs = Map.empty, next_obj = 1, wcalls = []\<rparr>"

definition DEFAULT_EVENT_CB_SIZE :: nat where "DEFAULT_EVENT_CB_SIZE = 64"
definition DEFAULT_CMD_SIZE :: nat where "DEFAULT_CMD_SIZE = 64"

definition wifi_add_membership :: "init_env \<Rightarrow> string \<Rightarrow> int" where
  "wifi_add_membership ie grp = (let i = i_multicast ie grp in if i < 0 then i else i_membership ie i)"

datatype resource = R_info | R_socks | R_cmd_sock | R_event_sock | R_event_cb | R_cmd | R_lock | R_interfaces

text \<open>The result, what is held when it returns, and the state if it succeeded.\<close>

definition wifi_initialize :: "wifi_env \<Rightarrow> init_env \<Rightarrow> stop + (int \<times> resource set \<times> hal_info option)" where
  "wifi_initialize env ie =
     (let unknown = WIFI_ERROR_UNKNOWN env; oom = WIFI_ERROR_OUT_OF_MEMORY env; na = WIFI_ERROR_NOT_AVAILABLE ie in
      if \<not> i_info ie then Inr (oom, {}, None)
      else if \<not> i_socketpair ie then Inr (unknown, {R_info} - {R_info}, None)
      else if \<not> i_cmd_sock ie then Inr (unknown, {R_info, R_socks} - {R_info}, None)
      else if \<not> i_event_sock ie then Inr (unknown, {R_info, R_socks, R_cmd_sock} - {R_cmd_sock, R_info}, None)
      else if \<not> i_event_cb_set ie then
        Inr (unknown, {R_info, R_socks, R_cmd_sock, R_event_sock} - {R_cmd_sock, R_event_sock, R_info}, None)
      else
        case i_event_cb ie of
          None \<Rightarrow> Inr (oom, {R_info, R_socks, R_cmd_sock, R_event_sock} - {R_cmd_sock, R_event_sock, R_info}, None)
        | Some cb_array \<Rightarrow>
            (case i_cmd ie of
               None \<Rightarrow> Inr (oom, {R_info, R_socks, R_cmd_sock, R_event_sock, R_event_cb} - {R_cmd_sock, R_event_sock, R_event_cb, R_info}, None)
             | Some cmd_array \<Rightarrow>
                 if i_family ie < 0 then
                   Inr (unknown, {R_info, R_socks, R_cmd_sock, R_event_sock, R_event_cb, R_cmd} -
                          {R_cmd_sock, R_event_sock, R_event_cb, R_cmd, R_info}, None)
                 else
                   let all = {R_info, R_socks, R_cmd_sock, R_event_sock, R_event_cb, R_cmd, R_lock};
                       freed = {R_cmd_sock, R_event_sock, R_event_cb, R_cmd, R_lock, R_info}
                   in
                   case wifi_init_interfaces env ie of
                     Inl e \<Rightarrow> Inl e
                   | Inr (r, ifs) \<Rightarrow>
                       if r \<noteq> WIFI_SUCCESS env then Inr (na, all - freed, None)
                       else if wifi_add_membership ie ''scan'' < 0 \<or> wifi_add_membership ie ''mlme'' < 0 \<or>
                           wifi_add_membership ie ''regulatory'' < 0 \<or> wifi_add_membership ie ''vendor'' < 0 then
                         Inr (na, insert R_interfaces all - freed, None)
                       else
                         Inr (WIFI_SUCCESS env, insert R_interfaces all,
                              Some (boot (i_family ie) (map cb_array [0..<DEFAULT_EVENT_CB_SIZE]) (map cmd_array [0..<DEFAULT_CMD_SIZE])))))"

section \<open>Cleaning up\<close>

text \<open>The loop over the outstanding commands; \<open>None\<close> when the fuel is used up. A command that its own cancellation took out of the
  table would be at another index; none does, and \<^verbatim>\<open>bad_commands\<close> counts.\<close>

fun cleanup_loop :: "wifi_env \<Rightarrow> nat \<Rightarrow> int \<Rightarrow> hal_info \<Rightarrow> (stop + hal_info) option" where
  "cleanup_loop env fuel bad s =
     (if \<not> num_cmd s > bad then Some (Inr s)
      else
        case fuel of
          0 \<Rightarrow> None
        | Suc fuel \<Rightarrow>
            let n = num_cmd s; p = ci_cmd (cmd_tab s ! nat bad) in
            if p \<noteq> null then
              (case cancel_obj env p s of
                 Inl e \<Rightarrow> Some (Inl e)
               | Inr (r, s) \<Rightarrow>
                   let bad = (if n = num_cmd s then bad + 1 else bad) in
                   (case releaseRef p s of Inl e \<Rightarrow> Some (Inl e) | Inr s \<Rightarrow> cleanup_loop env fuel bad s))
            else cleanup_loop env fuel bad s)"

text \<open>The commands of the handlers that are left are named in the log before.\<close>

definition wifi_cleanup_commands :: "wifi_env \<Rightarrow> nat \<Rightarrow> hal_info \<Rightarrow> (stop + hal_info) option" where
  "wifi_cleanup_commands env fuel s =
     (if \<exists>b \<in> set (take (nat (num_event_cb s)) (event_cb s)). cb_arg b \<noteq> null \<and> objs s (cb_arg b) = None then Some (Inl Use_after_free)
      else cleanup_loop env fuel 0 s)"

section \<open>What a failed initialisation keeps\<close>

text \<open>A failed initialisation gives back what it took, but for two things: the pair of sockets for the cleanup is never closed, and
  the array of interfaces is never freed when the multicast groups cannot be joined. A successful one holds everything and has
  empty tables.\<close>

theorem init_failure_keeps:
  assumes "codes_ok env" and "WIFI_ERROR_NOT_AVAILABLE ie < 0" and "wifi_initialize env ie = Inr (r, res, st)"
  shows "(r \<noteq> WIFI_SUCCESS env \<longleftrightarrow> st = None) \<and>
    (st = None \<longrightarrow> res \<subseteq> {R_socks, R_interfaces} \<and> (R_socks \<in> res \<longleftrightarrow> i_info ie \<and> i_socketpair ie)) \<and>
    (\<forall>h. st = Some h \<longrightarrow> res = UNIV \<and> num_event_cb h = 0 \<and> num_cmd h = 0 \<and> objs h = Map.empty)"
proof -
  have c: "WIFI_SUCCESS env = 0" "WIFI_ERROR_OUT_OF_MEMORY env < 0" "WIFI_ERROR_UNKNOWN env < 0" using assms(1) by (simp_all add: codes_ok_def)
  have u: "UNIV = {R_info, R_socks, R_cmd_sock, R_event_sock, R_event_cb, R_cmd, R_lock, R_interfaces}" using resource.exhaust by auto
  from assms(3) c assms(2) show ?thesis unfolding u wifi_initialize_def boot_def Let_def
    by (auto split: if_splits option.splits sum.splits prod.splits)
qed

section \<open>A small instance\<close>

definition no_cb :: cb_info where "no_cb = \<lparr>nl_cmd = 0, vendor_id = 0, vendor_subcmd = 0, cb_func = 0, cb_arg = 0\<rparr>"
definition no_cmd :: cmd_info where "no_cmd = \<lparr>ci_id = 0, ci_cmd = 0\<rparr>"
definition wifi_demo :: hal_info where "wifi_demo = boot 20 [no_cb, no_cb] [no_cmd, no_cmd]"

theorem init_failure_keeps_witness:
  "\<exists>r res. wifi_initialize roomy \<lparr>i_info = True, i_socketpair = True, i_cmd_sock = True, i_event_sock = False, i_event_cb_set = True,
       i_event_cb = None, i_cmd = None, i_family = 20, i_dir1 = None, i_dir2 = None, i_ifaces = True, i_ifinfo = (\<lambda>i. True), i_index = (\<lambda>n. 3),
       i_multicast = (\<lambda>g. 5), i_membership = (\<lambda>i. 0), WIFI_ERROR_NOT_AVAILABLE = -3\<rparr> = Inr (r, res, None) \<and> R_socks \<in> res"
proof -
  let ?ie = "\<lparr>i_info = True, i_socketpair = True, i_cmd_sock = True, i_event_sock = False, i_event_cb_set = True,
       i_event_cb = None, i_cmd = None, i_family = 20, i_dir1 = None, i_dir2 = None, i_ifaces = True, i_ifinfo = (\<lambda>i. True), i_index = (\<lambda>n. 3),
       i_multicast = (\<lambda>g. 5), i_membership = (\<lambda>i. 0), WIFI_ERROR_NOT_AVAILABLE = -3\<rparr>"
  obtain r res where w: "wifi_initialize roomy ?ie = Inr (r, res, None)" by (simp add: wifi_initialize_def)
  have "WIFI_ERROR_NOT_AVAILABLE ?ie < 0" by simp
  from init_failure_keeps [OF roomy_codes(1) this w] w show ?thesis by auto
qed

end
