(* ===== verification/Wifi_Props.thy ===== *)
theory Wifi_Props
  imports Wifi_Init
begin

text \<open>
  The tables of the Wi-Fi HAL, of event handlers and of outstanding commands, are bounded lists, whatever is registered and removed.
\<close>

section \<open>Tables\<close>

fun del1 :: "('a \<Rightarrow> bool) \<Rightarrow> 'a list \<Rightarrow> 'a list" where
  "del1 P [] = []"
| "del1 P (x # xs) = (if P x then xs else x # del1 P xs)"

lemma del1_none: "\<forall>x\<in>set xs. \<not> P x \<Longrightarrow> del1 P xs = xs"
  by (induction xs) auto

lemma del1_append: "\<forall>x\<in>set xs. \<not> P x \<Longrightarrow> del1 P (xs @ ys) = xs @ del1 P ys"
  by (induction xs) auto

lemma del1_subset: "set (del1 P xs) \<subseteq> set xs"
  by (induction xs) auto

lemma del1_distinct: "distinct (map f xs) \<Longrightarrow> distinct (map f (del1 P xs))"
proof (induction xs)
  case (Cons x xs)
  then show ?case using del1_subset [of P xs] by auto
qed simp

lemma del1_filter: "distinct (map f xs) \<Longrightarrow> (\<And>x. P x = (f x = a)) \<Longrightarrow> del1 P xs = filter (\<lambda>x. \<not> P x) xs"
proof (induction xs)
  case (Cons x xs)
  show ?case
  proof (cases "P x")
    case True
    have "f x \<notin> f ` set xs" "f x = a" using Cons.prems True by simp_all
    then have "\<forall>y\<in>set xs. \<not> P y" by (metis Cons.prems(2) imageI)
    then show ?thesis using True by (simp add: filter_id_conv)
  next
    case False
    then show ?thesis using Cons by simp
  qed
qed simp

lemma memmove_del1:
  assumes "n \<le> length xs" and "first_index P (take n xs) = Some i"
  shows "take (n - 1) (memmove_down i n xs) = del1 P (take n xs) \<and> length (memmove_down i n xs) = length xs"
proof -
  have i: "i < n" using first_index_bound [OF assms(2)] by simp
  have "first_index P ys = Some i \<Longrightarrow> del1 P ys = take i ys @ drop (i + 1) ys" for ys i
    by (induction ys arbitrary: i) (auto split: if_splits)
  from this [OF assms(2)] have d: "del1 P (take n xs) = take i xs @ take (n - i - 1) (drop (i + 1) xs)"
    using i by (simp add: min_def drop_take)
  have "length (take i xs @ take (n - i - 1) (drop (i + 1) xs)) = n - 1" using i assms(1) by simp
  then show ?thesis unfolding d memmove_down_def using i assms(1) by simp
qed

definition cbs :: "hal_info \<Rightarrow> cb_info list" where
  "cbs s = take (nat (num_event_cb s)) (event_cb s)"

definition cmds :: "hal_info \<Rightarrow> cmd_info list" where
  "cmds s = take (nat (num_cmd s)) (cmd_tab s)"

definition tab_ok :: "hal_info \<Rightarrow> bool" where
  "tab_ok s \<longleftrightarrow> 0 \<le> num_event_cb s \<and> num_event_cb s \<le> alloc_event_cb s \<and> alloc_event_cb s = int (length (event_cb s)) \<and>
     0 \<le> num_cmd s \<and> num_cmd s \<le> alloc_cmd s \<and> alloc_cmd s = int (length (cmd_tab s))"

text \<open>The contract of both tables.\<close>

locale bounded_table =
  fixes ok :: "'s \<Rightarrow> bool" and rows :: "'s \<Rightarrow> 'r list" and cap :: "'s \<Rightarrow> nat" and add :: "'r \<Rightarrow> 's \<Rightarrow> 's" and del :: "('r \<Rightarrow> bool) \<Rightarrow> 's \<Rightarrow> 's"
  assumes add_rows: "ok s \<Longrightarrow> rows (add r s) = (if length (rows s) < cap s then rows s @ [r] else rows s)"
    and del_rows: "ok s \<Longrightarrow> rows (del P s) = del1 P (rows s)"
    and add_ok: "ok s \<Longrightarrow> ok (add r s)" and del_ok: "ok s \<Longrightarrow> ok (del P s)"
    and add_cap: "ok s \<Longrightarrow> cap (add r s) = cap s" and del_cap: "ok s \<Longrightarrow> cap (del P s) = cap s"
    and rows_cap: "ok s \<Longrightarrow> length (rows s) \<le> cap s"
begin

text \<open>A sequence of additions and removals does to the table what it does to a list of at most \<open>cap\<close> rows.\<close>

lemma refines_list:
  "ok s \<Longrightarrow> cap s = N \<Longrightarrow>
    rows (fold (\<lambda>x s. case x of Inl r \<Rightarrow> add r s | Inr P \<Rightarrow> del P s) xs s) =
      fold (\<lambda>x l. case x of Inl r \<Rightarrow> if length l < N then l @ [r] else l | Inr P \<Rightarrow> del1 P l) xs (rows s) \<and>
    length (rows (fold (\<lambda>x s. case x of Inl r \<Rightarrow> add r s | Inr P \<Rightarrow> del P s) xs s)) \<le> N"
proof (induction xs arbitrary: s)
  case Nil
  then show ?case using rows_cap by auto
next
  case (Cons x xs)
  show ?case
  proof (cases x)
    case (Inl r)
    have "ok (add r s)" "cap (add r s) = N" using Cons.prems by (simp_all add: add_ok add_cap)
    from Cons.IH [OF this] show ?thesis using Cons.prems Inl by (cases "length (rows s) < N") (auto simp: add_rows)
  next
    case (Inr P)
    have "ok (del P s)" "cap (del P s) = N" using Cons.prems by (simp_all add: del_ok del_cap)
    from Cons.IH [OF this] show ?thesis using Cons.prems Inr by (auto simp: del_rows)
  qed
qed

end

definition add_cb :: "cb_info \<Rightarrow> hal_info \<Rightarrow> hal_info" where
  "add_cb b s =
     (if num_event_cb s < alloc_event_cb s then
        s\<lparr>event_cb := (event_cb s)[nat (num_event_cb s) := b], num_event_cb := num_event_cb s + 1\<rparr> else s)"

definition add_cmd :: "cmd_info \<Rightarrow> hal_info \<Rightarrow> hal_info" where
  "add_cmd c s =
     (if num_cmd s < alloc_cmd s then s\<lparr>cmd_tab := (cmd_tab s)[nat (num_cmd s) := c], num_cmd := num_cmd s + 1\<rparr> else s)"

lemma take_push: "n < length xs \<Longrightarrow> take (Suc n) (xs[n := x]) = take n xs @ [x]"
  by (simp add: take_Suc_conv_app_nth)

lemma add_cb_rows: "tab_ok s \<Longrightarrow> cbs (add_cb b s) = (if length (cbs s) < length (event_cb s) then cbs s @ [b] else cbs s)"
  by (auto simp: cbs_def add_cb_def tab_ok_def nat_add_distrib take_push)

lemma add_cmd_rows: "tab_ok s \<Longrightarrow> cmds (add_cmd c s) = (if length (cmds s) < length (cmd_tab s) then cmds s @ [c] else cmds s)"
  by (auto simp: cmds_def add_cmd_def tab_ok_def nat_add_distrib take_push)

lemma remove_cb_rows: "tab_ok s \<Longrightarrow> cbs (remove_cb P s) = del1 P (cbs s) \<and> tab_ok (remove_cb P s) \<and> length (event_cb (remove_cb P s)) = length (event_cb s)"
proof (cases "first_index P (cbs s)")
  case None
  assume "tab_ok s"
  moreover have "del1 P (cbs s) = cbs s" using None by (intro del1_none) (simp add: first_index_None)
  ultimately show ?thesis using None by (simp add: remove_cb_def cbs_def)
next
  case (Some i)
  assume ok: "tab_ok s"
  let ?n = "nat (num_event_cb s)"
  have n: "?n \<le> length (event_cb s)" using ok by (auto simp: tab_ok_def)
  note m = memmove_del1 [OF n Some [unfolded cbs_def]]
  have "0 < num_event_cb s" using first_index_bound [OF Some] by (auto simp: cbs_def)
  moreover have "nat (num_event_cb s - 1) = ?n - 1" by (simp add: nat_diff_distrib')
  ultimately show ?thesis using m ok Some by (simp add: remove_cb_def cbs_def tab_ok_def)
qed

lemma remove_cmd_rows:
  "tab_ok s \<Longrightarrow> cmds (snd (remove_cmd P s)) = del1 P (cmds s) \<and> tab_ok (snd (remove_cmd P s)) \<and> length (cmd_tab (snd (remove_cmd P s))) = length (cmd_tab s)"
proof (cases "first_index P (cmds s)")
  case None
  assume "tab_ok s"
  moreover have "del1 P (cmds s) = cmds s" using None by (intro del1_none) (simp add: first_index_None)
  ultimately show ?thesis using None by (simp add: remove_cmd_def cmds_def)
next
  case (Some i)
  assume ok: "tab_ok s"
  let ?n = "nat (num_cmd s)"
  have n: "?n \<le> length (cmd_tab s)" using ok by (auto simp: tab_ok_def)
  note m = memmove_del1 [OF n Some [unfolded cmds_def]]
  have "0 < num_cmd s" using first_index_bound [OF Some] by (auto simp: cmds_def)
  moreover have "nat (num_cmd s - 1) = ?n - 1" by (simp add: nat_diff_distrib')
  ultimately show ?thesis using m ok Some by (simp add: remove_cmd_def cmds_def tab_ok_def)
qed

interpretation handlers: bounded_table tab_ok cbs "\<lambda>s. length (event_cb s)" add_cb remove_cb
proof unfold_locales
  fix s :: hal_info and b P
  show "tab_ok s \<Longrightarrow> tab_ok (add_cb b s)" "tab_ok s \<Longrightarrow> length (event_cb (add_cb b s)) = length (event_cb s)"
    by (auto simp: tab_ok_def add_cb_def)
qed (simp_all add: add_cb_rows remove_cb_rows, simp add: cbs_def)

interpretation outstanding: bounded_table tab_ok cmds "\<lambda>s. length (cmd_tab s)" add_cmd "\<lambda>P s. snd (remove_cmd P s)"
proof unfold_locales
  fix s :: hal_info and c P
  show "tab_ok s \<Longrightarrow> tab_ok (add_cmd c s)" "tab_ok s \<Longrightarrow> length (cmd_tab (add_cmd c s)) = length (cmd_tab s)"
    by (auto simp: tab_ok_def add_cmd_def)
qed (simp_all add: add_cmd_rows remove_cmd_rows, simp add: cmds_def)

text \<open>The operations of the code in these terms.\<close>

lemma register_vendor_add:
  "snd (wifi_register_vendor_handler env v k f p s) =
     add_cb \<lparr>nl_cmd = NL80211_CMD_VENDOR env, vendor_id = v, vendor_subcmd = k, cb_func = f, cb_arg = p\<rparr> s"
  by (simp add: wifi_register_vendor_handler_def add_cb_def)

lemma register_add: "snd (wifi_register_handler env c f p s) = add_cb \<lparr>nl_cmd = c, vendor_id = 0, vendor_subcmd = 0, cb_func = f, cb_arg = p\<rparr> s"
  by (simp add: wifi_register_handler_def add_cb_def)

lemma register_cmd_add: "snd (wifi_register_cmd env i p s) = add_cmd \<lparr>ci_id = i, ci_cmd = p\<rparr> s"
  by (simp add: wifi_register_cmd_def add_cmd_def)

text \<open>What the callers of \<^verbatim>\<open>common.cpp\<close> may do to the handler table.\<close>

datatype tab_op = T_register int nat nat | T_vendor u32 int nat nat | T_unregister int | T_unvendor u32 int

fun tab_step :: "wifi_env \<Rightarrow> tab_op \<Rightarrow> hal_info \<Rightarrow> hal_info" where
  "tab_step env (T_register c f p) s = snd (wifi_register_handler env c f p s)"
| "tab_step env (T_vendor v k f p) s = snd (wifi_register_vendor_handler env v k f p s)"
| "tab_step env (T_unregister c) s = wifi_unregister_handler env c s"
| "tab_step env (T_unvendor v k) s = wifi_unregister_vendor_handler env v k s"

text \<open>The same on a list of at most \<open>N\<close> handlers.\<close>

definition push :: "nat \<Rightarrow> 'a \<Rightarrow> 'a list \<Rightarrow> 'a list" where
  "push N x l = (if length l < N then l @ [x] else l)"

fun list_step :: "wifi_env \<Rightarrow> nat \<Rightarrow> tab_op \<Rightarrow> cb_info list \<Rightarrow> cb_info list" where
  "list_step env N (T_register c f p) l = push N \<lparr>nl_cmd = c, vendor_id = 0, vendor_subcmd = 0, cb_func = f, cb_arg = p\<rparr> l"
| "list_step env N (T_vendor v k f p) l =
     push N \<lparr>nl_cmd = NL80211_CMD_VENDOR env, vendor_id = v, vendor_subcmd = k, cb_func = f, cb_arg = p\<rparr> l"
| "list_step env N (T_unregister c) l = (if c = NL80211_CMD_VENDOR env then l else del1 (\<lambda>b. nl_cmd b = c) l)"
| "list_step env N (T_unvendor v k) l = del1 (\<lambda>b. nl_cmd b = NL80211_CMD_VENDOR env \<and> vendor_id b = v \<and> vendor_subcmd b = k) l"

fun tab_code :: "wifi_env \<Rightarrow> tab_op \<Rightarrow> cb_info + (cb_info \<Rightarrow> bool)" where
  "tab_code env (T_register c f p) = Inl \<lparr>nl_cmd = c, vendor_id = 0, vendor_subcmd = 0, cb_func = f, cb_arg = p\<rparr>"
| "tab_code env (T_vendor v k f p) = Inl \<lparr>nl_cmd = NL80211_CMD_VENDOR env, vendor_id = v, vendor_subcmd = k, cb_func = f, cb_arg = p\<rparr>"
| "tab_code env (T_unregister c) = Inr (\<lambda>b. c \<noteq> NL80211_CMD_VENDOR env \<and> nl_cmd b = c)"
| "tab_code env (T_unvendor v k) = Inr (\<lambda>b. nl_cmd b = NL80211_CMD_VENDOR env \<and> vendor_id b = v \<and> vendor_subcmd b = k)"

lemma first_index_False [simp]: "first_index (\<lambda>x. False) xs = None"
  by (simp add: first_index_None)

lemma tab_step_code: "tab_step env x s = (case tab_code env x of Inl b \<Rightarrow> add_cb b s | Inr P \<Rightarrow> remove_cb P s)"
  by (cases x) (simp_all add: register_vendor_add register_add wifi_unregister_handler_def wifi_unregister_vendor_handler_def remove_cb_def)

lemma list_step_code: "list_step env N x l = (case tab_code env x of Inl b \<Rightarrow> if length l < N then l @ [b] else l | Inr P \<Rightarrow> del1 P l)"
  by (cases x) (auto simp: push_def del1_none)

text \<open>C16. The table of event handlers is a list. Whatever sequence of handlers is registered and removed, by \<^verbatim>\<open>memmove\<close> or not, the
  first \<^verbatim>\<open>num_event_cb\<close> entries are what the same sequence does to a list: an addition goes to the end, or is refused when the
  array is full; a removal takes the first entry that matches; and the array is never exceeded.\<close>

theorem handler_table_refines_list:
  assumes "tab_ok s" and "alloc_event_cb s = int N"
  shows "cbs (fold (tab_step env) xs s) = fold (list_step env N) xs (cbs s) \<and> length (cbs (fold (tab_step env) xs s)) \<le> N"
proof -
  have N: "length (event_cb s) = N" using assms by (simp add: tab_ok_def)
  have "fold (tab_step env) xs s = fold (\<lambda>x s. case x of Inl r \<Rightarrow> add_cb r s | Inr P \<Rightarrow> remove_cb P s) (map (tab_code env) xs) s" for s
    by (induction xs arbitrary: s) (simp_all add: tab_step_code)
  moreover have "fold (list_step env N) xs l =
      fold (\<lambda>x l. case x of Inl r \<Rightarrow> if length l < N then l @ [r] else l | Inr P \<Rightarrow> del1 P l) (map (tab_code env) xs) l" for l
    by (induction xs arbitrary: l) (simp_all add: list_step_code)
  ultimately show ?thesis using handlers.refines_list [OF assms(1) N, of "map (tab_code env) xs"] by auto
qed

theorem handler_table_refines_list_witness:
  "map cb_arg (cbs (fold (tab_step roomy) [T_vendor 6673 7 1 5, T_vendor 6673 3 1 6, T_vendor 6673 4 1 8, T_unvendor 6673 7, T_register 9 1 2] wifi_demo)) = [6, 2]"
proof -
  have "tab_ok wifi_demo" "alloc_event_cb wifi_demo = int 2" "cbs wifi_demo = []"
    by (simp_all add: wifi_demo_def boot_def tab_ok_def cbs_def)
  from handler_table_refines_list [OF this(1,2), of roomy
      "[T_vendor 6673 7 1 5, T_vendor 6673 3 1 6, T_vendor 6673 4 1 8, T_unvendor 6673 7, T_register 9 1 2]"] this(3)
  show ?thesis by (simp add: push_def roomy_def)
qed

end
