(* ===== verification/Wifi_Start.thy ===== *)
theory Wifi_Start
  imports Wifi_Props
begin

text \<open>
  What starting and cancelling a command of the Wi-Fi HAL does to the table of event handlers: a start that succeeds adds
  handlers of its own events at the end, one that fails leaves the table as it was, and cancelling drops one handler for each
  of the command's events.
\<close>

section \<open>Starting and cancelling\<close>

definition entry :: "wifi_env \<Rightarrow> int \<Rightarrow> nat \<Rightarrow> cb_info" where
  "entry env k p = \<lparr>nl_cmd = NL80211_CMD_VENDOR env, vendor_id = GOOGLE_OUI, vendor_subcmd = k, cb_func = 1, cb_arg = p\<rparr>"

definition keyed_by :: "wifi_env \<Rightarrow> int \<Rightarrow> cb_info \<Rightarrow> bool" where
  "keyed_by env k b \<longleftrightarrow> nl_cmd b = NL80211_CMD_VENDOR env \<and> vendor_id b = GOOGLE_OUI \<and> vendor_subcmd b = k"

lemma keyed_entry [simp]: "keyed_by env k (entry env j p) \<longleftrightarrow> k = j"
  by (auto simp: keyed_by_def entry_def)

text \<open>The events of a command, in the order in which it drops them.\<close>

fun events_of :: "wclass \<Rightarrow> int list" where
  "events_of (C_rssi mx mn) = [WIFI_EVENT_RSSI_MONITOR]"
| "events_of C_full = [GSCAN_EVENT_FULL_SCAN_RESULTS]"
| "events_of (C_scan ps) = [GSCAN_EVENT_COMPLETE_SCAN, GSCAN_EVENT_SCAN_RESULTS_AVAILABLE, GSCAN_EVENT_FULL_SCAN_RESULTS]"
| "events_of (C_hotlist ps) = [GSCAN_EVENT_HOTLIST_RESULTS_FOUND, GSCAN_EVENT_HOTLIST_RESULTS_LOST]"
| "events_of (C_epno ps) = [GSCAN_EVENT_EPNO_EVENT]"
| "events_of (C_change ps) = [GSCAN_EVENT_SIGNIFICANT_CHANGE_RESULTS]"
| "events_of (C_anqpo n ps) = [GSCAN_EVENT_ANQPO_HOTSPOT_MATCH]"
| "events_of (C_rtt n ps) = [RTT_EVENT_COMPLETE]"

text \<open>Nothing but the handlers and the log changes.\<close>

definition cb_only :: "hal_info \<Rightarrow> hal_info \<Rightarrow> bool" where
  "cb_only s s' \<longleftrightarrow> s' = s\<lparr>event_cb := event_cb s', num_event_cb := num_event_cb s', wcalls := wcalls s'\<rparr>"

lemma cb_only_refl [simp]: "cb_only s s"
  by (simp add: cb_only_def)

lemma cb_only_iff:
  "cb_only s s' \<longleftrightarrow> objs s' = objs s \<and> next_obj s' = next_obj s \<and> cmd_tab s' = cmd_tab s \<and> num_cmd s' = num_cmd s \<and>
     alloc_cmd s' = alloc_cmd s \<and> alloc_event_cb s' = alloc_event_cb s \<and> nl80211_family_id s' = nl80211_family_id s"
  by (cases s; cases s') (auto simp: cb_only_def)

lemma cb_only_trans: "cb_only s s' \<Longrightarrow> cb_only s' s'' \<Longrightarrow> cb_only s s''"
  by (simp add: cb_only_iff)

text \<open>\<open>grown s s' es\<close>: \<open>es\<close> were added at the end, and the tables are still in order.\<close>

definition holds_cbs :: "hal_info \<Rightarrow> hal_info \<Rightarrow> cb_info list \<Rightarrow> bool" where
  "holds_cbs s s' bs \<longleftrightarrow> cb_only s s' \<and> tab_ok s' \<and> cbs s' = bs"

lemma holds_refl: "tab_ok s \<Longrightarrow> holds_cbs s s (cbs s)"
  by (simp add: holds_cbs_def)

lemma register_holds:
  assumes "holds_cbs s s' bs"
  shows "holds_cbs s (registerVendorHandler env k p s') (bs @ [entry env k p]) \<or> holds_cbs s (registerVendorHandler env k p s') bs"
proof -
  have r: "registerVendorHandler env k p s' = add_cb (entry env k p) s'"
    by (simp add: registerVendorHandler_def register_vendor_add entry_def)
  have "cb_only s' (add_cb (entry env k p) s')" by (simp add: cb_only_iff add_cb_def)
  then show ?thesis using assms handlers.add_ok [of s'] handlers.add_rows [of s']
    unfolding r holds_cbs_def by (auto intro: cb_only_trans)
qed

lemma unregister_holds:
  assumes "holds_cbs s s' bs"
  shows "holds_cbs s (unregisterVendorHandler env k s') (del1 (keyed_by env k) bs)"
proof -
  have r: "unregisterVendorHandler env k s' = remove_cb (keyed_by env k) s'"
    by (simp add: unregisterVendorHandler_def wifi_unregister_vendor_handler_def keyed_by_def [abs_def])
  have "cb_only s' (remove_cb (keyed_by env k) s')" by (simp add: cb_only_iff remove_cb_def split: option.split)
  then show ?thesis using assms handlers.del_ok [of s'] handlers.del_rows [of s']
    unfolding r holds_cbs_def by (auto intro: cb_only_trans)
qed

lemma log_holds: "holds_cbs s s' bs \<Longrightarrow> holds_cbs s (s'\<lparr>wcalls := h\<rparr>) bs"
  by (auto simp: holds_cbs_def cb_only_iff tab_ok_def cbs_def)

lemma recv_loop_result: "recv_loop bs p = Some (err, evs) \<Longrightarrow> err \<le> 0"
proof (induction bs arbitrary: p)
  case Nil
  then show ?case by (cases p) (auto split: if_splits)
next
  case (Cons b bs)
  then show ?case by (cases p) (auto split: if_splits)
qed

lemma request_holds:
  assumes r: "requestResponse env q s' = Inr (r, evs, s'')" and h: "holds_cbs s s' bs"
  shows "holds_cbs s s'' bs \<and> r \<le> 0"
proof (cases "x_cb_alloc env (wcalls s')")
  case True
  with r obtain m where m: "mMsg q = Some m" by (cases "mMsg q") (simp_all add: requestResponse_def)
  show ?thesis
  proof (cases "x_send env (wcalls s') m < 0")
    case False
    then obtain e where e: "recv_loop (x_recv env (wcalls s') m) (1, []) = Some e"
      using r True m by (cases "recv_loop (x_recv env (wcalls s') m) (1, [])") (simp_all add: requestResponse_def Let_def del: recv_loop.simps)
    then have "e = (r, evs) \<and> s'' = s'\<lparr>wcalls := wcalls s' @ [W_sent m]\<rparr>"
      using r True m False by (cases e) (simp add: requestResponse_def Let_def del: recv_loop.simps)
    then show ?thesis using recv_loop_result e log_holds [OF h] by blast
  qed (use r True m log_holds [OF h] in \<open>auto simp: requestResponse_def Let_def\<close>)
qed (use r h in \<open>auto simp: requestResponse_def\<close>)

text \<open>The result of an exchange: not sent, and the state as it was; or sent after \<open>pre\<close>, with a result that is not positive.\<close>

lemma ask_cases:
  assumes a: "ask env iface bad bld pre s' = Inr (sent, r, s'')" and h: "holds_cbs s (pre s') bs"
  shows "\<not> sent \<and> s'' = s' \<and> bad r \<or> sent \<and> holds_cbs s s'' bs \<and> r \<le> 0"
proof (cases "bld (WifiRequest_new (nl80211_family_id s') iface)")
  case (Inr rq)
  obtain r0 q where rq: "rq = (r0, q)" by (cases rq)
  show ?thesis
  proof (cases "bad r0")
    case False
    then obtain evs where "requestResponse env q (pre s') = Inr (r, evs, s'')" and "sent"
      using a Inr rq by (auto simp: ask_def split: sum.splits)
    then show ?thesis using request_holds [OF _ h] by blast
  qed (use a Inr rq in \<open>simp add: ask_def\<close>)
qed (use a in \<open>simp add: ask_def\<close>)

text \<open>\<open>regd env p ks s s'\<close>: since \<open>s\<close>, handlers of \<open>p\<close> for some of the events \<open>ks\<close> were added, at the end of the table.\<close>

definition regd :: "wifi_env \<Rightarrow> nat \<Rightarrow> int set \<Rightarrow> hal_info \<Rightarrow> hal_info \<Rightarrow> bool" where
  "regd env p ks s s' \<longleftrightarrow> (\<exists>es. holds_cbs s s' (cbs s @ es) \<and> distinct (map vendor_subcmd es) \<and> (\<forall>b \<in> set es. \<exists>k \<in> ks. b = entry env k p))"

definition unheard :: "wifi_env \<Rightarrow> int set \<Rightarrow> hal_info \<Rightarrow> bool" where
  "unheard env ks s \<longleftrightarrow> (\<forall>b \<in> set (cbs s). \<forall>k \<in> ks. \<not> keyed_by env k b)"

lemma regd_refl: "tab_ok s \<Longrightarrow> regd env p ks s s"
  unfolding regd_def by (rule exI [of _ "[]"]) (simp add: holds_refl)

lemma regd_mono: "regd env p ks s s' \<Longrightarrow> ks \<subseteq> ks' \<Longrightarrow> regd env p ks' s s'"
  unfolding regd_def by blast

lemma regd_empty: "regd env p {} s s' \<longleftrightarrow> holds_cbs s s' (cbs s)"
proof -
  have "(\<forall>b \<in> set es. \<exists>k \<in> {}. b = entry env k p) \<longleftrightarrow> es = []" for es by (cases es) auto
  then show ?thesis by (auto simp: regd_def)
qed

lemma regd_add:
  assumes "regd env p ks s s'" and "k \<notin> ks"
  shows "regd env p (insert k ks) s (registerVendorHandler env k p s')"
proof -
  obtain es where e: "holds_cbs s s' (cbs s @ es)" "distinct (map vendor_subcmd es)" "\<forall>b \<in> set es. \<exists>k \<in> ks. b = entry env k p"
    using assms(1) unfolding regd_def by blast
  have "k \<notin> set (map vendor_subcmd es)" using e(3) assms(2) by (auto simp: entry_def)
  then have "distinct (map vendor_subcmd (es @ [entry env k p]))" using e(2) by (auto simp: entry_def)
  moreover have "\<forall>b \<in> set (es @ [entry env k p]). \<exists>j \<in> insert k ks. b = entry env j p" using e(3) by auto
  ultimately show ?thesis
    using register_holds [OF e(1), of env k p] e(2,3) unfolding regd_def append.assoc by blast
qed

lemma del1_key:
  "distinct (map vendor_subcmd es) \<Longrightarrow> \<forall>b \<in> set es. \<exists>j. b = entry env j p \<Longrightarrow>
     del1 (keyed_by env k) es = filter (\<lambda>b. vendor_subcmd b \<noteq> k) es"
proof (induction es)
  case (Cons b es)
  obtain j where b: "b = entry env j p" using Cons.prems(2) by auto
  show ?case
  proof (cases "k = j")
    case True
    then have "\<forall>x \<in> set es. vendor_subcmd x \<noteq> k" using Cons.prems(1) b by (auto simp: entry_def)
    then show ?thesis using True b by (simp add: entry_def keyed_by_def)
  next
    case False
    then show ?thesis using Cons b by (auto simp: entry_def keyed_by_def)
  qed
qed simp

lemma regd_del:
  assumes "regd env p ks s s'" and "unheard env {k} s"
  shows "regd env p (ks - {k}) s (unregisterVendorHandler env k s')"
proof -
  obtain es where e: "holds_cbs s s' (cbs s @ es)" "distinct (map vendor_subcmd es)" "\<forall>b \<in> set es. \<exists>k \<in> ks. b = entry env k p"
    using assms(1) unfolding regd_def by blast
  let ?es = "filter (\<lambda>b. vendor_subcmd b \<noteq> k) es"
  have "del1 (keyed_by env k) es = ?es" using e(2,3) by (intro del1_key) auto
  then have "del1 (keyed_by env k) (cbs s @ es) = cbs s @ ?es" using assms(2) by (simp add: del1_append unheard_def)
  then have "holds_cbs s (unregisterVendorHandler env k s') (cbs s @ ?es)" using unregister_holds [OF e(1), of env k] by simp
  moreover have "\<forall>b \<in> set ?es. \<exists>j \<in> ks - {k}. b = entry env j p" using e(3) by (auto simp: entry_def)
  ultimately show ?thesis unfolding regd_def using e(2) by (intro exI [of _ ?es]) (simp add: distinct_map_filter)
qed

text \<open>An exchange in the middle of a start.\<close>

lemma ask_regd:
  assumes "ask env iface bad bld pre s' = Inr (sent, r, s'')" and "regd env p ks s (pre s')"
  shows "\<not> sent \<and> s'' = s' \<and> bad r \<or> sent \<and> regd env p ks s s'' \<and> r \<le> 0"
proof -
  obtain es where "holds_cbs s (pre s') (cbs s @ es)" "distinct (map vendor_subcmd es)" "\<forall>b \<in> set es. \<exists>k \<in> ks. b = entry env k p"
    using assms(2) unfolding regd_def by blast
  with ask_cases [OF assms(1)] show ?thesis unfolding regd_def by blast
qed

lemma unheard_mono: "unheard env ks s \<Longrightarrow> js \<subseteq> ks \<Longrightarrow> unheard env js s"
  unfolding unheard_def by blast

text \<open>The starts, method by method: \<open>ok\<close> says that a result is a success.\<close>

lemma ask_here:
  assumes "tab_ok s" and "ask env iface bad bld (\<lambda>s. s) s = Inr (sent, r, s')"
  shows "holds_cbs s s' (cbs s) \<and> (\<not> sent \<and> s' = s \<and> bad r \<or> sent \<and> r \<le> 0)"
  using ask_cases [OF assms(2), of s "cbs s"] holds_refl [OF assms(1)] by auto

lemma holds_regd: "holds_cbs s s' (cbs s) \<Longrightarrow> regd env p ks s' s'' \<Longrightarrow> regd env p ks s s''"
  unfolding regd_def holds_cbs_def by (auto intro: cb_only_trans)

lemma holds_trans: "holds_cbs s s' (cbs s) \<Longrightarrow> holds_cbs s' s'' (cbs s') \<Longrightarrow> holds_cbs s s'' (cbs s)"
  unfolding holds_cbs_def by (auto intro: cb_only_trans)

lemma holds_unheard: "holds_cbs s s' (cbs s) \<Longrightarrow> unheard env ks s' = unheard env ks s"
  by (simp add: holds_cbs_def unheard_def)

lemma holds_tab_ok: "holds_cbs s s' bs \<Longrightarrow> tab_ok s'"
  by (simp add: holds_cbs_def)

lemma regd_one: "tab_ok s \<Longrightarrow> regd env p {k} s (registerVendorHandler env k p s)"
  using regd_add [OF regd_refl, of s k "{}" env p] by simp

lemma regd_none: "regd env p {k} s s' \<Longrightarrow> unheard env {k} s \<Longrightarrow> holds_cbs s (unregisterVendorHandler env k s') (cbs s)"
  using regd_del [of env p "{k}" s s' k] by (simp add: regd_empty)

lemma Rssi_start_regd:
  assumes "codes_ok env" and "tab_ok s" and "Rssi_start env p iface mx mn s = Inr (r, s')"
  shows "if r = WIFI_SUCCESS env then regd env p {WIFI_EVENT_RSSI_MONITOR} s s' else holds_cbs s s' (cbs s)"
proof -
  obtain sent r1 s1 where a: "ask env iface (\<lambda>r. r < 0) (Rssi_createRequest env (wcalls s) mx mn 1) (\<lambda>s. s) s = Inr (sent, r1, s1)"
    using assms(3) by (auto simp: Rssi_start_def split: sum.splits)
  note h = ask_here [OF assms(2) a]
  then have "regd env p {WIFI_EVENT_RSSI_MONITOR} s (registerVendorHandler env WIFI_EVENT_RSSI_MONITOR p s1)"
    using holds_regd regd_one holds_tab_ok by blast
  then show ?thesis using assms(1,3) a h by (auto simp: Rssi_start_def codes_ok_def split: if_splits)
qed

lemma Full_start_regd:
  assumes "tab_ok s" and "unheard env {GSCAN_EVENT_FULL_SCAN_RESULTS} s" and "Full_start env p iface s = Inr (r, s')"
  shows "if r = WIFI_SUCCESS env then regd env p {GSCAN_EVENT_FULL_SCAN_RESULTS} s s' else holds_cbs s s' (cbs s)"
proof -
  obtain sent r1 s1 where a: "ask env iface (\<lambda>r. r \<noteq> WIFI_SUCCESS env)
      (Full_createRequest env (wcalls s) GSCAN_SUBCMD_ENABLE_FULL_SCAN_RESULTS 1)
      (registerVendorHandler env GSCAN_EVENT_FULL_SCAN_RESULTS p) s = Inr (sent, r1, s1)"
    using assms(3) by (auto simp: Full_start_def split: sum.splits)
  note h = ask_regd [OF a regd_one [OF assms(1)]]
  then show ?thesis using assms(3) a holds_refl [OF assms(1)] regd_none [OF _ assms(2)]
    by (auto simp: Full_start_def split: if_splits)
qed

lemma Scan_start_regd:
  assumes "tab_ok s" and "unheard env {GSCAN_EVENT_COMPLETE_SCAN, GSCAN_EVENT_SCAN_RESULTS_AVAILABLE, GSCAN_EVENT_FULL_SCAN_RESULTS} s"
    and "Scan_start env p iface ps s = Inr (r, s')"
  shows "if r = WIFI_SUCCESS env
    then regd env p {GSCAN_EVENT_COMPLETE_SCAN, GSCAN_EVENT_SCAN_RESULTS_AVAILABLE, GSCAN_EVENT_FULL_SCAN_RESULTS} s s'
    else holds_cbs s s' (cbs s)"
proof -
  let ?c = GSCAN_EVENT_COMPLETE_SCAN and ?a = GSCAN_EVENT_SCAN_RESULTS_AVAILABLE and ?f = GSCAN_EVENT_FULL_SCAN_RESULTS
  let ?bad = "\<lambda>r. r \<noteq> WIFI_SUCCESS env"
  let ?pre = "\<lambda>s. registerVendorHandler env ?f p (registerVendorHandler env ?c p (registerVendorHandler env ?a p s))"
  obtain sent1 r1 s1 where a1: "ask env iface ?bad (Scan_createSetupRequest env (wcalls s) ps) (\<lambda>s. s) s = Inr (sent1, r1, s1)"
    using assms(3) by (auto simp: Scan_start_def split: sum.splits)
  note h1 = conjunct1 [OF ask_here [OF assms(1) a1]]
  show ?thesis
  proof (cases "?bad r1")
    case False
    obtain sent2 r2 s2 where a2: "ask env iface ?bad (Scan_createScanConfigRequest env (wcalls s1) ps) (\<lambda>s. s) s1 = Inr (sent2, r2, s2)"
      using assms(3) a1 False by (auto simp: Scan_start_def split: sum.splits)
    note h2 = holds_trans [OF h1 conjunct1 [OF ask_here [OF holds_tab_ok [OF h1] a2]]]
    show ?thesis
    proof (cases "?bad r2")
      case good: False
      obtain sent r3 s3 where a3: "ask env iface ?bad (Scan_createStartRequest env (wcalls s2)) ?pre s2 = Inr (sent, r3, s3)"
        using assms(3) a1 a2 False good by (auto simp: Scan_start_def split: sum.splits)
      have "regd env p {?f, ?c, ?a} s2 (?pre s2)"
        using holds_tab_ok [OF h2] by (intro regd_add regd_one) (simp_all add: wifi_consts)
      from ask_regd [OF a3 holds_regd [OF h2 this]] have x: "\<not> sent \<and> s3 = s2 \<and> ?bad r3 \<or> sent \<and> regd env p {?f, ?c, ?a} s s3" by blast
      have u: "unheard env {?f} s" "unheard env {?c} s" "unheard env {?a} s" by (rule unheard_mono [OF assms(2)], simp)+
      have "holds_cbs s (drop_scan env s3) (cbs s)" if "regd env p {?f, ?c, ?a} s s3"
      proof -
        have "{?f, ?c, ?a} - {?c} - {?a} - {?f} = {}" by auto
        with regd_del [OF regd_del [OF regd_del [OF that u(2)] u(3)] u(1)] have "regd env p {} s (drop_scan env s3)"
          unfolding drop_scan_def by (simp only:)
        then show ?thesis by (simp only: regd_empty)
      qed
      then show ?thesis using assms(3) a1 a2 a3 False good x h2
        by (auto simp: Scan_start_def drop_scan_def insert_commute split: if_splits)
    qed (use assms(3) a1 a2 False h2 in \<open>auto simp: Scan_start_def\<close>)
  qed (use assms(3) a1 h1 in \<open>auto simp: Scan_start_def\<close>)
qed

lemma drop_hotlist_holds:
  assumes "regd env p {GSCAN_EVENT_HOTLIST_RESULTS_FOUND, GSCAN_EVENT_HOTLIST_RESULTS_LOST} s s'"
    and "unheard env {GSCAN_EVENT_HOTLIST_RESULTS_FOUND, GSCAN_EVENT_HOTLIST_RESULTS_LOST} s"
  shows "holds_cbs s (drop_hotlist env s') (cbs s)"
proof -
  have u: "unheard env {GSCAN_EVENT_HOTLIST_RESULTS_FOUND} s" "unheard env {GSCAN_EVENT_HOTLIST_RESULTS_LOST} s"
    by (rule unheard_mono [OF assms(2)], simp)+
  show ?thesis using regd_del [OF regd_del [OF assms(1) u(1)] u(2)] by (simp add: drop_hotlist_def regd_empty wifi_consts)
qed

lemma Hotlist_start_regd:
  assumes "codes_ok env" and "tab_ok s" and "unheard env {GSCAN_EVENT_HOTLIST_RESULTS_FOUND, GSCAN_EVENT_HOTLIST_RESULTS_LOST} s"
    and "Hotlist_start env p iface ps s = Inr (r, s')"
  shows "if r = WIFI_SUCCESS env then regd env p {GSCAN_EVENT_HOTLIST_RESULTS_FOUND, GSCAN_EVENT_HOTLIST_RESULTS_LOST} s s'
    else holds_cbs s s' (cbs s)"
proof -
  let ?f = GSCAN_EVENT_HOTLIST_RESULTS_FOUND and ?l = GSCAN_EVENT_HOTLIST_RESULTS_LOST
  let ?pre = "\<lambda>s. registerVendorHandler env ?l p (registerVendorHandler env ?f p s)"
  obtain sent1 r1 s1 where a1: "ask env iface (\<lambda>r. r < 0) (Hotlist_createSetupRequest env (wcalls s) ps) (\<lambda>s. s) s = Inr (sent1, r1, s1)"
    using assms(4) by (auto simp: Hotlist_start_def split: sum.splits)
  note x1 = ask_here [OF assms(2) a1] and h1 = conjunct1 [OF ask_here [OF assms(2) a1]]
  show ?thesis
  proof (cases "r1 < 0")
    case True
    have "regd env p {?f, ?l} s s1" using h1 regd_mono [of env p "{}"] by (simp add: regd_empty)
    then show ?thesis using assms(1,4) True a1 h1 drop_hotlist_holds [OF _ assms(3)]
      by (auto simp: Hotlist_start_def codes_ok_def split: if_splits)
  next
    case False
    obtain sent r2 s2 where a2: "ask env iface (\<lambda>r. r < 0) (createFeatureRequest env (wcalls s1) GSCAN_SUBCMD_ENABLE_GSCAN 1) ?pre s1 =
        Inr (sent, r2, s2)"
      using assms(4) a1 False by (auto simp: Hotlist_start_def split: sum.splits)
    have "regd env p {?l, ?f} s1 (?pre s1)" using holds_tab_ok [OF h1] by (intro regd_add regd_one) (simp_all add: wifi_consts)
    from ask_regd [OF a2 holds_regd [OF h1 this]]
    have "\<not> sent \<and> s2 = s1 \<and> r2 < 0 \<or> sent \<and> regd env p {?f, ?l} s s2 \<and> r2 \<le> 0" by (simp add: insert_commute)
    then show ?thesis using assms(1,4) False a1 a2 h1 drop_hotlist_holds [OF _ assms(3)]
      by (auto simp: Hotlist_start_def codes_ok_def split: if_splits)
  qed
qed

lemma Epno_start_regd:
  assumes "codes_ok env" and "tab_ok s" and "unheard env {GSCAN_EVENT_EPNO_EVENT} s" and "Epno_start env p iface ps s = Inr (r, s')"
  shows "if r = WIFI_SUCCESS env then regd env p {GSCAN_EVENT_EPNO_EVENT} s s' else holds_cbs s s' (cbs s)"
proof -
  let ?k = GSCAN_EVENT_EPNO_EVENT
  obtain sent r1 s1 where a: "ask env iface (\<lambda>r. r < 0) (Epno_createSetupRequest env (wcalls s) ps) (\<lambda>s. s) s = Inr (sent, r1, s1)"
    using assms(4) by (auto simp: Epno_start_def split: sum.splits)
  note h = ask_here [OF assms(2) a]
  have "regd env p {?k} s s1" using h regd_mono [of env p "{}"] by (simp add: regd_empty)
  moreover have "regd env p {?k} s (registerVendorHandler env ?k p s1)" using h holds_regd regd_one holds_tab_ok by blast
  ultimately show ?thesis using assms(1,4) a h regd_none [OF _ assms(3)]
    by (auto simp: Epno_start_def codes_ok_def split: if_splits)
qed

lemma Change_start_regd:
  assumes "codes_ok env" and "tab_ok s" and "unheard env {GSCAN_EVENT_SIGNIFICANT_CHANGE_RESULTS} s" and "Change_start env p iface ps s = Inr (r, s')"
  shows "if r = WIFI_SUCCESS env then regd env p {GSCAN_EVENT_SIGNIFICANT_CHANGE_RESULTS} s s' else holds_cbs s s' (cbs s)"
proof -
  let ?k = GSCAN_EVENT_SIGNIFICANT_CHANGE_RESULTS
  obtain sent1 r1 s1 where a1: "ask env iface (\<lambda>r. r < 0) (Change_createSetupRequest env (wcalls s) ps) (\<lambda>s. s) s = Inr (sent1, r1, s1)"
    using assms(4) by (auto simp: Change_start_def split: sum.splits)
  note h1 = conjunct1 [OF ask_here [OF assms(2) a1]]
  show ?thesis
  proof (cases "r1 < 0")
    case True
    then show ?thesis using assms(1,4) a1 h1 by (auto simp: Change_start_def codes_ok_def)
  next
    case False
    obtain sent r2 s2 where a2: "ask env iface (\<lambda>r. r < 0) (createFeatureRequest env (wcalls s1) GSCAN_SUBCMD_ENABLE_GSCAN 1)
        (registerVendorHandler env ?k p) s1 = Inr (sent, r2, s2)"
      using assms(4) a1 False by (auto simp: Change_start_def split: sum.splits)
    note x = ask_regd [OF a2 holds_regd [OF h1 regd_one [OF holds_tab_ok [OF h1]]]]
    then show ?thesis using assms(1,4) False a1 a2 h1 regd_none [OF _ assms(3)]
      by (auto simp: Change_start_def codes_ok_def split: if_splits)
  qed
qed

lemma Anqpo_start_regd:
  assumes "tab_ok s" and "unheard env {GSCAN_EVENT_ANQPO_HOTSPOT_MATCH} s" and "Anqpo_start env p iface n ps s = Inr (r, s')"
  shows "if r = WIFI_SUCCESS env then regd env p {GSCAN_EVENT_ANQPO_HOTSPOT_MATCH} s s' else holds_cbs s s' (cbs s)"
proof -
  obtain sent r1 s1 where a: "ask env iface (\<lambda>r. r \<noteq> WIFI_SUCCESS env) (Anqpo_createRequest env (wcalls s) n ps)
      (registerVendorHandler env GSCAN_EVENT_ANQPO_HOTSPOT_MATCH p) s = Inr (sent, r1, s1)"
    using assms(3) by (auto simp: Anqpo_start_def split: sum.splits)
  note h = ask_regd [OF a regd_one [OF assms(1)]]
  then show ?thesis using assms(3) a holds_refl [OF assms(1)] regd_none [OF _ assms(2)]
    by (auto simp: Anqpo_start_def split: if_splits)
qed

lemma Rtt_start_regd:
  assumes "tab_ok s" and "Rtt_start env p iface n ps s = Inr (r, s')"
  shows "if r = WIFI_SUCCESS env then regd env p {RTT_EVENT_COMPLETE} s s' else holds_cbs s s' (cbs s)"
proof -
  obtain sent r1 s1 where a: "ask env iface (\<lambda>r. r \<noteq> WIFI_SUCCESS env) (Rtt_createSetupRequest env (wcalls s) n ps) (\<lambda>s. s) s = Inr (sent, r1, s1)"
    using assms(2) by (auto simp: Rtt_start_def split: sum.splits)
  note h = conjunct1 [OF ask_here [OF assms(1) a]]
  then have "regd env p {RTT_EVENT_COMPLETE} s (registerVendorHandler env RTT_EVENT_COMPLETE p s1)"
    using holds_regd regd_one holds_tab_ok by blast
  then show ?thesis using assms(2) a h by (auto simp: Rtt_start_def split: if_splits)
qed

lemma start_regd:
  assumes "codes_ok env" and "tab_ok s" and "unheard env (set (events_of cls)) s" and "start env p iface cls s = Inr (r, s')"
  shows "if r = WIFI_SUCCESS env then regd env p (set (events_of cls)) s s' else holds_cbs s s' (cbs s)"
  using assms Rssi_start_regd Full_start_regd Scan_start_regd Hotlist_start_regd Epno_start_regd Change_start_regd Anqpo_start_regd Rtt_start_regd
  by (cases cls) simp_all

section \<open>Cancelling\<close>

definition drop_events :: "wifi_env \<Rightarrow> int list \<Rightarrow> cb_info list \<Rightarrow> cb_info list" where
  "drop_events env ks bs = fold (\<lambda>k. del1 (keyed_by env k)) ks bs"

lemma send_then_holds:
  assumes "tab_ok s" and "send_then env iface bld f s = Inr (r, s')" and "\<And>s' bs. holds_cbs s s' bs \<Longrightarrow> holds_cbs s (f s') (g bs)"
  shows "holds_cbs s s' (g (cbs s))"
proof -
  obtain sent r1 s1 where a: "ask env iface (\<lambda>r. r \<noteq> WIFI_SUCCESS env) bld (\<lambda>s. s) s = Inr (sent, r1, s1)"
    using assms(2) by (auto simp: send_then_def split: sum.splits)
  note h = conjunct1 [OF ask_here [OF assms(1) a]]
  then show ?thesis using assms(2) a assms(3) [OF h] by (auto simp: send_then_def)
qed

lemma then_send_holds:
  assumes "holds_cbs s s' bs" and "then_send env iface bld s' = Inr (r, s'')"
  shows "holds_cbs s s'' bs"
proof -
  obtain sent r1 s1 where a: "ask env iface (\<lambda>r. r < 0) bld (\<lambda>s. s) s' = Inr (sent, r1, s1)"
    using assms(2) by (auto simp: then_send_def split: sum.splits)
  then show ?thesis using ask_cases [OF a assms(1)] assms by (auto simp: then_send_def)
qed

lemma send_drop:
  assumes "tab_ok s" and "send_then env iface bld (unregisterVendorHandler env k) s = Inr (r, s')"
  shows "holds_cbs s s' (drop_events env [k] (cbs s))"
  using send_then_holds [OF assms unregister_holds] by (simp add: drop_events_def)

lemma drop_scan_drops:
  "holds_cbs s s' bs \<Longrightarrow> holds_cbs s (drop_scan env s')
     (drop_events env [GSCAN_EVENT_COMPLETE_SCAN, GSCAN_EVENT_SCAN_RESULTS_AVAILABLE, GSCAN_EVENT_FULL_SCAN_RESULTS] bs)"
  using unregister_holds [OF unregister_holds [OF unregister_holds]] by (simp add: drop_scan_def drop_events_def)

lemma drop_hotlist_drops:
  "holds_cbs s s' bs \<Longrightarrow>
     holds_cbs s (drop_hotlist env s') (drop_events env [GSCAN_EVENT_HOTLIST_RESULTS_FOUND, GSCAN_EVENT_HOTLIST_RESULTS_LOST] bs)"
  using unregister_holds [OF unregister_holds] by (simp add: drop_hotlist_def drop_events_def)

lemma drop_first:
  "tab_ok s \<Longrightarrow> holds_cbs s (unregisterVendorHandler env k s) (drop_events env [k] (cbs s))"
  using unregister_holds [OF holds_refl] by (simp add: drop_events_def)

lemma cancel_holds:
  assumes "tab_ok s" and "cancel env iface cls s = Inr (r, s')"
  shows "holds_cbs s s' (drop_events env (events_of cls) (cbs s))"
  using assms send_drop [OF assms(1)] then_send_holds [OF drop_first [OF assms(1)]]
    then_send_holds [OF drop_hotlist_drops [OF holds_refl [OF assms(1)]]] send_then_holds [OF assms(1) _ drop_scan_drops]
  by (cases cls) (simp_all add: cancels Let_def)

lemma cancel_specific_holds:
  assumes "tab_ok s" and "cancel_specific env iface n addr s = Inr (r, s')"
  shows "holds_cbs s s' (drop_events env [RTT_EVENT_COMPLETE] (cbs s))"
  using assms(2) send_drop [OF assms(1)] by (simp add: cancel_specific_def)

end
