(* ===== verification/Wifi_Safe.thy ===== *)
theory Wifi_Safe
  imports Wifi_Start
begin

text \<open>
  The parts of the Wi-Fi HAL that hold no command of their own never use one that was deleted: assembling and sending requests, and reading
  the data of an event.
\<close>

named_theorems no_uaf

lemma run_stop: "run_prog env ps r ops \<noteq> Stop Use_after_free"
proof (induction env ps r ops rule: run_prog.induct)
  case (2 env a v ps r ops)
  show ?case by (cases "x_put env ops a v < 0") (use "2.IH" [OF refl] in \<open>simp_all add: Let_def\<close>)
next
  case (4 env c a bs ps r ops)
  show ?case
  proof (cases "x_start env ops a")
    case True
    then show ?thesis using 4 by (cases "run_prog env bs r (ops @ [N_start a])") (auto simp: Let_def)
  next
    case False
    then show ?thesis using 4 by (cases "run_prog env bs r ops") (auto simp: Let_def)
  qed
qed simp_all

lemma create_vendor_uaf: "create_vendor env h vid subcmd q \<noteq> Inl Use_after_free"
  by (auto simp: create_vendor_def put_def Let_def split: option.splits prod.splits sum.splits)

lemma build_uaf [no_uaf]: "build env h vid subcmd fin ps q \<noteq> Inl Use_after_free"
  using create_vendor_uaf [of env h vid subcmd q] run_stop
  by (auto simp: build_def split: sum.splits option.splits flow.splits)

lemma Anqpo_uaf [no_uaf]: "Anqpo_createRequest env h n ps q \<noteq> Inl Use_after_free"
  using create_vendor_uaf [of env h GOOGLE_OUI GSCAN_SUBCMD_ANQPO_CONFIG q] run_stop
  by (auto simp: Anqpo_createRequest_def simp del: run_prog.simps split: sum.splits option.splits flow.splits)

lemmas requests = Rssi_createRequest_def Full_createRequest_def Scan_createSetupRequest_def Scan_createScanConfigRequest_def
  Scan_createStartRequest_def Scan_createStopRequest_def createFeatureRequest_def Hotlist_createSetupRequest_def
  Hotlist_createTeardownRequest_def Epno_createSetupRequest_def Epno_createTeardownRequest_def Change_createSetupRequest_def
  Change_createTeardownRequest_def Rtt_createSetupRequest_def Rtt_createTeardownRequest_def

lemma request_uaf: "requestResponse env q s \<noteq> Inl Use_after_free"
  by (auto simp: requestResponse_def Let_def split: option.splits simp del: recv_loop.simps)

lemma ask_uaf [no_uaf]:
  assumes "\<And>q. bld q \<noteq> Inl Use_after_free"
  shows "ask env iface bad bld pre s \<noteq> Inl Use_after_free"
  using assms [of "WifiRequest_new (nl80211_family_id s) iface"] request_uaf [of env _ "pre s"]
  by (auto simp: ask_def split: sum.splits)

lemma start_uaf: "start env p iface cls s \<noteq> Inl Use_after_free"
proof (cases cls)
  case (C_scan ps)
  then show ?thesis by (auto simp: Scan_start_def requests no_uaf split: sum.splits)
qed (auto simp: Rssi_start_def Full_start_def Hotlist_start_def Epno_start_def Change_start_def Anqpo_start_def Rtt_start_def
    requests no_uaf split: sum.splits)

lemma cancel_uaf: "cancel env iface cls s \<noteq> Inl Use_after_free"
  by (cases cls) (auto simp: cancels send_then_def then_send_def requests no_uaf Let_def split: sum.splits)

lemma cancel_specific_uaf: "cancel_specific env iface n addr s \<noteq> Inl Use_after_free"
  by (auto simp: cancel_specific_def send_then_def requests no_uaf split: sum.splits)

section \<open>Events\<close>

lemma readable_uaf: "readable n bs k = Inl Use_after_free \<longleftrightarrow> n \<le> length bs \<and> k = Inl Use_after_free"
  by (simp add: readable_def)

lemma loop_uaf: "(\<And>x s. f x s \<noteq> Inl Use_after_free) \<Longrightarrow> loop f xs s \<noteq> Inl Use_after_free"
  by (induction xs arbitrary: s) (auto split: sum.splits)

lemma told_uaf: "told env h i e cls \<noteq> Inl Use_after_free"
proof (cases cls)
  case (C_epno ps)
  have p: "pno_result d \<noteq> Inl Use_after_free" for d by (simp add: pno_result_def Let_def)
  have "loop (\<lambda>k rs. case pno_result (field (k * sizeof_pno_result) sizeof_pno_result d) of
      Inl x \<Rightarrow> Inl x | Inr r \<Rightarrow> Inr (True, rs @ [r])) xs rs \<noteq> Inl Use_after_free" for d xs rs
    using p by (intro loop_uaf) (auto split: sum.splits)
  then show ?thesis using C_epno by (auto simp: Epno_handleEvent_def Let_def split: option.splits sum.splits)
qed (auto simp: Rssi_handleEvent_def wifi_handle_full_scan_event_def Scan_handleEvent_def Hotlist_handleEvent_def Change_handleEvent_def
    Anqpo_handleEvent_def readable_uaf Let_def split: option.splits if_splits)

lemma second_uaf: "second_element ty at rest bs \<noteq> Inl Use_after_free"
  by (auto simp: second_element_def readable_uaf Let_def)

lemma location_uaf: "rtt_location sz bs \<noteq> Inl Use_after_free"
  using second_uaf by (auto simp: rtt_location_def readable_uaf Let_def split: sum.splits)

lemma inner_uaf: "rtt_inner env h x st \<noteq> Inl Use_after_free"
  using location_uaf by (cases x) (auto simp: rtt_inner_def readable_uaf split: sum.splits)

lemma outer_uaf: "rtt_outer env h x st \<noteq> Inl Use_after_free"
proof -
  have "loop (rtt_inner env h) xs st \<noteq> Inl Use_after_free" for xs by (rule loop_uaf [OF inner_uaf])
  then show ?thesis by (cases x) (auto simp: rtt_outer_def readable_uaf split: sum.splits)
qed

lemma results_uaf: "rtt_results env h e st \<noteq> Inl Use_after_free"
  using loop_uaf [of "rtt_outer env h", OF outer_uaf] by (auto simp: rtt_results_def split: option.splits)

end
