(* ===== verification/Wifi_Life.thy ===== *)
theory Wifi_Life
  imports Wifi_Safe Wifi_Init
begin

text \<open>
  The life of the Wi-Fi HAL's commands while the framework's calls and the event loop interleave. The framework makes one call
  at a time. \<^verbatim>\<open>wifi_cancel_cmd\<close> is taken apart into its three steps, and the dispatch of an event into the lock section, the
  handler and the release; the other calls are one step. A command is never used after it was deleted and none is lost, if the
  framework starts no two commands for one event or with one request id. If it does, the first-match removal of
  \<^verbatim>\<open>common.cpp\<close> leaves a handler that points to a deleted command.
\<close>

section \<open>The system\<close>

record life =
  hal :: hal_info
  taken :: "(nat \<times> bool) option"
  busy :: "(cb_info \<times> nl_event \<times> bool) option"

datatype act =
  A_start wclass int int
| A_temp wclass int int
| A_range_cancel int int int "u8 list list"
| A_take int
| A_run
| A_drop
| A_enter nl_event
| A_body
| A_leave

definition with_hal :: "life \<Rightarrow> (stop + (int \<times> hal_info)) \<Rightarrow> stop + life" where
  "with_hal s x = (case x of Inl e \<Rightarrow> Inl e | Inr (r, h) \<Rightarrow> Inr (s\<lparr>hal := h\<rparr>))"

fun step :: "wifi_env \<Rightarrow> act \<Rightarrow> life \<Rightarrow> stop + life" where
  "step env (A_start cls i iface) s = with_hal s (wifi_start env cls i iface (hal s))"
| "step env (A_temp cls i iface) s = with_hal s (cancel_temp env cls i iface (hal s))"
| "step env (A_range_cancel i iface n addr) s = with_hal s (wifi_rtt_range_cancel env i iface n addr (hal s))"
| "step env (A_take i) s =
     (let (p, h) = wifi_unregister_cmd i (hal s) in Inr (s\<lparr>hal := h, taken := (if p = null then None else Some (p, False))\<rparr>))"
| "step env A_run s =
     (case taken s of
        Some (p, False) \<Rightarrow> (case cancel_obj env p (hal s) of Inl e \<Rightarrow> Inl e | Inr (r, h) \<Rightarrow> Inr (s\<lparr>hal := h, taken := Some (p, True)\<rparr>))
      | _ \<Rightarrow> Inr s)"
| "step env A_drop s =
     (case taken s of
        Some (p, True) \<Rightarrow> (case releaseRef p (hal s) of Inl e \<Rightarrow> Inl e | Inr h \<Rightarrow> Inr (s\<lparr>hal := h, taken := None\<rparr>))
      | _ \<Rightarrow> Inr s)"
| "step env (A_enter e) s =
     (case dispatch_enter env e (hal s) of
        Inl x \<Rightarrow> Inl x
      | Inr (None, h) \<Rightarrow> Inr (s\<lparr>hal := h\<rparr>)
      | Inr (Some b, h) \<Rightarrow> Inr (s\<lparr>hal := h, busy := Some (b, e, False)\<rparr>))"
| "step env A_body s =
     (case busy s of
        Some (b, e, False) \<Rightarrow> (case dispatch_body env b e (hal s) of Inl x \<Rightarrow> Inl x | Inr h \<Rightarrow> Inr (s\<lparr>hal := h, busy := Some (b, e, True)\<rparr>))
      | _ \<Rightarrow> Inr s)"
| "step env A_leave s =
     (case busy s of
        Some (b, e, True) \<Rightarrow> (case dispatch_leave b (hal s) of Inl x \<Rightarrow> Inl x | Inr h \<Rightarrow> Inr (s\<lparr>hal := h, busy := None\<rparr>))
      | _ \<Rightarrow> Inr s)"

text \<open>The order of each thread, and the discipline of the framework: a request id that no command has, and events that nobody
  handles.\<close>

fun allowed :: "wifi_env \<Rightarrow> act \<Rightarrow> life \<Rightarrow> bool" where
  "allowed env (A_start cls i iface) s \<longleftrightarrow>
     taken s = None \<and> (\<forall>p < next_obj (hal s). \<forall>c. objs (hal s) p = Some c \<longrightarrow> mId c \<noteq> i) \<and> unheard env (set (events_of cls)) (hal s)"
| "allowed env (A_temp cls i iface) s \<longleftrightarrow> taken s = None"
| "allowed env (A_range_cancel i iface n addr) s \<longleftrightarrow> taken s = None"
| "allowed env (A_take i) s \<longleftrightarrow> taken s = None"
| "allowed env A_run s \<longleftrightarrow> (\<exists>p. taken s = Some (p, False))"
| "allowed env A_drop s \<longleftrightarrow> (\<exists>p. taken s = Some (p, True))"
| "allowed env (A_enter e) s \<longleftrightarrow> busy s = None"
| "allowed env A_body s \<longleftrightarrow> (\<exists>b e. busy s = Some (b, e, False))"
| "allowed env A_leave s \<longleftrightarrow> (\<exists>b e. busy s = Some (b, e, True))"

inductive reach :: "wifi_env \<Rightarrow> life \<Rightarrow> bool" for env where
  reach_boot: "reach env \<lparr>hal = boot family cb_array cmd_array, taken = None, busy = None\<rparr>"
| reach_step: "reach env s \<Longrightarrow> allowed env a s \<Longrightarrow> step env a s = Inr s' \<Longrightarrow> reach env s'"

section \<open>The invariant\<close>

text \<open>Who holds a reference: the table of commands, a cancellation, the event loop.\<close>

definition held :: "cmd_info list \<Rightarrow> (nat \<times> bool) option \<Rightarrow> nat option \<Rightarrow> nat \<Rightarrow> int" where
  "held cm tk bz p = (if p \<in> ci_cmd ` set cm then 1 else 0) + (if map_option fst tk = Some p then 1 else 0) + (if bz = Some p then 1 else 0)"

definition refs_ok :: "(nat \<rightharpoonup> WifiCommand) \<Rightarrow> (nat \<Rightarrow> int) \<Rightarrow> bool" where
  "refs_ok ob hd' \<longleftrightarrow> (\<forall>p c. ob p = Some c \<longrightarrow> mRefs c = hd' p \<and> 0 < hd' p) \<and> (\<forall>p. ob p = None \<longrightarrow> hd' p = 0)"

text \<open>A handler belongs to a command that will drop it: one in the table, or one that is about to be cancelled.\<close>

definition owned :: "wifi_env \<Rightarrow> (nat \<rightharpoonup> WifiCommand) \<Rightarrow> cmd_info list \<Rightarrow> (nat \<times> bool) option \<Rightarrow> cb_info \<Rightarrow> bool" where
  "owned env ob cm tk b \<longleftrightarrow>
     (\<exists>p k c. b = entry env k p \<and> ob p = Some c \<and> k \<in> set (events_of (c_class c)) \<and> (p \<in> ci_cmd ` set cm \<or> tk = Some (p, False)))"

definition ids_ok :: "(nat \<rightharpoonup> WifiCommand) \<Rightarrow> nat \<Rightarrow> cmd_info list \<Rightarrow> bool" where
  "ids_ok ob nx cm \<longleftrightarrow>
     (\<forall>p c. ob p = Some c \<longrightarrow> 0 < p \<and> p < nx) \<and>
     (\<forall>p q c d. ob p = Some c \<longrightarrow> ob q = Some d \<longrightarrow> mId c = mId d \<longrightarrow> p = q) \<and>
     distinct (map ci_cmd cm) \<and> (\<forall>x \<in> set cm. \<exists>c. ob (ci_cmd x) = Some c \<and> mId c = ci_id x)"

definition life_inv :: "wifi_env \<Rightarrow> (nat \<rightharpoonup> WifiCommand) \<Rightarrow> nat \<Rightarrow> cmd_info list \<Rightarrow> cb_info list \<Rightarrow> (nat \<times> bool) option \<Rightarrow> nat option \<Rightarrow> bool" where
  "life_inv env ob nx cm cb tk bz \<longleftrightarrow>
     0 < nx \<and> ids_ok ob nx cm \<and> refs_ok ob (held cm tk bz) \<and> (\<forall>p. map_option fst tk = Some p \<longrightarrow> p \<notin> ci_cmd ` set cm) \<and>
     (\<forall>b \<in> set cb. owned env ob cm tk b) \<and> distinct (map vendor_subcmd cb)"

definition inv_of :: "wifi_env \<Rightarrow> life \<Rightarrow> bool" where
  "inv_of env s \<longleftrightarrow> tab_ok (hal s) \<and>
     life_inv env (objs (hal s)) (next_obj (hal s)) (cmds (hal s)) (cbs (hal s)) (taken s) (map_option (\<lambda>(b, e, f). cb_arg b) (busy s)) \<and>
     (\<forall>b e f. busy s = Some (b, e, f) \<longrightarrow> (\<exists>k p. b = entry env k p))"

subsection \<open>Changes to the parts\<close>

lemma live_held: "life_inv env ob nx cm cb tk bz \<Longrightarrow> held cm tk bz p > 0 \<Longrightarrow> \<exists>c. ob p = Some c \<and> mRefs c = held cm tk bz p"
  by (cases "ob p") (auto simp: life_inv_def refs_ok_def)

lemma drop_events_subset: "set (drop_events env ks cb) \<subseteq> set cb"
  unfolding drop_events_def
proof (induction ks arbitrary: cb)
  case (Cons k ks)
  show ?case using Cons [of "del1 (keyed_by env k) cb"] del1_subset [of "keyed_by env k" cb] by auto
qed simp

lemma drop_events_distinct: "distinct (map f cb) \<Longrightarrow> distinct (map f (drop_events env ks cb))"
  unfolding drop_events_def by (induction ks arbitrary: cb) (simp_all add: del1_distinct)

lemma drop_events_gone:
  assumes "distinct (map vendor_subcmd cb)" and "\<forall>b \<in> set cb. \<exists>k p. b = entry env k p"
  shows "set (drop_events env ks cb) = {b \<in> set cb. vendor_subcmd b \<notin> set ks}"
  using assms unfolding drop_events_def
proof (induction ks arbitrary: cb)
  case (Cons k ks)
  have "del1 (keyed_by env k) cb = filter (\<lambda>b. vendor_subcmd b \<noteq> k) cb"
  proof -
    have "\<forall>b \<in> set cb. keyed_by env k b \<longleftrightarrow> vendor_subcmd b = k" using Cons.prems(2) by (auto simp: entry_def keyed_by_def)
    then show ?thesis using Cons.prems(1) by (induction cb) (auto intro!: filter_True [symmetric], metis image_eqI)
  qed
  then show ?case using Cons.IH [of "filter (\<lambda>b. vendor_subcmd b \<noteq> k) cb"] Cons.prems by (auto simp: distinct_map_filter)
qed simp

lemma inv_entries: "life_inv env ob nx cm cb tk bz \<Longrightarrow> \<forall>b \<in> set cb. \<exists>k p. b = entry env k p"
  unfolding life_inv_def owned_def by blast

lemma inv_drop_events: "life_inv env ob nx cm cb tk bz \<Longrightarrow> life_inv env ob nx cm (drop_events env ks cb) tk bz"
  using drop_events_subset [of env ks cb] by (auto simp: life_inv_def drop_events_distinct)

lemma inv_bump: "life_inv env ob nx cm cb tk bz \<Longrightarrow> life_inv env ob (nx + 1) cm cb tk bz"
  unfolding life_inv_def ids_ok_def by (auto dest: less_SucI)

lemma inv_add:
  assumes i: "life_inv env ob nx cm cb tk bz" and n: "\<forall>p c. ob p = Some c \<longrightarrow> mId c \<noteq> mId d" and d: "mRefs d = 1"
    and e: "\<forall>b \<in> set es. \<exists>k \<in> set (events_of (c_class d)). b = entry env k nx" "distinct (map vendor_subcmd (cb @ es))"
  shows "life_inv env (ob(nx \<mapsto> d)) (nx + 1) (cm @ [\<lparr>ci_id = mId d, ci_cmd = nx\<rparr>]) (cb @ es) tk bz"
proof -
  have n': "\<forall>p c. ob p = Some c \<longrightarrow> mId d \<noteq> mId c" using n by metis
  have fresh: "ob nx = None" using i by (cases "ob nx") (auto simp: life_inv_def ids_ok_def)
  then have h: "held cm tk bz nx = 0" using i by (simp add: life_inv_def refs_ok_def)
  then have nh: "nx \<notin> ci_cmd ` set cm" "map_option fst tk \<noteq> Some nx" "bz \<noteq> Some nx" by (auto simp: held_def split: if_splits)
  have "held (cm @ [\<lparr>ci_id = mId d, ci_cmd = nx\<rparr>]) tk bz = (held cm tk bz)(nx := 1)" using nh by (auto simp: held_def fun_eq_iff)
  moreover have "refs_ok (ob(nx \<mapsto> d)) ((held cm tk bz)(nx := 1))" using i d by (auto simp: life_inv_def refs_ok_def)
  moreover have "ids_ok (ob(nx \<mapsto> d)) (nx + 1) (cm @ [\<lparr>ci_id = mId d, ci_cmd = nx\<rparr>])"
    using i n n' nh fresh unfolding life_inv_def ids_ok_def by (auto simp: less_SucI) 
  moreover have "\<forall>b \<in> set cb. owned env (ob(nx \<mapsto> d)) (cm @ [\<lparr>ci_id = mId d, ci_cmd = nx\<rparr>]) tk b"
  proof
    fix b assume "b \<in> set cb"
    then obtain p k c where "b = entry env k p" "ob p = Some c" "k \<in> set (events_of (c_class c))" "p \<in> ci_cmd ` set cm \<or> tk = Some (p, False)"
      using i by (auto simp: life_inv_def owned_def)
    moreover from this fresh have "p \<noteq> nx" by auto
    ultimately show "owned env (ob(nx \<mapsto> d)) (cm @ [\<lparr>ci_id = mId d, ci_cmd = nx\<rparr>]) tk b" by (auto simp: owned_def)
  qed
  moreover have "\<forall>b \<in> set es. owned env (ob(nx \<mapsto> d)) (cm @ [\<lparr>ci_id = mId d, ci_cmd = nx\<rparr>]) tk b"
    using e(1) by (fastforce simp: owned_def)
  moreover have "\<forall>p. map_option fst tk = Some p \<longrightarrow> p \<notin> ci_cmd ` set (cm @ [\<lparr>ci_id = mId d, ci_cmd = nx\<rparr>])"
    using i nh by (auto simp: life_inv_def)
  ultimately show ?thesis using e(2) unfolding life_inv_def by auto
qed

text \<open>Any step that makes no command: every command that is left is the one it was, and every handler still has its owner.\<close>

lemma held_owner: "p \<in> ci_cmd ` set cm \<or> tk = Some (p, f) \<or> bz = Some p \<Longrightarrow> 0 < held cm tk bz p"
  by (auto simp: held_def)

lemma inv_change:
  assumes i: "life_inv env ob nx cm cb tk bz" and r: "refs_ok ob' (held cm' tk' bz')"
    and same: "\<And>q c'. ob' q = Some c' \<Longrightarrow> \<exists>c. ob q = Some c \<and> c_class c' = c_class c \<and> mId c' = mId c"
    and cm: "set cm' \<subseteq> set cm" "distinct (map ci_cmd cm')" "\<forall>p. map_option fst tk' = Some p \<longrightarrow> p \<notin> ci_cmd ` set cm'"
    and cb: "set cb' \<subseteq> set cb" "distinct (map vendor_subcmd cb')" "\<And>b. b \<in> set cb' \<Longrightarrow> cb_arg b \<in> ci_cmd ` set cm' \<or> tk' = Some (cb_arg b, False)"
  shows "life_inv env ob' nx cm' cb' tk' bz'"
proof -
  have alive: "\<exists>c c'. ob p = Some c \<and> ob' p = Some c' \<and> c_class c' = c_class c \<and> mId c' = mId c" if "0 < held cm' tk' bz' p" for p
  proof -
    have "ob' p \<noteq> None" using that r unfolding refs_ok_def by (metis less_irrefl)
    then obtain c' where "ob' p = Some c'" by blast
    then show ?thesis using same by blast
  qed
  have "owned env ob' cm' tk' b" if b: "b \<in> set cb'" for b
  proof -
    have "owned env ob cm tk b" using b cb(1) i by (auto simp: life_inv_def)
    then obtain p k c where e: "b = entry env k p" "ob p = Some c" "k \<in> set (events_of (c_class c))" by (auto simp: owned_def)
    have o: "p \<in> ci_cmd ` set cm' \<or> tk' = Some (p, False)" using cb(3) [OF b] e(1) by (simp add: entry_def)
    then obtain c' where "ob' p = Some c'" "c_class c' = c_class c" using alive [OF held_owner] e(2) by force
    then show ?thesis using e o unfolding owned_def by (intro exI [of _ p] exI [of _ k] exI [of _ c']) simp
  qed
  moreover have "ids_ok ob' nx cm'"
  proof -
    have "\<exists>c. ob' (ci_cmd x) = Some c \<and> mId c = ci_id x" if "x \<in> set cm'" for x
    proof -
      have "\<exists>c. ob (ci_cmd x) = Some c \<and> mId c = ci_id x" using that cm(1) i by (auto simp: life_inv_def ids_ok_def)
      moreover have "0 < held cm' tk' bz' (ci_cmd x)" using that by (auto intro: held_owner)
      ultimately show ?thesis using alive [of "ci_cmd x"] by auto
    qed
    moreover have "\<forall>p c. ob p = Some c \<longrightarrow> 0 < p \<and> p < nx" "\<forall>p q c d. ob p = Some c \<longrightarrow> ob q = Some d \<longrightarrow> mId c = mId d \<longrightarrow> p = q"
      using i by (auto simp: life_inv_def ids_ok_def)
    moreover from this same have "0 < p \<and> p < nx" if "ob' p = Some c" for p c using that by blast
    moreover from calculation(3) same have "p = q" if "ob' p = Some c" "ob' q = Some d" "mId c = mId d" for p q c d using that by metis
    ultimately show ?thesis using cm(2) unfolding ids_ok_def by blast
  qed
  ultimately show ?thesis using i r cm cb by (auto simp: life_inv_def)
qed

definition unref :: "(nat \<rightharpoonup> WifiCommand) \<Rightarrow> nat \<Rightarrow> WifiCommand \<Rightarrow> (nat \<rightharpoonup> WifiCommand)" where
  "unref ob p c = (if mRefs c - 1 = 0 then ob(p := None) else ob(p \<mapsto> c\<lparr>mRefs := mRefs c - 1\<rparr>))"

lemma releaseRef_unref: "objs s p = Some c \<Longrightarrow> releaseRef p s = Inr (s\<lparr>objs := unref (objs s) p c\<rparr>)"
  by (simp add: releaseRef_def unref_def Let_def)

lemma refs_unref:
  assumes "refs_ok ob h" and "ob p = Some c" and "h' = h(p := h p - 1)"
  shows "refs_ok (unref ob p c) h'"
proof -
  have "mRefs c = h p" and "0 < h p" using assms(1,2) by (auto simp: refs_ok_def)
  moreover from this have "h p \<noteq> 1 \<Longrightarrow> 1 < h p" by arith
  ultimately show ?thesis using assms unfolding refs_ok_def unref_def by auto
qed

lemma unref_same: "ob p = Some c \<Longrightarrow> unref ob p c q = Some c' \<Longrightarrow> \<exists>c. ob q = Some c \<and> c_class c' = c_class c \<and> mId c' = mId c"
  by (auto simp: unref_def split: if_splits)

lemma arg_owner: "life_inv env ob nx cm cb tk bz \<Longrightarrow> b \<in> set cb \<Longrightarrow> cb_arg b \<in> ci_cmd ` set cm \<or> tk = Some (cb_arg b, False)"
  by (fastforce simp: life_inv_def owned_def entry_def)

lemma inv_drop_taken:
  assumes i: "life_inv env ob nx cm cb (Some (p, True)) bz" and c: "ob p = Some c"
  shows "life_inv env (unref ob p c) nx cm cb None bz"
proof (rule inv_change [OF i])
  have "held cm None bz = (held cm (Some (p, True)) bz)(p := held cm (Some (p, True)) bz p - 1)" by (auto simp: held_def fun_eq_iff)
  then show "refs_ok (unref ob p c) (held cm None bz)" using i c by (auto simp: life_inv_def intro: refs_unref)
  show "unref ob p c q = Some c' \<Longrightarrow> \<exists>c. ob q = Some c \<and> c_class c' = c_class c \<and> mId c' = mId c" for q c' using c by (rule unref_same)
qed (use i arg_owner [OF i] in \<open>auto simp: life_inv_def ids_ok_def\<close>)

lemma inv_leave:
  assumes i: "life_inv env ob nx cm cb tk (Some p)" and c: "ob p = Some c"
  shows "life_inv env (unref ob p c) nx cm cb tk None"
proof (rule inv_change [OF i])
  have "held cm tk None = (held cm tk (Some p))(p := held cm tk (Some p) p - 1)" by (auto simp: held_def fun_eq_iff)
  then show "refs_ok (unref ob p c) (held cm tk None)" using i c by (auto simp: life_inv_def intro: refs_unref)
  show "unref ob p c q = Some c' \<Longrightarrow> \<exists>c. ob q = Some c \<and> c_class c' = c_class c \<and> mId c' = mId c" for q c' using c by (rule unref_same)
qed (use i arg_owner [OF i] in \<open>auto simp: life_inv_def ids_ok_def\<close>)

lemma inv_enter:
  assumes i: "life_inv env ob nx cm cb tk None" and c: "ob p = Some c"
  shows "life_inv env (ob(p \<mapsto> c\<lparr>mRefs := mRefs c + 1\<rparr>)) nx cm cb tk (Some p)"
proof (rule inv_change [OF i])
  have "held cm tk (Some p) = (held cm tk None)(p := held cm tk None p + 1)" by (auto simp: held_def fun_eq_iff)
  moreover have "0 \<le> held cm tk None p" by (simp add: held_def)
  ultimately show "refs_ok (ob(p \<mapsto> c\<lparr>mRefs := mRefs c + 1\<rparr>)) (held cm tk (Some p))" using i c by (auto simp: life_inv_def refs_ok_def)
qed (use i c arg_owner [OF i] in \<open>auto simp: life_inv_def ids_ok_def split: if_splits\<close>)

lemma inv_touch:
  assumes i: "life_inv env ob nx cm cb tk bz" and c: "ob p = Some c"
  shows "life_inv env (ob(p \<mapsto> c\<lparr>c_rtt := st\<rparr>)) nx cm cb tk bz"
proof (rule inv_change [OF i])
  show "refs_ok (ob(p \<mapsto> c\<lparr>c_rtt := st\<rparr>)) (held cm tk bz)" using i c by (auto simp: life_inv_def refs_ok_def)
qed (use i c arg_owner [OF i] in \<open>auto simp: life_inv_def ids_ok_def split: if_splits\<close>)

lemma inv_cancel:
  assumes i: "life_inv env ob nx cm cb (Some (p, False)) bz" and c: "ob p = Some c"
  shows "life_inv env ob nx cm (drop_events env (events_of (c_class c)) cb) (Some (p, True)) bz"
proof (rule inv_change [OF i])
  have "held cm (Some (p, True)) bz = held cm (Some (p, False)) bz" by (simp add: held_def fun_eq_iff)
  then show "refs_ok ob (held cm (Some (p, True)) bz)" using i by (simp add: life_inv_def)
  show "cb_arg b \<in> ci_cmd ` set cm \<or> Some (p, True) = Some (cb_arg b, False)" if "b \<in> set (drop_events env (events_of (c_class c)) cb)" for b
  proof -
    have b: "b \<in> set cb" "vendor_subcmd b \<notin> set (events_of (c_class c))"
      using that drop_events_gone [OF _ inv_entries [OF i]] i by (auto simp: life_inv_def)
    then obtain q k d where "b = entry env k q" "ob q = Some d" "k \<in> set (events_of (c_class d))" "q \<in> ci_cmd ` set cm \<or> p = q"
      using i by (fastforce simp: life_inv_def owned_def)
    then show ?thesis using b(2) c by (auto simp: entry_def)
  qed
qed (use i drop_events_subset in \<open>auto simp: life_inv_def ids_ok_def drop_events_distinct\<close>)

lemma inv_ids:
  assumes "life_inv env ob nx cm cb tk bz" and "x \<in> set cm" and "y \<in> set cm" and "ci_id x = ci_id y"
  shows "x = y"
proof -
  have "ci_cmd x = ci_cmd y" using assms unfolding life_inv_def ids_ok_def by metis
  then show ?thesis using assms by (auto simp: life_inv_def ids_ok_def distinct_map inj_on_def)
qed

lemma del_cmd:
  assumes "life_inv env ob nx cm cb tk bz" and "x \<in> set cm"
  shows "set (del1 (\<lambda>c. ci_id c = ci_id x) cm) = set cm - {x}"
    and "ci_cmd ` set (del1 (\<lambda>c. ci_id c = ci_id x) cm) = ci_cmd ` set cm - {ci_cmd x}"
    and "distinct (map ci_cmd (del1 (\<lambda>c. ci_id c = ci_id x) cm))"
proof -
  have d: "distinct (map ci_cmd cm)" using assms(1) by (simp add: life_inv_def ids_ok_def)
  have "inj_on ci_id (set cm)" using inv_ids [OF assms(1)] by (auto simp: inj_on_def)
  moreover have "distinct cm" using d by (simp add: distinct_map)
  ultimately have "distinct (map ci_id cm)" by (simp add: distinct_map)
  then have "del1 (\<lambda>c. ci_id c = ci_id x) cm = filter (\<lambda>c. ci_id c \<noteq> ci_id x) cm" by (rule del1_filter) simp
  then show s: "set (del1 (\<lambda>c. ci_id c = ci_id x) cm) = set cm - {x}" using inv_ids [OF assms(1) _ assms(2)] by auto
  have "inj_on ci_cmd (set cm)" using d by (simp add: distinct_map)
  then show "ci_cmd ` set (del1 (\<lambda>c. ci_id c = ci_id x) cm) = ci_cmd ` set cm - {ci_cmd x}"
    unfolding s using assms(2) by (simp add: inj_on_image_set_diff)
  show "distinct (map ci_cmd (del1 (\<lambda>c. ci_id c = ci_id x) cm))" by (rule del1_distinct [OF d])
qed

lemma inv_take:
  assumes i: "life_inv env ob nx cm cb None bz" and x: "x \<in> set cm"
  shows "life_inv env ob nx (del1 (\<lambda>c. ci_id c = ci_id x) cm) cb (Some (ci_cmd x, False)) bz"
proof (rule inv_change [OF i])
  note d = del_cmd [OF i x]
  have "held (del1 (\<lambda>c. ci_id c = ci_id x) cm) (Some (ci_cmd x, False)) bz = held cm None bz"
    unfolding held_def d(2) using x by (auto simp: fun_eq_iff)
  then show "refs_ok ob (held (del1 (\<lambda>c. ci_id c = ci_id x) cm) (Some (ci_cmd x, False)) bz)" using i by (simp add: life_inv_def)
  show "cb_arg b \<in> ci_cmd ` set (del1 (\<lambda>c. ci_id c = ci_id x) cm) \<or> Some (ci_cmd x, False) = Some (cb_arg b, False)" if "b \<in> set cb" for b
    using arg_owner [OF i that] d(2) by auto
qed (use i del_cmd [OF i x] in \<open>auto simp: life_inv_def\<close>)

lemma inv_finish:
  assumes i: "life_inv env ob nx cm cb tk (Some p)" and c: "ob p = Some c" "set (events_of (c_class c)) \<subseteq> set ks"
    and x: "x \<in> set cm" "ci_id x = mId c"
  shows "ci_cmd x = p \<and> life_inv env (unref ob p c) nx (del1 (\<lambda>c. ci_id c = ci_id x) cm) (drop_events env ks cb) tk (Some p)"
proof -
  have p: "ci_cmd x = p" using i c(1) x unfolding life_inv_def ids_ok_def by metis
  note d = del_cmd [OF i x(1), unfolded p]
  have "life_inv env (unref ob p c) nx (del1 (\<lambda>c. ci_id c = ci_id x) cm) (drop_events env ks cb) tk (Some p)"
  proof (rule inv_change [OF i])
    have "p \<in> ci_cmd ` set cm" using x(1) p by auto
    then have "held (del1 (\<lambda>c. ci_id c = ci_id x) cm) tk (Some p) = (held cm tk (Some p))(p := held cm tk (Some p) p - 1)"
      unfolding held_def d(2) by (auto simp: fun_eq_iff)
    then show "refs_ok (unref ob p c) (held (del1 (\<lambda>c. ci_id c = ci_id x) cm) tk (Some p))"
      using i c(1) by (auto simp: life_inv_def intro: refs_unref)
    show "unref ob p c q = Some c' \<Longrightarrow> \<exists>c. ob q = Some c \<and> c_class c' = c_class c \<and> mId c' = mId c" for q c' using c(1) by (rule unref_same)
    show "cb_arg b \<in> ci_cmd ` set (del1 (\<lambda>c. ci_id c = ci_id x) cm) \<or> tk = Some (cb_arg b, False)" if "b \<in> set (drop_events env ks cb)" for b
    proof -
      have b: "b \<in> set cb" "vendor_subcmd b \<notin> set ks"
        using that drop_events_gone [OF _ inv_entries [OF i]] i by (auto simp: life_inv_def)
      then have "owned env ob cm tk b" using i by (simp add: life_inv_def)
      then have "cb_arg b \<noteq> p" using b(2) c by (auto simp: owned_def entry_def)
      then show ?thesis using arg_owner [OF i b(1)] d(2) by auto
    qed
  qed (use i d drop_events_subset in \<open>auto simp: life_inv_def drop_events_distinct\<close>)
  with p show ?thesis by blast
qed

lemma inv_idle: "life_inv env ob nx [] cb None None \<Longrightarrow> ob = Map.empty \<and> cb = []"
proof
  assume i: "life_inv env ob nx [] cb None None"
  have "held [] None None p = 0" for p by (simp add: held_def)
  then show o: "ob = Map.empty" using i unfolding life_inv_def refs_ok_def by (metis less_irrefl not_None_eq ext)
  show "cb = []"
  proof (cases cb)
    case (Cons b bs)
    then show ?thesis using i o by (auto simp: life_inv_def owned_def)
  qed simp
qed

section \<open>Every step keeps it\<close>

lemma unregister_cmd_parts:
  assumes "tab_ok s" and "wifi_unregister_cmd i s = (q, s')"
  shows "tab_ok s' \<and> objs s' = objs s \<and> next_obj s' = next_obj s \<and> cbs s' = cbs s \<and> cmds s' = del1 (\<lambda>c. ci_id c = i) (cmds s) \<and>
    ((\<forall>x \<in> set (cmds s). ci_id x \<noteq> i) \<and> q = null \<or> (\<exists>x \<in> set (cmds s). ci_id x = i \<and> q = ci_cmd x))"
proof -
  have s': "s' = snd (remove_cmd (\<lambda>c. ci_id c = i) s)" using assms(2) by (simp add: wifi_unregister_cmd_def)
  note r = remove_cmd_rows [OF assms(1), of "\<lambda>c. ci_id c = i"]
  show ?thesis
  proof (cases "first_index (\<lambda>c. ci_id c = i) (cmds s)")
    case None
    then have e: "remove_cmd (\<lambda>c. ci_id c = i) s = (null, s)" by (simp add: remove_cmd_def cmds_def)
    then show ?thesis using assms r s' None by (simp add: wifi_unregister_cmd_def first_index_None)
  next
    case (Some j)
    then have e: "remove_cmd (\<lambda>c. ci_id c = i) s =
        (ci_cmd (cmd_tab s ! j), s\<lparr>cmd_tab := memmove_down j (nat (num_cmd s)) (cmd_tab s), num_cmd := num_cmd s - 1\<rparr>)"
      by (simp add: remove_cmd_def cmds_def)
    have "cmds s ! j \<in> set (cmds s)" by (rule nth_mem [OF first_index_bound [OF Some]])
    moreover have "cmd_tab s ! j = cmds s ! j" using first_index_bound [OF Some] by (simp add: cmds_def)
    moreover have "cbs s' = cbs s \<and> objs s' = objs s \<and> next_obj s' = next_obj s" using e s' by (simp add: cbs_def)
    moreover have "q = ci_cmd (cmd_tab s ! j)" using assms(2) e by (simp add: wifi_unregister_cmd_def)
    ultimately show ?thesis using r s' first_index_sat [OF Some] by auto
  qed
qed

abbreviation busy_cmd :: "life \<Rightarrow> nat option" where
  "busy_cmd s \<equiv> map_option (\<lambda>(b, e, f). cb_arg b) (busy s)"

text \<open>\<open>fine env s x\<close>: the step did not use a deleted command, and it kept the invariant.\<close>

definition fine :: "wifi_env \<Rightarrow> (stop + life) \<Rightarrow> bool" where
  "fine env x \<longleftrightarrow> x \<noteq> Inl Use_after_free \<and> (\<forall>s'. x = Inr s' \<longrightarrow> inv_of env s')"

lemma fine_hal:
  assumes "inv_of env s" and "x \<noteq> Inl Use_after_free"
    and "\<And>r h. x = Inr (r, h) \<Longrightarrow> tab_ok h \<and> life_inv env (objs h) (next_obj h) (cmds h) (cbs h) (taken s) (busy_cmd s)"
  shows "fine env (with_hal s x)"
  using assms by (auto simp: fine_def with_hal_def inv_of_def split: sum.splits)

lemma holds_parts:
  assumes "holds_cbs s s' bs"
  shows "tab_ok s' \<and> objs s' = objs s \<and> next_obj s' = next_obj s \<and> cmds s' = cmds s \<and> cbs s' = bs"
  using assms by (auto simp: holds_cbs_def cb_only_iff cmds_def)

lemma fresh_obj: "life_inv env ob nx cm cb tk bz \<Longrightarrow> ob nx = None"
  by (cases "ob nx") (auto simp: life_inv_def ids_ok_def)

text \<open>A command made for one call, and released at its end.\<close>

lemma temp_step:
  assumes i: "inv_of env s" and n: "new_cmd cls i iface (hal s) = (p, h1)" and h: "holds_cbs h1 h2 (drop_events env ks (cbs h1))"
    and r: "release_with p r h2 = Inr (r', h3)"
  shows "tab_ok h3 \<and> life_inv env (objs h3) (next_obj h3) (cmds h3) (cbs h3) (taken s) (busy_cmd s)"
proof -
  have l: "life_inv env (objs (hal s)) (next_obj (hal s)) (cmds (hal s)) (cbs (hal s)) (taken s) (busy_cmd s)" using i by (simp add: inv_of_def)
  note f = fresh_obj [OF l] and x = holds_parts [OF h]
  have h1: "p = next_obj (hal s)" "next_obj h1 = next_obj (hal s) + 1" "cmds h1 = cmds (hal s)" "cbs h1 = cbs (hal s)"
      "objs h1 = (objs (hal s))(p \<mapsto> \<lparr>c_class = cls, mId = i, c_iface = iface, mRefs = 1, c_rtt = rtt_none\<rparr>)"
    using n by (auto simp: new_cmd_def cmds_def cbs_def)
  have "h3 = h2\<lparr>objs := unref (objs h2) p \<lparr>c_class = cls, mId = i, c_iface = iface, mRefs = 1, c_rtt = rtt_none\<rparr>\<rparr>"
    using r x h1 releaseRef_unref [of h2 p] by (simp add: release_with_def)
  moreover have "unref (objs h2) p \<lparr>c_class = cls, mId = i, c_iface = iface, mRefs = 1, c_rtt = rtt_none\<rparr> = objs (hal s)"
    using x h1 f by (simp add: unref_def fun_upd_idem)
  ultimately have h3: "h3 = h2\<lparr>objs := objs (hal s)\<rparr>" by simp
  then show ?thesis using x h1 inv_bump [OF inv_drop_events [OF l, of ks]] by (simp add: cmds_def cbs_def tab_ok_def)
qed

lemma release_uaf: "objs s p = Some c \<Longrightarrow> \<exists>s'. release_with p r s = Inr (r, s')"
  by (simp add: release_with_def releaseRef_unref)

lemma tab_ok_new: "tab_ok s \<Longrightarrow> new_cmd cls i iface s = (p, s') \<Longrightarrow> tab_ok s'"
  by (auto simp: new_cmd_def tab_ok_def)

lemma temp_fine:
  assumes i: "inv_of env s" and n: "new_cmd cls i iface (hal s) = (p, h1)" and u: "f h1 \<noteq> Inl Use_after_free"
    and h: "\<And>r h2. f h1 = Inr (r, h2) \<Longrightarrow> holds_cbs h1 h2 (drop_events env ks (cbs h1))"
  shows "fine env (with_hal s (case f h1 of Inl e \<Rightarrow> Inl e | Inr (r, h) \<Rightarrow> release_with p res h))"
proof (rule fine_hal [OF i])
  have p: "objs h1 p \<noteq> None" using n by (auto simp: new_cmd_def)
  show "(case f h1 of Inl e \<Rightarrow> Inl e | Inr (r, h) \<Rightarrow> release_with p res h) \<noteq> Inl Use_after_free"
  proof (cases "f h1")
    case (Inr x)
    obtain r h2 where x: "x = (r, h2)" by (cases x)
    then have "objs h2 = objs h1" using holds_parts [OF h] Inr by blast
    then show ?thesis using Inr x p release_uaf [of h2 p] by (cases "objs h2 p") (auto, metis Inr_not_Inl)
  qed (use u in simp)
  show "tab_ok h3 \<and> life_inv env (objs h3) (next_obj h3) (cmds h3) (cbs h3) (taken s) (busy_cmd s)"
    if "(case f h1 of Inl e \<Rightarrow> Inl e | Inr (r, h) \<Rightarrow> release_with p res h) = Inr (r3, h3)" for r3 h3
    using that temp_step [OF i n h] by (auto split: sum.splits)
qed

lemma step_temp: "inv_of env s \<Longrightarrow> fine env (step env (A_temp cls i iface) s)"
proof -
  assume i: "inv_of env s"
  obtain p h1 where n: "new_cmd cls i iface (hal s) = (p, h1)" by (cases "new_cmd cls i iface (hal s)")
  have t: "tab_ok h1" using i tab_ok_new [OF _ n] by (simp add: inv_of_def)
  show ?thesis using temp_fine [where f = "cancel env iface cls" and res = "WIFI_SUCCESS env", OF i n cancel_uaf cancel_holds [OF t]] n
    by (simp add: cancel_temp_def)
qed

lemma step_range_cancel: "inv_of env s \<Longrightarrow> fine env (step env (A_range_cancel i iface num addr) s)"
proof -
  assume i: "inv_of env s"
  obtain p h1 where n: "new_cmd (C_rtt 0 []) i iface (hal s) = (p, h1)" by (cases "new_cmd (C_rtt 0 []) i iface (hal s)")
  have t: "tab_ok h1" using i tab_ok_new [OF _ n] by (simp add: inv_of_def)
  show ?thesis using temp_fine [where f = "cancel_specific env iface num addr" and res = "WIFI_SUCCESS env", OF i n cancel_specific_uaf cancel_specific_holds [OF t]] n
    by (simp add: wifi_rtt_range_cancel_def)
qed

lemma step_take: "inv_of env s \<Longrightarrow> taken s = None \<Longrightarrow> fine env (step env (A_take i) s)"
proof -
  assume i: "inv_of env s" and t: "taken s = None"
  obtain p h where u: "wifi_unregister_cmd i (hal s) = (p, h)" by (cases "wifi_unregister_cmd i (hal s)")
  have l: "life_inv env (objs (hal s)) (next_obj (hal s)) (cmds (hal s)) (cbs (hal s)) None (busy_cmd s)" and ok: "tab_ok (hal s)"
    using i t by (simp_all add: inv_of_def)
  note x = unregister_cmd_parts [OF ok u]
  have "inv_of env (s\<lparr>hal := h, taken := (if p = null then None else Some (p, False))\<rparr>)"
  proof (cases "\<exists>x \<in> set (cmds (hal s)). ci_id x = i \<and> p = ci_cmd x")
    case True
    then obtain y where y: "y \<in> set (cmds (hal s))" "ci_id y = i" "p = ci_cmd y" by blast
    then have "p \<noteq> null" using l by (auto simp: life_inv_def ids_ok_def)
    then show ?thesis using x y i inv_take [OF l y(1)] by (auto simp: inv_of_def)
  next
    case False
    then have "p = null" "\<forall>x \<in> set (cmds (hal s)). ci_id x \<noteq> i" using x by auto
    moreover from this have "cmds h = cmds (hal s)" using x by (simp add: del1_none)
    ultimately show ?thesis using x i t by (simp add: inv_of_def)
  qed
  then show ?thesis using u by (simp add: fine_def)
qed

lemma step_run:
  assumes i: "inv_of env s" and t: "taken s = Some (p, False)"
  shows "fine env (step env A_run s)"
proof -
  have l: "life_inv env (objs (hal s)) (next_obj (hal s)) (cmds (hal s)) (cbs (hal s)) (Some (p, False)) (busy_cmd s)" and ok: "tab_ok (hal s)"
    using i t by (simp_all add: inv_of_def)
  obtain c where c: "objs (hal s) p = Some c" using live_held [OF l held_owner, of p] by auto
  have "inv_of env (s\<lparr>hal := h, taken := Some (p, True)\<rparr>)" if "cancel env (c_iface c) (c_class c) (hal s) = Inr (r, h)" for r h
    using i inv_cancel [OF l c] holds_parts [OF cancel_holds [OF ok that]] by (simp add: inv_of_def)
  then show ?thesis using t c cancel_uaf by (auto simp: fine_def cancel_obj_def split: sum.splits)
qed

lemma step_drop:
  assumes i: "inv_of env s" and t: "taken s = Some (p, True)"
  shows "fine env (step env A_drop s)"
proof -
  have l: "life_inv env (objs (hal s)) (next_obj (hal s)) (cmds (hal s)) (cbs (hal s)) (Some (p, True)) (busy_cmd s)" and ok: "tab_ok (hal s)"
    using i t by (simp_all add: inv_of_def)
  obtain c where c: "objs (hal s) p = Some c" using live_held [OF l held_owner, of p] by auto
  show ?thesis using t i ok inv_drop_taken [OF l c] by (simp add: fine_def releaseRef_unref [OF c] inv_of_def tab_ok_def cmds_def cbs_def)
qed

lemma first_cb:
  assumes "first_index P (cbs s) = Some j"
  shows "event_cb s ! j \<in> set (cbs s)"
proof -
  have "event_cb s ! j = cbs s ! j" using first_index_bound [OF assms] by (simp add: cbs_def)
  then show ?thesis using nth_mem [OF first_index_bound [OF assms]] by simp
qed

lemma step_enter:
  assumes i: "inv_of env s" and b: "busy s = None"
  shows "fine env (step env (A_enter e) s)"
proof (cases "e_parse e < 0 \<or> first_index (matches env e) (cbs (hal s)) = None")
  case True
  then have "dispatch_enter env e (hal s) = Inr (None, hal s)" by (auto simp: dispatch_enter_def cbs_def)
  then show ?thesis using i by (simp add: fine_def)
next
  case False
  then obtain j where j: "first_index (matches env e) (cbs (hal s)) = Some j" by auto
  let ?b = "event_cb (hal s) ! j"
  have l: "life_inv env (objs (hal s)) (next_obj (hal s)) (cmds (hal s)) (cbs (hal s)) (taken s) None" and ok: "tab_ok (hal s)"
    using i b by (simp_all add: inv_of_def)
  have "owned env (objs (hal s)) (cmds (hal s)) (taken s) ?b" using l first_cb [OF j] by (simp add: life_inv_def)
  then obtain p k c where e: "?b = entry env k p" "objs (hal s) p = Some c" by (auto simp: owned_def)
  have "p \<noteq> null" using l e(2) by (auto simp: life_inv_def ids_ok_def)
  then have "dispatch_enter env e (hal s) = Inr (Some ?b, (hal s)\<lparr>objs := (objs (hal s))(p \<mapsto> c\<lparr>mRefs := mRefs c + 1\<rparr>)\<rparr>)"
    using False j e by (simp add: dispatch_enter_def cbs_def Let_def addRef_def entry_def)
  moreover have "cb_arg ?b = p" using e(1) by (simp add: entry_def)
  ultimately show ?thesis using i e inv_enter [OF l e(2)] by (auto simp: fine_def inv_of_def tab_ok_def cmds_def cbs_def)
qed

lemma step_leave:
  assumes i: "inv_of env s" and b: "busy s = Some (b, e, True)"
  shows "fine env (step env A_leave s)"
proof -
  let ?p = "cb_arg b"
  have l: "life_inv env (objs (hal s)) (next_obj (hal s)) (cmds (hal s)) (cbs (hal s)) (taken s) (Some ?p)" and ok: "tab_ok (hal s)"
    using i b by (simp_all add: inv_of_def)
  obtain c where c: "objs (hal s) ?p = Some c" using live_held [OF l held_owner, of ?p] by auto
  moreover from this have "?p \<noteq> null" using l by (auto simp: life_inv_def ids_ok_def)
  ultimately show ?thesis using b i ok inv_leave [OF l c]
    by (simp add: fine_def dispatch_leave_def releaseRef_unref inv_of_def tab_ok_def cmds_def cbs_def)
qed

text \<open>While the event loop holds \<open>p\<close>.\<close>

definition held_inv :: "wifi_env \<Rightarrow> (nat \<times> bool) option \<Rightarrow> nat \<Rightarrow> hal_info \<Rightarrow> bool" where
  "held_inv env tk p h \<longleftrightarrow> tab_ok h \<and> life_inv env (objs h) (next_obj h) (cmds h) (cbs h) tk (Some p)"

lemma held_log: "held_inv env tk p (h\<lparr>wcalls := l\<rparr>) = held_inv env tk p h"
  by (simp add: held_inv_def tab_ok_def cmds_def cbs_def)

lemma held_objs: "held_inv env tk p (h\<lparr>objs := ob\<rparr>) \<longleftrightarrow> tab_ok h \<and> life_inv env ob (next_obj h) (cmds h) (cbs h) tk (Some p)"
  by (simp add: held_inv_def tab_ok_def cmds_def cbs_def)

lemma held_alive: "held_inv env tk p h \<Longrightarrow> \<exists>c. objs h p = Some c"
  using live_held [OF _ held_owner] by (fastforce simp: held_inv_def)

lemma held_touch:
  "held_inv env tk p h \<Longrightarrow> objs h p = Some c \<Longrightarrow> held_inv env tk p (h\<lparr>objs := (objs h)(p \<mapsto> c\<lparr>c_rtt := st\<rparr>)\<rparr>)"
  using inv_touch by (auto simp: held_inv_def tab_ok_def cmds_def cbs_def)

lemma finish_held:
  assumes i: "held_inv env tk p h" and c: "objs h p = Some c" "c_class c = C_rtt n ps"
  shows "rtt_finish env p (c\<lparr>c_rtt := st\<rparr>) h \<noteq> Inl Use_after_free \<and>
    (\<forall>h'. rtt_finish env p (c\<lparr>c_rtt := st\<rparr>) h = Inr h' \<longrightarrow> held_inv env tk p h')"
proof (cases "x_on env (mId c)")
  case True
  let ?h1 = "unregisterVendorHandler env RTT_EVENT_COMPLETE h"
  let ?c = "c\<lparr>c_rtt := st\<lparr>rttResults := [], totalCnt := 0, currentIdx := 0\<rparr>\<rparr>"
  let ?h2 = "?h1\<lparr>wcalls := wcalls ?h1 @ [W_upcall (mId c) (U_rtt (totalCnt st) (rttResults st))], objs := (objs ?h1)(p \<mapsto> ?c)\<rparr>"
  have ok: "tab_ok h" and l: "life_inv env (objs h) (next_obj h) (cmds h) (cbs h) tk (Some p)" using i by (simp_all add: held_inv_def)
  note x = holds_parts [OF drop_first [OF ok, of env RTT_EVENT_COMPLETE]]
  have l2: "life_inv env (objs ?h2) (next_obj ?h2) (cmds ?h2) (cbs h) tk (Some p)" and ok2: "tab_ok ?h2"
    using x inv_touch [OF l c(1)] by (simp_all add: tab_ok_def cmds_def)
  have cb2: "cbs ?h2 = drop_events env [RTT_EVENT_COMPLETE] (cbs h)" using x by (simp add: cbs_def)
  have c2: "objs ?h2 p = Some ?c" "set (events_of (c_class ?c)) \<subseteq> set [RTT_EVENT_COMPLETE]" using c(2) by simp_all
  obtain q h3 where u: "wifi_unregister_cmd (mId c) ?h2 = (q, h3)" by (cases "wifi_unregister_cmd (mId c) ?h2")
  note y = unregister_cmd_parts [OF ok2 u]
  have f: "rtt_finish env p (c\<lparr>c_rtt := st\<rparr>) h = (if q \<noteq> null then releaseRef q h3 else Inr h3)"
    using True u by (simp add: rtt_finish_def Let_def)
  show ?thesis
  proof (cases "\<exists>x \<in> set (cmds ?h2). ci_id x = mId c \<and> q = ci_cmd x")
    case True
    then obtain z where z: "z \<in> set (cmds ?h2)" "ci_id z = mId ?c" "q = ci_cmd z" by auto
    note w = inv_finish [OF l2 c2 z(1,2)]
    then have "q = p" using z(3) by simp
    moreover from this have "q \<noteq> null" using l2 c2(1) unfolding life_inv_def ids_ok_def by blast
    moreover have "objs h3 p = Some ?c" using y c2(1) by simp
    ultimately have "rtt_finish env p (c\<lparr>c_rtt := st\<rparr>) h = Inr (h3\<lparr>objs := unref (objs h3) p ?c\<rparr>)" using f releaseRef_unref by simp
    moreover have "held_inv env tk p (h3\<lparr>objs := unref (objs h3) p ?c\<rparr>)"
      using w y z(2) cb2 by (auto simp: held_objs simp del: fun_upd_apply)
    ultimately show ?thesis by simp
  next
    case False
    then have "q = null" "\<forall>x \<in> set (cmds ?h2). ci_id x \<noteq> mId c" using y by auto
    moreover from this have "cmds h3 = cmds ?h2" using y by (simp add: del1_none)
    ultimately have "held_inv env tk p h3" using y cb2 inv_drop_events [OF l2, of "[RTT_EVENT_COMPLETE]"] by (simp add: held_inv_def)
    then show ?thesis using f \<open>q = null\<close> by simp
  qed
qed (simp add: rtt_finish_def Let_def)

lemma event_held:
  assumes i: "held_inv env tk p h"
  shows "handleEvent env p e h \<noteq> Inl Use_after_free \<and> (\<forall>h'. handleEvent env p e h = Inr h' \<longrightarrow> held_inv env tk p h')"
proof -
  obtain c where c: "objs h p = Some c" using held_alive [OF i] by blast
  show ?thesis
  proof (cases "\<exists>n ps. c_class c = C_rtt n ps")
    case True
    then obtain n ps where n: "c_class c = C_rtt n ps" by blast
    then have "handleEvent env p e h = Rtt_handleEvent env p c e h" using c by (simp add: handleEvent_def)
    then show ?thesis using results_uaf finish_held [OF i c n] held_touch [OF i c]
      by (auto simp: Rtt_handleEvent_def Let_def split: sum.splits)
  next
    case False
    then have "handleEvent env p e h =
        (case told env (wcalls h) (mId c) e (c_class c) of Inl x \<Rightarrow> Inl x | Inr us \<Rightarrow> Inr (h\<lparr>wcalls := wcalls h @ us\<rparr>))"
      using c by (cases "c_class c") (simp_all add: handleEvent_def)
    then show ?thesis using told_uaf i by (auto simp: held_log split: sum.splits)
  qed
qed

lemma step_body:
  assumes i: "inv_of env s" and b: "busy s = Some (b, e, False)"
  shows "fine env (step env A_body s)"
proof -
  obtain k p where kp: "b = entry env k p" using i b by (auto simp: inv_of_def)
  have h: "held_inv env (taken s) p (hal s)" using i b kp by (simp add: inv_of_def held_inv_def entry_def)
  have d: "dispatch_body env b e (hal s) = event_handler env p e (hal s)" using kp by (simp add: dispatch_body_def entry_def)
  let ?x = "if e_parse e < 0 then Inr (hal s) else handleEvent env p e (hal s)"
  have x: "?x \<noteq> Inl Use_after_free" "\<And>h'. ?x = Inr h' \<Longrightarrow> held_inv env (taken s) p h'" using event_held [OF h, of e] h by (auto split: if_splits)
  show ?thesis
  proof (cases ?x)
    case (Inr h')
    note hh = x(2) [OF Inr]
    then obtain c where c: "objs h' p = Some c" using held_alive by blast
    have "event_handler env p e (hal s) = Inr (h'\<lparr>wcalls := wcalls h' @ [W_signal p]\<rparr>)" using Inr c by (simp add: event_handler_def)
    moreover have "held_inv env (taken s) p (h'\<lparr>wcalls := wcalls h' @ [W_signal p]\<rparr>)" using hh by (simp add: held_log)
    ultimately show ?thesis using b d kp by (auto simp: fine_def inv_of_def held_inv_def entry_def)
  next
    case (Inl y)
    then have "event_handler env p e (hal s) = Inl y" by (simp add: event_handler_def)
    then show ?thesis using x(1) Inl b d by (simp add: fine_def)
  qed
qed

text \<open>Starting a command: the table has no room, the start fails, or it succeeds.\<close>

abbreviation made :: "wclass \<Rightarrow> int \<Rightarrow> int \<Rightarrow> WifiCommand" where
  "made cls i iface \<equiv> \<lparr>c_class = cls, mId = i, c_iface = iface, mRefs = 1, c_rtt = rtt_none\<rparr>"

lemma new_parts:
  assumes "tab_ok h"
  shows "new_cmd cls i iface h = (next_obj h, h\<lparr>objs := (objs h)(next_obj h \<mapsto> made cls i iface), next_obj := next_obj h + 1\<rparr>)"
    and "tab_ok (h\<lparr>objs := ob, next_obj := nx\<rparr>)" and "cmds (h\<lparr>objs := ob, next_obj := nx\<rparr>) = cmds h" and "cbs (h\<lparr>objs := ob, next_obj := nx\<rparr>) = cbs h"
  using assms by (simp_all add: new_cmd_def tab_ok_def cmds_def cbs_def)

lemma register_parts:
  assumes "tab_ok h" and "num_cmd h < alloc_cmd h"
  shows "\<exists>h'. wifi_register_cmd env i p h = (WIFI_SUCCESS env, h') \<and> tab_ok h' \<and> cmds h' = cmds h @ [\<lparr>ci_id = i, ci_cmd = p\<rparr>] \<and> cbs h' = cbs h \<and>
    objs h' = objs h \<and> next_obj h' = next_obj h"
proof -
  have "length (cmds h) < length (cmd_tab h)" using assms by (auto simp: tab_ok_def cmds_def)
  then show ?thesis using assms outstanding.add_rows [OF assms(1)] outstanding.add_ok [OF assms(1)]
    by (auto simp: wifi_register_cmd_def add_cmd_def cbs_def)
qed

lemma undo_start:
  assumes i: "inv_of env s" and h: "tab_ok h" "objs h = (objs (hal s))(next_obj (hal s) \<mapsto> made cls i iface)"
      "next_obj h = next_obj (hal s) + 1" "cmds h = cmds (hal s)" "cbs h = cbs (hal s)"
  shows "fine env (with_hal s (release_with (next_obj (hal s)) r h))"
proof -
  have l: "life_inv env (objs (hal s)) (next_obj (hal s)) (cmds (hal s)) (cbs (hal s)) (taken s) (busy_cmd s)" using i by (simp add: inv_of_def)
  have "release_with (next_obj (hal s)) r h = Inr (r, h\<lparr>objs := objs (hal s)\<rparr>)"
    using h fresh_obj [OF l] by (simp add: release_with_def releaseRef_unref unref_def fun_upd_idem)
  moreover have "tab_ok (h\<lparr>objs := objs (hal s)\<rparr>)" "cmds (h\<lparr>objs := objs (hal s)\<rparr>) = cmds h" "cbs (h\<lparr>objs := objs (hal s)\<rparr>) = cbs h"
    using h(1) by (simp_all add: tab_ok_def cmds_def cbs_def)
  ultimately show ?thesis using i h inv_bump [OF l] by (simp add: fine_def with_hal_def inv_of_def)
qed

lemma step_start:
  assumes co: "codes_ok env" and i: "inv_of env s" and a: "allowed env (A_start cls j iface) s"
  shows "fine env (step env (A_start cls j iface) s)"
proof -
  let ?p = "next_obj (hal s)" and ?c = "made cls j iface"
  let ?h1 = "(hal s)\<lparr>objs := (objs (hal s))(?p \<mapsto> ?c), next_obj := ?p + 1\<rparr>"
  have l: "life_inv env (objs (hal s)) ?p (cmds (hal s)) (cbs (hal s)) (taken s) (busy_cmd s)" and ok: "tab_ok (hal s)"
    using i by (simp_all add: inv_of_def)
  note n = new_parts [OF ok]
  have fresh: "mId c \<noteq> j" if "objs (hal s) q = Some c" for q c using a l that by (auto simp: life_inv_def ids_ok_def)
  then have nid: "\<forall>x \<in> set (cmds (hal s)). ci_id x \<noteq> j" using l by (fastforce simp: life_inv_def ids_ok_def)
  show ?thesis
  proof (cases "num_cmd (hal s) < alloc_cmd (hal s)")
    case False
    then have "wifi_start env cls j iface (hal s) = release_with ?p (WIFI_ERROR_OUT_OF_MEMORY env) ?h1"
      using n(1) co by (simp add: wifi_start_def wifi_register_cmd_def codes_ok_def)
    then show ?thesis using undo_start [OF i n(2) _ _ n(3,4)] by simp
  next
    case True
    have "num_cmd ?h1 < alloc_cmd ?h1" using True by simp
    from register_parts [OF n(2) this, of env j ?p] obtain h2 where g: "wifi_register_cmd env j ?p ?h1 = (WIFI_SUCCESS env, h2)"
      and t: "tab_ok h2" and h2: "cmds h2 = cmds (hal s) @ [\<lparr>ci_id = j, ci_cmd = ?p\<rparr>]" "cbs h2 = cbs (hal s)"
        "objs h2 = (objs (hal s))(?p \<mapsto> ?c)" "next_obj h2 = ?p + 1" by (auto simp: n(3,4))
    have w: "wifi_start env cls j iface (hal s) = (case start env ?p iface cls h2 of Inl e \<Rightarrow> Inl e
        | Inr (r, s) \<Rightarrow> if r \<noteq> WIFI_SUCCESS env then release_with ?p r (snd (wifi_unregister_cmd j s)) else Inr (r, s))"
      using n(1) g by (simp add: wifi_start_def)
    have u: "unheard env (set (events_of cls)) h2" using a h2(2) by (simp add: unheard_def)
    show ?thesis
    proof (cases "start env ?p iface cls h2")
      case (Inl e)
      then show ?thesis using w start_uaf [of env ?p iface cls h2] by (auto simp: fine_def with_hal_def)
    next
      case (Inr x)
      obtain r h3 where x: "x = (r, h3)" by (cases x)
      note st = start_regd [OF co t u Inr [unfolded x]]
      show ?thesis
      proof (cases "r = WIFI_SUCCESS env")
        case True
        with st obtain es where es: "holds_cbs h2 h3 (cbs h2 @ es)" "distinct (map vendor_subcmd es)"
            "\<forall>b \<in> set es. \<exists>k \<in> set (events_of cls). b = entry env k ?p" by (auto simp: regd_def)
        note y = holds_parts [OF es(1)]
        have "distinct (map vendor_subcmd (cbs (hal s) @ es))"
        proof -
          have "vendor_subcmd b \<notin> set (events_of cls)" if "b \<in> set (cbs (hal s))" for b
          proof -
            obtain k q where "b = entry env k q" using inv_entries [OF l] \<open>b \<in> set (cbs (hal s))\<close> by blast
            then show ?thesis using u that unfolding unheard_def h2(2) by (force simp: entry_def keyed_by_def)
          qed
          moreover have "vendor_subcmd b \<in> set (events_of cls)" if "b \<in> set es" for b using es(3) that by (auto simp: entry_def)
          ultimately have "vendor_subcmd ` set (cbs (hal s)) \<inter> vendor_subcmd ` set es = {}" by fastforce
          then show ?thesis using es(2) l by (simp add: life_inv_def)
        qed
        with inv_add [OF l, of ?c es] es(3) fresh
        have "life_inv env ((objs (hal s))(?p \<mapsto> ?c)) (?p + 1) (cmds (hal s) @ [\<lparr>ci_id = j, ci_cmd = ?p\<rparr>]) (cbs (hal s) @ es) (taken s) (busy_cmd s)"
          by simp
        then show ?thesis using w Inr x True y h2 i by (auto simp: fine_def with_hal_def inv_of_def)
      next
        case False
        then have "holds_cbs h2 h3 (cbs h2)" using st by simp
        note y = holds_parts [OF this]
        obtain q h4 where u4: "wifi_unregister_cmd j h3 = (q, h4)" by (cases "wifi_unregister_cmd j h3")
        note z = unregister_cmd_parts [OF conjunct1 [OF y] u4]
        have "cmds h4 = cmds (hal s)" using z y h2(1) nid by (simp add: del1_append)
        then show ?thesis using w Inr x False u4 y z h2 undo_start [OF i, of h4 cls j iface r] by simp
      qed
    qed
  qed
qed

lemma step_fine:
  assumes "codes_ok env" and "inv_of env s" and "allowed env a s"
  shows "fine env (step env a s)"
  using assms step_start step_temp step_range_cancel step_take step_run step_drop step_enter step_body step_leave by (cases a) fastforce+

lemma reach_inv: "reach env s \<Longrightarrow> codes_ok env \<Longrightarrow> inv_of env s"
proof (induction rule: reach.induct)
  case (reach_boot family cb_array cmd_array)
  then show ?case
    by (auto simp: inv_of_def boot_def tab_ok_def life_inv_def ids_ok_def refs_ok_def held_def cmds_def cbs_def)
next
  case (reach_step s a s')
  then show ?case using step_fine [of env s a] by (auto simp: fine_def)
qed

text \<open>C7. No command of the Wi-Fi HAL is used after it was deleted. Whatever the framework's calls and the events of the driver do,
  in any order and with a cancellation going on while an event is handled, every command that is cancelled, called or released is alive;
  provided that the framework starts a command only with a request id that no command has and for events that no handler waits for.\<close>

theorem no_use_after_free:
  assumes "codes_ok env" and "reach env s" and "allowed env a s"
  shows "step env a s \<noteq> Inl Use_after_free"
  using step_fine [OF assms(1) reach_inv [OF assms(2,1)] assms(3)] by (simp add: fine_def)

text \<open>C9. Commands are neither lost nor kept, provided that the framework starts a command only with a request id that no command has and
  for events that no handler waits for. In every state that can be reached under this discipline, the commands that exist are those in the table of
  outstanding commands, the one being cancelled and the one handling an event, and the count of each is the number of these that hold it; every
  handler belongs to a command that has its event and will drop it. So when the table is empty and nothing goes on, no command and no
  handler is left.\<close>

theorem commands_accounted:
  assumes "codes_ok env" and "reach env s"
  shows "(\<forall>p. case objs (hal s) p of None \<Rightarrow> held (cmds (hal s)) (taken s) (busy_cmd s) p = 0
      | Some c \<Rightarrow> mRefs c = held (cmds (hal s)) (taken s) (busy_cmd s) p \<and> 0 < mRefs c) \<and>
    (\<forall>b \<in> set (cbs (hal s)). owned env (objs (hal s)) (cmds (hal s)) (taken s) b) \<and>
    (cmds (hal s) = [] \<longrightarrow> taken s = None \<longrightarrow> busy s = None \<longrightarrow> objs (hal s) = Map.empty \<and> cbs (hal s) = [])"
proof -
  have l: "life_inv env (objs (hal s)) (next_obj (hal s)) (cmds (hal s)) (cbs (hal s)) (taken s) (busy_cmd s)"
    using reach_inv [OF assms(2,1)] by (simp add: inv_of_def)
  have r: "refs_ok (objs (hal s)) (held (cmds (hal s)) (taken s) (busy_cmd s))" and o: "\<forall>b \<in> set (cbs (hal s)). owned env (objs (hal s)) (cmds (hal s)) (taken s) b"
    using l by (simp_all add: life_inv_def)
  have "objs (hal s) = Map.empty \<and> cbs (hal s) = []" if "cmds (hal s) = []" "taken s = None" "busy s = None"
    using l that by (intro inv_idle) simp
  then show ?thesis using r o by (auto simp: refs_ok_def split: option.split)
qed

text \<open>C33. Without that discipline a deleted command is called. When two commands wait for the same event, cancelling the newer one takes the
  handler of the older one out of the table, deletes the newer one and leaves its handler: the next event of that kind is given to the
  deleted command.\<close>

theorem shared_event_dangles:
  assumes "tab_ok h" and "cbs h = [entry env k p, entry env k q]" and "q \<noteq> null"
    and "wifi_unregister_cmd i h = (q, h1)" and "objs h q = Some c" and "mRefs c = 1" and "events_of (c_class c) = [k]"
    and "wifi_cancel_cmd env i h = Inr (r, h')"
    and "0 \<le> e_parse e" and "e_cmd e = NL80211_CMD_VENDOR env" and "e_u32 e (NL80211_ATTR_VENDOR_ID env) = GOOGLE_OUI"
    and "get_vendor_subcmd env e = k"
  shows "internal_valid_message_handler env e h' = Inl Use_after_free"
proof -
  note u = unregister_cmd_parts [OF assms(1,4)]
  obtain r2 h2 where c: "cancel env (c_iface c) (c_class c) h1 = Inr (r2, h2)" and rel: "release_with q (WIFI_SUCCESS env) h2 = Inr (r, h')"
    using assms(3-5,8) u by (auto simp: wifi_cancel_cmd_def cancel_obj_def split: sum.splits)
  note x = holds_parts [OF cancel_holds [OF conjunct1 [OF u] c]]
  have cb: "cbs h2 = [entry env k q]" using x u assms(2,7) by (simp add: drop_events_def)
  have h': "h' = h2\<lparr>objs := (objs h)(q := None)\<rparr>"
    using rel x u assms(5,6) by (simp add: release_with_def releaseRef_unref unref_def)
  have "cbs h' = [entry env k q]" using cb h' by (simp add: cbs_def)
  moreover have "matches env e (entry env k q)" using assms(10-12) by (simp add: matches_def entry_def get_vendor_subcmd_def)
  ultimately have "first_index (matches env e) (cbs h') = Some 0" by simp
  then have f: "first_index (matches env e) (take (nat (num_event_cb h')) (event_cb h')) = Some 0" by (simp add: cbs_def)
  have "event_cb h' ! 0 = entry env k q" using \<open>cbs h' = [entry env k q]\<close> by (metis cbs_def list.distinct(1) nth_Cons_0 nth_take take_eq_Nil zero_less_iff_neq_zero)
  then have "dispatch_enter env e h' = Inl Use_after_free"
    using f assms(3,9) h' by (simp add: dispatch_enter_def entry_def addRef_def)
  then show ?thesis by (simp add: internal_valid_message_handler_def)
qed

section \<open>Runs\<close>

fun runs :: "wifi_env \<Rightarrow> act list \<Rightarrow> life \<Rightarrow> life option" where
  "runs env [] s = Some s"
| "runs env (a # as) s = (if allowed env a s then case step env a s of Inl e \<Rightarrow> None | Inr s \<Rightarrow> runs env as s else None)"

lemma runs_reach: "runs env as s = Some s' \<Longrightarrow> reach env s \<Longrightarrow> reach env s'"
  by (induction as arbitrary: s) (auto split: if_splits sum.splits intro: reach_step)

definition rssi_event :: nl_event where
  "rssi_event = \<lparr>e_parse = 0, e_cmd = 103, e_u32 = (\<lambda>a. if a = 195 then GOOGLE_OUI else if a = 196 then 7 else 0),
     e_data = Some [12, 0, 7, 0, 1, 216, 1, 2, 3, 4, 5, 6]\<rparr>"

lemmas wifi_eval = wifi_start_def new_cmd_def wifi_register_cmd_def Rssi_start_def ask_def Rssi_createRequest_def build_def create_vendor_def
  create_msg_def put_def destroy_def WifiRequest_new_def requestResponse_def registerVendorHandler_def unregisterVendorHandler_def
  wifi_register_vendor_handler_def wifi_unregister_vendor_handler_def remove_cb_def wifi_unregister_cmd_def remove_cmd_def
  roomy_def no_cb_def no_cmd_def wifi_demo_def boot_def with_hal_def unheard_def cbs_def cmds_def Let_def

lemma demo_running:
  "\<exists>s b e. runs roomy [A_start (C_rssi (-50) (-80)) 9 3, A_enter rssi_event, A_take 9, A_run, A_drop] \<lparr>hal = wifi_demo, taken = None, busy = None\<rparr> = Some s \<and>
     busy s = Some (b, e, False) \<and> cb_arg b = 1 \<and> taken s = None \<and> cmds (hal s) = []"
  by (simp add: wifi_eval dispatch_enter_def rssi_event_def matches_def addRef_def cancel_obj_def cancels send_then_def releaseRef_def memmove_down_def
      wifi_consts)

lemma demo_reach: "runs roomy as \<lparr>hal = wifi_demo, taken = None, busy = None\<rparr> = Some s \<Longrightarrow> reach roomy s"
  by (erule runs_reach) (simp add: wifi_demo_def reach_boot)

theorem no_use_after_free_witness:
  "\<exists>s b e. reach roomy s \<and> busy s = Some (b, e, False) \<and> cb_arg b = 1 \<and> cmds (hal s) = [] \<and> step roomy A_body s \<noteq> Inl Use_after_free"
proof -
  obtain s b e where s: "runs roomy [A_start (C_rssi (-50) (-80)) 9 3, A_enter rssi_event, A_take 9, A_run, A_drop]
      \<lparr>hal = wifi_demo, taken = None, busy = None\<rparr> = Some s" and b: "busy s = Some (b, e, False)" "cb_arg b = 1" "cmds (hal s) = []"
    using demo_running by blast
  have "allowed roomy A_body s" using b by simp
  with no_use_after_free [OF roomy_codes(1) demo_reach [OF s]] demo_reach [OF s] b show ?thesis by blast
qed

theorem commands_accounted_witness:
  "\<exists>s c. reach roomy s \<and> cmds (hal s) = [] \<and> taken s = None \<and> objs (hal s) 1 = Some c \<and> mRefs c = 1"
proof -
  obtain s b e where s: "runs roomy [A_start (C_rssi (-50) (-80)) 9 3, A_enter rssi_event, A_take 9, A_run, A_drop]
      \<lparr>hal = wifi_demo, taken = None, busy = None\<rparr> = Some s" and b: "busy s = Some (b, e, False)" "cb_arg b = 1" "taken s = None" "cmds (hal s) = []"
    using demo_running by blast
  have "held (cmds (hal s)) (taken s) (busy_cmd s) 1 = 1" using b by (simp add: held_def)
  with conjunct1 [OF commands_accounted [OF roomy_codes(1) demo_reach [OF s]], THEN spec, of 1]
  obtain c where "objs (hal s) 1 = Some c" "mRefs c = 1" by (auto split: option.splits)
  then show ?thesis using demo_reach [OF s] b by blast
qed

lemma demo_two:
  "\<exists>h1 h2 h3 h'. wifi_start_rssi_monitoring roomy 9 3 (-50) (-80) wifi_demo = Inr (0, h1) \<and>
     wifi_start_rssi_monitoring roomy 10 3 (-40) (-70) h1 = Inr (0, h2) \<and> tab_ok h2 \<and> cbs h2 = [entry roomy 7 1, entry roomy 7 2] \<and>
     wifi_unregister_cmd 10 h2 = (2, h3) \<and> objs h2 2 = Some (made (C_rssi (-40) (-70)) 10 3) \<and> wifi_cancel_cmd roomy 10 h2 = Inr (0, h')"
  by (simp add: wifi_start_rssi_monitoring_def wifi_eval entry_def tab_ok_def wifi_cancel_cmd_def cancel_obj_def cancels send_then_def release_with_def
      releaseRef_def memmove_down_def wifi_consts)

theorem shared_event_dangles_witness:
  "\<exists>h1 h2 h'. wifi_start_rssi_monitoring roomy 9 3 (-50) (-80) wifi_demo = Inr (0, h1) \<and>
     wifi_start_rssi_monitoring roomy 10 3 (-40) (-70) h1 = Inr (0, h2) \<and> wifi_cancel_cmd roomy 10 h2 = Inr (0, h') \<and>
     internal_valid_message_handler roomy rssi_event h' = Inl Use_after_free"
proof -
  obtain h1 h2 h3 h' where d: "wifi_start_rssi_monitoring roomy 9 3 (-50) (-80) wifi_demo = Inr (0, h1)"
      "wifi_start_rssi_monitoring roomy 10 3 (-40) (-70) h1 = Inr (0, h2)" "tab_ok h2" "cbs h2 = [entry roomy 7 1, entry roomy 7 2]"
      "wifi_unregister_cmd 10 h2 = (2, h3)" "objs h2 2 = Some (made (C_rssi (-40) (-70)) 10 3)" "wifi_cancel_cmd roomy 10 h2 = Inr (0, h')"
    using demo_two by blast
  have "internal_valid_message_handler roomy rssi_event h' = Inl Use_after_free"
    by (rule shared_event_dangles [OF d(3,4) _ d(5,6) _ _ d(7)])
      (simp_all add: wifi_consts rssi_event_def roomy_def get_vendor_subcmd_def)
  then show ?thesis using d by blast
qed

section \<open>Cleaning up\<close>

text \<open>The driver answers: there is memory for a message and room for the attributes it opens, and a request that could be sent is
  answered. The Passpoint command, which sends its list again when it is cancelled, was given no more networks than there are.\<close>

definition answers :: "wifi_env \<Rightarrow> bool" where
  "answers env \<longleftrightarrow> (\<forall>h. x_msg_alloc env h) \<and> (\<forall>ops a. x_start env ops a) \<and>
     (\<forall>h m. 0 \<le> x_send env h m \<longrightarrow> recv_loop (x_recv env h m) (1, []) \<noteq> None)"

fun count_ok :: "wclass \<Rightarrow> bool" where
  "count_ok (C_anqpo n ps) \<longleftrightarrow> n \<le> int (length ps)"
| "count_ok cls \<longleftrightarrow> True"

definition counts_fit :: "(nat \<rightharpoonup> WifiCommand) \<Rightarrow> bool" where
  "counts_fit ob \<longleftrightarrow> (\<forall>c \<in> ran ob. count_ok (c_class c))"

lemma run_opens: "answers env \<Longrightarrow> no_overrun ps \<Longrightarrow> run_prog env ps r ops \<noteq> Stop e"
proof (induction env ps r ops arbitrary: e rule: run_prog.induct)
  case (4 env c a bs ps r ops)
  then have "x_start env ops a" by (simp add: answers_def)
  then show ?case using 4 by (auto simp: Let_def split: flow.splits)
next
  case (2 env a v ps r ops)
  then show ?case by (cases "x_put env ops a v < 0") (auto simp: Let_def)
qed simp_all

text \<open>A request that is assembled returns with a message.\<close>

definition assembles :: "(WifiRequest \<Rightarrow> stop + (int \<times> WifiRequest)) \<Rightarrow> bool" where
  "assembles bld \<longleftrightarrow> (\<forall>q. \<exists>r q'. bld q = Inr (r, q') \<and> mMsg q' \<noteq> None)"

lemma create_vendor_msg: "answers env \<Longrightarrow> codes_ok env \<Longrightarrow> \<exists>r q' m. create_vendor env h vid sc q = Inr (r, q') \<and> mMsg q' = Some m"
  by (auto simp: answers_def codes_ok_def create_vendor_def create_msg_def put_def Let_def)

lemma build_assembles:
  assumes "answers env" and "codes_ok env" and "no_overrun ps"
  shows "assembles (build env h vid sc fin ps)"
  unfolding assembles_def
proof
  fix q
  obtain r q' m where c: "create_vendor env h vid sc q = Inr (r, q')" "mMsg q' = Some m"
    using create_vendor_msg [OF assms(1,2)] by blast
  then show "\<exists>r q'. build env h vid sc fin ps q = Inr (r, q') \<and> mMsg q' \<noteq> None"
    using run_opens [OF assms(1,3), of r "m_ops m"] by (cases "run_prog env ps r (m_ops m)") (auto simp: build_def)
qed

lemma for_each_fits: "n \<le> int (length xs) \<Longrightarrow> (\<And>i x. no_overrun [f i x]) \<Longrightarrow> no_overrun (for_each n xs f)"
proof -
  assume n: "n \<le> int (length xs)" and f: "\<And>i x. no_overrun [f i x]"
  have "no_overrun (map (\<lambda>i. f (int i) (xs ! i)) is)" for "is"
  proof (induction "is")
    case (Cons k "is")
    then show ?case using f no_overrun_append [of "[f (int k) (xs ! k)]"] by simp
  qed simp
  then show ?thesis using n by (simp add: for_each_def)
qed

lemma anqpo_assembles:
  assumes "answers env" and "codes_ok env" and "n \<le> int (length ps)"
  shows "assembles (Anqpo_createRequest env h n ps)"
  unfolding assembles_def
proof
  fix q
  let ?ps = "[P_put GSCAN_ATTRIBUTE_ANQPO_HS_LIST_SIZE (v32 n),
    P_nest False (NL80211_ATTR_VENDOR_DATA env) [P_nest False GSCAN_ATTRIBUTE_ANQPO_HS_LIST (for_each n ps passpoint_prog)]]"
  obtain r q' m where c: "create_vendor env h GOOGLE_OUI GSCAN_SUBCMD_ANQPO_CONFIG q = Inr (r, q')" "mMsg q' = Some m"
    using create_vendor_msg [OF assms(1,2)] by blast
  have "no_overrun ?ps" using for_each_fits [OF assms(3), of passpoint_prog] by (simp add: passpoint_prog_def)
  then show "\<exists>r q'. Anqpo_createRequest env h n ps q = Inr (r, q') \<and> mMsg q' \<noteq> None"
    using c run_opens [OF assms(1), of ?ps r "m_ops m"] by (cases "run_prog env ?ps r (m_ops m)") (auto simp: Anqpo_createRequest_def)
qed

lemma ask_returns:
  assumes "answers env" and "assembles bld"
  shows "\<exists>x. ask env iface bad bld (\<lambda>s. s) s = Inr x"
proof -
  obtain r q' m where b: "bld (WifiRequest_new (nl80211_family_id s) iface) = Inr (r, q')" "mMsg q' = Some m"
    using assms(2) unfolding assembles_def by blast
  have "\<exists>y. requestResponse env q' s = Inr y"
    using assms(1) b(2) by (fastforce simp: requestResponse_def answers_def Let_def not_less)
  then show ?thesis using b(1) by (auto simp: ask_def split: prod.splits)
qed

lemma cancel_returns:
  assumes "answers env" and "codes_ok env" and "count_ok cls"
  shows "\<not> isl (cancel env iface cls s)"
proof -
  have s: "\<not> isl (send_then env iface bld f s)" if "assembles bld" for bld f s
    using ask_returns [OF assms(1) that, of iface "\<lambda>r. r \<noteq> WIFI_SUCCESS env" s] by (auto simp: send_then_def split: prod.split)
  have t: "\<not> isl (then_send env iface bld s)" if "assembles bld" for bld s
    using ask_returns [OF assms(1) that, of iface "\<lambda>r. r < 0" s] by (auto simp: then_send_def split: prod.split)
  note b = build_assembles [OF assms(1,2)]
  show ?thesis
  proof (cases cls)
    case (C_anqpo n ps)
    then show ?thesis using s [OF anqpo_assembles [OF assms(1,2)]] assms(3) by (simp add: Anqpo_cancel_def)
  next
    case (C_rtt n ps)
    then show ?thesis using s [OF b] by (simp add: Rtt_cancel_def Rtt_createTeardownRequest_def for_each_def)
  qed (simp_all add: cancels Let_def Rssi_createRequest_def Full_createRequest_def Scan_createStopRequest_def createFeatureRequest_def
      Hotlist_createTeardownRequest_def Epno_createTeardownRequest_def Change_createTeardownRequest_def s [OF b] t [OF b])
qed

lemma counts_unref: "counts_fit ob \<Longrightarrow> ob p = Some c \<Longrightarrow> counts_fit (unref ob p c)"
  using unref_same [of ob p c] unfolding counts_fit_def ran_def by fastforce

lemma cleanup_ends:
  assumes "tab_ok h" and "0 \<le> bad" and "life_inv env (objs h) nx (drop (nat bad) (cmds h)) (cbs h) None None" and "nat (num_cmd h - bad) \<le> fuel"
  shows "\<exists>x. cleanup_loop env fuel bad h = Some x \<and> x \<noteq> Inl Use_after_free \<and> (\<forall>h'. x = Inr h' \<longrightarrow> objs h' = Map.empty \<and> cbs h' = []) \<and>
    (answers env \<and> codes_ok env \<and> counts_fit (objs h) \<longrightarrow> \<not> isl x)"
  using assms
proof (induction fuel arbitrary: bad h)
  case 0
  then have "drop (nat bad) (cmds h) = []" by (auto simp: cmds_def)
  then show ?case using 0 inv_idle by auto
next
  case (Suc fuel)
  show ?case
  proof (cases "num_cmd h > bad")
    case False
    then have "drop (nat bad) (cmds h) = []" by (auto simp: cmds_def)
    then show ?thesis using False Suc.prems(3) inv_idle by auto
  next
    case True
    let ?y = "cmds h ! nat bad" and ?rest = "drop (nat (bad + 1)) (cmds h)"
    have b: "nat bad < length (cmds h)" "cmd_tab h ! nat bad = ?y" "nat (bad + 1) = Suc (nat bad)"
      using True Suc.prems(1,2) by (auto simp: tab_ok_def cmds_def nat_add_distrib)
    then have y: "drop (nat bad) (cmds h) = ?y # ?rest" by (simp add: Cons_nth_drop_Suc)
    have l: "life_inv env (objs h) nx (?y # ?rest) (cbs h) None None" using Suc.prems(3) y by simp
    let ?p = "ci_cmd ?y"
    obtain c where c: "objs h ?p = Some c" and p: "?p \<noteq> null" using l by (auto simp: life_inv_def ids_ok_def)
    have t: "life_inv env (objs h) nx ?rest (cbs h) (Some (?p, False)) None" using inv_take [OF l, of ?y] by simp
    show ?thesis
    proof (cases "cancel env (c_iface c) (c_class c) h")
      case (Inl e)
      have "\<not> (answers env \<and> codes_ok env \<and> counts_fit (objs h))"
        using cancel_returns [of env "c_class c" "c_iface c" h] Inl c by (auto simp: counts_fit_def ran_def)
      then show ?thesis using Inl True b(2) p c cancel_uaf [of env "c_iface c" "c_class c" h] by (auto simp: Let_def cancel_obj_def)
    next
      case (Inr x)
      obtain r h2 where x: "x = (r, h2)" by (cases x)
      note hc = cancel_holds [OF Suc.prems(1) Inr [unfolded x]]
      note z = holds_parts [OF hc]
      have n: "num_cmd h2 = num_cmd h" using hc by (simp add: holds_cbs_def cb_only_iff)
      let ?h3 = "h2\<lparr>objs := unref (objs h) ?p c\<rparr>"
      have rel: "releaseRef ?p h2 = Inr ?h3" using releaseRef_unref [of h2 ?p c] z c by simp
      have "life_inv env (objs ?h3) nx ?rest (cbs h2) None None" using inv_drop_taken [OF inv_cancel [OF t c] c] z by simp
      moreover have k: "cmds ?h3 = cmds h" "cbs ?h3 = cbs h2" "tab_ok ?h3" "num_cmd ?h3 = num_cmd h"
        using z n by (simp_all add: cmds_def cbs_def tab_ok_def)
      ultimately have ih: "\<exists>x. cleanup_loop env fuel (bad + 1) ?h3 = Some x \<and> x \<noteq> Inl Use_after_free \<and>
          (\<forall>h'. x = Inr h' \<longrightarrow> objs h' = Map.empty \<and> cbs h' = []) \<and>
          (answers env \<and> codes_ok env \<and> counts_fit (objs ?h3) \<longrightarrow> \<not> isl x)"
        using Suc.prems by (intro Suc.IH) auto
      have e: "cleanup_loop env (Suc fuel) bad h = cleanup_loop env fuel (bad + 1) ?h3"
        using True b(2) p c Inr x n rel by (simp add: Let_def cancel_obj_def)
      have "counts_fit (objs h) \<Longrightarrow> counts_fit (objs ?h3)" using counts_unref [of "objs h" ?p c] c by simp
      then show ?thesis unfolding e using ih by blast
    qed
  qed
qed

lemma cleanup_idle:
  assumes "inv_of env s" and "taken s = None" and "busy s = None"
  shows "\<exists>x. wifi_cleanup_commands env (length (cmds (hal s))) (hal s) = Some x \<and> x \<noteq> Inl Use_after_free \<and>
    (\<forall>h'. x = Inr h' \<longrightarrow> objs h' = Map.empty \<and> cbs h' = []) \<and> (answers env \<and> codes_ok env \<and> counts_fit (objs (hal s)) \<longrightarrow> \<not> isl x)"
proof -
  have t: "tab_ok (hal s)" and l: "life_inv env (objs (hal s)) (next_obj (hal s)) (drop (nat 0) (cmds (hal s))) (cbs (hal s)) None None"
    using assms by (simp_all add: inv_of_def)
  have "nat (num_cmd (hal s) - 0) \<le> length (cmds (hal s))" using t by (auto simp: tab_ok_def cmds_def)
  moreover have "\<forall>b \<in> set (take (nat (num_event_cb (hal s))) (event_cb (hal s))). objs (hal s) (cb_arg b) \<noteq> None"
    using l by (fastforce simp: life_inv_def owned_def entry_def cbs_def)
  ultimately show ?thesis unfolding wifi_cleanup_commands_def using cleanup_ends [OF t _ l] by auto
qed

text \<open>C17. Cleaning up ends, and leaves no command, provided that the framework has started commands only with a request id that no command had
  and for events that no handler waited for. From every state that can be reached under this discipline and in which nothing goes
  on, the loop of \<^verbatim>\<open>wifi_cleanup\<close> needs one turn for each outstanding command and uses none after deleting it; if the driver answers
  every request that is sent, there is memory for the messages, and the counts of Passpoint networks are within their arrays, it
  runs to its end, and then every command is deleted and no handler is left.\<close>

theorem cleanup_releases_all:
  assumes "codes_ok env" and "reach env s" and "taken s = None" and "busy s = None"
  shows "\<exists>x. wifi_cleanup_commands env (length (cmds (hal s))) (hal s) = Some x \<and> x \<noteq> Inl Use_after_free \<and>
    (\<forall>h'. x = Inr h' \<longrightarrow> objs h' = Map.empty \<and> cbs h' = []) \<and>
    (answers env \<and> counts_fit (objs (hal s)) \<longrightarrow> (\<exists>h'. x = Inr h'))"
proof -
  obtain x where x: "wifi_cleanup_commands env (length (cmds (hal s))) (hal s) = Some x" "x \<noteq> Inl Use_after_free"
    "\<forall>h'. x = Inr h' \<longrightarrow> objs h' = Map.empty \<and> cbs h' = []" "answers env \<and> codes_ok env \<and> counts_fit (objs (hal s)) \<longrightarrow> \<not> isl x"
    using cleanup_idle [OF reach_inv [OF assms(2,1)] assms(3,4)] by blast
  then show ?thesis using assms(1) by (cases x) auto
qed

lemma roomy_answers: "answers roomy"
  by (simp add: answers_def roomy_def)

theorem cleanup_releases_all_witness:
  "\<exists>s h'. reach roomy s \<and> length (cmds (hal s)) = 1 \<and> wifi_cleanup_commands roomy 1 (hal s) = Some (Inr h') \<and> objs h' = Map.empty \<and> cbs h' = []"
proof -
  have "\<exists>s. runs roomy [A_start (C_rssi (-50) (-80)) 9 3] \<lparr>hal = wifi_demo, taken = None, busy = None\<rparr> = Some s \<and>
      taken s = None \<and> busy s = None \<and> length (cmds (hal s)) = 1 \<and> counts_fit (objs (hal s))"
    by (simp add: wifi_eval wifi_consts counts_fit_def)
  then obtain s where s: "runs roomy [A_start (C_rssi (-50) (-80)) 9 3] \<lparr>hal = wifi_demo, taken = None, busy = None\<rparr> = Some s"
      "taken s = None" "busy s = None" "length (cmds (hal s)) = 1" "counts_fit (objs (hal s))" by blast
  from cleanup_releases_all [OF roomy_codes(1) demo_reach [OF s(1)] s(2,3)] s(4,5) demo_reach [OF s(1)] roomy_answers
  show ?thesis by auto
qed

end
