(* ===== verification/Wifi_Query.thy ===== *)
theory Wifi_Query
  imports Wifi_Init
begin

text \<open>
  The calls of the Wi-Fi HAL that ask the driver and wait for the answer, \<^verbatim>\<open>handleResponse\<close> and the calls on it in \<^verbatim>\<open>src/wifi/gscan.cpp\<close>,
  \<^verbatim>\<open>rtt.cpp\<close>, \<^verbatim>\<open>wifi_hal.cpp\<close> and \<^verbatim>\<open>wifi_offload.cpp\<close>. The arrays of the caller are lists of their capacity; writing behind one is
  \<open>Array_overrun\<close>. What \<^verbatim>\<open>handleResponse\<close> returns only steers \<^verbatim>\<open>libnl\<close>, whose callbacks are the environment's.
\<close>

section \<open>Asking\<close>

definition response_handler :: "(nl_event \<Rightarrow> 'st \<Rightarrow> stop + 'st) \<Rightarrow> nl_event \<Rightarrow> 'st \<Rightarrow> stop + 'st" where
  "response_handler handleResponse reply st = (if e_parse reply < 0 then Inr st else handleResponse reply st)"

fun replies :: "(nl_event \<Rightarrow> 'st \<Rightarrow> stop + 'st) \<Rightarrow> nl_event list \<Rightarrow> 'st \<Rightarrow> stop + 'st" where
  "replies hr [] st = Inr st"
| "replies hr (e # es) st = (case response_handler hr e st of Inl x \<Rightarrow> Inl x | Inr st \<Rightarrow> replies hr es st)"

definition send_receive :: "wifi_env \<Rightarrow> WifiRequest \<Rightarrow> (nl_event \<Rightarrow> 'st \<Rightarrow> stop + 'st) \<Rightarrow> 'st \<Rightarrow> hal_info \<Rightarrow> stop + (int \<times> 'st \<times> hal_info)" where
  "send_receive env q hr st s =
     (case requestResponse env q s of
        Inl e \<Rightarrow> Inl e
      | Inr (r, evs, s) \<Rightarrow> (case replies hr evs st of Inl e \<Rightarrow> Inl e | Inr st \<Rightarrow> Inr (r, st, s)))"

text \<open>\<^verbatim>\<open>WifiCommand::requestResponse()\<close>\<close>

definition query :: "wifi_env \<Rightarrow> int \<Rightarrow> (wifi_call list \<Rightarrow> WifiRequest \<Rightarrow> stop + (int \<times> WifiRequest)) \<Rightarrow> (nl_event \<Rightarrow> 'st \<Rightarrow> stop + 'st) \<Rightarrow>
    'st \<Rightarrow> hal_info \<Rightarrow> stop + (int \<times> 'st \<times> hal_info)" where
  "query env iface create hr st s =
     (case create (wcalls s) (WifiRequest_new (nl80211_family_id s) iface) of
        Inl e \<Rightarrow> Inl e
      | Inr (r, q) \<Rightarrow> if r < 0 then Inr (r, st, s) else send_receive env q hr st s)"

text \<open>\<^verbatim>\<open>memcpy\<close> of the first \<open>n\<close> bytes over \<open>dst\<close>.\<close>

definition copy_over :: "nat \<Rightarrow> 'a list \<Rightarrow> 'a list \<Rightarrow> 'a list" where
  "copy_over n src dst = take n src @ drop n dst"

section \<open>Capabilities and responder\<close>

definition capabilities_response :: "wifi_env \<Rightarrow> int \<Rightarrow> nl_event \<Rightarrow> u8 list \<Rightarrow> stop + u8 list" where
  "capabilities_response env ty reply mCapabilities =
     (if e_cmd reply \<noteq> NL80211_CMD_VENDOR env then Inr mCapabilities
      else
        case e_data reply of
          None \<Rightarrow> Inl Null_pointer
        | Some d \<Rightarrow>
            readable 4 d
              (Inr (if attr_type d = ty then
                      copy_over (min (length d - NLA_HDRLEN) (length mCapabilities)) (attr_payload d) mCapabilities
                    else mCapabilities)))"

definition Caps_handleResponse :: "wifi_env \<Rightarrow> nl_event \<Rightarrow> u8 list \<Rightarrow> stop + u8 list" where
  "Caps_handleResponse env = capabilities_response env GSCAN_ATTRIBUTE_CAPABILITIES"

definition RttCaps_handleResponse :: "wifi_env \<Rightarrow> nl_event \<Rightarrow> u8 list \<Rightarrow> stop + u8 list" where
  "RttCaps_handleResponse env = capabilities_response env RTT_ATTRIBUTE_CAPABILITIES"

definition wifi_get_gscan_capabilities :: "wifi_env \<Rightarrow> int \<Rightarrow> hal_info \<Rightarrow> stop + (int \<times> u8 list \<times> hal_info)" where
  "wifi_get_gscan_capabilities env iface =
     query env iface (\<lambda>h. create_vendor env h GOOGLE_OUI GSCAN_SUBCMD_GET_CAPABILITIES)
       (Caps_handleResponse env) (replicate (sizeof_capabilities env) 0)"

definition wifi_get_rtt_capabilities :: "wifi_env \<Rightarrow> int \<Rightarrow> hal_info \<Rightarrow> stop + (int \<times> u8 list \<times> hal_info)" where
  "wifi_get_rtt_capabilities env iface =
     query env iface (\<lambda>h. create_vendor env h GOOGLE_OUI RTT_SUBCMD_GETCAPABILITY)
       (RttCaps_handleResponse env) (replicate (sizeof_rtt_capabilities env) 0)"

definition Responder_handleResponse :: "wifi_env \<Rightarrow> nl_event \<Rightarrow> u8 list \<Rightarrow> stop + u8 list" where
  "Responder_handleResponse env reply mResponderInfo =
     (if e_cmd reply \<noteq> NL80211_CMD_VENDOR env then Inr mResponderInfo
      else
        let d = (case e_data reply of None \<Rightarrow> [] | Some d \<Rightarrow> d) in
        Inr (copy_over (min (length d) (length mResponderInfo)) d mResponderInfo))"

definition wifi_rtt_get_responder_info :: "wifi_env \<Rightarrow> int \<Rightarrow> hal_info \<Rightarrow> stop + (int \<times> u8 list \<times> hal_info)" where
  "wifi_rtt_get_responder_info env iface =
     query env iface (\<lambda>h. create_vendor env h GOOGLE_OUI RTT_SUBCMD_GETAVAILCHANNEL) (Responder_handleResponse env) (replicate (sizeof_responder env) 0)"

definition EnableResponder_handleResponse :: "wifi_env \<Rightarrow> nl_event \<Rightarrow> u8 list \<Rightarrow> stop + u8 list" where
  "EnableResponder_handleResponse env = Responder_handleResponse env"

definition wifi_enable_responder :: "wifi_env \<Rightarrow> int \<Rightarrow> hal_info \<Rightarrow> stop + (int \<times> u8 list \<times> hal_info)" where
  "wifi_enable_responder env iface =
     query env iface (\<lambda>h. create_vendor env h GOOGLE_OUI RTT_SUBCMD_SET_RESPONDER) (EnableResponder_handleResponse env) (replicate (sizeof_responder env) 0)"

definition skip_response :: "nl_event \<Rightarrow> unit \<Rightarrow> stop + unit" where
  "skip_response reply st = Inr st"

definition wifi_disable_responder :: "wifi_env \<Rightarrow> int \<Rightarrow> hal_info \<Rightarrow> stop + (int \<times> unit \<times> hal_info)" where
  "wifi_disable_responder env iface = query env iface (\<lambda>h. create_vendor env h GOOGLE_OUI RTT_SUBCMD_CANCEL_RESPONDER) skip_response ()"

definition wifi_set_country_code :: "wifi_env \<Rightarrow> int \<Rightarrow> u8 list \<Rightarrow> hal_info \<Rightarrow> stop + (int \<times> unit \<times> hal_info)" where
  "wifi_set_country_code env iface country_code = query env iface (\<lambda>h. Country_create env h country_code) skip_response ()"

section \<open>Channels and features\<close>

record channels_state =
  ch_num :: int
  mChannels :: "u32 list"
  mNumOfChannel :: int

text \<open>The count is the driver's, bounded by the caller's but not from below; the list is copied by it whatever the length of the attribute.\<close>

definition channel_attr :: "int \<Rightarrow> int \<times> u8 list \<Rightarrow> channels_state \<Rightarrow> stop + (bool \<times> channels_state)" where
  "channel_attr mMaxChannels = (\<lambda>(t, bs) st.
     if t = WIFI_ATTRIBUTE_NUM_CHANNELS then
       readable 4 bs
         (let n = sint (u32_at 0 bs); n = (if n > mMaxChannels then mMaxChannels else n) in
          Inr (True, st\<lparr>ch_num := n, mNumOfChannel := n\<rparr>))
     else if t = WIFI_ATTRIBUTE_CHANNEL_LIST \<and> ch_num st \<noteq> 0 then
       if ch_num st < 0 \<or> int (length bs) < 4 * ch_num st \<or> int (length (mChannels st)) < ch_num st then Inl Array_overrun
       else Inr (True, st\<lparr>mChannels := copy_over (nat (ch_num st)) (map (\<lambda>i. u32_at (4 * i) bs) [0..<nat (ch_num st)]) (mChannels st)\<rparr>)
     else Inr (True, st))"

definition Channels_handleResponse :: "wifi_env \<Rightarrow> int \<Rightarrow> nl_event \<Rightarrow> channels_state \<Rightarrow> stop + channels_state" where
  "Channels_handleResponse env mMaxChannels reply st =
     (if e_cmd reply \<noteq> NL80211_CMD_VENDOR env then Inr st
      else
        case e_data reply of
          None \<Rightarrow> Inr st
        | Some d \<Rightarrow> if length d = 0 then Inr st else loop (channel_attr mMaxChannels) (x_attrs env d) (st\<lparr>ch_num := 0\<rparr>))"

definition wifi_get_valid_channels :: "wifi_env \<Rightarrow> int \<Rightarrow> int \<Rightarrow> int \<Rightarrow> channels_state \<Rightarrow> hal_info \<Rightarrow> stop + (int \<times> channels_state \<times> hal_info)" where
  "wifi_get_valid_channels env iface bnd max_channels out =
     query env iface (\<lambda>h. Channels_create env h bnd) (Channels_handleResponse env max_channels) out"

record features_state =
  f_num :: int
  f_i :: nat
  fset :: "u8 list option"
  feature_matrix :: "u32 list option"
  fm_size :: "int option"

definition feature_attr :: "int \<Rightarrow> int \<times> u8 list \<Rightarrow> features_state \<Rightarrow> stop + (bool \<times> features_state)" where
  "feature_attr set_size_max = (\<lambda>(t, bs) st.
     if t = WIFI_ATTRIBUTE_NUM_FEATURE_SET then
       readable 4 bs
         (let n = sint (u32_at 0 bs); n = (if set_size_max \<noteq> 0 \<and> n > set_size_max then set_size_max else n) in
          Inr (True, st\<lparr>f_num := n, fm_size := Some n\<rparr>))
     else if t = WIFI_ATTRIBUTE_FEATURE_SET \<and> int (f_i st) < f_num st then
       readable 4 bs
         (case feature_matrix st of
            None \<Rightarrow> Inl Null_pointer
          | Some m \<Rightarrow>
              if f_i st < length m then Inr (True, st\<lparr>feature_matrix := Some (m[f_i st := u32_at 0 bs]), f_i := f_i st + 1\<rparr>)
              else Inl Array_overrun)
     else Inr (True, st))"

definition Features_handleResponse :: "wifi_env \<Rightarrow> int \<Rightarrow> int \<Rightarrow> nl_event \<Rightarrow> features_state \<Rightarrow> stop + features_state" where
  "Features_handleResponse env feature_type set_size_max reply st =
     (if e_cmd reply \<noteq> NL80211_CMD_VENDOR env then Inr st
      else
        case e_data reply of
          None \<Rightarrow> Inr st
        | Some d \<Rightarrow>
            if length d = 0 then Inr st
            else if feature_type = WIFI_ATTRIBUTE_FEATURE_SET then
              Inr (case fset st of None \<Rightarrow> st | Some f \<Rightarrow> st\<lparr>fset := Some (copy_over (min (length d) (length f)) d f)\<rparr>)
            else if feature_type = WIFI_ATTRIBUTE_NUM_FEATURE_SET then
              if feature_matrix st = None \<or> fm_size st = None then Inr st
              else loop (feature_attr set_size_max) (x_attrs env d) (st\<lparr>f_num := 0, f_i := 0\<rparr>)
            else Inr st)"

definition wifi_get_concurrency_matrix :: "wifi_env \<Rightarrow> int \<Rightarrow> int \<Rightarrow> features_state \<Rightarrow> hal_info \<Rightarrow> stop + (int \<times> features_state \<times> hal_info)" where
  "wifi_get_concurrency_matrix env iface set_size_max out =
     query env iface (\<lambda>h. Features_create env h WIFI_ATTRIBUTE_NUM_FEATURE_SET)
       (Features_handleResponse env WIFI_ATTRIBUTE_NUM_FEATURE_SET set_size_max) out"

section \<open>Cached scan results\<close>

record cached_scan =
  k_scan_id :: int
  k_flags :: int
  k_num_results :: int
  k_buckets_scanned :: int
  k_results :: "hal_result list"

record results_state =
  mScans :: "cached_scan list"
  mRetrieved :: int
  r_completed :: int

record scan_vars =
  v_scan_id :: int
  v_flags :: int
  v_num :: int
  v_bucket_mask :: int

text \<open>One result of the driver: its structure is read at a stride of its own size, after the count was bounded by the size of
  \<^verbatim>\<open>wifi_scan_result\<close>.\<close>

definition cached_result :: "u8 list \<Rightarrow> nat \<Rightarrow> hal_result" where
  "cached_result bs i =
     (let res = drop (i * sizeof_gscan_result) bs in (convert_to_hal_result res)\<lparr>s_ie_length := unat (u32_at 76 res)\<rparr>)"

definition scan_attr :: "wifi_env \<Rightarrow> int \<Rightarrow> int \<times> u8 list \<Rightarrow> scan_vars \<times> results_state \<Rightarrow> stop + (bool \<times> scan_vars \<times> results_state)" where
  "scan_attr env mMax = (\<lambda>(t, bs) (v, st).
     if t = GSCAN_ATTRIBUTE_SCAN_ID then readable 4 bs (Inr (True, v\<lparr>v_scan_id := sint (u32_at 0 bs)\<rparr>, st))
     else if t = GSCAN_ATTRIBUTE_SCAN_FLAGS then readable 1 bs (Inr (True, v\<lparr>v_flags := uint (bs ! 0)\<rparr>, st))
     else if t = GSCAN_ATTRIBUTE_NUM_OF_RESULTS then readable 4 bs (Inr (True, v\<lparr>v_num := sint (u32_at 0 bs)\<rparr>, st))
     else if t = GSCAN_ATTRIBUTE_CH_BUCKET_BITMASK then readable 4 bs (Inr (True, v\<lparr>v_bucket_mask := sint (u32_at 0 bs)\<rparr>, st))
     else if t = GSCAN_ATTRIBUTE_SCAN_RESULTS \<and> v_num v \<noteq> 0 then
       if mRetrieved st \<ge> mMax then Inr (False, v, st)
       else
         let num = min (v_num v) (int (length bs div sizeof_scan_result env));
             num = min num (int (MAX_AP_CACHE_PER_SCAN env));
             i = nat (mRetrieved st);
             scan = \<lparr>k_scan_id = v_scan_id v, k_flags = v_flags v, k_num_results = num, k_buckets_scanned = v_bucket_mask v,
                     k_results = map (cached_result bs) [0..<nat num]\<rparr>
         in
         readable (if num > 0 then (nat num - 1) * sizeof_gscan_result + 80 else 0) bs
           (if i < length (mScans st) then
              Inr (True, v\<lparr>v_num := num\<rparr>, st\<lparr>mScans := (mScans st)[i := scan], mRetrieved := mRetrieved st + 1\<rparr>)
            else Inl Array_overrun)
     else Inr (True, v, st))"

definition results_attr :: "wifi_env \<Rightarrow> int \<Rightarrow> int \<times> u8 list \<Rightarrow> results_state \<Rightarrow> stop + (bool \<times> results_state)" where
  "results_attr env mMax = (\<lambda>(t, bs) st.
     if t = GSCAN_ATTRIBUTE_SCAN_RESULTS_COMPLETE then readable 1 bs (Inr (True, st\<lparr>r_completed := uint (bs ! 0)\<rparr>))
     else if t \<ge> GSCAN_ATTRIBUTE_NUM_OF_RESULTS \<and> t \<le> GSCAN_ATTRIBUTE_CH_BUCKET_BITMASK then
       (case loop (scan_attr env mMax) (x_attrs env bs) (\<lparr>v_scan_id = 0, v_flags = 0, v_num = 0, v_bucket_mask = 0\<rparr>, st) of
          Inl e \<Rightarrow> Inl e
        | Inr (v, st) \<Rightarrow> Inr (True, st))
     else Inr (True, st))"

text \<open>The walk is over the attributes inside the first attribute of the vendor data; one that claims more bytes than there are is an overrun.\<close>

definition Results_handleResponse :: "wifi_env \<Rightarrow> int \<Rightarrow> nl_event \<Rightarrow> results_state \<Rightarrow> stop + results_state" where
  "Results_handleResponse env mMax reply st =
     (if e_cmd reply \<noteq> NL80211_CMD_VENDOR env then Inr st
      else
        case e_data reply of
          None \<Rightarrow> Inr st
        | Some d \<Rightarrow>
            if length d = 0 then Inr st
            else
              readable 4 d
                (readable (attr_len d) d
                  (loop (results_attr env mMax) (x_attrs env (take (attr_len d - NLA_HDRLEN) (attr_payload d))) st)))"

fun execute_loop :: "wifi_env \<Rightarrow> nat \<Rightarrow> int \<Rightarrow> u8 \<Rightarrow> int \<Rightarrow> results_state \<Rightarrow> hal_info \<Rightarrow> stop + (int \<times> results_state \<times> hal_info)" where
  "execute_loop env 0 iface mFlush mMax st s = Inr (WIFI_SUCCESS env, st, s)"
| "execute_loop env (Suc turns) iface mFlush mMax st s =
     (if mRetrieved st < mMax then
        case Results_createRequest env (wcalls s) (mMax - mRetrieved st) mFlush (WifiRequest_new (nl80211_family_id s) iface) of
          Inl e \<Rightarrow> Inl e
        | Inr (r, q) \<Rightarrow>
            if r < 0 then Inr (r, st, s)
            else
              case send_receive env q (Results_handleResponse env mMax) st s of
                Inl e \<Rightarrow> Inl e
              | Inr (r, st', s) \<Rightarrow>
                  if r \<noteq> WIFI_SUCCESS env then Inr (r, st', s)
                  else if mRetrieved st' = mRetrieved st \<or> r_completed st' \<noteq> 0 then Inr (WIFI_SUCCESS env, st', s)
                  else execute_loop env turns iface mFlush mMax st' s
      else Inr (WIFI_SUCCESS env, st, s))"

text \<open>The number of scans is handed out only when the whole loop succeeded.\<close>

definition wifi_get_cached_gscan_results :: "wifi_env \<Rightarrow> int \<Rightarrow> u8 \<Rightarrow> int \<Rightarrow> cached_scan list \<Rightarrow> int \<Rightarrow> hal_info \<Rightarrow>
    stop + (int \<times> int \<times> cached_scan list \<times> hal_info)" where
  "wifi_get_cached_gscan_results env iface fl max_scans results num s =
     (case execute_loop env 10 iface fl max_scans \<lparr>mScans = results, mRetrieved = 0, r_completed = 0\<rparr> s of
        Inl e \<Rightarrow> Inl e
      | Inr (r, st, s) \<Rightarrow> Inr (r, if r = WIFI_SUCCESS env then mRetrieved st else num, mScans st, s))"

section \<open>Offloaded packets\<close>

definition KeepAlive_start :: "wifi_env \<Rightarrow> int \<Rightarrow> keep_alive \<Rightarrow> hal_info \<Rightarrow> stop + (int \<times> hal_info)" where
  "KeepAlive_start env iface k s =
     (case ask env iface (\<lambda>r. r \<noteq> WIFI_SUCCESS env) (KeepAlive_createRequest env (wcalls s) k) (\<lambda>s. s) s of
        Inl e \<Rightarrow> Inl e | Inr (sent, r, s) \<Rightarrow> Inr (r, s))"

definition wifi_start_sending_offloaded_packet ::
    "wifi_env \<Rightarrow> int \<Rightarrow> int \<Rightarrow> u8 list option \<Rightarrow> u16 \<Rightarrow> u8 list option \<Rightarrow> u8 list option \<Rightarrow> u32 \<Rightarrow> hal_info \<Rightarrow> stop + (int \<times> hal_info)" where
  "wifi_start_sending_offloaded_packet env index iface ip_packet ip_packet_len src dst period_msec s =
     (case (ip_packet, src, dst) of
        (Some pkt, Some sm, Some dm) \<Rightarrow>
          if index > 0 \<and> index \<le> N_AVAIL_ID env \<and> period_msec > 0 \<and> int (unat ip_packet_len) \<le> MKEEP_ALIVE_IP_PKT_MAX env then
            KeepAlive_start env iface
              \<lparr>mIndex = word_of_int index, mIpPkt = pkt, mIpPktLen = ip_packet_len, mSrcMacAddr = sm, mDstMacAddr = dm,
               mPeriodMsec = period_msec, mType = START_MKEEP_ALIVE\<rparr> s
          else Inr (WIFI_ERROR_INVALID_ARGS env, s)
      | _ \<Rightarrow> Inr (WIFI_ERROR_INVALID_ARGS env, s))"

definition wifi_stop_sending_offloaded_packet :: "wifi_env \<Rightarrow> int \<Rightarrow> int \<Rightarrow> hal_info \<Rightarrow> stop + (int \<times> hal_info)" where
  "wifi_stop_sending_offloaded_packet env index iface s =
     (if index > 0 \<and> index \<le> N_AVAIL_ID env then
        KeepAlive_start env iface
          \<lparr>mIndex = word_of_int index, mIpPkt = [], mIpPktLen = 0, mSrcMacAddr = [], mDstMacAddr = [], mPeriodMsec = 0, mType = STOP_MKEEP_ALIVE\<rparr> s
      else Inr (WIFI_ERROR_INVALID_ARGS env, s))"

section \<open>Scan results stay in the caller's array\<close>

text \<open>\<open>keeps J x\<close>: no overrun, and \<open>J\<close> of the state that results.\<close>

definition keeps :: "('s \<Rightarrow> bool) \<Rightarrow> (stop + 's) \<Rightarrow> bool" where
  "keeps J x \<longleftrightarrow> x \<noteq> Inl Array_overrun \<and> (\<forall>s. x = Inr s \<longrightarrow> J s)"

lemma keeps_loop:
  assumes "\<And>x s. x \<in> set xs \<Longrightarrow> J s \<Longrightarrow> keeps (\<lambda>(go, s). J s) (f x s)" and "J s"
  shows "keeps J (loop f xs s)"
  using assms
proof (induction xs arbitrary: s)
  case (Cons x xs)
  have k: "keeps (\<lambda>(go, s). J s) (f x s)" using Cons.prems by simp
  show ?case
  proof (cases "f x s")
    case (Inr y)
    obtain go s1 where y: "y = (go, s1)" by (cases y)
    then have "J s1" using k Inr by (simp add: keeps_def)
    moreover from this have "keeps J (loop f xs s1)" using Cons.prems(1) by (intro Cons.IH) simp_all
    ultimately show ?thesis using Inr y by (auto simp: keeps_def)
  qed (use k in \<open>simp add: keeps_def\<close>)
qed (simp add: keeps_def)

lemma keeps_replies:
  assumes "\<And>e s. e \<in> set es \<Longrightarrow> J s \<Longrightarrow> keeps J (hr e s)" and "J s"
  shows "keeps J (replies hr es s)"
  using assms
proof (induction es arbitrary: s)
  case (Cons e es)
  have "keeps J (hr e s)" using Cons.prems by simp
  then have k: "keeps J (response_handler hr e s)" using Cons.prems(2) by (simp add: response_handler_def keeps_def)
  show ?case
  proof (cases "response_handler hr e s")
    case (Inr s1)
    then have "J s1" using k by (simp add: keeps_def)
    then have "keeps J (replies hr es s1)" using Cons.prems(1) by (intro Cons.IH) simp_all
    then show ?thesis using Inr by simp
  qed (use k in \<open>simp add: keeps_def\<close>)
qed (simp add: keeps_def)

text \<open>What the driver's messages are documented to be: attributes with as many bytes as their type, inside an attribute that fits.\<close>

definition attrs_sized :: "wifi_env \<Rightarrow> bool" where
  "attrs_sized env \<longleftrightarrow> (\<forall>bs t v. (t, v) \<in> set (x_attrs env bs) \<longrightarrow>
     (t \<in> {GSCAN_ATTRIBUTE_SCAN_ID, GSCAN_ATTRIBUTE_NUM_OF_RESULTS, GSCAN_ATTRIBUTE_CH_BUCKET_BITMASK} \<longrightarrow> 4 \<le> length v) \<and>
     (t \<in> {GSCAN_ATTRIBUTE_SCAN_FLAGS, GSCAN_ATTRIBUTE_SCAN_RESULTS_COMPLETE} \<longrightarrow> 1 \<le> length v))"

definition event_sized :: "nl_event \<Rightarrow> bool" where
  "event_sized e \<longleftrightarrow> (\<forall>d. e_data e = Some d \<longrightarrow> d = [] \<or> 4 \<le> length d \<and> attr_len d \<le> length d)"

definition replies_sized :: "wifi_env \<Rightarrow> bool" where
  "replies_sized env \<longleftrightarrow> (\<forall>h m b e. b \<in> set (x_recv env h m) \<longrightarrow> K_valid e \<in> set b \<longrightarrow> event_sized e)"

definition scans_in :: "nat \<Rightarrow> int \<Rightarrow> cached_scan list \<Rightarrow> results_state \<Rightarrow> bool" where
  "scans_in ap mMax arr st \<longleftrightarrow> 0 \<le> mRetrieved st \<and> mRetrieved st \<le> mMax \<and> length (mScans st) = length arr \<and>
     (\<forall>i. nat (mRetrieved st) \<le> i \<longrightarrow> i < length arr \<longrightarrow> mScans st ! i = arr ! i) \<and>
     (\<forall>i < nat (mRetrieved st). k_num_results (mScans st ! i) \<le> int ap)"

lemma scans_in_add:
  assumes "scans_in ap mMax arr st" and "mRetrieved st < mMax" and "k_num_results scan \<le> int ap" and "mMax \<le> int (length arr)"
  shows "scans_in ap mMax arr (st\<lparr>mScans := (mScans st)[nat (mRetrieved st) := scan], mRetrieved := mRetrieved st + 1\<rparr>)"
  using assms by (auto simp: scans_in_def nth_list_update nat_add_distrib)

lemma results_fit:
  assumes "sizeof_gscan_result \<le> sizeof_scan_result env" and "n \<le> length bs div sizeof_scan_result env" and "0 < n"
  shows "(n - 1) * sizeof_gscan_result + 80 \<le> length bs"
proof -
  have "(n - 1) * sizeof_gscan_result + 80 \<le> n * sizeof_gscan_result" using assms(3) by (cases n) (simp_all add: sizeof_gscan_result_def)
  also have "\<dots> \<le> n * sizeof_scan_result env" using assms(1) by simp
  also have "\<dots> \<le> (length bs div sizeof_scan_result env) * sizeof_scan_result env" using assms(2) by (rule mult_le_mono1)
  also have "\<dots> \<le> length bs" by simp
  finally show ?thesis .
qed

lemma scan_attr_keeps:
  assumes z: "attrs_sized env" and g: "sizeof_gscan_result \<le> sizeof_scan_result env" and m: "mMax \<le> int (length arr)"
    and x: "x \<in> set (x_attrs env bs)" and j: "scans_in (MAX_AP_CACHE_PER_SCAN env) mMax arr (snd vs)"
  shows "keeps (\<lambda>(go, vs). scans_in (MAX_AP_CACHE_PER_SCAN env) mMax arr (snd vs)) (scan_attr env mMax x vs)"
proof -
  obtain t c where tc: "x = (t, c)" by (cases x)
  obtain v st where vs: "vs = (v, st)" by (cases vs)
  have s: "t \<in> {GSCAN_ATTRIBUTE_SCAN_ID, GSCAN_ATTRIBUTE_NUM_OF_RESULTS, GSCAN_ATTRIBUTE_CH_BUCKET_BITMASK} \<Longrightarrow> 4 \<le> length c"
    and s1: "t = GSCAN_ATTRIBUTE_SCAN_FLAGS \<Longrightarrow> 1 \<le> length c"
    using z x tc unfolding attrs_sized_def by blast+
  let ?n = "min (min (v_num v) (int (length c div sizeof_scan_result env))) (int (MAX_AP_CACHE_PER_SCAN env))"
  have f: "(if ?n > 0 then (nat ?n - 1) * sizeof_gscan_result + 80 else 0) \<le> length c"
    using results_fit [OF g, of "nat ?n" c] by auto
  have i: "mRetrieved st < mMax \<Longrightarrow> nat (mRetrieved st) < length (mScans st)" using j m vs by (auto simp: scans_in_def)
  show ?thesis
  proof (cases "t = GSCAN_ATTRIBUTE_SCAN_RESULTS \<and> v_num v \<noteq> 0 \<and> mRetrieved st < mMax")
    case True
    then show ?thesis using f i scans_in_add [OF j [unfolded vs snd_conv] _ _ m]
      unfolding tc vs scan_attr_def keeps_def readable_def by (simp add: wifi_consts Let_def)
  next
    case False
    then show ?thesis using s s1 j vs tc by (auto simp: scan_attr_def keeps_def readable_def wifi_consts)
  qed
qed

lemma results_attr_keeps:
  assumes "attrs_sized env" and "sizeof_gscan_result \<le> sizeof_scan_result env" and "mMax \<le> int (length arr)"
    and x: "x \<in> set (x_attrs env bs)" and j: "scans_in (MAX_AP_CACHE_PER_SCAN env) mMax arr st"
  shows "keeps (\<lambda>(go, st). scans_in (MAX_AP_CACHE_PER_SCAN env) mMax arr st) (results_attr env mMax x st)"
proof -
  obtain t c where tc: "x = (t, c)" by (cases x)
  have s: "t = GSCAN_ATTRIBUTE_SCAN_RESULTS_COMPLETE \<Longrightarrow> 1 \<le> length c" using assms(1) x tc unfolding attrs_sized_def by blast
  let ?v = "\<lparr>v_scan_id = 0, v_flags = 0, v_num = 0, v_bucket_mask = 0\<rparr>"
  have k: "keeps (\<lambda>vs. scans_in (MAX_AP_CACHE_PER_SCAN env) mMax arr (snd vs)) (loop (scan_attr env mMax) (x_attrs env c) (?v, st))"
    using j by (intro keeps_loop) (auto intro: scan_attr_keeps [OF assms(1-3)])
  have j1: "scans_in (MAX_AP_CACHE_PER_SCAN env) mMax arr (st\<lparr>r_completed := n\<rparr>)" for n using j by (simp add: scans_in_def)
  show ?thesis using s j j1 k unfolding tc results_attr_def keeps_def readable_def by (auto split: sum.splits)
qed

lemma response_keeps:
  assumes "attrs_sized env" and "sizeof_gscan_result \<le> sizeof_scan_result env" and "mMax \<le> int (length arr)"
    and e: "event_sized e" and j: "scans_in (MAX_AP_CACHE_PER_SCAN env) mMax arr st"
  shows "keeps (scans_in (MAX_AP_CACHE_PER_SCAN env) mMax arr) (Results_handleResponse env mMax e st)"
proof -
  have "keeps (scans_in (MAX_AP_CACHE_PER_SCAN env) mMax arr) (loop (results_attr env mMax) (x_attrs env bs) st)" for bs
    using j by (intro keeps_loop) (auto intro: results_attr_keeps [OF assms(1-3)])
  then show ?thesis using e j by (auto simp: Results_handleResponse_def keeps_def readable_def event_sized_def split: option.splits)
qed

lemma fold_cbk_events: "set (snd (fold on_cbk b (err, evs))) \<subseteq> set evs \<union> {e. K_valid e \<in> set b}"
proof (induction b arbitrary: err evs)
  case (Cons c b)
  obtain err1 evs1 where c: "on_cbk c (err, evs) = (err1, evs1)" by (cases "on_cbk c (err, evs)")
  then have "set evs1 \<subseteq> set evs \<union> {e. c = K_valid e}" by (cases c) auto
  then show ?case using Cons [of err1 evs1] c by auto
qed simp

lemma recv_events: "recv_loop bs p = Some (err, evs) \<Longrightarrow> set evs \<subseteq> set (snd p) \<union> {e. \<exists>b \<in> set bs. K_valid e \<in> set b}"
proof (induction bs arbitrary: p)
  case Nil
  then show ?case by (cases p) (auto split: if_splits)
next
  case (Cons b bs)
  obtain e0 v0 where p: "p = (e0, v0)" by (cases p)
  show ?case
  proof (cases "e0 \<le> 0")
    case True
    then show ?thesis using Cons.prems p by simp
  next
    case False
    then have "recv_loop bs (fold on_cbk b (e0, v0)) = Some (err, evs)" using Cons.prems p by simp
    from Cons.IH [OF this] show ?thesis using fold_cbk_events [of b e0 v0] p by auto
  qed
qed

lemma request_replies:
  assumes "replies_sized env" and r: "requestResponse env q s = Inr (r, evs, s')"
  shows "(\<forall>e \<in> set evs. event_sized e) \<and> length (wcalls s') \<le> length (wcalls s) + 1"
proof (cases "x_cb_alloc env (wcalls s)")
  case True
  with r obtain m where m: "mMsg q = Some m" by (cases "mMsg q") (simp_all add: requestResponse_def)
  show ?thesis
  proof (cases "x_send env (wcalls s) m < 0")
    case False
    then obtain e where e: "recv_loop (x_recv env (wcalls s) m) (1, []) = Some e"
      using r True m by (cases "recv_loop (x_recv env (wcalls s) m) (1, [])") (simp_all add: requestResponse_def Let_def del: recv_loop.simps)
    then have "e = (r, evs) \<and> s' = s\<lparr>wcalls := wcalls s @ [W_sent m]\<rparr>"
      using r True m False by (cases e) (simp add: requestResponse_def Let_def del: recv_loop.simps)
    then show ?thesis using recv_events [of _ "(1, [])" r evs] e assms(1) by (fastforce simp: replies_sized_def)
  qed (use r True m in \<open>auto simp: requestResponse_def Let_def\<close>)
qed (use r in \<open>auto simp: requestResponse_def\<close>)

lemma request_no_overrun: "requestResponse env q s \<noteq> Inl Array_overrun"
  by (auto simp: requestResponse_def Let_def split: option.splits simp del: recv_loop.simps)

lemma results_request_no_overrun: "Results_createRequest env h num fl q \<noteq> Inl Array_overrun"
  by (auto simp: Results_createRequest_def build_def create_vendor_def put_def Let_def split: option.splits prod.splits sum.splits flow.splits if_splits)

lemma execute_keeps:
  assumes "attrs_sized env" and "replies_sized env" and "sizeof_gscan_result \<le> sizeof_scan_result env" and "mMax \<le> int (length arr)"
    and "scans_in (MAX_AP_CACHE_PER_SCAN env) mMax arr st"
  shows "keeps (\<lambda>(r, st', s'). scans_in (MAX_AP_CACHE_PER_SCAN env) mMax arr st' \<and> length (wcalls s') \<le> length (wcalls s) + turns)
    (execute_loop env turns iface fl mMax st s)"
  using assms(5)
proof (induction turns arbitrary: st s)
  case (Suc turns)
  let ?q = "WifiRequest_new (nl80211_family_id s) iface"
  let ?J = "scans_in (MAX_AP_CACHE_PER_SCAN env) mMax arr"
  show ?case
  proof (cases "mRetrieved st < mMax")
    case True
    show ?thesis
    proof (cases "Results_createRequest env (wcalls s) (mMax - mRetrieved st) fl ?q")
      case (Inl e)
      then show ?thesis using True results_request_no_overrun by (auto simp: keeps_def)
    next
      case (Inr x)
      obtain r q where x: "x = (r, q)" by (cases x)
      show ?thesis
      proof (cases "r < 0")
        case False
        show ?thesis
        proof (cases "requestResponse env q s")
          case (Inl e)
          then show ?thesis using True Inr x False request_no_overrun by (auto simp: keeps_def send_receive_def)
        next
          case i2: (Inr y)
          obtain r2 evs s2 where y: "y = (r2, evs, s2)" by (cases y)
          note rr = request_replies [OF assms(2) i2 [unfolded y]]
          have k: "keeps ?J (replies (Results_handleResponse env mMax) evs st)"
            using rr Suc.prems by (intro keeps_replies response_keeps [OF assms(1,3,4)]) auto
          show ?thesis
          proof (cases "replies (Results_handleResponse env mMax) evs st")
            case i3: (Inr st2)
            then have j: "?J st2" using k by (simp add: keeps_def)
            from Suc.IH [OF j, of s2] show ?thesis
              using True Inr x False i2 y i3 j rr by (auto simp: keeps_def send_receive_def)
          qed (use True Inr x False i2 y k in \<open>auto simp: keeps_def send_receive_def\<close>)
        qed
      qed (use True Inr x Suc.prems in \<open>auto simp: keeps_def\<close>)
    qed
  qed (use Suc.prems in \<open>auto simp: keeps_def\<close>)
qed (simp add: keeps_def)

text \<open>C19. The cached scans go into the caller's array and nowhere else. For whatever replies the driver sends, if their attributes have
  the bytes their types need, the array is not exceeded and the data is not read behind its end; at most the number of scans that was
  asked for is handed out, each with at most the results its array holds; the entries behind them are untouched; and at
  most ten requests are sent.\<close>

theorem cached_results_bounded:
  assumes "attrs_sized env" and "replies_sized env" and "sizeof_gscan_result \<le> sizeof_scan_result env"
    and "0 \<le> max_scans" and "max_scans \<le> int (length results)"
  shows "wifi_get_cached_gscan_results env iface fl max_scans results num s \<noteq> Inl Array_overrun \<and>
    (\<forall>r n scans s'. wifi_get_cached_gscan_results env iface fl max_scans results num s = Inr (r, n, scans, s') \<longrightarrow>
       length scans = length results \<and> length (wcalls s') \<le> length (wcalls s) + 10 \<and>
       (r = WIFI_SUCCESS env \<longrightarrow> 0 \<le> n \<and> n \<le> max_scans \<and>
         (\<forall>i < nat n. k_num_results (scans ! i) \<le> int (MAX_AP_CACHE_PER_SCAN env)) \<and> drop (nat n) scans = drop (nat n) results))"
proof -
  let ?st = "\<lparr>mScans = results, mRetrieved = 0, r_completed = 0\<rparr>"
  have "scans_in (MAX_AP_CACHE_PER_SCAN env) max_scans results ?st" using assms(4) by (simp add: scans_in_def)
  note k = execute_keeps [OF assms(1-3,5) this, of s 10 iface fl]
  have d: "scans_in ap m results st \<Longrightarrow> drop (nat (mRetrieved st)) (mScans st) = drop (nat (mRetrieved st)) results" for ap m st
    by (rule nth_equalityI) (auto simp: scans_in_def)
  show ?thesis
  proof (cases "execute_loop env 10 iface fl max_scans ?st s")
    case (Inl e)
    then show ?thesis using k by (auto simp: wifi_get_cached_gscan_results_def keeps_def)
  next
    case (Inr x)
    obtain r st s' where x: "x = (r, st, s')" by (cases x)
    have "scans_in (MAX_AP_CACHE_PER_SCAN env) max_scans results st" "length (wcalls s') \<le> length (wcalls s) + 10"
      using k Inr x by (simp_all add: keeps_def)
    then show ?thesis using Inr x d by (auto simp: wifi_get_cached_gscan_results_def scans_in_def)
  qed
qed

section \<open>A driver with one scan\<close>

definition one_reply :: nl_event where
  "one_reply = \<lparr>e_parse = 0, e_cmd = 103, e_u32 = (\<lambda>a. 0), e_data = Some [6, 0, 1, 0, 9, 9]\<rparr>"

definition answering :: wifi_env where
  "answering = roomy\<lparr>x_recv := \<lambda>h m. [[K_valid one_reply, K_finish]],
     x_attrs := \<lambda>bs. if bs = [9, 9] then [(32, [8])] else if bs = [8] then [(30, [1, 0, 0, 0]), (32, replicate 88 0)] else []\<rparr>"

lemma little_endian: "u32_at 0 [1, 0, 0, 0] = 1" "u16_at 0 [6, 0, 1, 0, 9, 9] = 6"
  by (simp_all add: u32_at_def u16_at_def field_def word_rcat_def horner_sum_uint_exp_Cons_eq)

lemma answering_sized: "attrs_sized answering" "replies_sized answering" "sizeof_gscan_result \<le> sizeof_scan_result answering"
  by (auto simp: attrs_sized_def replies_sized_def event_sized_def one_reply_def answering_def roomy_def attr_len_def little_endian sizeof_gscan_result_def
      wifi_consts split: if_splits)

definition no_scan :: cached_scan where
  "no_scan = \<lparr>k_scan_id = 0, k_flags = 0, k_num_results = 0, k_buckets_scanned = 0, k_results = []\<rparr>"

lemmas execute_numeral = execute_loop.simps(2) [where turns = "pred_numeral k" for k, folded numeral_eq_Suc]

lemma answering_runs:
  "\<exists>scans s'. wifi_get_cached_gscan_results answering 3 0 1 [no_scan] 0 wifi_demo = Inr (0, 1, scans, s')"
  by (simp add: wifi_get_cached_gscan_results_def execute_numeral Results_createRequest_def build_def create_vendor_def create_msg_def put_def destroy_def WifiRequest_new_def
        send_receive_def requestResponse_def response_handler_def Results_handleResponse_def results_attr_def scan_attr_def readable_def
        attr_len_def attr_payload_def NLA_HDRLEN_def little_endian one_reply_def answering_def roomy_def wifi_consts wifi_demo_def boot_def
        no_scan_def sizeof_gscan_result_def Let_def)

theorem cached_results_bounded_witness:
  "\<exists>scans s'. wifi_get_cached_gscan_results answering 3 0 1 [no_scan] 0 wifi_demo = Inr (0, 1, scans, s') \<and>
     length scans = 1 \<and> k_num_results (scans ! 0) \<le> 32"
proof -
  obtain scans s' where e: "wifi_get_cached_gscan_results answering 3 0 1 [no_scan] 0 wifi_demo = Inr (0, 1, scans, s')"
    using answering_runs by blast
  have "0 \<le> (1 :: int)" "1 \<le> int (length [no_scan])" by simp_all
  from conjunct2 [OF cached_results_bounded [OF answering_sized this, of 3 0 0 wifi_demo]] e show ?thesis
    by (auto simp: answering_def roomy_def)
qed

end
