(* ===== verification/Wifi_Shutdown.thy ===== *)
theory Wifi_Shutdown
  imports Wifi_Life
begin

text \<open>
  Shutting the Wi-Fi HAL down, \<^verbatim>\<open>src/wifi/wifi_hal.cpp\<close>: the thread of \<^verbatim>\<open>wifi_event_loop\<close> and the one that calls
  \<^verbatim>\<open>wifi_cleanup\<close>, which exchange \<^verbatim>\<open>Exit\<close> and \<^verbatim>\<open>Done\<close> over a pair of sockets before the second frees what the first uses. What
  \<^verbatim>\<open>poll\<close>, \<^verbatim>\<open>read\<close> and \<^verbatim>\<open>write\<close> answer is part of a step; the commands and handlers are the system of \<open>Wifi_Life\<close>, and the loop handles its
  events by the steps of that system. \<^verbatim>\<open>poll\<close> and the two calls on the socket use the descriptors that the loop has copied; the
  handler and the test of \<^verbatim>\<open>clean_up\<close> go through the \<^verbatim>\<open>hal_info\<close>, and after it is freed they are \<open>Freed_info\<close>.
\<close>

unbundle bit_operations_syntax

section \<open>The two threads\<close>

datatype loop_pc = L_idle | L_poll | L_err | L_handler "nl_event list" | L_read | L_write | L_test | L_out
datatype user_pc = U_idle | U_write | U_read | U_flag | U_cmds | U_free | U_done
datatype shut_stop = Freed_info | Inside stop

record shut =
  core :: life
  in_event_loop :: bool
  clean_up :: bool
  to_loop :: string
  to_user :: string
  info_live :: bool
  resources :: "resource set"
  told :: bool
  lpc :: loop_pc
  upc :: user_pc

definition POLLIN :: "16 word" where "POLLIN = 1"
definition POLLERR :: "16 word" where "POLLERR = 8"
definition POLLHUP :: "16 word" where "POLLHUP = 16"

text \<open>Where the loop goes after \<^verbatim>\<open>poll\<close> returned \<open>result\<close> and the two \<^verbatim>\<open>revents\<close>; \<open>evs\<close> are the messages on the event socket.\<close>

definition after_poll :: "int \<Rightarrow> 16 word \<Rightarrow> 16 word \<Rightarrow> nl_event list \<Rightarrow> loop_pc" where
  "after_poll result revents0 revents1 evs =
     (if result < 0 then L_test
      else if revents0 AND POLLERR \<noteq> 0 then L_err
      else if revents0 AND POLLHUP \<noteq> 0 then L_out
      else if revents0 AND POLLIN \<noteq> 0 then L_handler evs
      else if revents1 AND POLLIN \<noteq> 0 then L_read
      else L_test)"

text \<open>A \<^verbatim>\<open>read\<close> that returns \<open>n\<close>: what is put into the buffer, and what is left in the socket.\<close>

definition got :: "int \<Rightarrow> string \<Rightarrow> string" where "got n q = take (nat n) q"
definition left_over :: "int \<Rightarrow> string \<Rightarrow> string" where "left_over n q = drop (nat n) q"

definition in_core :: "shut \<Rightarrow> (stop + life) \<Rightarrow> (life \<Rightarrow> shut) \<Rightarrow> shut_stop + shut" where
  "in_core s x f = (if \<not> info_live s then Inl Freed_info else case x of Inl e \<Rightarrow> Inl (Inside e) | Inr l \<Rightarrow> Inr (f l))"

text \<open>\<^verbatim>\<open>internal_pollin_handler\<close>: the messages one after the other, each entered, handled and left.\<close>

definition internal_pollin_handler :: "wifi_env \<Rightarrow> nl_event list \<Rightarrow> shut \<Rightarrow> shut_stop + shut" where
  "internal_pollin_handler env evs s =
     (case busy (core s) of
        Some (b, e, False) \<Rightarrow> in_core s (step env A_body (core s)) (\<lambda>l. s\<lparr>core := l\<rparr>)
      | Some (b, e, True) \<Rightarrow> in_core s (step env A_leave (core s)) (\<lambda>l. s\<lparr>core := l\<rparr>)
      | None \<Rightarrow>
          (case evs of
             [] \<Rightarrow> in_core s (Inr (core s)) (\<lambda>l. s\<lparr>lpc := L_test\<rparr>)
           | e # es \<Rightarrow> in_core s (step env (A_enter e) (core s)) (\<lambda>l. s\<lparr>core := l, lpc := L_handler es\<rparr>)))"

text \<open>\<^verbatim>\<open>internal_cleaned_up_handler\<close>: what it gives back of what \<^verbatim>\<open>wifi_initialize\<close> acquired.\<close>

definition internal_cleaned_up_handler :: "shut \<Rightarrow> shut" where
  "internal_cleaned_up_handler s =
     (let res = (if R_cmd_sock \<in> resources s then resources s - {R_socks, R_cmd_sock, R_event_sock} else resources s) in
      s\<lparr>resources := res - {R_lock, R_info}, told := True, info_live := False\<rparr>)"

datatype sact =
  B_life act
| B_loop
| B_poll int "16 word" "16 word" "nl_event list"
| B_err
| B_handle
| B_read int
| B_write int
| B_test
| D_call
| D_write int
| D_read int
| D_flag
| D_cmds
| D_free

text \<open>The steps of \<^verbatim>\<open>wifi_event_loop\<close>. The buffer is cleared before a read, so \<^verbatim>\<open>strncmp\<close> compares the four bytes.\<close>

fun wifi_event_loop :: "wifi_env \<Rightarrow> sact \<Rightarrow> shut \<Rightarrow> shut_stop + shut" where
  "wifi_event_loop env B_loop s =
     (if \<not> info_live s then Inl Freed_info
      else Inr (if in_event_loop s then s else s\<lparr>in_event_loop := True, lpc := L_poll\<rparr>))"
| "wifi_event_loop env (B_poll r rev0 rev1 evs) s = Inr (s\<lparr>lpc := after_poll r rev0 rev1 evs\<rparr>)"
| "wifi_event_loop env B_err s = Inr (s\<lparr>lpc := L_test\<rparr>)"
| "wifi_event_loop env B_handle s = (case lpc s of L_handler evs \<Rightarrow> internal_pollin_handler env evs s | _ \<Rightarrow> Inr s)"
| "wifi_event_loop env (B_read n) s =
     Inr (s\<lparr>lpc := (if take 4 (got n (to_loop s)) = ''Exit'' then L_write else L_test), to_loop := left_over n (to_loop s)\<rparr>)"
| "wifi_event_loop env (B_write n) s = Inr (s\<lparr>lpc := L_out, to_user := to_user s @ got n ''Done''\<rparr>)"
| "wifi_event_loop env B_test s =
     (if \<not> info_live s then Inl Freed_info else Inr (s\<lparr>lpc := (if clean_up s then L_out else L_poll)\<rparr>))"
| "wifi_event_loop env a s = Inr s"

text \<open>The steps of \<^verbatim>\<open>wifi_cleanup\<close>. What it reads is only logged.\<close>

fun wifi_cleanup :: "wifi_env \<Rightarrow> sact \<Rightarrow> shut \<Rightarrow> shut_stop + shut" where
  "wifi_cleanup env D_call s = Inr (s\<lparr>upc := U_write\<rparr>)"
| "wifi_cleanup env (D_write n) s =
     Inr (if n < 1 then s\<lparr>upc := U_flag\<rparr> else s\<lparr>to_loop := to_loop s @ got n ''Exit'', upc := U_read\<rparr>)"
| "wifi_cleanup env (D_read n) s = Inr (s\<lparr>to_user := left_over n (to_user s), upc := U_flag\<rparr>)"
| "wifi_cleanup env D_flag s = Inr (s\<lparr>clean_up := True, upc := U_cmds\<rparr>)"
| "wifi_cleanup env D_cmds s =
     (case wifi_cleanup_commands env (length (cmds (hal (core s)))) (hal (core s)) of
        None \<Rightarrow> Inr s
      | Some (Inl e) \<Rightarrow> Inl (Inside e)
      | Some (Inr h) \<Rightarrow> Inr (s\<lparr>core := (core s)\<lparr>hal := h\<rparr>, upc := U_free\<rparr>))"
| "wifi_cleanup env D_free s = Inr ((internal_cleaned_up_handler s)\<lparr>upc := U_done\<rparr>)"
| "wifi_cleanup env a s = Inr s"

fun sstep :: "wifi_env \<Rightarrow> sact \<Rightarrow> shut \<Rightarrow> shut_stop + shut" where
  "sstep env (B_life a) s = in_core s (step env a (core s)) (\<lambda>l. s\<lparr>core := l\<rparr>)"
| "sstep env D_call s = wifi_cleanup env D_call s"
| "sstep env (D_write n) s = wifi_cleanup env (D_write n) s"
| "sstep env (D_read n) s = wifi_cleanup env (D_read n) s"
| "sstep env D_flag s = wifi_cleanup env D_flag s"
| "sstep env D_cmds s = wifi_cleanup env D_cmds s"
| "sstep env D_free s = wifi_cleanup env D_free s"
| "sstep env a s = wifi_event_loop env a s"

text \<open>Which calls are the framework's; the others are made by the event loop.\<close>

fun framework :: "act \<Rightarrow> bool" where
  "framework (A_enter e) \<longleftrightarrow> False"
| "framework A_body \<longleftrightarrow> False"
| "framework A_leave \<longleftrightarrow> False"
| "framework a \<longleftrightarrow> True"

text \<open>The order of each thread. The framework makes no other call once it cleans up, and cleans up once, after the calls it has made. \<^verbatim>\<open>poll\<close> reports only
  what is there, and the exchange of four bytes over the pair of sockets neither fails nor is cut; a \<^verbatim>\<open>read\<close> waits until there is something.
  About the event socket nothing is assumed.\<close>

fun sallowed :: "wifi_env \<Rightarrow> sact \<Rightarrow> shut \<Rightarrow> bool" where
  "sallowed env (B_life a) s \<longleftrightarrow> upc s = U_idle \<and> framework a \<and> allowed env a (core s)"
| "sallowed env B_loop s \<longleftrightarrow> upc s = U_idle"
| "sallowed env (B_poll r rev0 rev1 evs) s \<longleftrightarrow> lpc s = L_poll \<and> (rev1 AND POLLIN \<noteq> 0 \<longrightarrow> to_loop s \<noteq> [])"
| "sallowed env B_err s \<longleftrightarrow> lpc s = L_err"
| "sallowed env B_handle s \<longleftrightarrow> (\<exists>evs. lpc s = L_handler evs)"
| "sallowed env (B_read n) s \<longleftrightarrow> lpc s = L_read \<and> to_loop s \<noteq> [] \<and> n = int (length (to_loop s))"
| "sallowed env (B_write n) s \<longleftrightarrow> lpc s = L_write \<and> n = 4"
| "sallowed env B_test s \<longleftrightarrow> lpc s = L_test"
| "sallowed env D_call s \<longleftrightarrow> upc s = U_idle \<and> taken (core s) = None"
| "sallowed env (D_write n) s \<longleftrightarrow> upc s = U_write \<and> n = 4"
| "sallowed env (D_read n) s \<longleftrightarrow> upc s = U_read \<and> to_user s \<noteq> [] \<and> n = int (length (to_user s))"
| "sallowed env D_flag s \<longleftrightarrow> upc s = U_flag"
| "sallowed env D_cmds s \<longleftrightarrow> upc s = U_cmds"
| "sallowed env D_free s \<longleftrightarrow> upc s = U_free"

definition sboot :: "hal_info \<Rightarrow> shut" where
  "sboot h = \<lparr>core = \<lparr>hal = h, taken = None, busy = None\<rparr>, in_event_loop = False, clean_up = False, to_loop = [], to_user = [],
     info_live = True, resources = UNIV, told = False, lpc = L_idle, upc = U_idle\<rparr>"

inductive sreach :: "wifi_env \<Rightarrow> shut \<Rightarrow> bool" for env where
  sreach_boot: "sreach env (sboot (boot family cb_array cmd_array))"
| sreach_step: "sreach env s \<Longrightarrow> sallowed env a s \<Longrightarrow> sstep env a s = Inr s' \<Longrightarrow> sreach env s'"

section \<open>The invariant\<close>

text \<open>How far the exchange is.\<close>

definition exchange :: "shut \<Rightarrow> bool" where
  "exchange s \<longleftrightarrow>
     (case upc s of
        U_idle \<Rightarrow> to_loop s = [] \<and> to_user s = [] \<and> lpc s \<noteq> L_read \<and> lpc s \<noteq> L_write
      | U_write \<Rightarrow> to_loop s = [] \<and> to_user s = [] \<and> lpc s \<noteq> L_read \<and> lpc s \<noteq> L_write
      | U_read \<Rightarrow> to_loop s = ''Exit'' \<and> to_user s = [] \<and> lpc s \<noteq> L_write \<or> to_loop s = [] \<and> to_user s = [] \<and> lpc s = L_write \<or>
          to_loop s = [] \<and> to_user s = ''Done'' \<and> lpc s = L_out
      | _ \<Rightarrow> lpc s = L_out)"

definition flags_ok :: "shut \<Rightarrow> bool" where
  "flags_ok s \<longleftrightarrow> info_live s = (upc s \<noteq> U_done) \<and> told s = (upc s = U_done) \<and> clean_up s = (upc s \<in> {U_cmds, U_free, U_done}) \<and>
     in_event_loop s = (lpc s \<noteq> L_idle) \<and> resources s = (if upc s = U_done then {R_event_cb, R_cmd, R_interfaces} else UNIV)"

definition core_ok :: "wifi_env \<Rightarrow> shut \<Rightarrow> bool" where
  "core_ok env s \<longleftrightarrow>
     (busy (core s) \<noteq> None \<longrightarrow> (\<exists>evs. lpc s = L_handler evs)) \<and> (upc s \<noteq> U_idle \<longrightarrow> taken (core s) = None) \<and>
     (if upc s \<in> {U_free, U_done} then objs (hal (core s)) = Map.empty \<and> cbs (hal (core s)) = [] else reach env (core s))"

definition shut_inv :: "wifi_env \<Rightarrow> shut \<Rightarrow> bool" where
  "shut_inv env s \<longleftrightarrow> exchange s \<and> flags_ok s \<and> core_ok env s"

definition good :: "wifi_env \<Rightarrow> shut_stop + shut \<Rightarrow> bool" where
  "good env x \<longleftrightarrow> (case x of Inl e \<Rightarrow> e \<noteq> Freed_info \<and> e \<noteq> Inside Use_after_free | Inr s \<Rightarrow> shut_inv env s)"

lemma framework_busy: "framework a \<Longrightarrow> step env a l = Inr l' \<Longrightarrow> busy l' = busy l"
  by (cases a) (auto simp: with_hal_def Let_def split: sum.splits prod.splits option.splits bool.splits)

lemma loop_taken: "\<not> framework a \<Longrightarrow> step env a l = Inr l' \<Longrightarrow> taken l' = taken l"
  by (cases a) (auto split: sum.splits prod.splits option.splits bool.splits)

lemma in_core_good:
  assumes "codes_ok env" and "reach env (core s)" and "allowed env a (core s)" and "info_live s"
    and "\<And>l. step env a (core s) = Inr l \<Longrightarrow> reach env l \<Longrightarrow> shut_inv env (f l)"
  shows "good env (in_core s (step env a (core s)) f)"
proof -
  have "fine env (step env a (core s))" using step_fine [OF assms(1) reach_inv [OF assms(2,1)] assms(3)] .
  then show ?thesis using assms(2-5) reach_step [OF assms(2,3)] by (auto simp: good_def in_core_def fine_def split: sum.split)
qed

lemma good_life: "shut_inv env s \<Longrightarrow> codes_ok env \<Longrightarrow> sallowed env (B_life a) s \<Longrightarrow> good env (sstep env (B_life a) s)"
  unfolding sstep.simps
  by (rule in_core_good) (auto simp: shut_inv_def core_ok_def flags_ok_def exchange_def dest: framework_busy)

lemma handler_state:
  assumes "shut_inv env s" and "lpc s = L_handler evs"
  shows "upc s \<in> {U_idle, U_write, U_read}" "info_live s" "reach env (core s)"
  using assms by (auto simp: shut_inv_def core_ok_def flags_ok_def exchange_def split: user_pc.splits)

lemma handler_keeps:
  assumes "shut_inv env s" and "lpc s = L_handler evs" and "reach env l" and "taken l = taken (core s)"
    and "pc = L_test \<and> busy l = None \<or> (\<exists>es. pc = L_handler es)"
  shows "shut_inv env (s\<lparr>core := l, lpc := pc\<rparr>)"
  using assms handler_state [OF assms(1,2)]
  by (auto simp: shut_inv_def core_ok_def flags_ok_def exchange_def split: user_pc.splits)

lemma good_part:
  assumes "shut_inv env s" and "codes_ok env" and "lpc s = L_handler evs" and "allowed env a (core s)" and "\<not> framework a"
  shows "good env (in_core s (step env a (core s)) (\<lambda>l. s\<lparr>core := l, lpc := L_handler es\<rparr>))"
  by (rule in_core_good [OF assms(2) handler_state(3) [OF assms(1,3)] assms(4) handler_state(2) [OF assms(1,3)]])
    (use loop_taken [OF assms(5)] in \<open>blast intro: handler_keeps [OF assms(1,3)]\<close>)

lemma good_handle:
  assumes "shut_inv env s" and "codes_ok env" and "lpc s = L_handler evs"
  shows "good env (internal_pollin_handler env evs s)"
proof -
  note part = good_part [OF assms]
  have same: "(\<lambda>l. s\<lparr>core := l\<rparr>) = (\<lambda>l. s\<lparr>core := l, lpc := L_handler evs\<rparr>)" using assms(3) by (intro ext) simp
  consider "busy (core s) = None" "evs = []" | e es where "busy (core s) = None" "evs = e # es"
    | b e where "busy (core s) = Some (b, e, False)" | b e where "busy (core s) = Some (b, e, True)"
    by (metis (full_types) list.exhaust option.exhaust prod_cases3)
  then show ?thesis
  proof cases
    case 1
    then have "shut_inv env (s\<lparr>lpc := L_test\<rparr>)"
      using handler_keeps [OF assms(1,3), of "core s" L_test] handler_state(3) [OF assms(1,3)] by simp
    then show ?thesis using 1 handler_state(2) [OF assms(1,3)] by (simp add: internal_pollin_handler_def in_core_def good_def)
  next
    case (2 e es)
    then show ?thesis using part [of "A_enter e" es] by (simp add: internal_pollin_handler_def)
  next
    case (3 b e)
    then show ?thesis using part [of A_body evs] unfolding same [symmetric] by (simp add: internal_pollin_handler_def)
  next
    case (4 b e)
    then show ?thesis using part [of A_leave evs] unfolding same [symmetric] by (simp add: internal_pollin_handler_def)
  qed
qed

lemmas shut_simps = shut_inv_def core_ok_def flags_ok_def exchange_def good_def

text \<open>While the loop runs, only its program counter and the sockets change.\<close>

lemma loop_keeps:
  assumes "shut_inv env s" and "lpc s \<notin> {L_idle, L_out}" and "busy (core s) = None" and "pc \<noteq> L_idle"
    and "exchange (s\<lparr>lpc := pc, to_loop := tl', to_user := tu'\<rparr>)"
  shows "shut_inv env (s\<lparr>lpc := pc, to_loop := tl', to_user := tu'\<rparr>)"
  using assms by (simp add: shut_inv_def core_ok_def flags_ok_def)

lemma loop_state:
  assumes "shut_inv env s" and "lpc s \<notin> {L_idle, L_out}"
  shows "upc s \<in> {U_idle, U_write, U_read}" "info_live s" "\<not> clean_up s" "\<forall>evs. lpc s \<noteq> L_handler evs \<Longrightarrow> busy (core s) = None"
  using assms by (auto simp: shut_inv_def flags_ok_def exchange_def core_ok_def simp del: not_None_eq split: user_pc.splits)

lemma good_poll:
  assumes "shut_inv env s" and "sallowed env (B_poll r rev0 rev1 evs) s"
  shows "good env (sstep env (B_poll r rev0 rev1 evs) s)"
proof -
  let ?pc = "after_poll r rev0 rev1 evs"
  have "?pc \<notin> {L_idle, L_write}" "?pc = L_read \<Longrightarrow> to_loop s \<noteq> []" using assms(2) by (auto simp: after_poll_def split: if_splits)
  with assms loop_state(1) [OF assms(1)] have "exchange (s\<lparr>lpc := ?pc\<rparr>)" by (auto simp: shut_inv_def exchange_def)
  then show ?thesis
    using loop_keeps [OF assms(1), where pc = ?pc and tl' = "to_loop s" and tu' = "to_user s"] loop_state(4) [OF assms(1)] assms(2) \<open>?pc \<notin> _\<close> by (simp add: good_def)
qed

lemma good_loop:
  assumes "shut_inv env s" and "sallowed env a s" and "a \<in> {B_loop, B_err, B_test, B_read n, B_write n}"
  shows "good env (sstep env a s)"
proof -
  note st = loop_state [OF assms(1)]
  consider "a = B_loop" | "a = B_err" | "a = B_test" | "a = B_read n" | "a = B_write n" using assms(3) by blast
  then show ?thesis
  proof cases
    case 1
    then show ?thesis using assms(1,2) by (auto simp: good_def shut_inv_def flags_ok_def core_ok_def exchange_def)
  next
    case 2
    then have "exchange (s\<lparr>lpc := L_test\<rparr>)" using assms(1,2) st(1) by (auto simp: shut_inv_def exchange_def)
    then show ?thesis using 2 loop_keeps [OF assms(1), where pc = L_test and tl' = "to_loop s" and tu' = "to_user s"] st(4) assms(2) by (simp add: good_def)
  next
    case 3
    then have "exchange (s\<lparr>lpc := L_poll\<rparr>)" using assms(1,2) st(1) by (auto simp: shut_inv_def exchange_def)
    then show ?thesis using 3 loop_keeps [OF assms(1), where pc = L_poll and tl' = "to_loop s" and tu' = "to_user s"] st(2-4) assms(2) by (simp add: good_def)
  next
    case 4
    then have u: "upc s = U_read" "to_loop s = ''Exit''" "to_user s = []" using assms(1,2) st(1) by (auto simp: shut_inv_def exchange_def)
    then have "exchange (s\<lparr>lpc := L_write, to_loop := []\<rparr>)" by (simp add: exchange_def)
    then show ?thesis using 4 loop_keeps [OF assms(1), where pc = L_write and tl' = "[]" and tu' = "to_user s"] st(4) assms(2) u(2) by (simp add: good_def got_def left_over_def)
  next
    case 5
    then have u: "upc s = U_read" "to_loop s = []" "to_user s = []" using assms(1,2) st(1) by (auto simp: shut_inv_def exchange_def)
    then have "exchange (s\<lparr>lpc := L_out, to_user := ''Done''\<rparr>)" by (simp add: exchange_def)
    then show ?thesis using 5 loop_keeps [OF assms(1), where pc = L_out and tl' = "to_loop s" and tu' = "''Done''"] st(4) assms(2) u(3) by (simp add: good_def got_def)
  qed
qed

lemma good_cmds:
  assumes "shut_inv env s" and "codes_ok env" and "upc s = U_cmds"
  shows "good env (sstep env D_cmds s)"
    and "\<exists>x. wifi_cleanup_commands env (length (cmds (hal (core s)))) (hal (core s)) = Some x \<and>
      (answers env \<and> counts_fit (objs (hal (core s))) \<longrightarrow> \<not> isl x)"
proof -
  have c: "reach env (core s)" "taken (core s) = None" "busy (core s) = None" using assms(1,3) by (auto simp: shut_simps simp del: not_None_eq)
  note i = cleanup_idle [OF reach_inv [OF c(1) assms(2)] c(2,3)]
  then show "\<exists>x. wifi_cleanup_commands env (length (cmds (hal (core s)))) (hal (core s)) = Some x \<and>
      (answers env \<and> counts_fit (objs (hal (core s))) \<longrightarrow> \<not> isl x)" using assms(2) by blast
  from i obtain x where x: "wifi_cleanup_commands env (length (cmds (hal (core s)))) (hal (core s)) = Some x" "x \<noteq> Inl Use_after_free"
    "\<And>h'. x = Inr h' \<Longrightarrow> objs h' = Map.empty \<and> cbs h' = []" by blast
  show "good env (sstep env D_cmds s)"
  proof (cases x)
    case (Inl e)
    then show ?thesis using x(1,2) by (simp add: good_def)
  next
    case (Inr h)
    then show ?thesis using x(1,3) c(2,3) assms(1,3) by (simp add: shut_simps)
  qed
qed

lemma given_back: "internal_cleaned_up_handler s = s\<lparr>resources := {R_event_cb, R_cmd, R_interfaces}, told := True, info_live := False\<rparr>"
  if "resources s = UNIV"
proof -
  have "UNIV - {R_socks, R_cmd_sock, R_event_sock} - {R_lock, R_info} = {R_event_cb, R_cmd, R_interfaces}"
    using resource.exhaust by auto
  then show ?thesis using that by (simp add: internal_cleaned_up_handler_def)
qed

lemma good_cleanup:
  assumes "shut_inv env s" and "sallowed env a s" and "a \<in> {D_call, D_flag, D_free, D_write n, D_read n}"
  shows "good env (sstep env a s)"
proof -
  consider "a = D_call" | "a = D_flag" | "a = D_free" | "a = D_write n" | "a = D_read n" using assms(3) by blast
  then show ?thesis
  proof cases
    case 3
    then have u: "upc s = U_free" "resources s = UNIV" using assms(1,2) by (simp_all add: shut_inv_def flags_ok_def)
    then show ?thesis using 3 assms(1) unfolding shut_simps by (auto simp: given_back)
  next
    case 4
    then show ?thesis using assms(1,2) by (auto simp: shut_simps got_def)
  next
    case 5
    then have "to_user s = ''Done''" "lpc s = L_out" using assms(1,2) by (auto simp: shut_inv_def exchange_def)
    then show ?thesis using 5 assms(1,2) by (simp add: shut_simps left_over_def)
  qed (use assms(1,2) in \<open>auto simp: shut_simps\<close>)
qed

lemma shut_step:
  assumes "shut_inv env s" and "codes_ok env" and "sallowed env a s"
  shows "good env (sstep env a s)"
proof (cases a)
  case (B_life x)
  then show ?thesis using good_life assms by blast
next
  case B_handle
  then obtain evs where "lpc s = L_handler evs" using assms(3) by auto
  then show ?thesis using B_handle good_handle [OF assms(1,2)] by simp
next
  case D_cmds
  then show ?thesis using good_cmds(1) [OF assms(1,2)] assms(3) by simp
qed (use good_poll [OF assms(1)] good_loop [OF assms(1,3)] good_cleanup [OF assms(1,3)] assms(3) in blast)+

lemma sreach_inv: "sreach env s \<Longrightarrow> codes_ok env \<Longrightarrow> shut_inv env s"
proof (induction rule: sreach.induct)
  case (sreach_boot family cb_array cmd_array)
  then show ?case using reach_boot by (simp add: shut_simps sboot_def)
next
  case (sreach_step s a s')
  then show ?case using shut_step [of env s a] by (simp add: good_def)
qed

section \<open>The exchange ends\<close>

text \<open>The steps that the two threads make by themselves while the event socket is silent; a \<^verbatim>\<open>poll\<close> then returns only for the other socket.\<close>

fun quiet :: "sact \<Rightarrow> bool" where
  "quiet (B_life a) \<longleftrightarrow> False"
| "quiet B_loop \<longleftrightarrow> False"
| "quiet D_call \<longleftrightarrow> False"
| "quiet (B_poll r rev0 rev1 evs) \<longleftrightarrow> 0 < r \<and> rev0 = 0 \<and> rev1 AND POLLIN \<noteq> 0"
| "quiet a \<longleftrightarrow> True"

fun sruns :: "wifi_env \<Rightarrow> sact list \<Rightarrow> shut \<Rightarrow> shut option" where
  "sruns env [] s = Some s"
| "sruns env (a # as) s = (if sallowed env a s then case sstep env a s of Inl e \<Rightarrow> None | Inr s' \<Rightarrow> sruns env as s' else None)"

text \<open>The loop is running, or it has left and answered.\<close>

definition running :: "shut \<Rightarrow> bool" where
  "running s \<longleftrightarrow> lpc s \<noteq> L_idle \<and> (lpc s = L_out \<longrightarrow> upc s \<in> {U_write, U_read} \<longrightarrow> to_user s \<noteq> [])"

fun busy_rank :: "(cb_info \<times> nl_event \<times> bool) option \<Rightarrow> nat" where
  "busy_rank None = 0"
| "busy_rank (Some (b, e, f)) = (if f then 1 else 2)"

fun loop_rank :: "life \<Rightarrow> loop_pc \<Rightarrow> nat" where
  "loop_rank l (L_handler evs) = 5 + 3 * length evs + busy_rank (busy l)"
| "loop_rank l L_err = 5"
| "loop_rank l L_test = 4"
| "loop_rank l L_poll = 3"
| "loop_rank l L_read = 2"
| "loop_rank l L_write = 1"
| "loop_rank l pc = 0"

fun user_rank :: "user_pc \<Rightarrow> nat" where
  "user_rank U_write = 5"
| "user_rank U_read = 4"
| "user_rank U_flag = 3"
| "user_rank U_cmds = 2"
| "user_rank U_free = 1"
| "user_rank pc = 0"

definition rank :: "shut \<Rightarrow> nat" where
  "rank s = loop_rank (core s) (lpc s) + user_rank (upc s)"

lemma handle_rank:
  assumes "lpc s = L_handler evs" and "internal_pollin_handler env evs s = Inr s'"
  shows "rank s' < rank s \<and> upc s' = upc s \<and> lpc s' \<notin> {L_idle, L_out}"
  using assms
  by (auto simp: internal_pollin_handler_def in_core_def rank_def split: option.splits bool.splits list.splits sum.splits if_splits prod.splits)

lemma quiet_step:
  assumes "shut_inv env s" and "codes_ok env" and "quiet a" and "sallowed env a s" and "sstep env a s = Inr s'"
  shows "rank s' < rank s \<and> (upc s \<noteq> U_idle \<longrightarrow> upc s' \<noteq> U_idle) \<and> (running s \<longrightarrow> running s')"
proof (cases a)
  case B_handle
  then obtain evs where l: "lpc s = L_handler evs" using assms(4) by auto
  then show ?thesis using handle_rank [OF l] B_handle assms(5) by (auto simp: running_def)
next
  case D_cmds
  then show ?thesis using good_cmds(2) [OF assms(1,2)] assms(1,4,5)
    by (auto simp: rank_def running_def shut_inv_def exchange_def split: sum.splits)
next
  case (B_test)
  then show ?thesis using assms loop_state(3) [OF assms(1)] by (auto simp: rank_def running_def split: if_splits)
next
  case (B_read n)
  then show ?thesis using assms loop_state(1) [OF assms(1)] by (auto simp: rank_def running_def shut_inv_def exchange_def got_def)
next
  case (D_write n)
  then show ?thesis using assms by (auto simp: rank_def running_def)
next
  case (D_read n)
  then show ?thesis using assms by (auto simp: rank_def running_def)
qed (use assms in \<open>auto simp: rank_def running_def after_poll_def got_def internal_cleaned_up_handler_def Let_def\<close>)

lemma quiet_enabled:
  assumes "shut_inv env s" and "running s" and "upc s \<notin> {U_idle, U_done}"
  shows "\<exists>a. quiet a \<and> sallowed env a s"
proof (cases "upc s")
  case U_read
  have p: "quiet (B_poll 1 0 POLLIN [])" by (simp add: POLLIN_def)
  show ?thesis
  proof (cases "to_user s = []")
    case True
    then have "lpc s \<notin> {L_idle, L_out}" "lpc s = L_write \<or> to_loop s = ''Exit''"
      using U_read assms(1,2) by (auto simp: running_def shut_inv_def exchange_def)
    then show ?thesis
      by (cases "lpc s")
        (auto intro: exI [of _ "B_poll 1 0 POLLIN []"] exI [of _ B_err] exI [of _ B_handle] exI [of _ "B_read 4"] exI [of _ "B_write 4"] exI [of _ B_test] p)
  next
    case False
    then show ?thesis using U_read by (intro exI [of _ "D_read (int (length (to_user s)))"]) simp
  qed
qed (use assms(3) in \<open>auto intro: exI [of _ "D_write 4"] exI [of _ D_flag] exI [of _ D_cmds] exI [of _ D_free]\<close>)

lemma quiet_runs:
  assumes "sruns env as s = Some s'" and "list_all quiet as" and "codes_ok env" and "shut_inv env s" and "running s" and "upc s \<noteq> U_idle"
  shows "length as \<le> rank s \<and> shut_inv env s' \<and> running s' \<and> upc s' \<noteq> U_idle"
  using assms
proof (induction as arbitrary: s)
  case (Cons a as)
  then obtain t where a: "sallowed env a s" and t: "sstep env a s = Inr t" and r: "sruns env as t = Some s'"
    by (auto split: if_splits sum.splits)
  have q: "quiet a" using Cons.prems(2) by simp
  note k = quiet_step [OF Cons.prems(4,3) q a t]
  have "shut_inv env t" using shut_step [OF Cons.prems(4,3) a] t by (simp add: good_def)
  then show ?case using Cons.IH [OF r] Cons.prems k by fastforce
qed simp

text \<open>Nothing stands in the way: the driver answers, and the loop is not inside a handler.\<close>

definition undisturbed :: "wifi_env \<Rightarrow> shut \<Rightarrow> bool" where
  "undisturbed env s \<longleftrightarrow> answers env \<and> counts_fit (objs (hal (core s))) \<and> (\<forall>evs. lpc s \<noteq> L_handler evs)"

lemma quiet_succeeds:
  assumes "shut_inv env s" and "codes_ok env" and "undisturbed env s" and "quiet a" and "sallowed env a s"
  shows "\<exists>s'. sstep env a s = Inr s' \<and> undisturbed env s'"
proof (cases a)
  case D_cmds
  then have u: "upc s = U_cmds" using assms(5) by simp
  obtain h where h: "wifi_cleanup_commands env (length (cmds (hal (core s)))) (hal (core s)) = Some (Inr h)"
    using good_cmds(2) [OF assms(1,2) u] assms(3) by (auto simp: undisturbed_def isl_def) (metis sum.exhaust)
  have "objs h = Map.empty" using good_cmds(1) [OF assms(1,2) u] h by (simp add: good_def shut_inv_def core_ok_def)
  then show ?thesis using D_cmds h assms(3) by (simp add: undisturbed_def counts_fit_def)
next
  case B_test
  then have "info_live s" "\<not> clean_up s" using assms(5) loop_state(2,3) [OF assms(1)] by simp_all
  then show ?thesis using B_test assms(3) by (simp add: undisturbed_def)
next
  case B_handle
  then show ?thesis using assms(3,5) by (simp add: undisturbed_def)
qed (use assms in \<open>auto simp: undisturbed_def after_poll_def internal_cleaned_up_handler_def Let_def\<close>)

lemma quiet_runs_undisturbed:
  assumes "sruns env as s = Some s'" and "list_all quiet as" and "codes_ok env" and "shut_inv env s" and "undisturbed env s"
  shows "undisturbed env s'"
  using assms
proof (induction as arbitrary: s)
  case (Cons a as)
  then obtain t where a: "sallowed env a s" and t: "sstep env a s = Inr t" and r: "sruns env as t = Some s'"
    by (auto split: if_splits sum.splits)
  have "shut_inv env t" using shut_step [OF Cons.prems(4,3) a] t by (simp add: good_def)
  then show ?case using Cons.IH [OF r] Cons.prems quiet_succeeds [OF Cons.prems(4,3,5) _ a] t by simp
qed simp

text \<open>A loop that is not there does not answer.\<close>

lemma stays_blocked:
  assumes "shut_inv env s" and "\<not> running s" and "upc s \<noteq> U_idle" and "sallowed env a s" and "sstep env a s = Inr s'"
  shows "\<not> running s' \<and> upc s' \<in> {U_write, U_read}"
proof -
  have "lpc s \<in> {L_idle, L_out}" "to_user s = []" "upc s \<in> {U_write, U_read}"
    using assms(1-3) by (auto simp: running_def shut_inv_def exchange_def split: user_pc.splits)
  then show ?thesis using assms(4,5) by (cases a) (auto simp: running_def)
qed

lemma blocked_runs:
  assumes "sruns env as s = Some s'" and "codes_ok env" and "shut_inv env s" and "\<not> running s" and "upc s \<in> {U_write, U_read}"
  shows "upc s' \<in> {U_write, U_read}"
  using assms
proof (induction as arbitrary: s)
  case (Cons a as)
  then obtain t where a: "sallowed env a s" and t: "sstep env a s = Inr t" and r: "sruns env as t = Some s'"
    by (auto split: if_splits sum.splits)
  have "shut_inv env t" using shut_step [OF Cons.prems(3,2) a] t by (simp add: good_def)
  then show ?case using Cons.IH [OF r Cons.prems(2)] stays_blocked [OF Cons.prems(3,4) _ a t] Cons.prems(5) by auto
qed simp

lemma sruns_reach: "sruns env as s = Some s' \<Longrightarrow> sreach env s \<Longrightarrow> sreach env s'"
  by (induction as arbitrary: s) (auto split: if_splits sum.splits intro: sreach_step)

text \<open>C8. Nothing is used after it was freed when the HAL is shut down. However the framework's calls, the events and the two threads of the
  shutdown interleave, neither the event loop nor a handler touches the \<^verbatim>\<open>hal_info\<close> after \<^verbatim>\<open>wifi_cleanup\<close> freed it, and no command is used
  after it was deleted; when the cleanup is through, the event loop has left, the framework was told, no command and no handler is left, and of what the
  initialisation acquired exactly the two tables and the interfaces have not been given back. This is so if the exchange over the socket
  pair does not fail and the framework starts a command only with a request id that no command has and for events that no handler waits
  for.\<close>

theorem shutdown_safe:
  assumes "codes_ok env" and "sreach env s"
  shows "(\<forall>a. sallowed env a s \<longrightarrow> sstep env a s \<noteq> Inl Freed_info \<and> sstep env a s \<noteq> Inl (Inside Use_after_free)) \<and>
    (upc s = U_done \<longrightarrow> lpc s = L_out \<and> told s \<and> objs (hal (core s)) = Map.empty \<and> cbs (hal (core s)) = [] \<and>
       resources s = {R_event_cb, R_cmd, R_interfaces})"
proof -
  note i = sreach_inv [OF assms(2,1)]
  have "sstep env a s \<noteq> Inl Freed_info \<and> sstep env a s \<noteq> Inl (Inside Use_after_free)" if "sallowed env a s" for a
    using shut_step [OF i assms(1) that] by (auto simp: good_def)
  moreover have "lpc s = L_out \<and> told s \<and> objs (hal (core s)) = Map.empty \<and> cbs (hal (core s)) = [] \<and>
      resources s = {R_event_cb, R_cmd, R_interfaces}" if "upc s = U_done"
    using i that by (simp add: shut_simps)
  ultimately show ?thesis by blast
qed

text \<open>C18. The shutdown ends exactly if the event loop is there to answer. It is called while the loop runs, the exchange over the socket pair
  does not fail, and the framework has kept its discipline of request ids and events. Then, as long as the event socket is silent, the
  two threads make no more steps than the rank of the state. If moreover the driver answers every request that is sent, there is memory
  for the messages and the counts of Passpoint networks are within their arrays, and the loop is not inside a handler, then on the way no step
  crashes or hangs, and in every state the cleanup is through or a thread can make its next step: the shutdown ends. If the loop was
  never started or has left because the event socket hung up, \<^verbatim>\<open>wifi_cleanup\<close> never gets past waiting for its answer, whatever happens.\<close>

theorem shutdown_ends_exactly:
  assumes "codes_ok env" and "sreach env s" and "upc s \<noteq> U_idle"
  shows "(running s \<longrightarrow> (\<forall>as s'. list_all quiet as \<longrightarrow> sruns env as s = Some s' \<longrightarrow>
        length as \<le> rank s \<and>
        (undisturbed env s \<longrightarrow>
           (\<forall>a. quiet a \<longrightarrow> sallowed env a s' \<longrightarrow> (\<exists>s''. sstep env a s' = Inr s'')) \<and>
           (upc s' = U_done \<or> (\<exists>a s''. quiet a \<and> sallowed env a s' \<and> sstep env a s' = Inr s''))))) \<and>
    (\<not> running s \<longrightarrow> (\<forall>as s'. sruns env as s = Some s' \<longrightarrow> upc s' \<in> {U_write, U_read}))"
proof -
  note i = sreach_inv [OF assms(2,1)]
  have "length as \<le> rank s \<and> (undisturbed env s \<longrightarrow>
      (\<forall>a. quiet a \<longrightarrow> sallowed env a s' \<longrightarrow> (\<exists>s''. sstep env a s' = Inr s'')) \<and>
      (upc s' = U_done \<or> (\<exists>a s''. quiet a \<and> sallowed env a s' \<and> sstep env a s' = Inr s'')))"
    if r: "running s" and q: "list_all quiet as" and as: "sruns env as s = Some s'" for as s'
  proof -
    note k = quiet_runs [OF as q assms(1) i r assms(3)]
    have ok: "\<exists>s''. sstep env a s' = Inr s''" if "undisturbed env s" "quiet a" "sallowed env a s'" for a
      using quiet_succeeds [OF _ assms(1) quiet_runs_undisturbed [OF as q assms(1) i that(1)] that(2,3)] k by blast
    moreover have "\<exists>a. quiet a \<and> sallowed env a s'" if "upc s' \<noteq> U_done" using quiet_enabled [of env s'] k that by blast
    ultimately show ?thesis using k by blast
  qed
  moreover have "upc s' \<in> {U_write, U_read}" if "\<not> running s" "sruns env as s = Some s'" for as s'
  proof -
    have "upc s \<in> {U_write, U_read}" using i that(1) assms(3) by (auto simp: running_def shut_inv_def exchange_def split: user_pc.splits)
    then show ?thesis using blocked_runs [OF that(2) assms(1) i that(1)] by simp
  qed
  ultimately show ?thesis by blast
qed

section \<open>A run\<close>

lemma demo_boot: "sreach env (sboot wifi_demo)"
  unfolding wifi_demo_def by (rule sreach_boot)

lemma demo_shutdown:
  "\<exists>s. sruns roomy [B_loop, D_call, D_write 4, B_poll 1 0 1 [], B_read 4, B_write 4, D_read 4, D_flag, D_cmds, D_free] (sboot wifi_demo) = Some s \<and>
     upc s = U_done"
  by (simp add: sboot_def after_poll_def POLLIN_def got_def left_over_def wifi_cleanup_commands_def wifi_demo_def boot_def cmds_def
      internal_cleaned_up_handler_def)

lemma demo_hangup:
  "\<exists>s. sruns roomy [B_loop, B_poll 1 16 0 [], D_call, D_write 4] (sboot wifi_demo) = Some s \<and> \<not> running s \<and> upc s = U_read"
  by (simp add: sboot_def after_poll_def POLLIN_def POLLERR_def POLLHUP_def got_def running_def)

text \<open>With a command outstanding.\<close>

lemma demo_waiting:
  "\<exists>s. sruns roomy [B_life (A_start (C_rssi (-50) (-80)) 9 3), B_loop, D_call, D_write 4] (sboot wifi_demo) = Some s \<and> running s \<and>
     upc s = U_read \<and> rank s = 7 \<and> undisturbed roomy s \<and> length (cmds (hal (core s))) = 1"
  by (simp add: sboot_def got_def running_def rank_def in_core_def wifi_eval wifi_consts undisturbed_def roomy_answers [unfolded roomy_def] counts_fit_def)

theorem shutdown_safe_witness:
  "\<exists>s. sreach roomy s \<and> upc s = U_done \<and> lpc s = L_out \<and> resources s = {R_event_cb, R_cmd, R_interfaces}"
proof -
  obtain s where s: "sruns roomy [B_loop, D_call, D_write 4, B_poll 1 0 1 [], B_read 4, B_write 4, D_read 4, D_flag, D_cmds, D_free] (sboot wifi_demo) = Some s"
    and u: "upc s = U_done" using demo_shutdown by blast
  note r = sruns_reach [OF s demo_boot]
  show ?thesis using shutdown_safe [OF roomy_codes(1) r] r u by blast
qed

theorem shutdown_ends_exactly_witness:
  "\<exists>s t a s''. sreach roomy s \<and> running s \<and> rank s = 7 \<and> length (cmds (hal (core s))) = 1 \<and> quiet a \<and> sallowed roomy a s \<and>
     sstep roomy a s = Inr s'' \<and> sreach roomy t \<and> \<not> running t \<and> upc t \<in> {U_write, U_read}"
proof -
  obtain s where s: "sruns roomy [B_life (A_start (C_rssi (-50) (-80)) 9 3), B_loop, D_call, D_write 4] (sboot wifi_demo) = Some s"
    "running s" "upc s = U_read" "rank s = 7" "undisturbed roomy s" "length (cmds (hal (core s))) = 1"
    using demo_waiting by blast
  obtain t where t: "sruns roomy [B_loop, B_poll 1 16 0 [], D_call, D_write 4] (sboot wifi_demo) = Some t" "\<not> running t" "upc t = U_read"
    using demo_hangup by blast
  note rs = sruns_reach [OF s(1) demo_boot] and rt = sruns_reach [OF t(1) demo_boot]
  have "upc s \<noteq> U_idle" "upc t \<noteq> U_idle" using s t by simp_all
  note es = shutdown_ends_exactly [OF roomy_codes(1) rs this(1)] and et = shutdown_ends_exactly [OF roomy_codes(1) rt this(2)]
  have "\<exists>a s''. quiet a \<and> sallowed roomy a s \<and> sstep roomy a s = Inr s''"
    using s(2,3,5) conjunct1 [OF es, THEN mp, THEN spec, of "[]", THEN spec, of s] by simp
  moreover have "upc t \<in> {U_write, U_read}" using conjunct2 [OF et, THEN mp, THEN spec, of "[]", THEN spec, of t] t(2) by simp
  ultimately show ?thesis using rs rt s t by blast
qed

end
