(* ===== verification/Wifi_Group.thy ===== *)
theory Wifi_Group
  imports Wifi_Query C_String
begin

text \<open>
  What is left of \<^verbatim>\<open>src/wifi/wifi_hal.cpp\<close>: the lookup of a multicast group's number, which \<^verbatim>\<open>wifi_initialize\<close> needs to join the group, the local
  port of a socket, and the entries of the function table that only check their arguments. A pointer of the caller is an option, what it points
  to before and after the call. The numbers of the kernel's generic netlink controller are the fields of \<open>ctrl_env\<close>.
\<close>

unbundle bit_operations_syntax

section \<open>The number of a group\<close>

record ctrl_env =
  c_family :: int
  c_groups :: "nl_event \<Rightarrow> u8 list option"
  CTRL_CMD_GETFAMILY :: int
  CTRL_ATTR_FAMILY_NAME :: int
  CTRL_ATTR_MCAST_GRP_NAME :: int
  CTRL_ATTR_MCAST_GRP_ID :: int

definition Multicast_create :: "wifi_env \<Rightarrow> ctrl_env \<Rightarrow> u8 list \<Rightarrow> wifi_call list \<Rightarrow> WifiRequest \<Rightarrow> stop + (int \<times> WifiRequest)" where
  "Multicast_create env ce mName h q =
     (let (ret, q) = create_msg env h (c_family ce) (CTRL_CMD_GETFAMILY ce) 0 0 q in
      if ret < 0 then Inr (ret, q) else put env (CTRL_ATTR_FAMILY_NAME ce) (Vbytes (mName @ [0])) q)"

text \<open>\<^verbatim>\<open>strncmp\<close> of two strings gives zero.\<close>

fun strncmp_zero :: "nat \<Rightarrow> u8 list \<Rightarrow> u8 list \<Rightarrow> bool" where
  "strncmp_zero 0 xs ys \<longleftrightarrow> True"
| "strncmp_zero (Suc n) (x # xs) (y # ys) \<longleftrightarrow> x = y \<and> (x = 0 \<or> strncmp_zero n xs ys)"
| "strncmp_zero (Suc n) xs ys \<longleftrightarrow> False"

text \<open>\<^verbatim>\<open>nla_parse\<close> leaves the last attribute of each type.\<close>

definition parsed :: "(int \<times> u8 list) list \<Rightarrow> int \<Rightarrow> u8 list option" where
  "parsed as t = map_of (rev as) t"

definition group_attr :: "wifi_env \<Rightarrow> ctrl_env \<Rightarrow> u8 list \<Rightarrow> int \<times> u8 list \<Rightarrow> int \<Rightarrow> stop + (bool \<times> int)" where
  "group_attr env ce mGroup mcgrp mId' =
     (let tb2 = parsed (x_attrs env (snd mcgrp)) in
      case (tb2 (CTRL_ATTR_MCAST_GRP_NAME ce), tb2 (CTRL_ATTR_MCAST_GRP_ID ce)) of
        (Some grpName, Some grpId) \<Rightarrow>
          if \<not> strncmp_zero (length grpName) grpName (mGroup @ [0]) then Inr (True, mId')
          else readable 4 grpId (Inr (False, sint (u32_at 0 grpId)))
      | _ \<Rightarrow> Inr (True, mId'))"

definition Multicast_handleResponse :: "wifi_env \<Rightarrow> ctrl_env \<Rightarrow> u8 list \<Rightarrow> nl_event \<Rightarrow> int \<Rightarrow> stop + int" where
  "Multicast_handleResponse env ce mGroup reply mId' =
     (case c_groups ce reply of
        None \<Rightarrow> Inr mId'
      | Some d \<Rightarrow> loop (group_attr env ce mGroup) (x_attrs env d) mId')"

definition wifi_get_multicast_id :: "wifi_env \<Rightarrow> ctrl_env \<Rightarrow> u8 list \<Rightarrow> u8 list \<Rightarrow> hal_info \<Rightarrow> stop + (int \<times> hal_info)" where
  "wifi_get_multicast_id env ce name grp s =
     (case query env 0 (Multicast_create env ce name) (Multicast_handleResponse env ce grp) (-1) s of
        Inl e \<Rightarrow> Inl e
      | Inr (res, mId', s) \<Rightarrow> Inr (if res < 0 then res else mId', s))"

section \<open>The port of a socket\<close>

definition wifi_socket_set_local_port :: "u32 \<Rightarrow> u32 \<Rightarrow> u32" where
  "wifi_socket_set_local_port pid port = (pid AND 0x3FFFFF) + push_bit 22 port"

section \<open>Interfaces of the framework\<close>

definition wifi_get_ifaces :: "wifi_env \<Rightarrow> interface_info option list \<Rightarrow> int \<times> nat \<times> interface_info option list" where
  "wifi_get_ifaces env interfaces = (WIFI_SUCCESS env, length interfaces, interfaces)"

text \<open>\<^verbatim>\<open>strncpy\<close> into a buffer whose first \<open>n\<close> bytes it writes; without a terminating zero if the source does not fit.\<close>

definition strncpy_bytes :: "char list \<Rightarrow> nat \<Rightarrow> char list" where
  "strncpy_bytes src n = take n src @ replicate (n - length src) NUL"

definition wifi_get_iface_name :: "wifi_env \<Rightarrow> interface_info \<Rightarrow> nat \<Rightarrow> int \<times> char list" where
  "wifi_get_iface_name env info size' = (WIFI_SUCCESS env, strncpy_bytes (if_name info) size')"

section \<open>Entries that do nothing\<close>

definition wifi_set_scanning_mac_oui_dummy :: "wifi_env \<Rightarrow> int" where "wifi_set_scanning_mac_oui_dummy env = WIFI_SUCCESS env"
definition wifi_set_log_handler_dummy :: "wifi_env \<Rightarrow> int" where "wifi_set_log_handler_dummy env = WIFI_SUCCESS env"
definition wifi_configure_nd_offload_dummy :: "wifi_env \<Rightarrow> int" where "wifi_configure_nd_offload_dummy env = WIFI_SUCCESS env"
definition wifi_start_pkt_fate_monitoring_dummy :: "wifi_env \<Rightarrow> int" where "wifi_start_pkt_fate_monitoring_dummy env = WIFI_SUCCESS env"
definition wifi_get_driver_memory_dump_dummy :: "wifi_env \<Rightarrow> int" where "wifi_get_driver_memory_dump_dummy env = WIFI_SUCCESS env"
definition wifi_reset_log_handler_dummy :: "wifi_env \<Rightarrow> int" where "wifi_reset_log_handler_dummy env = WIFI_SUCCESS env"

definition wifi_get_wake_reason_stats_dummy :: "wifi_env \<Rightarrow> u8 list option \<Rightarrow> int \<times> u8 list option" where
  "wifi_get_wake_reason_stats_dummy env cnt =
     (case cnt of None \<Rightarrow> (WIFI_ERROR_INVALID_ARGS env, None) | Some bs \<Rightarrow> (WIFI_SUCCESS env, Some (replicate (length bs) 0)))"

definition wifi_get_packet_filter_capabilities_dummy :: "wifi_env \<Rightarrow> u32 option \<Rightarrow> u32 option \<Rightarrow> int \<times> u32 option \<times> u32 option" where
  "wifi_get_packet_filter_capabilities_dummy env version max_len =
     (if version \<noteq> None \<and> max_len \<noteq> None then (WIFI_SUCCESS env, Some 0, Some 0) else (WIFI_ERROR_INVALID_ARGS env, version, max_len))"

definition wifi_get_tx_pkt_fates_dummy :: "wifi_env \<Rightarrow> nat option \<Rightarrow> int \<times> nat option" where
  "wifi_get_tx_pkt_fates_dummy env n_provided_fates =
     (if n_provided_fates \<noteq> None then (WIFI_SUCCESS env, Some 0) else (WIFI_ERROR_INVALID_ARGS env, n_provided_fates))"

definition wifi_get_rx_pkt_fates_dummy :: "wifi_env \<Rightarrow> nat option \<Rightarrow> int \<times> nat option" where
  "wifi_get_rx_pkt_fates_dummy env n_provided_fates =
     (if n_provided_fates \<noteq> None then (WIFI_SUCCESS env, Some 0) else (WIFI_ERROR_INVALID_ARGS env, n_provided_fates))"

text \<open>The buffer is the \<open>buffer_size\<close> bytes that \<^verbatim>\<open>strncpy\<close> writes.\<close>

definition wifi_get_firmware_version_dummy :: "wifi_env \<Rightarrow> char list option \<Rightarrow> int \<Rightarrow> int \<times> char list option" where
  "wifi_get_firmware_version_dummy env buffer buffer_size =
     (if buffer \<noteq> None \<and> 0 < buffer_size then (WIFI_SUCCESS env, Some (strncpy_bytes ''0'' (nat buffer_size))) else (WIFI_ERROR_INVALID_ARGS env, buffer))"

definition wifi_get_driver_version_dummy :: "wifi_env \<Rightarrow> char list option \<Rightarrow> int \<Rightarrow> int \<times> char list option" where
  "wifi_get_driver_version_dummy env buffer buffer_size =
     (if buffer \<noteq> None \<and> 0 < buffer_size then (WIFI_SUCCESS env, Some (strncpy_bytes ''0'' (nat buffer_size))) else (WIFI_ERROR_INVALID_ARGS env, buffer))"

definition wifi_get_ring_data_dummy :: "wifi_env \<Rightarrow> string option \<Rightarrow> int" where
  "wifi_get_ring_data_dummy env ring_name = (if ring_name \<noteq> None then WIFI_SUCCESS env else WIFI_ERROR_INVALID_ARGS env)"

text \<open>The status starts with its name; the size that is given to \<^verbatim>\<open>strncpy\<close> is the size of its first byte.\<close>

definition wifi_get_ring_buffers_status_dummy :: "wifi_env \<Rightarrow> u32 option \<Rightarrow> char list option \<Rightarrow> int \<times> u32 option \<times> char list option" where
  "wifi_get_ring_buffers_status_dummy env num_rings status =
     (case (num_rings, status) of
        (Some n, Some st) \<Rightarrow> (WIFI_SUCCESS env, Some 1, Some (copy_over 1 (strncpy_bytes ''dummy'' 1) (replicate (length st) NUL)))
      | _ \<Rightarrow> (WIFI_ERROR_INVALID_ARGS env, num_rings, status))"

definition wifi_get_logger_supported_feature_set_dummy :: "wifi_env \<Rightarrow> u32 option \<Rightarrow> int \<times> u32 option" where
  "wifi_get_logger_supported_feature_set_dummy env support =
     (if support \<noteq> None then (WIFI_SUCCESS env, Some 0) else (WIFI_ERROR_INVALID_ARGS env, support))"

definition wifi_start_logging_dummy :: "wifi_env \<Rightarrow> string option \<Rightarrow> int" where
  "wifi_start_logging_dummy env ring_name = (if ring_name \<noteq> None then WIFI_SUCCESS env else WIFI_ERROR_INVALID_ARGS env)"

section \<open>What the lookup finds\<close>

text \<open>The kernel sends names with their terminating zero; then the comparison, which only looks at as many bytes as the attribute has, is
  equality.\<close>

lemma strncmp_zero_name:
  "0 \<notin> set xs \<Longrightarrow> 0 \<notin> set ys \<Longrightarrow> strncmp_zero (length (xs @ [0])) (xs @ [0]) (ys @ [0]) \<longleftrightarrow> xs = ys"
proof (induction xs arbitrary: ys)
  case Nil
  then show ?case by (cases ys) auto
next
  case (Cons x xs)
  then show ?case by (cases ys) auto
qed

text \<open>A group as the kernel describes it.\<close>

definition group_of :: "wifi_env \<Rightarrow> ctrl_env \<Rightarrow> int \<times> u8 list \<Rightarrow> u8 list \<Rightarrow> u8 list \<Rightarrow> bool" where
  "group_of env ce x name i \<longleftrightarrow> 0 \<notin> set name \<and> length i = 4 \<and>
     parsed (x_attrs env (snd x)) (CTRL_ATTR_MCAST_GRP_NAME ce) = Some (name @ [0]) \<and>
     parsed (x_attrs env (snd x)) (CTRL_ATTR_MCAST_GRP_ID ce) = Some i"

text \<open>The number that is found is that of the first group with the name that was asked for, and stays what it was if there is none.\<close>

lemma multicast_id_exact:
  assumes "list_all2 (\<lambda>x (name, i). group_of env ce x name i) xs gs" and "0 \<notin> set mGroup"
  shows "loop (group_attr env ce mGroup) xs m = Inr (case map_of gs mGroup of None \<Rightarrow> m | Some i \<Rightarrow> sint (u32_at 0 i))"
  using assms(1)
proof (induction rule: list_all2_induct)
  case (Cons x xs g gs)
  obtain name i where g: "g = (name, i)" by (cases g)
  with Cons(1) have "group_attr env ce mGroup x m = (if name = mGroup then Inr (False, sint (u32_at 0 i)) else Inr (True, m))"
    using assms(2) strncmp_zero_name [of name mGroup] by (auto simp: group_attr_def group_of_def readable_def)
  then show ?case using g Cons(3) by simp
qed simp

text \<open>Two sockets of one process have different ports if the numbers differ in their ten low bits.\<close>

lemma ports_differ:
  assumes "wifi_socket_set_local_port pid p = wifi_socket_set_local_port pid q"
  shows "take_bit 10 p = take_bit 10 q"
proof -
  have "push_bit 22 p = push_bit 22 q" using assms by (simp add: wifi_socket_set_local_port_def)
  then have e: "bit (push_bit 22 p) (22 + n) = bit (push_bit 22 q) (22 + n)" for n by simp
  have "bit p n = bit q n" if "n < 10" for n using e [of n] that by (simp add: bit_simps)
  then show ?thesis by (auto intro!: bit_word_eqI simp: bit_simps)
qed

end
