(* ===== verification/Spec2Isabelle.thy ===== *)
theory Spec2Isabelle
  imports XD_Prelude C_String Vk_Base Handle_Table Vk_Image Vk_Cache Vk_Cache_File Vk_Calls Vk_Cache_Conc
    Vk_Scratch Vk_Blit Vk_Suppress Vk_Device Vk_ProcAddr Vk_Worker Audio_Mixer Audio_Stream
    Audio_Device Audio_Invariant Audio_Pcms Audio_Props Hdmi_Daemon Hdmi_Tool Avc_Daemon Wpa_Driver
    Dp_Common Dp_Async Dp_Async_Props Dp_Blit Dp_Consumer Sensor_Queue Sensor_Hal Sensor_Props
    Sensor_Poll Sensor_Poll_Props Wifi_Msg Wifi_Requests Wifi_Event Wifi_Hal Wifi_Init Wifi_Props
    Wifi_Start Wifi_Safe Wifi_Life Wifi_Query Wifi_Shutdown Wifi_Group
begin

text \<open>
  \<^bold>\<open>Verification of the GPD XD+ device tree's native code\<close>

  The tree builds the vendor side of a LineageOS port. The parts with logic of their own are C and C++ programs:
  the Vulkan shim that stands between apps and the PowerVR blob, the audio HAL, the HDMI daemon and its
  tool, the SELinux denial logger, the driver commands of \<^verbatim>\<open>wpa_supplicant\<close>, the sensors multi-HAL, the Wi-Fi
  HAL, the blit sweeps. Each is
  modelled as functions on explicit states, one definition per function and with its name; what the
  code calls (the blob, the kernel, tinyalsa, the property service) is a parameter, a record of functions
  that answer from the history of the calls made so far, so that a theorem for every parameter holds
  whatever the other side does. Every call that leaves the program is appended to a log in the state,
  and most theorems speak about that log.

  \<^bold>\<open>Shared theories.\<close> \<open>XD_Prelude\<close>: machine integers, handles, the fixed-size tables the C code scans
  (first index of an entry, keyed lists) and the collections of simplification rules. \<open>C_String\<close>: the C
  string functions the sources use. \<open>Handle_Table\<close>: the locale \<open>handle_table\<close>, the contract of a scanned
  table (look up after insert, delete and update, the well-formedness each keeps) and its refinement of a
  map; interpreted for the image table (\<open>Vk_Image\<close>) and the command-buffer table (\<open>Vk_Scratch\<close>).

  \<^bold>\<open>The Vulkan shim\<close>, \<^verbatim>\<open>src/vulkan/vkshim.c\<close>. One record that grows by extension from theory to theory holds
  the statics of the file.
  \<^item> \<open>Vk_Base\<close>: the blob and the system as \<open>env\<close>, the call log, the file store, property gates, entry points.
  \<^item> \<open>Vk_Image\<close>: image metadata; from any sequence of creations and destructions the table refines a map.
  \<^item> \<open>Vk_Cache\<close>, \<open>Vk_Calls\<close>, \<open>Vk_Cache_File\<close>, \<open>Vk_Cache_Conc\<close>: the per-device pipeline cache, its file, and compile
    batches. Shown: a save is atomic and bounded, a stale cache is dropped once; and, over an inductive
    step relation whose steps are the critical sections of \<^verbatim>\<open>cache_mu\<close> and the gaps between them, for any
    number of threads, that the shared cache has at most one writer and is not touched by anyone else
    meanwhile, and who is the last user of an app's cache.
  \<^item> \<open>Vk_Worker\<close>: the caller/worker handshake with its mutex and condition variables, as a step relation with
    spurious wake-ups. Every call runs once and returns its own result; no deadlock, no lost wake-up (a
    variant bounds every run by twelve steps); the worker is gone before its memory is freed.
  \<^item> \<open>Vk_Scratch\<close>: command buffers and their scratch images. Device attribution refines an ownership map
    through every hook; scratch images are released once, on the right device, before a re-recording.
  \<^item> \<open>Vk_Blit\<close>: the emulation of blits between mip levels, against a semantics of copies and blits on texels
    (the filter is a parameter); no blit the driver gets wrong reaches it.
  \<^item> \<open>Vk_Suppress\<close>: the null-framebuffer guard contains a pass that was never begun.
  \<^item> \<open>Vk_Device\<close>, \<open>Vk_ProcAddr\<close>: extensions, properties, device life cycle, both proc-addr tables, the HAL module.

  \<^bold>\<open>The audio HAL\<close>, \<^verbatim>\<open>src/audio/audio_hw.c\<close>. \<open>Audio_Mixer\<close> (controls and routes; the locale \<open>counted_route\<close> is
  the contract of a reference-counted route, interpreted for playback and capture), \<open>Audio_Stream\<close>,
  \<open>Audio_Device\<close> (every operation, and a run of any sequence of them), \<open>Audio_Invariant\<close> (on a card
  whose mixer opens and takes every setting, amplifiers, capture path and references agree with the streams after any run),
  \<open>Audio_Pcms\<close> (whatever the mixer does, the open PCMs are those of the streams) and \<open>Audio_Props\<close>. Volumes are reals; a
  parameter rounds them as float arithmetic would.

  \<^bold>\<open>HDMI\<close>, \<^verbatim>\<open>src/hdmi\<close>. \<open>Hdmi_Daemon\<close>: the uevent scan, the debouncing main loop over what the socket delivers,
  and the timer thread's steps, interleaved with the main loop's calls. \<open>Hdmi_Tool\<close>: \<^verbatim>\<open>hdmictl\<close>, and its composition with the daemon.

  \<^bold>\<open>Denial logger\<close>, \<^verbatim>\<open>src/avcd/xdplus_avcd.c\<close>: \<open>Avc_Daemon\<close>. Files are inodes, so that a descriptor follows a
  rename. Denials are written once however the reads cut them; in a run whose calls succeed the log is
  bounded by a fixed size or by what the run found.

  \<^bold>\<open>Driver commands\<close>, \<^verbatim>\<open>src/wpa_supplicant\<close>: \<open>Wpa_Driver\<close>. Undefined behaviour is a value of the model, so that its
  absence is a theorem.

  \<^bold>\<open>Sensors\<close>, \<^verbatim>\<open>src/sensors\<close>: the multi-HAL that merges several sensor HALs into one. \<open>Sensor_Queue\<close>: the circular queue
  between a sub-HAL and \<^verbatim>\<open>poll\<close>, whose contract is the locale \<open>event_queue\<close>. \<open>Sensor_Hal\<close>: loading and opening, the handle
  maps, the merged list, the calls passed on; \<open>Sensor_Props\<close>: the handles of the list are a bijection onto the sub-HALs'
  sensors, calls reach the device of their sensor when every module opens, and exactly which failures crash the list.
  \<open>Sensor_Poll\<close>: one writer thread per sub-HAL and the reader, as a step relation; \<open>Sensor_Poll_Props\<close>: each event is
  delivered once and in order, no wake-up is lost, the scan ends.

  \<^bold>\<open>The Wi-Fi HAL\<close>, \<^verbatim>\<open>src/wifi\<close>: requests to the driver over netlink and the events it sends back. libnl, the driver and the
  framework's callbacks are parameters or the log.
  \<^item> \<open>Wifi_Msg\<close>, \<open>Wifi_Requests\<close>: \<^verbatim>\<open>WifiRequest\<close>, and each method that fills one as a program of puts, nests and early
    returns. With counts within their arrays, reading a scan request back gives what was asked for; a message that is too small gives an error.
  \<^item> \<open>Wifi_Event\<close>: what each command does with the raw bytes of an event, truncated attributes included.
  \<^item> \<open>Wifi_Hal\<close>: the handler table and the command table, reference counts, request and response, starting and
    cancelling each class of command, the dispatch of an event. \<open>Wifi_Props\<close>: the locale \<open>bounded_table\<close>, the contract of
    an array with a counter and removal by moving down, interpreted for both tables.
  \<^item> \<open>Wifi_Init\<close>: interfaces, \<^verbatim>\<open>wifi_initialize\<close>, the command loop of \<^verbatim>\<open>wifi_cleanup\<close>.
  \<^item> \<open>Wifi_Start\<close>, \<open>Wifi_Safe\<close>, \<open>Wifi_Life\<close>: the life of a command as a step relation. Calls of the framework are made one
    at a time; a cancel is three steps (taken out of the table, run, dropped), a dispatch three (entered, run, left), so
    that the two threads interleave. Shown: no freed command is used, every command is in the table, in a
    dispatch or being cancelled, and clean-up releases all of them, provided that request ids and the events of running commands
    are not shared; without it a freed command is reached, which is a theorem too. That clean-up runs to its end needs a
    driver that answers (\<open>answers\<close>), since the reply loop has no timeout.
  \<^item> \<open>Wifi_Shutdown\<close>: the threads of \<^verbatim>\<open>wifi_event_loop\<close> and \<^verbatim>\<open>wifi_cleanup\<close> around that system, with the exchange over the socket pair. Shown:
    the loop is gone before what it uses is freed, and the shutdown ends, each of its steps succeeding, if the loop is there and the driver answers, and never if the loop is
    gone; a rank bounds its steps. The discipline of request ids and events is part of the steps (\<open>sallowed\<close>).
  \<^item> \<open>Wifi_Group\<close>: the lookup of a multicast group's number (the first group of that name) and the entries that do nothing.
  \<^item> \<open>Wifi_Query\<close>: capabilities, channels, cached scan results and the other queries: the loop over the replies and
    what is copied to the caller, within the caller's arrays.

  \<^bold>\<open>Blit sweeps\<close>, \<^verbatim>\<open>src/dpasyncsweep\<close> and \<^verbatim>\<open>src/dpblitsweep\<close>: the programs that drive the display blitter through a table of
  cases and checksum what it wrote. \<open>Dp_Common\<close> holds what they share and the locales \<open>plane_layout\<close> and \<open>case_loop\<close>, both
  interpreted for the sweeps; \<open>Dp_Async\<close> with \<open>Dp_Async_Props\<close>, \<open>Dp_Blit\<close>, and \<open>Dp_Consumer\<close> for
  \<^verbatim>\<open>src/dpconsumerprobe\<close>, which compares the ways of binding a buffer. Shown, for every answer of ION and the blitter:
  no read leaves a table or a buffer except for the arguments named, every descriptor, fence and mapping is given
  back, the verdict on a blit that wrote nothing is exact, a binding's
  verdict is exact, and the source picture can tell axes apart.

  \<^bold>\<open>Loops and bounds.\<close> One loop uses fuel: that of \<^verbatim>\<open>wifi_cleanup\<close>, with as much
  fuel as there are commands, which is shown to be enough. Loops over tables are folds or first-index searches; loops
  over input are recursive on the input with a termination proof; the scan of the sensor queues, which ends only on
  well-formed queues, is a partial function that is shown to be defined in every reachable state; the reply loop of
  a Wi-Fi request runs over the messages libnl delivers and is undefined when none of them ends it; endless loops (the two daemons) run over
  the list of events their system delivers and report that they have not returned.

  \<^bold>\<open>Not modelled.\<close> Log lines; the memory orders of the suppression table's atomics (its operations are taken
  in one order); stack sizes; function-pointer tables and module descriptors that are only data. Of the
  tree: the C++ vendor services (keymaster, configstore, health, OMX, HWC shim) and
  link-time shims, the Java settings app, build files and policy, the driver test programs and the
  GL texture probe. Of the Wi-Fi HAL: the function table, functions that nothing calls (\<^verbatim>\<open>requestEvent\<close>, \<^verbatim>\<open>parseScanResults\<close>),
  and the unlocked accesses to the command table, each of which is taken as one step. A failure of the exchange over the socket pair is a step
  of the model, which the theorems about the shutdown exclude.
\<close>

end
